(* ===== verification/Py_Prelude.thy ===== *)
theory Py_Prelude
  imports Main "HOL-Library.Word" "HOL-Library.Multiset"
begin

text \<open>
  The part of Python 2 and of its standard library that the controller's code uses, as HOL
  functions: exceptions as values, byte strings, slices, and the \<^verbatim>\<open>struct\<close> module.
  A Python 2 \<^verbatim>\<open>str\<close> is a sequence of bytes and so is HOL's \<^typ>\<open>string\<close>; Python's unbounded
  integers are \<^typ>\<open>int\<close>. The lemmas on packing and unpacking in this theory carry the
  round-trip proofs of every wire structure of the library.
\<close>

unbundle bit_operations_syntax

named_theorems codec \<open>equations that run a pack or an unpack method on symbolic input\<close>
named_theorems codec_defs \<open>the definitions of the pack and unpack methods\<close>

subsection \<open>Exceptions as values\<close>

datatype py_error =
    StructError
  | RuntimeError
  | AssertionError
  | TypeError
  | ValueError
  | AttributeError
  | NameError
  | IndexError
  | KeyError
  | NotImplementedError
  | SocketError
  | SystemExit
  | VNSProtocolException

type_synonym 'a result = "py_error + 'a"
type_synonym bytes = string

text \<open>Sequencing: the first exception aborts the rest.\<close>

definition bindE :: "'a result \<Rightarrow> ('a \<Rightarrow> 'b result) \<Rightarrow> 'b result" where
  "bindE r f = (case r of Inl e \<Rightarrow> Inl e | Inr v \<Rightarrow> f v)"

lemma bindE_simps [simp]:
  "bindE (Inl e) f = Inl e"
  "bindE (Inr v) f = f v"
  by (simp_all add: bindE_def)

lemma bindE_Inr_iff [codec]:
  "bindE r f = Inr w \<longleftrightarrow> (\<exists>v. r = Inr v \<and> f v = Inr w)"
  by (simp add: bindE_def split: sum.splits)

lemma bindE_InrE [elim!]:
  assumes "bindE r f = Inr w"
  obtains v where "r = Inr v" and "f v = Inr w"
  using assms by (auto simp: bindE_Inr_iff)

lemma bindE_cong [fundef_cong]:
  "r = r' \<Longrightarrow> (\<And>v. r' = Inr v \<Longrightarrow> f v = g v) \<Longrightarrow> bindE r f = bindE r' g"
  by (cases r') auto

text \<open>A list comprehension whose condition may raise.\<close>

fun filterE :: "('a \<Rightarrow> bool result) \<Rightarrow> 'a list \<Rightarrow> 'a list result" where
  "filterE p [] = Inr []"
| "filterE p (x # xs) =
     bindE (p x) (\<lambda>t. bindE (filterE p xs) (\<lambda>ys. Inr (if t then x # ys else ys)))"

lemma filterE_pure:
  "\<forall>x \<in> set xs. p x = Inr (q x) \<Longrightarrow> filterE p xs = Inr (filter q xs)"
  by (induction xs) auto

lemma filterE_Inr:
  "filterE p xs = Inr ys \<Longrightarrow> ys = filter (\<lambda>x. p x = Inr True) xs"
  by (induction xs arbitrary: ys) (auto split: if_splits)

subsection \<open>Statements\<close>

text \<open>A statement ends normally or raises; in both cases it leaves a state.\<close>

type_synonym 's stmt = "'s \<Rightarrow> py_error option \<times> 's"

definition update :: "('s \<Rightarrow> 's) \<Rightarrow> 's stmt" where
  "update f s = (None, f s)"

fun seq :: "'s stmt list \<Rightarrow> 's stmt" where
  "seq [] s = (None, s)"
| "seq (c # cs) s = (case c s of (None, s) \<Rightarrow> seq cs s | (Some e, s) \<Rightarrow> (Some e, s))"

lemma seq_keeps:
  assumes "P s" "\<And>c s. c \<in> set cs \<Longrightarrow> P s \<Longrightarrow> P (snd (c s))"
  shows "P (snd (seq cs s))"
  using assms
proof (induction cs arbitrary: s)
  case (Cons c cs)
  show ?case using Cons.prems(1) Cons.prems(2) [of c s] Cons.IH [of "snd (c s)"] Cons.prems(2)
    by (cases "c s") (auto split: option.splits)
qed simp

lemma seq_append: "seq (cs @ ds) s = (case seq cs s of (None, s) \<Rightarrow> seq ds s | (Some e, s) \<Rightarrow> (Some e, s))"
  by (induction cs arbitrary: s) (auto split: prod.split option.split)

subsection \<open>Sorting\<close>

text \<open>Appending to a sorted list and sorting again, which is stable, puts the element behind its equals.\<close>

lemma sort_key_snoc:
  assumes "sorted (map f xs)"
  shows "sort_key f (xs @ [x]) = takeWhile (\<lambda>y. f y \<le> f x) xs @ x # dropWhile (\<lambda>y. f y \<le> f x) xs"
  using assms
proof (induction xs)
  case (Cons y ys)
  have "sort_key f ys = ys" using Cons.prems by (simp add: sort_key_id_if_sorted)
  moreover have "insort_key f y (takeWhile (\<lambda>z. f z \<le> f x) ys @ x # dropWhile (\<lambda>z. f z \<le> f x) ys) =
      takeWhile (\<lambda>z. f z \<le> f x) (y # ys) @ x # dropWhile (\<lambda>z. f z \<le> f x) (y # ys)"
    using Cons.prems by (cases ys) auto
  ultimately show ?case using Cons by simp
qed simp

subsection \<open>Byte strings\<close>

abbreviation NUL :: char where
  "NUL \<equiv> CHR 0x00"

text \<open>\<^verbatim>\<open>s.ljust(n, '\0')\<close>: never truncates.\<close>

definition ljust :: "nat \<Rightarrow> bytes \<Rightarrow> bytes" where
  "ljust n s = s @ replicate (n - length s) NUL"

text \<open>\<^verbatim>\<open>s.replace("\0", "")\<close>: drops every zero byte, not only the padding.\<close>

definition strip_nul :: "bytes \<Rightarrow> bytes" where
  "strip_nul s = filter (\<lambda>c. c \<noteq> NUL) s"

text \<open>\<^verbatim>\<open>s[i:j]\<close> for non-negative bounds: out of range bounds are clamped.\<close>

definition slice :: "nat \<Rightarrow> nat \<Rightarrow> 'a list \<Rightarrow> 'a list" where
  "slice i j s = take (j - i) (drop i s)"

text \<open>A slice bound of arbitrary sign: a negative bound counts from the end.\<close>

definition slice_bound :: "'a list \<Rightarrow> int \<Rightarrow> nat" where
  "slice_bound s i = (if i < 0 then nat (int (length s) + i) else nat i)"

definition drop_int :: "int \<Rightarrow> 'a list \<Rightarrow> 'a list" where
  "drop_int i s = drop (slice_bound s i) s"

definition slice_int :: "nat \<Rightarrow> int \<Rightarrow> 'a list \<Rightarrow> 'a list" where
  "slice_int i j s = slice i (slice_bound s j) s"

lemma length_ljust [simp]: "length s \<le> n \<Longrightarrow> length (ljust n s) = n"
  by (simp add: ljust_def)

lemma strip_nul_append [simp]: "strip_nul (s @ t) = strip_nul s @ strip_nul t"
  by (simp add: strip_nul_def)

lemma strip_nul_ljust [simp]: "strip_nul (ljust n s) = strip_nul s"
  by (simp add: ljust_def strip_nul_def)

lemma strip_nul_id: "NUL \<notin> set s \<Longrightarrow> strip_nul s = s"
  unfolding strip_nul_def by (rule filter_True) auto

lemma slice_append_left [simp]: "length s = j \<Longrightarrow> slice 0 j (s @ t) = s"
  by (simp add: slice_def)

lemma slice_skip [simp]:
  "length s = k \<Longrightarrow> k \<le> i \<Longrightarrow> slice i j (s @ t) = slice (i - k) (j - k) t"
  by (simp add: slice_def)

lemma drop_int_of_nat [simp]: "drop_int (int n) s = drop n s"
  by (simp add: drop_int_def slice_bound_def)

lemma drop_int_nonneg: "0 \<le> i \<Longrightarrow> drop_int i s = drop (nat i) s"
  by (simp add: drop_int_def slice_bound_def)

lemma slice_int_of_nat [simp]: "slice_int i (int j) s = slice i j s"
  by (simp add: slice_int_def slice_bound_def)

subsection \<open>Big-endian integers\<close>

primrec be_bytes :: "nat \<Rightarrow> int \<Rightarrow> bytes" where
  "be_bytes 0 v = []"
| "be_bytes (Suc n) v = be_bytes n (v div 256) @ [char_of (v mod 256)]"

definition be_value :: "bytes \<Rightarrow> int" where
  "be_value s = foldl (\<lambda>a c. a * 256 + of_char c) 0 s"

lemma length_be_bytes [simp]: "length (be_bytes n v) = n"
  by (induction n arbitrary: v) auto

lemma be_value_Nil [simp]: "be_value [] = 0"
  by (simp add: be_value_def)

lemma be_value_snoc: "be_value (s @ [c]) = be_value s * 256 + of_char c"
  by (simp add: be_value_def)

lemma of_char_range: "0 \<le> (of_char c :: int)" "(of_char c :: int) < 256"
proof -
  have "(of_char c :: int) = int (of_char c)" by (rule of_nat_of_char [symmetric])
  moreover have "(of_char c :: nat) < 256" by (rule nat_of_char_less_256)
  ultimately show "0 \<le> (of_char c :: int)" "(of_char c :: int) < 256" by linarith+
qed

lemma be_value_be_bytes: "be_value (be_bytes n v) = v mod 256 ^ n"
proof (induction n arbitrary: v)
  case 0
  then show ?case by simp
next
  case (Suc n)
  have "be_value (be_bytes (Suc n) v) = (v div 256) mod 256 ^ n * 256 + v mod 256"
    by (simp add: be_value_snoc Suc.IH)
  also have "\<dots> = v mod (256 * 256 ^ n)"
    by (subst zmod_zmult2_eq) (simp_all add: mult.commute)
  finally show ?case by simp
qed

lemma be_value_bounds: "0 \<le> be_value s \<and> be_value s < 256 ^ length s"
proof (induction s rule: rev_induct)
  case Nil
  then show ?case by simp
next
  case (snoc c s)
  have "be_value s * 256 + of_char c < (be_value s + 1) * 256"
    using of_char_range [of c] by simp
  also have "\<dots> \<le> 256 ^ length s * 256"
    using snoc.IH by (intro mult_right_mono) auto
  finally show ?case
    using snoc.IH of_char_range [of c] by (simp add: be_value_snoc)
qed

lemma be_bytes_be_value: "be_bytes (length s) (be_value s) = s"
proof (induction s rule: rev_induct)
  case Nil
  then show ?case by simp
next
  case (snoc c s)
  have "(be_value s * 256 + of_char c) div 256 = be_value s"
    using of_char_range [of c] by simp
  moreover have "(be_value s * 256 + of_char c) mod 256 = of_char c"
    using of_char_range [of c] by simp
  ultimately show ?case
    using snoc.IH by (simp add: be_value_snoc del: div_mult_self3 div_mult_self4)
qed

text \<open>On a little-endian host the native byte order is the reverse of the network's.\<close>

definition bswap32 :: "int \<Rightarrow> int" where
  "bswap32 v = be_value (rev (be_bytes 4 v))"

lemma bswap32_range: "0 \<le> bswap32 v" "bswap32 v < 2 ^ 32"
  using be_value_bounds [of "rev (be_bytes 4 v)"] by (simp_all add: bswap32_def)

lemma bswap32_bswap32: "bswap32 (bswap32 v) = v mod 2 ^ 32"
proof -
  have "be_bytes 4 (be_value (rev (be_bytes 4 v))) = rev (be_bytes 4 v)"
    using be_bytes_be_value [of "rev (be_bytes 4 v)"] by simp
  then show ?thesis
    by (simp add: bswap32_def be_value_be_bytes)
qed

subsection \<open>The struct module\<close>

text \<open>
  Formats are the strings of the source. All of them start with the byte order mark
  \<^verbatim>\<open>!\<close> (network order, no alignment). A value out of the range of its code, a wrong number of
  values and an unknown code raise \<^verbatim>\<open>struct.error\<close>.
\<close>

definition code_size :: "char \<Rightarrow> nat" where
  "code_size c =
     (if c = CHR ''B'' \<or> c = CHR ''x'' then 1
      else if c = CHR ''H'' then 2
      else if c = CHR ''L'' \<or> c = CHR ''I'' \<or> c = CHR ''l'' \<or> c = CHR ''i'' then 4
      else if c = CHR ''Q'' then 8 else 0)"

definition code_signed :: "char \<Rightarrow> bool" where
  "code_signed c \<longleftrightarrow> c = CHR ''l'' \<or> c = CHR ''i''"

definition code_min :: "char \<Rightarrow> int" where
  "code_min c = (if code_signed c then - (2 ^ (8 * code_size c - 1)) else 0)"

definition code_max :: "char \<Rightarrow> int" where
  "code_max c = (if code_signed c then 2 ^ (8 * code_size c - 1) else 2 ^ (8 * code_size c))"

definition code_decode :: "char \<Rightarrow> bytes \<Rightarrow> int" where
  "code_decode c b = (let v = be_value b in if v < code_max c then v else v - 2 ^ (8 * code_size c))"

fun struct_pack :: "string \<Rightarrow> int list \<Rightarrow> bytes result" where
  "struct_pack [] [] = Inr []"
| "struct_pack [] (v # vs) = Inl StructError"
| "struct_pack (c # cs) vs =
     (if c = CHR ''!'' then struct_pack cs vs
      else if c = CHR ''x'' then bindE (struct_pack cs vs) (\<lambda>b. Inr (NUL # b))
      else if code_size c = 0 then Inl StructError
      else case vs of [] \<Rightarrow> Inl StructError
        | v # vs' \<Rightarrow>
            if code_min c \<le> v \<and> v < code_max c
            then bindE (struct_pack cs vs') (\<lambda>b. Inr (be_bytes (code_size c) v @ b))
            else Inl StructError)"

fun struct_calcsize :: "string \<Rightarrow> nat" where
  "struct_calcsize [] = 0"
| "struct_calcsize (c # cs) = code_size c + struct_calcsize cs"

text \<open>The number of values a format takes.\<close>

fun struct_arity :: "string \<Rightarrow> nat" where
  "struct_arity [] = 0"
| "struct_arity (c # cs) = (if c = CHR ''!'' \<or> c = CHR ''x'' then 0 else 1) + struct_arity cs"

fun struct_fields :: "string \<Rightarrow> bytes \<Rightarrow> int list" where
  "struct_fields [] b = []"
| "struct_fields (c # cs) b =
     (if c = CHR ''!'' then struct_fields cs b
      else if c = CHR ''x'' then struct_fields cs (drop 1 b)
      else code_decode c (take (code_size c) b) # struct_fields cs (drop (code_size c) b))"

definition struct_unpack_from :: "string \<Rightarrow> bytes \<Rightarrow> nat \<Rightarrow> int list result" where
  "struct_unpack_from f b off =
     (if length b < off + struct_calcsize f then Inl StructError
      else Inr (struct_fields f (drop off b)))"

lemma struct_unpack_from_ok [codec]:
  "off + struct_calcsize f \<le> length b \<Longrightarrow>
   struct_unpack_from f b off = Inr (struct_fields f (drop off b))"
  by (simp add: struct_unpack_from_def)

text \<open>\<^verbatim>\<open>struct.unpack\<close> wants a buffer of exactly the size of the format.\<close>

definition struct_unpack :: "string \<Rightarrow> bytes \<Rightarrow> int list result" where
  "struct_unpack f b =
     (if length b \<noteq> struct_calcsize f then Inl StructError else Inr (struct_fields f b))"

text \<open>\<^verbatim>\<open>packed += a; packed += b; ...\<close>\<close>

fun concatE :: "bytes result list \<Rightarrow> bytes result" where
  "concatE [] = Inr []"
| "concatE (p # ps) = bindE p (\<lambda>a. bindE (concatE ps) (\<lambda>b. Inr (a @ b)))"

text \<open>\<^verbatim>\<open>packed += x.pack()\<close> where the inner \<^verbatim>\<open>pack\<close> may have returned \<^verbatim>\<open>None\<close>.\<close>

definition needE :: "'a option result \<Rightarrow> 'a result" where
  "needE r = bindE r (\<lambda>v. case v of None \<Rightarrow> Inl TypeError | Some b \<Rightarrow> Inr b)"

lemma needE_Inr_iff [codec]: "needE r = Inr b \<longleftrightarrow> r = Inr (Some b)"
  by (auto simp: needE_def bindE_def split: sum.splits option.splits)

lemma concatE_Inr_Cons [codec]:
  "concatE (p # ps) = Inr b \<longleftrightarrow> (\<exists>x y. p = Inr x \<and> concatE ps = Inr y \<and> b = x @ y)"
  by (auto simp: bindE_Inr_iff)

declare concatE.simps(2) [simp del]

lemma code_size_simps [simp]:
  "code_size (CHR ''!'') = 0"
  "code_size (CHR ''x'') = 1"
  "code_size (CHR ''B'') = 1"
  "code_size (CHR ''H'') = 2"
  "code_size (CHR ''L'') = 4"
  "code_size (CHR ''I'') = 4"
  "code_size (CHR ''l'') = 4"
  "code_size (CHR ''i'') = 4"
  "code_size (CHR ''Q'') = 8"
  by (simp_all add: code_size_def)

text \<open>The laws of the module that the wire formats rest on.\<close>

lemma struct_pack_length: "struct_pack f vs = Inr b \<Longrightarrow> length b = struct_calcsize f"
  by (induction f vs arbitrary: b rule: struct_pack.induct)
    (auto split: if_splits list.splits)

lemma struct_pack_arity: "struct_pack f vs = Inr b \<Longrightarrow> length vs = struct_arity f"
  by (induction f vs arbitrary: b rule: struct_pack.induct)
    (auto split: if_splits list.splits)

lemma struct_fields_arity [simp]: "length (struct_fields f b) = struct_arity f"
  by (induction f arbitrary: b) auto

lemma code_decode_be_bytes:
  assumes "code_min c \<le> v" "v < code_max c"
  shows "code_decode c (be_bytes (code_size c) v) = v"
proof (cases "code_size c")
  case 0
  then have "\<not> code_signed c" by (auto simp: code_signed_def)
  with 0 assms show ?thesis by (simp add: code_decode_def code_min_def code_max_def)
next
  case (Suc n)
  have pw: "(256::int) ^ code_size c = 2 ^ (8 * code_size c)"
    by (simp add: power_mult)
  have half: "(2::int) ^ (8 * code_size c) = 2 * 2 ^ (8 * code_size c - 1)"
    using Suc by (simp flip: power_Suc)
  show ?thesis
  proof (cases "0 \<le> v")
    case True
    then have "v mod 2 ^ (8 * code_size c) = v"
      using assms half by (intro mod_pos_pos_trivial) (auto simp: code_max_def split: if_splits)
    then show ?thesis
      using assms by (simp add: code_decode_def be_value_be_bytes pw Let_def)
  next
    case False
    then have sg: "code_signed c" using assms by (auto simp: code_min_def split: if_splits)
    have "(v + 2 ^ (8 * code_size c)) mod 2 ^ (8 * code_size c) = v + 2 ^ (8 * code_size c)"
      using assms False sg half by (intro mod_pos_pos_trivial) (auto simp: code_min_def)
    then have "v mod 2 ^ (8 * code_size c) = v + 2 ^ (8 * code_size c)"
      by simp
    then show ?thesis
      using assms False sg half
      by (simp add: code_decode_def be_value_be_bytes pw Let_def code_min_def code_max_def)
  qed
qed

lemma struct_fields_pack [simp]:
  "struct_pack f vs = Inr b \<Longrightarrow> struct_fields f (b @ r) = vs"
  by (induction f vs arbitrary: b rule: struct_pack.induct)
    (auto split: if_splits list.splits simp: code_decode_be_bytes)

lemma struct_fields_pack_end [simp]: "struct_pack f vs = Inr b \<Longrightarrow> struct_fields f b = vs"
  using struct_fields_pack [of f vs b "[]"] by simp

declare struct_pack.simps [simp del] struct_fields.simps [simp del]

text \<open>For evaluating a packing on concrete values.\<close>

lemmas struct_eval =
  struct_pack.simps struct_fields.simps code_min_def code_max_def code_signed_def code_decode_def
  be_value_def numeral_eq_Suc

text \<open>A format in two parts packs its parts.\<close>

lemma struct_pack_error: "struct_pack f vs = Inl e \<Longrightarrow> e = StructError"
  by (induction f vs arbitrary: e rule: struct_pack.induct)
    (auto simp: struct_pack.simps bindE_def split: if_splits list.splits sum.splits)

lemma struct_pack_append:
  "length vs = struct_arity f \<Longrightarrow>
   struct_pack (f @ g) (vs @ ws) = bindE (struct_pack f vs) (\<lambda>a. bindE (struct_pack g ws) (\<lambda>b. Inr (a @ b)))"
proof (induction f arbitrary: vs)
  case Nil
  then show ?case by (cases "struct_pack g ws") (auto simp: struct_pack.simps)
next
  case (Cons c f)
  have e: "\<And>u. struct_pack g ws = Inl u \<Longrightarrow> u = StructError" by (rule struct_pack_error)
  show ?case
  proof (cases "c = CHR ''!'' \<or> c = CHR ''x''")
    case True
    then show ?thesis using Cons by (auto simp: struct_pack.simps bindE_def split: sum.splits)
  next
    case False
    then obtain v us where vs: "vs = v # us" "length us = struct_arity f"
      using Cons.prems by (cases vs) auto
    then show ?thesis using False Cons.IH [OF vs(2)]
      by (auto simp: struct_pack.simps bindE_def split: sum.splits dest: e struct_pack_error)
  qed
qed

lemma struct_pack_inj:
  "struct_pack f vs = Inr b \<Longrightarrow> struct_pack f ws = Inr b \<Longrightarrow> vs = ws"
  using struct_fields_pack_end by blast

end
