(* ===== verification/Revent.thy ===== *)
theory Revent
  imports Py_Prelude "HOL-Library.AList" "HOL-Library.Product_Lexorder"
begin

text \<open>
  \<^verbatim>\<open>lib/revent/revent.py\<close>: event sources with their lists of listeners, subscription, removal and the
  loop that raises an event. The lists are objects: a removal binds a new list, a subscription
  appends to the bound one in place, and the loop walks the list that was bound when it began.
\<close>

subsection \<open>State\<close>

text \<open>An event type is a class, with its identity and name, or a string.\<close>

datatype event_key = Cls nat string | Nam string

record event =
  ev_type :: event_key
  ev_halt :: bool

record 'h listener =
  lt_priority :: "int option"
  lt_handler :: 'h
  lt_once :: bool
  lt_eid :: int

text \<open>
  \<open>es_events\<close> is \<^verbatim>\<open>_eventMixin_events\<close>, \<open>None\<close> where it is \<^verbatim>\<open>True\<close>; \<open>es_handlers\<close> binds event types to list
  objects in \<open>es_lists\<close>. \<open>es_next_eid\<close> is the global counter of listener identifiers.
\<close>

record 'h event_source =
  es_events :: "event_key list option"
  es_lists :: "nat \<Rightarrow> 'h listener list"
  es_handlers :: "(event_key \<times> nat) list"
  es_fresh :: nat
  es_next_eid :: int

text \<open>What a handler may return; the entries of a tuple count by their truth.\<close>

datatype event_return = RvNone | RvFalse | RvTrue | RvTuple "bool list" | RvOther

definition EventReturn :: "bool \<Rightarrow> bool \<Rightarrow> event_return" where
  "EventReturn halt remove = RvTuple [halt, remove]"

definition EventMixin_init :: "event_key list option \<Rightarrow> int \<Rightarrow> 'h event_source" where
  "EventMixin_init events n = \<lparr>es_events = events, es_lists = (\<lambda>_. []), es_handlers = [], es_fresh = 0, es_next_eid = n\<rparr>"

definition generateEventID :: "'h event_source \<Rightarrow> int \<times> 'h event_source" where
  "generateEventID src = (es_next_eid src + 1, src\<lparr>es_next_eid := es_next_eid src + 1\<rparr>)"

definition listeners :: "'h event_source \<Rightarrow> event_key \<Rightarrow> 'h listener list" where
  "listeners src k = (case map_of (es_handlers src) k of None \<Rightarrow> [] | Some a \<Rightarrow> es_lists src a)"

definition bind_list :: "event_key \<Rightarrow> 'h listener list \<Rightarrow> 'h event_source \<Rightarrow> 'h event_source" where
  "bind_list k xs src = src\<lparr>es_lists := (es_lists src)(es_fresh src := xs),
     es_handlers := AList.update k (es_fresh src) (es_handlers src), es_fresh := Suc (es_fresh src)\<rparr>"

subsection \<open>Subscribing\<close>

text \<open>\<^verbatim>\<open>None\<close> is below every number, and the sort is descending and stable.\<close>

definition sort_key_of :: "'h listener \<Rightarrow> int \<times> int" where
  "sort_key_of e = (case lt_priority e of None \<Rightarrow> (1, 0) | Some p \<Rightarrow> (0, - p))"

text \<open>\<^verbatim>\<open>byName\<close> looks for a class of that name; a declared string is no class.\<close>

fun class_named :: "event_key \<Rightarrow> event_key list \<Rightarrow> event_key option result" where
  "class_named k [] = Inr None"
| "class_named k (Nam n # es) = Inl TypeError"
| "class_named k (Cls i n # es) = (if Nam n = k then Inr (Some (Cls i n)) else class_named k es)"

definition event_named :: "event_key \<Rightarrow> bool \<Rightarrow> 'h event_source \<Rightarrow> event_key result" where
  "event_named k byName src =
     (case es_events src of
        None \<Rightarrow> Inr k
      | Some es \<Rightarrow>
          if k \<in> set es then Inr k
          else if byName then bindE (class_named k es) (\<lambda>r. case r of None \<Rightarrow> Inl RuntimeError | Some e \<Rightarrow> Inr e)
          else Inl RuntimeError)"

definition add_entry_in_place :: "nat \<Rightarrow> 'h listener \<Rightarrow> 'h event_source \<Rightarrow> 'h event_source" where
  "add_entry_in_place a e src =
     (let xs = es_lists src a @ [e]
      in src\<lparr>es_lists := (es_lists src)(a := if lt_priority e = None then xs else sort_key sort_key_of xs)\<rparr>)"

definition addListener ::
    "event_key \<Rightarrow> 'h \<Rightarrow> bool \<Rightarrow> int option \<Rightarrow> bool \<Rightarrow> 'h event_source \<Rightarrow> (event_key \<times> int) result \<times> 'h event_source" where
  "addListener eventType handler once priority byName src =
     (case event_named eventType byName src of
        Inl e \<Rightarrow> (Inl e, src)
      | Inr k \<Rightarrow>
          let src = (if map_of (es_handlers src) k = None then bind_list k [] src else src);
              (eid, src) = generateEventID src
          in (Inr (k, eid), add_entry_in_place (the (map_of (es_handlers src) k))
               \<lparr>lt_priority = priority, lt_handler = handler, lt_once = once, lt_eid = eid\<rparr> src))"

text \<open>\<^verbatim>\<open>autoBindEvents\<close>: \<open>methods\<close> are the callable attributes of the sink, in the order of \<^verbatim>\<open>dir\<close>.\<close>

definition key_name :: "event_key \<Rightarrow> string" where
  "key_name k = (case k of Cls _ n \<Rightarrow> n | Nam n \<Rightarrow> n)"

definition handled_event :: "string \<Rightarrow> string \<Rightarrow> string option" where
  "handled_event prefix m =
     (let p = ''_handle'' @ prefix @ ''_'' in if take (length p) m = p then Some (drop (8 + length prefix) m) else None)"

fun bind_methods ::
    "string \<Rightarrow> int option \<Rightarrow> (string \<Rightarrow> event_key option) \<Rightarrow> (string \<times> 'h) list \<Rightarrow> 'h event_source \<Rightarrow> (event_key \<times> int) list result \<times> 'h event_source" where
  "bind_methods prefix priority named [] src = (Inr [], src)"
| "bind_methods prefix priority named (mh # ms) src =
     (case Option.bind (handled_event prefix (fst mh)) named of
        None \<Rightarrow> bind_methods prefix priority named ms src
      | Some k \<Rightarrow> (case addListener k (snd mh) False priority False src of
          (Inl e, src) \<Rightarrow> (Inl e, src)
        | (Inr l, src) \<Rightarrow> (case bind_methods prefix priority named ms src of
            (Inl e, src) \<Rightarrow> (Inl e, src) | (Inr ls, src) \<Rightarrow> (Inr (l # ls), src))))"

definition autoBindEvents ::
    "(string \<times> 'h) list \<Rightarrow> string \<Rightarrow> int option \<Rightarrow> 'h event_source \<Rightarrow> (event_key \<times> int) list result \<times> 'h event_source" where
  "autoBindEvents methods prefix priority src =
     (let prefix = (if prefix \<noteq> [] \<and> hd prefix \<noteq> CHR ''_'' then ''_'' @ prefix else prefix)
      in case es_events src of
           None \<Rightarrow> (Inl TypeError, src)
         | Some es \<Rightarrow> bind_methods prefix priority (map_of (rev (map (\<lambda>k. (key_name k, k)) es))) methods src)"

subsection \<open>Removing\<close>

text \<open>\<^verbatim>\<open>handlerOrEID\<close>: the pair that \<^verbatim>\<open>addListener\<close> returned, its number, or the handler.\<close>

datatype 'h listener_ref = RefPair event_key int | RefEid int | RefHandler 'h

definition remove_at :: "('h listener \<Rightarrow> bool) \<Rightarrow> event_key \<Rightarrow> 'h event_source \<Rightarrow> bool \<times> 'h event_source" where
  "remove_at gone k src =
     (let xs = listeners src k; ys = filter (\<lambda>x. \<not> gone x) xs
      in (length xs \<noteq> length ys, bind_list k ys src))"

fun remove_all :: "('h listener \<Rightarrow> bool) \<Rightarrow> event_key list \<Rightarrow> 'h event_source \<Rightarrow> bool \<times> 'h event_source" where
  "remove_all gone [] src = (False, src)"
| "remove_all gone (k # ks) src =
     (case remove_at gone k src of (altered, src) \<Rightarrow> (case remove_all gone ks src of (a, src) \<Rightarrow> (altered \<or> a, src)))"

text \<open>
  Two forms do not work: a number with an event type reads the local \<^verbatim>\<open>handlers\<close> before it is assigned,
  and a handler without one reads the local \<^verbatim>\<open>l\<close>, after the first list was bound anew.
\<close>

definition removeListener :: "'h listener_ref \<Rightarrow> event_key option \<Rightarrow> 'h event_source \<Rightarrow> bool result \<times> 'h event_source" where
  "removeListener r eventType src =
     (case r of
        RefPair t eid \<Rightarrow>
          let k = (case eventType of None \<Rightarrow> t | Some k \<Rightarrow> k)
          in if map_of (es_handlers src) k = None then (Inl KeyError, src)
             else apfst Inr (remove_at (\<lambda>x. lt_eid x = eid) k src)
      | RefEid eid \<Rightarrow>
          (case eventType of
             None \<Rightarrow> apfst Inr (remove_all (\<lambda>x. lt_eid x = eid) (map fst (es_handlers src)) src)
           | Some k \<Rightarrow> (Inl NameError, src))
      | RefHandler h \<Rightarrow>
          (case eventType of
             None \<Rightarrow>
               (case es_handlers src of
                  [] \<Rightarrow> (Inr False, src)
                | (k, _) # _ \<Rightarrow> (Inl NameError, snd (remove_at (\<lambda>x. lt_handler x = h) k src)))
           | Some k \<Rightarrow>
               if map_of (es_handlers src) k = None then (Inl KeyError, src)
               else apfst Inr (remove_at (\<lambda>x. lt_handler x = h) k src)))"

fun removeListeners :: "'h listener_ref list \<Rightarrow> 'h event_source \<Rightarrow> bool result \<times> 'h event_source" where
  "removeListeners [] src = (Inr False, src)"
| "removeListeners (l # ls) src =
     (case removeListener l None src of
        (Inl e, src) \<Rightarrow> (Inl e, src)
      | (Inr altered, src) \<Rightarrow> (case removeListeners ls src of
          (Inl e, src) \<Rightarrow> (Inl e, src) | (Inr a, src) \<Rightarrow> (Inr (altered \<or> a), src)))"

definition remove_eid :: "int \<Rightarrow> 'h event_source \<Rightarrow> 'h event_source" where
  "remove_eid eid src = snd (removeListener (RefEid eid) None src)"

definition clearHandlers :: "'h event_source \<Rightarrow> 'h event_source" where
  "clearHandlers src = src\<lparr>es_handlers := []\<rparr>"

definition get_listener_count :: "'h event_source \<Rightarrow> nat" where
  "get_listener_count src = sum_list (map (\<lambda>(_, a). length (es_lists src a)) (es_handlers src))"

subsection \<open>Raising\<close>

text \<open>
  What a return value does. After \<^verbatim>\<open>None\<close> the loop goes on without a look at \<^verbatim>\<open>event.halt\<close>.
\<close>

definition removes :: "event_return \<Rightarrow> bool" where
  "removes rv \<longleftrightarrow> rv = RvFalse \<or> (case rv of RvTuple t \<Rightarrow> 2 \<le> length t \<and> t ! 1 | _ \<Rightarrow> False)"

definition stops :: "event_return \<Rightarrow> event \<Rightarrow> bool" where
  "stops rv ev =
     (case rv of
        RvNone \<Rightarrow> False
      | RvTrue \<Rightarrow> True
      | RvTuple t \<Rightarrow> t = [] \<or> t ! 0 \<or> ev_halt ev
      | _ \<Rightarrow> ev_halt ev)"

text \<open>
  The code of handlers is the argument \<open>invoke\<close>: it may change the event, its own state and the source, raise
  other events, subscribe and unsubscribe.
\<close>

type_synonym ('h, 'w) handlers =
  "'h \<Rightarrow> event \<Rightarrow> 'w \<times> 'h event_source \<Rightarrow> (event_return \<times> event) result \<times> 'w \<times> 'h event_source"

definition after_handler :: "'h listener \<Rightarrow> event_return \<Rightarrow> 'h event_source \<Rightarrow> 'h event_source" where
  "after_handler e rv src =
     (let src = (if lt_once e then remove_eid (lt_eid e) src else src)
      in if removes rv then remove_eid (lt_eid e) src else src)"

partial_function (option) raise_loop ::
    "('h, 'w) handlers \<Rightarrow> nat \<Rightarrow> nat \<Rightarrow> event \<Rightarrow> 'w \<times> 'h event_source \<Rightarrow> (event result \<times> 'w \<times> 'h event_source) option" where
  "raise_loop invoke a i ev st =
     (if length (es_lists (snd st) a) \<le> i then Some (Inr ev, st)
      else let e = es_lists (snd st) a ! i in
        (case invoke (lt_handler e) ev st of
           (Inl er, st) \<Rightarrow> Some (Inl er, st)
         | (Inr (rv, ev), (w, src)) \<Rightarrow>
             let src = after_handler e rv src
             in if stops rv ev then Some (Inr ev, (w, src)) else raise_loop invoke a (Suc i) ev (w, src)))"

text \<open>The argument of \<^verbatim>\<open>raiseEvent\<close>: an event, or its class with what calling the class gives.\<close>

datatype raised = RaiseEvent event | RaiseClass event_key "event result"

definition raise_on :: "('h, 'w) handlers \<Rightarrow> event \<Rightarrow> 'w \<times> 'h event_source \<Rightarrow> (event option result \<times> 'w \<times> 'h event_source) option" where
  "raise_on invoke ev st =
     (let src = snd st in
      if (case es_events src of None \<Rightarrow> False | Some es \<Rightarrow> ev_type ev \<notin> set es) then Some (Inl RuntimeError, st)
      else (case map_of (es_handlers src) (ev_type ev) of
         None \<Rightarrow> Some (Inr (Some ev), st)
       | Some a \<Rightarrow> map_option (\<lambda>(r, st). (bindE r (\<lambda>ev. Inr (Some ev)), st)) (raise_loop invoke a 0 ev st)))"

definition raiseEvent :: "('h, 'w) handlers \<Rightarrow> raised \<Rightarrow> 'w \<times> 'h event_source \<Rightarrow> (event option result \<times> 'w \<times> 'h event_source) option" where
  "raiseEvent invoke r st =
     (case r of
        RaiseEvent ev \<Rightarrow> raise_on invoke ev st
      | RaiseClass k new \<Rightarrow>
          if listeners (snd st) k = [] then Some (Inr None, st)
          else (case new of Inl e \<Rightarrow> Some (Inl e, st) | Inr ev \<Rightarrow> raise_on invoke (ev\<lparr>ev_type := k\<rparr>) st))"

definition raiseEventNoErrors :: "('h, 'w) handlers \<Rightarrow> raised \<Rightarrow> 'w \<times> 'h event_source \<Rightarrow> (event option \<times> 'w \<times> 'h event_source) option" where
  "raiseEventNoErrors invoke r st =
     map_option (\<lambda>(r, st). (case r of Inl _ \<Rightarrow> None | Inr ev \<Rightarrow> ev, st)) (raiseEvent invoke r st)"

subsection \<open>The order of listeners\<close>

text \<open>Higher priorities first, no priority last, and in the order of subscription among equals.\<close>

definition before :: "'h listener \<Rightarrow> 'h listener \<Rightarrow> bool" where
  "before x y \<longleftrightarrow> sort_key_of x < sort_key_of y \<or> sort_key_of x = sort_key_of y \<and> lt_eid x < lt_eid y"

definition es_ok :: "'h event_source \<Rightarrow> bool" where
  "es_ok src \<longleftrightarrow> distinct (map fst (es_handlers src)) \<and> distinct (map snd (es_handlers src)) \<and>
     (\<forall>(k, a) \<in> set (es_handlers src). a < es_fresh src) \<and>
     (\<forall>a. sorted_wrt before (es_lists src a) \<and> (\<forall>e \<in> set (es_lists src a). lt_eid e \<le> es_next_eid src))"

lemma before_trans: "before x y \<Longrightarrow> before y z \<Longrightarrow> before x z"
  by (auto simp: before_def)

lemma es_ok_init [simp]: "es_ok (EventMixin_init events n)"
  by (simp add: es_ok_def EventMixin_init_def)

lemma sorted_before: "sorted_wrt before xs \<Longrightarrow> sorted (map sort_key_of xs)"
  by (induction xs) (auto simp: before_def less_imp_le)

lemma none_last: "sort_key_of e \<le> (1, 0)"
  by (cases e) (auto simp: sort_key_of_def split: option.splits)

text \<open>Without a priority the new listener goes last, which is where the sort would put it.\<close>

lemma added_list:
  assumes "sorted_wrt before xs"
  shows "(if lt_priority e = None then xs @ [e] else sort_key sort_key_of (xs @ [e])) =
    takeWhile (\<lambda>y. sort_key_of y \<le> sort_key_of e) xs @ e # dropWhile (\<lambda>y. sort_key_of y \<le> sort_key_of e) xs"
proof (cases "lt_priority e")
  case None
  then have key: "sort_key_of e = (1, 0)" by (simp add: sort_key_of_def)
  have "\<forall>y \<in> set xs. sort_key_of y \<le> sort_key_of e" unfolding key using none_last by blast
  then have "takeWhile (\<lambda>y. sort_key_of y \<le> sort_key_of e) xs = xs" "dropWhile (\<lambda>y. sort_key_of y \<le> sort_key_of e) xs = []"
    by (simp_all add: takeWhile_eq_all_conv dropWhile_eq_Nil_conv)
  note tw = this
  show ?thesis unfolding tw using None by simp
qed (simp add: sort_key_snoc sorted_before assms)

lemma sorted_added:
  assumes "sorted_wrt before xs" "\<forall>y \<in> set xs. lt_eid y < lt_eid e"
  shows "sorted_wrt before (takeWhile (\<lambda>y. sort_key_of y \<le> sort_key_of e) xs @ e # dropWhile (\<lambda>y. sort_key_of y \<le> sort_key_of e) xs)"
proof -
  let ?P = "\<lambda>y. sort_key_of y \<le> sort_key_of e"
  have xs: "takeWhile ?P xs @ dropWhile ?P xs = xs" by simp
  have "\<forall>y \<in> set (takeWhile ?P xs). before y e"
    using assms(2) by (auto simp: before_def dest: set_takeWhileD)
  moreover have "\<forall>z \<in> set (dropWhile ?P xs). before e z"
  proof (cases "dropWhile ?P xs")
    case (Cons z zs)
    then have "\<not> ?P z" by (metis dropWhile_eq_Cons_conv)
    then have z: "before e z" by (simp add: before_def not_le)
    have "sorted_wrt before (z # zs)" using assms(1) xs Cons by (metis sorted_wrt_append)
    then show ?thesis using z Cons by (auto intro: before_trans)
  next
    case Nil
    show ?thesis unfolding Nil by simp
  qed
  moreover have "sorted_wrt before (takeWhile ?P xs @ dropWhile ?P xs)" using assms(1) by simp
  ultimately show ?thesis by (auto simp: sorted_wrt_append simp del: takeWhile_dropWhile_id intro: before_trans)
qed

lemma update_addresses:
  "v \<notin> snd ` set xs \<Longrightarrow> distinct (map snd xs) \<Longrightarrow> distinct (map snd (AList.update k v xs)) \<and> snd ` set (AList.update k v xs) \<subseteq> insert v (snd ` set xs)"
  by (induction xs) auto

lemma fresh_address: "es_ok src \<Longrightarrow> es_fresh src \<notin> snd ` set (es_handlers src)"
  by (fastforce simp: es_ok_def)

lemma es_ok_bind:
  assumes "es_ok src" "sorted_wrt before xs" "\<forall>e \<in> set xs. lt_eid e \<le> es_next_eid src"
  shows "es_ok (bind_list k xs src)"
proof -
  have "distinct (map snd (es_handlers src))" using assms(1) by (simp add: es_ok_def)
  note u = update_addresses [OF fresh_address [OF assms(1)] this, of k]
  have "a \<le> es_fresh src" if "(k', a) \<in> set (AList.update k (es_fresh src) (es_handlers src))" for k' a
  proof -
    have "a \<in> insert (es_fresh src) (snd ` set (es_handlers src))" using u that by force
    then show ?thesis using assms(1) by (fastforce simp: es_ok_def)
  qed
  then show ?thesis using assms u unfolding es_ok_def bind_list_def by (auto simp: distinct_update less_Suc_eq_le)
qed

lemma listeners_bind: "es_ok src \<Longrightarrow> listeners (bind_list k xs src) k' = (if k' = k then xs else listeners src k')"
  by (fastforce simp: listeners_def bind_list_def update_conv' es_ok_def dest: map_of_SomeD split: option.split)

lemma listeners_sorted: "es_ok src \<Longrightarrow> sorted_wrt before (listeners src k) \<and> (\<forall>e \<in> set (listeners src k). lt_eid e \<le> es_next_eid src)"
  by (auto simp: listeners_def es_ok_def split: option.split)

text \<open>Removing.\<close>

lemma remove_at_ok:
  assumes "es_ok src" "remove_at gone k src = (altered, src')"
  shows "es_ok src'" "listeners src' k' = (if k' = k then filter (\<lambda>x. \<not> gone x) (listeners src k) else listeners src k')"
    "altered \<longleftrightarrow> (\<exists>x \<in> set (listeners src k). gone x)" "es_next_eid src' = es_next_eid src"
    "es_lists src' = (es_lists src)(es_fresh src := filter (\<lambda>x. \<not> gone x) (listeners src k))" "es_fresh src' = Suc (es_fresh src)"
proof -
  have s: "src' = bind_list k (filter (\<lambda>x. \<not> gone x) (listeners src k)) src"
    and a: "altered \<longleftrightarrow> length (listeners src k) \<noteq> length (filter (\<lambda>x. \<not> gone x) (listeners src k))"
    using assms(2) by (simp_all add: remove_at_def Let_def)
  show "es_ok src'"
    unfolding s using listeners_sorted [OF assms(1)] by (intro es_ok_bind assms(1)) (auto intro: sorted_wrt_filter)
  show "listeners src' k' = (if k' = k then filter (\<lambda>x. \<not> gone x) (listeners src k) else listeners src k')"
    unfolding s by (rule listeners_bind [OF assms(1)])
  show "altered \<longleftrightarrow> (\<exists>x \<in> set (listeners src k). gone x)"
    unfolding a by (metis filter_True length_filter_less less_irrefl)
  show "es_next_eid src' = es_next_eid src" "es_fresh src' = Suc (es_fresh src)"
    "es_lists src' = (es_lists src)(es_fresh src := filter (\<lambda>x. \<not> gone x) (listeners src k))"
    by (simp_all add: s bind_list_def)
qed

lemma remove_all_ok:
  assumes "es_ok src" "distinct ks" "remove_all gone ks src = (altered, src')"
  shows "es_ok src' \<and> (\<forall>k. listeners src' k = (if k \<in> set ks then filter (\<lambda>x. \<not> gone x) (listeners src k) else listeners src k)) \<and>
    (altered \<longleftrightarrow> (\<exists>k \<in> set ks. \<exists>x \<in> set (listeners src k). gone x)) \<and> es_next_eid src' = es_next_eid src \<and>
    es_fresh src \<le> es_fresh src' \<and> (\<forall>a < es_fresh src. es_lists src' a = es_lists src a)"
  using assms
proof (induction ks arbitrary: src altered)
  case (Cons k ks)
  obtain al1 s1 where s1: "remove_at gone k src = (al1, s1)" by fastforce
  note r = remove_at_ok [OF Cons.prems(1) s1]
  obtain al2 where al2: "remove_all gone ks s1 = (al2, src')" "altered \<longleftrightarrow> al1 \<or> al2"
    using Cons.prems(3) s1 by (auto split: prod.splits)
  note i = Cons.IH [OF r(1) _ al2(1)]
  have k: "k \<notin> set ks" "distinct ks" using Cons.prems(2) by auto
  note i' = i [OF k(2)]
  have s1l: "listeners s1 k' = listeners src k'" if "k' \<in> set ks" for k' using r(2) [of k'] that k(1) by (metis)
  have "listeners src' k' = (if k' \<in> set (k # ks) then filter (\<lambda>x. \<not> gone x) (listeners src k') else listeners src k')" for k'
  proof (cases "k' \<in> set ks")
    case True
    then show ?thesis using i' s1l [OF True] by simp
  next
    case False
    then show ?thesis using i' r(2) [of k'] by simp
  qed
  moreover have "altered \<longleftrightarrow> (\<exists>k' \<in> set (k # ks). \<exists>x \<in> set (listeners src k'). gone x)"
  proof -
    have "al2 \<longleftrightarrow> (\<exists>k' \<in> set ks. \<exists>x \<in> set (listeners s1 k'). gone x)" using i' by blast
    then show ?thesis using s1l r(3) al2(2) by simp
  qed
  moreover have "es_fresh src \<le> es_fresh src'" using i' r(6) by linarith
  moreover have "es_lists src' a = es_lists src a" if "a < es_fresh src" for a
  proof -
    have "es_lists src' a = es_lists s1 a" using i' r(6) that by simp
    then show ?thesis using r(5) that by simp
  qed
  ultimately show ?case using i' r(4) by simp
qed simp

lemma listeners_unbound: "k \<notin> fst ` set (es_handlers src) \<Longrightarrow> listeners src k = []"
  by (simp add: listeners_def map_of_eq_None_iff [THEN iffD2])

lemma remove_eid_ok:
  assumes "es_ok src"
  shows "es_ok (remove_eid eid src)" "listeners (remove_eid eid src) k = filter (\<lambda>x. lt_eid x \<noteq> eid) (listeners src k)"
    "es_fresh src \<le> es_fresh (remove_eid eid src)" "a < es_fresh src \<Longrightarrow> es_lists (remove_eid eid src) a = es_lists src a"
    "es_next_eid (remove_eid eid src) = es_next_eid src"
proof -
  obtain al src' where r: "remove_all (\<lambda>x. lt_eid x = eid) (map fst (es_handlers src)) src = (al, src')" by fastforce
  have "distinct (map fst (es_handlers src))" using assms by (simp add: es_ok_def)
  note o = remove_all_ok [OF assms this r]
  have e: "remove_eid eid src = src'" by (simp add: remove_eid_def removeListener_def r)
  show "es_ok (remove_eid eid src)" "es_fresh src \<le> es_fresh (remove_eid eid src)" "a < es_fresh src \<Longrightarrow> es_lists (remove_eid eid src) a = es_lists src a"
    "es_next_eid (remove_eid eid src) = es_next_eid src"
    using o by (simp_all add: e)
  show "listeners (remove_eid eid src) k = filter (\<lambda>x. lt_eid x \<noteq> eid) (listeners src k)"
    using o listeners_unbound [of k src] by (simp add: e)
qed

lemma removeListener_ok: "es_ok src \<Longrightarrow> es_ok (snd (removeListener r t src))"
proof -
  assume ok: "es_ok src"
  have at: "es_ok (snd (remove_at gone k src))" for gone k
    using remove_at_ok(1) [OF ok prod.collapse [symmetric]] .
  have d: "distinct (map fst (es_handlers src))" using ok by (simp add: es_ok_def)
  have all: "es_ok (snd (remove_all gone (map fst (es_handlers src)) src))" for gone
    using remove_all_ok [OF ok d prod.collapse [symmetric], of gone] by blast
  show ?thesis using ok at all by (auto simp: removeListener_def Let_def split: listener_ref.split option.split list.split)
qed

text \<open>Subscribing.\<close>

lemma addListener_ok:
  assumes "es_ok src" "event_named eventType byName src = Inr k"
  shows "\<exists>src' e. addListener eventType h once p byName src = (Inr (k, es_next_eid src + 1), src') \<and> es_ok src' \<and>
    e = \<lparr>lt_priority = p, lt_handler = h, lt_once = once, lt_eid = es_next_eid src + 1\<rparr> \<and>
    (\<forall>k'. listeners src' k' = (if k' = k then takeWhile (\<lambda>y. sort_key_of y \<le> sort_key_of e) (listeners src k) @ e #
       dropWhile (\<lambda>y. sort_key_of y \<le> sort_key_of e) (listeners src k) else listeners src k')) \<and>
    es_next_eid src' = es_next_eid src + 1 \<and> es_fresh src \<le> es_fresh src' \<and> es_events src' = es_events src \<and>
    (\<forall>a. map_of (es_handlers src) k = Some a \<longrightarrow> es_handlers src' = es_handlers src \<and> es_fresh src' = es_fresh src \<and>
       es_lists src' = (es_lists src)(a := listeners src' k))"
proof -
  define e where "e = \<lparr>lt_priority = p, lt_handler = h, lt_once = once, lt_eid = es_next_eid src + 1\<rparr>"
  define s1 where "s1 = (if map_of (es_handlers src) k = None then bind_list k [] src else src)"
  have ok1: "es_ok s1" unfolding s1_def using assms(1) es_ok_bind [of src "[]"] by simp
  have l1: "listeners s1 k' = listeners src k'" for k'
    using listeners_bind [OF assms(1), of k "[]"] by (auto simp: s1_def listeners_def)
  have n1: "es_next_eid s1 = es_next_eid src" "es_events s1 = es_events src" "es_fresh src \<le> es_fresh s1" by (simp_all add: s1_def bind_list_def)
  obtain a where a: "map_of (es_handlers s1) k = Some a" by (cases "map_of (es_handlers src) k") (auto simp: s1_def bind_list_def update_conv')
  let ?xs = "es_lists s1 a" and ?new = "takeWhile (\<lambda>y. sort_key_of y \<le> sort_key_of e) (es_lists s1 a) @ e # dropWhile (\<lambda>y. sort_key_of y \<le> sort_key_of e) (es_lists s1 a)"
  define s2 where "s2 = s1\<lparr>es_next_eid := es_next_eid src + 1, es_lists := (es_lists s1)(a := ?new)\<rparr>"
  have xs: "sorted_wrt before ?xs" "\<forall>y \<in> set ?xs. lt_eid y < lt_eid e" using ok1 n1(1) by (auto simp: es_ok_def e_def)
  have ae: "add_entry_in_place a e (s1\<lparr>es_next_eid := es_next_eid src + 1\<rparr>) = s2"
    using added_list [OF xs(1), of e] by (simp add: add_entry_in_place_def Let_def s2_def)
  have r: "addListener eventType h once p byName src = (Inr (k, es_next_eid src + 1), s2)"
    using assms(2) a ae by (cases "map_of (es_handlers src) k") (simp_all add: addListener_def Let_def generateEventID_def e_def s1_def bind_list_def)
  have new: "\<forall>y \<in> set ?new. lt_eid y \<le> es_next_eid src + 1"
  proof
    fix y assume "y \<in> set ?new"
    then have "y \<in> set ?xs \<or> y = e" by (auto dest: set_takeWhileD set_dropWhileD)
    moreover have "lt_eid e = es_next_eid src + 1" by (simp add: e_def)
    ultimately show "lt_eid y \<le> es_next_eid src + 1" using xs(2) by fastforce
  qed
  have old: "lt_eid y \<le> es_next_eid src + 1" if "y \<in> set (es_lists s1 b)" for y b
  proof -
    have "lt_eid y \<le> es_next_eid src" using ok1 n1(1) that unfolding es_ok_def by metis
    then show ?thesis by simp
  qed
  have ok2: "es_ok s2"
    using ok1 sorted_added [OF xs] new old n1(1) unfolding es_ok_def s2_def by simp
  have xs': "?xs = listeners src k" using a l1 [of k] by (simp add: listeners_def)
  have l2: "listeners s2 k' = (if k' = k then ?new else listeners src k')" for k'
  proof (cases "k' = k")
    case True
    then show ?thesis using a by (simp add: listeners_def s2_def)
  next
    case False
    have "map_of (es_handlers s1) k' \<noteq> Some a"
    proof
      assume "map_of (es_handlers s1) k' = Some a"
      then have "(k', a) \<in> set (es_handlers s1)" "(k, a) \<in> set (es_handlers s1)" using a by (auto dest: map_of_SomeD)
      moreover have "distinct (map snd (es_handlers s1))" using ok1 by (simp add: es_ok_def)
      ultimately show False using inj_onD [of snd "set (es_handlers s1)" "(k', a)" "(k, a)"] False by (auto simp: distinct_map)
    qed
    then show ?thesis using False l1 [of k'] by (auto simp: listeners_def s2_def split: option.splits)
  qed
  have "es_handlers s2 = es_handlers src \<and> es_fresh s2 = es_fresh src \<and> es_lists s2 = (es_lists src)(b := listeners s2 k)"
    if "map_of (es_handlers src) k = Some b" for b
    using that a l2 [of k] by (auto simp: s2_def s1_def)
  moreover have "es_next_eid s2 = es_next_eid src + 1" "es_fresh src \<le> es_fresh s2" "es_events s2 = es_events src"
    by (simp_all add: s2_def n1)
  ultimately show ?thesis using r ok2 l2 [unfolded xs'] e_def by blast
qed

lemma addListener_err: "event_named t b src = Inl e \<Longrightarrow> addListener t h once p b src = (Inl e, src)"
  by (simp add: addListener_def)

lemma addListener_keeps: "es_ok src \<Longrightarrow> es_ok (snd (addListener t h once p b src))"
  using addListener_ok [of src t b _ h once p] addListener_err [of t b src] by (cases "event_named t b src") fastforce+

lemma bind_methods_keeps: "es_ok src \<Longrightarrow> es_ok (snd (bind_methods prefix priority named ms src))"
proof (induction prefix priority named ms src rule: bind_methods.induct)
  case (2 prefix priority named mh ms src)
  show ?case
  proof (cases "Option.bind (handled_event prefix (fst mh)) named")
    case None
    then show ?thesis using 2 by simp
  next
    case (Some k)
    obtain r src' where a: "addListener k (snd mh) False priority False src = (r, src')" by fastforce
    then have "es_ok src'" using addListener_keeps [OF 2(3), of k "snd mh" False priority False] by simp
    then show ?thesis using 2(2) [OF Some a [symmetric]] Some a
      by (auto split: sum.split prod.split)
  qed
qed simp

subsection \<open>Raising\<close>

lemma after_handler_ok:
  assumes "es_ok src"
  shows "es_ok (after_handler e rv src)" "es_fresh src \<le> es_fresh (after_handler e rv src)"
    "a < es_fresh src \<Longrightarrow> es_lists (after_handler e rv src) a = es_lists src a"
proof -
  note r1 = remove_eid_ok [OF assms, where eid = "lt_eid e"]
  note r2 = remove_eid_ok [OF r1(1), where eid = "lt_eid e"]
  show "es_ok (after_handler e rv src)" using assms r1(1) r2(1) by (simp add: after_handler_def Let_def)
  show "es_fresh src \<le> es_fresh (after_handler e rv src)"
    using r1(3) order_trans [OF r1(3) r2(3)] by (simp add: after_handler_def Let_def)
  show "es_lists (after_handler e rv src) a = es_lists src a" if "a < es_fresh src"
    using r1(4) [OF that] r2(4) [OF less_le_trans [OF that r1(3)]] by (simp add: after_handler_def Let_def)
qed

text \<open>
  What a client may rely on: handlers keep sources in order. Those that leave the list of the event being
  raised alone (they may still remove listeners, since that binds new lists) are called quiet.
\<close>

locale handlers_keep =
  fixes invoke :: "('h, 'w) handlers"
  assumes keeps: "es_ok (snd st) \<Longrightarrow> es_ok (snd (snd (invoke h ev st)))"
begin

lemma raise_loop_keeps:
  assumes "raise_loop invoke a i ev st = Some y" "es_ok (snd st)"
  shows "es_ok (snd (snd y))"
proof -
  have "inv = invoke \<longrightarrow> es_ok (snd st) \<longrightarrow> es_ok (snd (snd y))" if "raise_loop inv a i ev st = Some y" for inv a i ev st y
  proof (rule raise_loop.raw_induct [where P = "\<lambda>inv a i ev st y. inv = invoke \<longrightarrow> es_ok (snd st) \<longrightarrow> es_ok (snd (snd y))", OF _ that], intro impI)
    fix loop :: "('h, 'w) handlers \<Rightarrow> nat \<Rightarrow> nat \<Rightarrow> event \<Rightarrow> 'w \<times> 'h event_source \<Rightarrow> (event result \<times> 'w \<times> 'h event_source) option"
      and inv a i ev st y
    assume IH: "\<And>inv a i ev st y. loop inv a i ev st = Some y \<Longrightarrow> inv = invoke \<longrightarrow> es_ok (snd st) \<longrightarrow> es_ok (snd (snd y))"
      and i: "inv = invoke" and ok: "es_ok (snd st)"
      and step: "(if length (es_lists (snd st) a) \<le> i then Some (Inr ev, st)
         else let e = es_lists (snd st) a ! i in
           (case inv (lt_handler e) ev st of
              (Inl er, st) \<Rightarrow> Some (Inl er, st)
            | (Inr (rv, ev), (w, src)) \<Rightarrow>
                let src = after_handler e rv src
                in if stops rv ev then Some (Inr ev, (w, src)) else loop inv a (Suc i) ev (w, src))) = Some y"
    show "es_ok (snd (snd y))"
    proof (cases "length (es_lists (snd st) a) \<le> i")
      case True
      then show ?thesis using step ok by auto
    next
      case False
      let ?e = "es_lists (snd st) a ! i"
      obtain r w src where v: "invoke (lt_handler ?e) ev st = (r, (w, src))" by (metis prod_cases3)
      have s: "es_ok src" using keeps [OF ok, of "lt_handler ?e" ev] v by simp
      show ?thesis
      proof (cases r)
        case (Inl x)
        then show ?thesis using step False i v s by (auto simp: Let_def)
      next
        case (Inr x)
        obtain rv ev' where x: "x = (rv, ev')" by fastforce
        show ?thesis
        proof (cases "stops rv ev'")
          case True
          then show ?thesis using step False i v Inr x after_handler_ok(1) [OF s] by (auto simp: Let_def)
        next
          case no: False
          then have "loop invoke a (Suc i) ev' (w, after_handler ?e rv src) = Some y"
            using step False i v Inr x by (simp add: Let_def)
          from IH [OF this] show ?thesis using after_handler_ok(1) [OF s] by simp
        qed
      qed
    qed
  qed
  then show ?thesis using assms by blast
qed

lemma raiseEvent_keeps:
  assumes "raiseEvent invoke r st = Some (x, st')" "es_ok (snd st)"
  shows "es_ok (snd st')"
proof -
  have "raise_on invoke ev st = Some (x, st') \<Longrightarrow> es_ok (snd st')" for ev
    using raise_loop_keeps [of _ 0 ev st] assms(2)
    by (fastforce simp: raise_on_def Let_def split: if_splits option.splits)
  then show ?thesis using assms by (auto simp: raiseEvent_def split: raised.splits if_splits sum.splits)
qed

end

subsection \<open>Raising runs the listeners that were bound when it began\<close>

text \<open>The reference: a walk along a fixed list.\<close>

fun run_listeners :: "('h, 'w) handlers \<Rightarrow> 'h listener list \<Rightarrow> event \<Rightarrow> 'w \<times> 'h event_source \<Rightarrow> event result \<times> 'w \<times> 'h event_source" where
  "run_listeners invoke [] ev st = (Inr ev, st)"
| "run_listeners invoke (e # es) ev st =
     (case invoke (lt_handler e) ev st of
        (Inl er, st) \<Rightarrow> (Inl er, st)
      | (Inr (rv, ev), (w, src)) \<Rightarrow>
          let st = (w, after_handler e rv src)
          in if stops rv ev then (Inr ev, st) else run_listeners invoke es ev st)"

text \<open>Handlers that keep sources in order and do not change, in place, the list at an address.\<close>

locale quiet_handlers = handlers_keep invoke for invoke :: "('h, 'w) handlers" +
  fixes a :: nat
  assumes grows: "es_ok (snd st) \<Longrightarrow> es_fresh (snd st) \<le> es_fresh (snd (snd (invoke h ev st)))"
    and quiet: "es_ok (snd st) \<Longrightarrow> a < es_fresh (snd st) \<Longrightarrow> es_lists (snd (snd (invoke h ev st))) a = es_lists (snd st) a"
begin

lemma raise_loop_snapshot:
  "es_ok (snd st) \<Longrightarrow> a < es_fresh (snd st) \<Longrightarrow> raise_loop invoke a i ev st = Some (run_listeners invoke (drop i (es_lists (snd st) a)) ev st)"
proof (induction "length (es_lists (snd st) a) - i" arbitrary: i ev st)
  case 0
  then show ?case by (subst raise_loop.simps) simp
next
  case (Suc n)
  let ?xs = "es_lists (snd st) a" and ?e = "es_lists (snd st) a ! i"
  have i: "i < length ?xs" using Suc.hyps(2) by simp
  then have d: "drop i ?xs = ?e # drop (Suc i) ?xs" by (simp add: Cons_nth_drop_Suc)
  obtain r w src where v: "invoke (lt_handler ?e) ev st = (r, (w, src))" by (metis prod_cases3)
  have src: "es_ok src" "es_fresh (snd st) \<le> es_fresh src" "es_lists src a = ?xs"
    using keeps [OF Suc.prems(1), of "lt_handler ?e" ev] grows [OF Suc.prems(1), of "lt_handler ?e" ev] quiet [OF Suc.prems, of "lt_handler ?e" ev]
    by (simp_all add: v)
  have af: "es_ok (after_handler ?e rv src)" "a < es_fresh (after_handler ?e rv src)" "es_lists (after_handler ?e rv src) a = ?xs" for rv
    using after_handler_ok(1,2) [OF src(1), where e = ?e and rv = rv] after_handler_ok(3) [OF src(1), where e = ?e and rv = rv and a = a]
      src(2,3) Suc.prems(2) by auto
  show ?case
  proof (cases r)
    case (Inl x)
    then show ?thesis using i v by (subst raise_loop.simps) (simp add: d Let_def)
  next
    case (Inr x)
    obtain rv ev' where x: "x = (rv, ev')" by fastforce
    have "raise_loop invoke a (Suc i) ev' (w, after_handler ?e rv src) = Some (run_listeners invoke (drop (Suc i) ?xs) ev' (w, after_handler ?e rv src))"
      using Suc.hyps(1) [of "(w, after_handler ?e rv src)" "Suc i" ev'] Suc.hyps(2) af [of rv] by simp
    then show ?thesis using i v Inr x by (subst raise_loop.simps) (simp add: d Let_def)
  qed
qed

end

subsection \<open>Handlers written in the operations of the source\<close>

text \<open>
  A small language for the code of handlers: subscribing, unsubscribing, setting \<^verbatim>\<open>event.halt\<close>, raising an exception.
  Handlers are numbers, their code is a table, and what they did is recorded.
\<close>

datatype action =
    Subscribe event_key nat bool "int option"
  | Unsubscribe "nat listener_ref" "event_key option"
  | SetHalt bool
  | Fail py_error

fun perform :: "action \<Rightarrow> event \<times> nat event_source \<Rightarrow> py_error option \<times> event \<times> nat event_source" where
  "perform (Subscribe k h once p) (ev, src) =
     (case addListener k h once p False src of (Inl e, src) \<Rightarrow> (Some e, ev, src) | (Inr _, src) \<Rightarrow> (None, ev, src))"
| "perform (Unsubscribe r k) (ev, src) =
     (case removeListener r k src of (Inl e, src) \<Rightarrow> (Some e, ev, src) | (Inr _, src) \<Rightarrow> (None, ev, src))"
| "perform (SetHalt b) (ev, src) = (None, ev\<lparr>ev_halt := b\<rparr>, src)"
| "perform (Fail e) (ev, src) = (Some e, ev, src)"

definition scripted :: "(nat \<Rightarrow> action list \<times> event_return) \<Rightarrow> (nat, nat list) handlers" where
  "scripted code h ev = (\<lambda>(log, src).
     (case seq (map perform (fst (code h))) (ev, src) of
        (Some e, (_, src)) \<Rightarrow> (Inl e, (log @ [h], src))
      | (None, (ev, src)) \<Rightarrow> (Inr (snd (code h), ev), (log @ [h], src))))"

lemma scripted_source: "snd (snd (scripted code h ev st)) = snd (snd (seq (map perform (fst (code h))) (ev, snd st)))"
  by (cases st) (auto simp: scripted_def split: prod.split option.split)

lemma perform_ok: "es_ok (snd s) \<Longrightarrow> es_ok (snd (snd (perform c s)))"
proof (cases s; cases c)
  fix ev src k h once p
  assume "es_ok (snd s)" "s = (ev, src)" "c = Subscribe k h once p"
  then show ?thesis using addListener_keeps [of src k h once p False]
    by (cases "addListener k h once p False src"; cases "fst (addListener k h once p False src)") auto
next
  fix ev src r k
  assume "es_ok (snd s)" "s = (ev, src)" "c = Unsubscribe r k"
  then show ?thesis using removeListener_ok [of src r k]
    by (cases "removeListener r k src"; cases "fst (removeListener r k src)") auto
qed auto

interpretation scripts: handlers_keep "scripted code" for code
proof
  fix st :: "nat list \<times> nat event_source" and h ev
  assume "es_ok (snd st)"
  then show "es_ok (snd (snd (scripted code h ev st)))"
    unfolding scripted_source by (intro seq_keeps [where P = "\<lambda>s. es_ok (snd s)"]) (auto intro: perform_ok)
qed

text \<open>Code that does not subscribe is quiet.\<close>

fun leaves :: "action \<Rightarrow> bool" where
  "leaves (Subscribe k h once p) = False"
| "leaves _ = True"

lemma remove_grows:
  assumes "es_ok src"
  shows "es_fresh src \<le> es_fresh (snd (removeListener r t src))"
    and "a < es_fresh src \<Longrightarrow> es_lists (snd (removeListener r t src)) a = es_lists src a"
proof -
  have at: "es_fresh src \<le> es_fresh (snd (remove_at gone k src))" "a < es_fresh src \<Longrightarrow> es_lists (snd (remove_at gone k src)) a = es_lists src a" for gone k
    using remove_at_ok(5,6) [OF assms prod.collapse [symmetric], of gone k] by auto
  have d: "distinct (map fst (es_handlers src))" using assms by (simp add: es_ok_def)
  have all: "es_fresh src \<le> es_fresh (snd (remove_all gone (map fst (es_handlers src)) src))"
    "a < es_fresh src \<Longrightarrow> es_lists (snd (remove_all gone (map fst (es_handlers src)) src)) a = es_lists src a" for gone
    using remove_all_ok [OF assms d prod.collapse [symmetric], of gone] by blast+
  show "es_fresh src \<le> es_fresh (snd (removeListener r t src))"
    using at(1) all(1) by (auto simp: removeListener_def Let_def split: listener_ref.split option.split list.split)
  show "a < es_fresh src \<Longrightarrow> es_lists (snd (removeListener r t src)) a = es_lists src a"
    using at(2) all(2) by (auto simp: removeListener_def Let_def split: listener_ref.split option.split list.split)
qed

definition removing_only :: "(nat \<Rightarrow> action list \<times> event_return) \<Rightarrow> nat \<Rightarrow> action list \<times> event_return" where
  "removing_only code h = (filter leaves (fst (code h)), snd (code h))"

lemma perform_quiet:
  assumes "leaves c" "es_ok (snd s)"
  shows "es_fresh (snd s) \<le> es_fresh (snd (snd (perform c s))) \<and>
    (a < es_fresh (snd s) \<longrightarrow> es_lists (snd (snd (perform c s))) a = es_lists (snd s) a)"
proof (cases s; cases c)
  fix ev src r k
  assume "s = (ev, src)" "c = Unsubscribe r k"
  then show ?thesis using assms remove_grows(1) [of src r k] remove_grows(2) [where src = src and a = a and r = r and t = k]
    by (cases "removeListener r k src"; cases "fst (removeListener r k src)") auto
qed (use assms in auto)

lemma script_quiet:
  assumes "es_ok (snd s)" "a < es_fresh (snd s)"
  shows "es_ok (snd (snd (seq (map perform (filter leaves cs)) s))) \<and> es_fresh (snd s) \<le> es_fresh (snd (snd (seq (map perform (filter leaves cs)) s))) \<and>
    es_lists (snd (snd (seq (map perform (filter leaves cs)) s))) a = es_lists (snd s) a"
proof -
  let ?P = "\<lambda>s'. es_ok (snd s') \<and> es_fresh (snd s) \<le> es_fresh (snd s') \<and> es_lists (snd s') a = es_lists (snd s) a"
  have step: "?P (snd (f s'))" if P: "?P s'" and f: "f \<in> set (map perform (filter leaves cs))" for f s'
  proof -
    obtain c where c: "f = perform c" "leaves c" using f by auto
    have "a < es_fresh (snd s')" using P assms(2) by linarith
    then show ?thesis using perform_quiet [OF c(2), of s' a] perform_ok [of s' c] P c(1) by force
  qed
  have "?P (snd (seq (map perform (filter leaves cs)) s))"
    using assms(1) by (intro seq_keeps [where P = ?P] step) auto
  then show ?thesis .
qed

interpretation quiet_scripts: quiet_handlers "scripted (removing_only code)" a for code a
proof
  fix st :: "nat list \<times> nat event_source" and h ev
  assume ok: "es_ok (snd st)"
  note s = script_quiet [of "(ev, snd st)" _ "fst (code h)"]
  show "es_fresh (snd st) \<le> es_fresh (snd (snd (scripted (removing_only code) h ev st)))"
  proof (cases "es_fresh (snd st)")
    case (Suc n)
    then show ?thesis using s [of n] ok by (simp add: scripted_source removing_only_def)
  qed simp
  assume "a < es_fresh (snd st)"
  then show "es_lists (snd (snd (scripted (removing_only code) h ev st))) a = es_lists (snd st) a"
    using s [of a] ok by (simp add: scripted_source removing_only_def)
qed

lemma removing_only_id: "(\<And>h. list_all leaves (fst (code h))) \<Longrightarrow> removing_only code = code"
  by (rule ext) (simp add: removing_only_def list_all_iff filter_True [OF ballI])

definition raise_snapshot :: "('h, 'w) handlers \<Rightarrow> event \<Rightarrow> 'w \<times> 'h event_source \<Rightarrow> event option result \<times> 'w \<times> 'h event_source" where
  "raise_snapshot invoke ev st =
     (case run_listeners invoke (listeners (snd st) (ev_type ev)) ev st of (r, st) \<Rightarrow> (bindE r (\<lambda>ev. Inr (Some ev)), st))"

lemma raise_is_snapshot:
  assumes "es_ok (snd st)" "\<And>h. list_all leaves (fst (code h))"
    "case es_events (snd st) of None \<Rightarrow> True | Some es \<Rightarrow> ev_type ev \<in> set es"
  shows "raise_on (scripted code) ev st = Some (raise_snapshot (scripted code) ev st)"
proof (cases "map_of (es_handlers (snd st)) (ev_type ev)")
  case None
  then show ?thesis using assms(3) by (simp add: raise_on_def raise_snapshot_def listeners_def Let_def split: option.splits)
next
  case (Some a)
  then have "a < es_fresh (snd st)" using assms(1) by (fastforce simp: es_ok_def dest: map_of_SomeD)
  note l = quiet_scripts.raise_loop_snapshot [OF assms(1) this, of code 0 ev, unfolded removing_only_id [OF assms(2)]]
  have "listeners (snd st) (ev_type ev) = es_lists (snd st) a" by (simp add: listeners_def Some)
  then show ?thesis using l Some assms(3) by (auto simp: raise_on_def raise_snapshot_def Let_def split: option.splits prod.splits)
qed

subsection \<open>Every source a program can reach\<close>

text \<open>\<open>other\<close>: the counter is shared with the other sources of the process.\<close>

inductive es_reachable :: "nat event_source \<Rightarrow> bool" where
  init: "es_reachable (EventMixin_init events n)"
| act: "es_reachable src \<Longrightarrow> es_reachable (snd (snd (perform c (ev, src))))"
| bind: "es_reachable src \<Longrightarrow> es_reachable (snd (autoBindEvents methods prefix p src))"
| other: "es_reachable src \<Longrightarrow> es_next_eid src \<le> n \<Longrightarrow> es_reachable (src\<lparr>es_next_eid := n\<rparr>)"
| clear: "es_reachable src \<Longrightarrow> es_reachable (clearHandlers src)"
| raising: "es_reachable src \<Longrightarrow> raiseEvent (scripted code) r (w, src) = Some (x, (w', src')) \<Longrightarrow> es_reachable src'"

lemma clear_ok: "es_ok src \<Longrightarrow> es_ok (clearHandlers src)"
  by (auto simp: es_ok_def clearHandlers_def)

lemma reachable_ok: "es_reachable src \<Longrightarrow> es_ok src"
proof (induction rule: es_reachable.induct)
  case (bind src methods prefix p)
  then show ?case using bind_methods_keeps by (auto simp: autoBindEvents_def Let_def split: option.split)
next
  case (raising src code r w x w' src')
  then show ?case using scripts.raiseEvent_keeps [OF raising(2)] by simp
next
  case (act src c ev)
  then show ?case using perform_ok [of "(ev, src)" c] by simp
next
  case (other src n)
  then show ?case unfolding es_ok_def by (fastforce intro: order_trans)
qed (simp_all add: clear_ok)

subsection \<open>A handler that subscribes itself\<close>

lemma self_subscribing_never_returns:
  assumes "es_ok src" "map_of (es_handlers src) k = Some a" "i < length (es_lists src a)"
    "case es_events src of None \<Rightarrow> True | Some es \<Rightarrow> k \<in> set es"
    "\<forall>e \<in> set (es_lists src a). lt_handler e = h \<and> \<not> lt_once e" "code h = ([Subscribe k h False p], RvNone)"
  shows "raise_loop (scripted code) a i ev (log, src) = None"
proof -
  define bad where "bad = (\<lambda>i (st :: nat list \<times> nat event_source). es_ok (snd st) \<and> map_of (es_handlers (snd st)) k = Some a \<and>
    i < length (es_lists (snd st) a) \<and> (case es_events (snd st) of None \<Rightarrow> True | Some es \<Rightarrow> k \<in> set es) \<and>
    (\<forall>e \<in> set (es_lists (snd st) a). lt_handler e = h \<and> \<not> lt_once e))"
  have stuck: "\<not> (inv = scripted code \<and> a' = a \<and> bad i st)" if "raise_loop inv a' i ev st = Some y" for inv a' i ev st y
  proof (rule raise_loop.raw_induct [where P = "\<lambda>inv a' i ev st y. \<not> (inv = scripted code \<and> a' = a \<and> bad i st)", OF _ that], rule notI)
    fix loop :: "(nat, nat list) handlers \<Rightarrow> nat \<Rightarrow> nat \<Rightarrow> event \<Rightarrow> nat list \<times> nat event_source \<Rightarrow> (event result \<times> nat list \<times> nat event_source) option"
      and inv a' i ev st y
    assume IH: "\<And>inv a' i ev st y. loop inv a' i ev st = Some y \<Longrightarrow> \<not> (inv = scripted code \<and> a' = a \<and> bad i st)"
      and b: "inv = scripted code \<and> a' = a \<and> bad i st"
      and step: "(if length (es_lists (snd st) a') \<le> i then Some (Inr ev, st)
         else let e = es_lists (snd st) a' ! i in
           (case inv (lt_handler e) ev st of
              (Inl er, st) \<Rightarrow> Some (Inl er, st)
            | (Inr (rv, ev), (w, src)) \<Rightarrow>
                let src = after_handler e rv src
                in if stops rv ev then Some (Inr ev, (w, src)) else loop inv a' (Suc i) ev (w, src))) = Some y"
    obtain log src where st: "st = (log, src)" by fastforce
    let ?e = "es_lists src a ! i"
    have i: "i < length (es_lists src a)" and e: "lt_handler ?e = h" "\<not> lt_once ?e" and ok: "es_ok src"
      and k: "map_of (es_handlers src) k = Some a" and all: "\<forall>e \<in> set (es_lists src a). lt_handler e = h \<and> \<not> lt_once e"
      using b by (auto simp: bad_def st)
    have named: "event_named k False src = Inr k" using b by (auto simp: bad_def st event_named_def split: option.splits)
    define e' where "e' = \<lparr>lt_priority = p, lt_handler = h, lt_once = False, lt_eid = es_next_eid src + 1\<rparr>"
    obtain src' where s': "addListener k h False p False src = (Inr (k, es_next_eid src + 1), src')" "es_ok src'" "es_events src' = es_events src"
      and l: "listeners src' k = takeWhile (\<lambda>y. sort_key_of y \<le> sort_key_of e') (listeners src k) @ e' #
         dropWhile (\<lambda>y. sort_key_of y \<le> sort_key_of e') (listeners src k)"
      and hs: "es_handlers src' = es_handlers src"
      using addListener_ok [OF ok named, of h False p, folded e'_def] k by metis
    have s: "addListener k h False p False src = (Inr (k, es_next_eid src + 1), src')" "es_ok src'"
      "lt_handler e' = h" "\<not> lt_once e'" "es_handlers src' = es_handlers src" "es_events src' = es_events src"
      "es_lists src' a = takeWhile (\<lambda>y. sort_key_of y \<le> sort_key_of e') (es_lists src a) @ e' # dropWhile (\<lambda>y. sort_key_of y \<le> sort_key_of e') (es_lists src a)"
      using s' hs l k by (simp_all add: listeners_def e'_def)
    have len: "length (es_lists src' a) = Suc (length (es_lists src a))"
      unfolding s(7) by (metis append_Cons length_Cons length_append add_Suc_right takeWhile_dropWhile_id)
    have all': "\<forall>x \<in> set (es_lists src' a). lt_handler x = h \<and> \<not> lt_once x"
      unfolding s(7) using all s(3,4) by (auto dest: set_takeWhileD set_dropWhileD)
    have "bad (Suc i) (log @ [h], src')" using b s len all' k i by (simp add: bad_def st)
    moreover have "inv (lt_handler ?e) ev st = (Inr (RvNone, ev), (log @ [h], src'))"
      using b s(1) e assms(6) by (simp add: st scripted_def)
    then have "loop (scripted code) a (Suc i) ev (log @ [h], src') = Some y"
      using step b i e(2) by (simp add: st Let_def stops_def after_handler_def removes_def)
    ultimately show False using IH by blast
  qed
  have "bad i (log, src)" using assms by (simp add: bad_def)
  then show ?thesis using stuck [of "scripted code" a i ev "(log, src)"] by (cases "raise_loop (scripted code) a i ev (log, src)") auto
qed

lemma raise_self_subscribing:
  assumes "es_ok src" "listeners src k \<noteq> []" "case es_events src of None \<Rightarrow> True | Some es \<Rightarrow> k \<in> set es"
    "\<forall>e \<in> set (listeners src k). lt_handler e = h \<and> \<not> lt_once e" "code h = ([Subscribe k h False p], RvNone)" "ev_type ev = k"
  shows "raise_on (scripted code) ev (log, src) = None"
proof -
  obtain a where a: "map_of (es_handlers src) k = Some a" "listeners src k = es_lists src a"
    using assms(2) by (auto simp: listeners_def split: option.splits)
  have "raise_loop (scripted code) a 0 ev (log, src) = None"
    using assms a by (intro self_subscribing_never_returns [where h = h and p = p and k = k]) auto
  then show ?thesis using assms a by (auto simp: raise_on_def Let_def split: option.splits)
qed

lemma remove_by_eid:
  assumes "es_ok src"
  shows "\<exists>src'. removeListener (RefEid eid) None src = (Inr (\<exists>k. \<exists>e \<in> set (listeners src k). lt_eid e = eid), src') \<and>
    (\<forall>k. listeners src' k = filter (\<lambda>e. lt_eid e \<noteq> eid) (listeners src k))"
proof -
  obtain al src' where r: "remove_all (\<lambda>x. lt_eid x = eid) (map fst (es_handlers src)) src = (al, src')" by fastforce
  have "distinct (map fst (es_handlers src))" using assms by (simp add: es_ok_def)
  note o = remove_all_ok [OF assms this r]
  have "al \<longleftrightarrow> (\<exists>k. \<exists>e \<in> set (listeners src k). lt_eid e = eid)"
    using o listeners_unbound [of _ src] by (metis empty_iff list.set(1) set_map)
  moreover have "listeners src' k = filter (\<lambda>e. lt_eid e \<noteq> eid) (listeners src k)" for k
    using remove_eid_ok(2) [OF assms, of eid k] r by (simp add: remove_eid_def removeListener_def)
  ultimately show ?thesis using r by (simp add: removeListener_def)
qed

end
