(* ===== verification/Switch_Paths.thy ===== *)
theory Switch_Paths
  imports Py_Prelude
begin

text \<open>
  The path computation of \<^verbatim>\<open>forwarding/l2_multi.py\<close>: the table of all pairs that \<^verbatim>\<open>_calc_paths\<close> fills with three
  nested loops, and the paths that are read out of it. The lemmas show that the table holds the lengths of
  shortest paths and that what is read out is such a path.
\<close>

subsection \<open>The table of paths\<close>

text \<open>
  A switch is the number it is known by. \<open>adj a b\<close> is the port of \<open>a\<close> that leads to \<open>b\<close>; the defaults of the
  dictionaries are \<open>None\<close>. An entry of the table is a distance and an intermediate switch.
\<close>

type_synonym port_map = "int \<Rightarrow> int \<Rightarrow> int option"
type_synonym path_map = "int \<Rightarrow> int \<Rightarrow> (nat \<times> int option) option"

definition direct_row :: "port_map \<Rightarrow> int \<Rightarrow> path_map \<Rightarrow> path_map" where
  "direct_row adj k pm =
     pm(k := (\<lambda>j. if j = k then Some (0, None) else if adj k j \<noteq> None then Some (1, None) else pm k j))"

definition relax :: "int \<Rightarrow> int \<Rightarrow> int \<Rightarrow> path_map \<Rightarrow> path_map" where
  "relax k i j pm =
     (case (pm i k, pm k j) of
        (Some (a, _), Some (b, _)) \<Rightarrow>
          if (case pm i j of None \<Rightarrow> True | Some (d, _) \<Rightarrow> a + b < d)
          then pm(i := (pm i)(j \<mapsto> (a + b, Some k))) else pm
      | _ \<Rightarrow> pm)"

definition relax_all :: "int list \<Rightarrow> int \<Rightarrow> path_map \<Rightarrow> path_map" where
  "relax_all sws k pm = fold (\<lambda>(i, j). relax k i j) [(i, j). i \<leftarrow> sws, j \<leftarrow> sws] pm"

definition calc_paths :: "port_map \<Rightarrow> int list \<Rightarrow> path_map" where
  "calc_paths adj sws = fold (relax_all sws) sws (fold (direct_row adj) sws (\<lambda>_ _. None))"

subsection \<open>Reading a path\<close>

text \<open>
  \<^verbatim>\<open>_get_raw_path\<close> calls itself twice and need not end on an arbitrary table. A missing half is \<^verbatim>\<open>None\<close>, to
  which no list can be added.
\<close>

partial_function (option) get_raw_path :: "path_map \<Rightarrow> int \<Rightarrow> int \<Rightarrow> int list option result option" where
  "get_raw_path pm src dst =
     (if src = dst then Some (Inr (Some []))
      else case pm src dst of
        None \<Rightarrow> Some (Inr None)
      | Some (_, None) \<Rightarrow> Some (Inr (Some []))
      | Some (_, Some m) \<Rightarrow>
          Option.bind (get_raw_path pm src m) (\<lambda>r. case r of
            Inl e \<Rightarrow> Some (Inl e)
          | Inr None \<Rightarrow> Some (Inl TypeError)
          | Inr (Some p) \<Rightarrow>
              Option.bind (get_raw_path pm m dst) (\<lambda>r. case r of
                Inl e \<Rightarrow> Some (Inl e)
              | Inr None \<Rightarrow> Some (Inl TypeError)
              | Inr (Some q) \<Rightarrow> Some (Inr (Some (p @ [m] @ q))))))"

fun check_path :: "port_map \<Rightarrow> (int \<times> int option) list \<Rightarrow> bool" where
  "check_path adj ((a, p) # (b, q) # r) \<longleftrightarrow> adj a b = p \<and> check_path adj ((b, q) # r)"
| "check_path adj _ \<longleftrightarrow> True"

definition cook :: "port_map \<Rightarrow> int list \<Rightarrow> int \<Rightarrow> int \<Rightarrow> (int \<times> int option) list" where
  "cook adj path dst final_port = map (\<lambda>(a, b). (a, adj a b)) (zip (butlast path) (tl path)) @ [(dst, Some final_port)]"

definition get_path ::
    "port_map \<Rightarrow> path_map \<Rightarrow> int \<Rightarrow> int \<Rightarrow> int \<Rightarrow> (int \<times> int option) list option result option" where
  "get_path adj pm src dst final_port =
     (let finish = (\<lambda>path. let r = cook adj path dst final_port in if check_path adj r then Inr (Some r) else Inl AssertionError)
      in if src = dst then Some (finish [src])
         else map_option (\<lambda>r. bindE r (\<lambda>p. case p of None \<Rightarrow> Inr None | Some xs \<Rightarrow> finish (src # xs @ [dst])))
                (get_raw_path pm src dst))"

subsection \<open>Walks\<close>

text \<open>A walk from \<open>i\<close> to \<open>j\<close> over \<open>xs\<close>.\<close>

definition walk :: "port_map \<Rightarrow> int \<Rightarrow> int list \<Rightarrow> int \<Rightarrow> bool" where
  "walk adj i xs j \<longleftrightarrow> successively (\<lambda>a b. adj a b \<noteq> None) (i # xs @ [j])"

lemma walk_Nil [simp]: "walk adj i [] j \<longleftrightarrow> adj i j \<noteq> None"
  by (simp add: walk_def)

lemma successively_at: "successively P (xs @ k # ys) \<longleftrightarrow> successively P (xs @ [k]) \<and> successively P (k # ys)"
  by (induction xs rule: induct_list012) (auto simp: successively_Cons)

lemma walk_split: "walk adj i (xs @ k # ys) j \<longleftrightarrow> walk adj i xs k \<and> walk adj k ys j"
  using successively_at [of _ "i # xs" k "ys @ [j]"] by (simp add: walk_def)

text \<open>Cutting a walk at the first and last visit of a switch.\<close>

lemma walk_cut:
  assumes "walk adj i xs j" "k \<in> set xs"
  shows "\<exists>ys zs. walk adj i ys k \<and> walk adj k zs j \<and> set ys \<subseteq> set xs - {k} \<and> set zs \<subseteq> set xs - {k} \<and> length ys + length zs < length xs"
proof -
  obtain ys r where ys: "xs = ys @ k # r" "k \<notin> set ys" using split_list_first [OF assms(2)] by blast
  obtain s zs where zs: "xs = s @ k # zs" "k \<notin> set zs" using split_list_last [OF assms(2)] by blast
  have "length ys \<le> length s"
  proof (rule ccontr)
    assume "\<not> length ys \<le> length s"
    then have "ys ! length s = xs ! length s" using ys(1) by (simp add: nth_append)
    also have "\<dots> = k" using zs(1) by simp
    finally show False using \<open>\<not> length ys \<le> length s\<close> ys(2) nth_mem [of "length s" ys] by simp
  qed
  then have "length ys + length zs < length xs" using zs(1) by simp
  moreover have "walk adj i ys k" "walk adj k zs j" using assms(1) ys(1) zs(1) walk_split by metis+
  moreover have "set ys \<subseteq> set xs - {k}" using ys by auto
  moreover have "set zs \<subseteq> set xs - {k}" using zs by auto
  ultimately show ?thesis by blast
qed

subsection \<open>One round of the loops\<close>

definition via :: "int \<Rightarrow> path_map \<Rightarrow> path_map" where
  "via k pm i j =
     (case (pm i k, pm k j) of
        (Some (a, _), Some (b, _)) \<Rightarrow> if (case pm i j of None \<Rightarrow> True | Some (d, _) \<Rightarrow> a + b < d) then Some (a + b, Some k) else pm i j
      | _ \<Rightarrow> pm i j)"

lemma relax_via: "relax k i j pm = pm(i := (pm i)(j := via k pm i j))"
  by (auto simp: relax_def via_def split: option.splits)

lemma via_fixes: "pm k k = Some (0, None) \<Longrightarrow> via k pm i k = pm i k" "pm k k = Some (0, None) \<Longrightarrow> via k pm k j = pm k j"
  by (auto simp: via_def split: option.splits)

lemma via_again: "q i k = pm i k \<Longrightarrow> q k j = pm k j \<Longrightarrow> q i j = pm i j \<or> q i j = via k pm i j \<Longrightarrow> via k q i j = via k pm i j"
  by (auto simp: via_def split: option.splits)

lemma relax_fold:
  assumes "pm k k = Some (0, None)"
  shows "fold (\<lambda>(i, j). relax k i j) ps pm i j = (if (i, j) \<in> set ps then via k pm i j else pm i j)"
proof (induction ps arbitrary: i j rule: rev_induct)
  case (snoc p ps)
  obtain a b where p: "p = (a, b)" by fastforce
  define q where "q = fold (\<lambda>(i, j). relax k i j) ps pm"
  note IH = snoc.IH [folded q_def]
  have v: "via k q a b = via k pm a b"
    by (rule via_again) (simp_all add: IH via_fixes [of pm k, OF assms])
  have "fold (\<lambda>(i, j). relax k i j) (ps @ [p]) pm = q(a := (q a)(b := via k pm a b))"
    by (simp add: p relax_via v flip: q_def)
  then show ?case using IH [of i j] by (auto simp: p)
qed simp

lemma relax_all_via:
  "pm k k = Some (0, None) \<Longrightarrow> relax_all sws k pm i j = (if i \<in> set sws \<and> j \<in> set sws then via k pm i j else pm i j)"
  unfolding relax_all_def by (subst relax_fold) auto

lemma direct_rows: "fold (direct_row adj) sws pm i j =
    (if i \<in> set sws then (if j = i then Some (0, None) else if adj i j \<noteq> None then Some (1, None) else pm i j) else pm i j)"
  by (induction sws arbitrary: pm) (auto simp: direct_row_def)

subsection \<open>What the loops keep\<close>

text \<open>
  After the rounds for the switches of \<open>K\<close>: entries are the lengths of shortest walks over \<open>K\<close>, and an
  intermediate switch splits one.
\<close>

definition paths_ok :: "port_map \<Rightarrow> int set \<Rightarrow> int set \<Rightarrow> path_map \<Rightarrow> bool" where
  "paths_ok adj V K pm \<longleftrightarrow> (\<forall>i \<in> V. pm i i = Some (0, None)) \<and>
     (\<forall>i \<in> V. \<forall>j \<in> V. i \<noteq> j \<longrightarrow>
        (\<forall>xs. set xs \<subseteq> K \<longrightarrow> walk adj i xs j \<longrightarrow> (\<exists>n m. pm i j = Some (n, m) \<and> n \<le> Suc (length xs))) \<and>
        (\<forall>n m. pm i j = Some (n, m) \<longrightarrow> (\<exists>xs. set xs \<subseteq> K \<and> walk adj i xs j \<and> n = Suc (length xs)) \<and>
           (case m of None \<Rightarrow> n = 1 | Some k \<Rightarrow> k \<in> V - {i, j} \<and> (\<exists>a x b y. pm i k = Some (a, x) \<and> pm k j = Some (b, y) \<and> a + b \<le> n))))"

lemma paths_okD:
  assumes "paths_ok adj V K pm" "i \<in> V" "j \<in> V"
  shows "pm i i = Some (0, None)"
    and "i \<noteq> j \<Longrightarrow> set xs \<subseteq> K \<Longrightarrow> walk adj i xs j \<Longrightarrow> \<exists>n m. pm i j = Some (n, m) \<and> n \<le> Suc (length xs)"
    and "i \<noteq> j \<Longrightarrow> pm i j = Some (n, m) \<Longrightarrow> \<exists>xs. set xs \<subseteq> K \<and> walk adj i xs j \<and> n = Suc (length xs)"
    and "i \<noteq> j \<Longrightarrow> pm i j = Some (n, None) \<Longrightarrow> n = 1"
    and "i \<noteq> j \<Longrightarrow> pm i j = Some (n, Some k) \<Longrightarrow> k \<in> V - {i, j} \<and> (\<exists>a x b y. pm i k = Some (a, x) \<and> pm k j = Some (b, y) \<and> a + b \<le> n)"
  using assms unfolding paths_ok_def by fastforce+

lemma direct_ok: "paths_ok adj (set sws) {} (fold (direct_row adj) sws (\<lambda>_ _. None))"
  by (auto simp: paths_ok_def direct_rows split: option.splits)

lemma via_le: "pm i j = Some (n, m) \<Longrightarrow> \<exists>n' m'. via k pm i j = Some (n', m') \<and> n' \<le> n"
  by (auto simp: via_def split: option.splits)

lemma via_bound: "pm i k = Some (a, x) \<Longrightarrow> pm k j = Some (b, y) \<Longrightarrow> \<exists>n m. via k pm i j = Some (n, m) \<and> n \<le> a + b"
  by (auto simp: via_def split: option.splits)

lemma via_cases:
  "via k pm i j = pm i j \<or> (\<exists>a x b y. pm i k = Some (a, x) \<and> pm k j = Some (b, y) \<and> via k pm i j = Some (a + b, Some k))"
  by (auto simp: via_def split: option.splits)

lemma relaxed:
  assumes "paths_ok adj (set sws) K pm" "k \<in> set sws" "i \<in> set sws" "j \<in> set sws"
  shows "relax_all sws k pm i j = via k pm i j" "via k pm i k = pm i k" "via k pm k j = pm k j"
proof -
  have kk: "pm k k = Some (0, None)" by (rule paths_okD(1) [OF assms(1,2,2)])
  show "relax_all sws k pm i j = via k pm i j" "via k pm i k = pm i k" "via k pm k j = pm k j"
    using relax_all_via [of pm k, OF kk] via_fixes [of pm k, OF kk] assms(3,4) by simp_all
qed

lemma relax_upper:
  assumes ok: "paths_ok adj (set sws) K pm" and k: "k \<in> set sws" and ij: "i \<in> set sws" "j \<in> set sws" "i \<noteq> j"
    and xs: "set xs \<subseteq> insert k K" "walk adj i xs j"
  shows "\<exists>n m. relax_all sws k pm i j = Some (n, m) \<and> n \<le> Suc (length xs)"
proof (cases "k \<in> set xs")
  case False
  then obtain n m where n: "pm i j = Some (n, m)" "n \<le> Suc (length xs)"
    using paths_okD(2) [OF ok ij, of xs] xs by blast
  obtain n' m' where "via k pm i j = Some (n', m')" "n' \<le> n" using via_le [of pm, OF n(1)] by blast
  then show ?thesis using relaxed(1) [OF ok k ij(1,2)] n(2) by auto
next
  case True
  obtain ys zs where c: "walk adj i ys k" "walk adj k zs j" "set ys \<subseteq> K" "set zs \<subseteq> K" "length ys + length zs < length xs"
    using walk_cut [OF xs(2) True] xs(1) by blast
  show ?thesis
  proof (cases "k = i \<or> k = j")
    case True
    then have "\<exists>us. set us \<subseteq> K \<and> walk adj i us j \<and> length us \<le> length xs" using c by (metis add_leD1 add_leD2 less_imp_le)
    then obtain us where us: "set us \<subseteq> K" "walk adj i us j" "length us \<le> length xs" by blast
    obtain n m where n: "pm i j = Some (n, m)" "n \<le> Suc (length us)" using paths_okD(2) [OF ok ij us(1,2)] by blast
    obtain n' m' where "via k pm i j = Some (n', m')" "n' \<le> n" using via_le [of pm, OF n(1)] by blast
    then show ?thesis using relaxed(1) [OF ok k ij(1,2)] n(2) us(3) by auto
  next
    case False
    then have ne: "i \<noteq> k" "k \<noteq> j" by auto
    obtain a x where a: "pm i k = Some (a, x)" "a \<le> Suc (length ys)" using paths_okD(2) [OF ok ij(1) k ne(1) c(3,1)] by blast
    obtain b y where b: "pm k j = Some (b, y)" "b \<le> Suc (length zs)" using paths_okD(2) [OF ok k ij(2) ne(2) c(4,2)] by blast
    obtain n m where "via k pm i j = Some (n, m)" "n \<le> a + b" using via_bound [of pm, OF a(1) b(1)] by blast
    then show ?thesis using relaxed(1) [OF ok k ij(1,2)] a(2) b(2) c(5) by auto
  qed
qed

lemma relax_lower:
  assumes ok: "paths_ok adj (set sws) K pm" and k: "k \<in> set sws" and ij: "i \<in> set sws" "j \<in> set sws" "i \<noteq> j"
    and n: "relax_all sws k pm i j = Some (n, m)"
  shows "(\<exists>xs. set xs \<subseteq> insert k K \<and> walk adj i xs j \<and> n = Suc (length xs)) \<and>
    (case m of None \<Rightarrow> n = 1 | Some k' \<Rightarrow> k' \<in> set sws - {i, j} \<and>
       (\<exists>a x b y. relax_all sws k pm i k' = Some (a, x) \<and> relax_all sws k pm k' j = Some (b, y) \<and> a + b \<le> n))"
proof -
  note D = paths_okD [OF ok]
  define q where "q = relax_all sws k pm"
  have q: "q i j = via k pm i j" if "i \<in> set sws" "j \<in> set sws" for i j
    using relaxed(1) [OF ok k that] by (simp add: q_def)
  note fixes_k = relaxed(2,3) [OF ok k ij(1,2)]
  note n = n [folded q_def]
  consider (old) "pm i j = Some (n, m)"
    | (new) a x b y where "pm i k = Some (a, x)" "pm k j = Some (b, y)" "n = a + b" "m = Some k" "i \<noteq> k" "k \<noteq> j"
  proof (cases "via k pm i j = pm i j")
    case True
    then show ?thesis using n q [OF ij(1,2)] old by simp
  next
    case False
    then have "i \<noteq> k" "k \<noteq> j" using fixes_k by metis+
    then show ?thesis using False via_cases [of k pm i j] n q [OF ij(1,2)] new by auto
  qed
  then show ?thesis
  proof cases
    case old
    obtain xs where xs: "set xs \<subseteq> K" "walk adj i xs j" "n = Suc (length xs)" using D(3) [OF ij old] by blast
    have "case m of None \<Rightarrow> n = 1 | Some k' \<Rightarrow> k' \<in> set sws - {i, j} \<and> (\<exists>a x b y. q i k' = Some (a, x) \<and> q k' j = Some (b, y) \<and> a + b \<le> n)"
    proof (cases m)
      case None
      then show ?thesis using D(4) [OF ij] old by simp
    next
      case (Some k')
      obtain a x b y where ab: "k' \<in> set sws - {i, j}" "pm i k' = Some (a, x)" "pm k' j = Some (b, y)" "a + b \<le> n"
        using D(5) [OF ij] old Some by metis
      obtain a' x' b' y' where "via k pm i k' = Some (a', x')" "a' \<le> a" "via k pm k' j = Some (b', y')" "b' \<le> b"
        using via_le [of pm, OF ab(2)] via_le [of pm, OF ab(3)] by blast
      moreover have "k' \<in> set sws" using ab(1) by blast
      moreover have "a' + b' \<le> n" using calculation ab(4) by linarith
      ultimately show ?thesis using Some ab(1) q ij by auto
    qed
    then show ?thesis using xs unfolding q_def by blast
  next
    case new
    obtain us where us: "set us \<subseteq> K" "walk adj i us k" "a = Suc (length us)" using D(3) [OF ij(1) k new(5,1)] by blast
    obtain vs where vs: "set vs \<subseteq> K" "walk adj k vs j" "b = Suc (length vs)" using D(3) [OF k ij(2) new(6,2)] by blast
    have "set (us @ k # vs) \<subseteq> insert k K \<and> walk adj i (us @ k # vs) j \<and> n = Suc (length (us @ k # vs))"
      using us vs new(3) by (auto simp: walk_split)
    moreover have "q i k = pm i k" "q k j = pm k j" using q fixes_k ij k by metis+
    ultimately show ?thesis using new k unfolding q_def by fastforce
  qed
qed

lemma relax_ok:
  assumes "paths_ok adj (set sws) K pm" "k \<in> set sws"
  shows "paths_ok adj (set sws) (insert k K) (relax_all sws k pm)"
proof -
  have "relax_all sws k pm i i = Some (0, None)" if "i \<in> set sws" for i
    using relaxed(1) [OF assms that that] paths_okD(1) [OF assms(1) that that] by (auto simp: via_def split: option.splits)
  then show ?thesis
    unfolding paths_ok_def [of _ _ "insert k K"] using relax_upper [OF assms] relax_lower [OF assms] by blast
qed

lemma rounds_ok:
  "set ks \<subseteq> set sws \<Longrightarrow> paths_ok adj (set sws) K pm \<Longrightarrow> paths_ok adj (set sws) (set ks \<union> K) (fold (relax_all sws) ks pm)"
proof (induction ks arbitrary: K pm)
  case (Cons k ks)
  then show ?case using Cons.IH [of "insert k K" "relax_all sws k pm"] relax_ok [OF Cons.prems(2), of k] by simp
qed simp

lemma calc_paths_ok: "paths_ok adj (set sws) (set sws) (calc_paths adj sws)"
  unfolding calc_paths_def using rounds_ok [OF order_refl direct_ok] by simp

subsection \<open>The paths that are read\<close>

definition shortest :: "port_map \<Rightarrow> int set \<Rightarrow> int \<Rightarrow> int list \<Rightarrow> int \<Rightarrow> bool" where
  "shortest adj V i xs j \<longleftrightarrow> set xs \<subseteq> V \<and> walk adj i xs j \<and> (\<forall>ys. set ys \<subseteq> V \<longrightarrow> walk adj i ys j \<longrightarrow> length xs \<le> length ys)"

lemma get_raw_path_shortest:
  assumes "paths_ok adj V V pm" "i \<in> V" "j \<in> V" "i \<noteq> j" "pm i j = Some (n, m)"
  shows "\<exists>xs. get_raw_path pm i j = Some (Inr (Some xs)) \<and> shortest adj V i xs j \<and> n = Suc (length xs)"
  using assms(2-)
proof (induction n arbitrary: i j m rule: less_induct)
  case (less n)
  note D = paths_okD [OF assms(1)]
  have short: "shortest adj V i xs j \<and> n = Suc (length xs)" if "set xs \<subseteq> V" "walk adj i xs j" "Suc (length xs) \<le> n" for xs
  proof -
    have "n \<le> Suc (length ys)" if "set ys \<subseteq> V" "walk adj i ys j" for ys
      using D(2) [OF less.prems(1-3) that] less.prems(4) by simp
    then show ?thesis using that unfolding shortest_def by fastforce
  qed
  show ?case
  proof (cases m)
    case None
    then have "n = 1" using D(4) less.prems by blast
    moreover obtain xs where "set xs \<subseteq> V" "walk adj i xs j" "n = Suc (length xs)" using D(3) [OF less.prems] by blast
    ultimately have "walk adj i [] j" "n = 1" by auto
    then show ?thesis using None short [of "[]"] less.prems by (subst get_raw_path.simps) simp
  next
    case (Some k)
    obtain a x b y where k: "k \<in> V" "i \<noteq> k" "k \<noteq> j" and ab: "pm i k = Some (a, x)" "pm k j = Some (b, y)" "a + b \<le> n"
      using D(5) less.prems Some by (metis DiffE insertI1 insertI2)
    have pos: "0 < a" "0 < b" using D(3) [OF less.prems(1) k(1,2) ab(1)] D(3) [OF k(1) less.prems(2) k(3) ab(2)] by auto
    obtain us where us: "get_raw_path pm i k = Some (Inr (Some us))" "shortest adj V i us k" "a = Suc (length us)"
      using less.IH [of a i k x] less.prems(1) k ab pos by auto
    obtain vs where vs: "get_raw_path pm k j = Some (Inr (Some vs))" "shortest adj V k vs j" "b = Suc (length vs)"
      using less.IH [of b k j y] less.prems(2) k ab pos by auto
    have "shortest adj V i (us @ k # vs) j \<and> n = Suc (length (us @ k # vs))"
      using us(2,3) vs(2,3) ab(3) k(1) by (intro short) (auto simp: shortest_def walk_split)
    then show ?thesis using Some less.prems us(1) vs(1) by (subst get_raw_path.simps) simp
  qed
qed

text \<open>A shortest walk visits no switch twice.\<close>

lemma walk_skip: "walk adj i (us @ k # vs @ k # ws) j \<Longrightarrow> walk adj i (us @ k # ws) j"
  by (simp add: walk_split)

lemma shortest_distinct:
  assumes "shortest adj V i xs j" "i \<noteq> j"
  shows "distinct (i # xs @ [j])"
proof -
  have s: "set xs \<subseteq> V" "walk adj i xs j" and least: "set ys \<subseteq> V \<Longrightarrow> walk adj i ys j \<Longrightarrow> length xs \<le> length ys" for ys
    using assms(1) by (simp_all add: shortest_def)
  have "distinct xs"
  proof (rule ccontr)
    assume "\<not> distinct xs"
    then obtain us k vs ws where xs: "xs = us @ [k] @ vs @ [k] @ ws" using not_distinct_decomp by blast
    have "walk adj i (us @ k # vs @ k # ws) j" using s(2) unfolding xs by simp
    moreover have "set (us @ k # ws) \<subseteq> V" using s(1) unfolding xs by simp
    ultimately have "length xs \<le> length (us @ k # ws)" using least [of "us @ k # ws"] walk_skip [of adj i us k vs ws j] by blast
    then show False using xs by simp
  qed
  moreover have "i \<notin> set xs"
  proof
    assume "i \<in> set xs"
    then obtain us vs where xs: "xs = us @ i # vs" by (meson split_list)
    then have "walk adj i vs j" "set vs \<subseteq> V" using s by (auto simp: walk_split)
    then have "length xs \<le> length vs" by (intro least)
    then show False using xs by simp
  qed
  moreover have "j \<notin> set xs"
  proof
    assume "j \<in> set xs"
    then obtain us vs where xs: "xs = us @ j # vs" by (meson split_list)
    then have "walk adj i us j" "set us \<subseteq> V" using s by (auto simp: walk_split)
    then have "length xs \<le> length us" by (intro least)
    then show False using xs by simp
  qed
  ultimately show ?thesis using assms(2) by simp
qed

lemma check_cooked: "check_path adj (map (\<lambda>(a, b). (a, adj a b)) (zip (butlast p) (tl p)) @ [(last p, q)])"
proof (induction p rule: induct_list012)
  case (3 a b r)
  then show ?case by (cases r) auto
qed simp_all

lemma check_cook: "p \<noteq> [] \<Longrightarrow> last p = dst \<Longrightarrow> check_path adj (cook adj p dst q)"
  using check_cooked [of adj p "Some q"] by (simp add: cook_def)

lemma cook_switches: "p \<noteq> [] \<Longrightarrow> last p = dst \<Longrightarrow> map fst (cook adj p dst q) = p"
proof -
  assume "p \<noteq> []" "last p = dst"
  then have "map fst (zip (butlast p) (tl p)) = butlast p" by simp
  then show ?thesis using \<open>p \<noteq> []\<close> \<open>last p = dst\<close>
    by (auto simp: cook_def comp_def case_prod_unfold intro: append_butlast_last_id)
qed

text \<open>What a path of ports promises: it leads from the source to the destination along \<open>adj\<close>.\<close>

definition leads :: "port_map \<Rightarrow> int \<Rightarrow> (int \<times> int option) list \<Rightarrow> int \<Rightarrow> int \<Rightarrow> bool" where
  "leads adj src r dst q \<longleftrightarrow> r \<noteq> [] \<and> fst (hd r) = src \<and> last r = (dst, Some q) \<and> distinct (map fst r) \<and>
     successively (\<lambda>x y. snd x = adj (fst x) (fst y) \<and> snd x \<noteq> None) r"

lemma cooked_leads: "successively (\<lambda>a b. adj a b \<noteq> None) p \<Longrightarrow> p \<noteq> [] \<Longrightarrow>
    successively (\<lambda>x y. snd x = adj (fst x) (fst y) \<and> snd x \<noteq> None) (map (\<lambda>(a, b). (a, adj a b)) (zip (butlast p) (tl p)) @ [(last p, q)])"
proof (induction p rule: induct_list012)
  case (3 a b r)
  then show ?case by (cases r) auto
qed simp_all

lemma cook_leads:
  assumes "walk adj src xs dst" "distinct (src # xs @ [dst])"
  shows "leads adj src (cook adj (src # xs @ [dst]) dst q) dst q"
proof -
  have s: "map fst (cook adj (src # xs @ [dst]) dst q) = src # xs @ [dst]" by (rule cook_switches) simp_all
  then have "fst (hd (cook adj (src # xs @ [dst]) dst q)) = src"
    by (metis hd_map list.map_disc_iff list.sel(1) list.distinct(1))
  then show ?thesis
    unfolding leads_def s using assms cooked_leads [of adj "src # xs @ [dst]" "Some q"] by (auto simp: cook_def walk_def)
qed

lemma get_path_here: "get_path adj pm dst dst q = Some (Inr (Some [(dst, Some q)]))"
  by (simp add: get_path_def cook_def)

lemma get_path_none: "src \<noteq> dst \<Longrightarrow> pm src dst = None \<Longrightarrow> get_path adj pm src dst q = Some (Inr None)"
  by (simp add: get_path_def get_raw_path.simps)

lemma get_path_some:
  assumes "paths_ok adj V V pm" "src \<in> V" "dst \<in> V" "src \<noteq> dst" "pm src dst = Some (n, m)"
  shows "\<exists>xs. get_path adj pm src dst q = Some (Inr (Some (cook adj (src # xs @ [dst]) dst q))) \<and>
    shortest adj V src xs dst \<and> n = Suc (length xs) \<and> leads adj src (cook adj (src # xs @ [dst]) dst q) dst q"
proof -
  obtain xs where xs: "get_raw_path pm src dst = Some (Inr (Some xs))" "shortest adj V src xs dst" "n = Suc (length xs)"
    using get_raw_path_shortest [OF assms] by blast
  have "check_path adj (cook adj (src # xs @ [dst]) dst q)" by (rule check_cook) simp_all
  then have "get_path adj pm src dst q = Some (Inr (Some (cook adj (src # xs @ [dst]) dst q)))"
    using xs(1) assms(4) by (simp add: get_path_def)
  moreover have "leads adj src (cook adj (src # xs @ [dst]) dst q) dst q"
    using cook_leads [OF _ shortest_distinct [OF xs(2) assms(4)]] xs(2) by (simp add: shortest_def)
  ultimately show ?thesis using xs by blast
qed

lemma no_walk_iff:
  assumes "paths_ok adj V V pm" "src \<in> V" "dst \<in> V" "src \<noteq> dst"
  shows "pm src dst = None \<longleftrightarrow> (\<forall>xs. set xs \<subseteq> V \<longrightarrow> \<not> walk adj src xs dst)"
  using paths_okD(2,3) [OF assms] by (cases "pm src dst") fastforce+

subsection \<open>The interface of the path computation\<close>

text \<open>
  What an application may rely on: asked for two known switches, the computation answers with a path of least
  length that leads from one to the other, or with nothing if there is none.
\<close>

locale path_finder =
  fixes adj :: port_map and V :: "int set" and find_path :: "int \<Rightarrow> int \<Rightarrow> int \<Rightarrow> (int \<times> int option) list option result option"
  assumes finite_switches: "finite V"
    and finds: "src \<in> V \<Longrightarrow> dst \<in> V \<Longrightarrow> src \<noteq> dst \<Longrightarrow>
      (find_path src dst q = Some (Inr None) \<and> (\<forall>xs. set xs \<subseteq> V \<longrightarrow> \<not> walk adj src xs dst)) \<or>
      (\<exists>xs r. find_path src dst q = Some (Inr (Some r)) \<and> shortest adj V src xs dst \<and> leads adj src r dst q \<and> map fst r = src # xs @ [dst])"
    and here: "find_path dst dst q = Some (Inr (Some [(dst, Some q)]))"
begin

lemma never_fails: "src \<in> V \<Longrightarrow> dst \<in> V \<Longrightarrow> \<exists>r. find_path src dst q = Some (Inr r)"
  using finds [of src dst q] here [of dst q] by (cases "src = dst") auto

lemma short_enough:
  assumes "src \<in> V" "dst \<in> V" "find_path src dst q = Some (Inr (Some r))"
  shows "length r \<le> card V"
proof (cases "src = dst")
  case True
  then have "length r = 1" using here [of dst q] assms(3) by auto
  moreover have "0 < card V" using assms(1) finite_switches by (auto simp: card_gt_0_iff)
  ultimately show ?thesis by simp
next
  case False
  obtain xs where xs: "shortest adj V src xs dst" "map fst r = src # xs @ [dst]" using finds [OF assms(1,2) False, of q] assms(3) by auto
  have "distinct (map fst r)" unfolding xs(2) by (rule shortest_distinct [OF xs(1) False])
  then have "length r = card (set (map fst r))" by (metis distinct_card length_map)
  also have "\<dots> \<le> card V" unfolding xs(2) using xs(1) assms(1,2) finite_switches by (intro card_mono) (auto simp: shortest_def)
  finally show ?thesis .
qed

end

lemma path_table_finds:
  assumes "paths_ok adj V V pm" "finite V"
  shows "path_finder adj V (get_path adj pm)"
proof
  fix src dst q
  assume v: "src \<in> V" "dst \<in> V" "src \<noteq> dst"
  show "(get_path adj pm src dst q = Some (Inr None) \<and> (\<forall>xs. set xs \<subseteq> V \<longrightarrow> \<not> walk adj src xs dst)) \<or>
      (\<exists>xs r. get_path adj pm src dst q = Some (Inr (Some r)) \<and> shortest adj V src xs dst \<and> leads adj src r dst q \<and> map fst r = src # xs @ [dst])"
  proof (cases "pm src dst")
    case None
    then show ?thesis using get_path_none [of src dst pm, OF v(3) None] no_walk_iff [OF assms(1) v] by blast
  next
    case (Some nm)
    then obtain n m where nm: "pm src dst = Some (n, m)" by (cases nm) simp
    have "map fst (cook adj (src # xs @ [dst]) dst q) = src # xs @ [dst]" for xs by (rule cook_switches) simp_all
    then show ?thesis using get_path_some [OF assms(1) v nm] by blast
  qed
qed (simp_all add: assms(2) get_path_here)

interpretation calculated: path_finder adj "set sws" "get_path adj (calc_paths adj sws)" for adj sws
  by (rule path_table_finds [OF calc_paths_ok finite_set])

end
