(* ===== verification/Py_Text.thy ===== *)
theory Py_Text
  imports Py_Prelude
begin

text \<open>
  Python's text operations that the address classes and the parsers use: \<^verbatim>\<open>split\<close> and \<^verbatim>\<open>join\<close>,
  \<^verbatim>\<open>int(s, base)\<close>, the decimal and hexadecimal renderings \<^verbatim>\<open>str(n)\<close>, \<^verbatim>\<open>"%02x" % n\<close>, and the C library's
  \<^verbatim>\<open>inet_aton\<close>/\<^verbatim>\<open>inet_ntoa\<close> behind the \<^verbatim>\<open>socket\<close> module. The lemmas say that printing and parsing
  are inverse.
\<close>

subsection \<open>Splitting and joining\<close>

fun split_on :: "char \<Rightarrow> string \<Rightarrow> string list" where
  "split_on c [] = [[]]"
| "split_on c (x # xs) =
     (if x = c then [] # split_on c xs
      else case split_on c xs of [] \<Rightarrow> [[x]] | y # ys \<Rightarrow> (x # y) # ys)"

text \<open>\<^verbatim>\<open>s.split(c, n)\<close>: at most \<open>n\<close> splits.\<close>

fun split_max :: "nat \<Rightarrow> char \<Rightarrow> string \<Rightarrow> string list" where
  "split_max n c [] = [[]]"
| "split_max n c (x # xs) =
     (if x = c \<and> n \<noteq> 0 then [] # split_max (n - 1) c xs
      else case split_max n c xs of [] \<Rightarrow> [[x]] | y # ys \<Rightarrow> (x # y) # ys)"

fun join :: "string \<Rightarrow> string list \<Rightarrow> string" where
  "join sep [] = []"
| "join sep [x] = x"
| "join sep (x # y # ys) = x @ sep @ join sep (y # ys)"

lemma split_on_nonempty [simp]: "split_on c s \<noteq> []"
  by (cases s) (auto split: list.splits)

lemma split_on_no_sep: "c \<notin> set s \<Longrightarrow> split_on c s = [s]"
  by (induction s) auto

lemma split_on_append: "c \<notin> set s \<Longrightarrow> split_on c (s @ c # t) = s # split_on c t"
  by (induction s) auto

lemma split_on_join:
  "xs \<noteq> [] \<Longrightarrow> \<forall>x \<in> set xs. c \<notin> set x \<Longrightarrow> split_on c (join [c] xs) = xs"
  by (induction "[c]" xs rule: join.induct) (auto simp: split_on_no_sep split_on_append)

lemma count_list_split_on: "length (split_on c s) = Suc (count_list s c)"
  by (induction s) (auto split: list.splits)

subsection \<open>Rendering numbers\<close>

definition digit_char :: "nat \<Rightarrow> char" where
  "digit_char d = (if d < 10 then char_of (48 + d) else char_of (87 + d))"

fun nat_digits :: "nat \<Rightarrow> nat \<Rightarrow> string" where
  "nat_digits b n =
     (if b < 2 \<or> n < b then [digit_char n] else nat_digits b (n div b) @ [digit_char (n mod b)])"

declare nat_digits.simps [simp del]

definition py_str :: "int \<Rightarrow> string" where
  "py_str n = (if n < 0 then CHR ''-'' # nat_digits 10 (nat (- n)) else nat_digits 10 (nat n))"

text \<open>\<^verbatim>\<open>"%02x" % n\<close>\<close>

definition hex02 :: "int \<Rightarrow> string" where
  "hex02 n =
     (let d = nat_digits 16 (nat \<bar>n\<bar>) in
      if n < 0 then CHR ''-'' # d else replicate (2 - length d) (CHR ''0'') @ d)"

subsection \<open>Parsing numbers\<close>

definition is_space :: "char \<Rightarrow> bool" where
  "is_space c \<longleftrightarrow> c = CHR '' '' \<or> (9 \<le> (of_char c :: nat) \<and> (of_char c :: nat) \<le> 13)"

definition digit_value :: "char \<Rightarrow> nat" where
  "digit_value c =
     (let n = of_char c in
      if 48 \<le> n \<and> n \<le> 57 then n - 48
      else if 97 \<le> n \<and> n \<le> 122 then n - 87
      else if 65 \<le> n \<and> n \<le> 90 then n - 55 else 99)"

definition strip :: "string \<Rightarrow> string" where
  "strip s = rev (dropWhile is_space (rev (dropWhile is_space s)))"

fun parse_digits :: "nat \<Rightarrow> nat \<Rightarrow> string \<Rightarrow> nat option" where
  "parse_digits b a [] = Some a"
| "parse_digits b a (c # cs) =
     (if digit_value c < b then parse_digits b (a * b + digit_value c) cs else None)"

text \<open>A literal without sign: in base 16 a prefix \<^verbatim>\<open>0x\<close> is skipped; no digit is an error.\<close>

definition parse_nat :: "nat \<Rightarrow> string \<Rightarrow> nat option" where
  "parse_nat b s =
     (let t = (if b = 16 \<and> (take 2 s = ''0x'' \<or> take 2 s = ''0X'') then drop 2 s else s)
      in if t = [] then None else parse_digits b 0 t)"

text \<open>
  \<^verbatim>\<open>int(s, base)\<close> of Python 2: blanks around the literal, and between the sign and the digits,
  are skipped; anything else raises \<^verbatim>\<open>ValueError\<close>.
\<close>

definition py_int :: "nat \<Rightarrow> string \<Rightarrow> int result" where
  "py_int b s =
     (let t = strip s;
          neg = (take 1 t = ''-'');
          u = (if take 1 t = ''-'' \<or> take 1 t = ''+'' then dropWhile is_space (drop 1 t) else t)
      in case parse_nat b u of None \<Rightarrow> Inl ValueError
         | Some n \<Rightarrow> Inr (if neg then - int n else int n))"

subsection \<open>Printing and parsing are inverse\<close>

lemma digit_char_0 [simp]: "digit_char 0 = CHR ''0''"
  by (rule of_char_eqI [where 'a = nat]) (simp add: digit_char_def)

lemma digit_char_code:
  "d < 36 \<Longrightarrow> (of_char (digit_char d) :: nat) = (if d < 10 then 48 + d else 87 + d)"
  by (simp add: digit_char_def)

lemma digit_value_char [simp]: "d < 36 \<Longrightarrow> digit_value (digit_char d) = d"
  by (simp add: digit_value_def digit_char_code Let_def)

lemma digit_char_class:
  assumes "d < 36"
  shows "\<not> is_space (digit_char d)" "digit_char d \<noteq> CHR ''-''" "digit_char d \<noteq> CHR ''+''"
    "digit_char d \<noteq> CHR ''.''" "digit_char d \<noteq> CHR '':''" "digit_char d \<noteq> CHR ''/''"
proof -
  note d = digit_char_code [OF assms]
  show "\<not> is_space (digit_char d)" using d by (auto simp: is_space_def split: if_splits)
  show "digit_char d \<noteq> CHR ''-''" "digit_char d \<noteq> CHR ''+''" "digit_char d \<noteq> CHR ''.''"
    "digit_char d \<noteq> CHR '':''" "digit_char d \<noteq> CHR ''/''"
    using d by (auto split: if_splits dest: arg_cong [where f = "of_char :: char \<Rightarrow> nat"])
qed

lemma nat_digits_not_Nil [simp]: "nat_digits b n \<noteq> []"
  by (subst nat_digits.simps) simp

lemma set_nat_digits:
  assumes "2 \<le> b" "b \<le> 36"
  shows "c \<in> set (nat_digits b n) \<Longrightarrow> \<exists>d < b. c = digit_char d"
  using assms
proof (induction b n rule: nat_digits.induct)
  case (1 b n)
  show ?case
  proof (cases "n < b")
    case True
    with "1.prems" show ?thesis by (subst (asm) nat_digits.simps) auto
  next
    case False
    with "1.prems" have "c \<in> set (nat_digits b (n div b)) \<or> c = digit_char (n mod b)"
      by (subst (asm) nat_digits.simps) auto
    moreover have "n mod b < b" using "1.prems" by simp
    ultimately show ?thesis using "1.IH" "1.prems"(2,3) False by (metis linorder_not_less)
  qed
qed

lemma parse_digits_append:
  "parse_digits b a (s @ t) =
     (case parse_digits b a s of None \<Rightarrow> None | Some a' \<Rightarrow> parse_digits b a' t)"
  by (induction b a s rule: parse_digits.induct) auto

lemma parse_digits_nat_digits:
  assumes "2 \<le> b" "b \<le> 36"
  shows "parse_digits b 0 (nat_digits b n) = Some n"
  using assms
proof (induction b n rule: nat_digits.induct)
  case (1 b n)
  then have less: "n mod b < b" by simp
  show ?case
  proof (cases "n < b")
    case True
    then show ?thesis using "1.prems" by (subst nat_digits.simps) simp
  next
    case False
    with "1.prems" have "nat_digits b n = nat_digits b (n div b) @ [digit_char (n mod b)]"
      by (subst nat_digits.simps) simp
    moreover have "parse_digits b 0 (nat_digits b (n div b)) = Some (n div b)"
      using "1.IH" "1.prems" False by simp
    moreover have "digit_value (digit_char (n mod b)) = n mod b"
      using less "1.prems" by (intro digit_value_char) linarith
    ultimately show ?thesis
      using less by (simp add: parse_digits_append)
  qed
qed

lemma nat_digits_class:
  assumes "2 \<le> b" "b \<le> 36" "c \<in> set (nat_digits b n)"
  shows "\<not> is_space c" "c \<noteq> CHR ''-''" "c \<noteq> CHR ''+''" "c \<noteq> CHR ''.''" "c \<noteq> CHR '':''" "c \<noteq> CHR ''/''"
  using set_nat_digits [OF assms] digit_char_class assms(2) by (metis order_less_le_trans)+

lemma strip_no_space: "\<forall>c \<in> set s. \<not> is_space c \<Longrightarrow> strip s = s"
proof -
  have dw: "\<forall>c \<in> set t. \<not> is_space c \<Longrightarrow> dropWhile is_space t = t" for t
    by (cases t) auto
  assume "\<forall>c \<in> set s. \<not> is_space c"
  then show "strip s = s"
    using dw [of s] dw [of "rev s"] by (simp add: strip_def)
qed

lemma py_int_nat_digits_10: "py_int 10 (nat_digits 10 n) = Inr (int n)"
proof -
  let ?s = "nat_digits 10 n"
  have "strip ?s = ?s" by (rule strip_no_space) (auto dest: nat_digits_class(1) [rotated 2])
  moreover obtain c cs where s: "?s = c # cs" by (cases ?s) auto
  moreover have "c \<noteq> CHR ''-''" "c \<noteq> CHR ''+''"
    using nat_digits_class(2,3) [of 10 c n] s by auto
  ultimately show ?thesis
    using parse_digits_nat_digits [of 10 n] by (simp add: py_int_def parse_nat_def Let_def)
qed

lemma py_int_py_str: "py_int 10 (py_str n) = Inr n"
proof (cases "n < 0")
  case True
  let ?d = "nat_digits 10 (nat (- n))"
  have cls: "\<forall>c \<in> set ?d. \<not> is_space c" by (auto dest: nat_digits_class(1) [rotated 2])
  then have "strip (CHR ''-'' # ?d) = CHR ''-'' # ?d"
    by (intro strip_no_space) (auto simp: is_space_def)
  moreover have "dropWhile is_space ?d = ?d"
    using cls by (cases ?d) auto
  ultimately show ?thesis
    using True parse_digits_nat_digits [of 10 "nat (- n)"]
    by (simp add: py_str_def py_int_def parse_nat_def Let_def)
next
  case False
  then show ?thesis by (simp add: py_str_def py_int_nat_digits_10)
qed

lemma nat_digits_16_byte:
  "n < 256 \<Longrightarrow> nat_digits 16 n =
     (if n < 16 then [digit_char n] else [digit_char (n div 16), digit_char (n mod 16)])"
  by (subst nat_digits.simps, simp add: less_mult_imp_div_less, subst nat_digits.simps,
      simp add: less_mult_imp_div_less)

lemma hex02_byte:
  "n < 256 \<Longrightarrow> hex02 (int n) = [digit_char (n div 16), digit_char (n mod 16)]"
  by (simp add: hex02_def nat_digits_16_byte Let_def)

lemma py_int_hex02: 
  assumes "n < 256"
  shows "py_int 16 (hex02 (int n)) = Inr (int n)"
proof -
  let ?a = "digit_char (n div 16)" and ?b = "digit_char (n mod 16)"
  have lt: "n div 16 < 16" "n mod 16 < 16" using assms by auto
  have "strip [?a, ?b] = [?a, ?b]"
    using lt digit_char_class(1) by (intro strip_no_space) auto
  moreover have "?a \<noteq> CHR ''-''" "?a \<noteq> CHR ''+''"
    using lt digit_char_class(2,3) by auto
  moreover have "?b \<noteq> CHR ''x''" "?b \<noteq> CHR ''X''"
    using digit_char_code [of "n mod 16"] lt(2)
    by (auto split: if_splits dest: arg_cong [where f = "of_char :: char \<Rightarrow> nat"])
  ultimately show ?thesis
    using assms lt by (simp add: hex02_byte py_int_def parse_nat_def Let_def)
qed

subsection \<open>Dotted quads: inet\_aton and inet\_ntoa\<close>

text \<open>
  \<^verbatim>\<open>inet_aton\<close> of the C library: one to four parts separated by dots, each in C notation (a
  leading \<^verbatim>\<open>0x\<close> is hexadecimal, a leading \<^verbatim>\<open>0\<close> octal), all but the last below 256 and the last
  filling the remaining bytes; a blank ends the address. The result is the address in network
  byte order.
\<close>

definition c_number :: "string \<Rightarrow> nat option" where
  "c_number s =
     (if s = [] then None
      else if take 2 s = ''0x'' \<or> take 2 s = ''0X'' then
        (if drop 2 s = [] then None else parse_digits 16 0 (drop 2 s))
      else if hd s = CHR ''0'' then parse_digits 8 0 s
      else parse_digits 10 0 s)"

fun aton_parts :: "nat \<Rightarrow> nat list \<Rightarrow> bytes option" where
  "aton_parts k [] = None"
| "aton_parts k [n] = (if 0 < k \<and> n < 256 ^ k then Some (be_bytes k (int n)) else None)"
| "aton_parts k (n # m # ns) =
     (if n < 256 then map_option (\<lambda>b. char_of n # b) (aton_parts (k - 1) (m # ns)) else None)"

fun all_some :: "'a option list \<Rightarrow> 'a list option" where
  "all_some [] = Some []"
| "all_some (None # xs) = None"
| "all_some (Some x # xs) = map_option (Cons x) (all_some xs)"

definition inet_aton :: "string \<Rightarrow> bytes result" where
  "inet_aton s =
     (let parts = split_on (CHR ''.'') (takeWhile (\<lambda>c. \<not> is_space c) s)
      in case all_some (map c_number parts) of
           None \<Rightarrow> Inl SocketError
         | Some ns \<Rightarrow> (case aton_parts 4 ns of None \<Rightarrow> Inl SocketError | Some b \<Rightarrow> Inr b))"

definition inet_ntoa :: "bytes \<Rightarrow> string" where
  "inet_ntoa b = join ''.'' (map (\<lambda>c. nat_digits 10 (of_char c)) b)"

lemma c_number_nat_digits:
  assumes "n < 256"
  shows "c_number (nat_digits 10 n) = Some n"
proof (cases "n = 0")
  case True
  then show ?thesis by (simp add: c_number_def nat_digits.simps digit_value_def)
next
  case False
  have hd: "m \<noteq> 0 \<Longrightarrow> \<exists>d cs. nat_digits 10 m = digit_char d # cs \<and> 0 < d \<and> d < 10" for m
  proof (induction m rule: less_induct)
    case (less m)
    show ?case
    proof (cases "m < 10")
      case True
      with less.prems show ?thesis by (subst nat_digits.simps) auto
    next
      case False
      then have "m div 10 < m" "m div 10 \<noteq> 0" by auto
      from less.IH [OF this] show ?thesis using False by (subst nat_digits.simps) auto
    qed
  qed
  from hd [OF False] obtain d cs where s: "nat_digits 10 n = digit_char d # cs" "0 < d" "d < 10"
    by blast
  have "digit_char d \<noteq> CHR ''0''"
    using s(2,3) digit_char_code [of d] by (auto dest: arg_cong [where f = "of_char :: char \<Rightarrow> nat"])
  then show ?thesis
    using s(1) parse_digits_nat_digits [of 10 n] by (simp add: c_number_def)
qed

lemma inet_aton_ntoa:
  assumes "length b = 4"
  shows "inet_aton (inet_ntoa b) = Inr b"
proof -
  let ?d = "\<lambda>c. nat_digits 10 (of_char c :: nat)"
  obtain w x y z where b: "b = [w, x, y, z]"
    using assms by (auto simp: numeral_eq_Suc length_Suc_conv)
  have "\<forall>c \<in> set (inet_ntoa b). \<not> is_space c"
    by (auto simp: b inet_ntoa_def is_space_def dest: nat_digits_class(1) [rotated 2])
  then have "takeWhile (\<lambda>c. \<not> is_space c) (inet_ntoa b) = inet_ntoa b"
    by (simp only: takeWhile_eq_all_conv)
  moreover have "split_on (CHR ''.'') (inet_ntoa b) = map ?d b"
    unfolding inet_ntoa_def
    by (rule split_on_join) (auto simp: b dest: nat_digits_class(4) [rotated 2])
  moreover have "c_number (?d c) = Some (of_char c)" for c
    by (rule c_number_nat_digits) simp
  ultimately show ?thesis
    by (simp only: inet_aton_def Let_def) (simp add: b of_nat_of_char)
qed

end
