(* ===== verification/Addresses.thy ===== *)
theory Addresses
  imports Py_Text
begin

text \<open>
  \<^verbatim>\<open>pox/lib/addresses.py\<close>: Ethernet addresses (\<^verbatim>\<open>EthAddr\<close>), IPv4 addresses (\<^verbatim>\<open>IPAddr\<close>) and CIDR
  networks. Objects are immutable, so an object is its \<^verbatim>\<open>_value\<close>. The native byte order of
  \<^verbatim>\<open>struct\<close> codes without an order mark is taken to be little-endian.
\<close>

subsection \<open>Ethernet addresses\<close>

datatype EthAddr = EthAddr (eth_value: bytes)

text \<open>What the constructor is called with.\<close>

datatype eth_arg =
    EaInt int
  | EaStr bytes
  | EaEth EthAddr
  | EaList "int list"
  | EaTuple "int list"
  | EaNone
  | EaOther

fun mapE :: "('a \<Rightarrow> 'b result) \<Rightarrow> 'a list \<Rightarrow> 'b list result" where
  "mapE f [] = Inr []"
| "mapE f (x # xs) = bindE (f x) (\<lambda>y. bindE (mapE f xs) (\<lambda>ys. Inr (y # ys)))"

definition py_chr :: "int \<Rightarrow> char result" where
  "py_chr n = (if 0 \<le> n \<and> n < 256 then Inr (char_of n) else Inl ValueError)"

text \<open>\<^verbatim>\<open>b''.join((chr(int(addr[x*2:x*2+2], 16)) for x in range(0,6)))\<close>\<close>

definition eth_from_hex12 :: "string \<Rightarrow> bytes result" where
  "eth_from_hex12 a =
     mapE (\<lambda>x. bindE (py_int 16 (slice (2 * x) (2 * x + 2) a)) py_chr) [0, 1, 2, 3, 4, 5]"

text \<open>\<^verbatim>\<open>addr[2::3]\<close>\<close>

definition every_third_from_2 :: "string \<Rightarrow> string" where
  "every_third_from_2 a = map ((!) a) (filter (\<lambda>i. i mod 3 = 2) [0..<length a])"

definition eth_from_str :: "bytes \<Rightarrow> bytes result" where
  "eth_from_str a =
     (if length a = 17 \<or> length a = 12 \<or> count_list a (CHR '':'') = 5 then
        (if length a = 17 then
           (if every_third_from_2 a \<noteq> '':::::'' \<and> every_third_from_2 a \<noteq> ''-----'' then Inl RuntimeError
            else eth_from_hex12 (concat (map (\<lambda>x. slice (3 * x) (3 * x + 2) a) [0, 1, 2, 3, 4, 5])))
         else if length a = 12 then eth_from_hex12 a
         else bindE (mapE (\<lambda>x. bindE (py_int 16 x) (\<lambda>n. Inr (hex02 n))) (split_on (CHR '':'') a))
                (\<lambda>parts. eth_from_hex12 (concat parts)))
      else if length a = 6 then Inr a
      else Inl RuntimeError)"

fun EthAddr_init :: "eth_arg \<Rightarrow> EthAddr result" where
  "EthAddr_init (EaInt n) = Inr (EthAddr (be_bytes 6 n))"
| "EthAddr_init (EaStr a) = bindE (eth_from_str a) (\<lambda>v. Inr (EthAddr v))"
| "EthAddr_init (EaEth e) = Inr (EthAddr (eth_value e))"
| "EthAddr_init (EaList xs) = bindE (mapE py_chr xs) (\<lambda>v. Inr (EthAddr v))"
| "EthAddr_init (EaTuple xs) =
     (if length xs = 6 then bindE (mapE py_chr xs) (\<lambda>v. Inr (EthAddr v)) else Inl RuntimeError)"
| "EthAddr_init EaNone = Inr (EthAddr (replicate 6 NUL))"
| "EthAddr_init EaOther = Inl RuntimeError"

definition EMPTY_ETH :: EthAddr where
  "EMPTY_ETH = EthAddr (replicate 6 NUL)"

definition byte_at :: "bytes \<Rightarrow> nat \<Rightarrow> int result" where
  "byte_at s i = (if i < length s then Inr (of_char (s ! i)) else Inl IndexError)"

text \<open>A chain of \<^verbatim>\<open>and\<close>: stops at the first false or raising operand.\<close>

fun andE :: "bool result list \<Rightarrow> bool result" where
  "andE [] = Inr True"
| "andE (p # ps) = bindE p (\<lambda>b. if b then andE ps else Inr False)"

definition isBridgeFiltered :: "EthAddr \<Rightarrow> bool result" where
  "isBridgeFiltered e =
     (let v = eth_value e; eq = (\<lambda>i n. bindE (byte_at v i) (\<lambda>b. Inr (b = n)))
      in andE [eq 0 0x01, eq 1 0x80, eq 2 0xC2, eq 3 0x00, eq 4 0x00,
               bindE (byte_at v 5) (\<lambda>b. Inr (b \<le> 0x0F))])"

definition isLocal :: "EthAddr \<Rightarrow> bool result" where
  "isLocal e = bindE (byte_at (eth_value e) 0) (\<lambda>b. Inr (b AND 2 \<noteq> 0))"

definition isGlobal :: "EthAddr \<Rightarrow> bool result" where
  "isGlobal e = bindE (isLocal e) (\<lambda>b. Inr (\<not> b))"

definition isMulticast :: "EthAddr \<Rightarrow> bool result" where
  "isMulticast e = bindE (byte_at (eth_value e) 0) (\<lambda>b. Inr (b AND 1 \<noteq> 0))"

definition eth_toRaw :: "EthAddr \<Rightarrow> bytes" where
  "eth_toRaw e = eth_value e"

text \<open>The loop of \<^verbatim>\<open>toInt\<close> from byte \<open>i\<close> on; a negative shift count raises \<^verbatim>\<open>ValueError\<close>.\<close>

fun eth_toInt_loop :: "int \<Rightarrow> int \<Rightarrow> bytes \<Rightarrow> int result" where
  "eth_toInt_loop i acc [] = Inr acc"
| "eth_toInt_loop i acc (c # cs) =
     (if 5 - i < 0 then Inl ValueError
      else eth_toInt_loop (i + 1) (acc + push_bit (nat (8 * (5 - i))) (of_char c)) cs)"

definition eth_toInt :: "EthAddr \<Rightarrow> int result" where
  "eth_toInt e = eth_toInt_loop 0 0 (eth_value e)"

definition eth_toTuple :: "EthAddr \<Rightarrow> int list" where
  "eth_toTuple e = map of_char (eth_value e)"

definition eth_toStr :: "string \<Rightarrow> EthAddr \<Rightarrow> string" where
  "eth_toStr separator e = join separator (map (\<lambda>c. hex02 (of_char c)) (eth_value e))"

text \<open>
  \<^verbatim>\<open>__cmp__\<close>: zero on equal values and \<open>-1\<close> otherwise, in both directions. A string is compared
  as it is, every other argument goes through the constructor; when that raises, the argument's
  own \<^verbatim>\<open>__cmp__\<close> is tried, which the arguments modelled here do not have.
\<close>

definition EthAddr_cmp :: "EthAddr \<Rightarrow> eth_arg \<Rightarrow> int result" where
  "EthAddr_cmp e other =
     (case (case other of EaEth e2 \<Rightarrow> Inr (eth_value e2) | EaStr s \<Rightarrow> Inr s
            | _ \<Rightarrow> bindE (EthAddr_init other) (\<lambda>e2. Inr (eth_value e2))) of
        Inl _ \<Rightarrow> Inl AttributeError
      | Inr v \<Rightarrow> Inr (if eth_value e = v then 0 else -1))"

definition EthAddr_len :: "EthAddr \<Rightarrow> nat" where
  "EthAddr_len e = 6"

subsection \<open>IPv4 addresses\<close>

datatype IPAddr = IPAddr (ip_value: int)

datatype ip_arg = IpStr bytes | IpObj IPAddr | IpInt int | IpTuple ip_arg ip_arg

definition mask32 :: int where "mask32 = 0xffFFffFF"

text \<open>Reading four bytes as a signed 32-bit integer.\<close>

definition s32 :: "int \<Rightarrow> int" where
  "s32 v = (if v < 2 ^ 31 then v else v - 2 ^ 32)"

definition native_i :: "bytes \<Rightarrow> int result" where
  "native_i b = (if length b = 4 then Inr (s32 (be_value (rev b))) else Inl StructError)"

fun IPAddr_init :: "ip_arg \<Rightarrow> bool \<Rightarrow> IPAddr result" where
  "IPAddr_init (IpStr a) networkOrder =
     bindE (if length a \<noteq> 4 then inet_aton a else Inr a) (\<lambda>b. bindE (native_i b) (\<lambda>v. Inr (IPAddr v)))"
| "IPAddr_init (IpObj a) networkOrder = Inr (IPAddr (ip_value a))"
| "IPAddr_init (IpInt n) networkOrder =
     (let addr = n AND mask32;
          packed = (if networkOrder then be_bytes 4 addr else rev (be_bytes 4 addr))
      in Inr (IPAddr (s32 (be_value packed))))"
| "IPAddr_init (IpTuple a b) networkOrder = Inl RuntimeError"

definition htonl :: "int \<Rightarrow> int" where
  "htonl v = bswap32 v"

definition toUnsigned :: "IPAddr \<Rightarrow> bool \<Rightarrow> int" where
  "toUnsigned a networkOrder =
     (if \<not> networkOrder then htonl (ip_value a AND mask32) else ip_value a AND mask32)"

definition toSigned :: "IPAddr \<Rightarrow> bool \<Rightarrow> int" where
  "toSigned a networkOrder =
     (if networkOrder then ip_value a else s32 (htonl (ip_value a AND mask32)))"

definition toUnsignedN :: "IPAddr \<Rightarrow> int" where
  "toUnsignedN a = toUnsigned a True"

definition toSignedN :: "IPAddr \<Rightarrow> int" where
  "toSignedN a = toSigned a True"

definition ip_toRaw :: "IPAddr \<Rightarrow> bytes result" where
  "ip_toRaw a =
     (if - (2 ^ 31) \<le> ip_value a \<and> ip_value a < 2 ^ 31 then Inr (rev (be_bytes 4 (ip_value a)))
      else Inl StructError)"

definition ip_toStr :: "IPAddr \<Rightarrow> string result" where
  "ip_toStr a = bindE (ip_toRaw a) (\<lambda>b. Inr (inet_ntoa b))"

text \<open>\<^verbatim>\<open>__cmp__\<close>, with \<^verbatim>\<open>None\<close> as the argument for \<open>None\<close>.\<close>

definition IPAddr_cmp :: "IPAddr \<Rightarrow> ip_arg option \<Rightarrow> int result" where
  "IPAddr_cmp a other =
     (case other of None \<Rightarrow> Inr 1
      | Some a2 \<Rightarrow> (case IPAddr_init a2 False of Inl _ \<Rightarrow> Inl AttributeError
                   | Inr b \<Rightarrow> Inr (sgn (ip_value a - ip_value b))))"

subsection \<open>Networks\<close>

definition inferNetMask :: "IPAddr \<Rightarrow> int option" where
  "inferNetMask a =
     (let addr = toUnsigned a False in
      if addr = 0 then Some 32
      else if addr AND push_bit 31 1 = 0 then Some 24
      else if addr AND push_bit 30 3 = push_bit 30 2 then Some 16
      else if addr AND push_bit 29 7 = push_bit 29 6 then Some 8
      else if addr AND push_bit 28 15 = push_bit 28 14 then Some 0
      else None)"

definition parseCIDR_check :: "IPAddr \<Rightarrow> int \<Rightarrow> (IPAddr \<times> int) result" where
  "parseCIDR_check r0 r1 =
     (let a = toUnsigned r0 False in
      if a AND (push_bit (nat r1) 1 - 1) \<noteq> 0 then Inl RuntimeError else Inr (r0, r1))"

text \<open>
  \<^verbatim>\<open>while m & (1<<31): b += 1; m <<= 1\<close>. The integer grows, but what the guard reads are the
  32 low bits, of which each turn shifts one out.
\<close>

lemma netmask_measure:
  assumes "bit (m::int) 31"
  shows "card {i. i < 32 \<and> bit (push_bit 1 m) i} < card {i. i < 32 \<and> bit m i}"
proof -
  have "{i. i < 32 \<and> bit (push_bit 1 m) i} = Suc ` {i. i < 31 \<and> bit m i}"
  proof (rule set_eqI)
    fix i
    show "i \<in> {i. i < 32 \<and> bit (push_bit 1 m) i} \<longleftrightarrow> i \<in> Suc ` {i. i < 31 \<and> bit m i}"
      by (cases i) (auto simp only: bit_push_bit_iff_int mem_Collect_eq image_iff, auto)
  qed
  then have "card {i. i < 32 \<and> bit (push_bit 1 m) i} = card {i. i < 31 \<and> bit m i}"
    by (simp add: card_image)
  also have "\<dots> < card {i. i < 32 \<and> bit m i}"
  proof (rule psubset_card_mono)
    have "(31::nat) \<in> {i. i < 32 \<and> bit m i}" using assms by simp
    then show "{i. i < 31 \<and> bit m i} \<subset> {i. i < 32 \<and> bit m i}" by fastforce
  qed simp
  finally show ?thesis .
qed

function netmask_loop :: "int \<Rightarrow> int \<Rightarrow> int \<times> int" where
  "netmask_loop b m =
     (if m AND push_bit 31 1 \<noteq> 0 then netmask_loop (b + 1) (push_bit 1 m) else (b, m))"
  by pat_completeness auto
termination
proof (relation "measure (\<lambda>(b, m). card {i. i < 32 \<and> bit m i})")
  show "wf (measure (\<lambda>(b::int, m::int). card {i. i < 32 \<and> bit m i}))" by simp
  fix b m :: int
  assume "m AND push_bit 31 1 \<noteq> 0"
  then have "bit m 31"
    by (simp only: push_bit_of_1 and_exp_eq_0_iff_not_bit not_not)
  then show "((b + 1, push_bit 1 m), b, m) \<in> measure (\<lambda>(b, m). card {i. i < 32 \<and> bit m i})"
    using netmask_measure by simp
qed

declare netmask_loop.simps [simp del]

definition parseCIDR :: "string \<Rightarrow> bool \<Rightarrow> (IPAddr \<times> int) result" where
  "parseCIDR s infer =
     (let addr = split_max 2 (CHR ''/'') s in
      if length addr = 1 then
        bindE (IPAddr_init (IpStr (addr ! 0)) False) (\<lambda>a.
          if \<not> infer then Inr (a, 0)
          else case inferNetMask a of
              None \<Rightarrow> Inl TypeError
            | Some b \<Rightarrow> (if toUnsigned a False AND (push_bit (nat b) 1 - 1) = 0
                then parseCIDR_check a b else parseCIDR_check a 0))
      else
        bindE (case py_int 10 (addr ! 1) of
            Inr n \<Rightarrow> Inr (32 - n)
          | Inl _ \<Rightarrow>
              bindE (IPAddr_init (IpStr (addr ! 1)) False) (\<lambda>ma.
                let (b, m) = netmask_loop 0 (toUnsigned ma False) in
                if m AND 0x7fffffff \<noteq> 0 then Inl RuntimeError else Inr (32 - b)))
          (\<lambda>wild.
            if 0 \<le> wild \<and> wild \<le> 32
            then bindE (IPAddr_init (IpStr (addr ! 0)) False) (\<lambda>a. parseCIDR_check a wild)
            else Inl AssertionError))"

datatype net_arg = NetStr string | NetTuple ip_arg int

definition inNetwork_test :: "IPAddr \<Rightarrow> IPAddr \<Rightarrow> int \<Rightarrow> bool result" where
  "inNetwork_test self n b =
     (if b < 0 then Inl ValueError
      else Inr (toUnsigned self False AND NOT (push_bit (nat b) 1 - 1) = toUnsigned n False))"

fun inNetwork :: "IPAddr \<Rightarrow> net_arg \<Rightarrow> string option \<Rightarrow> bool result" where
  "inNetwork self (NetStr network) netmask =
     bindE (parseCIDR (case netmask of None \<Rightarrow> network | Some m \<Rightarrow> network @ ''/'' @ m) True)
       (\<lambda>(n, b). inNetwork_test self n b)"
| "inNetwork self (NetTuple n b) netmask =
     bindE (IPAddr_init n False) (\<lambda>n'. inNetwork_test self n' b)"

subsection \<open>Laws of the addresses\<close>

lemma and_mask32: "x AND mask32 = x mod 2 ^ 32"
proof -
  have "mask32 = mask 32" by (simp add: mask32_def mask_eq_exp_minus_1)
  then have "x AND mask32 = take_bit 32 x" by (metis take_bit_eq_mask)
  then show ?thesis by (simp add: take_bit_eq_mod)
qed

lemma s32_range: "0 \<le> v \<Longrightarrow> v < 2 ^ 32 \<Longrightarrow> - (2 ^ 31) \<le> s32 v \<and> s32 v < 2 ^ 31"
  by (simp add: s32_def)

lemma s32_mod [simp]: "0 \<le> v \<Longrightarrow> v < 2 ^ 32 \<Longrightarrow> s32 v mod 2 ^ 32 = v"
  by (auto simp: s32_def)

text \<open>The invariant of \<^verbatim>\<open>IPAddr\<close>: a signed 32-bit value.\<close>

definition ip_ok :: "IPAddr \<Rightarrow> bool" where
  "ip_ok a \<longleftrightarrow> - (2 ^ 31) \<le> ip_value a \<and> ip_value a < 2 ^ 31"

fun ip_arg_ok :: "ip_arg \<Rightarrow> bool" where
  "ip_arg_ok (IpObj a) = ip_ok a"
| "ip_arg_ok _ = True"

lemma native_i_Inr:
  assumes "native_i b = Inr v"
  shows "length b = 4" "v = s32 (be_value (rev b))" "- (2 ^ 31) \<le> v" "v < 2 ^ 31"
proof -
  show l: "length b = 4" and v: "v = s32 (be_value (rev b))"
    using assms by (auto simp: native_i_def split: if_splits)
  show "- (2 ^ 31) \<le> v" "v < 2 ^ 31"
    using be_value_bounds [of "rev b"] l s32_range [of "be_value (rev b)"] v by auto
qed

lemma IPAddr_init_ok: "IPAddr_init x n = Inr a \<Longrightarrow> ip_arg_ok x \<Longrightarrow> ip_ok a"
proof (induction x n rule: IPAddr_init.induct)
  case (1 s n)
  then show ?case by (auto simp: ip_ok_def dest: native_i_Inr)
next
  case (2 b n)
  then show ?case by (auto simp: ip_ok_def)
next
  case (3 k n)
  let ?p = "if n then be_bytes 4 (k AND mask32) else rev (be_bytes 4 (k AND mask32))"
  have "0 \<le> be_value ?p \<and> be_value ?p < 2 ^ 32"
    using be_value_bounds [of ?p] by (cases n) simp_all
  then show ?case using 3 s32_range [of "be_value ?p"] by (auto simp: ip_ok_def Let_def)
next
  case (4 p q n)
  then show ?case by simp
qed

lemma toUnsigned_IpInt:
  assumes "IPAddr_init (IpInt n) networkOrder = Inr a"
  shows "toUnsigned a networkOrder = n mod 2 ^ 32"
proof (cases networkOrder)
  case True
  have r: "0 \<le> n mod 2 ^ 32" "n mod 2 ^ 32 < (2::int) ^ 32" by simp_all
  then have "be_value (be_bytes 4 (n mod 2 ^ 32)) = n mod 2 ^ 32"
    by (simp add: be_value_be_bytes)
  then have "ip_value a = s32 (n mod 2 ^ 32)"
    using assms True by (auto simp: Let_def and_mask32)
  then have "ip_value a mod 2 ^ 32 = n mod 2 ^ 32"
    using s32_mod [OF r] by simp
  then show ?thesis using True by (simp only: toUnsigned_def and_mask32) simp
next
  case False
  let ?b = "bswap32 (n mod 2 ^ 32)"
  have "ip_value a = s32 ?b"
    using assms False by (auto simp: Let_def and_mask32 bswap32_def)
  moreover have "s32 ?b mod 2 ^ 32 = ?b" by (rule s32_mod [OF bswap32_range])
  ultimately have "ip_value a mod 2 ^ 32 = ?b" by simp
  then show ?thesis
    using False bswap32_bswap32 [of "n mod 2 ^ 32"] by (simp only: toUnsigned_def and_mask32 htonl_def) simp
qed

lemma toUnsigned_range: "0 \<le> toUnsigned a n" "toUnsigned a n < 2 ^ 32"
  using bswap32_range [of "ip_value a mod 2 ^ 32"]
  by (simp_all add: toUnsigned_def and_mask32 htonl_def)

lemma be_bytes_mod: "be_bytes n (v mod 256 ^ n) = be_bytes n v"
proof -
  have "be_value (be_bytes n (v mod 256 ^ n)) = be_value (be_bytes n v)"
    by (simp add: be_value_be_bytes)
  then show ?thesis by (metis be_bytes_be_value length_be_bytes)
qed

lemma s32_mod_id: "- (2 ^ 31) \<le> v \<Longrightarrow> v < 2 ^ 31 \<Longrightarrow> s32 (v mod 2 ^ 32) = v"
proof (cases "0 \<le> v")
  case False
  assume "- (2 ^ 31) \<le> v" "v < 2 ^ 31"
  with False have "(v + 2 ^ 32) mod 2 ^ 32 = v + 2 ^ 32"
    by (intro mod_pos_pos_trivial) auto
  then have "v mod 2 ^ 32 = v + 2 ^ 32" by simp
  with False \<open>- (2 ^ 31) \<le> v\<close> show ?thesis by (simp add: s32_def)
qed (simp add: s32_def)

lemma ip_raw_roundtrip:
  assumes "ip_ok a"
  obtains b where "ip_toRaw a = Inr b" "length b = 4" "IPAddr_init (IpStr b) n = Inr a"
proof
  let ?b = "rev (be_bytes 4 (ip_value a))"
  show "ip_toRaw a = Inr ?b" using assms by (simp add: ip_toRaw_def ip_ok_def)
  show "length ?b = 4" by simp
  have "be_value (be_bytes 4 (ip_value a)) = ip_value a mod 2 ^ 32"
    by (simp add: be_value_be_bytes)
  then show "IPAddr_init (IpStr ?b) n = Inr a"
    using assms s32_mod_id [of "ip_value a"] by (cases a) (simp add: native_i_def ip_ok_def)
qed

lemma length_join_dot: 
  "length (inet_ntoa b) \<ge> 2 * length b - 1"
  unfolding inet_ntoa_def
proof (induction b rule: induct_list012)
  case 1 show ?case by simp
next
  case (2 x) show ?case using nat_digits_not_Nil [of 10 "of_char x"] by (cases "nat_digits 10 (of_char x)") auto
next
  case (3 x y zs)
  have "1 \<le> length (nat_digits 10 (of_char x))" by (cases "nat_digits 10 (of_char x)") auto
  with 3 show ?case by simp
qed

lemma ip_str_roundtrip:
  assumes "ip_ok a"
  obtains s where "ip_toStr a = Inr s" "IPAddr_init (IpStr s) n = Inr a"
proof -
  obtain b where b: "ip_toRaw a = Inr b" "length b = 4" "IPAddr_init (IpStr b) n = Inr a"
    using ip_raw_roundtrip [OF assms] by blast
  have "length (inet_ntoa b) \<noteq> 4" using length_join_dot [of b] b(2) by simp
  moreover have "inet_aton (inet_ntoa b) = Inr b" by (rule inet_aton_ntoa [OF b(2)])
  ultimately have "IPAddr_init (IpStr (inet_ntoa b)) n = Inr a" using b(2,3) by simp
  moreover have "ip_toStr a = Inr (inet_ntoa b)" using b(1) by (simp add: ip_toStr_def)
  ultimately show thesis using that by blast
qed

text \<open>Equal unsigned values are equal addresses.\<close>

lemma toUnsigned_inj:
  assumes "ip_ok a" "ip_ok b" "toUnsigned a n = toUnsigned b n"
  shows "a = b"
proof -
  have "ip_value a mod 2 ^ 32 = ip_value b mod 2 ^ 32"
  proof (cases n)
    case False
    then have "bswap32 (bswap32 (ip_value a mod 2 ^ 32)) = bswap32 (bswap32 (ip_value b mod 2 ^ 32))"
      using assms(3) by (simp add: toUnsigned_def and_mask32 htonl_def)
    then show ?thesis by (simp add: bswap32_bswap32)
  qed (use assms(3) in \<open>simp add: toUnsigned_def and_mask32\<close>)
  then show ?thesis
    using assms(1,2) s32_mod_id [of "ip_value a"] s32_mod_id [of "ip_value b"]
    by (cases a, cases b) (auto simp: ip_ok_def)
qed

text \<open>
  What \<^verbatim>\<open>inNetwork\<close> decides: the address agrees with the network on all bits from \<open>b\<close> on, and
  the network has no bit set below.
\<close>

lemma push_bit_minus_1_mask: "push_bit k (1::int) - 1 = mask k"
  by (simp add: mask_eq_exp_minus_1)

lemma and_not_mask_eq_iff:
  fixes x y :: int
  shows "x AND NOT (mask b) = y \<longleftrightarrow> (\<forall>i. bit y i \<longleftrightarrow> b \<le> i \<and> bit x i)"
  by (auto simp: bit_eq_iff bit_and_iff bit_not_iff bit_mask_iff not_less)

lemma inNetwork_test_iff:
  "inNetwork_test self n (int b) = Inr True \<longleftrightarrow>
     (\<forall>i. bit (toUnsigned n False) i \<longleftrightarrow> b \<le> i \<and> bit (toUnsigned self False) i)"
  by (simp only: inNetwork_test_def push_bit_minus_1_mask) (simp add: and_not_mask_eq_iff)

lemma parseCIDR_check_iff:
  "parseCIDR_check a (int b) = Inr r \<longleftrightarrow> r = (a, int b) \<and> (\<forall>i < b. \<not> bit (toUnsigned a False) i)"
  unfolding parseCIDR_check_def Let_def nat_int push_bit_minus_1_mask
  by (auto simp: bit_eq_iff bit_and_iff bit_mask_iff)

lemma parseCIDR_check_Inr: "parseCIDR_check a b = Inr r \<Longrightarrow> r = (a, b)"
  by (auto simp: parseCIDR_check_def Let_def split: if_splits)

lemma and_push_bit: "(v::int) AND push_bit n m = push_bit n (drop_bit n v AND m)"
  by (rule bit_eqI) (auto simp: bit_and_iff bit_push_bit_iff bit_drop_bit_eq)

lemma class_test:
  "(v::int) AND push_bit 28 m = push_bit 28 k \<longleftrightarrow> v div 2 ^ 28 AND m = k"
  by (simp only: and_push_bit drop_bit_eq_div) (simp add: push_bit_eq_mult)

lemma inferNetMask_eq:
  "inferNetMask a =
     (let v = toUnsigned a False in
      if v = 0 then Some 32
      else if v < 0x80000000 then Some 24
      else if v < 0xC0000000 then Some 16
      else if v < 0xE0000000 then Some 8
      else if v < 0xF0000000 then Some 0
      else None)"
proof -
  define v d where "v = toUnsigned a False" and "d = v div 2 ^ 28"
  have "0 \<le> v" "v < 2 ^ 32" using toUnsigned_range by (auto simp: v_def)
  then have "0 \<le> d" "d < 16" by (auto simp: d_def)
  then have "d \<in> set [0..15]" by simp
  then have d: "d \<in> {0, 1, 2, 3, 4, 5, 6, 7, 8, 9, 10, 11, 12, 13, 14, 15}"
    by (simp add: upto.simps del: set_upto)
  obtain r where r: "v = 2 ^ 28 * d + r" "0 \<le> r" "r < 2 ^ 28"
    using that [of "v mod 2 ^ 28"] by (simp add: d_def)
  have "(v AND push_bit 31 1 = 0) = (v AND push_bit 28 8 = push_bit 28 0)"
    "(v AND push_bit 30 3 = push_bit 30 2) = (v AND push_bit 28 12 = push_bit 28 8)"
    "(v AND push_bit 29 7 = push_bit 29 6) = (v AND push_bit 28 14 = push_bit 28 12)"
    by simp_all
  then have t: "(v AND push_bit 31 1 = 0) = (d AND 8 = 0)"
    "(v AND push_bit 30 3 = push_bit 30 2) = (d AND 12 = 8)"
    "(v AND push_bit 29 7 = push_bit 29 6) = (d AND 14 = 12)"
    "(v AND push_bit 28 15 = push_bit 28 14) = (d AND 15 = 14)"
    by (simp_all only: class_test d_def [symmetric])
  have "(v < 0x80000000) = (d < 8)" "(v < 0xC0000000) = (d < 12)" "(v < 0xE0000000) = (d < 14)"
    "(v < 0xF0000000) = (d < 15)"
    using r by auto
  moreover have "(d AND 8 = 0) = (d < 8)" "(d AND 12 = 8) = (8 \<le> d \<and> d < 12)"
    "(d AND 14 = 12) = (12 \<le> d \<and> d < 14)" "(d AND 15 = 14) = (d = 14)"
    using d by (elim insertE emptyE; simp)+
  ultimately show ?thesis
    unfolding inferNetMask_def Let_def v_def [symmetric] t by auto
qed

lemma parseCIDR_ok:
  assumes "parseCIDR s infer = Inr (a, b)"
  shows "ip_ok a" "0 \<le> b" "b \<le> 32" "\<forall>i < nat b. \<not> bit (toUnsigned a False) i"
proof -
  have chk: "parseCIDR_check x w = Inr (a, b) \<Longrightarrow> 0 \<le> w \<Longrightarrow>
      a = x \<and> b = w \<and> (\<forall>i < nat b. \<not> bit (toUnsigned a False) i)" for x w
    using parseCIDR_check_iff [of x "nat w" "(a, b)"] by simp
  have mask: "inferNetMask x = Some w \<Longrightarrow> 0 \<le> w \<and> w \<le> 32" for x w
    by (auto simp: inferNetMask_eq Let_def split: if_splits)
  have "ip_ok a \<and> 0 \<le> b \<and> b \<le> 32 \<and> (\<forall>i < nat b. \<not> bit (toUnsigned a False) i)"
    using assms unfolding parseCIDR_def Let_def
    by (auto split: if_splits option.splits dest!: chk mask IPAddr_init_ok simp del: IPAddr_init.simps)
  then show "ip_ok a" "0 \<le> b" "b \<le> 32" "\<forall>i < nat b. \<not> bit (toUnsigned a False) i" by auto
qed

text \<open>\<^verbatim>\<open>EthAddr\<close>: the invariant is a six-byte value.\<close>

definition eth_ok :: "EthAddr \<Rightarrow> bool" where
  "eth_ok e \<longleftrightarrow> length (eth_value e) = 6"

lemma six_bytes:
  assumes "length s = 6"
  obtains a b c d e f where "s = [a, b, c, d, e, f]"
  using assms by (auto simp: numeral_eq_Suc length_Suc_conv)

lemma mapE_length: "mapE f xs = Inr ys \<Longrightarrow> length ys = length xs"
  by (induction xs arbitrary: ys) auto

lemma eth_from_hex12_length: "eth_from_hex12 a = Inr v \<Longrightarrow> length v = 6"
  unfolding eth_from_hex12_def by (drule mapE_length) simp

lemma eth_from_str_length: "eth_from_str a = Inr v \<Longrightarrow> length v = 6"
  by (auto simp: eth_from_str_def split: if_splits dest: eth_from_hex12_length)

lemma EthAddr_init_ok:
  "EthAddr_init x = Inr e \<Longrightarrow> (case x of EaEth e0 \<Rightarrow> eth_ok e0 | EaList xs \<Rightarrow> length xs = 6 | _ \<Rightarrow> True) \<Longrightarrow> eth_ok e"
  by (cases x) (auto simp: eth_ok_def dest: eth_from_str_length mapE_length split: if_splits)

lemma eth_ok_EMPTY [simp]: "eth_ok EMPTY_ETH"
  by (simp add: eth_ok_def EMPTY_ETH_def)

lemma eth_toInt_be_value: "eth_ok e \<Longrightarrow> eth_toInt e = Inr (be_value (eth_value e))"
  unfolding eth_ok_def
  by (erule six_bytes) (simp add: eth_toInt_def be_value_def push_bit_eq_mult)

lemma mapE_py_chr: "mapE py_chr (map of_char s) = Inr s"
  by (induction s) (auto simp: py_chr_def of_char_range not_less)

lemma EthAddr_init_bytes [codec]:
  "length s = 6 \<Longrightarrow> EthAddr_init (EaTuple (map of_char s)) = Inr (EthAddr s)"
  by (simp add: mapE_py_chr)

lemma EthAddr_init_raw:
  "length s = 6 \<Longrightarrow> count_list s (CHR '':'') \<noteq> 5 \<Longrightarrow> EthAddr_init (EaStr s) = Inr (EthAddr s)"
  by (simp add: eth_from_str_def)

lemma hex_pair:
  obtains h l where "hex02 (of_char c) = [h, l]" "py_int 16 [h, l] = Inr (of_char c)"
proof -
  have "(of_char c :: int) = int (of_char c)" by (rule of_nat_of_char [symmetric])
  then show thesis
    using that hex02_byte [of "of_char c"] py_int_hex02 [of "of_char c"] by simp
qed

lemma slice_0_Cons [simp]: "slice 0 j (x # xs) = (if j = 0 then [] else x # slice 0 (j - 1) xs)"
  by (cases j) (simp_all add: slice_def)

lemma slice_Suc_Cons [simp]: "0 < i \<Longrightarrow> slice i j (x # xs) = slice (i - 1) (j - 1) xs"
  by (cases i; cases j) (simp_all add: slice_def)

lemma slice_empty [simp]: "slice i 0 xs = []" "slice i j [] = []"
  by (simp_all add: slice_def)

lemma eth_str_roundtrip:
  assumes "eth_ok e" "sep = CHR '':'' \<or> sep = CHR ''-''"
  shows "EthAddr_init (EaStr (eth_toStr [sep] e)) = Inr e"
proof -
  obtain a b c d f g where v: "eth_value e = [a, b, c, d, f, g]"
    using assms(1) six_bytes unfolding eth_ok_def by metis
  obtain ah al where a: "hex02 (of_char a) = [ah, al]" "py_int 16 [ah, al] = Inr (of_char a)" by (rule hex_pair)
  obtain bh bl where b: "hex02 (of_char b) = [bh, bl]" "py_int 16 [bh, bl] = Inr (of_char b)" by (rule hex_pair)
  obtain ch cl where c: "hex02 (of_char c) = [ch, cl]" "py_int 16 [ch, cl] = Inr (of_char c)" by (rule hex_pair)
  obtain dh dl where d: "hex02 (of_char d) = [dh, dl]" "py_int 16 [dh, dl] = Inr (of_char d)" by (rule hex_pair)
  obtain fh fl where f: "hex02 (of_char f) = [fh, fl]" "py_int 16 [fh, fl] = Inr (of_char f)" by (rule hex_pair)
  obtain gh gl where g: "hex02 (of_char g) = [gh, gl]" "py_int 16 [gh, gl] = Inr (of_char g)" by (rule hex_pair)
  let ?s = "[ah, al, sep, bh, bl, sep, ch, cl, sep, dh, dl, sep, fh, fl, sep, gh, gl]"
  have s: "eth_toStr [sep] e = ?s" by (simp add: eth_toStr_def v a b c d f g)
  have third: "every_third_from_2 ?s = [sep, sep, sep, sep, sep]"
    by (simp add: every_third_from_2_def upt_rec)
  have "eth_from_hex12 [ah, al, bh, bl, ch, cl, dh, dl, fh, fl, gh, gl] = Inr [a, b, c, d, f, g]"
    by (simp add: eth_from_hex12_def a b c d f g py_chr_def of_char_range not_less)
  then have "eth_from_str ?s = Inr [a, b, c, d, f, g]"
    using assms(2) third by (auto simp: eth_from_str_def)
  then show ?thesis by (cases e) (use v s in simp)
qed

lemma mapE_ValueError:
  "\<forall>x \<in> set xs. f x = Inl ValueError \<or> (\<exists>y. f x = Inr y) \<Longrightarrow> \<exists>x \<in> set xs. f x = Inl ValueError \<Longrightarrow>
   mapE f xs = Inl ValueError"
proof (induction xs)
  case (Cons x xs)
  show ?case
  proof (cases "f x")
    case (Inl err)
    then show ?thesis using Cons.prems by auto
  next
    case (Inr y)
    then show ?thesis using Cons by auto
  qed
qed simp

lemma length_split_on_concat: "length (concat (split_on c s)) + count_list s c = length s"
  by (induction s) (auto split: list.splits)

lemma length_concat_nonempty: "\<forall>x \<in> set xs. x \<noteq> [] \<Longrightarrow> length xs \<le> length (concat xs)"
proof (induction xs)
  case (Cons x xs)
  then have "1 \<le> length x" by (cases x) auto
  with Cons show ?case by simp
qed simp

text \<open>Six raw bytes of which five are the colon's are taken for text, and rejected.\<close>

lemma EthAddr_init_five_colons:
  assumes "length s = 6" "count_list s (CHR '':'') = 5"
  shows "EthAddr_init (EaStr s) = Inl ValueError"
proof -
  let ?f = "\<lambda>x. bindE (py_int 16 x) (\<lambda>n. Inr (hex02 n))" and ?p = "split_on (CHR '':'') s"
  have "length (concat ?p) = 1" "length ?p = 6"
    using length_split_on_concat [of "CHR '':''" s] count_list_split_on [of "CHR '':''" s] assms by auto
  then have "\<exists>x \<in> set ?p. x = []"
    using length_concat_nonempty [of ?p] by fastforce
  moreover have "?f [] = Inl ValueError" by (simp add: py_int_def strip_def parse_nat_def)
  moreover have "\<forall>x. ?f x = Inl ValueError \<or> (\<exists>y. ?f x = Inr y)"
    by (auto simp: py_int_def Let_def split: option.splits)
  ultimately have "mapE ?f ?p = Inl ValueError" by (intro mapE_ValueError) auto
  then show ?thesis using assms by (simp add: eth_from_str_def)
qed

end
