(* ===== verification/OF_Base.thy ===== *)
theory OF_Base
  imports Addresses
begin

text \<open>
  The shared part of \<^verbatim>\<open>pox/openflow/libopenflow_01.py\<close>: the protocol constants with the tables
  \<^verbatim>\<open>_init\<close> derives from them, the transaction id generators, \<^verbatim>\<open>ofp_header\<close> (the base class of every
  message, here a record that the messages extend), and the two interfaces the wire structures
  implement: \<^theory_text>\<open>wire_struct\<close> for structures of fixed size and \<^theory_text>\<open>wire_message\<close> for messages.
\<close>

subsection \<open>Constants\<close>

type_synonym rev_map = "(string \<times> int) list"

definition ofp_port_config_rev_map :: rev_map where
  "ofp_port_config_rev_map =
     [(''OFPPC_PORT_DOWN'', 1), (''OFPPC_NO_STP'', 2), (''OFPPC_NO_RECV'', 4),
      (''OFPPC_NO_RECV_STP'', 8), (''OFPPC_NO_FLOOD'', 16), (''OFPPC_NO_FWD'', 32),
      (''OFPPC_NO_PACKET_IN'', 64)]"

definition ofp_port_state_rev_map :: rev_map where
  "ofp_port_state_rev_map =
     [(''OFPPS_STP_LISTEN'', 0), (''OFPPS_LINK_DOWN'', 1), (''OFPPS_STP_LEARN'', 256),
      (''OFPPS_STP_FORWARD'', 512), (''OFPPS_STP_BLOCK'', 768)]"

definition ofp_port_features_rev_map :: rev_map where
  "ofp_port_features_rev_map =
     [(''OFPPF_10MB_HD'', 1), (''OFPPF_10MB_FD'', 2), (''OFPPF_100MB_HD'', 4),
      (''OFPPF_100MB_FD'', 8), (''OFPPF_1GB_HD'', 16), (''OFPPF_1GB_FD'', 32),
      (''OFPPF_10GB_FD'', 64), (''OFPPF_COPPER'', 128), (''OFPPF_FIBER'', 256),
      (''OFPPF_AUTONEG'', 512), (''OFPPF_PAUSE'', 1024), (''OFPPF_PAUSE_ASYM'', 2048)]"

definition ofp_queue_properties_rev_map :: rev_map where
  "ofp_queue_properties_rev_map = [(''OFPQT_MIN_RATE'', 0)]"

definition ofp_flow_wildcards_rev_map :: rev_map where
  "ofp_flow_wildcards_rev_map =
     [(''OFPFW_IN_PORT'', 1), (''OFPFW_DL_VLAN'', 2), (''OFPFW_DL_SRC'', 4), (''OFPFW_DL_DST'', 8),
      (''OFPFW_DL_TYPE'', 16), (''OFPFW_NW_PROTO'', 32), (''OFPFW_TP_SRC'', 64),
      (''OFPFW_TP_DST'', 128), (''OFPFW_DL_VLAN_PCP'', 1048576), (''OFPFW_NW_TOS'', push_bit 21 1)]"

definition ofp_action_type_rev_map :: rev_map where
  "ofp_action_type_rev_map =
     [(''OFPAT_OUTPUT'', 0), (''OFPAT_SET_VLAN_VID'', 1), (''OFPAT_SET_VLAN_PCP'', 2),
      (''OFPAT_STRIP_VLAN'', 3), (''OFPAT_SET_DL_SRC'', 4), (''OFPAT_SET_DL_DST'', 5),
      (''OFPAT_SET_NW_SRC'', 6), (''OFPAT_SET_NW_DST'', 7), (''OFPAT_SET_NW_TOS'', 8),
      (''OFPAT_SET_TP_SRC'', 9), (''OFPAT_SET_TP_DST'', 10), (''OFPAT_ENQUEUE'', 11),
      (''OFPAT_SET_MPLS_LABEL'', 13), (''OFPAT_SET_MPLS_TC'', 14), (''OFPAT_SET_MPLS_TTL'', 15),
      (''OFPAT_DEC_MPLS_TTL'', 16), (''OFPAT_PUSH_MPLS'', 19), (''OFPAT_POP_MPLS'', 20),
      (''OFPAT_RESUBMIT'', 21), (''OFPAT_VENDOR'', 65535)]"

definition ofp_capabilities_rev_map :: rev_map where
  "ofp_capabilities_rev_map =
     [(''OFPC_FLOW_STATS'', 1), (''OFPC_TABLE_STATS'', 2), (''OFPC_PORT_STATS'', 4),
      (''OFPC_STP'', 8), (''OFPC_RESERVED'', 16), (''OFPC_IP_REASM'', 32),
      (''OFPC_QUEUE_STATS'', 64), (''OFPC_ARP_MATCH_IP'', 128)]"

definition ofp_config_flags_rev_map :: rev_map where
  "ofp_config_flags_rev_map =
     [(''OFPC_FRAG_NORMAL'', 0), (''OFPC_FRAG_DROP'', 1), (''OFPC_FRAG_REASM'', 2),
      (''OFPC_FRAG_MASK'', 3)]"

definition ofp_flow_mod_command_rev_map :: rev_map where
  "ofp_flow_mod_command_rev_map =
     [(''OFPFC_ADD'', 0), (''OFPFC_MODIFY'', 1), (''OFPFC_MODIFY_STRICT'', 2),
      (''OFPFC_DELETE'', 3), (''OFPFC_DELETE_STRICT'', 4)]"

definition ofp_flow_mod_flags_rev_map :: rev_map where
  "ofp_flow_mod_flags_rev_map =
     [(''OFPFF_SEND_FLOW_REM'', 1), (''OFPFF_CHECK_OVERLAP'', 2), (''OFPFF_EMERG'', 4)]"

definition ofp_stats_types_rev_map :: rev_map where
  "ofp_stats_types_rev_map =
     [(''OFPST_DESC'', 0), (''OFPST_FLOW'', 1), (''OFPST_AGGREGATE'', 2), (''OFPST_TABLE'', 3),
      (''OFPST_PORT'', 4), (''OFPST_QUEUE'', 5), (''OFPST_VENDOR'', 65535)]"

definition ofp_stats_reply_flags_rev_map :: rev_map where
  "ofp_stats_reply_flags_rev_map = [(''OFPSF_REPLY_MORE'', 1)]"

definition ofp_packet_in_reason_rev_map :: rev_map where
  "ofp_packet_in_reason_rev_map = [(''OFPR_NO_MATCH'', 0), (''OFPR_ACTION'', 1)]"

definition ofp_flow_removed_reason_rev_map :: rev_map where
  "ofp_flow_removed_reason_rev_map =
     [(''OFPRR_IDLE_TIMEOUT'', 0), (''OFPRR_HARD_TIMEOUT'', 1), (''OFPRR_DELETE'', 2)]"

definition ofp_port_reason_rev_map :: rev_map where
  "ofp_port_reason_rev_map = [(''OFPPR_ADD'', 0), (''OFPPR_DELETE'', 1), (''OFPPR_MODIFY'', 2)]"

definition ofp_error_type_rev_map :: rev_map where
  "ofp_error_type_rev_map =
     [(''OFPET_HELLO_FAILED'', 0), (''OFPET_BAD_REQUEST'', 1), (''OFPET_BAD_ACTION'', 2),
      (''OFPET_FLOW_MOD_FAILED'', 3), (''OFPET_PORT_MOD_FAILED'', 4), (''OFPET_QUEUE_OP_FAILED'', 5)]"

definition ofp_hello_failed_code_rev_map :: rev_map where
  "ofp_hello_failed_code_rev_map = [(''OFPHFC_INCOMPATIBLE'', 0), (''OFPHFC_EPERM'', 1)]"

definition ofp_bad_request_code_rev_map :: rev_map where
  "ofp_bad_request_code_rev_map =
     [(''OFPBRC_BAD_VERSION'', 0), (''OFPBRC_BAD_TYPE'', 1), (''OFPBRC_BAD_STAT'', 2),
      (''OFPBRC_BAD_VENDOR'', 3), (''OFPBRC_BAD_SUBTYPE'', 4), (''OFPBRC_EPERM'', 5),
      (''OFPBRC_BAD_LEN'', 6), (''OFPBRC_BUFFER_EMPTY'', 7), (''OFPBRC_BUFFER_UNKNOWN'', 8)]"

definition ofp_bad_action_code_rev_map :: rev_map where
  "ofp_bad_action_code_rev_map =
     [(''OFPBAC_BAD_TYPE'', 0), (''OFPBAC_BAD_LEN'', 1), (''OFPBAC_BAD_VENDOR'', 2),
      (''OFPBAC_BAD_VENDOR_TYPE'', 3), (''OFPBAC_BAD_OUT_PORT'', 4), (''OFPBAC_BAD_ARGUMENT'', 5),
      (''OFPBAC_EPERM'', 6), (''OFPBAC_TOO_MANY'', 7), (''OFPBAC_BAD_QUEUE'', 8)]"

definition ofp_flow_mod_failed_code_rev_map :: rev_map where
  "ofp_flow_mod_failed_code_rev_map =
     [(''OFPFMFC_ALL_TABLES_FULL'', 0), (''OFPFMFC_OVERLAP'', 1), (''OFPFMFC_EPERM'', 2),
      (''OFPFMFC_BAD_EMERG_TIMEOUT'', 3), (''OFPFMFC_BAD_COMMAND'', 4), (''OFPFMFC_UNSUPPORTED'', 5)]"

definition ofp_port_mod_failed_code_rev_map :: rev_map where
  "ofp_port_mod_failed_code_rev_map = [(''OFPPMFC_BAD_PORT'', 0), (''OFPPMFC_BAD_HW_ADDR'', 1)]"

definition ofp_queue_op_failed_code_rev_map :: rev_map where
  "ofp_queue_op_failed_code_rev_map =
     [(''OFPQOFC_BAD_PORT'', 0), (''OFPQOFC_BAD_QUEUE'', 1), (''OFPQOFC_EPERM'', 2)]"

definition ofp_port_rev_map :: rev_map where
  "ofp_port_rev_map =
     [(''OFPP_MAX'', 65280), (''OFPP_IN_PORT'', 65528), (''OFPP_TABLE'', 65529),
      (''OFPP_NORMAL'', 65530), (''OFPP_FLOOD'', 65531), (''OFPP_ALL'', 65532),
      (''OFPP_CONTROLLER'', 65533), (''OFPP_LOCAL'', 65534), (''OFPP_NONE'', 65535)]"

definition ofp_type_rev_map :: rev_map where
  "ofp_type_rev_map =
     [(''OFPT_HELLO'', 0), (''OFPT_ERROR'', 1), (''OFPT_ECHO_REQUEST'', 2), (''OFPT_ECHO_REPLY'', 3),
      (''OFPT_VENDOR'', 4), (''OFPT_FEATURES_REQUEST'', 5), (''OFPT_FEATURES_REPLY'', 6),
      (''OFPT_GET_CONFIG_REQUEST'', 7), (''OFPT_GET_CONFIG_REPLY'', 8), (''OFPT_SET_CONFIG'', 9),
      (''OFPT_PACKET_IN'', 10), (''OFPT_FLOW_REMOVED'', 11), (''OFPT_PORT_STATUS'', 12),
      (''OFPT_PACKET_OUT'', 13), (''OFPT_FLOW_MOD'', 14), (''OFPT_PORT_MOD'', 15),
      (''OFPT_STATS_REQUEST'', 16), (''OFPT_STATS_REPLY'', 17), (''OFPT_BARRIER_REQUEST'', 18),
      (''OFPT_BARRIER_REPLY'', 19), (''OFPT_QUEUE_GET_CONFIG_REQUEST'', 20),
      (''OFPT_QUEUE_GET_CONFIG_REPLY'', 21)]"

text \<open>
  \<^verbatim>\<open>_init\<close> inverts every table into a \<^verbatim>\<open>_map\<close>, but only when no two names share a value, and
  makes a list of the values when they are \<open>0..n-1\<close>, leaving out a special last value.
\<close>

definition init_forward :: "rev_map \<Rightarrow> (int \<times> string) list option" where
  "init_forward m = (if distinct (map snd m) then Some (map (\<lambda>(k, v). (v, k)) m) else None)"

definition init_values :: "rev_map \<Rightarrow> int list option" where
  "init_values m =
     (let v = sort (map snd m);
          w = (if last v \<noteq> int (length v) - 1 then butlast v else v)
      in if w \<noteq> [] \<and> hd w = 0 \<and> last w = int (length w) - 1 then Some w else None)"

definition ofp_type_map :: "int \<Rightarrow> string option" where
  "ofp_type_map = map_of (the (init_forward ofp_type_rev_map))"

definition init_global :: "rev_map \<Rightarrow> string \<Rightarrow> int" where
  "init_global m k = the (map_of m k)"

text \<open>The globals \<^verbatim>\<open>_init\<close> creates from the tables, and the macro values.\<close>

abbreviation (input) OFPAT_OUTPUT :: int where "OFPAT_OUTPUT \<equiv> 0"
abbreviation (input) OFPAT_SET_VLAN_VID :: int where "OFPAT_SET_VLAN_VID \<equiv> 1"
abbreviation (input) OFPAT_SET_VLAN_PCP :: int where "OFPAT_SET_VLAN_PCP \<equiv> 2"
abbreviation (input) OFPAT_STRIP_VLAN :: int where "OFPAT_STRIP_VLAN \<equiv> 3"
abbreviation (input) OFPAT_SET_DL_SRC :: int where "OFPAT_SET_DL_SRC \<equiv> 4"
abbreviation (input) OFPAT_SET_DL_DST :: int where "OFPAT_SET_DL_DST \<equiv> 5"
abbreviation (input) OFPAT_SET_NW_SRC :: int where "OFPAT_SET_NW_SRC \<equiv> 6"
abbreviation (input) OFPAT_SET_NW_DST :: int where "OFPAT_SET_NW_DST \<equiv> 7"
abbreviation (input) OFPAT_SET_NW_TOS :: int where "OFPAT_SET_NW_TOS \<equiv> 8"
abbreviation (input) OFPAT_SET_TP_SRC :: int where "OFPAT_SET_TP_SRC \<equiv> 9"
abbreviation (input) OFPAT_SET_TP_DST :: int where "OFPAT_SET_TP_DST \<equiv> 10"
abbreviation (input) OFPAT_ENQUEUE :: int where "OFPAT_ENQUEUE \<equiv> 11"
abbreviation (input) OFPAT_SET_MPLS_LABEL :: int where "OFPAT_SET_MPLS_LABEL \<equiv> 13"
abbreviation (input) OFPAT_SET_MPLS_TC :: int where "OFPAT_SET_MPLS_TC \<equiv> 14"
abbreviation (input) OFPAT_SET_MPLS_TTL :: int where "OFPAT_SET_MPLS_TTL \<equiv> 15"
abbreviation (input) OFPAT_DEC_MPLS_TTL :: int where "OFPAT_DEC_MPLS_TTL \<equiv> 16"
abbreviation (input) OFPAT_PUSH_MPLS :: int where "OFPAT_PUSH_MPLS \<equiv> 19"
abbreviation (input) OFPAT_POP_MPLS :: int where "OFPAT_POP_MPLS \<equiv> 20"
abbreviation (input) OFPAT_RESUBMIT :: int where "OFPAT_RESUBMIT \<equiv> 21"
abbreviation (input) OFPAT_VENDOR :: int where "OFPAT_VENDOR \<equiv> 65535"
abbreviation (input) OFPT_HELLO :: int where "OFPT_HELLO \<equiv> 0"
abbreviation (input) OFPT_ERROR :: int where "OFPT_ERROR \<equiv> 1"
abbreviation (input) OFPT_ECHO_REQUEST :: int where "OFPT_ECHO_REQUEST \<equiv> 2"
abbreviation (input) OFPT_ECHO_REPLY :: int where "OFPT_ECHO_REPLY \<equiv> 3"
abbreviation (input) OFPT_VENDOR :: int where "OFPT_VENDOR \<equiv> 4"
abbreviation (input) OFPT_FEATURES_REQUEST :: int where "OFPT_FEATURES_REQUEST \<equiv> 5"
abbreviation (input) OFPT_FEATURES_REPLY :: int where "OFPT_FEATURES_REPLY \<equiv> 6"
abbreviation (input) OFPT_GET_CONFIG_REQUEST :: int where "OFPT_GET_CONFIG_REQUEST \<equiv> 7"
abbreviation (input) OFPT_GET_CONFIG_REPLY :: int where "OFPT_GET_CONFIG_REPLY \<equiv> 8"
abbreviation (input) OFPT_SET_CONFIG :: int where "OFPT_SET_CONFIG \<equiv> 9"
abbreviation (input) OFPT_PACKET_IN :: int where "OFPT_PACKET_IN \<equiv> 10"
abbreviation (input) OFPT_FLOW_REMOVED :: int where "OFPT_FLOW_REMOVED \<equiv> 11"
abbreviation (input) OFPT_PORT_STATUS :: int where "OFPT_PORT_STATUS \<equiv> 12"
abbreviation (input) OFPT_PACKET_OUT :: int where "OFPT_PACKET_OUT \<equiv> 13"
abbreviation (input) OFPT_FLOW_MOD :: int where "OFPT_FLOW_MOD \<equiv> 14"
abbreviation (input) OFPT_PORT_MOD :: int where "OFPT_PORT_MOD \<equiv> 15"
abbreviation (input) OFPT_STATS_REQUEST :: int where "OFPT_STATS_REQUEST \<equiv> 16"
abbreviation (input) OFPT_STATS_REPLY :: int where "OFPT_STATS_REPLY \<equiv> 17"
abbreviation (input) OFPT_BARRIER_REQUEST :: int where "OFPT_BARRIER_REQUEST \<equiv> 18"
abbreviation (input) OFPT_BARRIER_REPLY :: int where "OFPT_BARRIER_REPLY \<equiv> 19"
abbreviation (input) OFPT_QUEUE_GET_CONFIG_REQUEST :: int where "OFPT_QUEUE_GET_CONFIG_REQUEST \<equiv> 20"
abbreviation (input) OFPT_QUEUE_GET_CONFIG_REPLY :: int where "OFPT_QUEUE_GET_CONFIG_REPLY \<equiv> 21"
abbreviation (input) OFPP_MAX :: int where "OFPP_MAX \<equiv> 65280"
abbreviation (input) OFPP_IN_PORT :: int where "OFPP_IN_PORT \<equiv> 65528"
abbreviation (input) OFPP_FLOOD :: int where "OFPP_FLOOD \<equiv> 65531"
abbreviation (input) OFPP_ALL :: int where "OFPP_ALL \<equiv> 65532"
abbreviation (input) OFPP_CONTROLLER :: int where "OFPP_CONTROLLER \<equiv> 65533"
abbreviation (input) OFPP_NONE :: int where "OFPP_NONE \<equiv> 65535"
abbreviation (input) OFPFC_ADD :: int where "OFPFC_ADD \<equiv> 0"
abbreviation (input) OFPFC_MODIFY :: int where "OFPFC_MODIFY \<equiv> 1"
abbreviation (input) OFPFC_MODIFY_STRICT :: int where "OFPFC_MODIFY_STRICT \<equiv> 2"
abbreviation (input) OFPFC_DELETE :: int where "OFPFC_DELETE \<equiv> 3"
abbreviation (input) OFPFC_DELETE_STRICT :: int where "OFPFC_DELETE_STRICT \<equiv> 4"
abbreviation (input) OFPFF_CHECK_OVERLAP :: int where "OFPFF_CHECK_OVERLAP \<equiv> 2"
abbreviation (input) OFPST_DESC :: int where "OFPST_DESC \<equiv> 0"
abbreviation (input) OFPST_FLOW :: int where "OFPST_FLOW \<equiv> 1"
abbreviation (input) OFPST_AGGREGATE :: int where "OFPST_AGGREGATE \<equiv> 2"
abbreviation (input) OFPST_TABLE :: int where "OFPST_TABLE \<equiv> 3"
abbreviation (input) OFPST_PORT :: int where "OFPST_PORT \<equiv> 4"
abbreviation (input) OFPST_QUEUE :: int where "OFPST_QUEUE \<equiv> 5"
abbreviation (input) OFP_VERSION :: int where "OFP_VERSION \<equiv> 1"
abbreviation (input) OFP_DEFAULT_MISS_SEND_LEN :: int where "OFP_DEFAULT_MISS_SEND_LEN \<equiv> 128"
abbreviation (input) OFP_DEFAULT_PRIORITY :: int where "OFP_DEFAULT_PRIORITY \<equiv> 0x8000"
abbreviation (input) OFP_VLAN_NONE :: int where "OFP_VLAN_NONE \<equiv> 0xffff"
abbreviation (input) OFP_PHY_PORT_BYTES :: int where "OFP_PHY_PORT_BYTES \<equiv> 48"
abbreviation (input) TABLE_ALL :: int where "TABLE_ALL \<equiv> 0xff"

subsection \<open>Transaction ids\<close>

definition MAX_XID :: int where "MAX_XID = 0x7fFFffFF"

text \<open>The global counter \<^verbatim>\<open>_nextXID\<close> is passed in and out; it moves by two.\<close>

definition generateXID :: "int \<Rightarrow> int \<times> int" where
  "generateXID nextXID =
     (let r = nextXID; nextXID = nextXID + 1; nextXID = (nextXID + 1) mod (MAX_XID + 1)
      in (r, nextXID))"

text \<open>The generator object is its next value.\<close>

definition xid_generator :: "int \<Rightarrow> int" where
  "xid_generator start = start mod (MAX_XID + 1)"

definition xid_generator_next :: "int \<Rightarrow> int \<times> int" where
  "xid_generator_next n = (n, (n + 1) mod (MAX_XID + 1))"

text \<open>The first \<open>k\<close> values of a stream.\<close>

fun draw :: "(int \<Rightarrow> int \<times> int) \<Rightarrow> nat \<Rightarrow> int \<Rightarrow> int list" where
  "draw next 0 s = []"
| "draw next (Suc k) s = (case next s of (r, s') \<Rightarrow> r # draw next k s')"

subsection \<open>Building blocks of pack and unpack\<close>

definition PAD :: "nat \<Rightarrow> bytes" where
  "PAD n = replicate n NUL"

lemma length_PAD [simp]: "length (PAD n) = n"
  by (simp add: PAD_def)

definition packed :: "bytes result list \<Rightarrow> bytes option result" where
  "packed ps = bindE (concatE ps) (\<lambda>b. Inr (Some b))"

lemma packed_Inr_iff [codec]: "packed ps = Inr (Some b) \<longleftrightarrow> concatE ps = Inr b"
  by (simp add: packed_def bindE_Inr_iff)

text \<open>An attribute that may still be \<^verbatim>\<open>None\<close> cannot be packed.\<close>

definition int_arg :: "int option \<Rightarrow> int result" where
  "int_arg v = (case v of None \<Rightarrow> Inl StructError | Some n \<Rightarrow> Inr n)"

lemma int_arg_Inr_iff [codec]: "int_arg v = Inr n \<longleftrightarrow> v = Some n"
  by (auto simp: int_arg_def split: option.splits)

text \<open>A hardware address attribute holds raw bytes or an \<^verbatim>\<open>EthAddr\<close>.\<close>

datatype hw = HwBytes bytes | HwEth EthAddr

fun hw_raw :: "hw \<Rightarrow> bytes" where
  "hw_raw (HwBytes b) = b"
| "hw_raw (HwEth e) = eth_toRaw e"

text \<open>\<^verbatim>\<open>len(hw_addr)\<close>: an \<^verbatim>\<open>EthAddr\<close> always says 6.\<close>

fun hw_len :: "hw \<Rightarrow> nat" where
  "hw_len (HwBytes b) = length b"
| "hw_len (HwEth e) = EthAddr_len e"

text \<open>
  \<^verbatim>\<open>==\<close> on attribute values: \<^verbatim>\<open>EthAddr.__cmp__\<close> turns a \<^verbatim>\<open>None\<close> on the other side into the zero
  address, so the zero address equals \<^verbatim>\<open>None\<close>.
\<close>

fun hw_cmp_eq :: "hw option \<Rightarrow> hw option \<Rightarrow> bool" where
  "hw_cmp_eq None None = True"
| "hw_cmp_eq None (Some (HwEth e)) = (eth_value e = replicate 6 NUL)"
| "hw_cmp_eq (Some (HwEth e)) None = (eth_value e = replicate 6 NUL)"
| "hw_cmp_eq None (Some (HwBytes b)) = False"
| "hw_cmp_eq (Some (HwBytes b)) None = False"
| "hw_cmp_eq (Some a) (Some b) = (hw_raw a = hw_raw b)"

text \<open>The form a hardware address has after parsing, which the round trips can recover.\<close>

definition hw_wire :: "hw \<Rightarrow> bool" where
  "hw_wire h \<longleftrightarrow> (\<exists>e. h = HwEth e \<and> eth_ok e)"

text \<open>Such an address also survives the \<^verbatim>\<open>EthAddr(bytes)\<close> constructor when it has not five colons.\<close>

definition hw_text_safe :: "hw \<Rightarrow> bool" where
  "hw_text_safe h \<longleftrightarrow> hw_wire h \<and> count_list (hw_raw h) (CHR '':'') \<noteq> 5"

lemma hw_wire_length [simp]: "hw_wire h \<Longrightarrow> length (hw_raw h) = 6"
  by (auto simp: hw_wire_def eth_ok_def eth_toRaw_def)

lemma EthAddr_init_hw_raw [codec]:
  "hw_text_safe h \<Longrightarrow> EthAddr_init (EaStr (hw_raw h)) = Inr (case h of HwEth e \<Rightarrow> e)"
  by (auto simp: hw_text_safe_def hw_wire_def eth_toRaw_def eth_ok_def EthAddr_init_raw
      simp del: EthAddr_init.simps)

lemma HwEth_case [codec]: "hw_wire h \<Longrightarrow> HwEth (case h of HwEth e \<Rightarrow> e) = h"
  by (auto simp: hw_wire_def)

lemma hw_text_safe_wire [simp]: "hw_text_safe h \<Longrightarrow> hw_wire h"
  by (simp add: hw_text_safe_def)

lemma struct_fields_B [simp]: "struct_fields (replicate n (CHR ''B'')) s = map (\<lambda>i. of_char (s ! i)) [0..<n]"
  if "length s = n"
  using that
proof (induction n arbitrary: s)
  case (Suc n)
  then obtain c cs where s: "s = c # cs" "length cs = n" by (cases s) auto
  have "map (\<lambda>i. (of_char ((c # cs) ! i) :: int)) [0..<Suc n] = of_char c # map (\<lambda>i. of_char (cs ! i)) [0..<n]"
    by (simp add: upt_conv_Cons map_Suc_upt [symmetric] del: upt_Suc)
  moreover have "code_decode (CHR ''B'') [c] = of_char c"
    using of_char_range [of c] by (simp add: code_decode_def be_value_def code_max_def code_signed_def)
  ultimately show ?case using s Suc.IH [of cs] by (simp add: struct_fields.simps del: upt_Suc)
qed (simp add: struct_fields.simps)

subsection \<open>ofp\_header\<close>

record ofp_header =
  version :: int
  header_type :: int
  hlength :: int
  xid :: "int option"

definition ofp_header_init :: "(ofp_header \<Rightarrow> ofp_header) \<Rightarrow> ofp_header" where
  "ofp_header_init kw = kw \<lparr>version = OFP_VERSION, header_type = 0, hlength = 8, xid = None\<rparr>"

definition ofp_header_assert :: "'a ofp_header_scheme \<Rightarrow> bool \<times> string option" where
  "ofp_header_assert self =
     (if ofp_type_map (header_type self) = None
      then (False, Some ''type is not a known message type'') else (True, None))"

text \<open>Packing fills in a missing xid from the global counter; the changed object is a result.\<close>

definition ofp_header_pack ::
    "bool \<Rightarrow> 'a ofp_header_scheme \<Rightarrow> int \<Rightarrow> (bytes \<times> 'a ofp_header_scheme \<times> int) result" where
  "ofp_header_pack assertstruct self nextXID =
     (let (x, nextXID) = (case xid self of None \<Rightarrow> generateXID nextXID | Some x \<Rightarrow> (x, nextXID));
          self = self\<lparr>xid := Some x\<rparr>
      in if assertstruct \<and> \<not> fst (ofp_header_assert self) then Inl RuntimeError
         else bindE (struct_pack ''!BBHL'' [version self, header_type self, hlength self, x])
                (\<lambda>b. Inr (b, self, nextXID)))"

definition ofp_header_unpack ::
    "'a ofp_header_scheme \<Rightarrow> bytes \<Rightarrow> ('a ofp_header_scheme \<times> bytes) result" where
  "ofp_header_unpack self b =
     (if length b < 8 then Inr (self, b)
      else bindE (struct_unpack_from ''!BBHL'' b 0) (\<lambda>v.
        Inr (self\<lparr>version := v ! 0, header_type := v ! 1, hlength := v ! 2, xid := Some (v ! 3)\<rparr>,
             drop 8 b)))"

definition ofp_header_len :: "'a ofp_header_scheme \<Rightarrow> int" where
  "ofp_header_len self = hlength self"

definition ofp_header_eq :: "'a ofp_header_scheme \<Rightarrow> 'a ofp_header_scheme \<Rightarrow> bool" where
  "ofp_header_eq self other \<longleftrightarrow>
     version self = version other \<and> header_type self = header_type other \<and>
     hlength self = hlength other \<and> xid self = xid other"

text \<open>
  The shape of every \<^verbatim>\<open>pack\<close> of a message: the header first, then the parts, computed on the
  object as the header left it.
\<close>

definition msg_packed ::
    "(bytes \<times> 'a \<times> int) result \<Rightarrow> ('a \<Rightarrow> bytes result list) \<Rightarrow> (bytes option \<times> 'a \<times> int) result" where
  "msg_packed hdr parts =
     bindE hdr (\<lambda>(h, self, nextXID).
       bindE (concatE (Inr h # parts self)) (\<lambda>b. Inr (Some b, self, nextXID)))"

lemma msg_packed_Inr [codec]:
  "msg_packed hdr parts = Inr (ob, m, n) \<longleftrightarrow>
     (\<exists>h b. hdr = Inr (h, m, n) \<and> concatE (parts m) = Inr b \<and> ob = Some (h @ b))"
  by (auto simp: msg_packed_def codec)

text \<open>What a packed header says, and how it is read back from a longer buffer.\<close>

lemma ofp_header_pack_Inr:
  assumes "ofp_header_pack as m nx = Inr (h, m', nx')"
  obtains x where "m' = m\<lparr>xid := Some x\<rparr>"
    "struct_pack ''!BBHL'' [version m', header_type m', hlength m', x] = Inr h"
    "xid m' = Some x"
  using assms by (auto simp: ofp_header_pack_def Let_def split: if_splits prod.splits)

lemma ofp_header_pack_length [simp]:
  "ofp_header_pack as m nx = Inr (h, m', nx') \<Longrightarrow> length h = 8"
  by (auto elim!: ofp_header_pack_Inr dest: struct_pack_length)

lemma ofp_header_unpack_pack [codec]:
  assumes "ofp_header_pack as m nx = Inr (h, m', nx')"
  shows "ofp_header_unpack self (h @ r) =
    Inr (self\<lparr>version := version m', header_type := header_type m', hlength := hlength m', xid := xid m'\<rparr>, r)"
proof -
  obtain x where x: "m' = m\<lparr>xid := Some x\<rparr>" "xid m' = Some x"
    "struct_pack ''!BBHL'' [version m', header_type m', hlength m', x] = Inr h"
    using assms by (rule ofp_header_pack_Inr)
  have "length h = 8" using x(3) by (auto dest: struct_pack_length)
  with x(3) show ?thesis using x(2) by (simp add: ofp_header_unpack_def codec)
qed

lemma ofp_header_unpack_struct [codec]:
  "struct_pack ''!BBHL'' [v, t, l, x] = Inr h \<Longrightarrow>
   ofp_header_unpack self (h @ r) =
     Inr (self\<lparr>version := v, header_type := t, hlength := l, xid := Some x\<rparr>, r)"
  by (simp add: ofp_header_unpack_def codec struct_pack_length)

subsection \<open>The interfaces\<close>

text \<open>
  A structure of fixed size: packing gives exactly \<open>sz\<close> bytes, and unpacking them, whatever
  follows and whatever the object held before, gives the packed object and the rest.
\<close>

locale wire_struct =
  fixes pack :: "bool \<Rightarrow> 'a \<Rightarrow> bytes option result"
    and unpack :: "'a \<Rightarrow> bytes \<Rightarrow> ('a \<times> bytes) result"
    and wf :: "'a \<Rightarrow> bool"
    and sz :: nat
  assumes pack_size: "wf m \<Longrightarrow> pack as m = Inr (Some b) \<Longrightarrow> length b = sz"
    and unpack_pack: "wf m \<Longrightarrow> pack as m = Inr (Some b) \<Longrightarrow> unpack self (b @ r) = Inr (m, r)"
    and unpack_short: "length b < sz \<Longrightarrow> unpack self b = Inr (self, b)"
begin

lemma pack_inj:
  assumes "wf m" "wf n" "pack as m = Inr (Some b)" "pack as n = Inr (Some b)"
  shows "m = n"
  using unpack_pack [OF assms(1,3), of undefined "[]"] unpack_pack [OF assms(2,4), of undefined "[]"]
  by simp

lemma pack_prefix_free:
  assumes "wf m" "wf n" "pack as m = Inr (Some b)" "pack as n = Inr (Some c)" "b @ r = c @ s"
  shows "m = n \<and> r = s"
  using unpack_pack [OF assms(1,3), of undefined r] unpack_pack [OF assms(2,4), of undefined s] assms(5)
  by simp

end

text \<open>
  The loop that reads an array of structures, \<^verbatim>\<open>for i in xrange(0, n): p = cls(); p.unpack(b[off+i*size:])\<close>.
\<close>

fun unpack_array ::
    "'a \<Rightarrow> ('a \<Rightarrow> bytes \<Rightarrow> ('a \<times> bytes) result) \<Rightarrow> nat \<Rightarrow> nat \<Rightarrow> nat \<Rightarrow> bytes \<Rightarrow> 'a list result" where
  "unpack_array blank unpack sz off 0 b = Inr []"
| "unpack_array blank unpack sz off (Suc n) b =
     bindE (unpack blank (drop off b)) (\<lambda>(p, _).
       bindE (unpack_array blank unpack sz (off + sz) n b) (\<lambda>ps. Inr (p # ps)))"

context wire_struct
begin

lemma concat_pack_size:
  "\<forall>m \<in> set ms. wf m \<Longrightarrow> concatE (map (\<lambda>m. needE (pack as m)) ms) = Inr b \<Longrightarrow>
   length b = sz * length ms"
proof (induction ms arbitrary: b)
  case (Cons m ms)
  then show ?case by (auto simp: codec pack_size)
qed simp

lemma unpack_array_pack:
  assumes "\<forall>m \<in> set ms. wf m" "concatE (map (\<lambda>m. needE (pack as m)) ms) = Inr b" "length pre = off"
  shows "unpack_array blank unpack sz off (length ms) (pre @ b @ r) = Inr ms"
  using assms
proof (induction ms arbitrary: b pre off)
  case (Cons m ms)
  then obtain x y where b: "b = x @ y" "pack as m = Inr (Some x)"
    "concatE (map (\<lambda>m. needE (pack as m)) ms) = Inr y"
    by (auto simp: codec)
  have "length (pre @ x) = off + sz" using pack_size [OF _ b(2)] Cons.prems by simp
  then have "unpack_array blank unpack sz (off + sz) (length ms) ((pre @ x) @ y @ r) = Inr ms"
    using Cons b(3) by (intro Cons.IH) auto
  moreover have "unpack blank (x @ y @ r) = Inr (m, y @ r)"
    using Cons.prems b(2) by (simp add: unpack_pack)
  ultimately show ?case using b(1) Cons.prems by simp
qed simp

end

text \<open>
  A message: packing may fill in header fields, so what is read back is the object as packing
  left it. The bytes are as many as the length field says.
\<close>

locale wire_message =
  fixes pack :: "bool \<Rightarrow> 'a ofp_header_scheme \<Rightarrow> int \<Rightarrow> (bytes option \<times> 'a ofp_header_scheme \<times> int) result"
    and unpack :: "'a ofp_header_scheme \<Rightarrow> bytes \<Rightarrow> ('a ofp_header_scheme \<times> bytes) result"
    and wf :: "'a ofp_header_scheme \<Rightarrow> bool"
  assumes pack_length: "wf m \<Longrightarrow> pack as m nx = Inr (Some b, m', nx') \<Longrightarrow> int (length b) = hlength m'"
    and unpack_pack: "wf m \<Longrightarrow> pack as m nx = Inr (Some b, m', nx') \<Longrightarrow> unpack self (b @ r) = Inr (m', r)"
begin

lemma pack_inj:
  assumes "wf m" "wf n" "pack as m nx = Inr (Some b, m', nx')" "pack as n ny = Inr (Some b, n', ny')"
  shows "m' = n'"
  using unpack_pack [OF assms(1,3), of undefined "[]"] unpack_pack [OF assms(2,4), of undefined "[]"]
  by simp

text \<open>Two messages sent back to back are read one after the other.\<close>

lemma unpack_two:
  assumes "wf m" "wf n" "pack as m nx = Inr (Some b, m', nx')" "pack as n ny = Inr (Some c, n', ny')"
  shows "bindE (unpack s (b @ c @ r)) (\<lambda>(x, rest). bindE (unpack t rest) (\<lambda>(y, rest). Inr (x, y, rest)))
         = Inr (m', n', r)"
  using unpack_pack [OF assms(1,3), of s "c @ r"] unpack_pack [OF assms(2,4), of t r] by simp

end

text \<open>The identifiers a stream gives out, in closed form.\<close>

lemma draw_length [simp]: "length (draw f k s) = k"
  by (induction k arbitrary: s) (simp_all split: prod.split)

lemma draw_generateXID: "draw generateXID (Suc k) s = s # draw generateXID k ((s + 2) mod 2 ^ 31)"
  by (simp add: generateXID_def MAX_XID_def Let_def algebra_simps)

lemma draw_xid_generator: "draw xid_generator_next (Suc k) s = s # draw xid_generator_next k ((s + 1) mod 2 ^ 31)"
  by (simp add: xid_generator_next_def MAX_XID_def)

lemma generateXID_nth:
  "0 \<le> s \<Longrightarrow> s < 2 ^ 31 \<Longrightarrow> i < k \<Longrightarrow> draw generateXID k s ! i = (s + 2 * int i) mod 2 ^ 31"
proof (induction k arbitrary: s i)
  case (Suc k)
  show ?case
  proof (cases i)
    case (Suc j)
    have "draw generateXID k ((s + 2) mod 2 ^ 31) ! j = ((s + 2) mod 2 ^ 31 + 2 * int j) mod 2 ^ 31"
      using Suc.IH Suc.prems Suc by simp
    also have "\<dots> = (s + 2 + 2 * int j) mod 2 ^ 31" by (rule mod_add_left_eq)
    finally show ?thesis using Suc by (simp add: draw_generateXID algebra_simps del: draw.simps)
  qed (use Suc.prems in \<open>simp add: draw_generateXID del: draw.simps\<close>)
qed simp

lemma xid_generator_nth:
  "0 \<le> s \<Longrightarrow> s < 2 ^ 31 \<Longrightarrow> i < k \<Longrightarrow> draw xid_generator_next k s ! i = (s + int i) mod 2 ^ 31"
proof (induction k arbitrary: s i)
  case (Suc k)
  show ?case
  proof (cases i)
    case (Suc j)
    have "draw xid_generator_next k ((s + 1) mod 2 ^ 31) ! j = ((s + 1) mod 2 ^ 31 + int j) mod 2 ^ 31"
      using Suc.IH Suc.prems Suc by simp
    also have "\<dots> = (s + 1 + int j) mod 2 ^ 31" by (rule mod_add_left_eq)
    finally show ?thesis using Suc by (simp add: draw_xid_generator algebra_simps del: draw.simps)
  qed (use Suc.prems in \<open>simp add: draw_xid_generator del: draw.simps\<close>)
qed simp

lemma mod_step_inj:
  fixes s :: int
  assumes "(s + d * int i) mod (d * m) = (s + d * int j) mod (d * m)" "int i < m" "int j < m" "0 < d"
  shows "i = j"
proof -
  have "(d * int i) mod (d * m) = (d * int j) mod (d * m)"
    using assms(1) by (metis mod_add_left_eq mod_diff_left_eq add_diff_cancel_left')
  then have "d * (int i mod m) = d * (int j mod m)" by (simp only: mult_mod_right)
  then show ?thesis using assms by simp
qed

lemma generateXID_distinct:
  assumes "0 \<le> s" "s < 2 ^ 31" "k \<le> 2 ^ 30"
  shows "distinct (draw generateXID k s)"
proof (unfold distinct_conv_nth, intro allI impI)
  fix i j assume i: "i < length (draw generateXID k s)" and j: "j < length (draw generateXID k s)" and "i \<noteq> j"
  have "int i < 2 ^ 30" "int j < 2 ^ 30" using i j assms(3) by simp_all
  then show "draw generateXID k s ! i \<noteq> draw generateXID k s ! j"
    using mod_step_inj [of s 2 i "2 ^ 30" j] generateXID_nth [OF assms(1,2)] i j \<open>i \<noteq> j\<close> by auto
qed

lemma xid_generator_distinct:
  assumes "0 \<le> s" "s < 2 ^ 31" "k \<le> 2 ^ 31"
  shows "distinct (draw xid_generator_next k s)"
proof (unfold distinct_conv_nth, intro allI impI)
  fix i j assume i: "i < length (draw xid_generator_next k s)" and j: "j < length (draw xid_generator_next k s)" and "i \<noteq> j"
  have "int i < 2 ^ 31" "int j < 2 ^ 31" using i j assms(3) by simp_all
  then show "draw xid_generator_next k s ! i \<noteq> draw xid_generator_next k s ! j"
    using mod_step_inj [of s 1 i "2 ^ 31" j] xid_generator_nth [OF assms(1,2)] i j \<open>i \<noteq> j\<close> by auto
qed

end
