(* ===== verification/OF_Match.thy ===== *)
theory OF_Match
  imports OF_Base
begin

text \<open>
  \<^verbatim>\<open>class ofp_match\<close> of \<^verbatim>\<open>libopenflow_01.py\<close>: the twelve header fields with their wildcard bits. An
  attribute read (\<^verbatim>\<open>__getattr__\<close>) of a wildcarded field is \<^verbatim>\<open>None\<close>, a write of \<^verbatim>\<open>None\<close>
  (\<^verbatim>\<open>__setattr__\<close>) wildcards the field. The attributes are enumerated by the types
  \<^theory_text>\<open>int_field\<close>, \<^theory_text>\<open>hw_field\<close> and \<^theory_text>\<open>nw_side\<close>, so that the accessors of the source, which take the
  attribute's name, are functions of the field.
\<close>

subsection \<open>State\<close>

record ofp_match =
  m_in_port :: int
  m_dl_src :: hw
  m_dl_dst :: hw
  m_dl_vlan :: int
  m_dl_vlan_pcp :: int
  m_dl_type :: int
  m_nw_tos :: int
  m_nw_proto :: int
  m_nw_src :: ip_arg
  m_nw_dst :: ip_arg
  m_tp_src :: int
  m_tp_dst :: int
  wildcards :: int

datatype int_field =
  F_in_port | F_dl_vlan | F_dl_vlan_pcp | F_dl_type | F_nw_tos | F_nw_proto | F_tp_src | F_tp_dst

datatype hw_field = F_dl_src | F_dl_dst

datatype nw_side = F_nw_src | F_nw_dst

abbreviation (input) OFPFW_ALL :: int where "OFPFW_ALL \<equiv> 0x3fffff"

text \<open>The flag column of \<^verbatim>\<open>ofp_match_data\<close>.\<close>

fun int_flag :: "int_field \<Rightarrow> int" where
  "int_flag F_in_port = 1"
| "int_flag F_dl_vlan = 2"
| "int_flag F_dl_vlan_pcp = 1048576"
| "int_flag F_dl_type = 16"
| "int_flag F_nw_tos = 2097152"
| "int_flag F_nw_proto = 32"
| "int_flag F_tp_src = 64"
| "int_flag F_tp_dst = 128"

fun hw_flag :: "hw_field \<Rightarrow> int" where
  "hw_flag F_dl_src = 4"
| "hw_flag F_dl_dst = 8"

fun nw_shift :: "nw_side \<Rightarrow> nat" where
  "nw_shift F_nw_src = 8"
| "nw_shift F_nw_dst = 14"

fun nw_all :: "nw_side \<Rightarrow> int" where
  "nw_all F_nw_src = 8192"
| "nw_all F_nw_dst = 524288"

fun nw_mask :: "nw_side \<Rightarrow> int" where
  "nw_mask F_nw_src = 16128"
| "nw_mask F_nw_dst = 1032192"

text \<open>The slots \<^verbatim>\<open>_in_port\<close>, \<^verbatim>\<open>_dl_src\<close>, ... behind the attributes.\<close>

fun int_slot :: "int_field \<Rightarrow> ofp_match \<Rightarrow> int" where
  "int_slot F_in_port m = m_in_port m"
| "int_slot F_dl_vlan m = m_dl_vlan m"
| "int_slot F_dl_vlan_pcp m = m_dl_vlan_pcp m"
| "int_slot F_dl_type m = m_dl_type m"
| "int_slot F_nw_tos m = m_nw_tos m"
| "int_slot F_nw_proto m = m_nw_proto m"
| "int_slot F_tp_src m = m_tp_src m"
| "int_slot F_tp_dst m = m_tp_dst m"

fun int_store :: "int_field \<Rightarrow> int \<Rightarrow> ofp_match \<Rightarrow> ofp_match" where
  "int_store F_in_port v m = m\<lparr>m_in_port := v\<rparr>"
| "int_store F_dl_vlan v m = m\<lparr>m_dl_vlan := v\<rparr>"
| "int_store F_dl_vlan_pcp v m = m\<lparr>m_dl_vlan_pcp := v\<rparr>"
| "int_store F_dl_type v m = m\<lparr>m_dl_type := v\<rparr>"
| "int_store F_nw_tos v m = m\<lparr>m_nw_tos := v\<rparr>"
| "int_store F_nw_proto v m = m\<lparr>m_nw_proto := v\<rparr>"
| "int_store F_tp_src v m = m\<lparr>m_tp_src := v\<rparr>"
| "int_store F_tp_dst v m = m\<lparr>m_tp_dst := v\<rparr>"

fun hw_slot :: "hw_field \<Rightarrow> ofp_match \<Rightarrow> hw" where
  "hw_slot F_dl_src m = m_dl_src m"
| "hw_slot F_dl_dst m = m_dl_dst m"

fun hw_store :: "hw_field \<Rightarrow> hw \<Rightarrow> ofp_match \<Rightarrow> ofp_match" where
  "hw_store F_dl_src v m = m\<lparr>m_dl_src := v\<rparr>"
| "hw_store F_dl_dst v m = m\<lparr>m_dl_dst := v\<rparr>"

fun nw_slot :: "nw_side \<Rightarrow> ofp_match \<Rightarrow> ip_arg" where
  "nw_slot F_nw_src m = m_nw_src m"
| "nw_slot F_nw_dst m = m_nw_dst m"

fun nw_store :: "nw_side \<Rightarrow> ip_arg \<Rightarrow> ofp_match \<Rightarrow> ofp_match" where
  "nw_store F_nw_src v m = m\<lparr>m_nw_src := v\<rparr>"
| "nw_store F_nw_dst v m = m\<lparr>m_nw_dst := v\<rparr>"

subsection \<open>Wildcards\<close>

definition normalize_nw :: "nw_side \<Rightarrow> int \<Rightarrow> int" where
  "normalize_nw s w =
     (if drop_bit (nw_shift s) (w AND nw_mask s) > 32
      then (w AND NOT (nw_mask s)) OR push_bit (nw_shift s) 32 else w)"

definition normalize_wildcards :: "int \<Rightarrow> int" where
  "normalize_wildcards w = normalize_nw F_nw_dst (normalize_nw F_nw_src w)"

definition ofp_match_new :: ofp_match where
  "ofp_match_new =
     \<lparr>m_in_port = 0, m_dl_src = HwEth EMPTY_ETH, m_dl_dst = HwEth EMPTY_ETH, m_dl_vlan = 0,
      m_dl_vlan_pcp = 0, m_dl_type = 0, m_nw_tos = 0, m_nw_proto = 0, m_nw_src = IpInt 0,
      m_nw_dst = IpInt 0, m_tp_src = 0, m_tp_dst = 0, wildcards = normalize_wildcards OFPFW_ALL\<rparr>"

subsection \<open>Attribute access\<close>

definition is_wild :: "ofp_match \<Rightarrow> int \<Rightarrow> bool" where
  "is_wild m flag \<longleftrightarrow> wildcards m AND flag = flag"

definition int_get :: "int_field \<Rightarrow> ofp_match \<Rightarrow> int option" where
  "int_get f m = (if is_wild m (int_flag f) then None else Some (int_slot f m))"

definition int_set :: "int_field \<Rightarrow> int option \<Rightarrow> ofp_match \<Rightarrow> ofp_match" where
  "int_set f v m =
     (case v of
        None \<Rightarrow> (int_store f 0 m)\<lparr>wildcards := wildcards m OR int_flag f\<rparr>
      | Some n \<Rightarrow> (int_store f n m)\<lparr>wildcards := wildcards m AND NOT (int_flag f)\<rparr>)"

definition hw_get :: "hw_field \<Rightarrow> ofp_match \<Rightarrow> hw option" where
  "hw_get f m = (if is_wild m (hw_flag f) then None else Some (hw_slot f m))"

definition hw_set :: "hw_field \<Rightarrow> hw option \<Rightarrow> ofp_match \<Rightarrow> ofp_match" where
  "hw_set f v m =
     (case v of
        None \<Rightarrow> (hw_store f (HwEth EMPTY_ETH) m)\<lparr>wildcards := wildcards m OR hw_flag f\<rparr>
      | Some a \<Rightarrow> (hw_store f a m)\<lparr>wildcards := wildcards m AND NOT (hw_flag f)\<rparr>)"

text \<open>\<^verbatim>\<open>get_nw_src\<close>/\<^verbatim>\<open>get_nw_dst\<close>: the address with its prefix length; \<^verbatim>\<open>(None, 0)\<close> when wildcarded.\<close>

definition nw_get :: "nw_side \<Rightarrow> ofp_match \<Rightarrow> ip_arg option \<times> int" where
  "nw_get s m =
     (if wildcards m AND nw_all s = nw_all s then (None, 0)
      else let w = drop_bit (nw_shift s) (wildcards m AND nw_mask s)
           in (Some (nw_slot s m), if w \<le> 32 then 32 - w else 0))"

definition py_int_of :: "ip_arg \<Rightarrow> int result" where
  "py_int_of v = (case v of IpInt n \<Rightarrow> Inr n | IpStr s \<Rightarrow> py_int 10 s | _ \<Rightarrow> Inl TypeError)"

text \<open>
  \<^verbatim>\<open>_make_addr\<close>. Of a tuple only the bit count is taken out: the address the second test of the
  source leaves in \<^verbatim>\<open>ip\<close> is the tuple itself.
\<close>

definition make_addr :: "ip_arg option \<Rightarrow> int option \<Rightarrow> (ip_arg \<times> int) option result" where
  "make_addr x bits =
     (case x of None \<Rightarrow> Inr None
      | Some a \<Rightarrow>
          bindE (case a of IpTuple _ b \<Rightarrow> bindE (py_int_of b) (\<lambda>n. Inr (Some n)) | _ \<Rightarrow> Inr None) (\<lambda>b.
          bindE (case a of
              IpStr s \<Rightarrow>
                (if length s \<noteq> 4 \<and> CHR ''/'' \<in> set s then
                   let p = split_on (CHR ''/'') s
                   in bindE (py_int 10 (p ! 1)) (\<lambda>n. Inr (IpStr (p ! 0), n))
                 else Inr (a, 32))
            | _ \<Rightarrow> Inr (a, case b of None \<Rightarrow> 32 | Some n \<Rightarrow> n)) (\<lambda>(ip, b).
          bindE (case ip of IpStr s \<Rightarrow> bindE (IPAddr_init ip False) (\<lambda>i. Inr (IpObj i)) | _ \<Rightarrow> Inr ip) (\<lambda>ip.
          let b = (case bits of None \<Rightarrow> b | Some n \<Rightarrow> n);
              b = (if b > 32 then 32 else if b < 0 then 0 else b)
          in Inr (Some (ip, b))))))"

text \<open>\<^verbatim>\<open>set_nw_src\<close> and \<^verbatim>\<open>set_nw_dst\<close>; on \<^verbatim>\<open>None\<close> both of them reset \<^verbatim>\<open>_nw_src\<close>.\<close>

definition nw_set :: "nw_side \<Rightarrow> ip_arg option \<Rightarrow> int option \<Rightarrow> ofp_match \<Rightarrow> ofp_match result" where
  "nw_set s x bits m =
     bindE (make_addr x bits) (\<lambda>a.
       case a of
         None \<Rightarrow> Inr (m\<lparr>m_nw_src := IpInt 0, wildcards := (wildcards m AND NOT (nw_mask s)) OR nw_all s\<rparr>)
       | Some (ip, b) \<Rightarrow>
           Inr ((nw_store s ip m)\<lparr>wildcards :=
                  (wildcards m AND NOT (nw_mask s)) OR push_bit (nw_shift s) (32 - b)\<rparr>))"

definition is_wildcarded :: "ofp_match \<Rightarrow> bool" where
  "is_wildcarded m \<longleftrightarrow> wildcards m AND OFPFW_ALL \<noteq> 0"

definition is_exact :: "ofp_match \<Rightarrow> bool" where
  "is_exact m \<longleftrightarrow> \<not> is_wildcarded m"

definition ofp_match_clone :: "ofp_match \<Rightarrow> ofp_match" where
  "ofp_match_clone m =
     ofp_match_new\<lparr>m_in_port := m_in_port m, m_dl_src := m_dl_src m, m_dl_dst := m_dl_dst m,
       m_dl_vlan := m_dl_vlan m, m_dl_vlan_pcp := m_dl_vlan_pcp m, m_dl_type := m_dl_type m,
       m_nw_tos := m_nw_tos m, m_nw_proto := m_nw_proto m, m_nw_src := m_nw_src m,
       m_nw_dst := m_nw_dst m, m_tp_src := m_tp_src m, m_tp_dst := m_tp_dst m,
       wildcards := wildcards m\<rparr>"

text \<open>
  \<^verbatim>\<open>optimize\<close>. For a type that is neither IP nor ARP the code assigns to the undefined name
  \<^verbatim>\<open>eelf\<close>, after both addresses were set.
\<close>

definition ofp_match_optimize :: "ofp_match \<Rightarrow> ofp_match result" where
  "ofp_match_optimize self =
     (let self = (if int_get F_dl_vlan self = Some OFP_VLAN_NONE then int_set F_dl_vlan_pcp (Some 0) self else self);
          zero = (\<lambda>fs m. fold (\<lambda>f m. int_set f (Some 0) m) fs m);
          done = (\<lambda>m. Inr (m\<lparr>wildcards := normalize_wildcards (wildcards m)\<rparr>))
      in case int_get F_dl_type self of
           None \<Rightarrow> done self
         | Some t \<Rightarrow>
             if t \<noteq> 0x0800 then
               (if t \<noteq> 0x0806 then
                  bindE (IPAddr_init (IpInt 0) False) (\<lambda>ip.
                  bindE (nw_set F_nw_src (Some (IpObj ip)) None self) (\<lambda>self.
                  bindE (nw_set F_nw_dst (Some (IpObj ip)) None self) (\<lambda>self. Inl NameError)))
                else done (zero [F_nw_tos, F_tp_src, F_tp_dst] self))
             else if int_get F_nw_proto self \<noteq> Some 6 \<and> int_get F_nw_proto self \<noteq> Some 17 \<and>
                     int_get F_nw_proto self \<noteq> Some 1
             then done (zero [F_tp_src, F_tp_dst] self)
             else done self)"

subsection \<open>Wire format\<close>

abbreviation (input) "TP_FLAGS \<equiv> (64 OR 128 :: int)"
abbreviation (input) "ARP_IGNORED \<equiv> (2097152 OR 64 OR 128 :: int)"
abbreviation (input) "NON_IP_IGNORED \<equiv> (2097152 OR 32 OR 16128 OR 1032192 OR 64 OR 128 :: int)"

definition wire_wildcards :: "ofp_match \<Rightarrow> int \<Rightarrow> int" where
  "wire_wildcards self w =
     (if int_get F_dl_type self = Some 0x0800 then
        (if int_get F_nw_proto self \<notin> {Some 1, Some 6, Some 17} then w AND NOT TP_FLAGS else w)
      else if int_get F_dl_type self = Some 0x0806 then w AND NOT ARP_IGNORED
      else w AND NOT NON_IP_IGNORED)"

text \<open>The converse reads the slots, not the attributes.\<close>

definition unwire_wildcards :: "ofp_match \<Rightarrow> int \<Rightarrow> int" where
  "unwire_wildcards self w =
     (if m_dl_type self = 0x0800 then
        (if m_nw_proto self \<notin> {1, 6, 17} then w OR TP_FLAGS else w)
      else if m_dl_type self = 0x0806 then w OR ARP_IGNORED
      else w OR NON_IP_IGNORED)"

definition ofp_match_assert :: "ofp_match \<Rightarrow> string option" where
  "ofp_match_assert self =
     (if hw_len (m_dl_dst self) \<noteq> 6 then Some ''self.dl_dst is not of size 6'' else None)"

text \<open>The bytes of \<^verbatim>\<open>dl_src\<close>/\<^verbatim>\<open>dl_dst\<close>; what compares equal to \<^verbatim>\<open>None\<close> packs as zeros.\<close>

definition pack_hw :: "hw option \<Rightarrow> bytes" where
  "pack_hw h = (if hw_cmp_eq h None then eth_toRaw EMPTY_ETH else hw_raw (the h))"

definition or_0 :: "int option \<Rightarrow> int" where
  "or_0 v = (case v of None \<Rightarrow> 0 | Some n \<Rightarrow> n)"

definition check_ip :: "ofp_match \<Rightarrow> int option \<Rightarrow> int" where
  "check_ip self val = (if int_get F_dl_type self = Some 0x0800 then or_0 val else 0)"

definition check_ip_or_arp :: "ofp_match \<Rightarrow> int option \<Rightarrow> int" where
  "check_ip_or_arp self val =
     (if int_get F_dl_type self = Some 0x0800 \<or> int_get F_dl_type self = Some 0x0806 then or_0 val else 0)"

definition check_tp :: "ofp_match \<Rightarrow> int option \<Rightarrow> int" where
  "check_tp self val =
     (if int_get F_dl_type self = Some 0x0800 \<and> int_get F_nw_proto self \<in> {Some 1, Some 6, Some 17}
      then or_0 val else 0)"

text \<open>\<^verbatim>\<open>fix\<close>: only integers and addresses have an unsigned form.\<close>

definition fix_addr :: "ip_arg option \<Rightarrow> int result" where
  "fix_addr addr =
     (case addr of None \<Rightarrow> Inr 0
      | Some (IpInt n) \<Rightarrow> Inr (n AND mask32)
      | Some (IpObj a) \<Rightarrow> Inr (toUnsigned a False)
      | Some _ \<Rightarrow> Inl AttributeError)"

definition ofp_match_pack :: "bool \<Rightarrow> bool \<Rightarrow> ofp_match \<Rightarrow> bytes result" where
  "ofp_match_pack assertstruct flow_mod self =
     (if assertstruct \<and> ofp_match_assert self \<noteq> None then Inl RuntimeError
      else concatE [
        struct_pack ''!LH''
          [if flow_mod then wire_wildcards self (wildcards self) else wildcards self,
           or_0 (int_get F_in_port self)],
        Inr (pack_hw (hw_get F_dl_src self)),
        Inr (pack_hw (hw_get F_dl_dst self)),
        struct_pack ''!HB'' [or_0 (int_get F_dl_vlan self), or_0 (int_get F_dl_vlan_pcp self)],
        Inr (PAD 1),
        struct_pack ''!HBB''
          [or_0 (int_get F_dl_type self), check_ip self (int_get F_nw_tos self),
           check_ip_or_arp self (int_get F_nw_proto self)],
        Inr (PAD 2),
        bindE (fix_addr (fst (nw_get F_nw_src self))) (\<lambda>src.
        bindE (fix_addr (fst (nw_get F_nw_dst self))) (\<lambda>dst.
          struct_pack ''!LLHH''
            [check_ip_or_arp self (Some src), check_ip_or_arp self (Some dst),
             check_tp self (int_get F_tp_src self), check_tp self (int_get F_tp_dst self)]))])"

definition ofp_match_len :: int where
  "ofp_match_len = 40"

definition ofp_match_unpack :: "bool \<Rightarrow> ofp_match \<Rightarrow> bytes \<Rightarrow> (ofp_match \<times> bytes) result" where
  "ofp_match_unpack flow_mod self b =
     (if length b < 40 then Inr (self, b)
      else
        bindE (struct_unpack_from ''!LH'' b 0) (\<lambda>u.
        bindE (struct_unpack_from ''!BBBBBB'' b 6) (\<lambda>s.
        bindE (EthAddr_init (EaTuple s)) (\<lambda>dl_src.
        bindE (struct_unpack_from ''!BBBBBB'' b 12) (\<lambda>d.
        bindE (EthAddr_init (EaTuple d)) (\<lambda>dl_dst.
        bindE (struct_unpack_from ''!HB'' b 18) (\<lambda>v.
        bindE (struct_unpack_from ''!HBB'' b 22) (\<lambda>t.
        bindE (struct_unpack_from ''!LLHH'' b 28) (\<lambda>n.
        bindE (IPAddr_init (IpInt (n ! 0)) False) (\<lambda>src.
        bindE (IPAddr_init (IpInt (n ! 1)) False) (\<lambda>dst.
          let self = self\<lparr>m_in_port := u ! 1, m_dl_src := HwEth dl_src, m_dl_dst := HwEth dl_dst,
                m_dl_vlan := v ! 0, m_dl_vlan_pcp := v ! 1,
                m_dl_type := t ! 0, m_nw_tos := t ! 1, m_nw_proto := t ! 2,
                m_nw_src := IpObj src, m_nw_dst := IpObj dst, m_tp_src := n ! 2, m_tp_dst := n ! 3\<rparr>
          in Inr (self\<lparr>wildcards :=
                    normalize_wildcards (if flow_mod then unwire_wildcards self (u ! 0) else u ! 0)\<rparr>,
                  drop 40 b))))))))))))"

subsection \<open>Comparing matches\<close>

text \<open>
  \<^verbatim>\<open>==\<close> on \<^verbatim>\<open>nw_src\<close>/\<^verbatim>\<open>nw_dst\<close>: an \<^verbatim>\<open>IPAddr\<close> on either side compares through
  \<^verbatim>\<open>IPAddr.__cmp__\<close>, tuples componentwise, everything else by value.
\<close>

fun addr_eq :: "ip_arg \<Rightarrow> ip_arg \<Rightarrow> bool result" where
  "addr_eq (IpObj a) x = bindE (IPAddr_cmp a (Some x)) (\<lambda>c. Inr (c = 0))"
| "addr_eq x (IpObj a) = bindE (IPAddr_cmp a (Some x)) (\<lambda>c. Inr (c = 0))"
| "addr_eq (IpInt n) (IpInt k) = Inr (n = k)"
| "addr_eq (IpStr s) (IpStr t) = Inr (s = t)"
| "addr_eq (IpTuple a b) (IpTuple c d) = andE [addr_eq a c, addr_eq b d]"
| "addr_eq _ _ = Inr False"

definition addr_opt_eq :: "ip_arg option \<Rightarrow> ip_arg option \<Rightarrow> bool result" where
  "addr_opt_eq x y =
     (case (x, y) of (Some a, Some b) \<Rightarrow> addr_eq a b | (None, None) \<Rightarrow> Inr True | _ \<Rightarrow> Inr False)"

definition ofp_match_eq :: "ofp_match \<Rightarrow> ofp_match \<Rightarrow> bool result" where
  "ofp_match_eq self other =
     andE [Inr (wildcards self = wildcards other),
       Inr (int_get F_in_port self = int_get F_in_port other),
       Inr (hw_cmp_eq (hw_get F_dl_src self) (hw_get F_dl_src other)),
       Inr (hw_cmp_eq (hw_get F_dl_dst self) (hw_get F_dl_dst other)),
       Inr (int_get F_dl_vlan self = int_get F_dl_vlan other),
       Inr (int_get F_dl_vlan_pcp self = int_get F_dl_vlan_pcp other),
       Inr (int_get F_dl_type self = int_get F_dl_type other),
       Inr (int_get F_nw_tos self = int_get F_nw_tos other),
       Inr (int_get F_nw_proto self = int_get F_nw_proto other),
       addr_opt_eq (fst (nw_get F_nw_src self)) (fst (nw_get F_nw_src other)),
       addr_opt_eq (fst (nw_get F_nw_dst self)) (fst (nw_get F_nw_dst other)),
       Inr (int_get F_tp_src self = int_get F_tp_src other),
       Inr (int_get F_tp_dst self = int_get F_tp_dst other)]"

text \<open>\<^verbatim>\<open>match_fail\<close> of \<^verbatim>\<open>matches_with_wildcards\<close>, for plain attributes and for addresses.\<close>

definition int_fail :: "int option \<Rightarrow> int option \<Rightarrow> bool" where
  "int_fail mine others \<longleftrightarrow> mine \<noteq> None \<and> mine \<noteq> others"

definition hw_fail :: "hw option \<Rightarrow> hw option \<Rightarrow> bool" where
  "hw_fail mine others \<longleftrightarrow> \<not> hw_cmp_eq mine None \<and> \<not> hw_cmp_eq mine others"

definition nw_encompasses :: "nw_side \<Rightarrow> ofp_match \<Rightarrow> ofp_match \<Rightarrow> bool result" where
  "nw_encompasses s self other =
     (case nw_get s self of
        (None, _) \<Rightarrow> Inr True
      | (Some mine, n) \<Rightarrow>
          (case nw_get s other of (others, k) \<Rightarrow>
             if n > k then Inr False
             else bindE (case others of None \<Rightarrow> Inl RuntimeError | Some x \<Rightarrow> IPAddr_init x False)
                    (\<lambda>ip. inNetwork ip (NetTuple mine (32 - n)) None)))"

definition matches_with_wildcards :: "ofp_match \<Rightarrow> ofp_match \<Rightarrow> bool \<Rightarrow> bool result" where
  "matches_with_wildcards self other consider_other_wildcards =
     bindE (ofp_match_eq self other) (\<lambda>same.
       if same then Inr True
       else
         let nw = 16128 OR 1032192;
             self_bits = wildcards self AND NOT nw;
             other_bits = wildcards other AND NOT nw
         in if consider_other_wildcards \<and> self_bits OR other_bits \<noteq> self_bits then Inr False
         else if int_fail (int_get F_in_port self) (int_get F_in_port other) then Inr False
         else if int_fail (int_get F_dl_vlan self) (int_get F_dl_vlan other) then Inr False
         else if hw_fail (hw_get F_dl_src self) (hw_get F_dl_src other) then Inr False
         else if hw_fail (hw_get F_dl_dst self) (hw_get F_dl_dst other) then Inr False
         else if int_fail (int_get F_dl_type self) (int_get F_dl_type other) then Inr False
         else if int_fail (int_get F_nw_proto self) (int_get F_nw_proto other) then Inr False
         else if int_fail (int_get F_tp_src self) (int_get F_tp_src other) then Inr False
         else if int_fail (int_get F_tp_dst self) (int_get F_tp_dst other) then Inr False
         else if int_fail (int_get F_dl_vlan_pcp self) (int_get F_dl_vlan_pcp other) then Inr False
         else if int_fail (int_get F_nw_tos self) (int_get F_nw_tos other) then Inr False
         else bindE (nw_encompasses F_nw_src self other) (\<lambda>ok.
           if \<not> ok then Inr False else nw_encompasses F_nw_dst self other))"

text \<open>\<^verbatim>\<open>hash_code\<close>: the integers among the attributes, whatever the order of the dictionary.\<close>

definition hash_code :: "ofp_match \<Rightarrow> int" where
  "hash_code self =
     (let ints = map (\<lambda>f. or_0 (int_get f self))
           [F_in_port, F_dl_vlan, F_dl_vlan_pcp, F_dl_type, F_nw_tos, F_nw_proto, F_tp_src, F_tp_dst];
          nws = map (\<lambda>s. case fst (nw_get s self) of Some (IpInt n) \<Rightarrow> n | _ \<Rightarrow> 0) [F_nw_src, F_nw_dst]
      in fold (\<lambda>v h. h XOR v) (ints @ nws) (wildcards self) AND 0x7fFFffFF)"

subsection \<open>The wildcard word, bit by bit\<close>

fun int_bit :: "int_field \<Rightarrow> nat" where
  "int_bit F_in_port = 0"
| "int_bit F_dl_vlan = 1"
| "int_bit F_dl_vlan_pcp = 20"
| "int_bit F_dl_type = 4"
| "int_bit F_nw_tos = 21"
| "int_bit F_nw_proto = 5"
| "int_bit F_tp_src = 6"
| "int_bit F_tp_dst = 7"

fun hw_bit :: "hw_field \<Rightarrow> nat" where
  "hw_bit F_dl_src = 2"
| "hw_bit F_dl_dst = 3"

lemma int_flag_bit: "int_flag f = 2 ^ int_bit f"
  by (cases f) simp_all

lemma hw_flag_bit: "hw_flag f = 2 ^ hw_bit f"
  by (cases f) simp_all

lemma nw_all_bit: "nw_all s = 2 ^ (nw_shift s + 5)"
  by (cases s) simp_all

lemma nw_mask_bit: "nw_mask s = push_bit (nw_shift s) (mask 6)"
  by (cases s) (simp_all add: mask_eq_exp_minus_1)

lemma and_exp_eq_exp_iff: "(w::int) AND 2 ^ k = 2 ^ k \<longleftrightarrow> bit w k"
proof
  assume "w AND 2 ^ k = 2 ^ k"
  from arg_cong [OF this, of "\<lambda>x. bit x k"] show "bit w k" by (simp add: bit_and_iff bit_exp_iff)
next
  assume "bit w k"
  then show "w AND 2 ^ k = 2 ^ k" by (intro bit_eqI) (auto simp: bit_and_iff bit_exp_iff)
qed

lemma bit_nw_mask: "bit (nw_mask s) i \<longleftrightarrow> nw_shift s \<le> i \<and> i < nw_shift s + 6"
  unfolding nw_mask_bit bit_push_bit_iff_int bit_mask_iff by auto

lemma is_wild_int: "is_wild m (int_flag f) \<longleftrightarrow> bit (wildcards m) (int_bit f)"
  by (simp only: is_wild_def int_flag_bit and_exp_eq_exp_iff)

lemma int_get_bit:
  "int_get f m = (if bit (wildcards m) (int_bit f) then None else Some (int_slot f m))"
  by (simp only: int_get_def is_wild_int)

lemma is_wild_hw: "is_wild m (hw_flag f) \<longleftrightarrow> bit (wildcards m) (hw_bit f)"
  by (simp only: is_wild_def hw_flag_bit and_exp_eq_exp_iff)

lemma hw_get_bit:
  "hw_get f m = (if bit (wildcards m) (hw_bit f) then None else Some (hw_slot f m))"
  by (simp only: hw_get_def is_wild_hw)

lemma nw_wild_iff: "wildcards m AND nw_all s = nw_all s \<longleftrightarrow> bit (wildcards m) (nw_shift s + 5)"
  by (simp only: nw_all_bit and_exp_eq_exp_iff)

text \<open>The six-bit prefix field of one side.\<close>

definition nw_bits :: "nw_side \<Rightarrow> int \<Rightarrow> int" where
  "nw_bits s w = take_bit 6 (drop_bit (nw_shift s) w)"

lemma nw_bits_eq: "drop_bit (nw_shift s) (w AND nw_mask s) = nw_bits s w"
  by (rule bit_eqI) (auto simp: nw_bits_def bit_drop_bit_eq bit_and_iff bit_nw_mask bit_take_bit_iff)

lemma nw_bits_range: "0 \<le> nw_bits s w" "nw_bits s w < 64"
  using take_bit_int_less_exp [of 6 "drop_bit (nw_shift s) w"] by (simp_all add: nw_bits_def)

lemma bit_nw_bits: "bit (nw_bits s w) i \<longleftrightarrow> i < 6 \<and> bit w (nw_shift s + i)"
  by (auto simp: nw_bits_def bit_take_bit_iff bit_drop_bit_eq)

lemma nw_bits_large: "32 \<le> nw_bits s w \<longleftrightarrow> bit w (nw_shift s + 5)"
proof -
  have "bit (nw_bits s w) 5 \<longleftrightarrow> odd (nw_bits s w div 2 ^ 5)" by (simp add: bit_iff_odd)
  moreover have "nw_bits s w div 2 ^ 5 = (if 32 \<le> nw_bits s w then 1 else 0)"
    using nw_bits_range [of s w] by (simp, presburger)
  ultimately show ?thesis by (auto simp: bit_nw_bits split: if_splits)
qed

lemma nw_get_eq:
  "nw_get s m =
     (if 32 \<le> nw_bits s (wildcards m) then (None, 0) else (Some (nw_slot s m), 32 - nw_bits s (wildcards m)))"
  unfolding nw_get_def nw_wild_iff nw_bits_eq Let_def by (simp add: nw_bits_large [symmetric])

lemma nw_get_Some:
  "nw_get s m = (Some x, n) \<Longrightarrow> x = nw_slot s m \<and> 1 \<le> n \<and> n \<le> 32"
  using nw_bits_range [of s "wildcards m"] by (auto simp: nw_get_eq split: if_splits)

lemma nw_get_None: "nw_get s m = (None, n) \<Longrightarrow> n = 0"
  by (auto simp: nw_get_eq split: if_splits)

lemma bit_normalize_nw:
  "bit (normalize_nw s w) i \<longleftrightarrow>
     (if nw_bits s w > 32 \<and> nw_shift s \<le> i \<and> i < nw_shift s + 6 then i = nw_shift s + 5 else bit w i)"
proof -
  have "push_bit (nw_shift s) (32::int) = 2 ^ (nw_shift s + 5)" by (cases s) simp_all
  then show ?thesis
    unfolding normalize_nw_def nw_bits_eq
    by (auto simp: bit_or_iff bit_and_iff bit_not_iff bit_exp_iff bit_nw_mask)
qed

lemma nw_bits_normalize_nw: "nw_bits s (normalize_nw s w) = (if nw_bits s w > 32 then 32 else nw_bits s w)"
proof (rule bit_eqI)
  fix i
  have "bit (32::int) i \<longleftrightarrow> i = 5" using bit_exp_iff [of 5 i, where 'a = int] by simp
  then show "bit (nw_bits s (normalize_nw s w)) i \<longleftrightarrow> bit (if nw_bits s w > 32 then 32 else nw_bits s w) i"
    by (auto simp: bit_nw_bits bit_normalize_nw)
qed

lemma nw_bits_normalize_other: "s \<noteq> t \<Longrightarrow> nw_bits s (normalize_nw t w) = nw_bits s w"
  by (rule bit_eqI, cases s; cases t) (auto simp: bit_nw_bits bit_normalize_nw)

lemma nw_bits_normalize:
  "nw_bits s (normalize_wildcards w) = (if nw_bits s w > 32 then 32 else nw_bits s w)"
  by (cases s) (simp_all add: normalize_wildcards_def nw_bits_normalize_nw nw_bits_normalize_other)

text \<open>Outside the two prefix fields normalising changes nothing; it is idempotent.\<close>

lemma bit_normalize_outside:
  "(\<And>s. \<not> (nw_shift s \<le> i \<and> i < nw_shift s + 6)) \<Longrightarrow> bit (normalize_wildcards w) i = bit w i"
  using bit_normalize_nw unfolding normalize_wildcards_def by metis

lemma normalize_id_iff: "normalize_wildcards w = w \<longleftrightarrow> (\<forall>s. nw_bits s w \<le> 32)"
proof
  assume "normalize_wildcards w = w"
  then show "\<forall>s. nw_bits s w \<le> 32"
    using nw_bits_normalize [of _ w] by (metis linorder_not_less order_refl)
next
  assume "\<forall>s. nw_bits s w \<le> 32"
  then have "\<not> nw_bits s w > 32" for s by (simp add: not_less)
  then show "normalize_wildcards w = w"
    unfolding normalize_wildcards_def normalize_nw_def nw_bits_eq by (simp only: if_False)
qed

lemma normalize_idem [simp]: "normalize_wildcards (normalize_wildcards w) = normalize_wildcards w"
  unfolding normalize_id_iff by (simp add: nw_bits_normalize)

text \<open>Writes that clear or set bits outside a prefix field leave it alone.\<close>

lemma nw_bits_cong:
  "(\<And>i. nw_shift s \<le> i \<Longrightarrow> i < nw_shift s + 6 \<Longrightarrow> bit v i = bit w i) \<Longrightarrow> nw_bits s v = nw_bits s w"
  by (rule bit_eqI) (auto simp: bit_nw_bits)

lemma int_bit_outside: "\<not> (nw_shift s \<le> int_bit f \<and> int_bit f < nw_shift s + 6)"
  by (cases s; cases f) simp_all

lemma hw_bit_outside: "\<not> (nw_shift s \<le> hw_bit f \<and> hw_bit f < nw_shift s + 6)"
  by (cases s; cases f) simp_all

lemma int_bit_inj [simp]: "int_bit f = int_bit g \<longleftrightarrow> f = g"
  by (cases f; cases g) simp_all

lemma hw_bit_inj [simp]: "hw_bit f = hw_bit g \<longleftrightarrow> f = g"
  by (cases f; cases g) simp_all

lemma int_hw_bit [simp]: "int_bit f \<noteq> hw_bit g" "hw_bit g \<noteq> int_bit f"
  by (cases f; cases g; simp)+

lemma nw_fields_disjoint:
  "s \<noteq> t \<Longrightarrow> nw_shift t \<le> i \<Longrightarrow> i < nw_shift t + 6 \<Longrightarrow> \<not> (nw_shift s \<le> i \<and> i < nw_shift s + 6)"
  by (cases s; cases t) auto

lemma bit_small:
  assumes "0 \<le> k" "k < 64" "bit (k::int) j"
  shows "j < 6"
proof -
  have "take_bit 6 k = k" using assms by (simp add: take_bit_int_eq_self)
  then have "bit (take_bit 6 k) j" using assms(3) by simp
  then show ?thesis by (simp add: bit_take_bit_iff)
qed

subsection \<open>Attributes behave as attributes\<close>

lemma int_slot_store [simp]: "int_slot g (int_store f v m) = (if f = g then v else int_slot g m)"
  by (cases f; cases g) simp_all

lemma hw_slot_store [simp]: "hw_slot g (hw_store f v m) = (if f = g then v else hw_slot g m)"
  by (cases f; cases g) simp_all

lemma nw_slot_store [simp]: "nw_slot g (nw_store f v m) = (if f = g then v else nw_slot g m)"
  by (cases f; cases g) simp_all

lemma slots_other [simp]:
  "int_slot f (hw_store h a m) = int_slot f m" "int_slot f (nw_store s x m) = int_slot f m"
  "hw_slot h (int_store f v m) = hw_slot h m" "hw_slot h (nw_store s x m) = hw_slot h m"
  "nw_slot s (int_store f v m) = nw_slot s m" "nw_slot s (hw_store h a m) = nw_slot s m"
  "wildcards (int_store f v m) = wildcards m" "wildcards (hw_store h a m) = wildcards m"
  "wildcards (nw_store s x m) = wildcards m"
  "int_slot f (m\<lparr>wildcards := w\<rparr>) = int_slot f m" "hw_slot h (m\<lparr>wildcards := w\<rparr>) = hw_slot h m"
  "nw_slot s (m\<lparr>wildcards := w\<rparr>) = nw_slot s m"
  by (cases f; cases h; cases s; simp)+

lemma bit_set_clear:
  "bit ((w::int) OR 2 ^ k) i \<longleftrightarrow> bit w i \<or> i = k"
  "bit ((w::int) AND NOT (2 ^ k)) i \<longleftrightarrow> bit w i \<and> i \<noteq> k"
  by (auto simp: bit_or_iff bit_and_iff bit_not_iff bit_exp_iff)

lemma int_get_set: "int_get g (int_set f v m) = (if f = g then v else int_get g m)"
  by (auto simp: int_get_bit int_set_def int_flag_bit bit_set_clear split: option.splits)

lemma hw_get_set: "hw_get g (hw_set f v m) = (if f = g then v else hw_get g m)"
  by (auto simp: hw_get_bit hw_set_def hw_flag_bit bit_set_clear split: option.splits)

lemma int_get_hw_set [simp]: "int_get f (hw_set h a m) = int_get f m"
  by (auto simp: int_get_bit hw_set_def hw_flag_bit bit_set_clear split: option.splits)

lemma hw_get_int_set [simp]: "hw_get h (int_set f v m) = hw_get h m"
  by (auto simp: hw_get_bit int_set_def int_flag_bit bit_set_clear split: option.splits)

lemma nw_get_int_set [simp]: "nw_get s (int_set f v m) = nw_get s m"
proof -
  have "nw_bits s (wildcards (int_set f v m)) = nw_bits s (wildcards m)"
    using int_bit_outside [of s f]
    by (intro nw_bits_cong) (auto simp: int_set_def int_flag_bit bit_set_clear split: option.splits)
  then show ?thesis by (auto simp: nw_get_eq int_set_def split: option.splits)
qed

lemma nw_get_hw_set [simp]: "nw_get s (hw_set h a m) = nw_get s m"
proof -
  have "nw_bits s (wildcards (hw_set h a m)) = nw_bits s (wildcards m)"
    using hw_bit_outside [of s h]
    by (intro nw_bits_cong) (auto simp: hw_set_def hw_flag_bit bit_set_clear split: option.splits)
  then show ?thesis by (auto simp: nw_get_eq hw_set_def split: option.splits)
qed

text \<open>Setting an address with a prefix length.\<close>

definition clamp32 :: "int \<Rightarrow> int" where
  "clamp32 b = (if b > 32 then 32 else if b < 0 then 0 else b)"

lemma clamp32_range: "0 \<le> clamp32 b" "clamp32 b \<le> 32"
  by (simp_all add: clamp32_def)

lemma bit_write_field:
  assumes "0 \<le> k" "k < 64"
  shows "bit ((w AND NOT (nw_mask s)) OR push_bit (nw_shift s) k) i \<longleftrightarrow>
    (if nw_shift s \<le> i \<and> i < nw_shift s + 6 then bit k (i - nw_shift s) else bit w i)"
proof -
  have "nw_shift s \<le> i \<Longrightarrow> bit k (i - nw_shift s) \<Longrightarrow> i < nw_shift s + 6"
    using bit_small [OF assms, of "i - nw_shift s"] by arith
  then show ?thesis
    unfolding bit_or_iff bit_and_iff bit_not_iff bit_nw_mask bit_push_bit_iff_int by auto
qed

lemma nw_bits_write_field:
  assumes "0 \<le> k" "k < 64"
  shows "nw_bits s ((w AND NOT (nw_mask s)) OR push_bit (nw_shift s) k) = k"
  using bit_small [OF assms] by (intro bit_eqI) (auto simp: bit_nw_bits bit_write_field [OF assms])

lemma nw_bits_write_other:
  assumes "0 \<le> k" "k < 64" "s \<noteq> t"
  shows "nw_bits t ((w AND NOT (nw_mask s)) OR push_bit (nw_shift s) k) = nw_bits t w"
proof (rule nw_bits_cong)
  fix i
  assume "nw_shift t \<le> i" "i < nw_shift t + 6"
  then have "\<not> (nw_shift s \<le> i \<and> i < nw_shift s + 6)"
    using nw_fields_disjoint [OF assms(3)] by blast
  then show "bit ((w AND NOT (nw_mask s)) OR push_bit (nw_shift s) k) i = bit w i"
    unfolding bit_write_field [OF assms(1,2)] by (rule if_not_P)
qed

lemma make_addr_IpObj:
  "make_addr (Some (IpObj a)) bits = Inr (Some (IpObj a, clamp32 (case bits of None \<Rightarrow> 32 | Some n \<Rightarrow> n)))"
  by (simp add: make_addr_def clamp32_def Let_def split: option.splits)

lemma nw_set_IpObj:
  assumes "nw_set s (Some (IpObj a)) (Some bits) m = Inr m'"
  shows "nw_get s m' = (if clamp32 bits = 0 then (None, 0) else (Some (IpObj a), clamp32 bits))"
    and "t \<noteq> s \<Longrightarrow> nw_get t m' = nw_get t m"
    and "int_get f m' = int_get f m"
    and "hw_get h m' = hw_get h m"
proof -
  let ?k = "32 - clamp32 bits"
  have k: "0 \<le> ?k" "?k < 64" using clamp32_range [of bits] by auto
  have m': "m' = (nw_store s (IpObj a) m)\<lparr>wildcards :=
      (wildcards m AND NOT (nw_mask s)) OR push_bit (nw_shift s) ?k\<rparr>"
    using assms by (simp add: nw_set_def make_addr_IpObj)
  show "nw_get s m' = (if clamp32 bits = 0 then (None, 0) else (Some (IpObj a), clamp32 bits))"
    using clamp32_range [of bits] by (auto simp: m' nw_get_eq nw_bits_write_field [OF k])
  show "t \<noteq> s \<Longrightarrow> nw_get t m' = nw_get t m"
    by (simp add: m' nw_get_eq nw_bits_write_other [OF k])
  show "int_get f m' = int_get f m"
    using int_bit_outside [of s f] by (auto simp: m' int_get_bit bit_write_field [OF k])
  show "hw_get h m' = hw_get h m"
    using hw_bit_outside [of s h] by (auto simp: m' hw_get_bit bit_write_field [OF k])
qed

subsection \<open>What a match means\<close>

text \<open>
  The matches the controller builds hold addresses, not strings or tuples, in the address slots,
  and \<^verbatim>\<open>EthAddr\<close>s in the hardware slots.
\<close>

fun nw_ok :: "ip_arg \<Rightarrow> bool" where
  "nw_ok (IpInt n) = (0 \<le> n \<and> n < 2 ^ 32)"
| "nw_ok (IpObj a) = ip_ok a"
| "nw_ok _ = False"

definition match_ok :: "ofp_match \<Rightarrow> bool" where
  "match_ok m \<longleftrightarrow> nw_ok (m_nw_src m) \<and> nw_ok (m_nw_dst m) \<and> hw_wire (m_dl_src m) \<and> hw_wire (m_dl_dst m)"

lemma match_okD:
  assumes "match_ok m"
  shows "nw_ok (nw_slot s m)" "hw_wire (hw_slot h m)"
  using assms by (cases s; cases h; simp add: match_ok_def)+

fun nw_num :: "ip_arg \<Rightarrow> int" where
  "nw_num (IpInt n) = n"
| "nw_num (IpObj a) = toUnsigned a False"
| "nw_num _ = 0"

text \<open>The fields as values: the zero hardware address counts as no address at all.\<close>

definition hw_val :: "hw_field \<Rightarrow> ofp_match \<Rightarrow> bytes option" where
  "hw_val h m =
     (case hw_get h m of None \<Rightarrow> None
      | Some x \<Rightarrow> if hw_raw x = replicate 6 NUL then None else Some (hw_raw x))"

definition nw_val :: "nw_side \<Rightarrow> ofp_match \<Rightarrow> (int \<times> int) option" where
  "nw_val s m = (case nw_get s m of (None, _) \<Rightarrow> None | (Some x, n) \<Rightarrow> Some (nw_num x, n))"

definition field_covers :: "'v option \<Rightarrow> 'v option \<Rightarrow> bool" where
  "field_covers mine others \<longleftrightarrow> mine = None \<or> mine = others"

definition prefix_covers :: "(int \<times> int) option \<Rightarrow> (int \<times> int) option \<Rightarrow> bool" where
  "prefix_covers mine others \<longleftrightarrow>
     (case mine of None \<Rightarrow> True
      | Some (x, n) \<Rightarrow>
          (case others of None \<Rightarrow> False
           | Some (y, k) \<Rightarrow> n \<le> k \<and> (\<forall>i. bit x i \<longleftrightarrow> nat (32 - n) \<le> i \<and> bit y i)))"

definition wild_covers :: "ofp_match \<Rightarrow> ofp_match \<Rightarrow> bool" where
  "wild_covers a b \<longleftrightarrow>
     (\<forall>i. (\<forall>s. \<not> (nw_shift s \<le> i \<and> i < nw_shift s + 6)) \<longrightarrow> bit (wildcards b) i \<longrightarrow> bit (wildcards a) i)"

definition match_same :: "ofp_match \<Rightarrow> ofp_match \<Rightarrow> bool" where
  "match_same a b \<longleftrightarrow> wildcards a = wildcards b \<and> (\<forall>f. int_get f a = int_get f b) \<and>
     (\<forall>h. hw_val h a = hw_val h b) \<and> (\<forall>s. nw_val s a = nw_val s b)"

definition match_covers :: "ofp_match \<Rightarrow> ofp_match \<Rightarrow> bool" where
  "match_covers a b \<longleftrightarrow> (\<forall>f. field_covers (int_get f a) (int_get f b)) \<and>
     (\<forall>h. field_covers (hw_val h a) (hw_val h b)) \<and> (\<forall>s. prefix_covers (nw_val s a) (nw_val s b))"

lemma all_int_field: "(\<forall>f. P f) \<longleftrightarrow> P F_in_port \<and> P F_dl_vlan \<and> P F_dl_vlan_pcp \<and> P F_dl_type \<and>
  P F_nw_tos \<and> P F_nw_proto \<and> P F_tp_src \<and> P F_tp_dst"
  by (metis int_field.exhaust)

lemma all_hw_field: "(\<forall>f. P f) \<longleftrightarrow> P F_dl_src \<and> P F_dl_dst"
  by (metis hw_field.exhaust)

lemma all_nw_side: "(\<forall>f. P f) \<longleftrightarrow> P F_nw_src \<and> P F_nw_dst"
  by (metis nw_side.exhaust)

lemma ex_nw_side: "(\<exists>f. P f) \<longleftrightarrow> P F_nw_src \<or> P F_nw_dst"
  by (metis nw_side.exhaust)

text \<open>The comparisons of the source, on these values.\<close>

lemma hw_wire_cases:
  assumes "hw_wire x"
  obtains e where "x = HwEth e" "length (eth_value e) = 6"
  using assms by (auto simp: hw_wire_def eth_ok_def)

lemma hw_get_wire:
  assumes "match_ok m"
  shows "hw_get h m = None \<or> (\<exists>e. hw_get h m = Some (HwEth e) \<and> length (eth_value e) = 6)"
  using match_okD(2) [OF assms, of h] by (auto simp: hw_get_def elim!: hw_wire_cases)

lemma hw_cmp_eq_val:
  assumes "match_ok a" "match_ok b"
  shows "hw_cmp_eq (hw_get h a) (hw_get h b) \<longleftrightarrow> hw_val h a = hw_val h b"
  using hw_get_wire [OF assms(1), of h] hw_get_wire [OF assms(2), of h]
  by (auto simp: hw_val_def eth_toRaw_def split: if_splits)

lemma hw_fail_val:
  assumes "match_ok a" "match_ok b"
  shows "hw_fail (hw_get h a) (hw_get h b) \<longleftrightarrow> \<not> field_covers (hw_val h a) (hw_val h b)"
  using hw_get_wire [OF assms(1), of h] hw_get_wire [OF assms(2), of h]
  by (auto simp: hw_fail_def field_covers_def hw_val_def eth_toRaw_def split: if_splits)

lemma int_fail_val: "int_fail x y \<longleftrightarrow> \<not> field_covers x y"
  by (simp add: int_fail_def field_covers_def)

lemma sgn_eq_0: "sgn (x - y :: int) = 0 \<longleftrightarrow> x = y"
  by (simp add: sgn_0_0)

lemma nw_init:
  assumes "nw_ok x"
  obtains a where "IPAddr_init x False = Inr a" "ip_ok a" "toUnsigned a False = nw_num x"
proof (cases x)
  case (IpInt n)
  then obtain a where a: "IPAddr_init (IpInt n) False = Inr a" by (simp add: Let_def)
  with IpInt assms show thesis
    using that toUnsigned_IpInt [OF a] IPAddr_init_ok [OF a] by (simp del: IPAddr_init.simps)
qed (use assms that in auto)

lemma ip_value_eq_iff:
  assumes "ip_ok a" "ip_ok b"
  shows "ip_value a = ip_value b \<longleftrightarrow> toUnsigned a False = toUnsigned b False"
proof
  assume "ip_value a = ip_value b"
  then show "toUnsigned a False = toUnsigned b False" by (simp add: toUnsigned_def)
next
  assume "toUnsigned a False = toUnsigned b False"
  then show "ip_value a = ip_value b" using toUnsigned_inj [OF assms, of False] by simp
qed

lemma IPAddr_cmp_val:
  assumes "ip_ok a" "nw_ok x"
  shows "bindE (IPAddr_cmp a (Some x)) (\<lambda>c. Inr (c = 0)) = Inr (toUnsigned a False = nw_num x)"
proof -
  obtain b where b: "IPAddr_init x False = Inr b" "ip_ok b" "toUnsigned b False = nw_num x"
    by (rule nw_init [OF assms(2)])
  then show ?thesis using ip_value_eq_iff [OF assms(1) b(2)] by (simp add: IPAddr_cmp_def sgn_eq_0)
qed

lemma addr_eq_val:
  assumes "nw_ok x" "nw_ok y"
  shows "addr_eq x y = Inr (nw_num x = nw_num y)"
  using assms
  by (cases x; cases y) (auto simp: IPAddr_cmp_val simp del: IPAddr_init.simps)

lemma nw_val_iff:
  "nw_val s m = (if 32 \<le> nw_bits s (wildcards m) then None
     else Some (nw_num (nw_slot s m), 32 - nw_bits s (wildcards m)))"
  by (simp add: nw_val_def nw_get_eq)

lemma addr_opt_eq_val:
  assumes "match_ok a" "match_ok b" "wildcards a = wildcards b"
  shows "addr_opt_eq (fst (nw_get s a)) (fst (nw_get s b)) = Inr (nw_val s a = nw_val s b)"
  using match_okD(1) [OF assms(1), of s] match_okD(1) [OF assms(2), of s] assms(3)
  by (auto simp: nw_val_iff nw_get_eq addr_opt_eq_def addr_eq_val)

lemma andE_Inr: "andE (map Inr bs) = Inr (list_all (\<lambda>b. b) bs)"
  by (induction bs) auto

lemma ofp_match_eq_iff:
  assumes "match_ok a" "match_ok b"
  shows "ofp_match_eq a b = Inr (match_same a b)"
proof (cases "wildcards a = wildcards b")
  case True
  show ?thesis
    unfolding ofp_match_eq_def addr_opt_eq_val [OF assms True] hw_cmp_eq_val [OF assms]
      list.map(2) [of Inr, symmetric] list.map(1) [of Inr, symmetric] andE_Inr
    unfolding match_same_def all_int_field all_hw_field all_nw_side list.pred_inject
    by (rule arg_cong [where f = Inr]) (simp only: list.pred_inject simp_thms, blast)
qed (simp add: ofp_match_eq_def match_same_def)

lemma nw_encompasses_val:
  assumes "match_ok a" "match_ok b"
  shows "nw_encompasses s a b = Inr (prefix_covers (nw_val s a) (nw_val s b))"
proof (cases "32 \<le> nw_bits s (wildcards a)")
  case True
  then show ?thesis by (simp add: nw_encompasses_def nw_get_eq nw_val_iff prefix_covers_def)
next
  case False
  let ?n = "32 - nw_bits s (wildcards a)" and ?k = "32 - nw_bits s (wildcards b)"
  have n: "1 \<le> ?n" using False by simp
  show ?thesis
  proof (cases "32 \<le> nw_bits s (wildcards b) \<or> ?n > ?k")
    case True
    then show ?thesis using False by (auto simp: nw_encompasses_def nw_get_eq nw_val_iff prefix_covers_def)
  next
    case k: False
    obtain x where x: "IPAddr_init (nw_slot s b) False = Inr x" "toUnsigned x False = nw_num (nw_slot s b)"
      by (rule nw_init [OF match_okD(1) [OF assms(2)]])
    obtain y where y: "IPAddr_init (nw_slot s a) False = Inr y" "toUnsigned y False = nw_num (nw_slot s a)"
      by (rule nw_init [OF match_okD(1) [OF assms(1)]])
    let ?j = "nw_bits s (wildcards a)"
    have j: "0 \<le> ?j" by (rule nw_bits_range)
    obtain t where t: "inNetwork_test x y ?j = Inr t"
      using j by (auto simp: inNetwork_test_def)
    have "t \<longleftrightarrow> (\<forall>i. bit (nw_num (nw_slot s a)) i \<longleftrightarrow> nat ?j \<le> i \<and> bit (nw_num (nw_slot s b)) i)"
      using inNetwork_test_iff [of x y "nat ?j"] t j by (simp add: x y)
    then show ?thesis using False k t x(1) y(1)
      by (simp add: nw_encompasses_def nw_get_eq nw_val_iff prefix_covers_def)
  qed
qed

lemma wild_covers_iff:
  "(wildcards a AND NOT (16128 OR 1032192)) OR (wildcards b AND NOT (16128 OR 1032192))
     = wildcards a AND NOT (16128 OR 1032192) \<longleftrightarrow> wild_covers a b"
proof -
  define Q where "Q = (\<lambda>i. \<exists>s. nw_shift s \<le> i \<and> i < nw_shift s + 6)"
  have m: "bit (16128 OR 1032192 :: int) i \<longleftrightarrow> Q i" for i
    using bit_nw_mask [of F_nw_src i] bit_nw_mask [of F_nw_dst i]
    unfolding bit_or_iff Q_def ex_nw_side nw_mask.simps by (simp only:)
  have w: "wild_covers a b \<longleftrightarrow> (\<forall>i. \<not> Q i \<longrightarrow> bit (wildcards b) i \<longrightarrow> bit (wildcards a) i)"
    unfolding wild_covers_def Q_def by blast
  show ?thesis
    unfolding w bit_eq_iff bit_or_iff [of "_ AND _"] bit_and_iff bit_not_iff m by auto
qed

text \<open>The refinement: on well-formed matches \<^verbatim>\<open>matches_with_wildcards\<close> never raises, and decides coverage.\<close>

lemma matches_with_wildcards_iff:
  assumes "match_ok a" "match_ok b"
  shows "matches_with_wildcards a b c = Inr (match_same a b \<or> ((c \<longrightarrow> wild_covers a b) \<and> match_covers a b))"
  unfolding matches_with_wildcards_def ofp_match_eq_iff [OF assms] Let_def int_fail_val
    hw_fail_val [OF assms] nw_encompasses_val [OF assms] bindE_simps wild_covers_iff
    match_covers_def all_int_field all_hw_field all_nw_side
  by (cases "match_same a b"; cases "c \<longrightarrow> wild_covers a b") (simp_all only: if_True if_False simp_thms if_cancel, auto)

lemma field_covers_refl: "field_covers x x"
  by (simp add: field_covers_def)

lemma field_covers_trans: "field_covers x y \<Longrightarrow> field_covers y z \<Longrightarrow> field_covers x z"
  by (auto simp: field_covers_def)

lemma prefix_covers_trans: "prefix_covers x y \<Longrightarrow> prefix_covers y z \<Longrightarrow> prefix_covers x z"
  unfolding prefix_covers_def
  by (auto split: option.splits prod.splits)

lemma match_covers_trans: "match_covers a b \<Longrightarrow> match_covers b c \<Longrightarrow> match_covers a c"
  unfolding match_covers_def by (blast intro: field_covers_trans prefix_covers_trans)

lemma match_covers_same:
  "match_same a b \<Longrightarrow> match_covers b c = match_covers a c"
  "match_same b c \<Longrightarrow> match_covers a b = match_covers a c"
  unfolding match_same_def match_covers_def by auto

lemma wild_covers_same:
  "match_same a b \<Longrightarrow> wild_covers b c = wild_covers a c"
  "match_same b c \<Longrightarrow> wild_covers a b = wild_covers a c"
  unfolding match_same_def wild_covers_def by auto

lemma match_same_trans: "match_same a b \<Longrightarrow> match_same b c \<Longrightarrow> match_same a c"
  unfolding match_same_def by auto

lemma wild_covers_trans: "wild_covers a b \<Longrightarrow> wild_covers b c \<Longrightarrow> wild_covers a c"
  unfolding wild_covers_def by blast

lemma code_decode_B [simp]: "code_decode (CHR ''B'') [c] = of_char c"
  using of_char_range [of c] by (simp add: code_decode_def be_value_def code_max_def code_signed_def)

lemma struct_fields_hw [simp]:
  assumes "length s = 6"
  shows "struct_fields ''!BBBBBB'' (s @ t) = map of_char s"
proof -
  obtain a b c d e f where "s = [a, b, c, d, e, f]" using assms by (rule six_bytes)
  then show ?thesis by (simp add: struct_fields.simps)
qed

subsection \<open>The wire form\<close>

text \<open>
  The match that is read back from the bytes: fields that are wildcarded or that the packing
  drops are zero, and on the flow-mod path the wildcard bits of the fields that do not apply to
  the packet's type are set.
\<close>

definition addr_of :: "int \<Rightarrow> ip_arg" where
  "addr_of n = (case IPAddr_init (IpInt n) False of Inr a \<Rightarrow> IpObj a)"

definition eth_form :: "hw option \<Rightarrow> hw" where
  "eth_form h = HwEth (EthAddr (pack_hw h))"

definition nw_form :: "ofp_match \<Rightarrow> nw_side \<Rightarrow> int" where
  "nw_form m s = check_ip_or_arp m (map_option nw_num (fst (nw_get s m)))"

definition wire_slots :: "ofp_match \<Rightarrow> ofp_match" where
  "wire_slots m = m\<lparr>m_in_port := or_0 (int_get F_in_port m),
     m_dl_src := eth_form (hw_get F_dl_src m), m_dl_dst := eth_form (hw_get F_dl_dst m),
     m_dl_vlan := or_0 (int_get F_dl_vlan m), m_dl_vlan_pcp := or_0 (int_get F_dl_vlan_pcp m),
     m_dl_type := or_0 (int_get F_dl_type m), m_nw_tos := check_ip m (int_get F_nw_tos m),
     m_nw_proto := check_ip_or_arp m (int_get F_nw_proto m),
     m_nw_src := addr_of (nw_form m F_nw_src), m_nw_dst := addr_of (nw_form m F_nw_dst),
     m_tp_src := check_tp m (int_get F_tp_src m), m_tp_dst := check_tp m (int_get F_tp_dst m)\<rparr>"

definition wire_form :: "bool \<Rightarrow> ofp_match \<Rightarrow> ofp_match" where
  "wire_form flow_mod m = (wire_slots m)\<lparr>wildcards := normalize_wildcards
     (if flow_mod then unwire_wildcards (wire_slots m) (wire_wildcards m (wildcards m)) else wildcards m)\<rparr>"

lemma fix_addr_num:
  assumes "match_ok m"
  shows "fix_addr (fst (nw_get s m)) = Inr (or_0 (map_option nw_num (fst (nw_get s m))))"
proof -
  have "nw_ok x \<Longrightarrow> fix_addr (Some x) = Inr (nw_num x)" for x
    by (cases x) (simp_all add: fix_addr_def and_mask32)
  then show ?thesis using match_okD(1) [OF assms, of s]
    by (simp add: nw_get_eq or_0_def fix_addr_def)
qed

lemma check_ip_or_arp_or_0: "check_ip_or_arp m (Some (or_0 v)) = check_ip_or_arp m v"
  by (simp add: check_ip_or_arp_def or_0_def split: option.splits)

lemma length_pack_hw:
  assumes "match_ok m"
  shows "length (pack_hw (hw_get h m)) = 6"
  using hw_get_wire [OF assms, of h] by (auto simp: pack_hw_def EMPTY_ETH_def eth_toRaw_def)

lemma ofp_match_pack_length:
  assumes "match_ok m" "ofp_match_pack as fm m = Inr b"
  shows "length b = 40"
  using assms(2) length_pack_hw [OF assms(1)]
  by (auto simp: ofp_match_pack_def codec struct_pack_length split: if_splits)

lemma addr_of_eq: "IPAddr_init (IpInt n) False = Inr a \<Longrightarrow> addr_of n = IpObj a"
  by (simp add: addr_of_def del: IPAddr_init.simps)

lemma addr_of_init:
  obtains a where "IPAddr_init (IpInt n) False = Inr a" "addr_of n = IpObj a" "ip_ok a"
proof -
  have "\<exists>a. IPAddr_init (IpInt n) False = Inr a" by (simp add: Let_def)
  then obtain a where a: "IPAddr_init (IpInt n) False = Inr a" by blast
  show thesis using that [OF a addr_of_eq [OF a]] IPAddr_init_ok [OF a] by simp
qed

lemma nw_num_addr_of: "nw_num (addr_of n) = n mod 2 ^ 32"
proof -
  obtain a where a: "IPAddr_init (IpInt n) False = Inr a" "addr_of n = IpObj a" by (rule addr_of_init)
  show ?thesis using toUnsigned_IpInt [OF a(1)] a(2) by simp
qed

lemma ofp_match_unpack_pack:
  assumes ok: "match_ok m" and p: "ofp_match_pack as fm m = Inr b"
  shows "ofp_match_unpack fm self (b @ r) = Inr (wire_form fm m, r)"
proof -
  let ?w = "if fm then wire_wildcards m (wildcards m) else wildcards m"
  let ?s = "pack_hw (hw_get F_dl_src m)" and ?d = "pack_hw (hw_get F_dl_dst m)"
  obtain b1 b2 b3 b4 where b: "b = b1 @ ?s @ ?d @ b2 @ PAD 1 @ b3 @ PAD 2 @ b4"
    and p1: "struct_pack ''!LH'' [?w, or_0 (int_get F_in_port m)] = Inr b1"
    and p2: "struct_pack ''!HB'' [or_0 (int_get F_dl_vlan m), or_0 (int_get F_dl_vlan_pcp m)] = Inr b2"
    and p3: "struct_pack ''!HBB'' [or_0 (int_get F_dl_type m), check_ip m (int_get F_nw_tos m),
        check_ip_or_arp m (int_get F_nw_proto m)] = Inr b3"
    and p4: "struct_pack ''!LLHH'' [nw_form m F_nw_src, nw_form m F_nw_dst,
        check_tp m (int_get F_tp_src m), check_tp m (int_get F_tp_dst m)] = Inr b4"
    using p unfolding ofp_match_pack_def fix_addr_num [OF ok] bindE_simps check_ip_or_arp_or_0 nw_form_def
    by (auto simp: codec split: if_splits)
  have len: "length b1 = 6" "length b2 = 3" "length b3 = 4" "length b4 = 12" "length ?s = 6" "length ?d = 6"
    using p1 p2 p3 p4 length_pack_hw [OF ok] by (auto dest!: struct_pack_length)
  obtain x where x: "IPAddr_init (IpInt (nw_form m F_nw_src)) False = Inr x"
    "addr_of (nw_form m F_nw_src) = IpObj x" by (rule addr_of_init)
  obtain y where y: "IPAddr_init (IpInt (nw_form m F_nw_dst)) False = Inr y"
    "addr_of (nw_form m F_nw_dst) = IpObj y" by (rule addr_of_init)
  show ?thesis
    unfolding ofp_match_unpack_def Let_def b
    by (simp add: len struct_unpack_from_def struct_fields_pack [OF p1] struct_fields_pack [OF p2]
        struct_fields_pack [OF p3] struct_fields_pack [OF p4] x y EthAddr_init_bytes
        wire_form_def wire_slots_def eth_form_def unwire_wildcards_def del: EthAddr_init.simps IPAddr_init.simps)
qed

text \<open>Which fields say something about a packet of the match's type.\<close>

definition nw_applies :: "ofp_match \<Rightarrow> bool" where
  "nw_applies m \<longleftrightarrow> int_get F_dl_type m \<in> {Some 0x0800, Some 0x0806}"

fun applies :: "int_field \<Rightarrow> ofp_match \<Rightarrow> bool" where
  "applies F_nw_tos m = (int_get F_dl_type m = Some 0x0800)"
| "applies F_nw_proto m = nw_applies m"
| "applies F_tp_src m = (int_get F_dl_type m = Some 0x0800 \<and> int_get F_nw_proto m \<in> {Some 1, Some 6, Some 17})"
| "applies F_tp_dst m = (int_get F_dl_type m = Some 0x0800 \<and> int_get F_nw_proto m \<in> {Some 1, Some 6, Some 17})"
| "applies _ m = True"

lemma bit_flags:
  "bit TP_FLAGS i \<longleftrightarrow> i = 6 \<or> i = 7"
  "bit ARP_IGNORED i \<longleftrightarrow> i = 21 \<or> i = 6 \<or> i = 7"
  "bit NON_IP_IGNORED i \<longleftrightarrow> i = 21 \<or> i = 5 \<or> (8 \<le> i \<and> i < 14) \<or> (14 \<le> i \<and> i < 20) \<or> i = 6 \<or> i = 7"
proof -
  have f: "bit (2097152::int) i \<longleftrightarrow> i = 21" "bit (64::int) i \<longleftrightarrow> i = 6" "bit (128::int) i \<longleftrightarrow> i = 7"
    "bit (32::int) i \<longleftrightarrow> i = 5"
    using bit_exp_iff [of 21 i, where 'a = int] bit_exp_iff [of 6 i, where 'a = int]
      bit_exp_iff [of 7 i, where 'a = int] bit_exp_iff [of 5 i, where 'a = int] by auto
  have g: "bit (16128::int) i \<longleftrightarrow> 8 \<le> i \<and> i < 14" "bit (1032192::int) i \<longleftrightarrow> 14 \<le> i \<and> i < 20"
    using bit_nw_mask [of F_nw_src i] bit_nw_mask [of F_nw_dst i] by simp_all
  show "bit TP_FLAGS i \<longleftrightarrow> i = 6 \<or> i = 7"
    "bit ARP_IGNORED i \<longleftrightarrow> i = 21 \<or> i = 6 \<or> i = 7"
    "bit NON_IP_IGNORED i \<longleftrightarrow> i = 21 \<or> i = 5 \<or> (8 \<le> i \<and> i < 14) \<or> (14 \<le> i \<and> i < 20) \<or> i = 6 \<or> i = 7"
    unfolding bit_or_iff f g by blast+
qed

definition ignored_bit :: "ofp_match \<Rightarrow> nat \<Rightarrow> bool" where
  "ignored_bit m i \<longleftrightarrow>
     i \<in> {6, 7} \<and> \<not> applies F_tp_src m \<or> i = 21 \<and> \<not> applies F_nw_tos m \<or>
     (i = 5 \<or> 8 \<le> i \<and> i < 20) \<and> \<not> nw_applies m"

lemma or_0_eq: "v \<noteq> 0 \<Longrightarrow> or_0 x = v \<longleftrightarrow> x = Some v"
  by (auto simp: or_0_def split: option.splits)

lemma wire_slots_type:
  "m_dl_type (wire_slots m) = 0x0800 \<longleftrightarrow> int_get F_dl_type m = Some 0x0800"
  "m_dl_type (wire_slots m) = 0x0806 \<longleftrightarrow> int_get F_dl_type m = Some 0x0806"
  by (simp_all add: wire_slots_def or_0_eq)

lemma wire_slots_proto:
  "int_get F_dl_type m = Some 0x0800 \<Longrightarrow>
     m_nw_proto (wire_slots m) \<in> {1, 6, 17} \<longleftrightarrow> int_get F_nw_proto m \<in> {Some 1, Some 6, Some 17}"
  by (simp add: wire_slots_def check_ip_or_arp_def or_0_eq)

lemma bit_unwire_wire:
  "bit (unwire_wildcards (wire_slots m) (wire_wildcards m w)) i \<longleftrightarrow> bit w i \<or> ignored_bit m i"
proof -
  consider (ip) "int_get F_dl_type m = Some 0x0800" | (arp) "int_get F_dl_type m = Some 0x0806"
    | (other) "int_get F_dl_type m \<noteq> Some 0x0800" "int_get F_dl_type m \<noteq> Some 0x0806" by blast
  then show ?thesis
  proof cases
    case ip
    show ?thesis
    proof (cases "int_get F_nw_proto m \<in> {Some 1, Some 6, Some 17}")
      case True
      with ip have "unwire_wildcards (wire_slots m) (wire_wildcards m w) = w"
        by (simp only: unwire_wildcards_def wire_wildcards_def wire_slots_type wire_slots_proto) simp
      with ip True show ?thesis by (auto simp: ignored_bit_def nw_applies_def)
    next
      case False
      with ip have "unwire_wildcards (wire_slots m) (wire_wildcards m w) = (w AND NOT TP_FLAGS) OR TP_FLAGS"
        by (simp only: unwire_wildcards_def wire_wildcards_def wire_slots_type wire_slots_proto) simp
      with ip False show ?thesis
        by (simp only: bit_or_iff [of "_ AND _"] bit_and_iff bit_not_iff bit_flags) (auto simp: ignored_bit_def nw_applies_def)
    qed
  next
    case arp
    then have "unwire_wildcards (wire_slots m) (wire_wildcards m w) = (w AND NOT ARP_IGNORED) OR ARP_IGNORED"
      by (simp only: unwire_wildcards_def wire_wildcards_def wire_slots_type) simp
    with arp show ?thesis
      by (simp only: bit_or_iff [of "_ AND _"] bit_and_iff bit_not_iff bit_flags) (auto simp: ignored_bit_def nw_applies_def)
  next
    case other
    then have "unwire_wildcards (wire_slots m) (wire_wildcards m w) = (w AND NOT NON_IP_IGNORED) OR NON_IP_IGNORED"
      by (simp only: unwire_wildcards_def wire_wildcards_def wire_slots_type) simp
    with other show ?thesis
      by (simp only: bit_or_iff [of "_ AND _"] bit_and_iff bit_not_iff bit_flags) (auto simp: ignored_bit_def nw_applies_def)
  qed
qed

lemma ignored_bit_simps [simp]:
  "ignored_bit m (int_bit f) \<longleftrightarrow> \<not> applies f m" "\<not> ignored_bit m (hw_bit h)"
  "j < 6 \<Longrightarrow> ignored_bit m (nw_shift s + j) \<longleftrightarrow> \<not> nw_applies m"
  by (cases f, simp_all add: ignored_bit_def) (cases h, simp_all add: ignored_bit_def, cases s, auto simp: ignored_bit_def)

lemma bit_wire_form:
  "bit (wildcards (wire_form fm m)) (int_bit f) \<longleftrightarrow> bit (wildcards m) (int_bit f) \<or> fm \<and> \<not> applies f m"
  "bit (wildcards (wire_form fm m)) (hw_bit h) \<longleftrightarrow> bit (wildcards m) (hw_bit h)"
  using int_bit_outside [of _ f] hw_bit_outside [of _ h]
  by (auto simp: wire_form_def bit_normalize_outside bit_unwire_wire)

lemma nw_bits_wire_form:
  "nw_bits s (wildcards (wire_form fm m)) =
     (if fm \<and> \<not> nw_applies m then 32 else if nw_bits s (wildcards m) > 32 then 32 else nw_bits s (wildcards m))"
proof -
  let ?w = "unwire_wildcards (wire_slots m) (wire_wildcards m (wildcards m))"
  have "nw_bits s ?w = (if nw_applies m then nw_bits s (wildcards m) else 63)"
  proof (rule bit_eqI)
    fix i
    have "bit (63::int) i \<longleftrightarrow> i < 6" using bit_mask_iff [of 6 i, where 'a = int] by (simp add: mask_eq_exp_minus_1)
    then show "bit (nw_bits s ?w) i \<longleftrightarrow> bit (if nw_applies m then nw_bits s (wildcards m) else 63) i"
      by (auto simp: bit_nw_bits bit_unwire_wire)
  qed
  then show ?thesis by (auto simp: wire_form_def nw_bits_normalize)
qed

lemma int_slot_wire_form:
  "int_slot f (wire_form fm m) = (if applies f m then or_0 (int_get f m) else 0)"
  by (cases f) (auto simp: wire_form_def wire_slots_def check_ip_def check_ip_or_arp_def check_tp_def nw_applies_def)

lemma int_get_wire_form:
  "int_get f (wire_form True m) = (if applies f m then int_get f m else None)"
  "int_get f (wire_form False m) = map_option (\<lambda>v. if applies f m then v else 0) (int_get f m)"
  by (simp_all add: int_get_bit bit_wire_form int_slot_wire_form or_0_def)

lemma hw_slot_wire_form: "hw_slot h (wire_form fm m) = eth_form (hw_get h m)"
  by (cases h) (simp_all add: wire_form_def wire_slots_def)

lemma hw_get_wire_form:
  assumes "match_ok m"
  shows "hw_get h (wire_form fm m) = hw_get h m"
proof -
  have "eth_form (Some (hw_slot h m)) = hw_slot h m"
    using match_okD(2) [OF assms, of h]
    by (auto simp: eth_form_def pack_hw_def eth_toRaw_def EMPTY_ETH_def elim!: hw_wire_cases) (metis EthAddr.collapse)+
  then show ?thesis by (simp add: hw_get_bit bit_wire_form hw_slot_wire_form)
qed

lemma nw_slot_wire_form: "nw_slot s (wire_form fm m) = addr_of (nw_form m s)"
  by (cases s) (simp_all add: wire_form_def wire_slots_def)

lemma nw_num_range: "nw_ok x \<Longrightarrow> nw_num x mod 2 ^ 32 = nw_num x"
  using toUnsigned_range by (cases x) auto

lemma nw_val_wire_form:
  assumes "match_ok m"
  shows "nw_val s (wire_form True m) = (if nw_applies m then nw_val s m else None)"
    and "nw_val s (wire_form False m) = map_option (\<lambda>(x, n). (if nw_applies m then x else 0, n)) (nw_val s m)"
  using nw_num_range [OF match_okD(1) [OF assms, of s]]
  by (auto simp: nw_val_iff nw_bits_wire_form nw_slot_wire_form nw_num_addr_of nw_form_def
      check_ip_or_arp_def nw_applies_def or_0_def nw_get_eq simp del: power_numeral)

lemma match_ok_wire_form:
  assumes "match_ok m"
  shows "match_ok (wire_form fm m)"
proof -
  have "nw_ok (addr_of n)" for n by (rule addr_of_init [of n]) simp
  moreover have "hw_wire (eth_form (hw_get h m))" for h
    using length_pack_hw [OF assms, of h] by (simp add: eth_form_def hw_wire_def eth_ok_def)
  ultimately show ?thesis by (simp add: match_ok_def wire_form_def wire_slots_def)
qed

text \<open>A match that the wire reproduces exactly.\<close>

definition match_wire :: "bool \<Rightarrow> ofp_match \<Rightarrow> bool" where
  "match_wire fm m \<longleftrightarrow> match_ok m \<and> wire_form fm m = m"

lemma match_wire_unpack [codec]:
  "match_wire fm m \<Longrightarrow> ofp_match_pack as fm m = Inr b \<Longrightarrow> ofp_match_unpack fm self (b @ r) = Inr (m, r)"
  unfolding match_wire_def by (metis ofp_match_unpack_pack)

lemma match_wire_length: "match_wire fm m \<Longrightarrow> ofp_match_pack as fm m = Inr b \<Longrightarrow> length b = 40"
  unfolding match_wire_def by (metis ofp_match_pack_length)

end
