(* ===== verification/OF_Structs.thy ===== *)
theory OF_Structs
  imports OF_Match
begin

text \<open>
  The fixed-size structures of \<^verbatim>\<open>libopenflow_01.py\<close> section 2: ports, queues and queue properties.
  Every class gives a record, \<^verbatim>\<open>__init__\<close> (the keyword arguments are a function \<open>kw\<close> on the
  defaults), \<^verbatim>\<open>_assert\<close>, \<^verbatim>\<open>pack\<close>, \<^verbatim>\<open>unpack\<close>, \<^verbatim>\<open>__len__\<close> and \<^verbatim>\<open>__eq__\<close>. A \<^verbatim>\<open>pack\<close> whose
  \<^verbatim>\<open>_assert\<close> failed returns \<^verbatim>\<open>None\<close>; an \<^verbatim>\<open>unpack\<close> returns the object and the rest of the buffer.
\<close>

text \<open>The \<^verbatim>\<open>_assert\<close> of the classes that have nothing to check.\<close>

definition assert_true :: "'a \<Rightarrow> bool \<times> string option" where
  "assert_true self = (True, None)"

lemma assert_true_simps [simp]: "fst (assert_true self) = True"
  by (simp add: assert_true_def)

subsection \<open>ofp\_phy\_port\<close>

record ofp_phy_port =
  pp_port_no :: int
  pp_hw_addr :: hw
  pp_name :: string
  pp_config :: int
  pp_state :: int
  pp_curr :: int
  pp_advertised :: int
  pp_supported :: int
  pp_peer :: int

definition ofp_phy_port_init :: "(ofp_phy_port \<Rightarrow> ofp_phy_port) \<Rightarrow> ofp_phy_port" where
  "ofp_phy_port_init kw =
     kw \<lparr>pp_port_no = 0, pp_hw_addr = HwEth EMPTY_ETH, pp_name = '''', pp_config = 0,
      pp_state = 0, pp_curr = 0, pp_advertised = 0, pp_supported = 0, pp_peer = 0\<rparr>"

definition ofp_phy_port_assert :: "ofp_phy_port \<Rightarrow> bool \<times> string option" where
  "ofp_phy_port_assert self =
     (if hw_len (pp_hw_addr self) \<noteq> 6 then (False, Some ''hw_addr is not of size 6'')
      else if length (pp_name self) > 16 then (False, Some ''name is not of size 16'')
      else (True, None))"

definition ofp_phy_port_pack :: "bool \<Rightarrow> ofp_phy_port \<Rightarrow> bytes option result" where
  "ofp_phy_port_pack assertstruct self =
     (if assertstruct \<and> \<not> fst (ofp_phy_port_assert self) then Inr None
      else packed [
        struct_pack ''!H'' [pp_port_no self],
        Inr (hw_raw (pp_hw_addr self)),
        Inr (ljust 16 (pp_name self)),
        struct_pack ''!LLLLLL'' [pp_config self, pp_state self, pp_curr self, pp_advertised self, pp_supported self,
          pp_peer self]])"

definition ofp_phy_port_unpack :: "ofp_phy_port \<Rightarrow> bytes \<Rightarrow> (ofp_phy_port \<times> bytes) result" where
  "ofp_phy_port_unpack self b =
     (if length b < 48 then Inr (self, b)
      else bindE (struct_unpack_from ''!H'' b 0) (\<lambda>v.
        bindE (EthAddr_init (EaStr (slice 2 8 b))) (\<lambda>e.
        bindE (struct_unpack_from ''!LLLLLL'' b 24) (\<lambda>w.
        Inr (self\<lparr>pp_port_no := v ! 0, pp_hw_addr := HwEth e, pp_name := strip_nul (slice 8 24 b),
          pp_config := w ! 0, pp_state := w ! 1, pp_curr := w ! 2, pp_advertised := w ! 3,
          pp_supported := w ! 4, pp_peer := w ! 5\<rparr>, drop 48 b)))))"

definition ofp_phy_port_len :: nat where
  "ofp_phy_port_len = 48"

definition ofp_phy_port_eq :: "ofp_phy_port \<Rightarrow> ofp_phy_port \<Rightarrow> bool" where
  "ofp_phy_port_eq self other \<longleftrightarrow>
     pp_port_no self = pp_port_no other \<and>
     hw_cmp_eq (Some (pp_hw_addr self)) (Some (pp_hw_addr other)) \<and>
     pp_name self = pp_name other \<and> pp_config self = pp_config other \<and>
     pp_state self = pp_state other \<and> pp_curr self = pp_curr other \<and>
     pp_advertised self = pp_advertised other \<and>
     pp_supported self = pp_supported other \<and> pp_peer self = pp_peer other"

text \<open>A port that the wire reproduces: a full address and a name that fits and has no zero byte.\<close>

definition ofp_phy_port_wf :: "ofp_phy_port \<Rightarrow> bool" where
  "ofp_phy_port_wf p \<longleftrightarrow> hw_text_safe (pp_hw_addr p) \<and> length (pp_name p) \<le> 16 \<and> NUL \<notin> set (pp_name p)"

interpretation phy_port: wire_struct ofp_phy_port_pack ofp_phy_port_unpack ofp_phy_port_wf ofp_phy_port_len
  by unfold_locales
    (auto simp: ofp_phy_port_wf_def ofp_phy_port_pack_def ofp_phy_port_unpack_def ofp_phy_port_len_def
      codec struct_pack_length strip_nul_id simp del: EthAddr_init.simps split: if_splits)

subsection \<open>Queues\<close>

record ofp_queue_prop_header =
  qph_property :: int
  qph_length :: int

definition ofp_queue_prop_header_init :: "(ofp_queue_prop_header \<Rightarrow> ofp_queue_prop_header) \<Rightarrow> ofp_queue_prop_header" where
  "ofp_queue_prop_header_init kw =
     kw \<lparr>qph_property = 0, qph_length = 8\<rparr>"

definition ofp_queue_prop_header_pack :: "bool \<Rightarrow> ofp_queue_prop_header \<Rightarrow> bytes option result" where
  "ofp_queue_prop_header_pack assertstruct self =
     (if assertstruct \<and> \<not> fst (assert_true self) then Inr None
      else packed [
        struct_pack ''!HH'' [qph_property self, qph_length self],
        Inr (PAD 4)])"

definition ofp_queue_prop_header_unpack :: "ofp_queue_prop_header \<Rightarrow> bytes \<Rightarrow> (ofp_queue_prop_header \<times> bytes) result" where
  "ofp_queue_prop_header_unpack self b =
     (if length b < 8 then Inr (self, b)
      else bindE (struct_unpack_from ''!HH'' b 0) (\<lambda>v.
        Inr (self\<lparr>qph_property := v ! 0, qph_length := v ! 1\<rparr>, drop 8 b)))"

definition ofp_queue_prop_header_len :: nat where
  "ofp_queue_prop_header_len = 8"

definition ofp_queue_prop_header_eq :: "ofp_queue_prop_header \<Rightarrow> ofp_queue_prop_header \<Rightarrow> bool" where
  "ofp_queue_prop_header_eq self other \<longleftrightarrow>
     qph_property self = qph_property other \<and> qph_length self = qph_length other"

interpretation queue_prop_header: wire_struct ofp_queue_prop_header_pack ofp_queue_prop_header_unpack
    "\<lambda>_. True" ofp_queue_prop_header_len
  by unfold_locales
    (auto simp: ofp_queue_prop_header_pack_def ofp_queue_prop_header_unpack_def ofp_queue_prop_header_len_def
      codec struct_pack_length)

record ofp_queue_prop_min_rate =
  qpm_prop_header :: ofp_queue_prop_header
  qpm_rate :: int

definition ofp_queue_prop_min_rate_init :: "(ofp_queue_prop_min_rate \<Rightarrow> ofp_queue_prop_min_rate) \<Rightarrow> ofp_queue_prop_min_rate" where
  "ofp_queue_prop_min_rate_init kw =
     kw \<lparr>qpm_prop_header = ofp_queue_prop_header_init id, qpm_rate = 0\<rparr>"

text \<open>\<^verbatim>\<open>_assert\<close> checks the type of \<^verbatim>\<open>prop_header\<close>, which the record fixes.\<close>

definition ofp_queue_prop_min_rate_pack :: "bool \<Rightarrow> ofp_queue_prop_min_rate \<Rightarrow> bytes option result" where
  "ofp_queue_prop_min_rate_pack assertstruct self =
     (if assertstruct \<and> \<not> fst (assert_true self) then Inr None
      else packed [
        needE (ofp_queue_prop_header_pack True (qpm_prop_header self)),
        struct_pack ''!H'' [qpm_rate self],
        Inr (PAD 6)])"

definition ofp_queue_prop_min_rate_unpack :: "ofp_queue_prop_min_rate \<Rightarrow> bytes \<Rightarrow> (ofp_queue_prop_min_rate \<times> bytes) result" where
  "ofp_queue_prop_min_rate_unpack self b =
     (if length b < 16 then Inr (self, b)
      else bindE (ofp_queue_prop_header_unpack (qpm_prop_header self) b) (\<lambda>(h, _).
        bindE (struct_unpack_from ''!H'' b 8) (\<lambda>v.
        Inr (self\<lparr>qpm_prop_header := h, qpm_rate := v ! 0\<rparr>, drop 16 b))))"

definition ofp_queue_prop_min_rate_len :: nat where
  "ofp_queue_prop_min_rate_len = 16"

definition ofp_queue_prop_min_rate_eq :: "ofp_queue_prop_min_rate \<Rightarrow> ofp_queue_prop_min_rate \<Rightarrow> bool" where
  "ofp_queue_prop_min_rate_eq self other \<longleftrightarrow>
     ofp_queue_prop_header_eq (qpm_prop_header self) (qpm_prop_header other) \<and>
     qpm_rate self = qpm_rate other"

interpretation queue_prop_min_rate: wire_struct ofp_queue_prop_min_rate_pack ofp_queue_prop_min_rate_unpack
    "\<lambda>_. True" ofp_queue_prop_min_rate_len
  by unfold_locales
    (auto simp: ofp_queue_prop_min_rate_pack_def ofp_queue_prop_min_rate_unpack_def
      ofp_queue_prop_min_rate_len_def queue_prop_header.unpack_pack [OF TrueI]
      queue_prop_header.pack_size [unfolded ofp_queue_prop_header_len_def] codec struct_pack_length)

datatype queue_prop =
    QpHeader ofp_queue_prop_header
  | QpMinRate ofp_queue_prop_min_rate

fun queue_prop_pack :: "bool \<Rightarrow> queue_prop \<Rightarrow> bytes option result" where
  "queue_prop_pack assertstruct (QpHeader p) = ofp_queue_prop_header_pack assertstruct p"
| "queue_prop_pack assertstruct (QpMinRate p) = ofp_queue_prop_min_rate_pack assertstruct p"

fun queue_prop_len :: "queue_prop \<Rightarrow> nat" where
  "queue_prop_len (QpHeader p) = ofp_queue_prop_header_len"
| "queue_prop_len (QpMinRate p) = ofp_queue_prop_min_rate_len"

fun queue_prop_eq :: "queue_prop \<Rightarrow> queue_prop \<Rightarrow> bool" where
  "queue_prop_eq (QpHeader p) (QpHeader q) = ofp_queue_prop_header_eq p q"
| "queue_prop_eq (QpMinRate p) (QpMinRate q) = ofp_queue_prop_min_rate_eq p q"
| "queue_prop_eq _ _ = False"

record ofp_packet_queue =
  pq_queue_id :: int
  pq_length :: int
  pq_properties :: "queue_prop list"

definition ofp_packet_queue_init :: "(ofp_packet_queue \<Rightarrow> ofp_packet_queue) \<Rightarrow> ofp_packet_queue" where
  "ofp_packet_queue_init kw =
     kw \<lparr>pq_queue_id = 0, pq_length = 0, pq_properties = []\<rparr>"

definition ofp_packet_queue_pack :: "bool \<Rightarrow> ofp_packet_queue \<Rightarrow> bytes option result" where
  "ofp_packet_queue_pack assertstruct self =
     (if assertstruct \<and> \<not> fst (assert_true self) then Inr None
      else packed [
        struct_pack ''!LH'' [pq_queue_id self, pq_length self],
        Inr (PAD 2),
        concatE (map (\<lambda>i. needE (queue_prop_pack assertstruct i)) (pq_properties self))])"

text \<open>\<^verbatim>\<open>unpack\<close> reads the header only and leaves the properties in the buffer.\<close>

definition ofp_packet_queue_unpack :: "ofp_packet_queue \<Rightarrow> bytes \<Rightarrow> (ofp_packet_queue \<times> bytes) result" where
  "ofp_packet_queue_unpack self b =
     (if length b < 8 then Inr (self, b)
      else bindE (struct_unpack_from ''!LH'' b 0) (\<lambda>v.
        Inr (self\<lparr>pq_queue_id := v ! 0, pq_length := v ! 1\<rparr>, drop 8 b)))"

definition ofp_packet_queue_len :: "ofp_packet_queue \<Rightarrow> nat" where
  "ofp_packet_queue_len self = 8 + sum_list (map queue_prop_len (pq_properties self))"

definition ofp_packet_queue_eq :: "ofp_packet_queue \<Rightarrow> ofp_packet_queue \<Rightarrow> bool" where
  "ofp_packet_queue_eq self other \<longleftrightarrow>
     pq_queue_id self = pq_queue_id other \<and> pq_length self = pq_length other \<and>
     list_all2 queue_prop_eq (pq_properties self) (pq_properties other)"

lemma queue_prop_pack_length: "queue_prop_pack as p = Inr (Some b) \<Longrightarrow> length b = queue_prop_len p"
  by (cases p) (simp_all add: queue_prop_header.pack_size queue_prop_min_rate.pack_size)

lemma queue_props_pack_length:
  "concatE (map (\<lambda>i. needE (queue_prop_pack as i)) ps) = Inr b \<Longrightarrow> length b = sum_list (map queue_prop_len ps)"
  by (induction ps arbitrary: b) (auto simp: codec queue_prop_pack_length)

text \<open>The length is right; what is read back has no properties, and they stay in the buffer.\<close>

lemma packet_queue_pack_length:
  "ofp_packet_queue_pack as q = Inr (Some b) \<Longrightarrow> length b = ofp_packet_queue_len q"
  by (auto simp: ofp_packet_queue_pack_def ofp_packet_queue_len_def codec struct_pack_length
      queue_props_pack_length)

lemma packet_queue_unpack_pack:
  assumes "ofp_packet_queue_pack as q = Inr (Some b)"
  shows "\<exists>rest. length rest = ofp_packet_queue_len q - 8 \<and>
    ofp_packet_queue_unpack s (b @ r) =
      Inr (s\<lparr>pq_queue_id := pq_queue_id q, pq_length := pq_length q\<rparr>, rest @ r)"
  using assms
  by (auto simp: ofp_packet_queue_pack_def ofp_packet_queue_unpack_def ofp_packet_queue_len_def codec
      struct_pack_length queue_props_pack_length)

end
