(* ===== verification/OF_Actions.thy ===== *)
theory OF_Actions
  imports OF_Structs
begin

text \<open>
  The actions of \<^verbatim>\<open>libopenflow_01.py\<close> section 2.4: one record per class with its operations, the sum
  \<^theory_text>\<open>ofp_action\<close> of the classes with its dynamically dispatched operations, and \<^verbatim>\<open>_unpack_actions\<close>,
  which reads a list of actions from a buffer.
\<close>

subsection \<open>ofp\_action\_header\<close>

record ofp_action_header =
  ah_type :: "int option"
  ah_length :: int
  ah_data :: bytes

definition ofp_action_header_init :: "(ofp_action_header \<Rightarrow> ofp_action_header) \<Rightarrow> ofp_action_header" where
  "ofp_action_header_init kw =
     kw \<lparr>ah_type = None, ah_length = 8, ah_data = ''''\<rparr>"

definition ofp_action_header_pack :: "bool \<Rightarrow> ofp_action_header \<Rightarrow> bytes option result" where
  "ofp_action_header_pack assertstruct self =
     (if assertstruct \<and> \<not> fst (assert_true self) then Inr None
      else packed [
        bindE (int_arg (ah_type self)) (\<lambda>t. struct_pack ''!HH'' [t, ah_length self]),
        Inr (PAD 4)])"

text \<open>The data is \<^verbatim>\<open>length\<close> bytes from offset 8 on, whatever follows the action in the buffer.\<close>

definition ofp_action_header_unpack ::
    "ofp_action_header \<Rightarrow> bytes \<Rightarrow> (ofp_action_header \<times> bytes) result" where
  "ofp_action_header_unpack self b =
     (if length b < 8 then Inr (self, b)
      else bindE (struct_unpack_from ''!HH'' b 0) (\<lambda>v.
        let self = self\<lparr>ah_type := Some (v ! 0), ah_length := v ! 1\<rparr>
        in if int (length b) < v ! 1 then Inr (self, b)
           else Inr (self\<lparr>ah_data := slice_int 8 (8 + v ! 1) b\<rparr>, drop_int (v ! 1) b)))"

definition ofp_action_header_len :: "ofp_action_header \<Rightarrow> int" where
  "ofp_action_header_len self = ah_length self"

definition ofp_action_header_eq :: "ofp_action_header \<Rightarrow> ofp_action_header \<Rightarrow> bool" where
  "ofp_action_header_eq self other \<longleftrightarrow>
     ah_type self = ah_type other \<and> ah_length self = ah_length other"

text \<open>Two subclasses only fix the type, after the keyword arguments.\<close>

definition ofp_action_mpls_dec_ttl_init :: "(ofp_action_header \<Rightarrow> ofp_action_header) \<Rightarrow> ofp_action_header" where
  "ofp_action_mpls_dec_ttl_init kw = (ofp_action_header_init kw)\<lparr>ah_type := Some OFPAT_DEC_MPLS_TTL\<rparr>"

definition ofp_action_resubmit_init :: "(ofp_action_header \<Rightarrow> ofp_action_header) \<Rightarrow> ofp_action_header" where
  "ofp_action_resubmit_init kw = (ofp_action_header_init kw)\<lparr>ah_type := Some OFPAT_RESUBMIT\<rparr>"

subsection \<open>ofp\_action\_output\<close>

record ofp_action_output =
  ao_type :: int
  ao_length :: int
  ao_port :: "int option"
  ao_max_len :: int

definition ofp_action_output_init :: "(ofp_action_output \<Rightarrow> ofp_action_output) \<Rightarrow> ofp_action_output" where
  "ofp_action_output_init kw =
     kw \<lparr>ao_type = OFPAT_OUTPUT, ao_length = 8, ao_port = None, ao_max_len = 0xffff\<rparr>"

text \<open>Packing resets \<^verbatim>\<open>max_len\<close> on the object unless the port is the controller.\<close>

definition ofp_action_output_pack ::
    "bool \<Rightarrow> ofp_action_output \<Rightarrow> (bytes option \<times> ofp_action_output) result" where
  "ofp_action_output_pack assertstruct self =
     (let self = (if ao_port self \<noteq> Some OFPP_CONTROLLER then self\<lparr>ao_max_len := 0\<rparr> else self)
      in if assertstruct \<and> \<not> fst (assert_true self) then Inr (None, self)
         else bindE (packed [
             bindE (int_arg (ao_port self)) (\<lambda>p.
               struct_pack ''!HHHH'' [ao_type self, ao_length self, p, ao_max_len self])])
           (\<lambda>b. Inr (b, self)))"

definition ofp_action_output_unpack :: "ofp_action_output \<Rightarrow> bytes \<Rightarrow> (ofp_action_output \<times> bytes) result" where
  "ofp_action_output_unpack self b =
     (if length b < 8 then Inr (self, b)
      else bindE (struct_unpack_from ''!HHHH'' b 0) (\<lambda>v.
        Inr (self\<lparr>ao_type := v ! 0, ao_length := v ! 1, ao_port := Some (v ! 2), ao_max_len := v ! 3\<rparr>, drop 8 b)))"

definition ofp_action_output_len :: nat where
  "ofp_action_output_len = 8"

definition ofp_action_output_eq :: "ofp_action_output \<Rightarrow> ofp_action_output \<Rightarrow> bool" where
  "ofp_action_output_eq self other \<longleftrightarrow>
     ao_type self = ao_type other \<and> ao_length self = ao_length other \<and>
     ao_port self = ao_port other \<and> ao_max_len self = ao_max_len other"

text \<open>Pad bytes in a format are zero bytes appended to the rest.\<close>

lemma struct_pack_xs [simp]:
  "struct_pack ''!HHHxx'' [a, b, c] = bindE (struct_pack ''!HHH'' [a, b, c]) (\<lambda>s. Inr (s @ PAD 2))"
  "struct_pack ''!HHBxxx'' [a, b, c] = bindE (struct_pack ''!HHB'' [a, b, c]) (\<lambda>s. Inr (s @ PAD 3))"
  by (simp_all add: struct_pack.simps PAD_def bindE_def numeral_eq_Suc)

subsection \<open>ofp\_action\_enqueue\<close>

record ofp_action_enqueue =
  aq_type :: int
  aq_length :: int
  aq_port :: int
  aq_queue_id :: int

definition ofp_action_enqueue_init :: "(ofp_action_enqueue \<Rightarrow> ofp_action_enqueue) \<Rightarrow> ofp_action_enqueue" where
  "ofp_action_enqueue_init kw =
     kw \<lparr>aq_type = OFPAT_ENQUEUE, aq_length = 16, aq_port = 0, aq_queue_id = 0\<rparr>"

definition ofp_action_enqueue_pack :: "bool \<Rightarrow> ofp_action_enqueue \<Rightarrow> bytes option result" where
  "ofp_action_enqueue_pack assertstruct self =
     (if assertstruct \<and> \<not> fst (assert_true self) then Inr None
      else packed [
        struct_pack ''!HHH'' [aq_type self, aq_length self, aq_port self],
        Inr (PAD 6),
        struct_pack ''!L'' [aq_queue_id self]])"

definition ofp_action_enqueue_unpack :: "ofp_action_enqueue \<Rightarrow> bytes \<Rightarrow> (ofp_action_enqueue \<times> bytes) result" where
  "ofp_action_enqueue_unpack self b =
     (if length b < 16 then Inr (self, b)
      else bindE (struct_unpack_from ''!HHH'' b 0) (\<lambda>v.
        bindE (struct_unpack_from ''!L'' b 12) (\<lambda>w.
        Inr (self\<lparr>aq_type := v ! 0, aq_length := v ! 1, aq_port := v ! 2, aq_queue_id := w ! 0\<rparr>, drop 16 b))))"

definition ofp_action_enqueue_len :: nat where
  "ofp_action_enqueue_len = 16"

definition ofp_action_enqueue_eq :: "ofp_action_enqueue \<Rightarrow> ofp_action_enqueue \<Rightarrow> bool" where
  "ofp_action_enqueue_eq self other \<longleftrightarrow>
     aq_type self = aq_type other \<and> aq_length self = aq_length other \<and>
     aq_port self = aq_port other \<and> aq_queue_id self = aq_queue_id other"

interpretation act_enqueue: wire_struct ofp_action_enqueue_pack ofp_action_enqueue_unpack
    "\<lambda>_. True" 16
  by unfold_locales
    (auto simp: ofp_action_enqueue_pack_def ofp_action_enqueue_unpack_def codec struct_pack_length)

subsection \<open>ofp\_action\_push\_mpls\<close>

record ofp_action_push_mpls =
  apm_type :: int
  apm_length :: int
  apm_ethertype :: int

definition ofp_action_push_mpls_init :: "(ofp_action_push_mpls \<Rightarrow> ofp_action_push_mpls) \<Rightarrow> ofp_action_push_mpls" where
  "ofp_action_push_mpls_init kw =
     kw \<lparr>apm_type = OFPAT_PUSH_MPLS, apm_length = 8, apm_ethertype = 0x8847\<rparr>"

definition ofp_action_push_mpls_assert :: "ofp_action_push_mpls \<Rightarrow> bool \<times> string option" where
  "ofp_action_push_mpls_assert self = (apm_ethertype self = 0x8847 \<or> apm_ethertype self = 0x8848, None)"

text \<open>
  In the MPLS actions the packing itself is under \<^verbatim>\<open>if assertstruct\<close>: without it nothing is returned.
\<close>

definition ofp_action_push_mpls_pack :: "bool \<Rightarrow> ofp_action_push_mpls \<Rightarrow> bytes option result" where
  "ofp_action_push_mpls_pack assertstruct self =
     (if \<not> assertstruct \<or> \<not> fst (ofp_action_push_mpls_assert self) then Inr None
      else packed [
        struct_pack ''!HHHxx'' [apm_type self, apm_length self, apm_ethertype self]])"

definition ofp_action_push_mpls_unpack :: "ofp_action_push_mpls \<Rightarrow> bytes \<Rightarrow> (ofp_action_push_mpls \<times> bytes) result" where
  "ofp_action_push_mpls_unpack self b =
     (if length b < 8 then Inr (self, b)
      else bindE (struct_unpack_from ''!HHH'' b 0) (\<lambda>v.
        Inr (self\<lparr>apm_type := v ! 0, apm_length := v ! 1, apm_ethertype := v ! 2\<rparr>, drop 8 b)))"

definition ofp_action_push_mpls_len :: "ofp_action_push_mpls \<Rightarrow> int" where
  "ofp_action_push_mpls_len self = apm_length self"

definition ofp_action_push_mpls_eq :: "ofp_action_push_mpls \<Rightarrow> ofp_action_push_mpls \<Rightarrow> bool" where
  "ofp_action_push_mpls_eq self other \<longleftrightarrow>
     apm_type self = apm_type other \<and> apm_length self = apm_length other \<and>
     apm_ethertype self = apm_ethertype other"

interpretation act_push_mpls: wire_struct ofp_action_push_mpls_pack ofp_action_push_mpls_unpack
    "\<lambda>_. True" 8
  by unfold_locales
    (auto simp: ofp_action_push_mpls_pack_def ofp_action_push_mpls_unpack_def codec
      struct_pack_length struct_pack_xs split: if_splits)

subsection \<open>ofp\_action\_mpls\_label\<close>

record ofp_action_mpls_label =
  aml_type :: int
  aml_length :: int
  aml_mpls_label :: int

definition ofp_action_mpls_label_init :: "(ofp_action_mpls_label \<Rightarrow> ofp_action_mpls_label) \<Rightarrow> ofp_action_mpls_label" where
  "ofp_action_mpls_label_init kw =
     kw \<lparr>aml_type = OFPAT_SET_MPLS_LABEL, aml_length = 8, aml_mpls_label = 0\<rparr>"

definition ofp_action_mpls_label_pack :: "bool \<Rightarrow> ofp_action_mpls_label \<Rightarrow> bytes option result" where
  "ofp_action_mpls_label_pack assertstruct self =
     (if \<not> assertstruct \<or> \<not> fst (assert_true self) then Inr None
      else packed [
        struct_pack ''!HHI'' [aml_type self, aml_length self, aml_mpls_label self]])"

definition ofp_action_mpls_label_unpack :: "ofp_action_mpls_label \<Rightarrow> bytes \<Rightarrow> (ofp_action_mpls_label \<times> bytes) result" where
  "ofp_action_mpls_label_unpack self b =
     (if length b < 8 then Inr (self, b)
      else bindE (struct_unpack_from ''!HHI'' b 0) (\<lambda>v.
        Inr (self\<lparr>aml_type := v ! 0, aml_length := v ! 1, aml_mpls_label := v ! 2\<rparr>, drop 8 b)))"

definition ofp_action_mpls_label_len :: "ofp_action_mpls_label \<Rightarrow> int" where
  "ofp_action_mpls_label_len self = aml_length self"

definition ofp_action_mpls_label_eq :: "ofp_action_mpls_label \<Rightarrow> ofp_action_mpls_label \<Rightarrow> bool" where
  "ofp_action_mpls_label_eq self other \<longleftrightarrow>
     aml_type self = aml_type other \<and> aml_length self = aml_length other \<and>
     aml_mpls_label self = aml_mpls_label other"

interpretation act_mpls_label: wire_struct ofp_action_mpls_label_pack ofp_action_mpls_label_unpack
    "\<lambda>_. True" 8
  by unfold_locales
    (auto simp: ofp_action_mpls_label_pack_def ofp_action_mpls_label_unpack_def codec
      struct_pack_length struct_pack_xs split: if_splits)

subsection \<open>ofp\_action\_mpls\_tc\<close>

record ofp_action_mpls_tc =
  amc_type :: int
  amc_length :: int
  amc_mpls_tc :: int

definition ofp_action_mpls_tc_init :: "(ofp_action_mpls_tc \<Rightarrow> ofp_action_mpls_tc) \<Rightarrow> ofp_action_mpls_tc" where
  "ofp_action_mpls_tc_init kw =
     kw \<lparr>amc_type = OFPAT_SET_MPLS_TC, amc_length = 8, amc_mpls_tc = 0\<rparr>"

definition ofp_action_mpls_tc_pack :: "bool \<Rightarrow> ofp_action_mpls_tc \<Rightarrow> bytes option result" where
  "ofp_action_mpls_tc_pack assertstruct self =
     (if \<not> assertstruct \<or> \<not> fst (assert_true self) then Inr None
      else packed [
        struct_pack ''!HHBxxx'' [amc_type self, amc_length self, amc_mpls_tc self]])"

definition ofp_action_mpls_tc_unpack :: "ofp_action_mpls_tc \<Rightarrow> bytes \<Rightarrow> (ofp_action_mpls_tc \<times> bytes) result" where
  "ofp_action_mpls_tc_unpack self b =
     (if length b < 8 then Inr (self, b)
      else bindE (struct_unpack_from ''!HHB'' b 0) (\<lambda>v.
        Inr (self\<lparr>amc_type := v ! 0, amc_length := v ! 1, amc_mpls_tc := v ! 2\<rparr>, drop 8 b)))"

definition ofp_action_mpls_tc_len :: "ofp_action_mpls_tc \<Rightarrow> int" where
  "ofp_action_mpls_tc_len self = amc_length self"

definition ofp_action_mpls_tc_eq :: "ofp_action_mpls_tc \<Rightarrow> ofp_action_mpls_tc \<Rightarrow> bool" where
  "ofp_action_mpls_tc_eq self other \<longleftrightarrow>
     amc_type self = amc_type other \<and> amc_length self = amc_length other \<and>
     amc_mpls_tc self = amc_mpls_tc other"

interpretation act_mpls_tc: wire_struct ofp_action_mpls_tc_pack ofp_action_mpls_tc_unpack
    "\<lambda>_. True" 8
  by unfold_locales
    (auto simp: ofp_action_mpls_tc_pack_def ofp_action_mpls_tc_unpack_def codec
      struct_pack_length struct_pack_xs split: if_splits)

subsection \<open>ofp\_action\_mpls\_ttl\<close>

record ofp_action_mpls_ttl =
  amt_type :: int
  amt_length :: int
  amt_mpls_ttl :: int

definition ofp_action_mpls_ttl_init :: "(ofp_action_mpls_ttl \<Rightarrow> ofp_action_mpls_ttl) \<Rightarrow> ofp_action_mpls_ttl" where
  "ofp_action_mpls_ttl_init kw =
     kw \<lparr>amt_type = OFPAT_SET_MPLS_TTL, amt_length = 8, amt_mpls_ttl = 0\<rparr>"

definition ofp_action_mpls_ttl_pack :: "bool \<Rightarrow> ofp_action_mpls_ttl \<Rightarrow> bytes option result" where
  "ofp_action_mpls_ttl_pack assertstruct self =
     (if \<not> assertstruct \<or> \<not> fst (assert_true self) then Inr None
      else packed [
        struct_pack ''!HHBxxx'' [amt_type self, amt_length self, amt_mpls_ttl self]])"

definition ofp_action_mpls_ttl_unpack :: "ofp_action_mpls_ttl \<Rightarrow> bytes \<Rightarrow> (ofp_action_mpls_ttl \<times> bytes) result" where
  "ofp_action_mpls_ttl_unpack self b =
     (if length b < 8 then Inr (self, b)
      else bindE (struct_unpack_from ''!HHB'' b 0) (\<lambda>v.
        Inr (self\<lparr>amt_type := v ! 0, amt_length := v ! 1, amt_mpls_ttl := v ! 2\<rparr>, drop 8 b)))"

definition ofp_action_mpls_ttl_len :: "ofp_action_mpls_ttl \<Rightarrow> int" where
  "ofp_action_mpls_ttl_len self = amt_length self"

definition ofp_action_mpls_ttl_eq :: "ofp_action_mpls_ttl \<Rightarrow> ofp_action_mpls_ttl \<Rightarrow> bool" where
  "ofp_action_mpls_ttl_eq self other \<longleftrightarrow>
     amt_type self = amt_type other \<and> amt_length self = amt_length other \<and>
     amt_mpls_ttl self = amt_mpls_ttl other"

interpretation act_mpls_ttl: wire_struct ofp_action_mpls_ttl_pack ofp_action_mpls_ttl_unpack
    "\<lambda>_. True" 8
  by unfold_locales
    (auto simp: ofp_action_mpls_ttl_pack_def ofp_action_mpls_ttl_unpack_def codec
      struct_pack_length struct_pack_xs split: if_splits)

subsection \<open>ofp\_action\_pop\_mpls\<close>

record ofp_action_pop_mpls =
  app_type :: int
  app_length :: int
  app_ethertype :: int

definition ofp_action_pop_mpls_init :: "(ofp_action_pop_mpls \<Rightarrow> ofp_action_pop_mpls) \<Rightarrow> ofp_action_pop_mpls" where
  "ofp_action_pop_mpls_init kw =
     kw \<lparr>app_type = OFPAT_POP_MPLS, app_length = 8, app_ethertype = 0\<rparr>"

definition ofp_action_pop_mpls_pack :: "bool \<Rightarrow> ofp_action_pop_mpls \<Rightarrow> bytes option result" where
  "ofp_action_pop_mpls_pack assertstruct self =
     (if \<not> assertstruct \<or> \<not> fst (assert_true self) then Inr None
      else packed [
        struct_pack ''!HHHxx'' [app_type self, app_length self, app_ethertype self]])"

definition ofp_action_pop_mpls_unpack :: "ofp_action_pop_mpls \<Rightarrow> bytes \<Rightarrow> (ofp_action_pop_mpls \<times> bytes) result" where
  "ofp_action_pop_mpls_unpack self b =
     (if length b < 8 then Inr (self, b)
      else bindE (struct_unpack_from ''!HHH'' b 0) (\<lambda>v.
        Inr (self\<lparr>app_type := v ! 0, app_length := v ! 1, app_ethertype := v ! 2\<rparr>, drop 8 b)))"

definition ofp_action_pop_mpls_len :: "ofp_action_pop_mpls \<Rightarrow> int" where
  "ofp_action_pop_mpls_len self = app_length self"

definition ofp_action_pop_mpls_eq :: "ofp_action_pop_mpls \<Rightarrow> ofp_action_pop_mpls \<Rightarrow> bool" where
  "ofp_action_pop_mpls_eq self other \<longleftrightarrow>
     app_type self = app_type other \<and> app_length self = app_length other \<and>
     app_ethertype self = app_ethertype other"

interpretation act_pop_mpls: wire_struct ofp_action_pop_mpls_pack ofp_action_pop_mpls_unpack
    "\<lambda>_. True" 8
  by unfold_locales
    (auto simp: ofp_action_pop_mpls_pack_def ofp_action_pop_mpls_unpack_def codec
      struct_pack_length struct_pack_xs split: if_splits)

subsection \<open>ofp\_action\_vlan\_vid\<close>

record ofp_action_vlan_vid =
  avv_type :: int
  avv_length :: int
  avv_vlan_vid :: int

definition ofp_action_vlan_vid_init :: "(ofp_action_vlan_vid \<Rightarrow> ofp_action_vlan_vid) \<Rightarrow> ofp_action_vlan_vid" where
  "ofp_action_vlan_vid_init kw =
     kw \<lparr>avv_type = OFPAT_SET_VLAN_VID, avv_length = 8, avv_vlan_vid = 0\<rparr>"

definition ofp_action_vlan_vid_pack :: "bool \<Rightarrow> ofp_action_vlan_vid \<Rightarrow> bytes option result" where
  "ofp_action_vlan_vid_pack assertstruct self =
     (if assertstruct \<and> \<not> fst (assert_true self) then Inr None
      else packed [
        struct_pack ''!HHH'' [avv_type self, avv_length self, avv_vlan_vid self],
        Inr (PAD 2)])"

definition ofp_action_vlan_vid_unpack :: "ofp_action_vlan_vid \<Rightarrow> bytes \<Rightarrow> (ofp_action_vlan_vid \<times> bytes) result" where
  "ofp_action_vlan_vid_unpack self b =
     (if length b < 8 then Inr (self, b)
      else bindE (struct_unpack_from ''!HHH'' b 0) (\<lambda>v.
        Inr (self\<lparr>avv_type := v ! 0, avv_length := v ! 1, avv_vlan_vid := v ! 2\<rparr>, drop 8 b)))"

definition ofp_action_vlan_vid_len :: nat where
  "ofp_action_vlan_vid_len = 8"

definition ofp_action_vlan_vid_eq :: "ofp_action_vlan_vid \<Rightarrow> ofp_action_vlan_vid \<Rightarrow> bool" where
  "ofp_action_vlan_vid_eq self other \<longleftrightarrow>
     avv_type self = avv_type other \<and> avv_length self = avv_length other \<and>
     avv_vlan_vid self = avv_vlan_vid other"

interpretation act_vlan_vid: wire_struct ofp_action_vlan_vid_pack ofp_action_vlan_vid_unpack
    "\<lambda>_. True" 8
  by unfold_locales
    (auto simp: ofp_action_vlan_vid_pack_def ofp_action_vlan_vid_unpack_def codec
      struct_pack_length struct_pack_xs split: if_splits)

subsection \<open>ofp\_action\_vlan\_pcp\<close>

record ofp_action_vlan_pcp =
  avp_type :: int
  avp_length :: int
  avp_vlan_pcp :: int

definition ofp_action_vlan_pcp_init :: "(ofp_action_vlan_pcp \<Rightarrow> ofp_action_vlan_pcp) \<Rightarrow> ofp_action_vlan_pcp" where
  "ofp_action_vlan_pcp_init kw =
     kw \<lparr>avp_type = OFPAT_SET_VLAN_PCP, avp_length = 8, avp_vlan_pcp = 0\<rparr>"

definition ofp_action_vlan_pcp_pack :: "bool \<Rightarrow> ofp_action_vlan_pcp \<Rightarrow> bytes option result" where
  "ofp_action_vlan_pcp_pack assertstruct self =
     (if assertstruct \<and> \<not> fst (assert_true self) then Inr None
      else packed [
        struct_pack ''!HHB'' [avp_type self, avp_length self, avp_vlan_pcp self],
        Inr (PAD 3)])"

definition ofp_action_vlan_pcp_unpack :: "ofp_action_vlan_pcp \<Rightarrow> bytes \<Rightarrow> (ofp_action_vlan_pcp \<times> bytes) result" where
  "ofp_action_vlan_pcp_unpack self b =
     (if length b < 8 then Inr (self, b)
      else bindE (struct_unpack_from ''!HHB'' b 0) (\<lambda>v.
        Inr (self\<lparr>avp_type := v ! 0, avp_length := v ! 1, avp_vlan_pcp := v ! 2\<rparr>, drop 8 b)))"

definition ofp_action_vlan_pcp_len :: nat where
  "ofp_action_vlan_pcp_len = 8"

definition ofp_action_vlan_pcp_eq :: "ofp_action_vlan_pcp \<Rightarrow> ofp_action_vlan_pcp \<Rightarrow> bool" where
  "ofp_action_vlan_pcp_eq self other \<longleftrightarrow>
     avp_type self = avp_type other \<and> avp_length self = avp_length other \<and>
     avp_vlan_pcp self = avp_vlan_pcp other"

interpretation act_vlan_pcp: wire_struct ofp_action_vlan_pcp_pack ofp_action_vlan_pcp_unpack
    "\<lambda>_. True" 8
  by unfold_locales
    (auto simp: ofp_action_vlan_pcp_pack_def ofp_action_vlan_pcp_unpack_def codec
      struct_pack_length struct_pack_xs split: if_splits)

subsection \<open>ofp\_action\_vendor\_header\<close>

record ofp_action_vendor_header =
  avh_type :: int
  avh_length :: int
  avh_vendor :: int

definition ofp_action_vendor_header_init :: "(ofp_action_vendor_header \<Rightarrow> ofp_action_vendor_header) \<Rightarrow> ofp_action_vendor_header" where
  "ofp_action_vendor_header_init kw =
     kw \<lparr>avh_type = OFPAT_VENDOR, avh_length = 8, avh_vendor = 0\<rparr>"

definition ofp_action_vendor_header_pack :: "bool \<Rightarrow> ofp_action_vendor_header \<Rightarrow> bytes option result" where
  "ofp_action_vendor_header_pack assertstruct self =
     (if assertstruct \<and> \<not> fst (assert_true self) then Inr None
      else packed [
        struct_pack ''!HHL'' [avh_type self, avh_length self, avh_vendor self]])"

definition ofp_action_vendor_header_unpack :: "ofp_action_vendor_header \<Rightarrow> bytes \<Rightarrow> (ofp_action_vendor_header \<times> bytes) result" where
  "ofp_action_vendor_header_unpack self b =
     (if length b < 8 then Inr (self, b)
      else bindE (struct_unpack_from ''!HHL'' b 0) (\<lambda>v.
        Inr (self\<lparr>avh_type := v ! 0, avh_length := v ! 1, avh_vendor := v ! 2\<rparr>, drop 8 b)))"

definition ofp_action_vendor_header_len :: nat where
  "ofp_action_vendor_header_len = 8"

definition ofp_action_vendor_header_eq :: "ofp_action_vendor_header \<Rightarrow> ofp_action_vendor_header \<Rightarrow> bool" where
  "ofp_action_vendor_header_eq self other \<longleftrightarrow>
     avh_type self = avh_type other \<and> avh_length self = avh_length other \<and>
     avh_vendor self = avh_vendor other"

interpretation act_vendor_header: wire_struct ofp_action_vendor_header_pack ofp_action_vendor_header_unpack
    "\<lambda>_. True" 8
  by unfold_locales
    (auto simp: ofp_action_vendor_header_pack_def ofp_action_vendor_header_unpack_def codec
      struct_pack_length struct_pack_xs split: if_splits)

subsection \<open>ofp\_action\_nw\_tos\<close>

record ofp_action_nw_tos =
  ant_type :: int
  ant_length :: int
  ant_nw_tos :: int

definition ofp_action_nw_tos_init :: "int \<Rightarrow> ofp_action_nw_tos" where
  "ofp_action_nw_tos_init nw_tos = \<lparr>ant_type = OFPAT_SET_NW_TOS, ant_length = 8, ant_nw_tos = nw_tos\<rparr>"

definition ofp_action_nw_tos_pack :: "bool \<Rightarrow> ofp_action_nw_tos \<Rightarrow> bytes option result" where
  "ofp_action_nw_tos_pack assertstruct self =
     (if assertstruct \<and> \<not> fst (assert_true self) then Inr None
      else packed [
        struct_pack ''!HHB'' [ant_type self, ant_length self, ant_nw_tos self],
        Inr (PAD 3)])"

definition ofp_action_nw_tos_unpack :: "ofp_action_nw_tos \<Rightarrow> bytes \<Rightarrow> (ofp_action_nw_tos \<times> bytes) result" where
  "ofp_action_nw_tos_unpack self b =
     (if length b < 8 then Inr (self, b)
      else bindE (struct_unpack_from ''!HHB'' b 0) (\<lambda>v.
        Inr (self\<lparr>ant_type := v ! 0, ant_length := v ! 1, ant_nw_tos := v ! 2\<rparr>, drop 8 b)))"

definition ofp_action_nw_tos_len :: nat where
  "ofp_action_nw_tos_len = 8"

definition ofp_action_nw_tos_eq :: "ofp_action_nw_tos \<Rightarrow> ofp_action_nw_tos \<Rightarrow> bool" where
  "ofp_action_nw_tos_eq self other \<longleftrightarrow>
     ant_type self = ant_type other \<and> ant_length self = ant_length other \<and>
     ant_nw_tos self = ant_nw_tos other"

interpretation act_nw_tos: wire_struct ofp_action_nw_tos_pack ofp_action_nw_tos_unpack
    "\<lambda>_. True" 8
  by unfold_locales
    (auto simp: ofp_action_nw_tos_pack_def ofp_action_nw_tos_unpack_def codec struct_pack_length)

subsection \<open>ofp\_action\_dl\_addr\<close>

record ofp_action_dl_addr =
  ada_type :: "int option"
  ada_length :: int
  ada_dl_addr :: hw

definition ofp_action_dl_addr_init :: "int option \<Rightarrow> eth_arg option \<Rightarrow> ofp_action_dl_addr result" where
  "ofp_action_dl_addr_init type dl_addr =
     (let self = \<lparr>ada_type = type, ada_length = 16, ada_dl_addr = HwEth EMPTY_ETH\<rparr>
      in case dl_addr of None \<Rightarrow> Inr self
         | Some a \<Rightarrow> bindE (EthAddr_init a) (\<lambda>e. Inr (self\<lparr>ada_dl_addr := HwEth e\<rparr>)))"

definition dl_addr_set_dst :: "eth_arg option \<Rightarrow> ofp_action_dl_addr result" where
  "dl_addr_set_dst dl_addr = ofp_action_dl_addr_init (Some OFPAT_SET_DL_DST) dl_addr"

definition dl_addr_set_src :: "eth_arg option \<Rightarrow> ofp_action_dl_addr result" where
  "dl_addr_set_src dl_addr = ofp_action_dl_addr_init (Some OFPAT_SET_DL_SRC) dl_addr"

definition ofp_action_dl_addr_assert :: "ofp_action_dl_addr \<Rightarrow> bool \<times> string option" where
  "ofp_action_dl_addr_assert self =
     (case ada_dl_addr self of
        HwBytes b \<Rightarrow> if length b \<noteq> 6 then (False, Some ''dl_addr is not of size 6'') else (True, None)
      | HwEth e \<Rightarrow> (True, None))"

definition ofp_action_dl_addr_pack :: "bool \<Rightarrow> ofp_action_dl_addr \<Rightarrow> bytes option result" where
  "ofp_action_dl_addr_pack assertstruct self =
     (if assertstruct \<and> \<not> fst (ofp_action_dl_addr_assert self) then Inr None
      else packed [
        bindE (int_arg (ada_type self)) (\<lambda>t. struct_pack ''!HH'' [t, ada_length self]),
        Inr (hw_raw (ada_dl_addr self)),
        Inr (PAD 6)])"

definition ofp_action_dl_addr_unpack :: "ofp_action_dl_addr \<Rightarrow> bytes \<Rightarrow> (ofp_action_dl_addr \<times> bytes) result" where
  "ofp_action_dl_addr_unpack self b =
     (if length b < 16 then Inr (self, b)
      else bindE (struct_unpack_from ''!HH'' b 0) (\<lambda>v.
        bindE (struct_unpack_from ''!BBBBBB'' b 4) (\<lambda>w.
        bindE (EthAddr_init (EaTuple w)) (\<lambda>e.
        Inr (self\<lparr>ada_type := Some (v ! 0), ada_length := v ! 1, ada_dl_addr := HwEth e\<rparr>, drop 16 b)))))"

definition ofp_action_dl_addr_len :: nat where
  "ofp_action_dl_addr_len = 16"

definition ofp_action_dl_addr_eq :: "ofp_action_dl_addr \<Rightarrow> ofp_action_dl_addr \<Rightarrow> bool" where
  "ofp_action_dl_addr_eq self other \<longleftrightarrow>
     ada_type self = ada_type other \<and> ada_length self = ada_length other \<and>
     hw_cmp_eq (Some (ada_dl_addr self)) (Some (ada_dl_addr other))"

interpretation act_dl_addr: wire_struct ofp_action_dl_addr_pack ofp_action_dl_addr_unpack
    "\<lambda>a. hw_wire (ada_dl_addr a)" 16
  by unfold_locales
    (auto simp: ofp_action_dl_addr_pack_def ofp_action_dl_addr_unpack_def codec struct_pack_length
      EthAddr_init_bytes hw_wire_def eth_ok_def eth_toRaw_def simp del: EthAddr_init.simps split: if_splits)

subsection \<open>ofp\_action\_nw\_addr\<close>

record ofp_action_nw_addr =
  ana_type :: "int option"
  ana_length :: int
  ana_nw_addr :: IPAddr

definition ofp_action_nw_addr_init :: "int option \<Rightarrow> ip_arg option \<Rightarrow> ofp_action_nw_addr result" where
  "ofp_action_nw_addr_init type nw_addr =
     bindE (IPAddr_init (case nw_addr of Some a \<Rightarrow> a | None \<Rightarrow> IpInt 0) False) (\<lambda>a.
       Inr \<lparr>ana_type = type, ana_length = 8, ana_nw_addr = a\<rparr>)"

definition nw_addr_set_dst :: "ip_arg option \<Rightarrow> ofp_action_nw_addr result" where
  "nw_addr_set_dst nw_addr = ofp_action_nw_addr_init (Some OFPAT_SET_NW_DST) nw_addr"

definition nw_addr_set_src :: "ip_arg option \<Rightarrow> ofp_action_nw_addr result" where
  "nw_addr_set_src nw_addr = ofp_action_nw_addr_init (Some OFPAT_SET_NW_SRC) nw_addr"

text \<open>The address is packed as a signed and read as an unsigned integer.\<close>

definition ofp_action_nw_addr_pack :: "bool \<Rightarrow> ofp_action_nw_addr \<Rightarrow> bytes option result" where
  "ofp_action_nw_addr_pack assertstruct self =
     (if assertstruct \<and> \<not> fst (assert_true self) then Inr None
      else packed [
        bindE (int_arg (ana_type self)) (\<lambda>t.
          struct_pack ''!HHl'' [t, ana_length self, toSigned (ana_nw_addr self) False])])"

definition ofp_action_nw_addr_unpack :: "ofp_action_nw_addr \<Rightarrow> bytes \<Rightarrow> (ofp_action_nw_addr \<times> bytes) result" where
  "ofp_action_nw_addr_unpack self b =
     (if length b < 8 then Inr (self, b)
      else bindE (struct_unpack_from ''!HHL'' b 0) (\<lambda>v.
        bindE (IPAddr_init (IpInt (v ! 2)) False) (\<lambda>a.
        Inr (self\<lparr>ana_type := Some (v ! 0), ana_length := v ! 1, ana_nw_addr := a\<rparr>, drop 8 b))))"

definition ofp_action_nw_addr_len :: nat where
  "ofp_action_nw_addr_len = 8"

definition ofp_action_nw_addr_eq :: "ofp_action_nw_addr \<Rightarrow> ofp_action_nw_addr \<Rightarrow> bool" where
  "ofp_action_nw_addr_eq self other \<longleftrightarrow>
     ana_type self = ana_type other \<and> ana_length self = ana_length other \<and>
     ip_value (ana_nw_addr self) = ip_value (ana_nw_addr other)"

lemma be_bytes_s32: "be_bytes 4 (s32 v) = be_bytes 4 v"
proof -
  have "be_bytes 4 (s32 v mod 256 ^ 4) = be_bytes 4 (v mod 256 ^ 4)" by (simp add: s32_def)
  then show ?thesis by (simp only: be_bytes_mod)
qed

lemma struct_pack_signed:
  assumes "0 \<le> v" "v < 2 ^ 32"
  shows "struct_pack ''!HHl'' [t, n, s32 v] = struct_pack ''!HHL'' [t, n, v]"
proof -
  have "code_min (CHR ''l'') \<le> s32 v \<and> s32 v < code_max (CHR ''l'')"
    "code_min (CHR ''L'') \<le> v \<and> v < code_max (CHR ''L'')"
    using assms s32_range [OF assms] by (simp_all add: code_min_def code_max_def code_signed_def)
  then show ?thesis by (simp add: struct_pack.simps be_bytes_s32)
qed

lemma pack_signed_addr [simp]:
  "struct_pack ''!HHl'' [t, n, toSigned a False] = struct_pack ''!HHL'' [t, n, toUnsigned a False]"
proof -
  have "toSigned a False = s32 (toUnsigned a False)" by (simp add: toSigned_def toUnsigned_def)
  then show ?thesis using struct_pack_signed [OF toUnsigned_range] by simp
qed

lemma IPAddr_init_toUnsigned:
  assumes "ip_ok a"
  shows "IPAddr_init (IpInt (toUnsigned a False)) False = Inr a"
proof -
  obtain b where b: "IPAddr_init (IpInt (toUnsigned a False)) False = Inr b" "ip_ok b"
    by (rule addr_of_init)
  then have "toUnsigned b False = toUnsigned a False"
    using toUnsigned_IpInt [OF b(1)] toUnsigned_range [of a False] by simp
  then show ?thesis using b toUnsigned_inj [OF b(2) assms] by simp
qed

interpretation act_nw_addr: wire_struct ofp_action_nw_addr_pack ofp_action_nw_addr_unpack
    "\<lambda>a. ip_ok (ana_nw_addr a)" 8
  by unfold_locales
    (auto simp: ofp_action_nw_addr_pack_def ofp_action_nw_addr_unpack_def codec struct_pack_length
      IPAddr_init_toUnsigned simp del: IPAddr_init.simps)

subsection \<open>ofp\_action\_tp\_port\<close>

record ofp_action_tp_port =
  atp_type :: "int option"
  atp_length :: int
  atp_tp_port :: "int option"

definition ofp_action_tp_port_init :: "int option \<Rightarrow> int option \<Rightarrow> ofp_action_tp_port" where
  "ofp_action_tp_port_init type tp_port = \<lparr>atp_type = type, atp_length = 8, atp_tp_port = tp_port\<rparr>"

definition tp_port_set_dst :: "int option \<Rightarrow> ofp_action_tp_port" where
  "tp_port_set_dst tp_port = ofp_action_tp_port_init (Some OFPAT_SET_TP_DST) tp_port"

definition tp_port_set_src :: "int option \<Rightarrow> ofp_action_tp_port" where
  "tp_port_set_src tp_port = ofp_action_tp_port_init (Some OFPAT_SET_TP_SRC) tp_port"

definition ofp_action_tp_port_pack :: "bool \<Rightarrow> ofp_action_tp_port \<Rightarrow> bytes option result" where
  "ofp_action_tp_port_pack assertstruct self =
     (if assertstruct \<and> \<not> fst (assert_true self) then Inr None
      else packed [
        bindE (int_arg (atp_type self)) (\<lambda>t. bindE (int_arg (atp_tp_port self)) (\<lambda>p.
          struct_pack ''!HHH'' [t, atp_length self, p])),
        Inr (PAD 2)])"

definition ofp_action_tp_port_unpack :: "ofp_action_tp_port \<Rightarrow> bytes \<Rightarrow> (ofp_action_tp_port \<times> bytes) result" where
  "ofp_action_tp_port_unpack self b =
     (if length b < 8 then Inr (self, b)
      else bindE (struct_unpack_from ''!HHH'' b 0) (\<lambda>v.
        Inr (self\<lparr>atp_type := Some (v ! 0), atp_length := v ! 1, atp_tp_port := Some (v ! 2)\<rparr>, drop 8 b)))"

definition ofp_action_tp_port_len :: nat where
  "ofp_action_tp_port_len = 8"

definition ofp_action_tp_port_eq :: "ofp_action_tp_port \<Rightarrow> ofp_action_tp_port \<Rightarrow> bool" where
  "ofp_action_tp_port_eq self other \<longleftrightarrow>
     atp_type self = atp_type other \<and> atp_length self = atp_length other \<and>
     atp_tp_port self = atp_tp_port other"

interpretation act_tp_port: wire_struct ofp_action_tp_port_pack ofp_action_tp_port_unpack
    "\<lambda>_. True" 8
  by unfold_locales
    (auto simp: ofp_action_tp_port_pack_def ofp_action_tp_port_unpack_def codec struct_pack_length)

subsection \<open>Any action\<close>

datatype ofp_action =
    ActHeader ofp_action_header
  | ActDecTtl ofp_action_header
  | ActResubmit ofp_action_header
  | ActOutput ofp_action_output
  | ActEnqueue ofp_action_enqueue
  | ActPushMpls ofp_action_push_mpls
  | ActMplsLabel ofp_action_mpls_label
  | ActMplsTc ofp_action_mpls_tc
  | ActMplsTtl ofp_action_mpls_ttl
  | ActPopMpls ofp_action_pop_mpls
  | ActVlanVid ofp_action_vlan_vid
  | ActVlanPcp ofp_action_vlan_pcp
  | ActDlAddr ofp_action_dl_addr
  | ActNwAddr ofp_action_nw_addr
  | ActNwTos ofp_action_nw_tos
  | ActTpPort ofp_action_tp_port
  | ActVendorHeader ofp_action_vendor_header

fun ofp_action_pack :: "bool \<Rightarrow> ofp_action \<Rightarrow> (bytes option \<times> ofp_action) result" where
  "ofp_action_pack as (ActHeader a) = bindE (ofp_action_header_pack as a) (\<lambda>b. Inr (b, ActHeader a))"
| "ofp_action_pack as (ActDecTtl a) = bindE (ofp_action_header_pack as a) (\<lambda>b. Inr (b, ActDecTtl a))"
| "ofp_action_pack as (ActResubmit a) = bindE (ofp_action_header_pack as a) (\<lambda>b. Inr (b, ActResubmit a))"
| "ofp_action_pack as (ActOutput a) = bindE (ofp_action_output_pack as a) (\<lambda>(b, a). Inr (b, ActOutput a))"
| "ofp_action_pack as (ActEnqueue a) = bindE (ofp_action_enqueue_pack as a) (\<lambda>b. Inr (b, ActEnqueue a))"
| "ofp_action_pack as (ActPushMpls a) = bindE (ofp_action_push_mpls_pack as a) (\<lambda>b. Inr (b, ActPushMpls a))"
| "ofp_action_pack as (ActMplsLabel a) = bindE (ofp_action_mpls_label_pack as a) (\<lambda>b. Inr (b, ActMplsLabel a))"
| "ofp_action_pack as (ActMplsTc a) = bindE (ofp_action_mpls_tc_pack as a) (\<lambda>b. Inr (b, ActMplsTc a))"
| "ofp_action_pack as (ActMplsTtl a) = bindE (ofp_action_mpls_ttl_pack as a) (\<lambda>b. Inr (b, ActMplsTtl a))"
| "ofp_action_pack as (ActPopMpls a) = bindE (ofp_action_pop_mpls_pack as a) (\<lambda>b. Inr (b, ActPopMpls a))"
| "ofp_action_pack as (ActVlanVid a) = bindE (ofp_action_vlan_vid_pack as a) (\<lambda>b. Inr (b, ActVlanVid a))"
| "ofp_action_pack as (ActVlanPcp a) = bindE (ofp_action_vlan_pcp_pack as a) (\<lambda>b. Inr (b, ActVlanPcp a))"
| "ofp_action_pack as (ActDlAddr a) = bindE (ofp_action_dl_addr_pack as a) (\<lambda>b. Inr (b, ActDlAddr a))"
| "ofp_action_pack as (ActNwAddr a) = bindE (ofp_action_nw_addr_pack as a) (\<lambda>b. Inr (b, ActNwAddr a))"
| "ofp_action_pack as (ActNwTos a) = bindE (ofp_action_nw_tos_pack as a) (\<lambda>b. Inr (b, ActNwTos a))"
| "ofp_action_pack as (ActTpPort a) = bindE (ofp_action_tp_port_pack as a) (\<lambda>b. Inr (b, ActTpPort a))"
| "ofp_action_pack as (ActVendorHeader a) = bindE (ofp_action_vendor_header_pack as a) (\<lambda>b. Inr (b, ActVendorHeader a))"

fun ofp_action_unpack :: "ofp_action \<Rightarrow> bytes \<Rightarrow> (ofp_action \<times> bytes) result" where
  "ofp_action_unpack (ActHeader a) b = bindE (ofp_action_header_unpack a b) (\<lambda>(a, r). Inr (ActHeader a, r))"
| "ofp_action_unpack (ActDecTtl a) b = bindE (ofp_action_header_unpack a b) (\<lambda>(a, r). Inr (ActDecTtl a, r))"
| "ofp_action_unpack (ActResubmit a) b = bindE (ofp_action_header_unpack a b) (\<lambda>(a, r). Inr (ActResubmit a, r))"
| "ofp_action_unpack (ActOutput a) b = bindE (ofp_action_output_unpack a b) (\<lambda>(a, r). Inr (ActOutput a, r))"
| "ofp_action_unpack (ActEnqueue a) b = bindE (ofp_action_enqueue_unpack a b) (\<lambda>(a, r). Inr (ActEnqueue a, r))"
| "ofp_action_unpack (ActPushMpls a) b = bindE (ofp_action_push_mpls_unpack a b) (\<lambda>(a, r). Inr (ActPushMpls a, r))"
| "ofp_action_unpack (ActMplsLabel a) b = bindE (ofp_action_mpls_label_unpack a b) (\<lambda>(a, r). Inr (ActMplsLabel a, r))"
| "ofp_action_unpack (ActMplsTc a) b = bindE (ofp_action_mpls_tc_unpack a b) (\<lambda>(a, r). Inr (ActMplsTc a, r))"
| "ofp_action_unpack (ActMplsTtl a) b = bindE (ofp_action_mpls_ttl_unpack a b) (\<lambda>(a, r). Inr (ActMplsTtl a, r))"
| "ofp_action_unpack (ActPopMpls a) b = bindE (ofp_action_pop_mpls_unpack a b) (\<lambda>(a, r). Inr (ActPopMpls a, r))"
| "ofp_action_unpack (ActVlanVid a) b = bindE (ofp_action_vlan_vid_unpack a b) (\<lambda>(a, r). Inr (ActVlanVid a, r))"
| "ofp_action_unpack (ActVlanPcp a) b = bindE (ofp_action_vlan_pcp_unpack a b) (\<lambda>(a, r). Inr (ActVlanPcp a, r))"
| "ofp_action_unpack (ActDlAddr a) b = bindE (ofp_action_dl_addr_unpack a b) (\<lambda>(a, r). Inr (ActDlAddr a, r))"
| "ofp_action_unpack (ActNwAddr a) b = bindE (ofp_action_nw_addr_unpack a b) (\<lambda>(a, r). Inr (ActNwAddr a, r))"
| "ofp_action_unpack (ActNwTos a) b = bindE (ofp_action_nw_tos_unpack a b) (\<lambda>(a, r). Inr (ActNwTos a, r))"
| "ofp_action_unpack (ActTpPort a) b = bindE (ofp_action_tp_port_unpack a b) (\<lambda>(a, r). Inr (ActTpPort a, r))"
| "ofp_action_unpack (ActVendorHeader a) b = bindE (ofp_action_vendor_header_unpack a b) (\<lambda>(a, r). Inr (ActVendorHeader a, r))"

fun ofp_action_len :: "ofp_action \<Rightarrow> int" where
  "ofp_action_len (ActHeader a) = ofp_action_header_len a"
| "ofp_action_len (ActDecTtl a) = ofp_action_header_len a"
| "ofp_action_len (ActResubmit a) = ofp_action_header_len a"
| "ofp_action_len (ActOutput a) = int ofp_action_output_len"
| "ofp_action_len (ActEnqueue a) = int ofp_action_enqueue_len"
| "ofp_action_len (ActPushMpls a) = ofp_action_push_mpls_len a"
| "ofp_action_len (ActMplsLabel a) = ofp_action_mpls_label_len a"
| "ofp_action_len (ActMplsTc a) = ofp_action_mpls_tc_len a"
| "ofp_action_len (ActMplsTtl a) = ofp_action_mpls_ttl_len a"
| "ofp_action_len (ActPopMpls a) = ofp_action_pop_mpls_len a"
| "ofp_action_len (ActVlanVid a) = int ofp_action_vlan_vid_len"
| "ofp_action_len (ActVlanPcp a) = int ofp_action_vlan_pcp_len"
| "ofp_action_len (ActDlAddr a) = int ofp_action_dl_addr_len"
| "ofp_action_len (ActNwAddr a) = int ofp_action_nw_addr_len"
| "ofp_action_len (ActNwTos a) = int ofp_action_nw_tos_len"
| "ofp_action_len (ActTpPort a) = int ofp_action_tp_port_len"
| "ofp_action_len (ActVendorHeader a) = int ofp_action_vendor_header_len"

fun ofp_action_eq :: "ofp_action \<Rightarrow> ofp_action \<Rightarrow> bool" where
  "ofp_action_eq (ActHeader a) y = (case y of ActHeader b \<Rightarrow> ofp_action_header_eq a b | _ \<Rightarrow> False)"
| "ofp_action_eq (ActDecTtl a) y = (case y of ActDecTtl b \<Rightarrow> ofp_action_header_eq a b | _ \<Rightarrow> False)"
| "ofp_action_eq (ActResubmit a) y = (case y of ActResubmit b \<Rightarrow> ofp_action_header_eq a b | _ \<Rightarrow> False)"
| "ofp_action_eq (ActOutput a) y = (case y of ActOutput b \<Rightarrow> ofp_action_output_eq a b | _ \<Rightarrow> False)"
| "ofp_action_eq (ActEnqueue a) y = (case y of ActEnqueue b \<Rightarrow> ofp_action_enqueue_eq a b | _ \<Rightarrow> False)"
| "ofp_action_eq (ActPushMpls a) y = (case y of ActPushMpls b \<Rightarrow> ofp_action_push_mpls_eq a b | _ \<Rightarrow> False)"
| "ofp_action_eq (ActMplsLabel a) y = (case y of ActMplsLabel b \<Rightarrow> ofp_action_mpls_label_eq a b | _ \<Rightarrow> False)"
| "ofp_action_eq (ActMplsTc a) y = (case y of ActMplsTc b \<Rightarrow> ofp_action_mpls_tc_eq a b | _ \<Rightarrow> False)"
| "ofp_action_eq (ActMplsTtl a) y = (case y of ActMplsTtl b \<Rightarrow> ofp_action_mpls_ttl_eq a b | _ \<Rightarrow> False)"
| "ofp_action_eq (ActPopMpls a) y = (case y of ActPopMpls b \<Rightarrow> ofp_action_pop_mpls_eq a b | _ \<Rightarrow> False)"
| "ofp_action_eq (ActVlanVid a) y = (case y of ActVlanVid b \<Rightarrow> ofp_action_vlan_vid_eq a b | _ \<Rightarrow> False)"
| "ofp_action_eq (ActVlanPcp a) y = (case y of ActVlanPcp b \<Rightarrow> ofp_action_vlan_pcp_eq a b | _ \<Rightarrow> False)"
| "ofp_action_eq (ActDlAddr a) y = (case y of ActDlAddr b \<Rightarrow> ofp_action_dl_addr_eq a b | _ \<Rightarrow> False)"
| "ofp_action_eq (ActNwAddr a) y = (case y of ActNwAddr b \<Rightarrow> ofp_action_nw_addr_eq a b | _ \<Rightarrow> False)"
| "ofp_action_eq (ActNwTos a) y = (case y of ActNwTos b \<Rightarrow> ofp_action_nw_tos_eq a b | _ \<Rightarrow> False)"
| "ofp_action_eq (ActTpPort a) y = (case y of ActTpPort b \<Rightarrow> ofp_action_tp_port_eq a b | _ \<Rightarrow> False)"
| "ofp_action_eq (ActVendorHeader a) y = (case y of ActVendorHeader b \<Rightarrow> ofp_action_vendor_header_eq a b | _ \<Rightarrow> False)"

text \<open>
  A new object of the class \<^verbatim>\<open>_action_map\<close> has for a type, or a generic header. \<^verbatim>\<open>OFPAT_STRIP_VLAN\<close> and
  \<^verbatim>\<open>OFPAT_VENDOR\<close> have no entry.
\<close>

definition action_blank :: "int \<Rightarrow> ofp_action" where
  "action_blank t =
     (if t = OFPAT_OUTPUT then ActOutput (ofp_action_output_init id)
      else if t = OFPAT_SET_VLAN_VID then ActVlanVid (ofp_action_vlan_vid_init id)
      else if t = OFPAT_SET_VLAN_PCP then ActVlanPcp (ofp_action_vlan_pcp_init id)
      else if t = OFPAT_SET_DL_SRC \<or> t = OFPAT_SET_DL_DST then
        ActDlAddr \<lparr>ada_type = None, ada_length = 16, ada_dl_addr = HwEth EMPTY_ETH\<rparr>
      else if t = OFPAT_SET_NW_SRC \<or> t = OFPAT_SET_NW_DST then
        ActNwAddr \<lparr>ana_type = None, ana_length = 8, ana_nw_addr = IPAddr 0\<rparr>
      else if t = OFPAT_SET_NW_TOS then ActNwTos (ofp_action_nw_tos_init 0)
      else if t = OFPAT_SET_TP_SRC \<or> t = OFPAT_SET_TP_DST then
        ActTpPort (ofp_action_tp_port_init None (Some 0))
      else if t = OFPAT_ENQUEUE then ActEnqueue (ofp_action_enqueue_init id)
      else if t = OFPAT_PUSH_MPLS then ActPushMpls (ofp_action_push_mpls_init id)
      else if t = OFPAT_POP_MPLS then ActPopMpls (ofp_action_pop_mpls_init id)
      else if t = OFPAT_SET_MPLS_LABEL then ActMplsLabel (ofp_action_mpls_label_init id)
      else if t = OFPAT_SET_MPLS_TC then ActMplsTc (ofp_action_mpls_tc_init id)
      else if t = OFPAT_SET_MPLS_TTL then ActMplsTtl (ofp_action_mpls_ttl_init id)
      else if t = OFPAT_DEC_MPLS_TTL then ActDecTtl (ofp_action_mpls_dec_ttl_init id)
      else if t = OFPAT_RESUBMIT then ActResubmit (ofp_action_resubmit_init id)
      else ActHeader (ofp_action_header_init id))"

text \<open>The blank objects of the two classes with a constructor that may raise are what it returns.\<close>

lemma action_blank_addr:
  "ofp_action_dl_addr_init None None = Inr \<lparr>ada_type = None, ada_length = 16, ada_dl_addr = HwEth EMPTY_ETH\<rparr>"
  "ofp_action_nw_addr_init None None = Inr \<lparr>ana_type = None, ana_length = 8, ana_nw_addr = IPAddr 0\<rparr>"
  by (simp_all add: ofp_action_dl_addr_init_def ofp_action_nw_addr_init_def mask32_def s32_def be_value_def
      numeral_eq_Suc)

text \<open>
  The parsing loop. An action that ends beyond the buffer gives no actions at all; an action
  whose class says another length than its header does is an \<^verbatim>\<open>AssertionError\<close>.
\<close>

lemma action_blank_short:
  "length b < 8 \<Longrightarrow> ofp_action_unpack (action_blank t) b = Inr (a, r) \<Longrightarrow> 8 \<le> ofp_action_len a"
  unfolding action_blank_def
  by (auto split: if_splits simp: ofp_action_header_len_def ofp_action_header_unpack_def ofp_action_output_len_def
      ofp_action_output_unpack_def ofp_action_enqueue_len_def ofp_action_enqueue_unpack_def
      ofp_action_push_mpls_len_def ofp_action_push_mpls_unpack_def ofp_action_mpls_label_len_def
      ofp_action_mpls_label_unpack_def ofp_action_mpls_tc_len_def ofp_action_mpls_tc_unpack_def
      ofp_action_mpls_ttl_len_def ofp_action_mpls_ttl_unpack_def ofp_action_pop_mpls_len_def
      ofp_action_pop_mpls_unpack_def ofp_action_vlan_vid_len_def ofp_action_vlan_vid_unpack_def
      ofp_action_vlan_pcp_len_def ofp_action_vlan_pcp_unpack_def ofp_action_dl_addr_len_def
      ofp_action_dl_addr_unpack_def ofp_action_nw_addr_len_def ofp_action_nw_addr_unpack_def
      ofp_action_nw_tos_len_def ofp_action_nw_tos_unpack_def ofp_action_tp_port_len_def
      ofp_action_tp_port_unpack_def ofp_action_vendor_header_len_def
      ofp_action_vendor_header_unpack_def ofp_action_header_init_def ofp_action_output_init_def
      ofp_action_enqueue_init_def ofp_action_push_mpls_init_def ofp_action_mpls_label_init_def
      ofp_action_mpls_tc_init_def ofp_action_mpls_ttl_init_def ofp_action_pop_mpls_init_def
      ofp_action_vlan_vid_init_def ofp_action_vlan_pcp_init_def ofp_action_nw_tos_init_def
      ofp_action_tp_port_init_def ofp_action_vendor_header_init_def
      ofp_action_mpls_dec_ttl_init_def ofp_action_resubmit_init_def)

function unpack_actions_loop :: "bytes \<Rightarrow> int \<Rightarrow> nat \<Rightarrow> ofp_action list \<Rightarrow> (ofp_action list \<times> nat) result" where
  "unpack_actions_loop b stop off actions =
     (if int off < stop then
        bindE (struct_unpack_from ''!HH'' b off) (\<lambda>v.
          let t = v ! 0; l = nat (v ! 1) in
          if int (length b) - int off < int l then Inr ([], off)
          else
            bindE (ofp_action_unpack (action_blank t) (slice off (off + l) b)) (\<lambda>(a, _).
              if ofp_action_len a \<noteq> int l then Inl AssertionError
              else unpack_actions_loop b stop (off + l) (actions @ [a])))
      else Inr (actions, off))"
  by pat_completeness auto
termination
proof (relation "measure (\<lambda>(b, stop, off, _). nat (stop - int off))")
  fix b :: bytes and "stop" :: int and off actions v t l p a x
  assume "int off < stop" "l = nat (v ! 1)" and u: "ofp_action_unpack (action_blank t) (slice off (off + l) b) = Inr p"
    and a: "(a, x) = p" and len: "\<not> ofp_action_len a \<noteq> int l"
  have "l \<noteq> 0"
  proof
    assume "l = 0"
    then have "ofp_action_unpack (action_blank t) [] = Inr (a, x)" using u a by (simp add: slice_def)
    then have "8 \<le> ofp_action_len a" by (rule action_blank_short [rotated]) simp
    with len \<open>l = 0\<close> show False by simp
  qed
  with \<open>int off < stop\<close> show "((b, stop, off + l, actions @ [a]), b, stop, off, actions) \<in> measure (\<lambda>(b, stop, off, _). nat (stop - int off))"
    by simp
qed simp

declare unpack_actions_loop.simps [simp del]

definition unpack_actions :: "bytes \<Rightarrow> int \<Rightarrow> nat \<Rightarrow> (ofp_action list \<times> nat) result" where
  "unpack_actions b len off =
     (if int (length b) - int off < len then Inr ([], off) else unpack_actions_loop b (len + int off) off [])"

subsection \<open>Actions survive the wire\<close>

text \<open>The types that have a class of their own.\<close>

abbreviation (input) MAPPED :: "int set" where
  "MAPPED \<equiv> {0, 1, 2, 4, 5, 6, 7, 8, 9, 10, 11, 13, 14, 15, 16, 19, 20, 21}"

text \<open>
  The actions the parser can give back: the type is the one of the class, the length the true
  one, and a generic header carries no data, since \<^verbatim>\<open>pack\<close> drops it.
\<close>

fun action_wf :: "ofp_action \<Rightarrow> bool" where
  "action_wf (ActHeader a) = (ah_length a = 8 \<and> ah_data a = [] \<and> (\<exists>t. ah_type a = Some t \<and> t \<notin> MAPPED))"
| "action_wf (ActDecTtl a) = (ah_type a = Some OFPAT_DEC_MPLS_TTL \<and> ah_length a = 8 \<and> ah_data a = [])"
| "action_wf (ActResubmit a) = (ah_type a = Some OFPAT_RESUBMIT \<and> ah_length a = 8 \<and> ah_data a = [])"
| "action_wf (ActOutput a) = (ao_type a = OFPAT_OUTPUT \<and> ao_length a = 8)"
| "action_wf (ActEnqueue a) = (aq_type a = OFPAT_ENQUEUE \<and> aq_length a = 16)"
| "action_wf (ActPushMpls a) = (apm_type a = OFPAT_PUSH_MPLS \<and> apm_length a = 8)"
| "action_wf (ActMplsLabel a) = (aml_type a = OFPAT_SET_MPLS_LABEL \<and> aml_length a = 8)"
| "action_wf (ActMplsTc a) = (amc_type a = OFPAT_SET_MPLS_TC \<and> amc_length a = 8)"
| "action_wf (ActMplsTtl a) = (amt_type a = OFPAT_SET_MPLS_TTL \<and> amt_length a = 8)"
| "action_wf (ActPopMpls a) = (app_type a = OFPAT_POP_MPLS \<and> app_length a = 8)"
| "action_wf (ActVlanVid a) = (avv_type a = OFPAT_SET_VLAN_VID \<and> avv_length a = 8)"
| "action_wf (ActVlanPcp a) = (avp_type a = OFPAT_SET_VLAN_PCP \<and> avp_length a = 8)"
| "action_wf (ActDlAddr a) = (ada_type a \<in> {Some OFPAT_SET_DL_SRC, Some OFPAT_SET_DL_DST} \<and> ada_length a = 16 \<and> hw_wire (ada_dl_addr a))"
| "action_wf (ActNwAddr a) = (ana_type a \<in> {Some OFPAT_SET_NW_SRC, Some OFPAT_SET_NW_DST} \<and> ana_length a = 8 \<and> ip_ok (ana_nw_addr a))"
| "action_wf (ActNwTos a) = (ant_type a = OFPAT_SET_NW_TOS \<and> ant_length a = 8)"
| "action_wf (ActTpPort a) = (atp_type a \<in> {Some OFPAT_SET_TP_SRC, Some OFPAT_SET_TP_DST} \<and> atp_length a = 8)"
| "action_wf (ActVendorHeader a) = (False)"

lemma struct_fields_HH:
  assumes "struct_pack (''!HH'' @ g) (t # l # vs) = Inr b"
  shows "struct_fields ''!HH'' (b @ r) = [t, l]"
  using assms
  by (auto simp: struct_pack.simps struct_fields.simps code_decode_be_bytes [of "CHR ''H''", simplified]
      split: if_splits)

lemmas struct_fields_HH_more [simp] =
  struct_fields_HH [where g = "''H''", simplified] struct_fields_HH [where g = "''B''", simplified]
  struct_fields_HH [where g = "''I''", simplified] struct_fields_HH [where g = "''L''", simplified]
  struct_fields_HH [where g = "''HH''", simplified]

text \<open>What one action becomes, as the parsing loop reads it.\<close>

definition action_on_wire :: "ofp_action \<Rightarrow> bytes \<Rightarrow> bool" where
  "action_on_wire a b \<longleftrightarrow>
     ofp_action_len a = int (length b) \<and> 8 \<le> length b \<and>
     (\<exists>t. (\<forall>r. struct_fields ''!HH'' (b @ r) = [t, int (length b)]) \<and>
          ofp_action_unpack (action_blank t) b = Inr (a, []))"

lemma output_on_wire:
  assumes "ofp_action_output_pack as a = Inr (Some b, a')" "ao_type a = OFPAT_OUTPUT" "ao_length a = 8"
  shows "action_on_wire (ActOutput a') b"
  using assms unfolding action_on_wire_def
  by (intro conjI exI [of _ OFPAT_OUTPUT])
    (auto simp: ofp_action_output_pack_def ofp_action_output_unpack_def ofp_action_output_len_def
      action_blank_def codec struct_pack_length Let_def split: if_splits)

lemma header_on_wire:
  assumes "ofp_action_header_pack as a = Inr (Some b)" "ah_length a = 8" "ah_data a = []" "ah_type a = Some t"
  shows "length b = 8" "struct_fields ''!HH'' (b @ r) = [t, 8]"
    "ofp_action_header_unpack s b = Inr (a, [])"
  using assms
  by (auto simp: ofp_action_header_pack_def ofp_action_header_unpack_def codec struct_pack_length
      slice_int_def slice_bound_def slice_def drop_int_def split: if_splits)

lemma enqueue_on_wire:
  assumes "ofp_action_enqueue_pack as a = Inr (Some b)" "action_wf (ActEnqueue a)"
  shows "action_on_wire (ActEnqueue a) b"
proof -
  have "length b = 16" "\<And>s. ofp_action_enqueue_unpack s b = Inr (a, [])"
    using act_enqueue.pack_size [OF _ assms(1)] act_enqueue.unpack_pack [OF _ assms(1), of _ "[]"] assms(2) by auto
  then show ?thesis
    using assms unfolding action_on_wire_def
    by (intro conjI exI [of _ "aq_type a"])
      (auto simp: ofp_action_enqueue_pack_def ofp_action_enqueue_len_def action_blank_def codec split: if_splits)
qed

lemma push_mpls_on_wire:
  assumes "ofp_action_push_mpls_pack as a = Inr (Some b)" "action_wf (ActPushMpls a)"
  shows "action_on_wire (ActPushMpls a) b"
proof -
  have "length b = 8" "\<And>s. ofp_action_push_mpls_unpack s b = Inr (a, [])"
    using act_push_mpls.pack_size [OF _ assms(1)] act_push_mpls.unpack_pack [OF _ assms(1), of _ "[]"] assms(2) by auto
  then show ?thesis
    using assms unfolding action_on_wire_def
    by (intro conjI exI [of _ "apm_type a"])
      (auto simp: ofp_action_push_mpls_pack_def ofp_action_push_mpls_len_def action_blank_def codec split: if_splits)
qed

lemma mpls_label_on_wire:
  assumes "ofp_action_mpls_label_pack as a = Inr (Some b)" "action_wf (ActMplsLabel a)"
  shows "action_on_wire (ActMplsLabel a) b"
proof -
  have "length b = 8" "\<And>s. ofp_action_mpls_label_unpack s b = Inr (a, [])"
    using act_mpls_label.pack_size [OF _ assms(1)] act_mpls_label.unpack_pack [OF _ assms(1), of _ "[]"] assms(2) by auto
  then show ?thesis
    using assms unfolding action_on_wire_def
    by (intro conjI exI [of _ "aml_type a"])
      (auto simp: ofp_action_mpls_label_pack_def ofp_action_mpls_label_len_def action_blank_def codec split: if_splits)
qed

lemma mpls_tc_on_wire:
  assumes "ofp_action_mpls_tc_pack as a = Inr (Some b)" "action_wf (ActMplsTc a)"
  shows "action_on_wire (ActMplsTc a) b"
proof -
  have "length b = 8" "\<And>s. ofp_action_mpls_tc_unpack s b = Inr (a, [])"
    using act_mpls_tc.pack_size [OF _ assms(1)] act_mpls_tc.unpack_pack [OF _ assms(1), of _ "[]"] assms(2) by auto
  then show ?thesis
    using assms unfolding action_on_wire_def
    by (intro conjI exI [of _ "amc_type a"])
      (auto simp: ofp_action_mpls_tc_pack_def ofp_action_mpls_tc_len_def action_blank_def codec split: if_splits)
qed

lemma mpls_ttl_on_wire:
  assumes "ofp_action_mpls_ttl_pack as a = Inr (Some b)" "action_wf (ActMplsTtl a)"
  shows "action_on_wire (ActMplsTtl a) b"
proof -
  have "length b = 8" "\<And>s. ofp_action_mpls_ttl_unpack s b = Inr (a, [])"
    using act_mpls_ttl.pack_size [OF _ assms(1)] act_mpls_ttl.unpack_pack [OF _ assms(1), of _ "[]"] assms(2) by auto
  then show ?thesis
    using assms unfolding action_on_wire_def
    by (intro conjI exI [of _ "amt_type a"])
      (auto simp: ofp_action_mpls_ttl_pack_def ofp_action_mpls_ttl_len_def action_blank_def codec split: if_splits)
qed

lemma pop_mpls_on_wire:
  assumes "ofp_action_pop_mpls_pack as a = Inr (Some b)" "action_wf (ActPopMpls a)"
  shows "action_on_wire (ActPopMpls a) b"
proof -
  have "length b = 8" "\<And>s. ofp_action_pop_mpls_unpack s b = Inr (a, [])"
    using act_pop_mpls.pack_size [OF _ assms(1)] act_pop_mpls.unpack_pack [OF _ assms(1), of _ "[]"] assms(2) by auto
  then show ?thesis
    using assms unfolding action_on_wire_def
    by (intro conjI exI [of _ "app_type a"])
      (auto simp: ofp_action_pop_mpls_pack_def ofp_action_pop_mpls_len_def action_blank_def codec split: if_splits)
qed

lemma vlan_vid_on_wire:
  assumes "ofp_action_vlan_vid_pack as a = Inr (Some b)" "action_wf (ActVlanVid a)"
  shows "action_on_wire (ActVlanVid a) b"
proof -
  have "length b = 8" "\<And>s. ofp_action_vlan_vid_unpack s b = Inr (a, [])"
    using act_vlan_vid.pack_size [OF _ assms(1)] act_vlan_vid.unpack_pack [OF _ assms(1), of _ "[]"] assms(2) by auto
  then show ?thesis
    using assms unfolding action_on_wire_def
    by (intro conjI exI [of _ "avv_type a"])
      (auto simp: ofp_action_vlan_vid_pack_def ofp_action_vlan_vid_len_def action_blank_def codec split: if_splits)
qed

lemma vlan_pcp_on_wire:
  assumes "ofp_action_vlan_pcp_pack as a = Inr (Some b)" "action_wf (ActVlanPcp a)"
  shows "action_on_wire (ActVlanPcp a) b"
proof -
  have "length b = 8" "\<And>s. ofp_action_vlan_pcp_unpack s b = Inr (a, [])"
    using act_vlan_pcp.pack_size [OF _ assms(1)] act_vlan_pcp.unpack_pack [OF _ assms(1), of _ "[]"] assms(2) by auto
  then show ?thesis
    using assms unfolding action_on_wire_def
    by (intro conjI exI [of _ "avp_type a"])
      (auto simp: ofp_action_vlan_pcp_pack_def ofp_action_vlan_pcp_len_def action_blank_def codec split: if_splits)
qed

lemma dl_addr_on_wire:
  assumes "ofp_action_dl_addr_pack as a = Inr (Some b)" "action_wf (ActDlAddr a)"
  shows "action_on_wire (ActDlAddr a) b"
proof -
  have "length b = 16" "\<And>s. ofp_action_dl_addr_unpack s b = Inr (a, [])"
    using act_dl_addr.pack_size [OF _ assms(1)] act_dl_addr.unpack_pack [OF _ assms(1), of _ "[]"] assms(2) by auto
  then show ?thesis
    using assms unfolding action_on_wire_def
    by (intro conjI exI [of _ "the (ada_type a)"])
      (auto simp: ofp_action_dl_addr_pack_def ofp_action_dl_addr_len_def action_blank_def codec split: if_splits)
qed

lemma nw_addr_on_wire:
  assumes "ofp_action_nw_addr_pack as a = Inr (Some b)" "action_wf (ActNwAddr a)"
  shows "action_on_wire (ActNwAddr a) b"
proof -
  have "length b = 8" "\<And>s. ofp_action_nw_addr_unpack s b = Inr (a, [])"
    using act_nw_addr.pack_size [OF _ assms(1)] act_nw_addr.unpack_pack [OF _ assms(1), of _ "[]"] assms(2) by auto
  then show ?thesis
    using assms unfolding action_on_wire_def
    by (intro conjI exI [of _ "the (ana_type a)"])
      (auto simp: ofp_action_nw_addr_pack_def ofp_action_nw_addr_len_def action_blank_def codec split: if_splits)
qed

lemma nw_tos_on_wire:
  assumes "ofp_action_nw_tos_pack as a = Inr (Some b)" "action_wf (ActNwTos a)"
  shows "action_on_wire (ActNwTos a) b"
proof -
  have "length b = 8" "\<And>s. ofp_action_nw_tos_unpack s b = Inr (a, [])"
    using act_nw_tos.pack_size [OF _ assms(1)] act_nw_tos.unpack_pack [OF _ assms(1), of _ "[]"] assms(2) by auto
  then show ?thesis
    using assms unfolding action_on_wire_def
    by (intro conjI exI [of _ "ant_type a"])
      (auto simp: ofp_action_nw_tos_pack_def ofp_action_nw_tos_len_def action_blank_def codec split: if_splits)
qed

lemma tp_port_on_wire:
  assumes "ofp_action_tp_port_pack as a = Inr (Some b)" "action_wf (ActTpPort a)"
  shows "action_on_wire (ActTpPort a) b"
proof -
  have "length b = 8" "\<And>s. ofp_action_tp_port_unpack s b = Inr (a, [])"
    using act_tp_port.pack_size [OF _ assms(1)] act_tp_port.unpack_pack [OF _ assms(1), of _ "[]"] assms(2) by auto
  then show ?thesis
    using assms unfolding action_on_wire_def
    by (intro conjI exI [of _ "the (atp_type a)"])
      (auto simp: ofp_action_tp_port_pack_def ofp_action_tp_port_len_def action_blank_def codec split: if_splits)
qed

lemma ofp_action_pack_on_wire:
  assumes "ofp_action_pack as a = Inr (Some b, a')" "action_wf a"
  shows "action_on_wire a' b"
proof (cases a)
  case (ActHeader h)
  then obtain t where h: "ofp_action_header_pack as h = Inr (Some b)" "a' = ActHeader h" "ah_length h = 8"
    "ah_data h = []" "ah_type h = Some t" "t \<notin> MAPPED"
    using assms by auto
  have "action_blank t = ActHeader (ofp_action_header_init id)"
    using h(6) by (simp add: action_blank_def)
  then show ?thesis using header_on_wire [OF h(1,3,4,5)] h(2,3)
    by (auto simp: action_on_wire_def ofp_action_header_len_def)
next
  case (ActDecTtl h)
  then show ?thesis using assms header_on_wire [of as h b]
    by (auto simp: action_on_wire_def ofp_action_header_len_def action_blank_def intro!: exI [of _ OFPAT_DEC_MPLS_TTL])
next
  case (ActResubmit h)
  then show ?thesis using assms header_on_wire [of as h b]
    by (auto simp: action_on_wire_def ofp_action_header_len_def action_blank_def intro!: exI [of _ OFPAT_RESUBMIT])
qed (use assms output_on_wire in \<open>auto intro: enqueue_on_wire push_mpls_on_wire mpls_label_on_wire
      mpls_tc_on_wire mpls_ttl_on_wire pop_mpls_on_wire vlan_vid_on_wire vlan_pcp_on_wire dl_addr_on_wire
      nw_addr_on_wire nw_tos_on_wire tp_port_on_wire simp: codec simp del: action_wf.simps(5-16)\<close>)

text \<open>
  \<^verbatim>\<open>for i in self.actions: packed += i.pack(assertstruct)\<close>; the actions are changed in place.
\<close>

fun pack_actions :: "bool \<Rightarrow> ofp_action list \<Rightarrow> (bytes \<times> ofp_action list) result" where
  "pack_actions as [] = Inr ([], [])"
| "pack_actions as (a # acts) =
     bindE (ofp_action_pack as a) (\<lambda>(ob, a).
     bindE (needE (Inr ob)) (\<lambda>b.
     bindE (pack_actions as acts) (\<lambda>(bs, acts). Inr (b @ bs, a # acts))))"

definition actions_len :: "ofp_action list \<Rightarrow> int" where
  "actions_len acts = sum_list (map ofp_action_len acts)"

lemma pack_actions_on_wire:
  "pack_actions as acts = Inr (b, acts') \<Longrightarrow> \<forall>a \<in> set acts. action_wf a \<Longrightarrow>
   \<exists>bs. b = concat bs \<and> list_all2 action_on_wire acts' bs"
proof (induction acts arbitrary: b acts')
  case (Cons a acts)
  then obtain x a1 y acts1 where x: "ofp_action_pack as a = Inr (Some x, a1)" and
    y: "pack_actions as acts = Inr (y, acts1)" and b: "b = x @ y" "acts' = a1 # acts1"
    by (auto simp: needE_Inr_iff)
  obtain bs where "y = concat bs" "list_all2 action_on_wire acts1 bs"
    using Cons.IH [OF y] Cons.prems(2) by auto
  moreover have "action_on_wire a1 x" using ofp_action_pack_on_wire [OF x] Cons.prems(2) by simp
  ultimately show ?case using b by (intro exI [of _ "x # bs"]) simp
qed simp

lemma actions_len_on_wire:
  "list_all2 action_on_wire acts bs \<Longrightarrow> actions_len acts = int (length (concat bs))"
  by (induction rule: list_all2_induct) (auto simp: actions_len_def action_on_wire_def)

lemma unpack_actions_loop_on_wire:
  "list_all2 action_on_wire acts bs \<Longrightarrow> length pre = off \<Longrightarrow>
   unpack_actions_loop (pre @ concat bs @ r) (int (off + length (concat bs))) off acc =
     Inr (acc @ acts, off + length (concat bs))"
proof (induction acts bs arbitrary: pre off acc rule: list_all2_induct)
  case Nil
  then show ?case by (simp add: unpack_actions_loop.simps)
next
  case (Cons a acts b bs)
  let ?buf = "pre @ concat (b # bs) @ r" and ?stop = "int (off + length (concat (b # bs)))"
  from Cons.hyps(1) obtain t where len: "ofp_action_len a = int (length b)" "8 \<le> length b"
    and hd: "\<And>r. struct_fields ''!HH'' (b @ r) = [t, int (length b)]"
    and act: "ofp_action_unpack (action_blank t) b = Inr (a, [])"
    by (auto simp: action_on_wire_def)
  have "struct_unpack_from ''!HH'' ?buf off = Inr [t, int (length b)]"
    using Cons.prems len(2) hd by (simp add: struct_unpack_from_def)
  moreover have "slice off (off + length b) ?buf = b"
    using Cons.prems by (simp add: slice_def)
  ultimately have "unpack_actions_loop ?buf ?stop off acc =
      unpack_actions_loop ((pre @ b) @ concat bs @ r) ?stop (off + length b) (acc @ [a])"
    using len Cons.prems act by (subst unpack_actions_loop.simps) (simp add: Let_def)
  also have "?stop = int (off + length b + length (concat bs))" by simp
  also have "unpack_actions_loop ((pre @ b) @ concat bs @ r) (int (off + length b + length (concat bs)))
      (off + length b) (acc @ [a]) = Inr ((acc @ [a]) @ acts, off + length b + length (concat bs))"
    using Cons.prems by (intro Cons.IH) simp
  finally show ?case by (simp add: add.assoc)
qed

text \<open>A packed list of actions is read back, at any offset and whatever follows.\<close>

lemma unpack_actions_pack [codec]:
  assumes "pack_actions as acts = Inr (b, acts')" "\<forall>a \<in> set acts. action_wf a" "length pre = off"
    "n = int (length b)"
  shows "unpack_actions (pre @ b @ r) n off = Inr (acts', off + length b)"
proof -
  obtain bs where bs: "b = concat bs" "list_all2 action_on_wire acts' bs"
    using pack_actions_on_wire [OF assms(1,2)] by blast
  then show ?thesis
    using unpack_actions_loop_on_wire [OF bs(2) assms(3), of r "[]"] assms(3,4)
    by (simp add: unpack_actions_def add.commute)
qed

lemma pack_actions_length:
  "pack_actions as acts = Inr (b, acts') \<Longrightarrow> \<forall>a \<in> set acts. action_wf a \<Longrightarrow> actions_len acts' = int (length b)"
  using pack_actions_on_wire actions_len_on_wire by blast

text \<open>The lengths do not change on packing.\<close>

lemma ofp_action_pack_len: "ofp_action_pack as a = Inr (ob, a') \<Longrightarrow> ofp_action_len a' = ofp_action_len a"
  by (cases a) (auto simp: ofp_action_output_pack_def Let_def split: if_splits)

lemma pack_actions_actions_len:
  "pack_actions as acts = Inr (b, acts') \<Longrightarrow> actions_len acts' = actions_len acts"
  by (induction acts arbitrary: b acts') (auto simp: actions_len_def ofp_action_pack_len)

end
