(* ===== verification/OF_Messages.thy ===== *)
theory OF_Messages
  imports OF_Actions
begin

text \<open>
  The messages of \<^verbatim>\<open>libopenflow_01.py\<close>, except statistics. Every message extends \<^theory_text>\<open>ofp_header\<close>;
  its \<^verbatim>\<open>pack\<close> returns the bytes, the message as packing left it (\<^verbatim>\<open>length\<close> and \<^verbatim>\<open>xid\<close> may have been filled
  in) and the transaction id counter. Each class is an instance of the \<^theory_text>\<open>wire_message\<close> interface under a
  well-formedness condition that says which messages the wire reproduces. The classes that never update
  \<^verbatim>\<open>length\<close> need the caller to have set it.
\<close>

definition header_defaults :: "int \<Rightarrow> int \<Rightarrow> ofp_header" where
  "header_defaults t n = \<lparr>version = OFP_VERSION, header_type = t, hlength = n, xid = None\<rparr>"

text \<open>
  Messages with nothing but a header: one record serves all of them, the type tells them apart.
\<close>

definition ofp_hello_init :: "(ofp_header \<Rightarrow> ofp_header) \<Rightarrow> ofp_header" where
  "ofp_hello_init kw = kw (header_defaults OFPT_HELLO 8)"

definition ofp_barrier_reply_init :: "(ofp_header \<Rightarrow> ofp_header) \<Rightarrow> ofp_header" where
  "ofp_barrier_reply_init kw = kw (header_defaults OFPT_BARRIER_REPLY 8)"

definition ofp_barrier_request_init :: "(ofp_header \<Rightarrow> ofp_header) \<Rightarrow> ofp_header" where
  "ofp_barrier_request_init kw = kw (header_defaults OFPT_BARRIER_REQUEST 8)"

definition ofp_features_request_init :: "(ofp_header \<Rightarrow> ofp_header) \<Rightarrow> ofp_header" where
  "ofp_features_request_init kw = kw (header_defaults OFPT_FEATURES_REQUEST 8)"

definition ofp_get_config_request_init :: "(ofp_header \<Rightarrow> ofp_header) \<Rightarrow> ofp_header" where
  "ofp_get_config_request_init kw = kw (header_defaults OFPT_GET_CONFIG_REQUEST 8)"

definition bare_pack :: "bool \<Rightarrow> ofp_header \<Rightarrow> int \<Rightarrow> (bytes option \<times> ofp_header \<times> int) result" where
  "bare_pack assertstruct self nextXID =
     (if assertstruct \<and> \<not> fst (assert_true self) then Inr (None, self, nextXID)
      else msg_packed (ofp_header_pack True self nextXID) (\<lambda>_. []))"

text \<open>\<^verbatim>\<open>ofp_barrier_reply\<close> alone raises when its (constant) check fails.\<close>

definition ofp_barrier_reply_pack ::
    "bool \<Rightarrow> ofp_header \<Rightarrow> int \<Rightarrow> (bytes option \<times> ofp_header \<times> int) result" where
  "ofp_barrier_reply_pack assertstruct self nextXID =
     (if assertstruct \<and> \<not> fst (assert_true self) then Inl RuntimeError
      else msg_packed (ofp_header_pack True self nextXID) (\<lambda>_. []))"

definition bare_unpack :: "ofp_header \<Rightarrow> bytes \<Rightarrow> (ofp_header \<times> bytes) result" where
  "bare_unpack self b =
     (if length b < 8 then Inr (self, b)
      else bindE (ofp_header_unpack self b) (\<lambda>(self, _). Inr (self, drop 8 b)))"

definition bare_len :: "ofp_header \<Rightarrow> int" where
  "bare_len self = 8"

definition bare_eq :: "ofp_header \<Rightarrow> ofp_header \<Rightarrow> bool" where
  "bare_eq self other \<longleftrightarrow> ofp_header_eq self other"

definition bare_wf :: "ofp_header \<Rightarrow> bool" where
  "bare_wf m \<longleftrightarrow> hlength m = 8"

interpretation msg_bare: wire_message bare_pack bare_unpack bare_wf
  by unfold_locales
    (auto simp: bare_wf_def bare_pack_def bare_unpack_def codec elim!: ofp_header_pack_Inr)

interpretation msg_barrier_reply: wire_message ofp_barrier_reply_pack bare_unpack bare_wf
  by unfold_locales
    (auto simp: bare_wf_def ofp_barrier_reply_pack_def bare_unpack_def codec elim!: ofp_header_pack_Inr)

subsection \<open>ofp\_switch\_config\<close>

record ofp_switch_config = ofp_header +
  sc_flags :: int
  sc_miss_send_len :: int

definition ofp_switch_config_init :: "(ofp_switch_config \<Rightarrow> ofp_switch_config) \<Rightarrow> ofp_switch_config" where
  "ofp_switch_config_init kw =
     kw \<lparr>version = OFP_VERSION, header_type = OFPT_SET_CONFIG, hlength = 12, xid = None,
      sc_flags = 0, sc_miss_send_len = OFP_DEFAULT_MISS_SEND_LEN\<rparr>"

definition ofp_switch_config_pack ::
    "bool \<Rightarrow> ofp_switch_config \<Rightarrow> int \<Rightarrow> (bytes option \<times> ofp_switch_config \<times> int) result" where
  "ofp_switch_config_pack assertstruct self nextXID =
     (if assertstruct \<and> \<not> fst (assert_true self) then Inr (None, self, nextXID)
      else msg_packed (ofp_header_pack True self nextXID) (\<lambda>self. [
        struct_pack ''!HH'' [sc_flags self, sc_miss_send_len self]]))"

definition ofp_switch_config_unpack :: "ofp_switch_config \<Rightarrow> bytes \<Rightarrow> (ofp_switch_config \<times> bytes) result" where
  "ofp_switch_config_unpack self b =
     (if length b < 12 then Inr (self, b)
      else bindE (ofp_header_unpack self b) (\<lambda>(self, _).
        bindE (struct_unpack_from ''!HH'' b 8) (\<lambda>v.
        Inr (self\<lparr>sc_flags := v ! 0, sc_miss_send_len := v ! 1\<rparr>, drop 12 b))))"

definition ofp_switch_config_len :: "ofp_switch_config \<Rightarrow> int" where
  "ofp_switch_config_len self = 12"

definition ofp_switch_config_eq :: "ofp_switch_config \<Rightarrow> ofp_switch_config \<Rightarrow> bool" where
  "ofp_switch_config_eq self other \<longleftrightarrow>
     ofp_header_eq self other \<and> sc_flags self = sc_flags other \<and>
     sc_miss_send_len self = sc_miss_send_len other"

definition ofp_switch_config_wf :: "ofp_switch_config \<Rightarrow> bool" where
  "ofp_switch_config_wf m \<longleftrightarrow> hlength m = 12"

interpretation msg_switch_config: wire_message ofp_switch_config_pack ofp_switch_config_unpack ofp_switch_config_wf
  by unfold_locales
    (auto simp: ofp_switch_config_wf_def ofp_switch_config_pack_def ofp_switch_config_unpack_def codec
      struct_pack_length split: if_splits elim!: ofp_header_pack_Inr)

subsection \<open>ofp\_get\_config\_reply\<close>

record ofp_get_config_reply = ofp_header +
  gcr_flags :: int
  gcr_miss_send_len :: int

definition ofp_get_config_reply_init :: "(ofp_get_config_reply \<Rightarrow> ofp_get_config_reply) \<Rightarrow> ofp_get_config_reply" where
  "ofp_get_config_reply_init kw =
     kw \<lparr>version = OFP_VERSION, header_type = OFPT_GET_CONFIG_REPLY, hlength = 12, xid = None,
      gcr_flags = 0, gcr_miss_send_len = OFP_DEFAULT_MISS_SEND_LEN\<rparr>"

definition ofp_get_config_reply_pack ::
    "bool \<Rightarrow> ofp_get_config_reply \<Rightarrow> int \<Rightarrow> (bytes option \<times> ofp_get_config_reply \<times> int) result" where
  "ofp_get_config_reply_pack assertstruct self nextXID =
     (if assertstruct \<and> \<not> fst (assert_true self) then Inr (None, self, nextXID)
      else msg_packed (ofp_header_pack True self nextXID) (\<lambda>self. [
        struct_pack ''!HH'' [gcr_flags self, gcr_miss_send_len self]]))"

definition ofp_get_config_reply_unpack :: "ofp_get_config_reply \<Rightarrow> bytes \<Rightarrow> (ofp_get_config_reply \<times> bytes) result" where
  "ofp_get_config_reply_unpack self b =
     (if length b < 12 then Inr (self, b)
      else bindE (ofp_header_unpack self b) (\<lambda>(self, _).
        bindE (struct_unpack_from ''!HH'' b 8) (\<lambda>v.
        Inr (self\<lparr>gcr_flags := v ! 0, gcr_miss_send_len := v ! 1\<rparr>, drop 12 b))))"

definition ofp_get_config_reply_len :: "ofp_get_config_reply \<Rightarrow> int" where
  "ofp_get_config_reply_len self = 12"

definition ofp_get_config_reply_eq :: "ofp_get_config_reply \<Rightarrow> ofp_get_config_reply \<Rightarrow> bool" where
  "ofp_get_config_reply_eq self other \<longleftrightarrow>
     ofp_header_eq self other \<and> gcr_flags self = gcr_flags other \<and>
     gcr_miss_send_len self = gcr_miss_send_len other"

definition ofp_get_config_reply_wf :: "ofp_get_config_reply \<Rightarrow> bool" where
  "ofp_get_config_reply_wf m \<longleftrightarrow> hlength m = 12"

interpretation msg_get_config_reply: wire_message ofp_get_config_reply_pack ofp_get_config_reply_unpack ofp_get_config_reply_wf
  by unfold_locales
    (auto simp: ofp_get_config_reply_wf_def ofp_get_config_reply_pack_def ofp_get_config_reply_unpack_def codec
      struct_pack_length split: if_splits elim!: ofp_header_pack_Inr)

subsection \<open>ofp\_set\_config\<close>

record ofp_set_config = ofp_header +
  stc_flags :: int
  stc_miss_send_len :: int

definition ofp_set_config_init :: "(ofp_set_config \<Rightarrow> ofp_set_config) \<Rightarrow> ofp_set_config" where
  "ofp_set_config_init kw =
     kw \<lparr>version = OFP_VERSION, header_type = OFPT_SET_CONFIG, hlength = 12, xid = None,
      stc_flags = 0, stc_miss_send_len = OFP_DEFAULT_MISS_SEND_LEN\<rparr>"

definition ofp_set_config_pack ::
    "bool \<Rightarrow> ofp_set_config \<Rightarrow> int \<Rightarrow> (bytes option \<times> ofp_set_config \<times> int) result" where
  "ofp_set_config_pack assertstruct self nextXID =
     (if assertstruct \<and> \<not> fst (assert_true self) then Inr (None, self, nextXID)
      else msg_packed (ofp_header_pack True self nextXID) (\<lambda>self. [
        struct_pack ''!HH'' [stc_flags self, stc_miss_send_len self]]))"

definition ofp_set_config_unpack :: "ofp_set_config \<Rightarrow> bytes \<Rightarrow> (ofp_set_config \<times> bytes) result" where
  "ofp_set_config_unpack self b =
     (if length b < 12 then Inr (self, b)
      else bindE (ofp_header_unpack self b) (\<lambda>(self, _).
        bindE (struct_unpack_from ''!HH'' b 8) (\<lambda>v.
        Inr (self\<lparr>stc_flags := v ! 0, stc_miss_send_len := v ! 1\<rparr>, drop 12 b))))"

definition ofp_set_config_len :: "ofp_set_config \<Rightarrow> int" where
  "ofp_set_config_len self = 12"

definition ofp_set_config_eq :: "ofp_set_config \<Rightarrow> ofp_set_config \<Rightarrow> bool" where
  "ofp_set_config_eq self other \<longleftrightarrow>
     ofp_header_eq self other \<and> stc_flags self = stc_flags other \<and>
     stc_miss_send_len self = stc_miss_send_len other"

definition ofp_set_config_wf :: "ofp_set_config \<Rightarrow> bool" where
  "ofp_set_config_wf m \<longleftrightarrow> hlength m = 12"

interpretation msg_set_config: wire_message ofp_set_config_pack ofp_set_config_unpack ofp_set_config_wf
  by unfold_locales
    (auto simp: ofp_set_config_wf_def ofp_set_config_pack_def ofp_set_config_unpack_def codec
      struct_pack_length split: if_splits elim!: ofp_header_pack_Inr)

subsection \<open>ofp\_queue\_get\_config\_request\<close>

record ofp_queue_get_config_request = ofp_header +
  qcq_port :: int

definition ofp_queue_get_config_request_init :: "(ofp_queue_get_config_request \<Rightarrow> ofp_queue_get_config_request) \<Rightarrow> ofp_queue_get_config_request" where
  "ofp_queue_get_config_request_init kw =
     kw \<lparr>version = OFP_VERSION, header_type = OFPT_QUEUE_GET_CONFIG_REQUEST, hlength = 12,
      xid = None, qcq_port = 0\<rparr>"

definition ofp_queue_get_config_request_pack ::
    "bool \<Rightarrow> ofp_queue_get_config_request \<Rightarrow> int \<Rightarrow> (bytes option \<times> ofp_queue_get_config_request \<times> int) result" where
  "ofp_queue_get_config_request_pack assertstruct self nextXID =
     (if assertstruct \<and> \<not> fst (assert_true self) then Inr (None, self, nextXID)
      else msg_packed (ofp_header_pack True self nextXID) (\<lambda>self. [
        struct_pack ''!H'' [qcq_port self],
        Inr (PAD 2)]))"

definition ofp_queue_get_config_request_unpack :: "ofp_queue_get_config_request \<Rightarrow> bytes \<Rightarrow> (ofp_queue_get_config_request \<times> bytes) result" where
  "ofp_queue_get_config_request_unpack self b =
     (if length b < 12 then Inr (self, b)
      else bindE (ofp_header_unpack self b) (\<lambda>(self, _).
        bindE (struct_unpack_from ''!H'' b 8) (\<lambda>v.
        Inr (self\<lparr>qcq_port := v ! 0\<rparr>, drop 12 b))))"

definition ofp_queue_get_config_request_len :: "ofp_queue_get_config_request \<Rightarrow> int" where
  "ofp_queue_get_config_request_len self = 12"

definition ofp_queue_get_config_request_eq :: "ofp_queue_get_config_request \<Rightarrow> ofp_queue_get_config_request \<Rightarrow> bool" where
  "ofp_queue_get_config_request_eq self other \<longleftrightarrow>
     ofp_header_eq self other \<and> qcq_port self = qcq_port other"

definition ofp_queue_get_config_request_wf :: "ofp_queue_get_config_request \<Rightarrow> bool" where
  "ofp_queue_get_config_request_wf m \<longleftrightarrow> hlength m = 12"

interpretation msg_queue_get_config_request: wire_message ofp_queue_get_config_request_pack ofp_queue_get_config_request_unpack ofp_queue_get_config_request_wf
  by unfold_locales
    (auto simp: ofp_queue_get_config_request_wf_def ofp_queue_get_config_request_pack_def ofp_queue_get_config_request_unpack_def codec
      struct_pack_length split: if_splits elim!: ofp_header_pack_Inr)

subsection \<open>ofp\_queue\_get\_config\_reply\<close>

record ofp_queue_get_config_reply = ofp_header +
  qcr_port :: int
  qcr_queues :: "ofp_packet_queue list"

definition ofp_queue_get_config_reply_init :: "(ofp_queue_get_config_reply \<Rightarrow> ofp_queue_get_config_reply) \<Rightarrow> ofp_queue_get_config_reply" where
  "ofp_queue_get_config_reply_init kw =
     kw \<lparr>version = OFP_VERSION, header_type = OFPT_QUEUE_GET_CONFIG_REPLY, hlength = 16,
      xid = None, qcr_port = 0, qcr_queues = []\<rparr>"

definition ofp_queue_get_config_reply_pack ::
    "bool \<Rightarrow> ofp_queue_get_config_reply \<Rightarrow> int \<Rightarrow> (bytes option \<times> ofp_queue_get_config_reply \<times> int) result" where
  "ofp_queue_get_config_reply_pack assertstruct self nextXID =
     (if assertstruct \<and> \<not> fst (assert_true self) then Inr (None, self, nextXID)
      else msg_packed (ofp_header_pack True self nextXID) (\<lambda>self. [
        struct_pack ''!H'' [qcr_port self],
        Inr (PAD 6),
        concatE (map (\<lambda>i. needE (ofp_packet_queue_pack assertstruct i)) (qcr_queues self))]))"

text \<open>The queues are not read: whatever they packed to stays in the buffer.\<close>

definition ofp_queue_get_config_reply_unpack :: "ofp_queue_get_config_reply \<Rightarrow> bytes \<Rightarrow> (ofp_queue_get_config_reply \<times> bytes) result" where
  "ofp_queue_get_config_reply_unpack self b =
     (if length b < 16 then Inr (self, b)
      else bindE (ofp_header_unpack self b) (\<lambda>(self, _).
        bindE (struct_unpack_from ''!H'' b 8) (\<lambda>v.
        Inr (self\<lparr>qcr_port := v ! 0\<rparr>, drop 16 b))))"

definition ofp_queue_get_config_reply_len :: "ofp_queue_get_config_reply \<Rightarrow> int" where
  "ofp_queue_get_config_reply_len self = 16 + sum_list (map (\<lambda>i. int (ofp_packet_queue_len i)) (qcr_queues self))"

definition ofp_queue_get_config_reply_eq :: "ofp_queue_get_config_reply \<Rightarrow> ofp_queue_get_config_reply \<Rightarrow> bool" where
  "ofp_queue_get_config_reply_eq self other \<longleftrightarrow>
     ofp_header_eq self other \<and> qcr_port self = qcr_port other \<and>
     list_all2 ofp_packet_queue_eq (qcr_queues self) (qcr_queues other)"

lemma queue_get_config_reply_unpack_pack:
  assumes "ofp_queue_get_config_reply_pack as m nx = Inr (Some b, m', nx')"
  shows "\<exists>qs. concatE (map (\<lambda>i. needE (ofp_packet_queue_pack as i)) (qcr_queues m)) = Inr qs \<and>
    ofp_queue_get_config_reply_unpack s (b @ r) = Inr (m'\<lparr>qcr_queues := qcr_queues s\<rparr>, qs @ r)"
  using assms
  by (auto simp: ofp_queue_get_config_reply_pack_def ofp_queue_get_config_reply_unpack_def codec
      struct_pack_length split: if_splits elim!: ofp_header_pack_Inr)

subsection \<open>ofp\_port\_mod\<close>

record ofp_port_mod = ofp_header +
  pm_port_no :: int
  pm_hw_addr :: hw
  pm_config :: int
  pm_mask :: int
  pm_advertise :: int

definition ofp_port_mod_init :: "(ofp_port_mod \<Rightarrow> ofp_port_mod) \<Rightarrow> ofp_port_mod" where
  "ofp_port_mod_init kw =
     kw \<lparr>version = OFP_VERSION, header_type = OFPT_PORT_MOD, hlength = 32, xid = None,
      pm_port_no = 0, pm_hw_addr = HwEth EMPTY_ETH, pm_config = 0, pm_mask = 0, pm_advertise = 0\<rparr>"

definition ofp_port_mod_assert :: "ofp_port_mod \<Rightarrow> bool \<times> string option" where
  "ofp_port_mod_assert self =
     (if hw_len (pm_hw_addr self) \<noteq> 6 then (False, Some ''hw_addr is not of size 6'')
      else (True, None))"

definition ofp_port_mod_pack ::
    "bool \<Rightarrow> ofp_port_mod \<Rightarrow> int \<Rightarrow> (bytes option \<times> ofp_port_mod \<times> int) result" where
  "ofp_port_mod_pack assertstruct self nextXID =
     (if assertstruct \<and> \<not> fst (ofp_port_mod_assert self) then Inr (None, self, nextXID)
      else msg_packed (ofp_header_pack True self nextXID) (\<lambda>self. [
        struct_pack ''!H'' [pm_port_no self],
        Inr (hw_raw (pm_hw_addr self)),
        struct_pack ''!LLL'' [pm_config self, pm_mask self, pm_advertise self],
        Inr (PAD 4)]))"

definition ofp_port_mod_unpack :: "ofp_port_mod \<Rightarrow> bytes \<Rightarrow> (ofp_port_mod \<times> bytes) result" where
  "ofp_port_mod_unpack self b =
     (if length b < 32 then Inr (self, b)
      else bindE (ofp_header_unpack self b) (\<lambda>(self, _).
        bindE (struct_unpack_from ''!H'' b 8) (\<lambda>v.
        bindE (EthAddr_init (EaStr (slice 10 16 b))) (\<lambda>e.
        bindE (struct_unpack_from ''!LLL'' b 16) (\<lambda>w.
        Inr (self\<lparr>pm_port_no := v ! 0, pm_hw_addr := HwEth e, pm_config := w ! 0, pm_mask := w ! 1,
          pm_advertise := w ! 2\<rparr>, drop 32 b))))))"

definition ofp_port_mod_len :: "ofp_port_mod \<Rightarrow> int" where
  "ofp_port_mod_len self = 32"

definition ofp_port_mod_eq :: "ofp_port_mod \<Rightarrow> ofp_port_mod \<Rightarrow> bool" where
  "ofp_port_mod_eq self other \<longleftrightarrow>
     ofp_header_eq self other \<and> pm_port_no self = pm_port_no other \<and>
     hw_cmp_eq (Some (pm_hw_addr self)) (Some (pm_hw_addr other)) \<and>
     pm_config self = pm_config other \<and> pm_mask self = pm_mask other \<and>
     pm_advertise self = pm_advertise other"

definition ofp_port_mod_wf :: "ofp_port_mod \<Rightarrow> bool" where
  "ofp_port_mod_wf m \<longleftrightarrow> hlength m = 32 \<and> hw_text_safe (pm_hw_addr m)"

interpretation msg_port_mod: wire_message ofp_port_mod_pack ofp_port_mod_unpack ofp_port_mod_wf
  by unfold_locales
    (auto simp: ofp_port_mod_wf_def ofp_port_mod_pack_def ofp_port_mod_unpack_def codec
      struct_pack_length simp del: EthAddr_init.simps split: if_splits elim!: ofp_header_pack_Inr)

subsection \<open>ofp\_features\_reply\<close>

record ofp_features_reply = ofp_header +
  fr_datapath_id :: int
  fr_n_buffers :: int
  fr_n_tables :: int
  fr_capabilities :: int
  fr_actions :: int
  fr_ports :: "ofp_phy_port list"

definition ofp_features_reply_len :: "ofp_features_reply \<Rightarrow> int" where
  "ofp_features_reply_len self = 32 + 48 * int (length (fr_ports self))"

text \<open>The type and the length are set after the keyword arguments; packing does not update the length.\<close>

definition ofp_features_reply_init :: "(ofp_features_reply \<Rightarrow> ofp_features_reply) \<Rightarrow> ofp_features_reply" where
  "ofp_features_reply_init kw =
     (let self = kw \<lparr>version = OFP_VERSION, header_type = 0, hlength = 8, xid = None, fr_datapath_id = 0,
      fr_n_buffers = 0, fr_n_tables = 0, fr_capabilities = 0, fr_actions = 0, fr_ports = []\<rparr>
      in self\<lparr>header_type := OFPT_FEATURES_REPLY, hlength := ofp_features_reply_len self\<rparr>)"

definition ofp_features_reply_pack ::
    "bool \<Rightarrow> ofp_features_reply \<Rightarrow> int \<Rightarrow> (bytes option \<times> ofp_features_reply \<times> int) result" where
  "ofp_features_reply_pack assertstruct self nextXID =
     (if assertstruct \<and> \<not> fst (assert_true self) then Inr (None, self, nextXID)
      else msg_packed (ofp_header_pack True self nextXID) (\<lambda>self. [
        struct_pack ''!QLB'' [fr_datapath_id self, fr_n_buffers self, fr_n_tables self],
        Inr (PAD 3),
        struct_pack ''!LL'' [fr_capabilities self, fr_actions self],
        concatE (map (\<lambda>i. needE (ofp_phy_port_pack assertstruct i)) (fr_ports self))]))"

text \<open>\<^verbatim>\<open>(self.length - 32) / OFP_PHY_PORT_BYTES\<close> is a floor division; a negative count reads no port.\<close>

definition ofp_features_reply_unpack :: "ofp_features_reply \<Rightarrow> bytes \<Rightarrow> (ofp_features_reply \<times> bytes) result" where
  "ofp_features_reply_unpack self b =
     (if length b < 32 then Inr (self, b)
      else bindE (ofp_header_unpack self b) (\<lambda>(self, _).
        bindE (struct_unpack_from ''!QLB'' b 8) (\<lambda>v.
        bindE (struct_unpack_from ''!LL'' b 24) (\<lambda>w.
        let portCount = (hlength self - 32) div OFP_PHY_PORT_BYTES in
        bindE (unpack_array (ofp_phy_port_init id) ofp_phy_port_unpack 48 32 (nat portCount) b) (\<lambda>ports.
        Inr (self\<lparr>fr_datapath_id := v ! 0, fr_n_buffers := v ! 1, fr_n_tables := v ! 2,
            fr_capabilities := w ! 0, fr_actions := w ! 1, fr_ports := ports\<rparr>,
          drop_int (hlength self) b))))))"

definition ofp_features_reply_eq :: "ofp_features_reply \<Rightarrow> ofp_features_reply \<Rightarrow> bool" where
  "ofp_features_reply_eq self other \<longleftrightarrow>
     ofp_header_eq self other \<and> fr_datapath_id self = fr_datapath_id other \<and>
     fr_n_buffers self = fr_n_buffers other \<and> fr_n_tables self = fr_n_tables other \<and>
     fr_capabilities self = fr_capabilities other \<and>
     fr_actions self = fr_actions other \<and>
     list_all2 ofp_phy_port_eq (fr_ports self) (fr_ports other)"

definition ofp_features_reply_wf :: "ofp_features_reply \<Rightarrow> bool" where
  "ofp_features_reply_wf m \<longleftrightarrow>
     hlength m = ofp_features_reply_len m \<and> (\<forall>p \<in> set (fr_ports m). ofp_phy_port_wf p)"

lemma features_reply_parts:
  assumes "ofp_features_reply_pack as m nx = Inr (Some b, m', nx')" "ofp_features_reply_wf m"
  obtains h x y ps where "b = (h @ x @ PAD 3 @ y) @ ps" "length (h @ x @ PAD 3 @ y) = 32"
    "ofp_header_pack True m nx = Inr (h, m', nx')"
    "struct_pack ''!QLB'' [fr_datapath_id m', fr_n_buffers m', fr_n_tables m'] = Inr x"
    "struct_pack ''!LL'' [fr_capabilities m', fr_actions m'] = Inr y"
    "concatE (map (\<lambda>i. needE (ofp_phy_port_pack as i)) (fr_ports m')) = Inr ps"
    "hlength m' = int (length b)" "\<forall>p \<in> set (fr_ports m'). ofp_phy_port_wf p"
    "length ps = 48 * length (fr_ports m')"
proof -
  obtain h x y ps where b: "b = h @ x @ PAD 3 @ y @ ps"
    and h: "ofp_header_pack True m nx = Inr (h, m', nx')"
    and x: "struct_pack ''!QLB'' [fr_datapath_id m', fr_n_buffers m', fr_n_tables m'] = Inr x"
    and y: "struct_pack ''!LL'' [fr_capabilities m', fr_actions m'] = Inr y"
    and ps: "concatE (map (\<lambda>i. needE (ofp_phy_port_pack as i)) (fr_ports m')) = Inr ps"
    using assms(1) by (auto simp: ofp_features_reply_pack_def codec split: if_splits)
  obtain i where m': "m' = m\<lparr>xid := Some i\<rparr>" using h by (rule ofp_header_pack_Inr)
  have wf: "\<forall>p \<in> set (fr_ports m'). ofp_phy_port_wf p" "hlength m' = 32 + 48 * int (length (fr_ports m'))"
    using assms(2) m' by (auto simp: ofp_features_reply_wf_def ofp_features_reply_len_def)
  have "length ps = 48 * length (fr_ports m')"
    using phy_port.concat_pack_size [OF wf(1) ps] by (simp add: ofp_phy_port_len_def)
  moreover have "length (h @ x @ PAD 3 @ y) = 32"
    using ofp_header_pack_length [OF h] x y by (auto dest!: struct_pack_length)
  ultimately show thesis
    using that [of h x y ps] b h x y ps wf by auto
qed

interpretation msg_features_reply:
  wire_message ofp_features_reply_pack ofp_features_reply_unpack ofp_features_reply_wf
proof
  fix m as nx b m' nx'
  assume wf: "ofp_features_reply_wf m" and p: "ofp_features_reply_pack as m nx = Inr (Some b, m', nx')"
  obtain h x y ps where b: "b = (h @ x @ PAD 3 @ y) @ ps" "length (h @ x @ PAD 3 @ y) = 32"
    and h: "ofp_header_pack True m nx = Inr (h, m', nx')"
    and x: "struct_pack ''!QLB'' [fr_datapath_id m', fr_n_buffers m', fr_n_tables m'] = Inr x"
    and y: "struct_pack ''!LL'' [fr_capabilities m', fr_actions m'] = Inr y"
    and ps: "concatE (map (\<lambda>i. needE (ofp_phy_port_pack as i)) (fr_ports m')) = Inr ps"
    and n: "hlength m' = int (length b)" "\<forall>p \<in> set (fr_ports m'). ofp_phy_port_wf p"
    and np: "length ps = 48 * length (fr_ports m')"
    using features_reply_parts [OF p wf] by blast
  show "int (length b) = hlength m'" using n by simp
  fix self :: ofp_features_reply and r
  have arr: "unpack_array (ofp_phy_port_init id) ofp_phy_port_unpack 48 32 (length (fr_ports m')) (b @ r) =
      Inr (fr_ports m')"
    using phy_port.unpack_array_pack [OF n(2) ps b(2)] by (simp add: b(1) ofp_phy_port_len_def)
  have cnt: "nat ((hlength m' - 32) div 48) = length (fr_ports m')"
    using n(1) b np by simp
  have len: "length h = 8" "length x = 13" "length y = 8"
    using ofp_header_pack_length [OF h] x y by (auto dest!: struct_pack_length)
  have hd: "ofp_header_unpack self (b @ r) = Inr (self\<lparr>version := version m', header_type := header_type m',
      hlength := hlength m', xid := xid m'\<rparr>, drop 8 (b @ r))"
    using ofp_header_unpack_pack [OF h, of self] len by (simp add: b)
  have u: "struct_unpack_from ''!QLB'' (b @ r) 8 = Inr [fr_datapath_id m', fr_n_buffers m', fr_n_tables m']"
    "struct_unpack_from ''!LL'' (b @ r) 24 = Inr [fr_capabilities m', fr_actions m']"
    using len struct_fields_pack [OF x] struct_fields_pack [OF y]
    by (simp_all add: b struct_unpack_from_def)
  have big: "\<not> length (b @ r) < 32" and rest: "drop_int (hlength m') (b @ r) = r"
    using b(2) by (simp_all only: n(1) drop_int_of_nat) (simp_all add: b(1))
  show "ofp_features_reply_unpack self (b @ r) = Inr (m', r)"
    using big by (simp add: ofp_features_reply_unpack_def hd u arr cnt rest Let_def del: length_append)
qed

subsection \<open>ofp\_echo\_request\<close>

record ofp_echo_request = ofp_header +
  eq_body :: bytes

definition ofp_echo_request_init :: "(ofp_echo_request \<Rightarrow> ofp_echo_request) \<Rightarrow> ofp_echo_request" where
  "ofp_echo_request_init kw =
     kw \<lparr>version = OFP_VERSION, header_type = OFPT_ECHO_REQUEST, hlength = 8, xid = None,
      eq_body = ''''\<rparr>"

definition ofp_echo_request_pack ::
    "bool \<Rightarrow> ofp_echo_request \<Rightarrow> int \<Rightarrow> (bytes option \<times> ofp_echo_request \<times> int) result" where
  "ofp_echo_request_pack assertstruct self nextXID =
     (if assertstruct \<and> \<not> fst (assert_true self) then Inr (None, self, nextXID)
      else msg_packed (ofp_header_pack True self nextXID) (\<lambda>self. [
        Inr (eq_body self)]))"

definition ofp_echo_request_unpack :: "ofp_echo_request \<Rightarrow> bytes \<Rightarrow> (ofp_echo_request \<times> bytes) result" where
  "ofp_echo_request_unpack self b =
     (if length b < 8 then Inr (self, b)
      else bindE (ofp_header_unpack self b) (\<lambda>(self, _).
        if int (length b) < hlength self then Inr (self, b)
        else let l = hlength self - 8
             in Inr (self\<lparr>eq_body := slice_int 8 (8 + l) b\<rparr>, drop_int (8 + l) b)))"

definition ofp_echo_request_len :: "ofp_echo_request \<Rightarrow> int" where
  "ofp_echo_request_len self = 8 + int (length (eq_body self))"

definition ofp_echo_request_eq :: "ofp_echo_request \<Rightarrow> ofp_echo_request \<Rightarrow> bool" where
  "ofp_echo_request_eq self other \<longleftrightarrow>
     ofp_header_eq self other \<and> eq_body self = eq_body other"

definition ofp_echo_request_wf :: "ofp_echo_request \<Rightarrow> bool" where
  "ofp_echo_request_wf m \<longleftrightarrow> hlength m = ofp_echo_request_len m"

interpretation msg_echo_request: wire_message ofp_echo_request_pack ofp_echo_request_unpack ofp_echo_request_wf
  by unfold_locales
    (auto simp: ofp_echo_request_wf_def ofp_echo_request_pack_def ofp_echo_request_unpack_def codec
      struct_pack_length
      ofp_echo_request_len_def slice_int_def slice_bound_def drop_int_def slice_def split: if_splits elim!: ofp_header_pack_Inr)

subsection \<open>ofp\_echo\_reply\<close>

record ofp_echo_reply = ofp_header +
  er_body :: bytes

definition ofp_echo_reply_init :: "(ofp_echo_reply \<Rightarrow> ofp_echo_reply) \<Rightarrow> ofp_echo_reply" where
  "ofp_echo_reply_init kw =
     kw \<lparr>version = OFP_VERSION, header_type = OFPT_ECHO_REPLY, hlength = 8, xid = None,
      er_body = ''''\<rparr>"

definition ofp_echo_reply_pack ::
    "bool \<Rightarrow> ofp_echo_reply \<Rightarrow> int \<Rightarrow> (bytes option \<times> ofp_echo_reply \<times> int) result" where
  "ofp_echo_reply_pack assertstruct self nextXID =
     (if assertstruct \<and> \<not> fst (assert_true self) then Inr (None, self, nextXID)
      else msg_packed (ofp_header_pack True self nextXID) (\<lambda>self. [
        Inr (er_body self)]))"

definition ofp_echo_reply_unpack :: "ofp_echo_reply \<Rightarrow> bytes \<Rightarrow> (ofp_echo_reply \<times> bytes) result" where
  "ofp_echo_reply_unpack self b =
     (if length b < 8 then Inr (self, b)
      else bindE (ofp_header_unpack self b) (\<lambda>(self, _).
        if int (length b) < hlength self then Inr (self, b)
        else let l = hlength self - 8
             in Inr (self\<lparr>er_body := slice_int 8 (8 + l) b\<rparr>, drop_int (8 + l) b)))"

definition ofp_echo_reply_len :: "ofp_echo_reply \<Rightarrow> int" where
  "ofp_echo_reply_len self = 8 + int (length (er_body self))"

definition ofp_echo_reply_eq :: "ofp_echo_reply \<Rightarrow> ofp_echo_reply \<Rightarrow> bool" where
  "ofp_echo_reply_eq self other \<longleftrightarrow>
     ofp_header_eq self other \<and> er_body self = er_body other"

definition ofp_echo_reply_wf :: "ofp_echo_reply \<Rightarrow> bool" where
  "ofp_echo_reply_wf m \<longleftrightarrow> hlength m = ofp_echo_reply_len m"

interpretation msg_echo_reply: wire_message ofp_echo_reply_pack ofp_echo_reply_unpack ofp_echo_reply_wf
  by unfold_locales
    (auto simp: ofp_echo_reply_wf_def ofp_echo_reply_pack_def ofp_echo_reply_unpack_def codec
      struct_pack_length
      ofp_echo_reply_len_def slice_int_def slice_bound_def drop_int_def slice_def split: if_splits elim!: ofp_header_pack_Inr)

subsection \<open>ofp\_vendor\_header\<close>

record ofp_vendor_header = ofp_header +
  vh_vendor :: int

definition ofp_vendor_header_init :: "(ofp_vendor_header \<Rightarrow> ofp_vendor_header) \<Rightarrow> ofp_vendor_header" where
  "ofp_vendor_header_init kw =
     kw \<lparr>version = OFP_VERSION, header_type = OFPT_VENDOR, hlength = 8, xid = None, vh_vendor = 0\<rparr>"

definition ofp_vendor_header_pack ::
    "bool \<Rightarrow> ofp_vendor_header \<Rightarrow> int \<Rightarrow> (bytes option \<times> ofp_vendor_header \<times> int) result" where
  "ofp_vendor_header_pack assertstruct self nextXID =
     (if assertstruct \<and> \<not> fst (assert_true self) then Inr (None, self, nextXID)
      else msg_packed (ofp_header_pack True self nextXID) (\<lambda>self. [
        struct_pack ''!L'' [vh_vendor self]]))"

definition ofp_vendor_header_unpack :: "ofp_vendor_header \<Rightarrow> bytes \<Rightarrow> (ofp_vendor_header \<times> bytes) result" where
  "ofp_vendor_header_unpack self b =
     (if length b < 12 then Inr (self, b)
      else bindE (ofp_header_unpack self b) (\<lambda>(self, _).
        bindE (struct_unpack_from ''!L'' b 8) (\<lambda>v.
        Inr (self\<lparr>vh_vendor := v ! 0\<rparr>, drop 12 b))))"

definition ofp_vendor_header_len :: "ofp_vendor_header \<Rightarrow> int" where
  "ofp_vendor_header_len self = 12"

definition ofp_vendor_header_eq :: "ofp_vendor_header \<Rightarrow> ofp_vendor_header \<Rightarrow> bool" where
  "ofp_vendor_header_eq self other \<longleftrightarrow>
     ofp_header_eq self other \<and> vh_vendor self = vh_vendor other"

definition ofp_vendor_header_wf :: "ofp_vendor_header \<Rightarrow> bool" where
  "ofp_vendor_header_wf m \<longleftrightarrow> hlength m = 12"

interpretation msg_vendor_header: wire_message ofp_vendor_header_pack ofp_vendor_header_unpack ofp_vendor_header_wf
  by unfold_locales
    (auto simp: ofp_vendor_header_wf_def ofp_vendor_header_pack_def ofp_vendor_header_unpack_def codec
      struct_pack_length split: if_splits elim!: ofp_header_pack_Inr)

subsection \<open>ofp\_vendor\<close>

record ofp_vendor = ofp_header +
  ve_vendor :: int
  ve_data :: bytes

definition ofp_vendor_init :: "(ofp_vendor \<Rightarrow> ofp_vendor) \<Rightarrow> ofp_vendor" where
  "ofp_vendor_init kw =
     kw \<lparr>version = OFP_VERSION, header_type = OFPT_VENDOR, hlength = 12, xid = None,
      ve_vendor = 0, ve_data = ''''\<rparr>"

text \<open>The length is updated after the check, on the object. Data with a \<^verbatim>\<open>pack\<close> of its own is taken packed.\<close>

definition ofp_vendor_pack ::
    "bool \<Rightarrow> ofp_vendor \<Rightarrow> int \<Rightarrow> (bytes option \<times> ofp_vendor \<times> int) result" where
  "ofp_vendor_pack assertstruct self nextXID =
     (if assertstruct \<and> \<not> fst (assert_true self) then Inr (None, self, nextXID)
      else let self = self\<lparr>hlength := 12 + int (length (ve_data self))\<rparr> in
        msg_packed (ofp_header_pack True self nextXID) (\<lambda>self. [
        struct_pack ''!L'' [ve_vendor self],
        Inr (ve_data self)]))"

definition ofp_vendor_unpack :: "ofp_vendor \<Rightarrow> bytes \<Rightarrow> (ofp_vendor \<times> bytes) result" where
  "ofp_vendor_unpack self b =
     (if length b < 12 then Inr (self, b)
      else bindE (ofp_header_unpack self b) (\<lambda>(self, _).
        bindE (struct_unpack_from ''!L'' b 8) (\<lambda>v.
        let self = self\<lparr>ve_vendor := v ! 0\<rparr> in
        if int (length b) < hlength self then Inr (self, b)
        else Inr (self\<lparr>ve_data := slice_int 12 (hlength self) b\<rparr>, drop_int (hlength self) b))))"

definition ofp_vendor_len :: "ofp_vendor \<Rightarrow> int" where
  "ofp_vendor_len self = 12 + int (length (ve_data self))"

definition ofp_vendor_eq :: "ofp_vendor \<Rightarrow> ofp_vendor \<Rightarrow> bool" where
  "ofp_vendor_eq self other \<longleftrightarrow>
     ofp_header_eq self other \<and> ve_vendor self = ve_vendor other \<and>
     ve_data self = ve_data other"

definition ofp_vendor_wf :: "ofp_vendor \<Rightarrow> bool" where
  "ofp_vendor_wf m \<longleftrightarrow> True"

interpretation msg_vendor: wire_message ofp_vendor_pack ofp_vendor_unpack ofp_vendor_wf
  by unfold_locales
    (auto simp: ofp_vendor_wf_def ofp_vendor_pack_def ofp_vendor_unpack_def codec
      struct_pack_length
      slice_int_def slice_bound_def drop_int_def slice_def Let_def split: if_splits elim!: ofp_header_pack_Inr)

subsection \<open>ofp\_packet\_in\<close>

record ofp_packet_in = ofp_header +
  pi_in_port :: int
  pi_buffer_id :: int
  pi_reason :: int
  pi_data :: "bytes option"
  pi_total_len :: int

text \<open>
  The \<^verbatim>\<open>data\<close> property: \<^verbatim>\<open>None\<close> is stored as the empty string, a packet in its packed form. The type
  and \<^verbatim>\<open>_total_len\<close> are set after the keyword arguments.
\<close>

definition pi_set_data :: "bytes option \<Rightarrow> ofp_packet_in \<Rightarrow> ofp_packet_in" where
  "pi_set_data data self = self\<lparr>pi_data := Some (case data of None \<Rightarrow> [] | Some d \<Rightarrow> d)\<rparr>"

definition ofp_packet_in_init :: "(ofp_packet_in \<Rightarrow> ofp_packet_in) \<Rightarrow> ofp_packet_in" where
  "ofp_packet_in_init kw =
     (let self = kw (pi_set_data None
            \<lparr>version = OFP_VERSION, header_type = 0, hlength = 8, xid = None, pi_in_port = OFPP_NONE,
              pi_buffer_id = -1, pi_reason = 0, pi_data = None, pi_total_len = 0\<rparr>)
      in self\<lparr>header_type := OFPT_PACKET_IN, pi_total_len := 0\<rparr>)"

definition ofp_packet_in_len :: "ofp_packet_in \<Rightarrow> int result" where
  "ofp_packet_in_len self =
     (case pi_data self of None \<Rightarrow> Inl TypeError | Some d \<Rightarrow> Inr (18 + int (length d)))"

definition ofp_packet_in_assert :: "ofp_packet_in \<Rightarrow> bool \<times> string option" where
  "ofp_packet_in_assert self =
     (if pi_data self = None then (False, Some ''ofp_packet_in: data should be raw byte string'') else (True, None))"

definition ofp_packet_in_pack ::
    "bool \<Rightarrow> ofp_packet_in \<Rightarrow> int \<Rightarrow> (bytes option \<times> ofp_packet_in \<times> int) result" where
  "ofp_packet_in_pack assertstruct self nextXID =
     (if assertstruct \<and> \<not> fst (ofp_packet_in_assert self) then Inl AssertionError
      else bindE (ofp_packet_in_len self) (\<lambda>n.
        let self = self\<lparr>hlength := n, pi_total_len := n\<rparr>
        in msg_packed (ofp_header_pack True self nextXID) (\<lambda>self. [
             struct_pack ''!LHHBB'' [pi_buffer_id self AND 0xffffffff, pi_total_len self,
               pi_in_port self, pi_reason self, 0],
             (case pi_data self of None \<Rightarrow> Inl TypeError | Some d \<Rightarrow> Inr d)])))"

text \<open>A buffer id as unpacking stores it: all ones stands for none, -1.\<close>

definition buffer_id_in :: "int \<Rightarrow> int" where
  "buffer_id_in n = (if n = 0xffffffff then -1 else n)"

definition ofp_packet_in_unpack :: "ofp_packet_in \<Rightarrow> bytes \<Rightarrow> (ofp_packet_in \<times> bytes) result" where
  "ofp_packet_in_unpack self b =
     (if length b < 18 then Inr (self, b)
      else bindE (ofp_header_unpack self b) (\<lambda>(self, _).
        bindE (struct_unpack_from ''!LHHBB'' b 8) (\<lambda>v.
        let self = self\<lparr>pi_buffer_id := buffer_id_in (v ! 0),
              pi_total_len := v ! 1, pi_in_port := v ! 2, pi_reason := v ! 3\<rparr>
        in if int (length b) < hlength self then Inr (self, b)
           else Inr (self\<lparr>pi_data := Some (slice_int 18 (hlength self) b)\<rparr>, drop_int (hlength self) b))))"

definition ofp_packet_in_eq :: "ofp_packet_in \<Rightarrow> ofp_packet_in \<Rightarrow> bool" where
  "ofp_packet_in_eq self other \<longleftrightarrow>
     ofp_header_eq self other \<and> pi_buffer_id self = pi_buffer_id other \<and>
     pi_total_len self = pi_total_len other \<and> pi_in_port self = pi_in_port other \<and>
     pi_reason self = pi_reason other \<and> pi_data self = pi_data other"

definition buffer_id_ok :: "int \<Rightarrow> bool" where
  "buffer_id_ok n \<longleftrightarrow> -1 \<le> n \<and> n < 0xffffffff"

lemma buffer_id_wire [simp]:
  "buffer_id_ok n \<Longrightarrow> buffer_id_in (n AND 0xffffffff) = n"
proof -
  assume "buffer_id_ok n"
  moreover have "n AND 0xffffffff = n mod 2 ^ 32"
    using and_mask32 [of n] by (simp add: mask32_def)
  ultimately show ?thesis
    by (cases "n = -1") (auto simp: buffer_id_ok_def buffer_id_in_def mod_pos_pos_trivial)
qed

definition ofp_packet_in_wf :: "ofp_packet_in \<Rightarrow> bool" where
  "ofp_packet_in_wf m \<longleftrightarrow> buffer_id_ok (pi_buffer_id m)"

interpretation msg_packet_in: wire_message ofp_packet_in_pack ofp_packet_in_unpack ofp_packet_in_wf
proof
  fix m as nx b m' nx'
  assume wf: "ofp_packet_in_wf m" and p: "ofp_packet_in_pack as m nx = Inr (Some b, m', nx')"
  obtain d where d: "pi_data m = Some d"
    using p by (cases "pi_data m") (auto simp: ofp_packet_in_pack_def ofp_packet_in_len_def split: if_splits)
  define n where "n = m\<lparr>hlength := 18 + int (length d), pi_total_len := 18 + int (length d)\<rparr>"
  have "msg_packed (ofp_header_pack True n nx) (\<lambda>self. [
      struct_pack ''!LHHBB'' [pi_buffer_id self AND 0xffffffff, pi_total_len self, pi_in_port self, pi_reason self, 0],
      (case pi_data self of None \<Rightarrow> Inl TypeError | Some d \<Rightarrow> Inr d)]) = Inr (Some b, m', nx')"
    using p by (simp add: ofp_packet_in_pack_def ofp_packet_in_len_def d Let_def n_def split: if_splits)
  then obtain h x e where hp: "ofp_header_pack True n nx = Inr (h, m', nx')"
    and x: "struct_pack ''!LHHBB'' [pi_buffer_id m' AND 0xffffffff, pi_total_len m', pi_in_port m', pi_reason m', 0] = Inr x"
    and e: "(case pi_data m' of None \<Rightarrow> Inl TypeError | Some d \<Rightarrow> Inr d) = Inr e" and b: "b = h @ x @ e"
    by (auto simp: codec)
  obtain i where m': "m' = n\<lparr>xid := Some i\<rparr>" using hp by (rule ofp_header_pack_Inr)
  have d': "pi_data m' = Some d" "e = d" "buffer_id_ok (pi_buffer_id m')" "hlength m' = int (18 + length d)"
    using e d wf by (simp_all add: m' n_def ofp_packet_in_wf_def)
  have l: "length h = 8" "length x = 10" using ofp_header_pack_length [OF hp] x by (auto dest!: struct_pack_length)
  show "int (length b) = hlength m'" by (simp add: b l d')
  fix self :: ofp_packet_in and r
  have sf: "struct_fields ''!LHHBB'' (x @ s) = [pi_buffer_id m' AND 0xffffffff, pi_total_len m', pi_in_port m', pi_reason m', 0]" for s
    by (rule struct_fields_pack [OF x])
  have rest: "drop_int (hlength m') (h @ x @ d @ r) = r" "slice_int 18 (hlength m') (h @ x @ d @ r) = d"
    using l by (simp_all only: d'(4) drop_int_of_nat slice_int_of_nat) (simp_all add: slice_def)
  have "\<not> int (18 + length d + length r) < hlength m'" by (simp add: d'(4))
  then show "ofp_packet_in_unpack self (b @ r) = Inr (m', r)"
    using l ofp_header_unpack_pack [OF hp, of self "x @ d @ r"]
    by (simp add: ofp_packet_in_unpack_def b sf d'(1-3) rest Let_def struct_unpack_from_def)
qed

subsection \<open>ofp\_packet\_out\<close>

record ofp_packet_out = ofp_header +
  po_buffer_id :: int
  po_in_port :: int
  po_actions :: "ofp_action list"
  po_data :: bytes

definition ofp_packet_out_init :: "(ofp_packet_out \<Rightarrow> ofp_packet_out) \<Rightarrow> ofp_packet_out" where
  "ofp_packet_out_init kw =
     kw \<lparr>version = OFP_VERSION, header_type = OFPT_PACKET_OUT, hlength = 8, xid = None,
      po_buffer_id = -1, po_in_port = OFPP_NONE, po_actions = [], po_data = ''''\<rparr>"

definition po_set_data :: "bytes option \<Rightarrow> ofp_packet_out \<Rightarrow> ofp_packet_out" where
  "po_set_data data self = self\<lparr>po_data := case data of None \<Rightarrow> [] | Some d \<Rightarrow> d\<rparr>"

text \<open>\<^verbatim>\<open>_assert\<close> returns a message or \<^verbatim>\<open>True\<close> (here \<open>None\<close>).\<close>

definition ofp_packet_out_assert :: "ofp_packet_out \<Rightarrow> string option" where
  "ofp_packet_out_assert self =
     (if po_buffer_id self \<noteq> -1 \<and> po_data self \<noteq> [] then Some ''can not have both buffer_id and data set''
      else None)"

definition ofp_packet_out_pack ::
    "bool \<Rightarrow> ofp_packet_out \<Rightarrow> int \<Rightarrow> (bytes option \<times> ofp_packet_out \<times> int) result" where
  "ofp_packet_out_pack assertstruct self nextXID =
     (if assertstruct \<and> ofp_packet_out_assert self \<noteq> None then Inl RuntimeError
      else bindE (pack_actions assertstruct (po_actions self)) (\<lambda>(actions, acts).
        let actions_len = int (length actions);
            self = self\<lparr>po_actions := acts, hlength := 16 + actions_len + int (length (po_data self))\<rparr>
        in msg_packed (ofp_header_pack True self nextXID) (\<lambda>self. [
             struct_pack ''!LHH'' [po_buffer_id self AND 0xffffffff, po_in_port self, actions_len],
             Inr actions,
             Inr (po_data self)])))"

definition ofp_packet_out_unpack :: "ofp_packet_out \<Rightarrow> bytes \<Rightarrow> (ofp_packet_out \<times> bytes) result" where
  "ofp_packet_out_unpack self b =
     (if length b < 16 then Inr (self, b)
      else bindE (ofp_header_unpack self b) (\<lambda>(self, _).
        bindE (struct_unpack_from ''!LHH'' b 8) (\<lambda>v.
        let self = self\<lparr>po_buffer_id := buffer_id_in (v ! 0), po_in_port := v ! 1\<rparr>
        in bindE (unpack_actions b (v ! 2) 16) (\<lambda>(actions, off).
             Inr (po_set_data (if int off < hlength self then Some (slice_int off (hlength self) b) else None)
                    (self\<lparr>po_actions := actions\<rparr>),
                  drop_int (hlength self) b)))))"

text \<open>\<^verbatim>\<open>a.length\<close> is the attribute, not the size; \<^verbatim>\<open>==\<close> does not look at the data.\<close>

fun action_length_attr :: "ofp_action \<Rightarrow> int" where
  "action_length_attr (ActHeader a) = ah_length a"
| "action_length_attr (ActDecTtl a) = ah_length a"
| "action_length_attr (ActResubmit a) = ah_length a"
| "action_length_attr (ActOutput a) = ao_length a"
| "action_length_attr (ActEnqueue a) = aq_length a"
| "action_length_attr (ActPushMpls a) = apm_length a"
| "action_length_attr (ActMplsLabel a) = aml_length a"
| "action_length_attr (ActMplsTc a) = amc_length a"
| "action_length_attr (ActMplsTtl a) = amt_length a"
| "action_length_attr (ActPopMpls a) = app_length a"
| "action_length_attr (ActVlanVid a) = avv_length a"
| "action_length_attr (ActVlanPcp a) = avp_length a"
| "action_length_attr (ActDlAddr a) = ada_length a"
| "action_length_attr (ActNwAddr a) = ana_length a"
| "action_length_attr (ActNwTos a) = ant_length a"
| "action_length_attr (ActTpPort a) = atp_length a"
| "action_length_attr (ActVendorHeader a) = avh_length a"

definition ofp_packet_out_len :: "ofp_packet_out \<Rightarrow> int" where
  "ofp_packet_out_len self = 16 + sum_list (map action_length_attr (po_actions self)) + int (length (po_data self))"

definition ofp_packet_out_eq :: "ofp_packet_out \<Rightarrow> ofp_packet_out \<Rightarrow> bool" where
  "ofp_packet_out_eq self other \<longleftrightarrow>
     ofp_header_eq self other \<and> po_buffer_id self = po_buffer_id other \<and>
     po_in_port self = po_in_port other \<and>
     list_all2 ofp_action_eq (po_actions self) (po_actions other)"

definition ofp_packet_out_wf :: "ofp_packet_out \<Rightarrow> bool" where
  "ofp_packet_out_wf m \<longleftrightarrow> buffer_id_ok (po_buffer_id m) \<and> (\<forall>a \<in> set (po_actions m). action_wf a)"

interpretation msg_packet_out: wire_message ofp_packet_out_pack ofp_packet_out_unpack ofp_packet_out_wf
proof
  fix m as nx b m' nx'
  assume wf: "ofp_packet_out_wf m" and p: "ofp_packet_out_pack as m nx = Inr (Some b, m', nx')"
  from p obtain h x acts acts' n where b: "b = h @ x @ acts @ po_data m'"
    and n: "n = m\<lparr>po_actions := acts', hlength := 16 + int (length acts) + int (length (po_data m))\<rparr>"
    and hp: "ofp_header_pack True n nx = Inr (h, m', nx')"
    and x: "struct_pack ''!LHH'' [po_buffer_id m' AND 0xffffffff, po_in_port m', int (length acts)] = Inr x"
    and acts: "pack_actions as (po_actions m) = Inr (acts, acts')"
    by (auto simp: ofp_packet_out_pack_def codec Let_def split: if_splits)
  obtain i where "m' = n\<lparr>xid := Some i\<rparr>" using hp by (rule ofp_header_pack_Inr)
  then have len: "hlength m' = 16 + int (length acts) + int (length (po_data m'))"
    and bid: "buffer_id_ok (po_buffer_id m')" and acts': "acts' = po_actions m'"
    using wf by (simp_all add: n ofp_packet_out_wf_def)
  note acts = acts [unfolded acts']
  have l: "length h = 8" "length x = 8" using ofp_header_pack_length [OF hp] x by (auto dest!: struct_pack_length)
  show "int (length b) = hlength m'" using b len l by simp
  fix self :: ofp_packet_out and r
  have u: "unpack_actions (h @ x @ acts @ po_data m' @ r) (int (length acts)) 16 = Inr (po_actions m', 16 + length acts)"
    using unpack_actions_pack [OF acts, of "h @ x" 16 "int (length acts)" "po_data m' @ r"] wf l
    by (simp add: ofp_packet_out_wf_def)
  have rest: "drop_int (16 + int (length acts) + int (length (po_data m'))) (h @ x @ acts @ po_data m' @ r) = r"
    "slice_int (16 + length acts) (16 + int (length acts) + int (length (po_data m'))) (h @ x @ acts @ po_data m' @ r) = po_data m'"
    using l by (simp_all add: drop_int_def slice_int_def slice_bound_def slice_def nat_add_distrib)
  have sf: "struct_fields ''!LHH'' (x @ s) = [po_buffer_id m' AND 0xffffffff, po_in_port m', int (length acts)]" for s
    by (rule struct_fields_pack [OF x])
  show "ofp_packet_out_unpack self (b @ r) = Inr (m', r)"
    unfolding ofp_packet_out_unpack_def
    using l ofp_header_unpack_pack [OF hp, of self "x @ acts @ po_data m' @ r"] bid
    by (simp add: b sf u len rest Let_def struct_unpack_from_def po_set_data_def)
qed

subsection \<open>ofp\_flow\_mod\<close>

record ofp_flow_mod = ofp_header +
  fm_match :: ofp_match
  fm_cookie :: int
  fm_command :: int
  fm_idle_timeout :: int
  fm_hard_timeout :: int
  fm_priority :: int
  fm_buffer_id :: "int option"
  fm_out_port :: int
  fm_flags :: int
  fm_actions :: "ofp_action list"

definition ofp_flow_mod_init :: "(ofp_flow_mod \<Rightarrow> ofp_flow_mod) \<Rightarrow> ofp_flow_mod" where
  "ofp_flow_mod_init kw =
     kw \<lparr>version = OFP_VERSION, header_type = OFPT_FLOW_MOD, hlength = 8, xid = None,
      fm_match = ofp_match_new, fm_cookie = 0, fm_command = OFPFC_ADD, fm_idle_timeout = 0,
      fm_hard_timeout = 0, fm_priority = OFP_DEFAULT_PRIORITY, fm_buffer_id = Some (-1),
      fm_out_port = OFPP_NONE, fm_flags = 0, fm_actions = []\<rparr>"

definition ofp_flow_mod_len :: "ofp_flow_mod \<Rightarrow> int" where
  "ofp_flow_mod_len self = 32 + ofp_match_len + actions_len (fm_actions self)"

text \<open>A \<^verbatim>\<open>buffer_id\<close> of \<^verbatim>\<open>None\<close>, which a flow table entry may bring in, cannot be masked.\<close>

definition mask_arg :: "int option \<Rightarrow> int result" where
  "mask_arg v = (case v of None \<Rightarrow> Inl TypeError | Some n \<Rightarrow> Inr (n AND 0xffffffff))"

lemma mask_arg_Inr_iff [codec]: "mask_arg v = Inr k \<longleftrightarrow> (\<exists>n. v = Some n \<and> k = n AND 0xffffffff)"
  by (auto simp: mask_arg_def split: option.splits)

definition flow_mod_mid :: "ofp_flow_mod \<Rightarrow> int \<Rightarrow> int list" where
  "flow_mod_mid self bid = [fm_cookie self, fm_command self, fm_idle_timeout self, fm_hard_timeout self,
     fm_priority self, bid, fm_out_port self, fm_flags self]"

definition ofp_flow_mod_pack ::
    "bool \<Rightarrow> ofp_flow_mod \<Rightarrow> int \<Rightarrow> (bytes option \<times> ofp_flow_mod \<times> int) result" where
  "ofp_flow_mod_pack assertstruct self nextXID =
     (if assertstruct \<and> \<not> fst (assert_true self) then Inr (None, self, nextXID)
      else
        let self = self\<lparr>hlength := ofp_flow_mod_len self\<rparr>
        in bindE (ofp_header_pack True self nextXID) (\<lambda>(h, self, nextXID).
           bindE (ofp_match_pack True True (fm_match self)) (\<lambda>m.
           bindE (bindE (mask_arg (fm_buffer_id self)) (\<lambda>bid. struct_pack ''!QHHHHLHH'' (flow_mod_mid self bid))) (\<lambda>x.
           bindE (pack_actions assertstruct (fm_actions self)) (\<lambda>(a, acts).
             Inr (Some (h @ m @ x @ a), self\<lparr>fm_actions := acts\<rparr>, nextXID))))))"

definition ofp_flow_mod_unpack :: "ofp_flow_mod \<Rightarrow> bytes \<Rightarrow> (ofp_flow_mod \<times> bytes) result" where
  "ofp_flow_mod_unpack self b =
     (if length b < 72 then Inr (self, b)
      else bindE (ofp_header_unpack self b) (\<lambda>(self, _).
        bindE (ofp_match_unpack True (fm_match self) (drop 8 b)) (\<lambda>(m, _).
        bindE (struct_unpack_from ''!QHHHHLHH'' b (nat (8 + ofp_match_len))) (\<lambda>v.
        let self = self\<lparr>fm_match := m, fm_cookie := v ! 0, fm_command := v ! 1, fm_idle_timeout := v ! 2,
              fm_hard_timeout := v ! 3, fm_priority := v ! 4,
              fm_buffer_id := Some (buffer_id_in (v ! 5)),
              fm_out_port := v ! 6, fm_flags := v ! 7\<rparr>
        in bindE (unpack_actions b (hlength self - (32 + ofp_match_len)) (nat (32 + ofp_match_len))) (\<lambda>(actions, off).
             let self = self\<lparr>fm_actions := actions\<rparr>
             in if int off \<noteq> hlength self then Inl AssertionError
                else Inr (self, drop off b))))))"

definition ofp_flow_mod_eq :: "ofp_flow_mod \<Rightarrow> ofp_flow_mod \<Rightarrow> bool result" where
  "ofp_flow_mod_eq self other =
     andE [Inr (ofp_header_eq self other), ofp_match_eq (fm_match self) (fm_match other),
       Inr (fm_cookie self = fm_cookie other \<and> fm_command self = fm_command other \<and>
         fm_idle_timeout self = fm_idle_timeout other \<and> fm_hard_timeout self = fm_hard_timeout other \<and>
         fm_priority self = fm_priority other \<and> fm_buffer_id self = fm_buffer_id other \<and>
         fm_out_port self = fm_out_port other \<and> fm_flags self = fm_flags other \<and>
         list_all2 ofp_action_eq (fm_actions self) (fm_actions other))]"

definition fm_buffer_ok :: "ofp_flow_mod \<Rightarrow> bool" where
  "fm_buffer_ok m \<longleftrightarrow> (case fm_buffer_id m of None \<Rightarrow> True | Some n \<Rightarrow> buffer_id_ok n)"

definition ofp_flow_mod_wf :: "ofp_flow_mod \<Rightarrow> bool" where
  "ofp_flow_mod_wf m \<longleftrightarrow>
     match_wire True (fm_match m) \<and> fm_buffer_ok m \<and> (\<forall>a \<in> set (fm_actions m). action_wf a)"

text \<open>
  Packing a flow mod and reading it back, for any well-formed match: what comes back is the message
  with the match in its wire form.
\<close>

lemma flow_mod_pack_parts:
  assumes "ofp_flow_mod_pack as m nx = Inr (Some b, m', nx')"
  obtains h x y a n bid where "b = h @ x @ y @ a" "ofp_header_pack True n nx = Inr (h, n\<lparr>xid := xid m'\<rparr>, nx')"
    "ofp_match_pack True True (fm_match m') = Inr x" "struct_pack ''!QHHHHLHH'' (flow_mod_mid m' (bid AND 0xffffffff)) = Inr y"
    "pack_actions as (fm_actions m) = Inr (a, fm_actions m')" "m' = n\<lparr>xid := xid m', fm_actions := fm_actions m'\<rparr>"
    "n = m\<lparr>hlength := ofp_flow_mod_len m\<rparr>" "hlength m' = 72 + actions_len (fm_actions m')"
    "fm_match m' = fm_match m" "fm_buffer_id m' = Some bid" "fm_buffer_id m = Some bid"
proof -
  let ?n = "m\<lparr>hlength := ofp_flow_mod_len m\<rparr>"
  obtain h i x y a acts bid where h: "ofp_header_pack True ?n nx = Inr (h, i, nx')"
    and x: "ofp_match_pack True True (fm_match i) = Inr x"
    and y: "struct_pack ''!QHHHHLHH'' (flow_mod_mid i (bid AND 0xffffffff)) = Inr y" "fm_buffer_id i = Some bid"
    and a: "pack_actions as (fm_actions i) = Inr (a, acts)"
    and b: "b = h @ x @ y @ a" "m' = i\<lparr>fm_actions := acts\<rparr>"
    using assms by (auto simp: ofp_flow_mod_pack_def Let_def mask_arg_Inr_iff)
  obtain k where i: "i = ?n\<lparr>xid := Some k\<rparr>" using h by (rule ofp_header_pack_Inr)
  have "actions_len acts = actions_len (fm_actions m)"
    using pack_actions_actions_len [OF a] by (simp add: i)
  then show thesis
    using that [of h x y a ?n bid] h x y a b
    by (simp add: i flow_mod_mid_def ofp_flow_mod_len_def ofp_match_len_def)
qed

lemma flow_mod_unpack_pack:
  assumes "ofp_flow_mod_pack as m nx = Inr (Some b, m', nx')" "match_ok (fm_match m)"
    "fm_buffer_ok m" "\<forall>a \<in> set (fm_actions m). action_wf a"
  shows "int (length b) = hlength m'"
    and "ofp_flow_mod_unpack self (b @ r) = Inr (m'\<lparr>fm_match := wire_form True (fm_match m)\<rparr>, r)"
proof -
  obtain h x y a n bid where b: "b = h @ x @ y @ a"
    and h: "ofp_header_pack True n nx = Inr (h, n\<lparr>xid := xid m'\<rparr>, nx')"
    and x: "ofp_match_pack True True (fm_match m') = Inr x"
    and y: "struct_pack ''!QHHHHLHH'' (flow_mod_mid m' (bid AND 0xffffffff)) = Inr y"
    and a: "pack_actions as (fm_actions m) = Inr (a, fm_actions m')"
    and m': "m' = n\<lparr>xid := xid m', fm_actions := fm_actions m'\<rparr>" and n: "n = m\<lparr>hlength := ofp_flow_mod_len m\<rparr>"
    and hl: "hlength m' = 72 + actions_len (fm_actions m')"
    and same: "fm_match m' = fm_match m" and bid: "fm_buffer_id m' = Some bid" "fm_buffer_id m = Some bid"
    by (rule flow_mod_pack_parts [OF assms(1)])
  have alen: "actions_len (fm_actions m') = int (length a)" using pack_actions_length [OF a assms(4)] .
  have l: "length h = 8" "length x = 40" "length y = 24"
    using ofp_header_pack_length [OF h] ofp_match_pack_length [OF _ x] assms(2) y
    by (auto simp: same dest!: struct_pack_length)
  show len: "int (length b) = hlength m'" by (simp add: b l hl alen)
  have hd: "ofp_header_unpack self (h @ s) = Inr (self\<lparr>version := version m', header_type := header_type m',
      hlength := hlength m', xid := xid m'\<rparr>, s)" for s
    unfolding ofp_header_unpack_pack [OF h] by (subst m', subst (3) m', subst (5) m') simp
  have mm: "ofp_match_unpack True q (x @ s) = Inr (wire_form True (fm_match m), s)" for q s
    using ofp_match_unpack_pack [OF assms(2) x [unfolded same]] .
  have acts: "unpack_actions (h @ x @ y @ a @ r) (int (length a)) 72 = Inr (fm_actions m', 72 + length a)"
    using unpack_actions_pack [OF a assms(4), of "h @ x @ y" 72 "int (length a)" r] l by simp
  have sf: "struct_fields ''!QHHHHLHH'' (y @ s) = flow_mod_mid m' (bid AND 0xffffffff)" for s
    by (rule struct_fields_pack [OF y])
  have off: "int (72 + length a) = hlength m'" "hlength m' - 72 = int (length a)"
    using hl alen by simp_all
  show "ofp_flow_mod_unpack self (b @ r) = Inr (m'\<lparr>fm_match := wire_form True (fm_match m)\<rparr>, r)"
    using assms(3) l unfolding ofp_flow_mod_unpack_def
    by (simp add: b hd mm sf acts off [simplified] Let_def struct_unpack_from_def ofp_match_len_def flow_mod_mid_def same [symmetric] bid fm_buffer_ok_def)
qed

interpretation msg_flow_mod: wire_message ofp_flow_mod_pack ofp_flow_mod_unpack ofp_flow_mod_wf
proof
  fix m as nx b m' nx'
  assume wf: "ofp_flow_mod_wf m" and p: "ofp_flow_mod_pack as m nx = Inr (Some b, m', nx')"
  then have ok: "match_ok (fm_match m)" "wire_form True (fm_match m) = fm_match m"
    "fm_buffer_ok m" "\<forall>a \<in> set (fm_actions m). action_wf a"
    by (simp_all add: ofp_flow_mod_wf_def match_wire_def)
  note rt = flow_mod_unpack_pack [OF p ok(1,3,4)]
  show "int (length b) = hlength m'" by (rule rt(1))
  fix self r
  have "fm_match m' = fm_match m" by (rule flow_mod_pack_parts [OF p])
  then show "ofp_flow_mod_unpack self (b @ r) = Inr (m', r)" using rt(2) ok(2) by simp
qed

subsection \<open>ofp\_flow\_removed\<close>

record ofp_flow_removed = ofp_header +
  fd_match :: ofp_match
  fd_cookie :: int
  fd_priority :: int
  fd_reason :: int
  fd_duration_sec :: int
  fd_duration_nsec :: int
  fd_idle_timeout :: int
  fd_packet_count :: int
  fd_byte_count :: int

definition ofp_flow_removed_init :: "(ofp_flow_removed \<Rightarrow> ofp_flow_removed) \<Rightarrow> ofp_flow_removed" where
  "ofp_flow_removed_init kw =
     kw \<lparr>version = OFP_VERSION, header_type = OFPT_FLOW_REMOVED, hlength = 48 + ofp_match_len,
      xid = None, fd_match = ofp_match_new, fd_cookie = 0, fd_priority = 0, fd_reason = 0,
      fd_duration_sec = 0, fd_duration_nsec = 0, fd_idle_timeout = 0, fd_packet_count = 0,
      fd_byte_count = 0\<rparr>"

definition ofp_flow_removed_len :: "ofp_flow_removed \<Rightarrow> int" where
  "ofp_flow_removed_len self = 48 + ofp_match_len"

definition ofp_flow_removed_pack ::
    "bool \<Rightarrow> ofp_flow_removed \<Rightarrow> int \<Rightarrow> (bytes option \<times> ofp_flow_removed \<times> int) result" where
  "ofp_flow_removed_pack assertstruct self nextXID =
     (if assertstruct \<and> \<not> fst (assert_true self) then Inr (None, self, nextXID)
      else msg_packed (ofp_header_pack True self nextXID) (\<lambda>self. [
        ofp_match_pack True False (fd_match self),
        struct_pack ''!QHB'' [fd_cookie self, fd_priority self, fd_reason self],
        Inr (PAD 1),
        struct_pack ''!LLH'' [fd_duration_sec self, fd_duration_nsec self, fd_idle_timeout self],
        Inr (PAD 2),
        struct_pack ''!QQ'' [fd_packet_count self, fd_byte_count self]]))"

definition ofp_flow_removed_unpack :: "ofp_flow_removed \<Rightarrow> bytes \<Rightarrow> (ofp_flow_removed \<times> bytes) result" where
  "ofp_flow_removed_unpack self b =
     (if int (length b) < ofp_flow_removed_len self then Inr (self, b)
      else bindE (ofp_header_unpack self b) (\<lambda>(self, _).
        bindE (ofp_match_unpack False (fd_match self) (drop 8 b)) (\<lambda>(m, _).
        bindE (struct_unpack_from ''!QHB'' b (nat (8 + ofp_match_len))) (\<lambda>v.
        bindE (struct_unpack_from ''!LLH'' b (nat (20 + ofp_match_len))) (\<lambda>w.
        bindE (struct_unpack_from ''!QQ'' b (nat (32 + ofp_match_len))) (\<lambda>x.
        Inr (self\<lparr>fd_match := m, fd_cookie := v ! 0, fd_priority := v ! 1, fd_reason := v ! 2,
            fd_duration_sec := w ! 0, fd_duration_nsec := w ! 1, fd_idle_timeout := w ! 2,
            fd_packet_count := x ! 0, fd_byte_count := x ! 1\<rparr>,
          drop_int (ofp_flow_removed_len self) b)))))))"

definition ofp_flow_removed_eq :: "ofp_flow_removed \<Rightarrow> ofp_flow_removed \<Rightarrow> bool result" where
  "ofp_flow_removed_eq self other =
     andE [Inr (ofp_header_eq self other), ofp_match_eq (fd_match self) (fd_match other),
       Inr (fd_cookie self = fd_cookie other \<and> fd_priority self = fd_priority other \<and>
         fd_reason self = fd_reason other \<and> fd_duration_sec self = fd_duration_sec other \<and>
         fd_duration_nsec self = fd_duration_nsec other \<and> fd_idle_timeout self = fd_idle_timeout other \<and>
         fd_packet_count self = fd_packet_count other \<and> fd_byte_count self = fd_byte_count other)]"

definition ofp_flow_removed_wf :: "ofp_flow_removed \<Rightarrow> bool" where
  "ofp_flow_removed_wf m \<longleftrightarrow> hlength m = 88 \<and> match_wire False (fd_match m)"

interpretation msg_flow_removed: wire_message ofp_flow_removed_pack ofp_flow_removed_unpack ofp_flow_removed_wf
  by unfold_locales
    (auto simp: ofp_flow_removed_wf_def ofp_flow_removed_pack_def ofp_flow_removed_unpack_def codec
      struct_pack_length match_wire_length
      ofp_flow_removed_len_def ofp_match_len_def drop_int_nonneg split: if_splits elim!: ofp_header_pack_Inr)

subsection \<open>ofp\_port\_status\<close>

record ofp_port_status = ofp_header +
  ps_reason :: int
  ps_desc :: ofp_phy_port

definition ofp_port_status_init :: "(ofp_port_status \<Rightarrow> ofp_port_status) \<Rightarrow> ofp_port_status" where
  "ofp_port_status_init kw =
     kw \<lparr>version = OFP_VERSION, header_type = OFPT_PORT_STATUS, hlength = 64, xid = None,
      ps_reason = 0, ps_desc = ofp_phy_port_init id\<rparr>"

definition ofp_port_status_pack ::
    "bool \<Rightarrow> ofp_port_status \<Rightarrow> int \<Rightarrow> (bytes option \<times> ofp_port_status \<times> int) result" where
  "ofp_port_status_pack assertstruct self nextXID =
     (if assertstruct \<and> \<not> fst (assert_true self) then Inr (None, self, nextXID)
      else msg_packed (ofp_header_pack True self nextXID) (\<lambda>self. [
        struct_pack ''!B'' [ps_reason self],
        Inr (PAD 7),
        needE (ofp_phy_port_pack True (ps_desc self))]))"

definition ofp_port_status_unpack :: "ofp_port_status \<Rightarrow> bytes \<Rightarrow> (ofp_port_status \<times> bytes) result" where
  "ofp_port_status_unpack self b =
     (if length b < 64 then Inr (self, b)
      else bindE (ofp_header_unpack self b) (\<lambda>(self, _).
        bindE (struct_unpack_from ''!B'' b 8) (\<lambda>v.
        bindE (ofp_phy_port_unpack (ps_desc self) (drop 16 b)) (\<lambda>(d, _).
        Inr (self\<lparr>ps_reason := v ! 0, ps_desc := d\<rparr>, drop 64 b)))))"

definition ofp_port_status_len :: "ofp_port_status \<Rightarrow> int" where
  "ofp_port_status_len self = 64"

definition ofp_port_status_eq :: "ofp_port_status \<Rightarrow> ofp_port_status \<Rightarrow> bool" where
  "ofp_port_status_eq self other \<longleftrightarrow>
     ofp_header_eq self other \<and> ps_reason self = ps_reason other \<and>
     ofp_phy_port_eq (ps_desc self) (ps_desc other)"

definition ofp_port_status_wf :: "ofp_port_status \<Rightarrow> bool" where
  "ofp_port_status_wf m \<longleftrightarrow> hlength m = 64 \<and> ofp_phy_port_wf (ps_desc m)"

interpretation msg_port_status: wire_message ofp_port_status_pack ofp_port_status_unpack ofp_port_status_wf
  by unfold_locales
    (auto simp: ofp_port_status_wf_def ofp_port_status_pack_def ofp_port_status_unpack_def codec
      struct_pack_length
      phy_port.unpack_pack phy_port.pack_size [unfolded ofp_phy_port_len_def] split: if_splits elim!: ofp_header_pack_Inr)

subsection \<open>ofp\_error\<close>

record ofp_error = ofp_header +
  oe_type :: int
  oe_code :: int
  oe_data :: "int list"

definition ofp_error_init :: "(ofp_error \<Rightarrow> ofp_error) \<Rightarrow> ofp_error" where
  "ofp_error_init kw =
     kw \<lparr>version = OFP_VERSION, header_type = OFPT_ERROR, hlength = 8, xid = None, oe_type = 0,
      oe_code = 0, oe_data = []\<rparr>"

definition ofp_error_len :: "ofp_error \<Rightarrow> int" where
  "ofp_error_len self = 12 + int (length (oe_data self))"

definition ofp_error_pack ::
    "bool \<Rightarrow> ofp_error \<Rightarrow> int \<Rightarrow> (bytes option \<times> ofp_error \<times> int) result" where
  "ofp_error_pack assertstruct self nextXID =
     (if assertstruct \<and> \<not> fst (assert_true self) then Inr (None, self, nextXID)
      else let self = self\<lparr>hlength := ofp_error_len self\<rparr> in
        msg_packed (ofp_header_pack True self nextXID) (\<lambda>self. [
        struct_pack ''!HH'' [oe_type self, oe_code self],
        concatE (map (\<lambda>i. struct_pack ''!B'' [i]) (oe_data self))]))"

text \<open>The data is not read; it stays in the buffer.\<close>

definition ofp_error_unpack :: "ofp_error \<Rightarrow> bytes \<Rightarrow> (ofp_error \<times> bytes) result" where
  "ofp_error_unpack self b =
     (if length b < 12 then Inr (self, b)
      else bindE (ofp_header_unpack self b) (\<lambda>(self, _).
        bindE (struct_unpack_from ''!HH'' b 8) (\<lambda>v.
        Inr (self\<lparr>oe_type := v ! 0, oe_code := v ! 1\<rparr>, drop 12 b))))"

definition ofp_error_eq :: "ofp_error \<Rightarrow> ofp_error \<Rightarrow> bool" where
  "ofp_error_eq self other \<longleftrightarrow>
     ofp_header_eq self other \<and> oe_type self = oe_type other \<and>
     oe_code self = oe_code other \<and> oe_data self = oe_data other"

lemma pack_bytes_length:
  "concatE (map (\<lambda>i. struct_pack ''!B'' [i]) ds) = Inr b \<Longrightarrow> length b = length ds"
  by (induction ds arbitrary: b) (auto simp: codec struct_pack_length)

lemma error_unpack_pack:
  assumes "ofp_error_pack as m nx = Inr (Some b, m', nx')"
  shows "int (length b) = hlength m'"
    and "\<exists>ds. length ds = length (oe_data m) \<and>
      ofp_error_unpack s (b @ r) = Inr (m'\<lparr>oe_data := oe_data s\<rparr>, ds @ r)"
  using assms
  by (auto simp: ofp_error_pack_def ofp_error_unpack_def ofp_error_len_def codec
      struct_pack_length pack_bytes_length Let_def split: if_splits elim!: ofp_header_pack_Inr)

end
