(* ===== verification/OF_Stats.thy ===== *)
theory OF_Stats
  imports OF_Messages
begin

text \<open>
  The statistics messages of \<^verbatim>\<open>libopenflow_01.py\<close>: the bodies of requests and replies, each a structure of
  its own, and \<^verbatim>\<open>ofp_stats_request\<close> and \<^verbatim>\<open>ofp_stats_reply\<close>, whose body is raw bytes or such a structure.
\<close>

subsection \<open>ofp\_desc\_stats\<close>

record ofp_desc_stats =
  ds_mfr_desc :: bytes
  ds_hw_desc :: bytes
  ds_sw_desc :: bytes
  ds_serial_num :: bytes
  ds_dp_desc :: bytes

definition ofp_desc_stats_init :: "(ofp_desc_stats \<Rightarrow> ofp_desc_stats) \<Rightarrow> ofp_desc_stats" where
  "ofp_desc_stats_init kw =
     kw \<lparr>ds_mfr_desc = '''', ds_hw_desc = '''', ds_sw_desc = '''', ds_serial_num = '''',
      ds_dp_desc = ''''\<rparr>"

definition ofp_desc_stats_assert :: "ofp_desc_stats \<Rightarrow> bool \<times> string option" where
  "ofp_desc_stats_assert self =
     (if length (ds_mfr_desc self) > 256 then (False, Some ''mfr_desc is not of size 256'')
      else if length (ds_hw_desc self) > 256 then (False, Some ''hw_desc is not of size 256'')
      else if length (ds_sw_desc self) > 256 then (False, Some ''sw_desc is not of size 256'')
      else if length (ds_serial_num self) > 32 then (False, Some ''serial_num is not of size 32'')
      else if length (ds_dp_desc self) > 256 then (False, Some ''dp_desc is not of size 256'')
      else (True, None))"

definition ofp_desc_stats_pack :: "bool \<Rightarrow> ofp_desc_stats \<Rightarrow> bytes option result" where
  "ofp_desc_stats_pack assertstruct self =
     (if assertstruct \<and> \<not> fst (ofp_desc_stats_assert self) then Inr None
      else packed [
        Inr (ljust 256 (ds_mfr_desc self)),
        Inr (ljust 256 (ds_hw_desc self)),
        Inr (ljust 256 (ds_sw_desc self)),
        Inr (ljust 32 (ds_serial_num self)),
        Inr (ljust 256 (ds_dp_desc self))])"

definition ofp_desc_stats_unpack :: "ofp_desc_stats \<Rightarrow> bytes \<Rightarrow> (ofp_desc_stats \<times> bytes) result" where
  "ofp_desc_stats_unpack self b =
     (if length b < 1056 then Inr (self, b)
      else Inr (self\<lparr>ds_mfr_desc := strip_nul (slice 0 256 b), ds_hw_desc := strip_nul (slice 256 512 b),
          ds_sw_desc := strip_nul (slice 512 768 b),
          ds_serial_num := strip_nul (slice 768 800 b),
          ds_dp_desc := strip_nul (slice 800 1056 b)\<rparr>, drop 1056 b))"

definition ofp_desc_stats_len :: int where
  "ofp_desc_stats_len = 1056"

definition ofp_desc_stats_eq :: "ofp_desc_stats \<Rightarrow> ofp_desc_stats \<Rightarrow> bool" where
  "ofp_desc_stats_eq self other \<longleftrightarrow>
     ds_mfr_desc self = ds_mfr_desc other \<and> ds_hw_desc self = ds_hw_desc other \<and>
     ds_sw_desc self = ds_sw_desc other \<and> ds_serial_num self = ds_serial_num other \<and>
     ds_dp_desc self = ds_dp_desc other"

definition ofp_desc_stats_wf :: "ofp_desc_stats \<Rightarrow> bool" where
  "ofp_desc_stats_wf m \<longleftrightarrow> fst (ofp_desc_stats_assert m) \<and>
     (\<forall>s \<in> {ds_mfr_desc m, ds_hw_desc m, ds_sw_desc m, ds_serial_num m, ds_dp_desc m}. NUL \<notin> set s)"

interpretation st_desc_stats: wire_struct ofp_desc_stats_pack ofp_desc_stats_unpack
    "ofp_desc_stats_wf" 1056
  by unfold_locales
    (auto simp: ofp_desc_stats_pack_def ofp_desc_stats_unpack_def
      codec struct_pack_length strip_nul_id
      ofp_desc_stats_wf_def ofp_desc_stats_assert_def split: if_splits)

subsection \<open>ofp\_flow\_stats\_request\<close>

record ofp_flow_stats_request =
  fsq_match :: ofp_match
  fsq_table_id :: int
  fsq_out_port :: int

definition ofp_flow_stats_request_init :: "(ofp_flow_stats_request \<Rightarrow> ofp_flow_stats_request) \<Rightarrow> ofp_flow_stats_request" where
  "ofp_flow_stats_request_init kw =
     kw \<lparr>fsq_match = ofp_match_new, fsq_table_id = TABLE_ALL, fsq_out_port = OFPP_NONE\<rparr>"

definition ofp_flow_stats_request_pack :: "bool \<Rightarrow> ofp_flow_stats_request \<Rightarrow> bytes option result" where
  "ofp_flow_stats_request_pack assertstruct self =
     (if assertstruct \<and> \<not> fst (assert_true self) then Inr None
      else packed [
        ofp_match_pack True False (fsq_match self),
        struct_pack ''!BBH'' [fsq_table_id self, 0, fsq_out_port self]])"

text \<open>The code returns the one byte at index 44, not the rest of the buffer; there may be none.\<close>

definition ofp_flow_stats_request_unpack ::
    "ofp_flow_stats_request \<Rightarrow> bytes \<Rightarrow> (ofp_flow_stats_request \<times> bytes) result" where
  "ofp_flow_stats_request_unpack self b =
     (if length b < 44 then Inr (self, b)
      else bindE (ofp_match_unpack False (fsq_match self) b) (\<lambda>(m, _).
        bindE (struct_unpack_from ''!BBH'' b (nat ofp_match_len)) (\<lambda>v.
        let self = self\<lparr>fsq_match := m, fsq_table_id := v ! 0, fsq_out_port := v ! 2\<rparr>
        in if length b = 44 then Inl IndexError else Inr (self, [b ! 44]))))"

definition ofp_flow_stats_request_len :: int where
  "ofp_flow_stats_request_len = 4 + ofp_match_len"

definition ofp_flow_stats_request_eq :: "ofp_flow_stats_request \<Rightarrow> ofp_flow_stats_request \<Rightarrow> bool result" where
  "ofp_flow_stats_request_eq self other =
     andE [ofp_match_eq (fsq_match self) (fsq_match other),
       Inr (fsq_table_id self = fsq_table_id other \<and> fsq_out_port self = fsq_out_port other)]"

text \<open>So reading back exactly the bytes of a request raises, and with more bytes only one is returned.\<close>

lemma flow_stats_request_unpack_pack:
  assumes "match_ok (fsq_match m)" "ofp_flow_stats_request_pack as m = Inr (Some b)"
  shows "length b = 44" and "ofp_flow_stats_request_unpack s b = Inl IndexError"
    and "ofp_flow_stats_request_unpack s (b @ c # r) =
      Inr (m\<lparr>fsq_match := wire_form False (fsq_match m)\<rparr>, [c])"
proof -
  obtain x y where x: "ofp_match_pack True False (fsq_match m) = Inr x"
    and y: "struct_pack ''!BBH'' [fsq_table_id m, 0, fsq_out_port m] = Inr y" and b: "b = x @ y"
    using assms(2) by (auto simp: ofp_flow_stats_request_pack_def codec split: if_splits)
  have l: "length x = 40" "length y = 4"
    using ofp_match_pack_length [OF assms(1) x] y by (auto dest: struct_pack_length)
  show "length b = 44" by (simp add: b l)
  have m: "ofp_match_unpack False q (x @ t) = Inr (wire_form False (fsq_match m), t)" for q t
    by (rule ofp_match_unpack_pack [OF assms(1) x])
  have sf: "struct_fields ''!BBH'' (y @ t) = [fsq_table_id m, 0, fsq_out_port m]"
    "struct_fields ''!BBH'' y = [fsq_table_id m, 0, fsq_out_port m]" for t
    using struct_fields_pack [OF y] struct_fields_pack_end [OF y] by auto
  show "ofp_flow_stats_request_unpack s b = Inl IndexError"
    by (simp add: ofp_flow_stats_request_unpack_def b l m ofp_match_len_def struct_unpack_from_def Let_def)
  show "ofp_flow_stats_request_unpack s (b @ c # r) =
      Inr (m\<lparr>fsq_match := wire_form False (fsq_match m)\<rparr>, [c])"
    by (simp add: ofp_flow_stats_request_unpack_def b l m sf ofp_match_len_def struct_unpack_from_def
        Let_def nth_append)
qed

subsection \<open>ofp\_aggregate\_stats\_request\<close>

record ofp_aggregate_stats_request =
  asq_match :: ofp_match
  asq_table_id :: int
  asq_out_port :: int

definition ofp_aggregate_stats_request_init :: "(ofp_aggregate_stats_request \<Rightarrow> ofp_aggregate_stats_request) \<Rightarrow> ofp_aggregate_stats_request" where
  "ofp_aggregate_stats_request_init kw =
     kw \<lparr>asq_match = ofp_match_new, asq_table_id = TABLE_ALL, asq_out_port = OFPP_NONE\<rparr>"

definition ofp_aggregate_stats_request_pack :: "bool \<Rightarrow> ofp_aggregate_stats_request \<Rightarrow> bytes option result" where
  "ofp_aggregate_stats_request_pack assertstruct self =
     (if assertstruct \<and> \<not> fst (assert_true self) then Inr None
      else packed [
        ofp_match_pack True False (asq_match self),
        struct_pack ''!BBH'' [asq_table_id self, 0, asq_out_port self]])"

definition ofp_aggregate_stats_request_unpack ::
    "ofp_aggregate_stats_request \<Rightarrow> bytes \<Rightarrow> (ofp_aggregate_stats_request \<times> bytes) result" where
  "ofp_aggregate_stats_request_unpack self b =
     (if int (length b) < 4 + ofp_match_len then Inr (self, b)
      else bindE (ofp_match_unpack False (asq_match self) b) (\<lambda>(m, _).
        bindE (struct_unpack_from ''!BBH'' b (nat ofp_match_len)) (\<lambda>v.
        Inr (self\<lparr>asq_match := m, asq_table_id := v ! 0, asq_out_port := v ! 2\<rparr>, drop 44 b))))"

definition ofp_aggregate_stats_request_len :: int where
  "ofp_aggregate_stats_request_len = 44"

definition ofp_aggregate_stats_request_eq :: "ofp_aggregate_stats_request \<Rightarrow> ofp_aggregate_stats_request \<Rightarrow> bool result" where
  "ofp_aggregate_stats_request_eq self other =
     andE [ofp_match_eq (asq_match self) (asq_match other),
       Inr (asq_table_id self = asq_table_id other \<and> asq_out_port self = asq_out_port other)]"

interpretation st_aggregate_stats_request: wire_struct ofp_aggregate_stats_request_pack ofp_aggregate_stats_request_unpack
    "\<lambda>m. match_wire False (asq_match m)" 44
  by unfold_locales
    (auto simp: ofp_aggregate_stats_request_pack_def ofp_aggregate_stats_request_unpack_def
      codec struct_pack_length match_wire_length
      ofp_match_len_def split: if_splits)

subsection \<open>ofp\_flow\_stats\<close>

record ofp_flow_stats =
  fs_length :: int
  fs_table_id :: int
  fs_match :: ofp_match
  fs_duration_sec :: int
  fs_duration_nsec :: int
  fs_priority :: int
  fs_idle_timeout :: int
  fs_hard_timeout :: int
  fs_cookie :: int
  fs_packet_count :: int
  fs_byte_count :: int
  fs_actions :: "ofp_action list"

definition ofp_flow_stats_init :: "(ofp_flow_stats \<Rightarrow> ofp_flow_stats) \<Rightarrow> ofp_flow_stats" where
  "ofp_flow_stats_init kw =
     kw \<lparr>fs_length = 0, fs_table_id = 0, fs_match = ofp_match_new, fs_duration_sec = 0,
      fs_duration_nsec = 0, fs_priority = OFP_DEFAULT_PRIORITY, fs_idle_timeout = 0,
      fs_hard_timeout = 0, fs_cookie = 0, fs_packet_count = 0, fs_byte_count = 0,
      fs_actions = []\<rparr>"

definition ofp_flow_stats_len :: "ofp_flow_stats \<Rightarrow> int" where
  "ofp_flow_stats_len self = 48 + ofp_match_len + actions_len (fs_actions self)"

definition ofp_flow_stats_pack :: "bool \<Rightarrow> ofp_flow_stats \<Rightarrow> (bytes option \<times> ofp_flow_stats) result" where
  "ofp_flow_stats_pack assertstruct self =
     (if assertstruct \<and> \<not> fst (assert_true self) then Inr (None, self)
      else bindE (concatE [
          struct_pack ''!HBB'' [fs_length self, fs_table_id self, 0],
          ofp_match_pack True False (fs_match self),
          struct_pack ''!LLHHH'' [fs_duration_sec self, fs_duration_nsec self, fs_priority self,
            fs_idle_timeout self, fs_hard_timeout self],
          Inr (PAD 6),
          struct_pack ''!QQQ'' [fs_cookie self, fs_packet_count self, fs_byte_count self]]) (\<lambda>b.
        bindE (pack_actions assertstruct (fs_actions self)) (\<lambda>(a, acts).
          Inr (Some (b @ a), self\<lparr>fs_actions := acts\<rparr>))))"

definition ofp_flow_stats_unpack :: "ofp_flow_stats \<Rightarrow> bytes \<Rightarrow> (ofp_flow_stats \<times> bytes) result" where
  "ofp_flow_stats_unpack self b =
     (if int (length b) < 48 + ofp_match_len then Inr (self, b)
      else bindE (struct_unpack_from ''!HBB'' b 0) (\<lambda>v.
        bindE (ofp_match_unpack False (fs_match self) (drop 4 b)) (\<lambda>(m, _).
        bindE (struct_unpack_from ''!LLHHH'' b (nat (4 + ofp_match_len))) (\<lambda>w.
        bindE (struct_unpack_from ''!QQQ'' b (nat (24 + ofp_match_len))) (\<lambda>x.
        let self = self\<lparr>fs_length := v ! 0, fs_table_id := v ! 1, fs_match := m, fs_duration_sec := w ! 0,
              fs_duration_nsec := w ! 1, fs_priority := w ! 2, fs_idle_timeout := w ! 3,
              fs_hard_timeout := w ! 4, fs_cookie := x ! 0, fs_packet_count := x ! 1, fs_byte_count := x ! 2\<rparr>
        in bindE (unpack_actions b (fs_length self - (48 + ofp_match_len)) (nat (48 + ofp_match_len))) (\<lambda>(acts, off).
             let self = self\<lparr>fs_actions := acts\<rparr>
             in if int off \<noteq> fs_length self \<or> fs_length self \<noteq> ofp_flow_stats_len self then Inl AssertionError
                else Inr (self, drop off b)))))))"

definition ofp_flow_stats_eq :: "ofp_flow_stats \<Rightarrow> ofp_flow_stats \<Rightarrow> bool result" where
  "ofp_flow_stats_eq self other =
     andE [Inr (fs_length self = fs_length other \<and> fs_table_id self = fs_table_id other),
       ofp_match_eq (fs_match self) (fs_match other),
       Inr (fs_duration_sec self = fs_duration_sec other \<and> fs_duration_nsec self = fs_duration_nsec other \<and>
         fs_priority self = fs_priority other \<and> fs_idle_timeout self = fs_idle_timeout other \<and>
         fs_hard_timeout self = fs_hard_timeout other \<and> fs_cookie self = fs_cookie other \<and>
         fs_packet_count self = fs_packet_count other \<and> fs_byte_count self = fs_byte_count other \<and>
         list_all2 ofp_action_eq (fs_actions self) (fs_actions other))]"

text \<open>The entry is read back when its length attribute is right, with the match in wire form.\<close>

lemma flow_stats_unpack_pack:
  assumes "ofp_flow_stats_pack as m = Inr (Some b, m')" "match_ok (fs_match m)"
    "\<forall>a \<in> set (fs_actions m). action_wf a" "fs_length m = ofp_flow_stats_len m"
  shows "int (length b) = fs_length m'"
    and "ofp_flow_stats_unpack s (b @ r) = Inr (m'\<lparr>fs_match := wire_form False (fs_match m)\<rparr>, r)"
proof -
  obtain x y z q a acts where x: "struct_pack ''!HBB'' [fs_length m, fs_table_id m, 0] = Inr x"
    and y: "ofp_match_pack True False (fs_match m) = Inr y"
    and z: "struct_pack ''!LLHHH'' [fs_duration_sec m, fs_duration_nsec m, fs_priority m,
            fs_idle_timeout m, fs_hard_timeout m] = Inr z"
    and q: "struct_pack ''!QQQ'' [fs_cookie m, fs_packet_count m, fs_byte_count m] = Inr q"
    and a: "pack_actions as (fs_actions m) = Inr (a, acts)"
    and b: "b = x @ y @ z @ PAD 6 @ q @ a" and m': "m' = m\<lparr>fs_actions := acts\<rparr>"
    using assms(1) by (auto simp: ofp_flow_stats_pack_def codec split: if_splits)
  have l: "length x = 4" "length y = 40" "length z = 14" "length q = 24"
    using x ofp_match_pack_length [OF assms(2) y] z q by (auto dest: struct_pack_length)
  have al: "actions_len acts = int (length a)" "actions_len (fs_actions m) = int (length a)"
    using pack_actions_length [OF a assms(3)] pack_actions_actions_len [OF a] by simp_all
  have fl: "fs_length m = 88 + int (length a)"
    using assms(4) by (simp add: ofp_flow_stats_len_def ofp_match_len_def al)
  show "int (length b) = fs_length m'" by (simp add: b l m' fl)
  have sf: "struct_fields ''!HBB'' (x @ t) = [fs_length m, fs_table_id m, 0]"
    "struct_fields ''!LLHHH'' (z @ t) = [fs_duration_sec m, fs_duration_nsec m, fs_priority m,
       fs_idle_timeout m, fs_hard_timeout m]"
    "struct_fields ''!QQQ'' (q @ t) = [fs_cookie m, fs_packet_count m, fs_byte_count m]" for t
    using struct_fields_pack [OF x] struct_fields_pack [OF z] struct_fields_pack [OF q] by auto
  have mm: "ofp_match_unpack False p (y @ t) = Inr (wire_form False (fs_match m), t)" for p t
    by (rule ofp_match_unpack_pack [OF assms(2) y])
  have ua: "unpack_actions (x @ y @ z @ PAD 6 @ q @ a @ r) (int (length a)) 88 = Inr (acts, 88 + length a)"
    using unpack_actions_pack [OF a assms(3), of "x @ y @ z @ PAD 6 @ q" 88 "int (length a)" r] l by simp
  show "ofp_flow_stats_unpack s (b @ r) = Inr (m'\<lparr>fs_match := wire_form False (fs_match m)\<rparr>, r)"
    unfolding ofp_flow_stats_unpack_def
    using l ua by (simp add: b sf mm ofp_match_len_def struct_unpack_from_def Let_def fl m' ofp_flow_stats_len_def al)
qed

subsection \<open>ofp\_aggregate\_stats\<close>

record ofp_aggregate_stats =
  as_packet_count :: int
  as_byte_count :: int
  as_flow_count :: int

definition ofp_aggregate_stats_init :: "(ofp_aggregate_stats \<Rightarrow> ofp_aggregate_stats) \<Rightarrow> ofp_aggregate_stats" where
  "ofp_aggregate_stats_init kw =
     kw \<lparr>as_packet_count = 0, as_byte_count = 0, as_flow_count = 0\<rparr>"

definition ofp_aggregate_stats_pack :: "bool \<Rightarrow> ofp_aggregate_stats \<Rightarrow> bytes option result" where
  "ofp_aggregate_stats_pack assertstruct self =
     (if assertstruct \<and> \<not> fst (assert_true self) then Inr None
      else packed [
        struct_pack ''!QQL'' [as_packet_count self, as_byte_count self, as_flow_count self],
        Inr (PAD 4)])"

definition ofp_aggregate_stats_unpack :: "ofp_aggregate_stats \<Rightarrow> bytes \<Rightarrow> (ofp_aggregate_stats \<times> bytes) result" where
  "ofp_aggregate_stats_unpack self b =
     (if length b < 24 then Inr (self, b)
      else bindE (struct_unpack_from ''!QQL'' b 0) (\<lambda>v.
        Inr (self\<lparr>as_packet_count := v ! 0, as_byte_count := v ! 1, as_flow_count := v ! 2\<rparr>, drop 24 b)))"

definition ofp_aggregate_stats_len :: int where
  "ofp_aggregate_stats_len = 24"

definition ofp_aggregate_stats_eq :: "ofp_aggregate_stats \<Rightarrow> ofp_aggregate_stats \<Rightarrow> bool" where
  "ofp_aggregate_stats_eq self other \<longleftrightarrow>
     as_packet_count self = as_packet_count other \<and>
     as_byte_count self = as_byte_count other \<and> as_flow_count self = as_flow_count other"

interpretation st_aggregate_stats: wire_struct ofp_aggregate_stats_pack ofp_aggregate_stats_unpack
    "\<lambda>_. True" 24
  by unfold_locales
    (auto simp: ofp_aggregate_stats_pack_def ofp_aggregate_stats_unpack_def
      codec struct_pack_length split: if_splits)

subsection \<open>ofp\_table\_stats\<close>

record ofp_table_stats =
  ts_table_id :: int
  ts_name :: bytes
  ts_wildcards :: int
  ts_max_entries :: int
  ts_active_count :: int
  ts_lookup_count :: int
  ts_matched_count :: int

definition ofp_table_stats_init :: "(ofp_table_stats \<Rightarrow> ofp_table_stats) \<Rightarrow> ofp_table_stats" where
  "ofp_table_stats_init kw =
     kw \<lparr>ts_table_id = 0, ts_name = '''', ts_wildcards = 0, ts_max_entries = 0,
      ts_active_count = 0, ts_lookup_count = 0, ts_matched_count = 0\<rparr>"

definition ofp_table_stats_assert :: "ofp_table_stats \<Rightarrow> bool \<times> string option" where
  "ofp_table_stats_assert self =
     (if length (ts_name self) > 32 then (False, Some ''name is not of size 32'')
      else (True, None))"

definition ofp_table_stats_pack :: "bool \<Rightarrow> ofp_table_stats \<Rightarrow> bytes option result" where
  "ofp_table_stats_pack assertstruct self =
     (if assertstruct \<and> \<not> fst (ofp_table_stats_assert self) then Inr None
      else packed [
        struct_pack ''!B'' [ts_table_id self],
        Inr (PAD 3),
        Inr (ljust 32 (ts_name self)),
        struct_pack ''!LLLQQ'' [ts_wildcards self, ts_max_entries self, ts_active_count self, ts_lookup_count self,
          ts_matched_count self]])"

definition ofp_table_stats_unpack :: "ofp_table_stats \<Rightarrow> bytes \<Rightarrow> (ofp_table_stats \<times> bytes) result" where
  "ofp_table_stats_unpack self b =
     (if length b < 64 then Inr (self, b)
      else bindE (struct_unpack_from ''!B'' b 0) (\<lambda>v.
        bindE (struct_unpack_from ''!LLLQQ'' b 36) (\<lambda>w.
        Inr (self\<lparr>ts_table_id := v ! 0, ts_name := strip_nul (slice 4 36 b), ts_wildcards := w ! 0,
          ts_max_entries := w ! 1, ts_active_count := w ! 2, ts_lookup_count := w ! 3,
          ts_matched_count := w ! 4\<rparr>, drop 64 b))))"

definition ofp_table_stats_len :: int where
  "ofp_table_stats_len = 64"

definition ofp_table_stats_eq :: "ofp_table_stats \<Rightarrow> ofp_table_stats \<Rightarrow> bool" where
  "ofp_table_stats_eq self other \<longleftrightarrow>
     ts_table_id self = ts_table_id other \<and> ts_name self = ts_name other \<and>
     ts_wildcards self = ts_wildcards other \<and>
     ts_max_entries self = ts_max_entries other \<and>
     ts_active_count self = ts_active_count other \<and>
     ts_lookup_count self = ts_lookup_count other \<and>
     ts_matched_count self = ts_matched_count other"

interpretation st_table_stats: wire_struct ofp_table_stats_pack ofp_table_stats_unpack
    "\<lambda>m. length (ts_name m) \<le> 32 \<and> NUL \<notin> set (ts_name m)" 64
  by unfold_locales
    (auto simp: ofp_table_stats_pack_def ofp_table_stats_unpack_def
      codec struct_pack_length strip_nul_id split: if_splits)

subsection \<open>ofp\_port\_stats\_request\<close>

record ofp_port_stats_request =
  psq_port_no :: int

definition ofp_port_stats_request_init :: "(ofp_port_stats_request \<Rightarrow> ofp_port_stats_request) \<Rightarrow> ofp_port_stats_request" where
  "ofp_port_stats_request_init kw =
     kw \<lparr>psq_port_no = 0\<rparr>"

definition ofp_port_stats_request_pack :: "bool \<Rightarrow> ofp_port_stats_request \<Rightarrow> bytes option result" where
  "ofp_port_stats_request_pack assertstruct self =
     (if assertstruct \<and> \<not> fst (assert_true self) then Inr None
      else packed [
        struct_pack ''!H'' [psq_port_no self],
        Inr (PAD 6)])"

definition ofp_port_stats_request_unpack :: "ofp_port_stats_request \<Rightarrow> bytes \<Rightarrow> (ofp_port_stats_request \<times> bytes) result" where
  "ofp_port_stats_request_unpack self b =
     (if length b < 8 then Inr (self, b)
      else bindE (struct_unpack_from ''!H'' b 0) (\<lambda>v.
        Inr (self\<lparr>psq_port_no := v ! 0\<rparr>, drop 8 b)))"

definition ofp_port_stats_request_len :: int where
  "ofp_port_stats_request_len = 8"

definition ofp_port_stats_request_eq :: "ofp_port_stats_request \<Rightarrow> ofp_port_stats_request \<Rightarrow> bool" where
  "ofp_port_stats_request_eq self other \<longleftrightarrow>
     psq_port_no self = psq_port_no other"

interpretation st_port_stats_request: wire_struct ofp_port_stats_request_pack ofp_port_stats_request_unpack
    "\<lambda>_. True" 8
  by unfold_locales
    (auto simp: ofp_port_stats_request_pack_def ofp_port_stats_request_unpack_def
      codec struct_pack_length split: if_splits)

subsection \<open>ofp\_port\_stats\<close>

record ofp_port_stats =
  pst_port_no :: int
  pst_rx_packets :: int
  pst_tx_packets :: int
  pst_rx_bytes :: int
  pst_tx_bytes :: int
  pst_rx_dropped :: int
  pst_tx_dropped :: int
  pst_rx_errors :: int
  pst_tx_errors :: int
  pst_rx_frame_err :: int
  pst_rx_over_err :: int
  pst_rx_crc_err :: int
  pst_collisions :: int

definition ofp_port_stats_init :: "(ofp_port_stats \<Rightarrow> ofp_port_stats) \<Rightarrow> ofp_port_stats" where
  "ofp_port_stats_init kw =
     kw \<lparr>pst_port_no = 0, pst_rx_packets = 0, pst_tx_packets = 0, pst_rx_bytes = 0,
      pst_tx_bytes = 0, pst_rx_dropped = 0, pst_tx_dropped = 0, pst_rx_errors = 0,
      pst_tx_errors = 0, pst_rx_frame_err = 0, pst_rx_over_err = 0, pst_rx_crc_err = 0,
      pst_collisions = 0\<rparr>"

definition ofp_port_stats_pack :: "bool \<Rightarrow> ofp_port_stats \<Rightarrow> bytes option result" where
  "ofp_port_stats_pack assertstruct self =
     (if assertstruct \<and> \<not> fst (assert_true self) then Inr None
      else packed [
        struct_pack ''!H'' [pst_port_no self],
        Inr (PAD 6),
        struct_pack ''!QQQQQQQQQQQQ'' [pst_rx_packets self, pst_tx_packets self, pst_rx_bytes self, pst_tx_bytes self,
          pst_rx_dropped self, pst_tx_dropped self, pst_rx_errors self, pst_tx_errors self,
          pst_rx_frame_err self, pst_rx_over_err self, pst_rx_crc_err self, pst_collisions self]])"

definition ofp_port_stats_unpack :: "ofp_port_stats \<Rightarrow> bytes \<Rightarrow> (ofp_port_stats \<times> bytes) result" where
  "ofp_port_stats_unpack self b =
     (if length b < 104 then Inr (self, b)
      else bindE (struct_unpack_from ''!H'' b 0) (\<lambda>v.
        bindE (struct_unpack_from ''!QQQQQQQQQQQQ'' b 8) (\<lambda>w.
        Inr (self\<lparr>pst_port_no := v ! 0, pst_rx_packets := w ! 0, pst_tx_packets := w ! 1,
          pst_rx_bytes := w ! 2, pst_tx_bytes := w ! 3, pst_rx_dropped := w ! 4,
          pst_tx_dropped := w ! 5, pst_rx_errors := w ! 6, pst_tx_errors := w ! 7,
          pst_rx_frame_err := w ! 8, pst_rx_over_err := w ! 9, pst_rx_crc_err := w ! 10,
          pst_collisions := w ! 11\<rparr>, drop 104 b))))"

definition ofp_port_stats_len :: int where
  "ofp_port_stats_len = 104"

definition ofp_port_stats_eq :: "ofp_port_stats \<Rightarrow> ofp_port_stats \<Rightarrow> bool" where
  "ofp_port_stats_eq self other \<longleftrightarrow>
     pst_port_no self = pst_port_no other \<and>
     pst_rx_packets self = pst_rx_packets other \<and>
     pst_tx_packets self = pst_tx_packets other \<and>
     pst_rx_bytes self = pst_rx_bytes other \<and>
     pst_tx_bytes self = pst_tx_bytes other \<and>
     pst_rx_dropped self = pst_rx_dropped other \<and>
     pst_tx_dropped self = pst_tx_dropped other \<and>
     pst_rx_errors self = pst_rx_errors other \<and>
     pst_tx_errors self = pst_tx_errors other \<and>
     pst_rx_frame_err self = pst_rx_frame_err other \<and>
     pst_rx_over_err self = pst_rx_over_err other \<and>
     pst_rx_crc_err self = pst_rx_crc_err other \<and>
     pst_collisions self = pst_collisions other"

interpretation st_port_stats: wire_struct ofp_port_stats_pack ofp_port_stats_unpack
    "\<lambda>_. True" 104
  by unfold_locales
    (auto simp: ofp_port_stats_pack_def ofp_port_stats_unpack_def
      codec struct_pack_length split: if_splits)

text \<open>\<^verbatim>\<open>__add__\<close>: the counters of several ports together, under no port.\<close>

definition ofp_port_stats_add :: "ofp_port_stats \<Rightarrow> ofp_port_stats \<Rightarrow> ofp_port_stats" where
  "ofp_port_stats_add self other = ofp_port_stats_init (\<lambda>s. s
     \<lparr>pst_port_no := OFPP_NONE, pst_rx_packets := pst_rx_packets self + pst_rx_packets other,
      pst_tx_packets := pst_tx_packets self + pst_tx_packets other,
      pst_rx_bytes := pst_rx_bytes self + pst_rx_bytes other,
      pst_tx_bytes := pst_tx_bytes self + pst_tx_bytes other,
      pst_rx_dropped := pst_rx_dropped self + pst_rx_dropped other,
      pst_tx_dropped := pst_tx_dropped self + pst_tx_dropped other,
      pst_rx_errors := pst_rx_errors self + pst_rx_errors other,
      pst_tx_errors := pst_tx_errors self + pst_tx_errors other,
      pst_rx_frame_err := pst_rx_frame_err self + pst_rx_frame_err other,
      pst_rx_over_err := pst_rx_over_err self + pst_rx_over_err other,
      pst_rx_crc_err := pst_rx_crc_err self + pst_rx_crc_err other,
      pst_collisions := pst_collisions self + pst_collisions other\<rparr>)"

subsection \<open>ofp\_queue\_stats\_request\<close>

record ofp_queue_stats_request =
  qsq_port_no :: int
  qsq_queue_id :: int

definition ofp_queue_stats_request_init :: "(ofp_queue_stats_request \<Rightarrow> ofp_queue_stats_request) \<Rightarrow> ofp_queue_stats_request" where
  "ofp_queue_stats_request_init kw =
     kw \<lparr>qsq_port_no = 0, qsq_queue_id = 0\<rparr>"

definition ofp_queue_stats_request_pack :: "bool \<Rightarrow> ofp_queue_stats_request \<Rightarrow> bytes option result" where
  "ofp_queue_stats_request_pack assertstruct self =
     (if assertstruct \<and> \<not> fst (assert_true self) then Inr None
      else packed [
        struct_pack ''!H'' [qsq_port_no self],
        Inr (PAD 2),
        struct_pack ''!L'' [qsq_queue_id self]])"

definition ofp_queue_stats_request_unpack :: "ofp_queue_stats_request \<Rightarrow> bytes \<Rightarrow> (ofp_queue_stats_request \<times> bytes) result" where
  "ofp_queue_stats_request_unpack self b =
     (if length b < 8 then Inr (self, b)
      else bindE (struct_unpack_from ''!H'' b 0) (\<lambda>v.
        bindE (struct_unpack_from ''!L'' b 4) (\<lambda>w.
        Inr (self\<lparr>qsq_port_no := v ! 0, qsq_queue_id := w ! 0\<rparr>, drop 8 b))))"

definition ofp_queue_stats_request_len :: int where
  "ofp_queue_stats_request_len = 8"

definition ofp_queue_stats_request_eq :: "ofp_queue_stats_request \<Rightarrow> ofp_queue_stats_request \<Rightarrow> bool" where
  "ofp_queue_stats_request_eq self other \<longleftrightarrow>
     qsq_port_no self = qsq_port_no other \<and> qsq_queue_id self = qsq_queue_id other"

interpretation st_queue_stats_request: wire_struct ofp_queue_stats_request_pack ofp_queue_stats_request_unpack
    "\<lambda>_. True" 8
  by unfold_locales
    (auto simp: ofp_queue_stats_request_pack_def ofp_queue_stats_request_unpack_def
      codec struct_pack_length split: if_splits)

subsection \<open>ofp\_queue\_stats\<close>

record ofp_queue_stats =
  qs_port_no :: int
  qs_queue_id :: int
  qs_tx_bytes :: int
  qs_tx_packets :: int
  qs_tx_errors :: int

definition ofp_queue_stats_init :: "(ofp_queue_stats \<Rightarrow> ofp_queue_stats) \<Rightarrow> ofp_queue_stats" where
  "ofp_queue_stats_init kw =
     kw \<lparr>qs_port_no = 0, qs_queue_id = 0, qs_tx_bytes = 0, qs_tx_packets = 0, qs_tx_errors = 0\<rparr>"

definition ofp_queue_stats_pack :: "bool \<Rightarrow> ofp_queue_stats \<Rightarrow> bytes option result" where
  "ofp_queue_stats_pack assertstruct self =
     (if assertstruct \<and> \<not> fst (assert_true self) then Inr None
      else packed [
        struct_pack ''!H'' [qs_port_no self],
        Inr (PAD 2),
        struct_pack ''!LQQQ'' [qs_queue_id self, qs_tx_bytes self, qs_tx_packets self, qs_tx_errors self]])"

definition ofp_queue_stats_unpack :: "ofp_queue_stats \<Rightarrow> bytes \<Rightarrow> (ofp_queue_stats \<times> bytes) result" where
  "ofp_queue_stats_unpack self b =
     (if length b < 32 then Inr (self, b)
      else bindE (struct_unpack_from ''!H'' b 0) (\<lambda>v.
        bindE (struct_unpack_from ''!LQQQ'' b 4) (\<lambda>w.
        Inr (self\<lparr>qs_port_no := v ! 0, qs_queue_id := w ! 0, qs_tx_bytes := w ! 1,
          qs_tx_packets := w ! 2, qs_tx_errors := w ! 3\<rparr>, drop 32 b))))"

definition ofp_queue_stats_len :: int where
  "ofp_queue_stats_len = 32"

definition ofp_queue_stats_eq :: "ofp_queue_stats \<Rightarrow> ofp_queue_stats \<Rightarrow> bool" where
  "ofp_queue_stats_eq self other \<longleftrightarrow>
     qs_port_no self = qs_port_no other \<and> qs_queue_id self = qs_queue_id other \<and>
     qs_tx_bytes self = qs_tx_bytes other \<and>
     qs_tx_packets self = qs_tx_packets other \<and> qs_tx_errors self = qs_tx_errors other"

interpretation st_queue_stats: wire_struct ofp_queue_stats_pack ofp_queue_stats_unpack
    "\<lambda>_. True" 32
  by unfold_locales
    (auto simp: ofp_queue_stats_pack_def ofp_queue_stats_unpack_def
      codec struct_pack_length split: if_splits)

subsection \<open>ofp\_stats\_request\<close>

datatype request_body =
    ReqBytes bytes
  | ReqFlow ofp_flow_stats_request
  | ReqAggregate ofp_aggregate_stats_request
  | ReqPort ofp_port_stats_request
  | ReqQueue ofp_queue_stats_request

text \<open>\<^verbatim>\<open>body_data\<close>, without its cache: the code packs a body once, unless the object is replaced.\<close>

fun request_body_data :: "request_body \<Rightarrow> bytes result" where
  "request_body_data (ReqBytes b) = Inr b"
| "request_body_data (ReqFlow r) = needE (ofp_flow_stats_request_pack True r)"
| "request_body_data (ReqAggregate r) = needE (ofp_aggregate_stats_request_pack True r)"
| "request_body_data (ReqPort r) = needE (ofp_port_stats_request_pack True r)"
| "request_body_data (ReqQueue r) = needE (ofp_queue_stats_request_pack True r)"

record ofp_stats_request = ofp_header +
  srq_type :: "int option"
  srq_flags :: int
  srq_body :: request_body

definition ofp_stats_request_init :: "(ofp_stats_request \<Rightarrow> ofp_stats_request) \<Rightarrow> ofp_stats_request" where
  "ofp_stats_request_init kw =
     kw \<lparr>version = OFP_VERSION, header_type = OFPT_STATS_REQUEST, hlength = 8, xid = None,
      srq_type = None, srq_flags = 0, srq_body = ReqBytes ''''\<rparr>"

definition ofp_stats_request_len :: "ofp_stats_request \<Rightarrow> int result" where
  "ofp_stats_request_len self = bindE (request_body_data (srq_body self)) (\<lambda>d. Inr (12 + int (length d)))"

text \<open>A missing type is guessed from the body; a body that gives no hint leaves it missing.\<close>

definition guess_request_type :: "ofp_stats_request \<Rightarrow> ofp_stats_request" where
  "guess_request_type self =
     (if srq_type self \<noteq> None then self
      else case srq_body self of
          ReqFlow _ \<Rightarrow> self\<lparr>srq_type := Some OFPST_FLOW\<rparr>
        | ReqAggregate _ \<Rightarrow> self\<lparr>srq_type := Some OFPST_AGGREGATE\<rparr>
        | b \<Rightarrow> if request_body_data b = Inr [] then self\<lparr>srq_type := Some OFPST_DESC\<rparr> else self)"

definition ofp_stats_request_pack ::
    "bool \<Rightarrow> ofp_stats_request \<Rightarrow> int \<Rightarrow> (bytes option \<times> ofp_stats_request \<times> int) result" where
  "ofp_stats_request_pack assertstruct self nextXID =
     bindE (ofp_stats_request_len self) (\<lambda>n.
       let self = guess_request_type (self\<lparr>hlength := n\<rparr>)
       in if assertstruct \<and> \<not> fst (assert_true self) then Inr (None, self, nextXID)
          else msg_packed (ofp_header_pack True self nextXID) (\<lambda>self. [
            bindE (int_arg (srq_type self)) (\<lambda>t. struct_pack ''!HH'' [t, srq_flags self]),
            request_body_data (srq_body self)]))"

definition ofp_stats_request_unpack :: "ofp_stats_request \<Rightarrow> bytes \<Rightarrow> (ofp_stats_request \<times> bytes) result" where
  "ofp_stats_request_unpack self b =
     (if length b < 12 then Inr (self, b)
      else bindE (ofp_header_unpack self b) (\<lambda>(self, _).
        bindE (struct_unpack_from ''!HH'' b 8) (\<lambda>v.
        let self = self\<lparr>srq_type := Some (v ! 0), srq_flags := v ! 1,
              srq_body := ReqBytes (slice_int 12 (hlength self) b)\<rparr>
        in if ofp_stats_request_len self = Inr (hlength self) then Inr (self, drop_int (hlength self) b)
           else Inl AssertionError)))"

definition ofp_stats_request_eq :: "ofp_stats_request \<Rightarrow> ofp_stats_request \<Rightarrow> bool result" where
  "ofp_stats_request_eq self other =
     andE [Inr (ofp_header_eq self other \<and> srq_type self = srq_type other \<and> srq_flags self = srq_flags other),
       bindE (request_body_data (srq_body self)) (\<lambda>d.
         bindE (request_body_data (srq_body other)) (\<lambda>e. Inr (d = e)))]"

text \<open>Whatever the body was, it is read back as its bytes, and the length is right.\<close>

lemma stats_request_unpack_pack:
  assumes "ofp_stats_request_pack as m nx = Inr (Some b, m', nx')"
  obtains d where "request_body_data (srq_body m) = Inr d" "srq_body m' = srq_body m"
    "int (length b) = hlength m'"
    "ofp_stats_request_unpack s (b @ r) = Inr (m'\<lparr>srq_body := ReqBytes d\<rparr>, r)"
proof -
  obtain d where d: "request_body_data (srq_body m) = Inr d"
    using assms by (auto simp: ofp_stats_request_pack_def ofp_stats_request_len_def)
  define n where "n = guess_request_type (m\<lparr>hlength := 12 + int (length d)\<rparr>)"
  have "msg_packed (ofp_header_pack True n nx) (\<lambda>self. [
      bindE (int_arg (srq_type self)) (\<lambda>t. struct_pack ''!HH'' [t, srq_flags self]),
      request_body_data (srq_body self)]) = Inr (Some b, m', nx')"
    using assms by (simp add: ofp_stats_request_pack_def ofp_stats_request_len_def d Let_def n_def
        split: if_splits)
  then obtain h x e t where hp: "ofp_header_pack True n nx = Inr (h, m', nx')"
    and t: "srq_type m' = Some t" and x: "struct_pack ''!HH'' [t, srq_flags m'] = Inr x"
    and e: "request_body_data (srq_body m') = Inr e" and b: "b = h @ x @ e"
    by (auto simp: codec)
  obtain i where m': "m' = n\<lparr>xid := Some i\<rparr>" using hp by (rule ofp_header_pack_Inr)
  have n: "srq_body n = srq_body m" "hlength n = 12 + int (length d)"
    by (auto simp: n_def guess_request_type_def split: request_body.split)
  have e: "e = d" "hlength m' = int (12 + length d)" "srq_body m' = srq_body m" using e d n by (simp_all add: m')
  have l: "length h = 8" "length x = 4" using ofp_header_pack_length [OF hp] x by (auto dest!: struct_pack_length)
  have sf: "struct_fields ''!HH'' (x @ q) = [t, srq_flags m']" for q by (rule struct_fields_pack [OF x])
  have rest: "drop_int (hlength m') (h @ x @ d @ r) = r" "slice_int 12 (hlength m') (h @ x @ d @ r) = d"
    using l by (simp_all only: e(2) drop_int_of_nat slice_int_of_nat) (simp_all add: slice_def)
  show thesis
  proof (rule that [OF d e(3)])
    show "int (length b) = hlength m'" by (simp add: b l e)
    show "ofp_stats_request_unpack s (b @ r) = Inr (m'\<lparr>srq_body := ReqBytes d\<rparr>, r)"
      using l ofp_header_unpack_pack [OF hp, of s "x @ d @ r"]
      by (simp add: ofp_stats_request_unpack_def b e(1) sf rest t Let_def struct_unpack_from_def ofp_stats_request_len_def)
        (simp add: e(2))
  qed
qed

definition ofp_stats_request_wf :: "ofp_stats_request \<Rightarrow> bool" where
  "ofp_stats_request_wf m \<longleftrightarrow> (\<exists>d. srq_body m = ReqBytes d)"

interpretation msg_stats_request: wire_message ofp_stats_request_pack ofp_stats_request_unpack ofp_stats_request_wf
proof
  fix m as nx b m' nx'
  assume wf: "ofp_stats_request_wf m" and p: "ofp_stats_request_pack as m nx = Inr (Some b, m', nx')"
  show "int (length b) = hlength m'" by (rule stats_request_unpack_pack [OF p])
  fix self r
  obtain d where d: "request_body_data (srq_body m) = Inr d" "srq_body m' = srq_body m"
    "ofp_stats_request_unpack self (b @ r) = Inr (m'\<lparr>srq_body := ReqBytes d\<rparr>, r)"
    by (rule stats_request_unpack_pack [OF p])
  moreover have "srq_body m' = ReqBytes d" using wf d by (auto simp: ofp_stats_request_wf_def)
  ultimately show "ofp_stats_request_unpack self (b @ r) = Inr (m', r)" by (cases m') simp
qed

subsection \<open>ofp\_stats\_reply\<close>

datatype stats_item =
    ItDesc ofp_desc_stats
  | ItFlow ofp_flow_stats
  | ItAggregate ofp_aggregate_stats
  | ItTable ofp_table_stats
  | ItPort ofp_port_stats
  | ItQueue ofp_queue_stats

fun stats_item_pack :: "stats_item \<Rightarrow> (bytes option \<times> stats_item) result" where
  "stats_item_pack (ItDesc s) = bindE (ofp_desc_stats_pack True s) (\<lambda>b. Inr (b, ItDesc s))"
| "stats_item_pack (ItFlow s) = bindE (ofp_flow_stats_pack True s) (\<lambda>(b, s). Inr (b, ItFlow s))"
| "stats_item_pack (ItAggregate s) = bindE (ofp_aggregate_stats_pack True s) (\<lambda>b. Inr (b, ItAggregate s))"
| "stats_item_pack (ItTable s) = bindE (ofp_table_stats_pack True s) (\<lambda>b. Inr (b, ItTable s))"
| "stats_item_pack (ItPort s) = bindE (ofp_port_stats_pack True s) (\<lambda>b. Inr (b, ItPort s))"
| "stats_item_pack (ItQueue s) = bindE (ofp_queue_stats_pack True s) (\<lambda>b. Inr (b, ItQueue s))"

fun stats_item_len :: "stats_item \<Rightarrow> int" where
  "stats_item_len (ItDesc s) = ofp_desc_stats_len"
| "stats_item_len (ItFlow s) = ofp_flow_stats_len s"
| "stats_item_len (ItAggregate s) = ofp_aggregate_stats_len"
| "stats_item_len (ItTable s) = ofp_table_stats_len"
| "stats_item_len (ItPort s) = ofp_port_stats_len"
| "stats_item_len (ItQueue s) = ofp_queue_stats_len"

text \<open>The body is bytes, one structure, or a list of them; the structures may change on packing.\<close>

datatype reply_body =
    RepBytes bytes
  | RepOne stats_item
  | RepList "stats_item list"

fun pack_items :: "stats_item list \<Rightarrow> (bytes \<times> stats_item list) result" where
  "pack_items [] = Inr ([], [])"
| "pack_items (i # is) =
     bindE (stats_item_pack i) (\<lambda>(ob, i).
     bindE (needE (Inr ob)) (\<lambda>b.
     bindE (pack_items is) (\<lambda>(bs, is). Inr (b @ bs, i # is))))"

fun reply_body_data :: "reply_body \<Rightarrow> (bytes \<times> reply_body) result" where
  "reply_body_data (RepBytes b) = Inr (b, RepBytes b)"
| "reply_body_data (RepOne i) =
     bindE (stats_item_pack i) (\<lambda>(ob, i). bindE (needE (Inr ob)) (\<lambda>b. Inr (b, RepOne i)))"
| "reply_body_data (RepList is) = bindE (pack_items is) (\<lambda>(b, is). Inr (b, RepList is))"

text \<open>\<^verbatim>\<open>len(self.body)\<close>: of a list, the number of structures in it.\<close>

fun reply_body_len :: "reply_body \<Rightarrow> int" where
  "reply_body_len (RepBytes b) = int (length b)"
| "reply_body_len (RepOne i) = stats_item_len i"
| "reply_body_len (RepList is) = int (length is)"

record ofp_stats_reply = ofp_header +
  srp_type :: int
  srp_flags :: int
  srp_body :: reply_body

definition ofp_stats_reply_init :: "(ofp_stats_reply \<Rightarrow> ofp_stats_reply) \<Rightarrow> ofp_stats_reply" where
  "ofp_stats_reply_init kw =
     kw \<lparr>version = OFP_VERSION, header_type = OFPT_STATS_REPLY, hlength = 8, xid = None,
       srp_type = 0, srp_flags = 0, srp_body = RepBytes []\<rparr>"

definition ofp_stats_reply_len :: "ofp_stats_reply \<Rightarrow> int" where
  "ofp_stats_reply_len self = 12 + reply_body_len (srp_body self)"

text \<open>
  The test that should derive the type from the body compares the built-in function \<^verbatim>\<open>type\<close> with
  \<^verbatim>\<open>None\<close> and with 0; it never holds and the type stays what it is.
\<close>

definition ofp_stats_reply_pack ::
    "bool \<Rightarrow> ofp_stats_reply \<Rightarrow> int \<Rightarrow> (bytes option \<times> ofp_stats_reply \<times> int) result" where
  "ofp_stats_reply_pack assertstruct self nextXID =
     (let self = self\<lparr>hlength := ofp_stats_reply_len self\<rparr>
      in if assertstruct \<and> \<not> fst (assert_true self) then Inr (None, self, nextXID)
         else bindE (ofp_header_pack True self nextXID) (\<lambda>(h, self, nextXID).
           bindE (struct_pack ''!HH'' [srp_type self, srp_flags self]) (\<lambda>x.
           bindE (reply_body_data (srp_body self)) (\<lambda>(d, body).
             Inr (Some (h @ x @ d), self\<lparr>srp_body := body\<rparr>, nextXID)))))"

definition ofp_stats_reply_unpack :: "ofp_stats_reply \<Rightarrow> bytes \<Rightarrow> (ofp_stats_reply \<times> bytes) result" where
  "ofp_stats_reply_unpack self b =
     (if length b < 12 then Inr (self, b)
      else bindE (ofp_header_unpack self b) (\<lambda>(self, _).
        bindE (struct_unpack_from ''!HH'' b 8) (\<lambda>v.
        Inr (self\<lparr>srp_type := v ! 0, srp_flags := v ! 1,
               srp_body := RepBytes (slice_int 12 (hlength self) b)\<rparr>,
             drop_int (hlength self) b))))"

text \<open>What a reply of any kind puts on the wire and what is read back from it.\<close>

lemma stats_reply_unpack_pack:
  assumes "ofp_stats_reply_pack as m nx = Inr (Some b, m', nx')" "0 \<le> reply_body_len (srp_body m)"
  obtains d where "reply_body_data (srp_body m) = Inr (d, srp_body m')" "length b = 12 + length d"
    "hlength m' = 12 + reply_body_len (srp_body m)"
    "ofp_stats_reply_unpack s (b @ r) =
       Inr (m'\<lparr>srp_body := RepBytes (take (nat (reply_body_len (srp_body m))) (d @ r))\<rparr>,
            drop (nat (reply_body_len (srp_body m))) (d @ r))"
proof -
  define n where "n = m\<lparr>hlength := ofp_stats_reply_len m\<rparr>"
  obtain h i x d body where hp: "ofp_header_pack True n nx = Inr (h, i, nx')"
    and x: "struct_pack ''!HH'' [srp_type i, srp_flags i] = Inr x"
    and d: "reply_body_data (srp_body i) = Inr (d, body)"
    and b: "b = h @ x @ d" and m': "m' = i\<lparr>srp_body := body\<rparr>"
    using assms(1) by (auto simp: ofp_stats_reply_pack_def Let_def n_def split: if_splits)
  obtain k where i: "i = n\<lparr>xid := Some k\<rparr>" using hp by (rule ofp_header_pack_Inr)
  let ?l = "nat (reply_body_len (srp_body m))"
  have l: "length h = 8" "length x = 4" using ofp_header_pack_length [OF hp] x by (auto dest!: struct_pack_length)
  have hl: "hlength i = int (12 + ?l)" using assms(2) by (simp add: i n_def ofp_stats_reply_len_def)
  have sf: "struct_fields ''!HH'' (x @ q) = [srp_type i, srp_flags i]" for q by (rule struct_fields_pack [OF x])
  have rest: "drop_int (hlength i) (h @ x @ d @ r) = drop ?l (d @ r)"
    "slice_int 12 (hlength i) (h @ x @ d @ r) = take ?l (d @ r)"
    using l by (simp_all only: hl drop_int_of_nat slice_int_of_nat) (simp_all add: slice_def)
  show thesis
  proof (rule that [of d])
    show "reply_body_data (srp_body m) = Inr (d, srp_body m')" using d by (simp add: m' i n_def)
    show "length b = 12 + length d" by (simp add: b l)
    show "hlength m' = 12 + reply_body_len (srp_body m)" using hl assms(2) by (simp add: m')
    have "ofp_stats_reply_unpack s (b @ r) =
        Inr (i\<lparr>srp_body := RepBytes (take ?l (d @ r))\<rparr>, drop ?l (d @ r))"
      unfolding ofp_stats_reply_unpack_def
      using l ofp_header_unpack_pack [OF hp, of s "x @ d @ r"]
      by (simp add: b rest struct_unpack_from_def del: take_append drop_append)
        (simp add: sf)
    then show "ofp_stats_reply_unpack s (b @ r) = Inr (m'\<lparr>srp_body := RepBytes (take ?l (d @ r))\<rparr>, drop ?l (d @ r))"
      by (simp add: m')
  qed
qed

definition ofp_stats_reply_wf :: "ofp_stats_reply \<Rightarrow> bool" where
  "ofp_stats_reply_wf m \<longleftrightarrow> (\<exists>d. srp_body m = RepBytes d)"

interpretation msg_stats_reply: wire_message ofp_stats_reply_pack ofp_stats_reply_unpack ofp_stats_reply_wf
proof
  fix m as nx b m' nx'
  assume wf: "ofp_stats_reply_wf m" and p: "ofp_stats_reply_pack as m nx = Inr (Some b, m', nx')"
  then obtain e where e: "srp_body m = RepBytes e" by (auto simp: ofp_stats_reply_wf_def)
  show "int (length b) = hlength m'"
    by (rule stats_reply_unpack_pack [OF p]) (auto simp: e)
  fix self r
  obtain d where d: "reply_body_data (srp_body m) = Inr (d, srp_body m')"
    "ofp_stats_reply_unpack self (b @ r) =
       Inr (m'\<lparr>srp_body := RepBytes (take (nat (reply_body_len (srp_body m))) (d @ r))\<rparr>,
            drop (nat (reply_body_len (srp_body m))) (d @ r))"
    by (rule stats_reply_unpack_pack [OF p]) (simp add: e)
  then show "ofp_stats_reply_unpack self (b @ r) = Inr (m', r)" by (cases m') (auto simp: e)
qed

text \<open>The lengths of packed structures, and of a list of ports.\<close>

lemma pack_ports_length:
  "pack_items (map ItPort ps) = Inr (d, is) \<Longrightarrow> length d = 104 * length ps"
proof (induction ps arbitrary: d "is")
  case (Cons p ps)
  then show ?case using st_port_stats.pack_size [OF TrueI] by (auto simp: needE_Inr_iff)
qed simp

end
