(* ===== verification/OF_Channel.thy ===== *)
theory OF_Channel
  imports OF_Stats
begin

text \<open>
  Reading OpenFlow messages from a byte stream: the table of message classes
  (\<^verbatim>\<open>openflow/util.py\<close>), the framing loops of \<^verbatim>\<open>openflow/of_01.py\<close> and of the software switch, and the
  queue that keeps the order of outgoing data. The theorem of this theory is that a stream of
  well-formed messages is split at the message boundaries, however the bytes arrive.
\<close>

subsection \<open>Messages of every class\<close>

datatype of_msg =
    MHello ofp_header
  | MError ofp_error
  | MEchoRequest ofp_echo_request
  | MEchoReply ofp_echo_reply
  | MVendor ofp_vendor
  | MFeaturesRequest ofp_header
  | MFeaturesReply ofp_features_reply
  | MGetConfigRequest ofp_header
  | MGetConfigReply ofp_get_config_reply
  | MSetConfig ofp_set_config
  | MPacketIn ofp_packet_in
  | MFlowRemoved ofp_flow_removed
  | MPortStatus ofp_port_status
  | MPacketOut ofp_packet_out
  | MFlowMod ofp_flow_mod
  | MPortMod ofp_port_mod
  | MStatsRequest ofp_stats_request
  | MStatsReply ofp_stats_reply
  | MBarrierRequest ofp_header
  | MBarrierReply ofp_header
  | MQueueGetConfigRequest ofp_queue_get_config_request

text \<open>
  \<^verbatim>\<open>classes[t]()\<close>. The list is built for \<^verbatim>\<open>range(0, max)\<close>, so the last type, the reply to a queue
  configuration request, has no class.
\<close>

definition make_type_to_class_table :: "of_msg list" where
  "make_type_to_class_table =
     [MHello (ofp_hello_init (\<lambda>m. m)), MError (ofp_error_init (\<lambda>m. m)),
      MEchoRequest (ofp_echo_request_init (\<lambda>m. m)), MEchoReply (ofp_echo_reply_init (\<lambda>m. m)),
      MVendor (ofp_vendor_init (\<lambda>m. m)), MFeaturesRequest (ofp_features_request_init (\<lambda>m. m)),
      MFeaturesReply (ofp_features_reply_init (\<lambda>m. m)), MGetConfigRequest (ofp_get_config_request_init (\<lambda>m. m)),
      MGetConfigReply (ofp_get_config_reply_init (\<lambda>m. m)), MSetConfig (ofp_set_config_init (\<lambda>m. m)),
      MPacketIn (ofp_packet_in_init (\<lambda>m. m)), MFlowRemoved (ofp_flow_removed_init (\<lambda>m. m)),
      MPortStatus (ofp_port_status_init (\<lambda>m. m)), MPacketOut (ofp_packet_out_init (\<lambda>m. m)),
      MFlowMod (ofp_flow_mod_init (\<lambda>m. m)), MPortMod (ofp_port_mod_init (\<lambda>m. m)),
      MStatsRequest (ofp_stats_request_init (\<lambda>m. m)), MStatsReply (ofp_stats_reply_init (\<lambda>m. m)),
      MBarrierRequest (ofp_barrier_request_init (\<lambda>m. m)), MBarrierReply (ofp_barrier_reply_init (\<lambda>m. m)),
      MQueueGetConfigRequest (ofp_queue_get_config_request_init (\<lambda>m. m))]"

definition blank_msg :: "int \<Rightarrow> of_msg result" where
  "blank_msg t =
     (if nat t < length make_type_to_class_table then Inr (make_type_to_class_table ! nat t) else Inl IndexError)"

definition msg_result :: "('a \<Rightarrow> of_msg) \<Rightarrow> ('a \<times> bytes) result \<Rightarrow> (of_msg \<times> bytes) result" where
  "msg_result c r = bindE r (\<lambda>(m, rest). Inr (c m, rest))"

fun of_msg_unpack :: "of_msg \<Rightarrow> bytes \<Rightarrow> (of_msg \<times> bytes) result" where
  "of_msg_unpack (MHello m) b = msg_result MHello (bare_unpack m b)"
| "of_msg_unpack (MError m) b = msg_result MError (ofp_error_unpack m b)"
| "of_msg_unpack (MEchoRequest m) b = msg_result MEchoRequest (ofp_echo_request_unpack m b)"
| "of_msg_unpack (MEchoReply m) b = msg_result MEchoReply (ofp_echo_reply_unpack m b)"
| "of_msg_unpack (MVendor m) b = msg_result MVendor (ofp_vendor_unpack m b)"
| "of_msg_unpack (MFeaturesRequest m) b = msg_result MFeaturesRequest (bare_unpack m b)"
| "of_msg_unpack (MFeaturesReply m) b = msg_result MFeaturesReply (ofp_features_reply_unpack m b)"
| "of_msg_unpack (MGetConfigRequest m) b = msg_result MGetConfigRequest (bare_unpack m b)"
| "of_msg_unpack (MGetConfigReply m) b = msg_result MGetConfigReply (ofp_get_config_reply_unpack m b)"
| "of_msg_unpack (MSetConfig m) b = msg_result MSetConfig (ofp_set_config_unpack m b)"
| "of_msg_unpack (MPacketIn m) b = msg_result MPacketIn (ofp_packet_in_unpack m b)"
| "of_msg_unpack (MFlowRemoved m) b = msg_result MFlowRemoved (ofp_flow_removed_unpack m b)"
| "of_msg_unpack (MPortStatus m) b = msg_result MPortStatus (ofp_port_status_unpack m b)"
| "of_msg_unpack (MPacketOut m) b = msg_result MPacketOut (ofp_packet_out_unpack m b)"
| "of_msg_unpack (MFlowMod m) b = msg_result MFlowMod (ofp_flow_mod_unpack m b)"
| "of_msg_unpack (MPortMod m) b = msg_result MPortMod (ofp_port_mod_unpack m b)"
| "of_msg_unpack (MStatsRequest m) b = msg_result MStatsRequest (ofp_stats_request_unpack m b)"
| "of_msg_unpack (MStatsReply m) b = msg_result MStatsReply (ofp_stats_reply_unpack m b)"
| "of_msg_unpack (MBarrierRequest m) b = msg_result MBarrierRequest (bare_unpack m b)"
| "of_msg_unpack (MBarrierReply m) b = msg_result MBarrierReply (bare_unpack m b)"
| "of_msg_unpack (MQueueGetConfigRequest m) b = msg_result MQueueGetConfigRequest (ofp_queue_get_config_request_unpack m b)"

definition pack_result ::
    "('a \<Rightarrow> of_msg) \<Rightarrow> (bytes option \<times> 'a \<times> int) result \<Rightarrow> (bytes option \<times> of_msg \<times> int) result" where
  "pack_result c r = bindE r (\<lambda>(b, m, nextXID). Inr (b, c m, nextXID))"

fun of_msg_pack :: "of_msg \<Rightarrow> int \<Rightarrow> (bytes option \<times> of_msg \<times> int) result" where
  "of_msg_pack (MHello m) nx = pack_result MHello (bare_pack True m nx)"
| "of_msg_pack (MError m) nx = pack_result MError (ofp_error_pack True m nx)"
| "of_msg_pack (MEchoRequest m) nx = pack_result MEchoRequest (ofp_echo_request_pack True m nx)"
| "of_msg_pack (MEchoReply m) nx = pack_result MEchoReply (ofp_echo_reply_pack True m nx)"
| "of_msg_pack (MVendor m) nx = pack_result MVendor (ofp_vendor_pack True m nx)"
| "of_msg_pack (MFeaturesRequest m) nx = pack_result MFeaturesRequest (bare_pack True m nx)"
| "of_msg_pack (MFeaturesReply m) nx = pack_result MFeaturesReply (ofp_features_reply_pack True m nx)"
| "of_msg_pack (MGetConfigRequest m) nx = pack_result MGetConfigRequest (bare_pack True m nx)"
| "of_msg_pack (MGetConfigReply m) nx = pack_result MGetConfigReply (ofp_get_config_reply_pack True m nx)"
| "of_msg_pack (MSetConfig m) nx = pack_result MSetConfig (ofp_set_config_pack True m nx)"
| "of_msg_pack (MPacketIn m) nx = pack_result MPacketIn (ofp_packet_in_pack True m nx)"
| "of_msg_pack (MFlowRemoved m) nx = pack_result MFlowRemoved (ofp_flow_removed_pack True m nx)"
| "of_msg_pack (MPortStatus m) nx = pack_result MPortStatus (ofp_port_status_pack True m nx)"
| "of_msg_pack (MPacketOut m) nx = pack_result MPacketOut (ofp_packet_out_pack True m nx)"
| "of_msg_pack (MFlowMod m) nx = pack_result MFlowMod (ofp_flow_mod_pack True m nx)"
| "of_msg_pack (MPortMod m) nx = pack_result MPortMod (ofp_port_mod_pack True m nx)"
| "of_msg_pack (MStatsRequest m) nx = pack_result MStatsRequest (ofp_stats_request_pack True m nx)"
| "of_msg_pack (MStatsReply m) nx = pack_result MStatsReply (ofp_stats_reply_pack True m nx)"
| "of_msg_pack (MBarrierRequest m) nx = pack_result MBarrierRequest (bare_pack True m nx)"
| "of_msg_pack (MBarrierReply m) nx = pack_result MBarrierReply (ofp_barrier_reply_pack True m nx)"
| "of_msg_pack (MQueueGetConfigRequest m) nx = pack_result MQueueGetConfigRequest (ofp_queue_get_config_request_pack True m nx)"

subsection \<open>The framing loop\<close>

text \<open>
  One turn of \<^verbatim>\<open>while len(message) > 4\<close>: what the header says, and the message with the buffer behind
  it. \<^verbatim>\<open>unpack\<close> gets the whole buffer. An exception of it leaves the loop with the buffer as it was.
\<close>

datatype frame = NeedMore | BadVersion | Frame int of_msg bytes

definition next_frame :: "bytes \<Rightarrow> frame result" where
  "next_frame buf =
     (if length buf \<le> 4 then Inr NeedMore
      else if of_char (buf ! 0) \<noteq> OFP_VERSION then Inr BadVersion
      else
        let ofp_type = of_char (buf ! 1);
            packet_length = push_bit 8 (of_char (buf ! 2)) OR of_char (buf ! 3)
        in if packet_length > int (length buf) then Inr NeedMore
           else bindE (blank_msg ofp_type) (\<lambda>msg.
             bindE (of_msg_unpack msg buf) (\<lambda>(msg, _).
               Inr (Frame ofp_type msg (drop (nat packet_length) buf)))))"

text \<open>
  \<^verbatim>\<open>Connection.read\<close> behind the call of \<^verbatim>\<open>recv\<close>. The handler's exceptions are caught and logged, so a
  handler is a function on the state; \<^verbatim>\<open>read\<close> gives \<^verbatim>\<open>True\<close> or \<^verbatim>\<open>False\<close>, or an exception leaves it.
  A loop that never ends is \<open>None\<close>.
\<close>

datatype read_end = Returned bool | Raised py_error

partial_function (option) read_loop ::
    "(int \<Rightarrow> of_msg \<Rightarrow> 's \<Rightarrow> 's) \<Rightarrow> bytes \<Rightarrow> 's \<Rightarrow> (read_end \<times> bytes \<times> 's) option" where
  [code]: "read_loop h buf s =
     (case next_frame buf of
        Inl e \<Rightarrow> Some (Raised e, buf, s)
      | Inr NeedMore \<Rightarrow> Some (Returned True, buf, s)
      | Inr BadVersion \<Rightarrow> Some (Returned False, buf, s)
      | Inr (Frame t m rest) \<Rightarrow> read_loop h rest (h t m s))"

definition connection_read ::
    "(int \<Rightarrow> of_msg \<Rightarrow> 's \<Rightarrow> 's) \<Rightarrow> bytes \<Rightarrow> bytes \<Rightarrow> 's \<Rightarrow> (read_end \<times> bytes \<times> 's) option" where
  "connection_read h d buf s =
     (if d = [] then Some (Returned False, buf, s) else read_loop h (buf @ d) s)"

text \<open>Successive reads, as long as they return \<^verbatim>\<open>True\<close>.\<close>

fun read_all ::
    "(int \<Rightarrow> of_msg \<Rightarrow> 's \<Rightarrow> 's) \<Rightarrow> bytes list \<Rightarrow> bytes \<Rightarrow> 's \<Rightarrow> (read_end \<times> bytes \<times> 's) option" where
  "read_all h [] buf s = Some (Returned True, buf, s)"
| "read_all h (d # ds) buf s =
     (case connection_read h d buf s of
        Some (Returned True, buf, s) \<Rightarrow> read_all h ds buf s
      | r \<Rightarrow> r)"

subsection \<open>What a message shows to the framing loop\<close>

text \<open>
  The loop reads the version, the type and the length from the first four bytes. A class of messages
  is framed when packing puts them there.
\<close>

definition has_header :: "bytes \<Rightarrow> int \<Rightarrow> int \<Rightarrow> int \<Rightarrow> bool" where
  "has_header b v t n \<longleftrightarrow> (\<exists>h rest x. b = h @ rest \<and> struct_pack ''!BBHL'' [v, t, n, x] = Inr h)"

lemma has_headerI:
  "struct_pack ''!BBHL'' [v, t, n, x] = Inr h \<Longrightarrow> has_header (h @ rest) v t n"
  "struct_pack ''!BBHL'' [v, t, n, x] = Inr h \<Longrightarrow> has_header h v t n"
  unfolding has_header_def by blast (metis append_Nil2)

locale framed_message = wire_message +
  assumes header_first: "wf m \<Longrightarrow> pack as m nx = Inr (Some b, m', nx') \<Longrightarrow>
    has_header b (version m) (header_type m) (hlength m')"

lemma two_bytes: "push_bit 8 (of_char a) OR of_char b = 256 * of_char a + (of_char b :: int)"
proof -
  have b: "take_bit 8 (of_char b :: int) = of_char b"
    using of_char_range [of b] by (intro take_bit_int_eq_self) auto
  have lt: "bit (of_char b :: int) n \<Longrightarrow> n < 8" for n
    by (metis b bit_take_bit_iff)
  have "push_bit 8 (of_char a :: int) OR of_char b = push_bit 8 (of_char a) + of_char b"
    by (intro disjunctive_add [symmetric]) (metis bit_push_bit_iff_int lt not_less)
  then show ?thesis by (simp add: push_bit_eq_mult)
qed

lemma BBHL_bytes:
  assumes "struct_pack ''!BBHL'' [v, t, n, x] = Inr h"
  shows "length h = 8" "of_char (h ! 0) = v" "of_char (h ! 1) = t"
    "push_bit 8 (of_char (h ! 2)) OR of_char (h ! 3) = n"
proof -
  show l: "length h = 8" using struct_pack_length [OF assms] by simp
  then obtain a b c d e where h: "h = a # b # c # d # e"
    by (auto simp: numeral_eq_Suc length_Suc_conv)
  have "struct_fields ''!BBHL'' (h @ []) = [v, t, n, x]" by (rule struct_fields_pack [OF assms])
  then show "of_char (h ! 0) = v" "of_char (h ! 1) = t" "push_bit 8 (of_char (h ! 2)) OR of_char (h ! 3) = n"
    using of_char_range [of a] of_char_range [of b] of_char_range [of c] of_char_range [of d]
    by (simp_all add: h two_bytes struct_fields.simps code_decode_def code_max_def code_signed_def code_size_def be_value_def)
qed

context framed_message
begin

lemma frame_bytes:
  assumes "wf m" "pack as m nx = Inr (Some b, m', nx')"
  shows "8 \<le> length b" "of_char (b ! 0) = version m" "of_char (b ! 1) = header_type m"
    "push_bit 8 (of_char (b ! 2)) OR of_char (b ! 3) = int (length b)"
proof -
  obtain h t x where b: "b = h @ t" and h: "struct_pack ''!BBHL'' [version m, header_type m, hlength m', x] = Inr h"
    using header_first [OF assms] unfolding has_header_def by blast
  note f = BBHL_bytes [OF h] and n = pack_length [OF assms]
  show "8 \<le> length b" using f(1) by (simp add: b)
  show "of_char (b ! 0) = version m" "of_char (b ! 1) = header_type m"
    "push_bit 8 (of_char (b ! 2)) OR of_char (b ! 3) = int (length b)"
    using f n by (simp_all add: b nth_append)
qed

end

interpretation fr_bare: framed_message bare_pack bare_unpack bare_wf
  by unfold_locales (auto simp: bare_pack_def codec Let_def split: if_splits elim!: ofp_header_pack_Inr intro: has_headerI)

interpretation fr_barrier_reply: framed_message ofp_barrier_reply_pack bare_unpack bare_wf
  by unfold_locales (auto simp: ofp_barrier_reply_pack_def codec Let_def split: if_splits elim!: ofp_header_pack_Inr intro: has_headerI)

interpretation fr_get_config_reply: framed_message ofp_get_config_reply_pack ofp_get_config_reply_unpack ofp_get_config_reply_wf
  by unfold_locales (auto simp: ofp_get_config_reply_pack_def codec Let_def split: if_splits elim!: ofp_header_pack_Inr intro: has_headerI)

interpretation fr_set_config: framed_message ofp_set_config_pack ofp_set_config_unpack ofp_set_config_wf
  by unfold_locales (auto simp: ofp_set_config_pack_def codec Let_def split: if_splits elim!: ofp_header_pack_Inr intro: has_headerI)

interpretation fr_queue_get_config_request: framed_message ofp_queue_get_config_request_pack ofp_queue_get_config_request_unpack ofp_queue_get_config_request_wf
  by unfold_locales (auto simp: ofp_queue_get_config_request_pack_def codec Let_def split: if_splits elim!: ofp_header_pack_Inr intro: has_headerI)

interpretation fr_port_mod: framed_message ofp_port_mod_pack ofp_port_mod_unpack ofp_port_mod_wf
  by unfold_locales (auto simp: ofp_port_mod_pack_def codec Let_def split: if_splits elim!: ofp_header_pack_Inr intro: has_headerI)

interpretation fr_features_reply: framed_message ofp_features_reply_pack ofp_features_reply_unpack ofp_features_reply_wf
  by unfold_locales (auto simp: ofp_features_reply_pack_def codec Let_def split: if_splits elim!: ofp_header_pack_Inr intro: has_headerI)

interpretation fr_echo_request: framed_message ofp_echo_request_pack ofp_echo_request_unpack ofp_echo_request_wf
  by unfold_locales (auto simp: ofp_echo_request_pack_def codec Let_def split: if_splits elim!: ofp_header_pack_Inr intro: has_headerI)

interpretation fr_echo_reply: framed_message ofp_echo_reply_pack ofp_echo_reply_unpack ofp_echo_reply_wf
  by unfold_locales (auto simp: ofp_echo_reply_pack_def codec Let_def split: if_splits elim!: ofp_header_pack_Inr intro: has_headerI)

interpretation fr_vendor: framed_message ofp_vendor_pack ofp_vendor_unpack ofp_vendor_wf
  by unfold_locales (auto simp: ofp_vendor_pack_def codec Let_def split: if_splits elim!: ofp_header_pack_Inr intro: has_headerI)

interpretation fr_packet_in: framed_message ofp_packet_in_pack ofp_packet_in_unpack ofp_packet_in_wf
  by unfold_locales (auto simp: ofp_packet_in_pack_def codec Let_def split: if_splits elim!: ofp_header_pack_Inr intro: has_headerI)

interpretation fr_packet_out: framed_message ofp_packet_out_pack ofp_packet_out_unpack ofp_packet_out_wf
  by unfold_locales (auto simp: ofp_packet_out_pack_def codec Let_def split: if_splits elim!: ofp_header_pack_Inr intro: has_headerI)

interpretation fr_flow_mod: framed_message ofp_flow_mod_pack ofp_flow_mod_unpack ofp_flow_mod_wf
  by unfold_locales (auto simp: ofp_flow_mod_pack_def codec Let_def split: if_splits elim!: ofp_header_pack_Inr intro: has_headerI)

interpretation fr_flow_removed: framed_message ofp_flow_removed_pack ofp_flow_removed_unpack ofp_flow_removed_wf
  by unfold_locales (auto simp: ofp_flow_removed_pack_def codec Let_def split: if_splits elim!: ofp_header_pack_Inr intro: has_headerI)

interpretation fr_port_status: framed_message ofp_port_status_pack ofp_port_status_unpack ofp_port_status_wf
  by unfold_locales (auto simp: ofp_port_status_pack_def codec Let_def split: if_splits elim!: ofp_header_pack_Inr intro: has_headerI)

lemma guess_request_header [simp]:
  "version (guess_request_type m) = version m" "header_type (guess_request_type m) = header_type m"
  "hlength (guess_request_type m) = hlength m"
  by (simp_all add: guess_request_type_def split: request_body.split)

interpretation fr_stats_request: framed_message ofp_stats_request_pack ofp_stats_request_unpack ofp_stats_request_wf
  by unfold_locales (auto simp: ofp_stats_request_pack_def codec Let_def split: if_splits elim!: ofp_header_pack_Inr intro: has_headerI)

interpretation fr_stats_reply: framed_message ofp_stats_reply_pack ofp_stats_reply_unpack ofp_stats_reply_wf
  by unfold_locales (auto simp: ofp_stats_reply_pack_def codec Let_def split: if_splits elim!: ofp_header_pack_Inr intro: has_headerI)


text \<open>
  A message as its receiver sees it: the error class reads no data. \<open>framed b m\<close> says that the loop
  takes exactly \<open>b\<close> off a buffer that starts with it, and delivers \<open>m\<close>.
\<close>

fun received :: "of_msg \<Rightarrow> of_msg" where
  "received (MError m) = MError (m\<lparr>oe_data := []\<rparr>)"
| "received m = m"

definition framed :: "bytes \<Rightarrow> int \<times> of_msg \<Rightarrow> bool" where
  "framed b tm \<longleftrightarrow> 4 < length b \<and> of_char (b ! 0) = OFP_VERSION \<and> of_char (b ! 1) = fst tm \<and>
     push_bit 8 (of_char (b ! 2)) OR of_char (b ! 3) = int (length b) \<and>
     (\<forall>r. next_frame (b @ r) = Inr (Frame (fst tm) (snd tm) r))"

lemma framedI:
  assumes "8 \<le> length b" "of_char (b ! 0) = (1::int)" "of_char (b ! 1) = t"
    "push_bit 8 (of_char (b ! 2)) OR of_char (b ! 3) = int (length b)"
    "blank_msg t = Inr m0" "\<And>r. \<exists>x. of_msg_unpack m0 (b @ r) = Inr (m, x)"
  shows "framed b (t, m)"
proof -
  have "next_frame (b @ r) = Inr (Frame t m r)" for r
  proof -
    obtain x where x: "of_msg_unpack m0 (b @ r) = Inr (m, x)" using assms(6) by blast
    have "b \<noteq> []" using assms(1) by auto
    then show ?thesis using assms(1-5) x by (auto simp: next_frame_def nth_append Let_def)
  qed
  then show ?thesis using assms by (simp add: framed_def)
qed

context framed_message
begin

lemma framed_pack:
  assumes p: "pack as m nx = Inr (Some b, m', nx')" and w: "wf m" "version m = OFP_VERSION" "header_type m = t"
    and c: "blank_msg t = Inr (c m0)" "\<And>s. of_msg_unpack (c m0) s = msg_result c (unpack m0 s)"
  shows "framed b (t, c m')"
  using frame_bytes [OF w(1) p] w(2,3) c unpack_pack [OF w(1) p]
  by (intro framedI [of b t "c m0"]) (simp_all add: msg_result_def)

end

text \<open>Messages that can be sent: their class's condition, the right version and the right type.\<close>

definition head_ok :: "int \<Rightarrow> 'a ofp_header_scheme \<Rightarrow> bool" where
  "head_ok t m \<longleftrightarrow> version m = OFP_VERSION \<and> header_type m = t"

fun of_msg_wf :: "of_msg \<Rightarrow> bool" where
  "of_msg_wf (MHello m) = (bare_wf m \<and> head_ok OFPT_HELLO m)"
| "of_msg_wf (MError m) = head_ok OFPT_ERROR m"
| "of_msg_wf (MEchoRequest m) = (ofp_echo_request_wf m \<and> head_ok OFPT_ECHO_REQUEST m)"
| "of_msg_wf (MEchoReply m) = (ofp_echo_reply_wf m \<and> head_ok OFPT_ECHO_REPLY m)"
| "of_msg_wf (MVendor m) = (ofp_vendor_wf m \<and> head_ok OFPT_VENDOR m)"
| "of_msg_wf (MFeaturesRequest m) = (bare_wf m \<and> head_ok OFPT_FEATURES_REQUEST m)"
| "of_msg_wf (MFeaturesReply m) = (ofp_features_reply_wf m \<and> head_ok OFPT_FEATURES_REPLY m)"
| "of_msg_wf (MGetConfigRequest m) = (bare_wf m \<and> head_ok OFPT_GET_CONFIG_REQUEST m)"
| "of_msg_wf (MGetConfigReply m) = (ofp_get_config_reply_wf m \<and> head_ok OFPT_GET_CONFIG_REPLY m)"
| "of_msg_wf (MSetConfig m) = (ofp_set_config_wf m \<and> head_ok OFPT_SET_CONFIG m)"
| "of_msg_wf (MPacketIn m) = (ofp_packet_in_wf m \<and> head_ok OFPT_PACKET_IN m)"
| "of_msg_wf (MFlowRemoved m) = (ofp_flow_removed_wf m \<and> head_ok OFPT_FLOW_REMOVED m)"
| "of_msg_wf (MPortStatus m) = (ofp_port_status_wf m \<and> head_ok OFPT_PORT_STATUS m)"
| "of_msg_wf (MPacketOut m) = (ofp_packet_out_wf m \<and> head_ok OFPT_PACKET_OUT m)"
| "of_msg_wf (MFlowMod m) = (ofp_flow_mod_wf m \<and> head_ok OFPT_FLOW_MOD m)"
| "of_msg_wf (MPortMod m) = (ofp_port_mod_wf m \<and> head_ok OFPT_PORT_MOD m)"
| "of_msg_wf (MStatsRequest m) = (ofp_stats_request_wf m \<and> head_ok OFPT_STATS_REQUEST m)"
| "of_msg_wf (MStatsReply m) = (ofp_stats_reply_wf m \<and> head_ok OFPT_STATS_REPLY m)"
| "of_msg_wf (MBarrierRequest m) = (bare_wf m \<and> head_ok OFPT_BARRIER_REQUEST m)"
| "of_msg_wf (MBarrierReply m) = (bare_wf m \<and> head_ok OFPT_BARRIER_REPLY m)"
| "of_msg_wf (MQueueGetConfigRequest m) =
     (ofp_queue_get_config_request_wf m \<and> head_ok OFPT_QUEUE_GET_CONFIG_REQUEST m)"

definition msg_type :: "of_msg \<Rightarrow> int" where
  "msg_type m = (case m of MHello _ \<Rightarrow> 0 | MError _ \<Rightarrow> 1 | MEchoRequest _ \<Rightarrow> 2 | MEchoReply _ \<Rightarrow> 3 | MVendor _ \<Rightarrow> 4
     | MFeaturesRequest _ \<Rightarrow> 5 | MFeaturesReply _ \<Rightarrow> 6 | MGetConfigRequest _ \<Rightarrow> 7 | MGetConfigReply _ \<Rightarrow> 8
     | MSetConfig _ \<Rightarrow> 9 | MPacketIn _ \<Rightarrow> 10 | MFlowRemoved _ \<Rightarrow> 11 | MPortStatus _ \<Rightarrow> 12 | MPacketOut _ \<Rightarrow> 13
     | MFlowMod _ \<Rightarrow> 14 | MPortMod _ \<Rightarrow> 15 | MStatsRequest _ \<Rightarrow> 16 | MStatsReply _ \<Rightarrow> 17 | MBarrierRequest _ \<Rightarrow> 18
     | MBarrierReply _ \<Rightarrow> 19 | MQueueGetConfigRequest _ \<Rightarrow> 20)"

lemma blank_msgs:
  "blank_msg 0 = Inr (MHello (ofp_hello_init (\<lambda>m. m)))"
  "blank_msg 1 = Inr (MError (ofp_error_init (\<lambda>m. m)))"
  "blank_msg 2 = Inr (MEchoRequest (ofp_echo_request_init (\<lambda>m. m)))"
  "blank_msg 3 = Inr (MEchoReply (ofp_echo_reply_init (\<lambda>m. m)))"
  "blank_msg 4 = Inr (MVendor (ofp_vendor_init (\<lambda>m. m)))"
  "blank_msg 5 = Inr (MFeaturesRequest (ofp_features_request_init (\<lambda>m. m)))"
  "blank_msg 6 = Inr (MFeaturesReply (ofp_features_reply_init (\<lambda>m. m)))"
  "blank_msg 7 = Inr (MGetConfigRequest (ofp_get_config_request_init (\<lambda>m. m)))"
  "blank_msg 8 = Inr (MGetConfigReply (ofp_get_config_reply_init (\<lambda>m. m)))"
  "blank_msg 9 = Inr (MSetConfig (ofp_set_config_init (\<lambda>m. m)))"
  "blank_msg 10 = Inr (MPacketIn (ofp_packet_in_init (\<lambda>m. m)))"
  "blank_msg 11 = Inr (MFlowRemoved (ofp_flow_removed_init (\<lambda>m. m)))"
  "blank_msg 12 = Inr (MPortStatus (ofp_port_status_init (\<lambda>m. m)))"
  "blank_msg 13 = Inr (MPacketOut (ofp_packet_out_init (\<lambda>m. m)))"
  "blank_msg 14 = Inr (MFlowMod (ofp_flow_mod_init (\<lambda>m. m)))"
  "blank_msg 15 = Inr (MPortMod (ofp_port_mod_init (\<lambda>m. m)))"
  "blank_msg 16 = Inr (MStatsRequest (ofp_stats_request_init (\<lambda>m. m)))"
  "blank_msg 17 = Inr (MStatsReply (ofp_stats_reply_init (\<lambda>m. m)))"
  "blank_msg 18 = Inr (MBarrierRequest (ofp_barrier_request_init (\<lambda>m. m)))"
  "blank_msg 19 = Inr (MBarrierReply (ofp_barrier_reply_init (\<lambda>m. m)))"
  "blank_msg 20 = Inr (MQueueGetConfigRequest (ofp_queue_get_config_request_init (\<lambda>m. m)))"
  by (simp_all add: blank_msg_def make_type_to_class_table_def)

lemmas framed_classes =
  fr_bare.framed_pack [where c = MHello]
  fr_echo_request.framed_pack [where c = MEchoRequest]
  fr_echo_reply.framed_pack [where c = MEchoReply]
  fr_vendor.framed_pack [where c = MVendor]
  fr_bare.framed_pack [where c = MFeaturesRequest]
  fr_features_reply.framed_pack [where c = MFeaturesReply]
  fr_bare.framed_pack [where c = MGetConfigRequest]
  fr_get_config_reply.framed_pack [where c = MGetConfigReply]
  fr_set_config.framed_pack [where c = MSetConfig]
  fr_packet_in.framed_pack [where c = MPacketIn]
  fr_flow_removed.framed_pack [where c = MFlowRemoved]
  fr_port_status.framed_pack [where c = MPortStatus]
  fr_packet_out.framed_pack [where c = MPacketOut]
  fr_flow_mod.framed_pack [where c = MFlowMod]
  fr_port_mod.framed_pack [where c = MPortMod]
  fr_stats_request.framed_pack [where c = MStatsRequest]
  fr_stats_reply.framed_pack [where c = MStatsReply]
  fr_bare.framed_pack [where c = MBarrierRequest]
  fr_barrier_reply.framed_pack [where c = MBarrierReply]
  fr_queue_get_config_request.framed_pack [where c = MQueueGetConfigRequest]

lemma error_framed:
  assumes "ofp_error_pack as m nx = Inr (Some b, m', nx')" "head_ok OFPT_ERROR m"
  shows "framed b (OFPT_ERROR, MError (m'\<lparr>oe_data := []\<rparr>))"
proof -
  have "has_header b (version m) (header_type m) (hlength m')"
    using assms(1) by (auto simp: ofp_error_pack_def codec Let_def split: if_splits elim!: ofp_header_pack_Inr intro: has_headerI)
  then obtain h t x where b: "b = h @ t" and h: "struct_pack ''!BBHL'' [version m, header_type m, hlength m', x] = Inr h"
    unfolding has_header_def by blast
  note f = BBHL_bytes [OF h] and e = error_unpack_pack [OF assms(1)]
  show ?thesis
  proof (rule framedI [OF _ _ _ _ blank_msgs(2)])
    show "8 \<le> length b" "of_char (b ! 0) = (1::int)" "of_char (b ! 1) = (1::int)"
      "push_bit 8 (of_char (b ! 2)) OR of_char (b ! 3) = int (length b)"
      using f e(1) assms(2) by (simp_all add: b nth_append head_ok_def)
    show "\<exists>x. of_msg_unpack (MError (ofp_error_init (\<lambda>m. m))) (b @ r) = Inr (MError (m'\<lparr>oe_data := []\<rparr>), x)" for r
      using e(2) [of "ofp_error_init (\<lambda>m. m)" r] by (auto simp: msg_result_def ofp_error_init_def)
  qed
qed

lemma of_msg_framed:
  assumes "of_msg_pack m nx = Inr (Some b, m', nx')" "of_msg_wf m"
  shows "framed b (msg_type m, received m')"
  using assms
  by (cases m)
    (auto simp: pack_result_def head_ok_def msg_type_def intro!: framed_classes blank_msgs error_framed)

subsection \<open>Streams\<close>

lemma read_loop_Frame:
  "next_frame buf = Inr (Frame t m rest) \<Longrightarrow> read_loop h buf s = read_loop h rest (h t m s)"
  by (simp add: read_loop.simps)

lemma read_loop_NeedMore: "next_frame buf = Inr NeedMore \<Longrightarrow> read_loop h buf s = Some (Returned True, buf, s)"
  by (simp add: read_loop.simps)

lemma next_frame_Nil [simp]: "next_frame [] = Inr NeedMore"
  by (simp add: next_frame_def)

lemma framed_partial:
  assumes "framed (p @ q) tm" "q \<noteq> []"
  shows "next_frame p = Inr NeedMore"
proof (cases "length p \<le> 4")
  case False
  then have "of_char (p ! 0) = OFP_VERSION" "push_bit 8 (of_char (p ! 2)) OR of_char (p ! 3) = int (length (p @ q))"
    using assms by (simp_all add: framed_def nth_append split: if_splits)
  then show ?thesis using False assms(2) by (simp add: next_frame_def Let_def)
qed (simp add: next_frame_def)

definition deliver :: "(int \<Rightarrow> of_msg \<Rightarrow> 's \<Rightarrow> 's) \<Rightarrow> (int \<times> of_msg) list \<Rightarrow> 's \<Rightarrow> 's" where
  "deliver h ms s = fold (\<lambda>(t, m). h t m) ms s"

lemma read_loop_prefix:
  "list_all2 framed bs ms \<Longrightarrow> p @ q = concat bs \<Longrightarrow>
   \<exists>k rest. k \<le> length bs \<and> rest @ q = concat (drop k bs) \<and> next_frame rest = Inr NeedMore \<and>
     read_loop h p s = Some (Returned True, rest, deliver h (take k ms) s)"
proof (induction bs arbitrary: ms p s)
  case Nil
  then show ?case by (auto simp: deliver_def read_loop_NeedMore)
next
  case (Cons b bs)
  from Cons.prems(1) obtain tm ms' where ms: "ms = tm # ms'" "framed b tm" "list_all2 framed bs ms'"
    by (auto simp: list_all2_Cons1)
  from Cons.prems(2) consider (more) u where "p = b @ u" "u @ q = concat bs" | (less) u where "b = p @ u" "u \<noteq> []" "q = u @ concat bs"
    by (auto simp: append_eq_append_conv2) (metis append.right_neutral append_Nil)
  then show ?case
  proof cases
    case more
    obtain t m where tm: "tm = (t, m)" by (cases tm)
    obtain k rest where k: "k \<le> length bs" "rest @ q = concat (drop k bs)" "next_frame rest = Inr NeedMore"
      "read_loop h u (h t m s) = Some (Returned True, rest, deliver h (take k ms') (h t m s))"
      using Cons.IH [OF ms(3) more(2)] by blast
    have "next_frame (b @ u) = Inr (Frame t m u)" using ms(2) by (simp add: framed_def tm)
    then have "read_loop h p s = Some (Returned True, rest, deliver h (take (Suc k) ms) s)"
      using k(4) by (simp add: more(1) read_loop_Frame ms(1) tm deliver_def)
    with k(1-3) show ?thesis by (intro exI [of _ "Suc k"] exI [of _ rest]) simp
  next
    case less
    have "next_frame p = Inr NeedMore" using framed_partial ms(2) less(1,2) by blast
    then show ?thesis using less read_loop_NeedMore
      by (intro exI [of _ 0] exI [of _ p]) (simp add: deliver_def)
  qed
qed

lemma read_all_stream:
  "list_all2 framed bs ms \<Longrightarrow> \<forall>d \<in> set ds. d \<noteq> [] \<Longrightarrow> buf @ concat ds = concat bs \<Longrightarrow>
   next_frame buf = Inr NeedMore \<Longrightarrow>
   read_all h ds buf s = Some (Returned True, [], deliver h ms s)"
proof (induction ds arbitrary: bs ms buf s)
  case Nil
  have "bs = []"
  proof (cases bs)
    case (Cons b bs')
    then obtain tm where "framed b tm" using Nil.prems(1) by (auto simp: list_all2_Cons1)
    then have "next_frame (b @ concat bs') = Inr (Frame (fst tm) (snd tm) (concat bs'))" by (simp add: framed_def)
    then show ?thesis using Nil.prems(3,4) Cons by simp
  qed
  then show ?case using Nil.prems by (simp add: deliver_def)
next
  case (Cons d ds)
  then have buf: "(buf @ d) @ concat ds = concat bs" and "d \<noteq> []" by simp_all
  then obtain k rest where k: "k \<le> length bs" "rest @ concat ds = concat (drop k bs)" "next_frame rest = Inr NeedMore"
    "read_loop h (buf @ d) s = Some (Returned True, rest, deliver h (take k ms) s)"
    using read_loop_prefix [OF Cons.prems(1) buf, of h s] by blast
  have "read_all h ds rest (deliver h (take k ms) s) = Some (Returned True, [], deliver h (drop k ms) (deliver h (take k ms) s))"
    using Cons.prems(2) by (intro Cons.IH [OF list_all2_dropI [OF Cons.prems(1)] _ k(2,3)]) simp
  also have "deliver h (drop k ms) (deliver h (take k ms) s) = deliver h (take k ms @ drop k ms) s"
    unfolding deliver_def fold_append comp_apply ..
  also have "take k ms @ drop k ms = ms" by simp
  finally show ?case using k(4) \<open>d \<noteq> []\<close> by (simp add: connection_read_def)
qed

text \<open>
  A header that declares no bytes at all is delivered again and again: the loop has no value, whatever
  the handler does. Otherwise every turn takes bytes off the buffer and the loop ends.
\<close>

lemma read_loop_stuck:
  assumes "next_frame buf = Inr (Frame t m buf)"
  shows "read_loop h buf s = None"
proof -
  have "b \<noteq> buf" if "read_loop h b s = Some r" for b s r
  proof (rule read_loop.raw_induct [where P = "\<lambda>h b s r. b \<noteq> buf", OF _ that], rule notI)
    fix loop :: "(int \<Rightarrow> of_msg \<Rightarrow> 'a \<Rightarrow> 'a) \<Rightarrow> bytes \<Rightarrow> 'a \<Rightarrow> (read_end \<times> bytes \<times> 'a) option"
      and h b s r
    assume IH: "\<And>h b s r. loop h b s = Some r \<Longrightarrow> b \<noteq> buf" and "b = buf"
      and r: "(case next_frame b of Inl e \<Rightarrow> Some (Raised e, b, s)
        | Inr NeedMore \<Rightarrow> Some (Returned True, b, s) | Inr BadVersion \<Rightarrow> Some (Returned False, b, s)
        | Inr (Frame t m rest) \<Rightarrow> loop h rest (h t m s)) = Some r"
    then have "loop h buf (h t m s) = Some r" using assms by simp
    then show False using IH by blast
  qed
  then show ?thesis by (metis option.exhaust)
qed

definition frame_advances :: "bytes \<Rightarrow> bool" where
  "frame_advances buf \<longleftrightarrow> length buf \<le> 4 \<or> of_char (buf ! 0) \<noteq> OFP_VERSION \<or>
     push_bit 8 (of_char (buf ! 2)) OR of_char (buf ! 3) > (0::int)"

lemma next_frame_advances:
  assumes "next_frame buf = Inr (Frame t m rest)" "frame_advances buf"
  shows "\<exists>n > 0. rest = drop n buf \<and> 4 < length buf"
  using assms
  by (auto simp: next_frame_def frame_advances_def Let_def split: if_splits
      intro!: exI [of _ "nat (push_bit 8 (of_char (buf ! 2)) OR of_char (buf ! 3))"])

lemma read_loop_returns:
  "(\<forall>k. frame_advances (drop k buf)) \<Longrightarrow> \<exists>r. read_loop h buf s = Some r"
proof (induction "length buf" arbitrary: buf s rule: less_induct)
  case less
  show ?case
  proof (cases "next_frame buf")
    case (Inr f)
    show ?thesis
    proof (cases f)
      case (Frame t m rest)
      then obtain n where n: "0 < n" "rest = drop n buf" "4 < length buf"
        using next_frame_advances [of buf t m rest] Inr less.prems [rule_format, of 0] by auto
      have "length rest < length buf" using n by simp
      then have "\<exists>r. read_loop h rest (h t m s) = Some r"
        using less.prems by (intro less.hyps) (simp_all add: n)
      then show ?thesis using Inr Frame by (simp add: read_loop_Frame)
    qed (use Inr in \<open>simp_all add: read_loop.simps\<close>)
  qed (simp add: read_loop.simps)
qed

end
