(* ===== verification/OF_Connection.thy ===== *)
theory OF_Connection
  imports Complex_Main OF_Channel
begin

text \<open>
  The controller's side of a switch connection, \<^verbatim>\<open>openflow/of_01.py\<close> with the nexus of
  \<^verbatim>\<open>openflow/connection_arbiter.py\<close>: the handshake, the message handlers and the reassembly of
  statistics. Everything a handler does to the connection, to the nexus's table of connections and to
  the global identifier counter is in one state; what is sent and which events are raised is recorded
  in order. Listeners of the user's components only observe. The socket accepts all data; a socket
  error is a call of \<^verbatim>\<open>disconnect\<close>, a step of its own.
\<close>

subsection \<open>State\<close>

datatype target = AtNexus | AtDummy | AtConnection

datatype of_event =
    ConnectionUp "int option" ofp_features_reply
  | ConnectionDown "int option"
  | PortStatus "int option" ofp_port_status
  | FlowRemoved "int option" ofp_flow_removed
  | PacketIn "int option" ofp_packet_in
  | ErrorIn ofp_error
  | BarrierIn "int option" ofp_header
  | RawStatsReply ofp_stats_reply
  | SwitchDescReceived ofp_stats_reply ofp_desc_stats
  | FlowStatsReceived "ofp_stats_reply list" "ofp_flow_stats list"
  | TableStatsReceived "ofp_stats_reply list" "ofp_table_stats list"
  | PortStatsReceived "ofp_stats_reply list" "ofp_port_stats list"
  | QueueStatsReceived "ofp_stats_reply list" "ofp_queue_stats list"

text \<open>
  The two listeners that \<^verbatim>\<open>handle_FEATURES_REPLY\<close> leaves behind: the barrier's xid, which is set when
  the barrier is packed, and the features message.
\<close>

record pending =
  pd_id :: nat
  pd_xid :: "int option"
  pd_features :: ofp_features_reply

record connection =
  con_ID :: nat
  con_dpid :: "int option"
  con_features :: "ofp_features_reply option"
  con_disconnected :: bool
  con_connect_time :: "rat option"
  con_has_nexus :: bool
  con_pending :: "pending list"
  con_previous_stats :: "ofp_stats_reply list"
  con_sent :: "bytes list"
  con_events :: "(target \<times> of_event) list"
  nexus_connections :: "int \<rightharpoonup> nat"
  next_XID :: int
  next_eid :: nat

text \<open>What \<^verbatim>\<open>getNexus\<close> answers, the nexus's settings and the clock.\<close>

record of_env =
  env_nexus :: bool
  miss_send_len :: "int option"
  clear_flows_on_connect :: bool
  env_time :: rat

subsection \<open>Sending, events, disconnecting\<close>

definition raise_event :: "target \<Rightarrow> of_event \<Rightarrow> connection \<Rightarrow> connection" where
  "raise_event t e s = s\<lparr>con_events := con_events s @ [(t, e)]\<rparr>"

definition nexus_target :: "connection \<Rightarrow> target" where
  "nexus_target s = (if con_has_nexus s then AtNexus else AtDummy)"

text \<open>An event on the nexus and then on the connection.\<close>

definition raise_both :: "(connection \<Rightarrow> of_event) \<Rightarrow> connection \<Rightarrow> connection" where
  "raise_both e s = raise_event AtConnection (e s) (raise_event (nexus_target s) (e s) s)"

text \<open>\<^verbatim>\<open>send\<close> packs unless the connection is closed; the packed object's xid is what \<^verbatim>\<open>k\<close> is told.\<close>

definition con_send ::
    "(int \<Rightarrow> (bytes option \<times> 'a ofp_header_scheme \<times> int) result) \<Rightarrow> (int option \<Rightarrow> connection \<Rightarrow> connection) \<Rightarrow>
     connection stmt" where
  "con_send pack k s =
     (if con_disconnected s then (None, s)
      else case pack (next_XID s) of
        Inl e \<Rightarrow> (Some e, s)
      | Inr (None, m, nx) \<Rightarrow> (Some TypeError, k (xid m) (s\<lparr>next_XID := nx\<rparr>))
      | Inr (Some b, m, nx) \<Rightarrow> (None, k (xid m) (s\<lparr>con_sent := con_sent s @ [b], next_XID := nx\<rparr>)))"

text \<open>
  \<^verbatim>\<open>disconnect\<close>. The nexus forgets whichever connection it has under the datapath identifier; an
  identifier that is \<^verbatim>\<open>None\<close> is a \<^verbatim>\<open>KeyError\<close> that is swallowed.
\<close>

definition nexus_disconnect :: "int option \<Rightarrow> connection \<Rightarrow> connection" where
  "nexus_disconnect dpid s =
     (case dpid of None \<Rightarrow> s
      | Some d \<Rightarrow> if con_has_nexus s then s\<lparr>nexus_connections := (nexus_connections s)(d := None)\<rparr> else s)"

definition con_disconnect :: "connection \<Rightarrow> connection" where
  "con_disconnect s =
     (let s = nexus_disconnect (con_dpid s) (s\<lparr>con_disconnected := True\<rparr>)
      in if con_dpid s \<noteq> None then raise_event (nexus_target s) (ConnectionDown (con_dpid s)) s else s)"

definition nexus_connect :: "connection \<Rightarrow> connection" where
  "nexus_connect s =
     (case con_dpid s of None \<Rightarrow> s
      | Some d \<Rightarrow> s\<lparr>nexus_connections := (nexus_connections s)(d \<mapsto> con_ID s)\<rparr>)"

definition Connection_init :: "nat \<Rightarrow> (int \<rightharpoonup> nat) \<Rightarrow> int \<Rightarrow> connection" where
  "Connection_init cid nexus nx =
     snd (con_send (bare_pack True (ofp_hello_init (\<lambda>m. m))) (\<lambda>_ s. s)
       \<lparr>con_ID = cid, con_dpid = None, con_features = None, con_disconnected = False,
        con_connect_time = None, con_has_nexus = False, con_pending = [], con_previous_stats = [],
        con_sent = [], con_events = [], nexus_connections = nexus, next_XID = nx, next_eid = 0\<rparr>)"

subsection \<open>The handshake\<close>

definition handle_HELLO :: "ofp_header \<Rightarrow> connection stmt" where
  "handle_HELLO msg = con_send (bare_pack True (ofp_features_request_init (\<lambda>m. m))) (\<lambda>_ s. s)"

definition handle_ECHO_REQUEST :: "ofp_echo_request \<Rightarrow> connection stmt" where
  "handle_ECHO_REQUEST msg =
     con_send (ofp_echo_request_pack True (msg\<lparr>header_type := OFPT_ECHO_REPLY\<rparr>)) (\<lambda>_ s. s)"

definition set_pending_xid :: "nat \<Rightarrow> int option \<Rightarrow> connection \<Rightarrow> connection" where
  "set_pending_xid i x s =
     s\<lparr>con_pending := map (\<lambda>p. if pd_id p = i then p\<lparr>pd_xid := x\<rparr> else p) (con_pending s)\<rparr>"

definition remove_pending :: "nat \<Rightarrow> connection \<Rightarrow> connection" where
  "remove_pending i s = s\<lparr>con_pending := filter (\<lambda>p. pd_id p \<noteq> i) (con_pending s)\<rparr>"

definition handle_FEATURES_REPLY :: "of_env \<Rightarrow> ofp_features_reply \<Rightarrow> connection stmt" where
  "handle_FEATURES_REPLY env msg s =
     (let connecting = (con_connect_time s = None);
          s = s\<lparr>con_features := Some msg, con_dpid := Some (fr_datapath_id msg)\<rparr>
      in if \<not> connecting then
           (if con_has_nexus s then (None, nexus_connect s) else (Some AttributeError, s))
         else if \<not> env_nexus env then (None, con_disconnect s)
         else
           let s = nexus_connect (s\<lparr>con_has_nexus := True\<rparr>);
               i = next_eid s;
               s = s\<lparr>con_pending := con_pending s @ [\<lparr>pd_id = i, pd_xid = None, pd_features = msg\<rparr>],
                     next_eid := Suc i\<rparr>
           in seq [
             (case miss_send_len env of None \<Rightarrow> update (\<lambda>s. s)
              | Some n \<Rightarrow> con_send (ofp_switch_config_pack True
                  (ofp_switch_config_init (\<lambda>m. m\<lparr>sc_miss_send_len := n\<rparr>))) (\<lambda>_ s. s)),
             (if clear_flows_on_connect env
              then con_send (ofp_flow_mod_pack True (ofp_flow_mod_init
                  (\<lambda>m. m\<lparr>fm_match := ofp_match_new, fm_command := OFPFC_DELETE\<rparr>))) (\<lambda>_ s. s)
              else update (\<lambda>s. s)),
             con_send (bare_pack True (ofp_barrier_request_init (\<lambda>m. m))) (set_pending_xid i)] s)"

definition finish_connecting :: "of_env \<Rightarrow> pending \<Rightarrow> int option \<Rightarrow> connection \<Rightarrow> connection" where
  "finish_connecting env p event_xid s =
     remove_pending (pd_id p)
       (if event_xid \<noteq> pd_xid p then con_disconnect (s\<lparr>con_dpid := None\<rparr>)
        else raise_both (\<lambda>s. ConnectionUp (con_dpid s) (pd_features p)) (s\<lparr>con_connect_time := Some (env_time env)\<rparr>))"

text \<open>
  The listeners run over the list as it was when the event was raised, each one's xid read when its
  turn comes.
\<close>

definition handle_BARRIER :: "of_env \<Rightarrow> ofp_header \<Rightarrow> connection stmt" where
  "handle_BARRIER env msg s =
     (let s = raise_both (\<lambda>s. BarrierIn (con_dpid s) msg) s
      in (None, fold (\<lambda>p. finish_connecting env p (xid msg)) (con_pending s) s))"

definition also_finish_connecting :: "of_env \<Rightarrow> ofp_error \<Rightarrow> pending \<Rightarrow> connection \<Rightarrow> connection" where
  "also_finish_connecting env msg p s =
     (if xid msg \<noteq> pd_xid p then s
      else if oe_type msg \<noteq> 1 then s
      else if oe_code msg \<noteq> 1 then s
      else finish_connecting env p (xid msg) s)"

definition handle_ERROR_MSG :: "of_env \<Rightarrow> ofp_error \<Rightarrow> connection stmt" where
  "handle_ERROR_MSG env msg s =
     (let s = raise_both (\<lambda>s. ErrorIn msg) s
      in (None, fold (also_finish_connecting env msg) (con_pending s) s))"

subsection \<open>Events\<close>

definition handle_FLOW_REMOVED :: "ofp_flow_removed \<Rightarrow> connection stmt" where
  "handle_FLOW_REMOVED msg = update (raise_both (\<lambda>s. FlowRemoved (con_dpid s) msg))"

definition handle_PORT_STATUS :: "ofp_port_status \<Rightarrow> connection stmt" where
  "handle_PORT_STATUS msg = update (raise_both (\<lambda>s. PortStatus (con_dpid s) msg))"

definition handle_PACKET_IN :: "ofp_packet_in \<Rightarrow> connection stmt" where
  "handle_PACKET_IN msg = update (raise_both (\<lambda>s. PacketIn (con_dpid s) msg))"

subsection \<open>Statistics\<close>

definition reply_bytes :: "ofp_stats_reply \<Rightarrow> bytes result" where
  "reply_bytes r = (case srp_body r of RepBytes b \<Rightarrow> Inr b | _ \<Rightarrow> Inl TypeError)"

text \<open>\<^verbatim>\<open>_processStatsBody\<close>: structures are read off the body; each one must take something.\<close>

function process_stats_body :: "'a \<Rightarrow> ('a \<Rightarrow> bytes \<Rightarrow> ('a \<times> bytes) result) \<Rightarrow> bytes \<Rightarrow> 'a list result" where
  "process_stats_body blank unpack body =
     (if body = [] then Inr []
      else bindE (unpack blank body) (\<lambda>(x, rest).
        if \<not> length rest < length body then Inl AssertionError
        else bindE (process_stats_body blank unpack rest) (\<lambda>xs. Inr (x # xs))))"
  by pat_completeness auto
termination
  by (relation "measure (\<lambda>(_, _, b). length b)") auto

declare process_stats_body.simps [simp del]

definition stats_parts ::
    "'a \<Rightarrow> ('a \<Rightarrow> bytes \<Rightarrow> ('a \<times> bytes) result) \<Rightarrow> ofp_stats_reply list \<Rightarrow> 'a list result" where
  "stats_parts blank unpack parts =
     bindE (mapE (\<lambda>part. bindE (reply_bytes part) (process_stats_body blank unpack)) parts) (\<lambda>xs. Inr (concat xs))"

text \<open>
  \<^verbatim>\<open>statsHandlerMap\<close>. The handler of aggregate statistics asks for a class that \<^verbatim>\<open>libopenflow\<close> does
  not have. A type without a handler ends in an access to the list that was just emptied.
\<close>

definition stats_event :: "int \<Rightarrow> ofp_stats_reply list \<Rightarrow> of_event result" where
  "stats_event t parts =
     (if t = OFPST_DESC then
        bindE (reply_bytes (hd parts)) (\<lambda>b.
          bindE (ofp_desc_stats_unpack (ofp_desc_stats_init (\<lambda>m. m)) b) (\<lambda>(m, _). Inr (SwitchDescReceived (hd parts) m)))
      else if t = OFPST_FLOW then
        bindE (stats_parts (ofp_flow_stats_init (\<lambda>m. m)) ofp_flow_stats_unpack parts) (\<lambda>m. Inr (FlowStatsReceived parts m))
      else if t = OFPST_AGGREGATE then Inl AttributeError
      else if t = OFPST_TABLE then
        bindE (stats_parts (ofp_table_stats_init (\<lambda>m. m)) ofp_table_stats_unpack parts) (\<lambda>m. Inr (TableStatsReceived parts m))
      else if t = OFPST_PORT then
        bindE (stats_parts (ofp_port_stats_init (\<lambda>m. m)) ofp_port_stats_unpack parts) (\<lambda>m. Inr (PortStatsReceived parts m))
      else if t = OFPST_QUEUE then
        bindE (stats_parts (ofp_queue_stats_init (\<lambda>m. m)) ofp_queue_stats_unpack parts) (\<lambda>m. Inr (QueueStatsReceived parts m))
      else Inl IndexError)"

definition stats_handler :: "int \<Rightarrow> ofp_stats_reply list \<Rightarrow> connection stmt" where
  "stats_handler t parts s =
     (case stats_event t parts of Inl e \<Rightarrow> (Some e, s) | Inr e \<Rightarrow> (None, raise_both (\<lambda>_. e) s))"

text \<open>
  \<^verbatim>\<open>_incoming_stats_reply\<close>. When a reply does not continue the parts collected so far, the message
  for the log reads an attribute that does not exist, before the parts are replaced.
\<close>

definition incoming_stats_reply :: "ofp_stats_reply \<Rightarrow> connection stmt" where
  "incoming_stats_reply ofp s =
     (let more = (srp_flags ofp AND 1 \<noteq> 0)
      in if more \<and> srp_type ofp \<notin> {OFPST_FLOW, OFPST_TABLE, OFPST_PORT, OFPST_QUEUE}
         then (None, s\<lparr>con_previous_stats := []\<rparr>)
         else
           let prev = con_previous_stats s in
           if prev \<noteq> [] \<and> \<not> (xid ofp = xid (hd prev) \<and> srp_type ofp = srp_type (hd prev)) then (Some AttributeError, s)
           else
             let parts = prev @ [ofp];
                 s = s\<lparr>con_previous_stats := parts\<rparr>
             in if more then (None, s)
                else stats_handler (srp_type (hd parts)) parts (s\<lparr>con_previous_stats := []\<rparr>))"

definition handle_STATS_REPLY :: "ofp_stats_reply \<Rightarrow> connection stmt" where
  "handle_STATS_REPLY msg = seq [update (raise_both (\<lambda>_. RawStatsReply msg)), incoming_stats_reply msg]"

subsection \<open>Dispatch\<close>

text \<open>
  \<^verbatim>\<open>handlers[ofp_type](self, msg)\<close>: a type without a handler is a call of \<^verbatim>\<open>None\<close>, a type behind the
  end of the list an index error. \<^verbatim>\<open>read\<close> catches every exception and goes on.
\<close>

definition handle :: "of_env \<Rightarrow> int \<Rightarrow> of_msg \<Rightarrow> connection stmt" where
  "handle env t msg s =
     (case msg of
        MHello m \<Rightarrow> handle_HELLO m s
      | MError m \<Rightarrow> handle_ERROR_MSG env m s
      | MEchoRequest m \<Rightarrow> handle_ECHO_REQUEST m s
      | MFeaturesReply m \<Rightarrow> handle_FEATURES_REPLY env m s
      | MPacketIn m \<Rightarrow> handle_PACKET_IN m s
      | MFlowRemoved m \<Rightarrow> handle_FLOW_REMOVED m s
      | MPortStatus m \<Rightarrow> handle_PORT_STATUS m s
      | MStatsReply m \<Rightarrow> handle_STATS_REPLY m s
      | MBarrierReply m \<Rightarrow> handle_BARRIER env m s
      | _ \<Rightarrow> (if t < 20 then (Some TypeError, s) else (Some IndexError, s)))"

definition dispatch :: "of_env \<Rightarrow> int \<Rightarrow> of_msg \<Rightarrow> connection \<Rightarrow> connection" where
  "dispatch env t msg s = snd (handle env t msg s)"

subsection \<open>Steps of a connection\<close>

text \<open>
  What can happen to a connection: a message is dispatched, the connection is closed, or other
  connections change what is shared, the nexus's table and the counter of identifiers.
\<close>

inductive con_step :: "of_env \<Rightarrow> connection \<Rightarrow> connection \<Rightarrow> bool" for env where
  message: "con_step env s (dispatch env t m s)"
| close: "con_step env s (con_disconnect s)"
| others: "con_step env s (s\<lparr>nexus_connections := n, next_XID := nx\<rparr>)"

inductive con_reachable :: "of_env \<Rightarrow> connection \<Rightarrow> bool" for env where
  opened: "con_reachable env (Connection_init cid n nx)"
| step: "con_reachable env s \<Longrightarrow> con_step env s s' \<Longrightarrow> con_reachable env s'"

inductive_cases con_stepE: "con_step env s s'"

text \<open>
  The events of the handshake at the two places, and what ties them to the state: the datapath
  identifier is the one of the features, the connection is up exactly when \<^verbatim>\<open>ConnectionUp\<close> was raised on
  it, everything it learnt the nexus learnt too, and the end of the connection is told to the nexus
  only.
\<close>

fun up_event :: "of_event \<Rightarrow> bool" where
  "up_event (ConnectionUp _ _) = True"
| "up_event _ = False"

fun down_event :: "of_event \<Rightarrow> bool" where
  "down_event (ConnectionDown _) = True"
| "down_event _ = False"

definition con_ok :: "connection \<Rightarrow> bool" where
  "con_ok s \<longleftrightarrow>
     (\<forall>d. con_dpid s = Some d \<longrightarrow> (\<exists>f. con_features s = Some f \<and> fr_datapath_id f = d)) \<and>
     (con_connect_time s \<noteq> None \<longleftrightarrow> (\<exists>e. up_event e \<and> (AtConnection, e) \<in> set (con_events s))) \<and>
     (\<forall>e. up_event e \<longrightarrow> ((AtNexus, e) \<in> set (con_events s)) = ((AtConnection, e) \<in> set (con_events s))) \<and>
     (\<forall>e. down_event e \<longrightarrow> (AtConnection, e) \<notin> set (con_events s)) \<and>
     (con_pending s \<noteq> [] \<or> con_connect_time s \<noteq> None \<longrightarrow> con_has_nexus s)"

lemma con_send_cases:
  "snd (con_send p k s) = s \<or>
   (\<not> con_disconnected s \<and> (\<exists>x bs nx. snd (con_send p k s) = k x (s\<lparr>con_sent := bs, next_XID := nx\<rparr>)))"
proof (cases "con_disconnected s \<or> (\<exists>e. p (next_XID s) = Inl e)")
  case True
  then show ?thesis by (auto simp: con_send_def)
next
  case False
  then obtain ob m nx where "p (next_XID s) = Inr (ob, m, nx)" by (cases "p (next_XID s)") auto
  with False have "snd (con_send p k s) =
      k (xid m) (s\<lparr>con_sent := con_sent s @ (case ob of None \<Rightarrow> [] | Some b \<Rightarrow> [b]), next_XID := nx\<rparr>)"
    by (simp add: con_send_def split: option.split)
  with False show ?thesis by blast
qed

text \<open>A property of the state that sending does not touch is kept by a send and by a sequence of sends.\<close>

lemma con_send_keeps:
  assumes "P s" "\<And>s bs nx. P s \<Longrightarrow> P (s\<lparr>con_sent := bs, next_XID := nx\<rparr>)" "\<And>x s. P s \<Longrightarrow> P (k x s)"
  shows "P (snd (con_send p k s))"
  using con_send_cases [of p k s] assms by metis

lemma con_ok_frame [simp]:
  "con_ok (s\<lparr>con_sent := bs, next_XID := nx\<rparr>) = con_ok s"
  "con_ok (s\<lparr>nexus_connections := n, next_XID := nx\<rparr>) = con_ok s"
  "con_ok (s\<lparr>nexus_connections := n\<rparr>) = con_ok s"
  "con_ok (s\<lparr>con_disconnected := b\<rparr>) = con_ok s"
  "con_ok (s\<lparr>con_previous_stats := ps\<rparr>) = con_ok s"
  by (simp_all add: con_ok_def)

lemma con_ok_nexus [simp]: "con_ok (nexus_connect s) = con_ok s" "con_ok (nexus_disconnect d s) = con_ok s"
  by (simp_all add: nexus_connect_def nexus_disconnect_def split: option.splits)

lemma con_ok_raise [simp]: "\<not> up_event e \<Longrightarrow> \<not> (t = AtConnection \<and> down_event e) \<Longrightarrow> con_ok (raise_event t e s) = con_ok s"
  by (auto simp: con_ok_def raise_event_def)

lemma con_ok_raise_both: "con_ok s \<Longrightarrow> \<forall>s. \<not> up_event (e s) \<and> \<not> down_event (e s) \<Longrightarrow> con_ok (raise_both e s)"
  by (simp add: raise_both_def)

lemma con_ok_disconnect: "con_ok s \<Longrightarrow> con_ok (con_disconnect s)"
  by (simp add: con_disconnect_def Let_def nexus_target_def)

lemma con_ok_send: "con_ok s \<Longrightarrow> con_ok (snd (con_send p (\<lambda>_ s. s) s))"
  by (rule con_send_keeps) simp_all

lemma con_ok_pending:
  "con_ok s \<Longrightarrow> con_ok (set_pending_xid i x s)" "con_ok s \<Longrightarrow> con_ok (remove_pending i s)"
  by (auto simp: con_ok_def set_pending_xid_def remove_pending_def)

lemma con_ok_send_pending: "con_ok s \<Longrightarrow> con_ok (snd (con_send p (set_pending_xid i) s))"
  by (rule con_send_keeps) (simp_all add: con_ok_pending)

lemma con_ok_features: "con_ok s \<Longrightarrow> con_ok (s\<lparr>con_features := Some f, con_dpid := Some (fr_datapath_id f)\<rparr>)"
  by (simp add: con_ok_def)

lemma con_ok_FEATURES_REPLY: "con_ok s \<Longrightarrow> con_ok (snd (handle_FEATURES_REPLY env msg s))"
proof -
  let ?s = "s\<lparr>con_features := Some msg, con_dpid := Some (fr_datapath_id msg)\<rparr>"
  let ?n = "nexus_connect (?s\<lparr>con_has_nexus := True\<rparr>)"
  let ?q = "?n\<lparr>con_pending := con_pending ?n @ [\<lparr>pd_id = next_eid ?n, pd_xid = None, pd_features = msg\<rparr>], next_eid := Suc (next_eid ?n)\<rparr>"
  assume "con_ok s"
  then have ok: "con_ok ?s" by (rule con_ok_features)
  have n: "con_has_nexus ?n" by (simp add: nexus_connect_def)
  have "con_ok (?s\<lparr>con_has_nexus := True\<rparr>)" using ok by (simp add: con_ok_def)
  then have "con_ok ?n" by simp
  then have q: "con_ok ?q" using n by (simp add: con_ok_def)
  show ?thesis
    unfolding handle_FEATURES_REPLY_def Let_def
    using ok q con_ok_disconnect [OF ok]
    by (auto simp del: seq.simps intro!: seq_keeps [where P = con_ok] con_ok_send con_ok_send_pending split: option.splits simp: update_def)
qed

lemma con_ok_up:
  assumes "con_ok s" "con_has_nexus s"
  shows "con_ok (raise_both (\<lambda>s. ConnectionUp (con_dpid s) f) (s\<lparr>con_connect_time := Some t\<rparr>))"
proof -
  have "up_event (ConnectionUp (con_dpid s) f)" by simp
  then show ?thesis
    using assms by (auto simp: con_ok_def raise_both_def raise_event_def nexus_target_def simp del: up_event.simps)
qed

lemma con_ok_finish:
  assumes "con_ok s" "con_has_nexus s"
  shows "con_ok (finish_connecting env p x s)"
proof -
  have "con_ok (s\<lparr>con_dpid := None\<rparr>)" using assms by (simp add: con_ok_def)
  then show ?thesis
    using con_ok_up [OF assms] by (simp add: finish_connecting_def con_ok_pending con_ok_disconnect)
qed

lemma nexus_kept [simp]:
  "con_has_nexus (finish_connecting env p x s) = con_has_nexus s"
  "con_has_nexus (raise_both e s) = con_has_nexus s"
  "con_pending (raise_both e s) = con_pending s"
  by (simp_all add: finish_connecting_def remove_pending_def con_disconnect_def raise_both_def raise_event_def
    nexus_disconnect_def Let_def split: option.splits)

lemma con_ok_fold_finish:
  assumes "con_ok s" "ps \<noteq> [] \<longrightarrow> con_has_nexus s"
    "\<And>p s. con_ok s \<Longrightarrow> con_has_nexus s \<Longrightarrow> con_ok (f p s) \<and> con_has_nexus (f p s)"
  shows "con_ok (fold f ps s)"
  using assms by (induction ps arbitrary: s) auto

lemma con_ok_BARRIER: "con_ok s \<Longrightarrow> con_ok (snd (handle_BARRIER env msg s))"
  unfolding handle_BARRIER_def Let_def snd_conv
  by (rule con_ok_fold_finish) (auto simp: con_ok_raise_both con_ok_finish, simp add: con_ok_def)

lemma con_ok_ERROR_MSG: "con_ok s \<Longrightarrow> con_ok (snd (handle_ERROR_MSG env msg s))"
  unfolding handle_ERROR_MSG_def Let_def snd_conv
  by (rule con_ok_fold_finish) (auto simp: con_ok_raise_both con_ok_finish also_finish_connecting_def, simp add: con_ok_def)

lemma bindE_prop: "bindE r f = Inr e \<Longrightarrow> (\<And>v. f v = Inr e \<Longrightarrow> P e) \<Longrightarrow> P e"
  by (auto simp: bindE_Inr_iff)

lemma stats_event_kind:
  assumes "stats_event t parts = Inr e"
  shows "\<not> up_event e \<and> \<not> down_event e"
  using assms unfolding stats_event_def
  by (simp only: split: if_splits)
    (erule bindE_prop | simp only: split: prod.splits | clarsimp)+

lemma con_ok_stats_handler: "con_ok s \<Longrightarrow> con_ok (snd (stats_handler t parts s))"
  by (auto simp: stats_handler_def dest: stats_event_kind intro!: con_ok_raise_both split: sum.split)

lemma con_ok_incoming: "con_ok s \<Longrightarrow> con_ok (snd (incoming_stats_reply ofp s))"
  by (simp add: incoming_stats_reply_def Let_def con_ok_stats_handler)

lemma con_ok_STATS_REPLY: "con_ok s \<Longrightarrow> con_ok (snd (handle_STATS_REPLY msg s))"
  unfolding handle_STATS_REPLY_def
  by (rule seq_keeps) (auto simp: update_def con_ok_incoming con_ok_raise_both)

lemma con_ok_HELLO: "con_ok s \<Longrightarrow> con_ok (snd (handle_HELLO m s))"
  and con_ok_ECHO: "con_ok s \<Longrightarrow> con_ok (snd (handle_ECHO_REQUEST e s))"
  by (simp_all add: handle_HELLO_def handle_ECHO_REQUEST_def con_ok_send)

lemma con_ok_update: "con_ok (f s) \<Longrightarrow> con_ok (snd (update f s))"
  by (simp add: update_def)

lemma con_ok_dispatch: "con_ok s \<Longrightarrow> con_ok (dispatch env t m s)"
  unfolding dispatch_def handle_def handle_FLOW_REMOVED_def handle_PORT_STATUS_def handle_PACKET_IN_def
  by (cases m) (simp_all add: con_ok_HELLO con_ok_ECHO con_ok_FEATURES_REPLY con_ok_BARRIER con_ok_ERROR_MSG
    con_ok_STATS_REPLY con_ok_update con_ok_raise_both)

lemma con_ok_init: "con_ok (Connection_init cid n nx)"
  unfolding Connection_init_def by (rule con_ok_send) (simp add: con_ok_def)

lemma con_reachable_ok: "con_reachable env s \<Longrightarrow> con_ok s"
  by (induction rule: con_reachable.induct) (auto simp: con_ok_init con_ok_dispatch con_ok_disconnect elim!: con_stepE)

lemma ex_up_event: "(\<exists>e. up_event e \<and> P e) \<longleftrightarrow> (\<exists>d f. P (ConnectionUp d f))"
  using up_event.elims(2) up_event.simps(1) by metis

lemma all_up_event: "(\<forall>e. up_event e \<longrightarrow> P e) \<longleftrightarrow> (\<forall>d f. P (ConnectionUp d f))"
  using up_event.elims(2) up_event.simps(1) by metis

lemma all_down_event: "(\<forall>e. down_event e \<longrightarrow> P e) \<longleftrightarrow> (\<forall>d. P (ConnectionDown d))"
  using down_event.elims(2) down_event.simps(1) by metis

lemmas con_ok_iff = con_ok_def [unfolded ex_up_event all_up_event all_down_event]

subsection \<open>A closed connection sends nothing\<close>

definition silent :: "connection \<Rightarrow> connection \<Rightarrow> bool" where
  "silent s s' \<longleftrightarrow> con_sent s' = con_sent s \<and> con_disconnected s'"

lemma silent_trans [trans]: "silent s s' \<Longrightarrow> silent s' s'' \<Longrightarrow> silent s s''"
  by (simp add: silent_def)

lemma silent_send: "con_disconnected s \<Longrightarrow> con_send p k s = (None, s)"
  by (simp add: con_send_def)

lemma sent_fields [simp]:
  "con_sent (raise_both e s) = con_sent s" "con_disconnected (raise_both e s) = con_disconnected s"
  "con_sent (nexus_connect s) = con_sent s" "con_disconnected (nexus_connect s) = con_disconnected s"
  "con_sent (con_disconnect s) = con_sent s" "con_disconnected (con_disconnect s)"
  "con_sent (finish_connecting env p x s) = con_sent s"
  by (simp_all add: raise_both_def raise_event_def nexus_connect_def con_disconnect_def nexus_disconnect_def Let_def
    finish_connecting_def remove_pending_def split: option.splits)

lemma disconnected_finish [simp]:
  "con_disconnected (finish_connecting env p x s) \<longleftrightarrow> con_disconnected s \<or> x \<noteq> pd_xid p"
  by (simp add: finish_connecting_def remove_pending_def con_disconnect_def raise_both_def raise_event_def
    nexus_disconnect_def Let_def split: option.splits)

lemma silent_fold: "con_disconnected s \<Longrightarrow> (\<And>p s. con_disconnected s \<Longrightarrow> silent s (f p s)) \<Longrightarrow> silent s (fold f ps s)"
proof (induction ps arbitrary: s)
  case (Cons p ps)
  then have "silent s (f p s)" by blast
  also have "silent (f p s) (fold f ps (f p s))" using Cons.IH [of "f p s"] Cons.prems \<open>silent s (f p s)\<close> by (simp add: silent_def)
  finally show ?case by simp
qed (simp add: silent_def)

lemma silent_FEATURES: "con_disconnected s \<Longrightarrow> silent s (snd (handle_FEATURES_REPLY env msg s))"
  by (simp add: handle_FEATURES_REPLY_def Let_def update_def silent_send silent_def split: option.split)

lemma silent_BARRIER: "con_disconnected s \<Longrightarrow> silent s (snd (handle_BARRIER env msg s))"
  using silent_fold [of "raise_both (\<lambda>s. BarrierIn (con_dpid s) msg) s" "\<lambda>p. finish_connecting env p (xid msg)" "con_pending s"]
  by (simp add: handle_BARRIER_def Let_def silent_def)

lemma silent_ERROR_MSG: "con_disconnected s \<Longrightarrow> silent s (snd (handle_ERROR_MSG env msg s))"
  using silent_fold [of "raise_both (\<lambda>s. ErrorIn msg) s" "also_finish_connecting env msg" "con_pending s"]
  by (simp add: handle_ERROR_MSG_def Let_def silent_def also_finish_connecting_def)

lemma silent_STATS_REPLY: "con_disconnected s \<Longrightarrow> silent s (snd (handle_STATS_REPLY msg s))"
  by (simp add: handle_STATS_REPLY_def update_def incoming_stats_reply_def Let_def stats_handler_def silent_def split: sum.split)

lemma silent_dispatch: "con_disconnected s \<Longrightarrow> silent s (dispatch env t m s)"
  unfolding dispatch_def handle_def handle_FLOW_REMOVED_def handle_PORT_STATUS_def handle_PACKET_IN_def
    handle_HELLO_def handle_ECHO_REQUEST_def
  by (cases m) (simp_all add: silent_FEATURES silent_BARRIER silent_ERROR_MSG silent_STATS_REPLY silent_send
    update_def, simp_all add: silent_def)

lemma silent_step: "con_step env s s' \<Longrightarrow> con_disconnected s \<Longrightarrow> silent s s'"
  by (erule con_stepE) (simp_all add: silent_dispatch, simp_all add: silent_def)

subsection \<open>The barrier\<close>

text \<open>After a barrier reply no handshake waits for one any more.\<close>

lemma pending_finish: "con_pending (finish_connecting env p x s) = filter (\<lambda>q. pd_id q \<noteq> pd_id p) (con_pending s)"
  by (simp add: finish_connecting_def remove_pending_def con_disconnect_def raise_both_def raise_event_def
    nexus_disconnect_def Let_def split: option.splits)

lemma pending_fold_finish:
  "con_pending (fold (\<lambda>p. finish_connecting env p x) ps s) = filter (\<lambda>q. \<forall>p \<in> set ps. pd_id q \<noteq> pd_id p) (con_pending s)"
  by (induction ps arbitrary: s) (auto simp: pending_finish intro: filter_cong)

lemma barrier_pending: "con_pending (snd (handle_BARRIER env msg s)) = []"
  by (auto simp: handle_BARRIER_def Let_def pending_fold_finish filter_empty_conv)

lemma barrier_one:
  assumes "con_pending s = [p]" "con_has_nexus s"
  shows "fst (handle_BARRIER env msg s) = None"
    and "xid msg = pd_xid p \<Longrightarrow> snd (handle_BARRIER env msg s) =
      s\<lparr>con_connect_time := Some (env_time env), con_pending := [],
        con_events := con_events s @ [(AtNexus, BarrierIn (con_dpid s) msg), (AtConnection, BarrierIn (con_dpid s) msg),
          (AtNexus, ConnectionUp (con_dpid s) (pd_features p)), (AtConnection, ConnectionUp (con_dpid s) (pd_features p))]\<rparr>"
    and "xid msg \<noteq> pd_xid p \<Longrightarrow> snd (handle_BARRIER env msg s) =
      s\<lparr>con_dpid := None, con_disconnected := True, con_pending := [],
        con_events := con_events s @ [(AtNexus, BarrierIn (con_dpid s) msg), (AtConnection, BarrierIn (con_dpid s) msg)]\<rparr>"
  using assms by (simp_all add: handle_BARRIER_def Let_def finish_connecting_def remove_pending_def con_disconnect_def
    raise_both_def raise_event_def nexus_target_def nexus_disconnect_def)

subsection \<open>Statistics in several parts\<close>

context wire_struct
begin

text \<open>The structures packed one behind the other are read back, as long as each has at least one byte.\<close>

lemma process_stats_body_packed:
  assumes "0 < sz" "list_all2 (\<lambda>m b. wf m \<and> (\<exists>as. pack as m = Inr (Some b))) ms bs"
  shows "process_stats_body blank unpack (concat bs) = Inr ms"
  using assms(2)
proof (induction rule: list_all2_induct)
  case Nil
  then show ?case by (simp add: process_stats_body.simps)
next
  case (Cons m ms b bs)
  then obtain as where p: "wf m" "pack as m = Inr (Some b)" by blast
  then have "length b = sz" "unpack blank (b @ concat bs) = Inr (m, concat bs)"
    by (auto intro: pack_size unpack_pack)
  with Cons.IH assms(1) show ?case
    by (subst process_stats_body.simps) (auto simp: process_stats_body.simps)
qed

end

lemma stats_parts_packed:
  assumes "list_all2 (\<lambda>part ms. \<exists>b. srp_body part = RepBytes b \<and> process_stats_body blank unpack b = Inr ms) parts mss"
  shows "stats_parts blank unpack parts = Inr (concat mss)"
proof -
  from assms have "mapE (\<lambda>part. bindE (reply_bytes part) (process_stats_body blank unpack)) parts = Inr mss"
    by (induction rule: list_all2_induct) (auto simp: reply_bytes_def)
  then show ?thesis by (simp add: stats_parts_def)
qed

text \<open>
  A run of replies with one identifier and type, every one but the last with the flag for more, is
  collected and handed to the handler as a whole.
\<close>

definition stats_run :: "int \<Rightarrow> int option \<Rightarrow> ofp_stats_reply list \<Rightarrow> bool" where
  "stats_run t x parts \<longleftrightarrow> parts \<noteq> [] \<and> t \<in> {OFPST_FLOW, OFPST_TABLE, OFPST_PORT, OFPST_QUEUE} \<and>
     (\<forall>p \<in> set parts. srp_type p = t \<and> xid p = x) \<and>
     (\<forall>p \<in> set (butlast parts). srp_flags p AND 1 \<noteq> 0) \<and> srp_flags (last parts) AND 1 = 0"

definition replies :: "ofp_stats_reply list \<Rightarrow> connection \<Rightarrow> connection" where
  "replies parts s = fold (\<lambda>p s. snd (handle_STATS_REPLY p s)) parts s"

definition raw_events :: "connection \<Rightarrow> ofp_stats_reply list \<Rightarrow> (target \<times> of_event) list" where
  "raw_events s parts = concat (map (\<lambda>p. [(nexus_target s, RawStatsReply p), (AtConnection, RawStatsReply p)]) parts)"

lemma nexus_target_kept [simp]:
  "nexus_target (s\<lparr>con_events := es\<rparr>) = nexus_target s" "nexus_target (s\<lparr>con_previous_stats := ps\<rparr>) = nexus_target s"
  by (simp_all add: nexus_target_def)

lemma raise_both_const:
  "raise_both (\<lambda>_. e) s = s\<lparr>con_events := con_events s @ [(nexus_target s, e), (AtConnection, e)]\<rparr>"
  by (simp add: raise_both_def raise_event_def)

lemma STATS_REPLY_eq: "snd (handle_STATS_REPLY p s) =
    snd (incoming_stats_reply p (s\<lparr>con_events := con_events s @ raw_events s [p]\<rparr>))"
  by (simp add: handle_STATS_REPLY_def update_def raise_both_const raw_events_def split: prod.split option.split)

lemma collect_part:
  assumes "srp_flags p AND 1 \<noteq> 0" "srp_type p \<in> {OFPST_FLOW, OFPST_TABLE, OFPST_PORT, OFPST_QUEUE}"
    "\<forall>q \<in> set (con_previous_stats s). srp_type q = srp_type p \<and> xid q = xid p"
  shows "snd (handle_STATS_REPLY p s) =
    s\<lparr>con_events := con_events s @ [(nexus_target s, RawStatsReply p), (AtConnection, RawStatsReply p)],
      con_previous_stats := con_previous_stats s @ [p]\<rparr>"
  using assms hd_in_set [of "con_previous_stats s"]
  by (auto simp: STATS_REPLY_eq incoming_stats_reply_def Let_def raw_events_def)

lemma collect_parts:
  assumes "\<forall>p \<in> set parts. srp_flags p AND 1 \<noteq> 0 \<and> srp_type p = t \<and> xid p = x"
    "t \<in> {OFPST_FLOW, OFPST_TABLE, OFPST_PORT, OFPST_QUEUE}"
    "\<forall>q \<in> set (con_previous_stats s). srp_type q = t \<and> xid q = x"
  shows "replies parts s = s\<lparr>con_events := con_events s @ raw_events s parts, con_previous_stats := con_previous_stats s @ parts\<rparr>"
  using assms
proof (induction parts arbitrary: s)
  case Nil
  then show ?case by (simp add: replies_def raw_events_def)
next
  case (Cons p parts)
  let ?s = "s\<lparr>con_events := con_events s @ [(nexus_target s, RawStatsReply p), (AtConnection, RawStatsReply p)],
      con_previous_stats := con_previous_stats s @ [p]\<rparr>"
  have "snd (handle_STATS_REPLY p s) = ?s" using Cons.prems by (intro collect_part) auto
  then have "replies (p # parts) s = replies parts ?s" by (simp add: replies_def)
  also have "\<dots> = ?s\<lparr>con_events := con_events ?s @ raw_events ?s parts, con_previous_stats := con_previous_stats ?s @ parts\<rparr>"
    using Cons.prems by (intro Cons.IH) auto
  finally show ?case by (simp add: raw_events_def)
qed

lemma stats_reassembled_event:
  assumes "stats_run t x parts" "con_previous_stats s = []" "stats_event t parts = Inr e"
  shows "replies parts s = s\<lparr>con_events := con_events s @ raw_events s parts @ [(nexus_target s, e), (AtConnection, e)]\<rparr>"
proof -
  obtain ps p where parts: "parts = ps @ [p]" using assms(1) by (auto simp: stats_run_def intro: rev_exhaust)
  let ?s = "s\<lparr>con_events := con_events s @ raw_events s ps, con_previous_stats := ps\<rparr>"
  have ps: "\<forall>q \<in> set ps. srp_flags q AND 1 \<noteq> 0 \<and> srp_type q = t \<and> xid q = x"
    and p: "srp_flags p AND 1 = 0" "srp_type p = t" "xid p = x" and t: "t \<in> {OFPST_FLOW, OFPST_TABLE, OFPST_PORT, OFPST_QUEUE}"
    using assms(1) by (auto simp: stats_run_def parts)
  have "replies ps s = ?s" using collect_parts [OF ps t, of s] assms(2) by simp
  then have "replies parts s = snd (handle_STATS_REPLY p ?s)" by (simp add: replies_def parts)
  also have "\<dots> = snd (stats_handler t parts (?s\<lparr>con_events := con_events ?s @ raw_events ?s [p], con_previous_stats := []\<rparr>))"
    using p ps by (cases ps) (simp_all add: STATS_REPLY_eq incoming_stats_reply_def Let_def parts raw_events_def)
  also have "\<dots> = s\<lparr>con_events := con_events s @ raw_events s parts @ [(nexus_target s, e), (AtConnection, e)]\<rparr>"
    using assms(2,3) by (simp add: stats_handler_def raise_both_const raw_events_def parts)
  finally show ?thesis .
qed

text \<open>A part that was never completed blocks every later reply with another identifier.\<close>

lemma blocked_reply:
  assumes "con_previous_stats s = q # qs" "xid p \<noteq> xid q" "srp_type p \<in> {OFPST_FLOW, OFPST_TABLE, OFPST_PORT, OFPST_QUEUE}"
  shows "snd (handle_STATS_REPLY p s) = s\<lparr>con_events := con_events s @ raw_events s [p]\<rparr>"
  using assms by (auto simp: STATS_REPLY_eq incoming_stats_reply_def Let_def)

lemma stats_blocked:
  assumes "con_previous_stats s = q # qs" "\<forall>p \<in> set ps. srp_type p \<in> {OFPST_FLOW, OFPST_TABLE, OFPST_PORT, OFPST_QUEUE} \<and> xid p \<noteq> xid q"
  shows "replies ps s = s\<lparr>con_events := con_events s @ raw_events s ps\<rparr>"
  using assms
proof (induction ps arbitrary: s)
  case Nil
  then show ?case by (simp add: replies_def raw_events_def)
next
  case (Cons p ps)
  let ?s = "s\<lparr>con_events := con_events s @ raw_events s [p]\<rparr>"
  have "replies (p # ps) s = replies ps ?s"
    using Cons.prems by (simp add: replies_def blocked_reply)
  also have "\<dots> = ?s\<lparr>con_events := con_events ?s @ raw_events ?s ps\<rparr>"
    using Cons.prems by (intro Cons.IH) auto
  finally show ?case by (simp add: raw_events_def)
qed

subsection \<open>The handshake completes\<close>

definition next_xid :: "int \<Rightarrow> int" where
  "next_xid nx = snd (generateXID nx)"

lemma generateXID_eq: "generateXID nx = (nx, next_xid nx)"
  by (simp add: generateXID_def next_xid_def Let_def)

lemma next_xid_range: "0 \<le> next_xid nx" "next_xid nx \<le> MAX_XID"
  by (simp_all add: next_xid_def generateXID_def Let_def MAX_XID_def)

lemma header_pack_fresh:
  assumes "xid m = None" "version m = OFP_VERSION" "0 \<le> header_type m" "header_type m < 256" "ofp_type_map (header_type m) \<noteq> None"
    "0 \<le> hlength m" "hlength m < 65536" "0 \<le> nx" "nx \<le> MAX_XID"
  shows "\<exists>h. ofp_header_pack True m nx = Inr (h, m\<lparr>xid := Some nx\<rparr>, next_xid nx)"
  using assms by (simp add: ofp_header_pack_def ofp_header_assert_def generateXID_eq MAX_XID_def Let_def struct_pack.simps code_min_def code_max_def
    code_signed_def)

lemma bare_pack_fresh:
  assumes "0 \<le> t" "t < 256" "ofp_type_map t \<noteq> None" "0 \<le> nx" "nx \<le> MAX_XID"
  shows "\<exists>b. bare_pack True (header_defaults t 8) nx = Inr (Some b, (header_defaults t 8)\<lparr>xid := Some nx\<rparr>, next_xid nx)"
  using header_pack_fresh [of "header_defaults t 8" nx] assms
  by (auto simp: bare_pack_def codec header_defaults_def)

lemma switch_config_pack_fresh:
  assumes "0 \<le> n" "n < 65536" "0 \<le> nx" "nx \<le> MAX_XID"
  shows "\<exists>b m. ofp_switch_config_pack True (ofp_switch_config_init (\<lambda>m. m\<lparr>sc_miss_send_len := n\<rparr>)) nx = Inr (Some b, m, next_xid nx)"
proof -
  have "ofp_type_map OFPT_SET_CONFIG \<noteq> None" by code_simp
  moreover have "\<exists>b. struct_pack ''!HH'' [0, n] = Inr b"
    using assms by (simp add: struct_pack.simps code_min_def code_max_def code_signed_def)
  ultimately show ?thesis
    using header_pack_fresh [of "ofp_switch_config_init (\<lambda>m. m\<lparr>sc_miss_send_len := n\<rparr>)" nx] assms
    by (auto simp: ofp_switch_config_pack_def ofp_switch_config_init_def codec)
qed

lemma clear_flows_pack_fresh:
  assumes "0 \<le> nx" "nx \<le> MAX_XID"
  shows "\<exists>b m. ofp_flow_mod_pack True (ofp_flow_mod_init (\<lambda>m. m\<lparr>fm_match := ofp_match_new, fm_command := OFPFC_DELETE\<rparr>)) nx
    = Inr (Some b, m, next_xid nx)"
proof -
  have "ofp_type_map OFPT_FLOW_MOD \<noteq> None" by code_simp
  moreover have "case ofp_match_pack True True ofp_match_new of Inl _ \<Rightarrow> False | Inr _ \<Rightarrow> True" by code_simp
  then have "\<exists>b. ofp_match_pack True True ofp_match_new = Inr b" by (simp split: sum.splits)
  ultimately show ?thesis
    using header_pack_fresh [of "ofp_flow_mod_init (\<lambda>m. m\<lparr>fm_match := ofp_match_new, fm_command := OFPFC_DELETE, hlength := 72\<rparr>)" nx] assms
    by (auto simp: ofp_flow_mod_pack_def Let_def ofp_flow_mod_init_def ofp_flow_mod_len_def ofp_match_len_def actions_len_def
      mask_arg_def flow_mod_mid_def struct_pack.simps code_min_def code_max_def code_signed_def)
qed
text \<open>What the messages of the set-up say to the switch.\<close>

lemma header_framed:
  assumes "has_header b OFP_VERSION t (int (length b))" "blank_msg t = Inr m0" "\<And>r. \<exists>x. of_msg_unpack m0 (b @ r) = Inr (m, x)"
  shows "framed b (t, m)"
proof -
  obtain h s x where b: "b = h @ s" and h: "struct_pack ''!BBHL'' [OFP_VERSION, t, int (length b), x] = Inr h"
    using assms(1) unfolding has_header_def by blast
  note f = BBHL_bytes [OF h]
  show ?thesis
  proof (rule framedI [OF _ _ _ _ assms(2,3)])
    show "8 \<le> length b" "of_char (b ! 0) = (1::int)" "of_char (b ! 1) = t"
      using f by (simp_all add: b nth_append)
    show "push_bit 8 (of_char (b ! 2)) OR of_char (b ! 3) = int (length b)"
      using f b by (simp add: nth_append)
  qed
qed

lemma switch_config_framed:
  assumes "ofp_switch_config_pack True (ofp_switch_config_init (\<lambda>m. m\<lparr>sc_miss_send_len := n\<rparr>)) nx = Inr (Some b, m, nx')"
  shows "\<exists>c. framed b (OFPT_SET_CONFIG, MSetConfig c)"
proof -
  let ?c = "ofp_set_config_init (\<lambda>m. m\<lparr>stc_miss_send_len := n\<rparr>)"
  have "\<exists>c. ofp_set_config_pack True ?c nx = Inr (Some b, c, nx')"
    using assms by (auto simp: ofp_switch_config_pack_def ofp_set_config_pack_def codec ofp_switch_config_init_def
      ofp_set_config_init_def ofp_header_pack_def ofp_header_assert_def Let_def split: option.splits prod.splits if_splits)
  then obtain c where "of_msg_pack (MSetConfig ?c) nx = Inr (Some b, MSetConfig c, nx')" by (auto simp: pack_result_def)
  from of_msg_framed [OF this] show ?thesis
    by (auto simp: ofp_set_config_wf_def ofp_set_config_init_def head_ok_def msg_type_def)
qed

text \<open>Delete everything: the flow-mod of \<^verbatim>\<open>clear_flows_on_connect\<close> as the switch reads it.\<close>

definition clear_flows :: "ofp_flow_mod \<Rightarrow> bool" where
  "clear_flows m \<longleftrightarrow> fm_match m = wire_form True ofp_match_new \<and> fm_command m = OFPFC_DELETE \<and> fm_flags m = 0 \<and>
     fm_out_port m = OFPP_NONE \<and> fm_priority m = OFP_DEFAULT_PRIORITY \<and> fm_buffer_id m = Some (-1) \<and> fm_actions m = []"

lemma match_ok_blank: "match_ok ofp_match_new"
  by (simp add: match_ok_def ofp_match_new_def hw_wire_def)

lemma clear_flows_framed:
  assumes p: "ofp_flow_mod_pack True (ofp_flow_mod_init (\<lambda>m. m\<lparr>fm_match := ofp_match_new, fm_command := OFPFC_DELETE\<rparr>)) nx
    = Inr (Some b, m, nx')"
  shows "\<exists>f. framed b (OFPT_FLOW_MOD, MFlowMod f) \<and> clear_flows f"
proof -
  let ?i = "ofp_flow_mod_init (\<lambda>m. m\<lparr>fm_match := ofp_match_new, fm_command := OFPFC_DELETE\<rparr>)"
  let ?f = "m\<lparr>fm_match := wire_form True ofp_match_new\<rparr>"
  have len: "int (length b) = hlength m"
    and u: "ofp_flow_mod_unpack self (b @ r) = Inr (?f, r)" for self r
    using flow_mod_unpack_pack [OF p] match_ok_blank by (simp_all add: ofp_flow_mod_init_def fm_buffer_ok_def buffer_id_ok_def)
  have "has_header b (version ?i) (header_type ?i) (hlength m)"
    using p by (auto simp: ofp_flow_mod_pack_def codec Let_def split: if_splits elim!: ofp_header_pack_Inr intro: has_headerI)
  then have "framed b (OFPT_FLOW_MOD, MFlowMod ?f)"
    using len u by (intro header_framed [OF _ blank_msgs(15)]) (simp_all add: ofp_flow_mod_init_def msg_result_def)
  moreover have "clear_flows ?f"
  proof -
    obtain x y a n bid where "m = n\<lparr>xid := xid m, fm_actions := fm_actions m\<rparr>" "n = ?i\<lparr>hlength := ofp_flow_mod_len ?i\<rparr>"
      "pack_actions True (fm_actions ?i) = Inr (a, fm_actions m)"
      by (rule flow_mod_pack_parts [OF p]) blast
    then obtain q where "m = ?i\<lparr>hlength := ofp_flow_mod_len ?i, xid := q, fm_actions := []\<rparr>"
      by (simp add: ofp_flow_mod_init_def)
    then show ?thesis by (simp add: clear_flows_def ofp_flow_mod_init_def)
  qed
  ultimately show ?thesis by blast
qed

lemma bare_framed:
  "bare_pack True (header_defaults OFPT_HELLO 8) nx = Inr (Some b, m, nx') \<Longrightarrow> framed b (OFPT_HELLO, MHello m)"
  "bare_pack True (header_defaults OFPT_FEATURES_REQUEST 8) nx = Inr (Some b, m, nx') \<Longrightarrow> framed b (OFPT_FEATURES_REQUEST, MFeaturesRequest m)"
  "bare_pack True (header_defaults OFPT_BARRIER_REQUEST 8) nx = Inr (Some b, m, nx') \<Longrightarrow> framed b (OFPT_BARRIER_REQUEST, MBarrierRequest m)"
  using of_msg_framed [of "MHello (header_defaults OFPT_HELLO 8)" nx b "MHello m" nx']
    of_msg_framed [of "MFeaturesRequest (header_defaults OFPT_FEATURES_REQUEST 8)" nx b "MFeaturesRequest m" nx']
    of_msg_framed [of "MBarrierRequest (header_defaults OFPT_BARRIER_REQUEST 8)" nx b "MBarrierRequest m" nx']
  by (simp_all add: pack_result_def head_ok_def bare_wf_def header_defaults_def msg_type_def)

text \<open>The messages between the features and the barrier.\<close>

fun setup_msg :: "of_msg \<Rightarrow> bool" where
  "setup_msg (MSetConfig _) = True"
| "setup_msg (MFlowMod f) = clear_flows f"
| "setup_msg _ = False"

lemma con_send_packed:
  assumes "p (next_XID s) = Inr (Some b, m, nx)" "\<not> con_disconnected s"
  shows "con_send p k s = (None, k (xid m) (s\<lparr>con_sent := con_sent s @ [b], next_XID := nx\<rparr>))"
  using assms by (simp add: con_send_def)

lemma Connection_init_eq:
  assumes "0 \<le> nx" "nx \<le> MAX_XID"
  shows "\<exists>b m. framed b (OFPT_HELLO, MHello m) \<and> Connection_init cid n nx =
    \<lparr>con_ID = cid, con_dpid = None, con_features = None, con_disconnected = False,
    con_connect_time = None, con_has_nexus = False, con_pending = [], con_previous_stats = [],
    con_sent = [b], con_events = [], nexus_connections = n, next_XID = next_xid nx, next_eid = 0\<rparr>"
proof -
  have "ofp_type_map OFPT_HELLO \<noteq> None" by code_simp
  with bare_pack_fresh [of OFPT_HELLO nx] assms
  obtain b m where b: "bare_pack True (header_defaults OFPT_HELLO 8) nx = Inr (Some b, m, next_xid nx)" by auto
  then have "framed b (OFPT_HELLO, MHello m)" using bare_framed(1) by blast
  with b show ?thesis by (auto simp: Connection_init_def con_send_def ofp_hello_init_def)
qed

lemma handle_HELLO_eq:
  assumes "0 \<le> next_XID s" "next_XID s \<le> MAX_XID" "\<not> con_disconnected s"
  shows "\<exists>b m. framed b (OFPT_FEATURES_REQUEST, MFeaturesRequest m) \<and> xid m = Some (next_XID s) \<and>
    handle_HELLO h s = (None, s\<lparr>con_sent := con_sent s @ [b], next_XID := next_xid (next_XID s)\<rparr>)"
proof -
  have "ofp_type_map OFPT_FEATURES_REQUEST \<noteq> None" by code_simp
  with bare_pack_fresh [of OFPT_FEATURES_REQUEST "next_XID s"] assms
  obtain b where b: "bare_pack True (header_defaults OFPT_FEATURES_REQUEST 8) (next_XID s) =
      Inr (Some b, (header_defaults OFPT_FEATURES_REQUEST 8)\<lparr>xid := Some (next_XID s)\<rparr>, next_xid (next_XID s))" by auto
  with bare_framed(2) [OF b] assms show ?thesis
    by (intro exI [of _ b] exI [of _ "(header_defaults OFPT_FEATURES_REQUEST 8)\<lparr>xid := Some (next_XID s)\<rparr>"])
      (simp add: handle_HELLO_def con_send_def ofp_features_request_init_def)
qed

definition config_ok :: "of_env \<Rightarrow> bool" where
  "config_ok env \<longleftrightarrow> env_nexus env \<and> (\<forall>n. miss_send_len env = Some n \<longrightarrow> 0 \<le> n \<and> n < 65536)"

definition sends :: "connection stmt \<Rightarrow> connection \<Rightarrow> bool" where
  "sends c s \<longleftrightarrow>
     (\<exists>bs ms nx. c s = (None, s\<lparr>con_sent := con_sent s @ bs, next_XID := nx\<rparr>) \<and> 0 \<le> nx \<and> nx \<le> MAX_XID \<and>
        list_all2 framed bs ms \<and> (\<forall>tm \<in> set ms. setup_msg (snd tm)))"

lemma sends_update: "0 \<le> next_XID s \<Longrightarrow> next_XID s \<le> MAX_XID \<Longrightarrow> sends (update (\<lambda>s. s)) s"
  unfolding sends_def by (intro exI [of _ "[]"] exI [of _ "next_XID s"]) (simp add: update_def)

lemma sends_fresh:
  assumes "\<not> con_disconnected s" "\<exists>b m. p (next_XID s) = Inr (Some b, m, next_xid (next_XID s))"
    "\<And>b m. p (next_XID s) = Inr (Some b, m, next_xid (next_XID s)) \<Longrightarrow> \<exists>tm. framed b tm \<and> setup_msg (snd tm)"
  shows "sends (con_send p (\<lambda>_ s. s)) s"
proof -
  obtain b m where b: "p (next_XID s) = Inr (Some b, m, next_xid (next_XID s))" using assms(2) by blast
  obtain tm where tm: "framed b tm" "setup_msg (snd tm)" using assms(3) [OF b] by blast
  from b have "con_send p (\<lambda>_ s. s) s = (None, s\<lparr>con_sent := con_sent s @ [b], next_XID := next_xid (next_XID s)\<rparr>)"
    using assms(1) by (simp add: con_send_def)
  then show ?thesis unfolding sends_def using next_xid_range tm
    by (intro exI [of _ "[b]"] exI [of _ "[tm]"] exI [of _ "next_xid (next_XID s)"]) simp
qed

text \<open>The features reply sends the configuration and then the barrier, whose identifier is remembered.\<close>

lemma setup_sends:
  assumes "config_ok env" "0 \<le> next_XID s" "next_XID s \<le> MAX_XID" "\<not> con_disconnected s"
  shows "sends (case miss_send_len env of None \<Rightarrow> update (\<lambda>s. s)
              | Some n \<Rightarrow> con_send (ofp_switch_config_pack True
                  (ofp_switch_config_init (\<lambda>m. m\<lparr>sc_miss_send_len := n\<rparr>))) (\<lambda>_ s. s)) s"
    and "sends (if clear_flows_on_connect env
              then con_send (ofp_flow_mod_pack True (ofp_flow_mod_init
                  (\<lambda>m. m\<lparr>fm_match := ofp_match_new, fm_command := OFPFC_DELETE\<rparr>))) (\<lambda>_ s. s)
              else update (\<lambda>s. s)) s"
proof -
  let ?c = "\<lambda>n. ofp_switch_config_pack True (ofp_switch_config_init (\<lambda>m. m\<lparr>sc_miss_send_len := n\<rparr>))"
  let ?f = "ofp_flow_mod_pack True (ofp_flow_mod_init (\<lambda>m. m\<lparr>fm_match := ofp_match_new, fm_command := OFPFC_DELETE\<rparr>))"
  have c: "sends (con_send (?c n) (\<lambda>_ s. s)) s" if "miss_send_len env = Some n" for n
  proof (rule sends_fresh [OF assms(4)])
    show "\<exists>b m. ?c n (next_XID s) = Inr (Some b, m, next_xid (next_XID s))"
      using switch_config_pack_fresh [of n "next_XID s"] assms that by (auto simp: config_ok_def)
    show "\<exists>tm. framed b tm \<and> setup_msg (snd tm)" if "?c n (next_XID s) = Inr (Some b, m, next_xid (next_XID s))" for b m
      using switch_config_framed [OF that] by fastforce
  qed
  have f: "sends (con_send ?f (\<lambda>_ s. s)) s"
  proof (rule sends_fresh [OF assms(4)])
    show "\<exists>b m. ?f (next_XID s) = Inr (Some b, m, next_xid (next_XID s))"
      by (rule clear_flows_pack_fresh [OF assms(2,3)])
    show "\<exists>tm. framed b tm \<and> setup_msg (snd tm)" if "?f (next_XID s) = Inr (Some b, m, next_xid (next_XID s))" for b m
      using clear_flows_framed [OF that] by fastforce
  qed
  show "sends (case miss_send_len env of None \<Rightarrow> update (\<lambda>s. s) | Some n \<Rightarrow> con_send (?c n) (\<lambda>_ s. s)) s"
    using sends_update [OF assms(2,3)] c by (simp split: option.split)
  show "sends (if clear_flows_on_connect env then con_send ?f (\<lambda>_ s. s) else update (\<lambda>s. s)) s"
    using sends_update [OF assms(2,3)] f by simp
qed

lemma barrier_send:
  assumes "0 \<le> next_XID s" "next_XID s \<le> MAX_XID" "\<not> con_disconnected s"
  shows "\<exists>b m. bare_pack True (ofp_barrier_request_init (\<lambda>m. m)) (next_XID s) = Inr (Some b, m, next_xid (next_XID s)) \<and>
    xid m = Some (next_XID s) \<and> framed b (OFPT_BARRIER_REQUEST, MBarrierRequest m) \<and>
    con_send (bare_pack True (ofp_barrier_request_init (\<lambda>m. m))) k s =
      (None, k (Some (next_XID s)) (s\<lparr>con_sent := con_sent s @ [b], next_XID := next_xid (next_XID s)\<rparr>))"
proof -
  have "ofp_type_map OFPT_BARRIER_REQUEST \<noteq> None" by code_simp
  with bare_pack_fresh [of OFPT_BARRIER_REQUEST "next_XID s"] assms
  obtain b where b: "bare_pack True (header_defaults OFPT_BARRIER_REQUEST 8) (next_XID s) =
      Inr (Some b, (header_defaults OFPT_BARRIER_REQUEST 8)\<lparr>xid := Some (next_XID s)\<rparr>, next_xid (next_XID s))" by auto
  with bare_framed(3) [OF b] assms show ?thesis by (auto simp: con_send_def ofp_barrier_request_init_def)
qed

lemma handshake_waits:
  assumes "config_ok env" "0 \<le> next_XID s" "next_XID s \<le> MAX_XID" "\<not> con_disconnected s" "con_connect_time s = None"
    "con_pending s = []"
  shows "\<exists>bs ms x b m. handle_FEATURES_REPLY env f s =
      (None, s\<lparr>con_features := Some f, con_dpid := Some (fr_datapath_id f), con_has_nexus := True,
        con_pending := [\<lparr>pd_id = next_eid s, pd_xid = Some x, pd_features = f\<rparr>], con_sent := con_sent s @ bs @ [b],
        nexus_connections := (nexus_connections s)(fr_datapath_id f \<mapsto> con_ID s),
        next_XID := next_xid x, next_eid := Suc (next_eid s)\<rparr>) \<and>
      bare_pack True (ofp_barrier_request_init (\<lambda>m. m)) x = Inr (Some b, m, next_xid x) \<and> xid m = Some x \<and> 0 \<le> x \<and> x \<le> MAX_XID \<and>
      framed b (OFPT_BARRIER_REQUEST, MBarrierRequest m) \<and> list_all2 framed bs ms \<and> (\<forall>tm \<in> set ms. setup_msg (snd tm))"
proof -
  let ?p = "\<lparr>pd_id = next_eid s, pd_xid = None, pd_features = f\<rparr>"
  let ?s = "s\<lparr>con_features := Some f, con_dpid := Some (fr_datapath_id f), con_has_nexus := True,
    nexus_connections := (nexus_connections s)(fr_datapath_id f \<mapsto> con_ID s), con_pending := [?p], next_eid := Suc (next_eid s)\<rparr>"
  let ?c = "case miss_send_len env of None \<Rightarrow> update (\<lambda>s. s)
              | Some n \<Rightarrow> con_send (ofp_switch_config_pack True
                  (ofp_switch_config_init (\<lambda>m. m\<lparr>sc_miss_send_len := n\<rparr>))) (\<lambda>_ s. s)"
  let ?d = "if clear_flows_on_connect env
              then con_send (ofp_flow_mod_pack True (ofp_flow_mod_init
                  (\<lambda>m. m\<lparr>fm_match := ofp_match_new, fm_command := OFPFC_DELETE\<rparr>))) (\<lambda>_ s. s)
              else update (\<lambda>s. s)"
  let ?b = "con_send (bare_pack True (ofp_barrier_request_init (\<lambda>m. m))) (set_pending_xid (next_eid s))"
  have "sends ?c ?s" using assms by (intro setup_sends) simp_all
  then obtain bs ms nx where c: "?c ?s = (None, ?s\<lparr>con_sent := con_sent s @ bs, next_XID := nx\<rparr>)" and nx: "0 \<le> nx" "nx \<le> MAX_XID"
    and ms: "list_all2 framed bs ms" "\<forall>tm \<in> set ms. setup_msg (snd tm)"
    by (auto simp: sends_def)
  let ?s1 = "?s\<lparr>con_sent := con_sent s @ bs, next_XID := nx\<rparr>"
  have "sends ?d ?s1" using assms nx by (intro setup_sends) simp_all
  then obtain ds ns x where d: "?d ?s1 = (None, ?s\<lparr>con_sent := con_sent s @ bs @ ds, next_XID := x\<rparr>)" and x: "0 \<le> x" "x \<le> MAX_XID"
    and ns: "list_all2 framed ds ns" "\<forall>tm \<in> set ns. setup_msg (snd tm)"
    by (auto simp: sends_def)
  let ?s2 = "?s\<lparr>con_sent := con_sent s @ bs @ ds, next_XID := x\<rparr>"
  obtain b m where b: "bare_pack True (ofp_barrier_request_init (\<lambda>m. m)) x = Inr (Some b, m, next_xid x)" "xid m = Some x"
    "framed b (OFPT_BARRIER_REQUEST, MBarrierRequest m)" "?b ?s2 = (None, set_pending_xid (next_eid s) (Some x) (?s2\<lparr>con_sent := con_sent ?s2 @ [b], next_XID := next_xid x\<rparr>))"
    using barrier_send [of ?s2 "set_pending_xid (next_eid s)"] x assms(4) by auto
  have "handle_FEATURES_REPLY env f s = seq [?c, ?d, ?b] ?s"
    using assms by (simp add: handle_FEATURES_REPLY_def Let_def nexus_connect_def config_ok_def del: seq.simps)
  also have "\<dots> = (None, s\<lparr>con_features := Some f, con_dpid := Some (fr_datapath_id f), con_has_nexus := True,
        con_pending := [\<lparr>pd_id = next_eid s, pd_xid = Some x, pd_features = f\<rparr>], con_sent := con_sent s @ (bs @ ds) @ [b],
        nexus_connections := (nexus_connections s)(fr_datapath_id f \<mapsto> con_ID s),
        next_XID := next_xid x, next_eid := Suc (next_eid s)\<rparr>)"
    by (simp only: seq.simps c d b(4) prod.case option.case) (simp add: set_pending_xid_def)
  finally show ?thesis
    using b(1-3) x ms ns by (intro exI [of _ "bs @ ds"] exI [of _ "ms @ ns"] exI [of _ x] exI [of _ b] exI [of _ m])
      (auto intro: list_all2_appendI)
qed

subsection \<open>Packet-outs\<close>

text \<open>A packet-out with a frame, or with a buffer instead, is packed and read as it is.\<close>

lemma packet_out_fresh:
  assumes "pack_actions True acts = Inr (z, ac)" "length z + length data < 65520" "buf = -1 \<or> data = []" "buffer_id_ok buf"
    "0 \<le> ip" "ip < 65536" "\<forall>a \<in> set acts. action_wf a" "0 \<le> nx" "nx \<le> MAX_XID"
  shows "\<exists>b m. ofp_packet_out_pack True (po_set_data (Some data) ((ofp_packet_out_init (\<lambda>m. m))
      \<lparr>po_actions := acts, po_buffer_id := buf, po_in_port := ip\<rparr>)) nx = Inr (Some b, m, next_xid nx) \<and>
    framed b (OFPT_PACKET_OUT, MPacketOut m) \<and> po_data m = data \<and> po_actions m = ac \<and> po_buffer_id m = buf \<and> po_in_port m = ip"
proof -
  let ?m = "po_set_data (Some data) ((ofp_packet_out_init (\<lambda>m. m))\<lparr>po_actions := acts, po_buffer_id := buf, po_in_port := ip\<rparr>)"
  let ?n = "?m\<lparr>po_actions := ac, hlength := 16 + int (length z) + int (length data)\<rparr>"
  have i: "xid ?n = None" "version ?n = OFP_VERSION" "header_type ?n = OFPT_PACKET_OUT" "hlength ?n = 16 + int (length z) + int (length data)"
    by (simp_all add: ofp_packet_out_init_def po_set_data_def)
  have t: "ofp_type_map OFPT_PACKET_OUT \<noteq> None" by code_simp
  obtain h where h: "ofp_header_pack True ?n nx = Inr (h, ?n\<lparr>xid := Some nx\<rparr>, next_xid nx)"
    using header_pack_fresh [of ?n nx] t i assms(2,8,9) by auto
  have "0 \<le> buf AND 0xffffffff" "buf AND 0xffffffff < 4294967296" using and_mask32 [of buf] by (simp_all add: mask32_def)
  then obtain x where x: "struct_pack ''!LHH'' [buf AND 0xffffffff, ip, int (length z)] = Inr x"
    using assms(2,5,6) by (auto simp: struct_pack.simps code_min_def code_max_def code_signed_def)
  have pk: "ofp_packet_out_pack True ?m nx = Inr (Some (h @ x @ z @ data), ?n\<lparr>xid := Some nx\<rparr>, next_xid nx)"
    using h x assms(1,3) by (auto simp: ofp_packet_out_pack_def Let_def ofp_packet_out_assert_def po_set_data_def ofp_packet_out_init_def msg_packed_def concatE.simps(2))
  have "of_msg_pack (MPacketOut ?m) nx = Inr (Some (h @ x @ z @ data), MPacketOut (?n\<lparr>xid := Some nx\<rparr>), next_xid nx)"
    using pk by (simp add: pack_result_def)
  moreover have "of_msg_wf (MPacketOut ?m)"
    using assms(4,7) by (simp add: head_ok_def ofp_packet_out_wf_def po_set_data_def ofp_packet_out_init_def)
  ultimately have "framed (h @ x @ z @ data) (OFPT_PACKET_OUT, MPacketOut (?n\<lparr>xid := Some nx\<rparr>))"
    using of_msg_framed by (fastforce simp: msg_type_def)
  moreover have "po_data (?n\<lparr>xid := Some nx\<rparr>) = data" "po_buffer_id (?n\<lparr>xid := Some nx\<rparr>) = buf" "po_in_port (?n\<lparr>xid := Some nx\<rparr>) = ip"
    "po_actions (?n\<lparr>xid := Some nx\<rparr>) = ac"
    by (simp_all add: po_set_data_def ofp_packet_out_init_def)
  ultimately show ?thesis using pk by blast
qed

end
