(* ===== verification/Packets.thy ===== *)
theory Packets
  imports OF_Match
begin

text \<open>
  The packet library \<^verbatim>\<open>pox/lib/packet\<close>: one record per header class with the attributes that are read
  or written outside of it, \<^verbatim>\<open>parse\<close>, \<^verbatim>\<open>hdr\<close> and \<^verbatim>\<open>pack\<close>. A packet is a chain of headers; the attribute
  \<^verbatim>\<open>next\<close> is the second component of each constructor. Since \<^verbatim>\<open>hdr\<close> updates lengths and checksums on
  the object, \<^verbatim>\<open>pack\<close> returns the packet as well as its bytes. The back pointer \<^verbatim>\<open>prev\<close> only matters to
  the transport checksums: a flag says whether it points to the IP header that contains the segment.
  LLDP, EAPOL, DHCP and DNS are parameters, gathered with the two sources of default identifiers
  in an environment.
\<close>

subsection \<open>packet\_utils: the Internet checksum\<close>

text \<open>\<^verbatim>\<open>array.array('H', data)\<close>: native words on a little-endian host; an odd last byte is left out.\<close>

fun le_words :: "bytes \<Rightarrow> int list" where
  "le_words (a # b # s) = (of_char a + 256 * of_char b) # le_words s"
| "le_words _ = []"

definition ntohs :: "int \<Rightarrow> int" where
  "ntohs v = (v mod 256) * 256 + v div 256"

definition skip_sum :: "int list \<Rightarrow> nat option \<Rightarrow> int" where
  "skip_sum ws skip = (case skip of None \<Rightarrow> sum_list ws | Some k \<Rightarrow> sum_list (take k ws) + sum_list (drop (Suc k) ws))"

definition checksum :: "bytes \<Rightarrow> int \<Rightarrow> nat option \<Rightarrow> int" where
  "checksum data start skip =
     (let start = start + skip_sum (le_words data) skip;
          start = (if length data mod 2 \<noteq> 0 then start + of_char (last data) else start);
          start = drop_bit 16 start + (start AND 0xffff);
          start = start + drop_bit 16 start
      in ntohs (NOT start AND 0xffff))"

subsection \<open>The headers\<close>

record ethernet =
  e_parsed :: bool
  e_dst :: hw
  e_src :: hw
  e_type :: int

text \<open>\<^verbatim>\<open>__init__\<close> sets \<^verbatim>\<open>cfi\<close>, \<^verbatim>\<open>parse\<close> sets \<^verbatim>\<open>c\<close>, and \<^verbatim>\<open>hdr\<close> reads \<^verbatim>\<open>c\<close>.\<close>

record vlan =
  v_parsed :: bool
  v_pcp :: int
  v_cfi :: int
  v_c :: "int option"
  v_id :: int
  v_eth_type :: int

text \<open>The addresses of a header that was not accepted are still the integers that were read.\<close>

record ipv4 =
  ip_parsed :: bool
  ip_v :: int
  ip_hl :: int
  ip_tos :: int
  ip_len :: int
  ip_ident :: int
  ip_flags :: int
  ip_frag :: int
  ip_ttl :: int
  ip_protocol :: int
  ip_csum :: int
  ip_srcip :: ip_arg
  ip_dstip :: ip_arg

record udp =
  u_parsed :: bool
  u_in_ip :: bool
  u_srcport :: int
  u_dstport :: int
  u_len :: int
  u_csum :: int

datatype tcp_val = NoVal | IntVal int | PairVal int int | PairsVal "(int \<times> int) list" | BytesVal bytes

record tcp_opt =
  opt_type :: int
  opt_val :: tcp_val

record tcp =
  t_parsed :: bool
  t_in_ip :: bool
  t_srcport :: int
  t_dstport :: int
  t_seq :: int
  t_ack :: int
  t_off :: int
  t_res :: int
  t_flags :: int
  t_win :: int
  t_csum :: int
  t_urg :: int
  t_options :: "tcp_opt list"

text \<open>\<^verbatim>\<open>icmp\<close> and \<^verbatim>\<open>unreach\<close> never call the base constructor: \<^verbatim>\<open>parsed\<close> exists only after a parse.\<close>

record icmp =
  i_parsed :: bool
  i_type :: int
  i_code :: int
  i_csum :: int

record echo =
  ec_parsed :: bool
  ec_id :: int
  ec_seq :: int

record unreach =
  un_parsed :: bool
  un_unused :: int
  un_next_mtu :: int

record arp =
  a_parsed :: bool
  a_hwtype :: int
  a_prototype :: int
  a_hwsrc :: hw
  a_hwdst :: hw
  a_hwlen :: int
  a_opcode :: int
  a_protolen :: int
  a_protosrc :: ip_arg
  a_protodst :: ip_arg

record mpls =
  mp_parsed :: bool
  mp_label :: int
  mp_tc :: int
  mp_s :: int
  mp_ttl :: int

datatype 'o payload = NoNext | UndefNext | RawNext bytes | PktNext "'o packet"
  and 'o packet =
    PEthernet ethernet "'o payload"
  | PVlan vlan "'o payload"
  | PIpv4 ipv4 "'o payload"
  | PUdp udp "'o payload"
  | PTcp tcp "'o payload"
  | PIcmp icmp "'o payload"
  | PEcho echo "'o payload"
  | PUnreach unreach "'o payload"
  | PArp arp "'o payload"
  | PMpls mpls "'o payload"
  | POther 'o

datatype other_class = C_lldp | C_eapol | C_dhcp | C_dns

record 'o packet_env =
  env_ip_id :: int
  env_echo_id :: int
  other_parse :: "other_class \<Rightarrow> bytes \<Rightarrow> 'o result"
  other_parsed :: "'o \<Rightarrow> bool"
  other_pack :: "'o \<Rightarrow> (bytes \<times> 'o) result"

subsection \<open>Constructors without data\<close>

definition ethernet_init :: ethernet where
  "ethernet_init = \<lparr>e_parsed = False, e_dst = HwEth EMPTY_ETH, e_src = HwEth EMPTY_ETH, e_type = 0\<rparr>"

definition vlan_init :: vlan where
  "vlan_init = \<lparr>v_parsed = False, v_pcp = 0, v_cfi = 0, v_c = None, v_id = 0, v_eth_type = 0\<rparr>"

definition ipv4_init :: "int \<Rightarrow> ipv4" where
  "ipv4_init ident = \<lparr>ip_parsed = False, ip_v = 4, ip_hl = 5, ip_tos = 0, ip_len = 20, ip_ident = ident,
     ip_flags = 0, ip_frag = 0, ip_ttl = 64, ip_protocol = 0, ip_csum = 0, ip_srcip = IpObj (IPAddr 0),
     ip_dstip = IpObj (IPAddr 0)\<rparr>"

definition udp_init :: "bool \<Rightarrow> udp" where
  "udp_init in_ip = \<lparr>u_parsed = False, u_in_ip = in_ip, u_srcport = 0, u_dstport = 0, u_len = 8, u_csum = 0\<rparr>"

definition tcp_init :: "bool \<Rightarrow> tcp" where
  "tcp_init in_ip = \<lparr>t_parsed = False, t_in_ip = in_ip, t_srcport = 0, t_dstport = 0, t_seq = 0, t_ack = 0,
     t_off = 0, t_res = 0, t_flags = 0, t_win = 0, t_csum = 0, t_urg = 0, t_options = []\<rparr>"

definition icmp_init :: icmp where
  "icmp_init = \<lparr>i_parsed = False, i_type = 0, i_code = 0, i_csum = 0\<rparr>"

definition unreach_init :: unreach where
  "unreach_init = \<lparr>un_parsed = False, un_unused = 0, un_next_mtu = 0\<rparr>"

definition arp_init :: arp where
  "arp_init = \<lparr>a_parsed = False, a_hwtype = 1, a_prototype = 0x0800, a_hwsrc = HwEth EMPTY_ETH,
     a_hwdst = HwEth EMPTY_ETH, a_hwlen = 6, a_opcode = 0, a_protolen = 4,
     a_protosrc = IpObj (IPAddr 0), a_protodst = IpObj (IPAddr 0)\<rparr>"

definition mpls_init :: mpls where
  "mpls_init = \<lparr>mp_parsed = False, mp_label = 0, mp_tc = 0, mp_s = 0, mp_ttl = 0\<rparr>"

subsection \<open>tcp: options and flags\<close>

definition tcp_setflag :: "tcp \<Rightarrow> int \<Rightarrow> bool \<Rightarrow> tcp" where
  "tcp_setflag self flag v = self\<lparr>t_flags := (t_flags self AND NOT flag) OR (if v then flag else 0)\<rparr>"

definition tcp_getflag :: "tcp \<Rightarrow> int \<Rightarrow> bool" where
  "tcp_getflag self flag \<longleftrightarrow> t_flags self AND flag \<noteq> 0"

text \<open>A value of the wrong shape for its type raises; \<^verbatim>\<open>struct\<close> is strict about ranges.\<close>

definition to_bytes :: "tcp_opt \<Rightarrow> bytes result" where
  "to_bytes self =
     (let t = opt_type self in
      if t = 0 \<or> t = 1 then struct_pack ''B'' [t]
      else if t = 2 then (case opt_val self of IntVal v \<Rightarrow> struct_pack ''!BBH'' [t, 4, v] | _ \<Rightarrow> Inl StructError)
      else if t = 3 then (case opt_val self of IntVal v \<Rightarrow> struct_pack ''!BBB'' [t, 3, v] | _ \<Rightarrow> Inl StructError)
      else if t = 4 then struct_pack ''!BB'' [t, 2]
      else if t = 5 then (case opt_val self of
          PairsVal ps \<Rightarrow> struct_pack (CHR ''!'' # concat (replicate (length ps) ''II'')) (concat (map (\<lambda>(x, y). [x, y]) ps))
        | _ \<Rightarrow> Inl TypeError)
      else if t = 8 then (case opt_val self of PairVal x y \<Rightarrow> struct_pack ''!BBII'' [t, 10, x, y] | _ \<Rightarrow> Inl TypeError)
      else Inr [])"

text \<open>
  One option at index \<open>i\<close>: the option and the number of bytes it takes. For SACK the code unpacks all of
  the rest of the segment, which raises unless the segment ends with the option.
\<close>

fun pairs_of :: "int list \<Rightarrow> (int \<times> int) list" where
  "pairs_of (x # y # vs) = (x, y) # pairs_of vs"
| "pairs_of _ = []"

definition parse_option :: "bytes \<Rightarrow> nat \<Rightarrow> (tcp_opt \<times> nat) result" where
  "parse_option arr i =
     (let dlen = length arr; t = of_char (arr ! i) :: int in
      if t = 1 then Inr (\<lparr>opt_type = 1, opt_val = NoVal\<rparr>, 1)
      else if i + 2 > dlen then Inl RuntimeError
      else let n = of_char (arr ! (i + 1)) :: nat in
      if i + n > dlen then Inl RuntimeError
      else if n < 2 then Inl RuntimeError
      else if t = 2 then
        (if n \<noteq> 4 then Inl RuntimeError
         else bindE (struct_unpack ''!H'' (slice (i + 2) (i + 4) arr)) (\<lambda>v. Inr (\<lparr>opt_type = 2, opt_val = IntVal (v ! 0)\<rparr>, n)))
      else if t = 3 then
        (if n \<noteq> 3 then Inl RuntimeError
         else Inr (\<lparr>opt_type = 3, opt_val = IntVal (of_char (arr ! (i + 2)))\<rparr>, n))
      else if t = 4 then
        (if n \<noteq> 2 then Inl RuntimeError else Inr (\<lparr>opt_type = 4, opt_val = NoVal\<rparr>, n))
      else if t = 5 then
        (if (n - 2) mod 8 = 0
         then bindE (struct_unpack (CHR ''!'' # concat (replicate ((n - 2) div 8) ''II'')) (drop (i + 2) arr)) (\<lambda>v.
                Inr (\<lparr>opt_type = 5, opt_val = PairsVal (pairs_of v)\<rparr>, n))
         else Inl RuntimeError)
      else if t = 8 then
        (if n \<noteq> 10 then Inl RuntimeError
         else bindE (struct_unpack ''!II'' (slice (i + 2) (i + 10) arr)) (\<lambda>v.
                Inr (\<lparr>opt_type = 8, opt_val = PairVal (v ! 0) (v ! 1)\<rparr>, n)))
      else Inr (\<lparr>opt_type = t, opt_val = BytesVal (slice (i + 2) (i + 2 + n) arr)\<rparr>, n))"

text \<open>Every option takes at least one byte, so the loop ends.\<close>

lemma parse_option_advances: "parse_option arr i = Inr (opt, n) \<Longrightarrow> 1 \<le> n"
  by (auto simp: parse_option_def Let_def split: if_splits)

text \<open>The options read before an exception stay on the object.\<close>

function parse_options_loop :: "bytes \<Rightarrow> nat \<Rightarrow> nat \<Rightarrow> tcp_opt list \<Rightarrow> tcp_opt list \<times> py_error option" where
  "parse_options_loop arr hdr_len i opts =
     (if i < hdr_len then
        (if length arr \<le> i then (opts, Some IndexError)
         else if arr ! i = CHR 0x00 then (opts, None)
         else case parse_option arr i of
             Inl e \<Rightarrow> (opts, Some e)
           | Inr (opt, n) \<Rightarrow> parse_options_loop arr hdr_len (i + n) (opts @ [opt]))
      else (opts, None))"
  by pat_completeness auto
termination
  by (relation "measure (\<lambda>(arr, hdr_len, i, opts). hdr_len - i)") (auto dest: parse_option_advances)

declare parse_options_loop.simps [simp del]

definition parse_options :: "tcp \<Rightarrow> bytes \<Rightarrow> nat \<Rightarrow> tcp \<times> py_error option" where
  "parse_options self raw hdr_len =
     (case parse_options_loop raw hdr_len 20 [] of (opts, e) \<Rightarrow> (self\<lparr>t_options := opts\<rparr>, e))"

subsection \<open>Parsing\<close>

text \<open>
  \<^verbatim>\<open>cls(raw=..., prev=...)\<close> makes the object and parses into it; data too short for the header leaves
  it unparsed. The parsers of the classes that are not modelled come from the environment.
\<close>

definition other_packet :: "'o packet_env \<Rightarrow> other_class \<Rightarrow> bytes \<Rightarrow> 'o packet result" where
  "other_packet env c raw = bindE (other_parse env c raw) (\<lambda>p. Inr (POther p))"

definition mpls_parse :: "bytes \<Rightarrow> 'o packet result" where
  "mpls_parse raw =
     (if length raw < 4 then Inr (PMpls mpls_init NoNext)
      else bindE (struct_unpack ''!HBB'' (take 4 raw)) (\<lambda>v.
        Inr (PMpls \<lparr>mp_parsed = True, mp_label = push_bit 4 (v ! 0) OR drop_bit 4 (v ! 1),
               mp_tc = drop_bit 1 (v ! 1 AND 0xf), mp_s = v ! 1 AND 1, mp_ttl = v ! 2\<rparr>
             (RawNext (drop 4 raw)))))"

definition arp_parse :: "bytes \<Rightarrow> 'o packet result" where
  "arp_parse raw =
     (if length raw < 28 then Inr (PArp arp_init (RawNext []))
      else bindE (struct_unpack ''!HHBBH'' (take 8 raw)) (\<lambda>v.
        let self = arp_init\<lparr>a_hwtype := v ! 0, a_prototype := v ! 1, a_hwlen := v ! 2,
              a_protolen := v ! 3, a_opcode := v ! 4\<rparr>
        in bindE (if a_hwlen self \<noteq> 6 then Inr self
               else bindE (EthAddr_init (EaStr (slice 8 14 raw))) (\<lambda>s.
                 bindE (EthAddr_init (EaStr (slice 18 24 raw))) (\<lambda>d.
                   Inr (self\<lparr>a_hwsrc := HwEth s, a_hwdst := HwEth d\<rparr>)))) (\<lambda>self.
           bindE (if a_protolen self \<noteq> 4 then Inr self
               else bindE (struct_unpack ''!I'' (slice 14 18 raw)) (\<lambda>s.
                 bindE (struct_unpack ''!I'' (slice 24 28 raw)) (\<lambda>d.
                 bindE (IPAddr_init (IpInt (s ! 0)) False) (\<lambda>s.
                 bindE (IPAddr_init (IpInt (d ! 0)) False) (\<lambda>d.
                   Inr (self\<lparr>a_protosrc := IpObj s, a_protodst := IpObj d\<rparr>)))))) (\<lambda>self.
             Inr (PArp (self\<lparr>a_parsed := True\<rparr>) (RawNext (drop 28 raw)))))))"

text \<open>
  A UDP header counts as parsed as soon as its fields were read, even when its length is wrong.
\<close>

definition udp_parse :: "'o packet_env \<Rightarrow> bool \<Rightarrow> bytes \<Rightarrow> 'o packet result" where
  "udp_parse env in_ip raw =
     (if length raw < 8 then Inr (PUdp (udp_init in_ip) NoNext)
      else bindE (struct_unpack ''!HHHH'' (take 8 raw)) (\<lambda>v.
        let self = \<lparr>u_parsed = True, u_in_ip = in_ip, u_srcport = v ! 0, u_dstport = v ! 1,
              u_len = v ! 2, u_csum = v ! 3\<rparr>
        in if u_len self < 8 then Inr (PUdp self NoNext)
           else if u_dstport self = 67 \<or> u_dstport self = 68 then
             bindE (other_packet env C_dhcp (drop 8 raw)) (\<lambda>p. Inr (PUdp self (PktNext p)))
           else if u_dstport self = 53 \<or> u_srcport self = 53 then
             bindE (other_packet env C_dns (drop 8 raw)) (\<lambda>p. Inr (PUdp self (PktNext p)))
           else if int (length raw) < u_len self then Inr (PUdp self NoNext)
           else Inr (PUdp self (RawNext (drop 8 raw)))))"

definition tcp_parse :: "bool \<Rightarrow> bytes \<Rightarrow> 'o packet result" where
  "tcp_parse in_ip raw =
     (if length raw < 20 then Inr (PTcp (tcp_init in_ip) (RawNext []))
      else bindE (struct_unpack ''!HHIIBBHHH'' (take 20 raw)) (\<lambda>v.
        let self = \<lparr>t_parsed = False, t_in_ip = in_ip, t_srcport = v ! 0, t_dstport = v ! 1, t_seq = v ! 2,
              t_ack = v ! 3, t_off = drop_bit 4 (v ! 4), t_res = v ! 4 AND 0x0f, t_flags = v ! 5,
              t_win = v ! 6, t_csum = v ! 7, t_urg = v ! 8, t_options = []\<rparr>;
            hdr_len = nat (t_off self * 4)
        in if hdr_len < 20 \<or> hdr_len > length raw then Inr (PTcp self (RawNext []))
           else case parse_options self raw hdr_len of
               (self, Some e) \<Rightarrow> Inr (PTcp self (RawNext []))
             | (self, None) \<Rightarrow> Inr (PTcp (self\<lparr>t_parsed := True\<rparr>) (RawNext (drop hdr_len raw)))))"

definition echo_parse :: "'o packet_env \<Rightarrow> bytes \<Rightarrow> 'o packet result" where
  "echo_parse env raw =
     (if length raw < 4 then Inr (PEcho \<lparr>ec_parsed = False, ec_id = env_echo_id env, ec_seq = 0\<rparr> NoNext)
      else bindE (struct_unpack ''!HH'' (take 4 raw)) (\<lambda>v.
        Inr (PEcho \<lparr>ec_parsed = True, ec_id = v ! 0, ec_seq = v ! 1\<rparr> (RawNext (drop 4 raw)))))"

text \<open>
  The IPv4 header. The second component is the part of the data that belongs to the payload, if
  the header is accepted.
\<close>

definition ipv4_header :: "'o packet_env \<Rightarrow> bytes \<Rightarrow> (ipv4 \<times> bytes option) result" where
  "ipv4_header env raw =
     (if length raw < 20 then Inr (ipv4_init (env_ip_id env), None)
      else bindE (struct_unpack ''!BBHHHBBHII'' (take 20 raw)) (\<lambda>v.
        let self = \<lparr>ip_parsed = False, ip_v = drop_bit 4 (v ! 0), ip_hl = v ! 0 AND 0x0f, ip_tos = v ! 1,
              ip_len = v ! 2, ip_ident = v ! 3, ip_flags = drop_bit 13 (v ! 4), ip_frag = v ! 4 AND 0x1fff,
              ip_ttl = v ! 5, ip_protocol = v ! 6, ip_csum = v ! 7, ip_srcip = IpInt (v ! 8),
              ip_dstip = IpInt (v ! 9)\<rparr>
        in if ip_v self \<noteq> 4 then Inr (self, None)
           else if ip_hl self < 5 then Inr (self, None)
           else if ip_len self < 20 then Inr (self, None)
           else if ip_hl self * 4 \<ge> ip_len self \<or> ip_hl self * 4 > int (length raw) then Inr (self, None)
           else bindE (IPAddr_init (ip_dstip self) False) (\<lambda>d.
             bindE (IPAddr_init (ip_srcip self) False) (\<lambda>s.
               Inr (self\<lparr>ip_dstip := IpObj d, ip_srcip := IpObj s, ip_parsed := True\<rparr>,
                    Some (slice (nat (ip_hl self * 4)) (min (nat (ip_len self)) (length raw)) raw))))))"

fun packet_parsed :: "'o packet_env \<Rightarrow> 'o packet \<Rightarrow> bool result" where
  "packet_parsed env (PEthernet h _) = Inr (e_parsed h)"
| "packet_parsed env (PVlan h _) = Inr (v_parsed h)"
| "packet_parsed env (PIpv4 h _) = Inr (ip_parsed h)"
| "packet_parsed env (PUdp h _) = Inr (u_parsed h)"
| "packet_parsed env (PTcp h _) = Inr (t_parsed h)"
| "packet_parsed env (PIcmp h _) = (if i_parsed h then Inr True else Inl AttributeError)"
| "packet_parsed env (PEcho h _) = Inr (ec_parsed h)"
| "packet_parsed env (PUnreach h _) = (if un_parsed h then Inr True else Inl AttributeError)"
| "packet_parsed env (PArp h _) = Inr (a_parsed h)"
| "packet_parsed env (PMpls h _) = Inr (mp_parsed h)"
| "packet_parsed env (POther p) = Inr (other_parsed env p)"

lemma ipv4_header_shrinks:
  "ipv4_header env raw = Inr (h, Some body) \<Longrightarrow> length body < length raw"
  by (auto simp: ipv4_header_def Let_def slice_def split: if_splits)

text \<open>IPv4 and ICMP: an unreachable message carries the start of the packet it is about.\<close>

function ipv4_parse :: "'o packet_env \<Rightarrow> bytes \<Rightarrow> 'o packet result"
  and icmp_parse :: "'o packet_env \<Rightarrow> bytes \<Rightarrow> 'o packet result"
  and unreach_parse :: "'o packet_env \<Rightarrow> bytes \<Rightarrow> 'o packet result" where
  "ipv4_parse env raw =
     bindE (ipv4_header env raw) (\<lambda>hb.
       case hb of
         (self, None) \<Rightarrow> Inr (PIpv4 self (RawNext []))
       | (self, Some body) \<Rightarrow>
           bindE (if ip_protocol self = 17 then bindE (udp_parse env True body) (\<lambda>p. Inr (PktNext p))
                  else if ip_protocol self = 6 then bindE (tcp_parse True body) (\<lambda>p. Inr (PktNext p))
                  else if ip_protocol self = 1 then bindE (icmp_parse env body) (\<lambda>p. Inr (PktNext p))
                  else if int (length raw) < ip_len self then Inr (RawNext [])
                  else Inr (RawNext body)) (\<lambda>nxt.
           case nxt of
             PktNext p \<Rightarrow> bindE (packet_parsed env p) (\<lambda>ok. Inr (PIpv4 self (if ok then nxt else RawNext body)))
           | _ \<Rightarrow> Inr (PIpv4 self nxt)))"
| "icmp_parse env raw =
     (if length raw < 4 then Inr (PIcmp icmp_init UndefNext)
      else bindE (struct_unpack ''!BBH'' (take 4 raw)) (\<lambda>v.
        bindE (if v ! 0 = 8 \<or> v ! 0 = 0 then bindE (echo_parse env (drop 4 raw)) (\<lambda>p. Inr (PktNext p))
               else if v ! 0 = 3 then bindE (unreach_parse env (drop 4 raw)) (\<lambda>p. Inr (PktNext p))
               else Inr (RawNext (drop 4 raw))) (\<lambda>nxt.
          Inr (PIcmp \<lparr>i_parsed = True, i_type = v ! 0, i_code = v ! 1, i_csum = v ! 2\<rparr> nxt))))"
| "unreach_parse env raw =
     (if length raw < 4 then Inr (PUnreach unreach_init UndefNext)
      else bindE (struct_unpack ''!HH'' (take 4 raw)) (\<lambda>v.
        bindE (if length raw \<ge> 28 then bindE (ipv4_parse env (drop 4 raw)) (\<lambda>p. Inr (PktNext p))
               else Inr (RawNext (drop 4 raw))) (\<lambda>nxt.
          Inr (PUnreach \<lparr>un_parsed = True, un_unused = v ! 0, un_next_mtu = v ! 1\<rparr> nxt))))"
  by pat_completeness auto
termination
  by (relation "measure (\<lambda>x. case x of Inl (env, raw) \<Rightarrow> length raw | Inr (Inl (env, raw)) \<Rightarrow> length raw
                                     | Inr (Inr (env, raw)) \<Rightarrow> length raw)")
    (auto dest: ipv4_header_shrinks)

declare ipv4_parse.simps [simp del] icmp_parse.simps [simp del] unreach_parse.simps [simp del]

text \<open>\<^verbatim>\<open>ethernet.type_parsers\<close>; a type without a parser gives nothing. VLAN tags do not nest.\<close>

definition parse_typed :: "'o packet_env \<Rightarrow> int \<Rightarrow> bytes \<Rightarrow> 'o packet option result" where
  "parse_typed env t raw =
     (let some = (\<lambda>r. bindE r (\<lambda>p. Inr (Some p))) in
      if t = 0x0806 \<or> t = 0x8035 then some (arp_parse raw)
      else if t = 0x0800 then some (ipv4_parse env raw)
      else if t = 0x88cc then some (other_packet env C_lldp raw)
      else if t = 0x888e then some (other_packet env C_eapol raw)
      else if t = 0x8847 \<or> t = 0x8848 then some (mpls_parse raw)
      else Inr None)"

text \<open>The bytes after a tag are dropped when the inner type has no parser.\<close>

definition vlan_parse :: "'o packet_env \<Rightarrow> bytes \<Rightarrow> 'o packet result" where
  "vlan_parse env raw =
     (if length raw < 4 then Inr (PVlan vlan_init NoNext)
      else bindE (struct_unpack ''!HH'' (take 4 raw)) (\<lambda>v.
        let self = vlan_init\<lparr>v_pcp := drop_bit 13 (v ! 0), v_c := Some (v ! 0 AND 0x1000),
              v_id := v ! 0 AND 0x0fff, v_eth_type := v ! 1, v_parsed := True\<rparr>
        in if v_eth_type self = 0x8100 then Inl AssertionError
           else bindE (parse_typed env (v_eth_type self) (drop 4 raw)) (\<lambda>p.
             Inr (PVlan self (case p of None \<Rightarrow> NoNext | Some p \<Rightarrow> PktNext p)))))"

definition ethernet_parse :: "'o packet_env \<Rightarrow> bytes \<Rightarrow> 'o packet result" where
  "ethernet_parse env raw =
     (if length raw < 14 then Inr (PEthernet ethernet_init (RawNext []))
      else bindE (EthAddr_init (EaStr (take 6 raw))) (\<lambda>d.
        bindE (EthAddr_init (EaStr (slice 6 12 raw))) (\<lambda>s.
        bindE (struct_unpack ''!H'' (slice 12 14 raw)) (\<lambda>v.
        bindE (if v ! 0 = 0x8100 then bindE (vlan_parse env (drop 14 raw)) (\<lambda>p. Inr (Some p))
               else parse_typed env (v ! 0) (drop 14 raw)) (\<lambda>p.
          Inr (PEthernet \<lparr>e_parsed = True, e_dst = HwEth d, e_src = HwEth s, e_type = v ! 0\<rparr>
                 (case p of None \<Rightarrow> RawNext (drop 14 raw) | Some p \<Rightarrow> PktNext p)))))))"

subsection \<open>Packing\<close>

definition s6 :: "bytes \<Rightarrow> bytes" where
  "s6 b = take 6 (ljust 6 b)"

text \<open>\<^verbatim>\<open>addr.toUnsigned()\<close>; an integer has no such method.\<close>

definition ip_unsigned :: "ip_arg \<Rightarrow> int result" where
  "ip_unsigned a = (case a of IpObj i \<Rightarrow> Inr (toUnsigned i False) | _ \<Rightarrow> Inl AttributeError)"

definition ethernet_hdr :: "ethernet \<Rightarrow> bytes result" where
  "ethernet_hdr self =
     bindE (struct_pack ''!H'' [e_type self]) (\<lambda>t. Inr (s6 (hw_raw (e_dst self)) @ s6 (hw_raw (e_src self)) @ t))"

definition vlan_hdr :: "vlan \<Rightarrow> bytes result" where
  "vlan_hdr self =
     (case v_c self of None \<Rightarrow> Inl AttributeError
      | Some c \<Rightarrow> struct_pack ''!HH'' [push_bit 13 (v_pcp self) OR push_bit 12 c OR v_id self, v_eth_type self])"

definition mpls_hdr :: "mpls \<Rightarrow> bytes result" where
  "mpls_hdr self =
     (let label = mp_label self AND 0xfffff; tc = mp_tc self AND 7; s = mp_s self AND 1; ttl = mp_ttl self AND 0xff
      in struct_pack ''!HBB'' [drop_bit 4 label, (push_bit 4 (label AND 0xf) OR push_bit 1 tc) OR s, ttl])"

definition arp_addr :: "ip_arg \<Rightarrow> bytes result" where
  "arp_addr a = (case a of IpObj i \<Rightarrow> struct_pack ''!I'' [toUnsigned i False]
     | IpInt n \<Rightarrow> struct_pack ''!I'' [n] | _ \<Rightarrow> Inl StructError)"

definition arp_hdr :: "arp \<Rightarrow> bytes result" where
  "arp_hdr self = concatE [
     struct_pack ''!HHBBH'' [a_hwtype self, a_prototype self, a_hwlen self, a_protolen self, a_opcode self],
     Inr (hw_raw (a_hwsrc self)), arp_addr (a_protosrc self),
     Inr (hw_raw (a_hwdst self)), arp_addr (a_protodst self)]"

definition echo_hdr :: "echo \<Rightarrow> bytes result" where
  "echo_hdr self = struct_pack ''!HH'' [ec_id self, ec_seq self]"

definition unreach_hdr :: "unreach \<Rightarrow> bytes result" where
  "unreach_hdr self = struct_pack ''!HH'' [un_unused self, un_next_mtu self]"

definition icmp_hdr :: "icmp \<Rightarrow> bytes \<Rightarrow> (bytes \<times> icmp) result" where
  "icmp_hdr self payload =
     bindE (struct_pack ''!BBH'' [i_type self, i_code self, 0]) (\<lambda>h.
       let self = self\<lparr>i_csum := checksum (h @ payload) 0 None\<rparr>
       in bindE (struct_pack ''!BBH'' [i_type self, i_code self, i_csum self]) (\<lambda>b. Inr (b, self)))"

definition ipv4_fields :: "ipv4 \<Rightarrow> int \<Rightarrow> bytes result" where
  "ipv4_fields self csum =
     bindE (ip_unsigned (ip_srcip self)) (\<lambda>s. bindE (ip_unsigned (ip_dstip self)) (\<lambda>d.
       struct_pack ''!BBHHHBBHII'' [push_bit 4 (ip_v self) + ip_hl self, ip_tos self, ip_len self, ip_ident self,
         push_bit 13 (ip_flags self) OR ip_frag self, ip_ttl self, ip_protocol self, csum, s, d]))"

definition ipv4_checksum :: "ipv4 \<Rightarrow> int result" where
  "ipv4_checksum self = bindE (ipv4_fields self 0) (\<lambda>data. Inr (checksum data 0 None))"

definition ipv4_hdr :: "ipv4 \<Rightarrow> bytes \<Rightarrow> (bytes \<times> ipv4) result" where
  "ipv4_hdr self payload =
     (let self = self\<lparr>ip_len := ip_hl self * 4 + int (length payload)\<rparr>
      in bindE (ipv4_checksum self) (\<lambda>c.
           let self = self\<lparr>ip_csum := c\<rparr>
           in bindE (ipv4_fields self (ip_csum self)) (\<lambda>b. Inr (b, self))))"

text \<open>The pseudo header, over the addresses and the protocol of the containing IP header.\<close>

definition pseudo_header :: "ipv4 \<Rightarrow> int \<Rightarrow> bytes result" where
  "pseudo_header ip payload_len =
     bindE (ip_unsigned (ip_srcip ip)) (\<lambda>s. bindE (ip_unsigned (ip_dstip ip)) (\<lambda>d.
       struct_pack ''!IIBBH'' [s, d, 0, ip_protocol ip, payload_len]))"

definition udp_checksum :: "ipv4 option \<Rightarrow> udp \<Rightarrow> bytes \<Rightarrow> int result" where
  "udp_checksum ip self payload =
     (case (if u_in_ip self then ip else None) of None \<Rightarrow> Inr 0
      | Some ip \<Rightarrow>
          let n = 8 + int (length payload) in
          bindE (pseudo_header ip n) (\<lambda>ippacket.
          bindE (struct_pack ''!HHHH'' [u_srcport self, u_dstport self, n, 0]) (\<lambda>myhdr.
            let r = checksum (ippacket @ myhdr @ payload) 0 (Some 9)
            in Inr (if r = 0 then 0xffff else r))))"

definition udp_hdr :: "ipv4 option \<Rightarrow> udp \<Rightarrow> bytes \<Rightarrow> (bytes \<times> udp) result" where
  "udp_hdr ip self payload =
     (let self = self\<lparr>u_len := int (length payload) + 8\<rparr>
      in bindE (udp_checksum ip self payload) (\<lambda>c.
           let self = self\<lparr>u_csum := c\<rparr>
           in bindE (struct_pack ''!HHHH'' [u_srcport self, u_dstport self, u_len self, u_csum self])
                (\<lambda>b. Inr (b, self))))"

definition tcp_fields :: "tcp \<Rightarrow> int \<Rightarrow> bytes result" where
  "tcp_fields self csum =
     bindE (struct_pack ''!HHIIBBHHH'' [t_srcport self, t_dstport self, t_seq self, t_ack self,
         push_bit 4 (t_off self) OR t_res self, t_flags self, t_win self, csum, t_urg self]) (\<lambda>b.
     bindE (concatE (map to_bytes (t_options self))) (\<lambda>os. Inr (b @ os)))"

definition tcp_checksum :: "ipv4 option \<Rightarrow> tcp \<Rightarrow> bytes \<Rightarrow> int result" where
  "tcp_checksum ip self payload =
     (case (if t_in_ip self then ip else None) of None \<Rightarrow> Inr 0
      | Some ip \<Rightarrow>
          bindE (tcp_fields self 0) (\<lambda>h.
          bindE (pseudo_header ip (int (length (h @ payload)))) (\<lambda>ippacket.
            Inr (checksum (ippacket @ h @ payload) 0 (Some 14)))))"

definition tcp_hdr :: "ipv4 option \<Rightarrow> tcp \<Rightarrow> bytes \<Rightarrow> (bytes \<times> tcp) result" where
  "tcp_hdr ip self payload =
     bindE (tcp_checksum ip self payload) (\<lambda>c.
       let self = self\<lparr>t_csum := c\<rparr>
       in bindE (tcp_fields self (t_csum self)) (\<lambda>b. Inr (b, self)))"

text \<open>
  \<^verbatim>\<open>packet_base.pack\<close>: the payload first, then the header over it. The second argument is the IP header
  that contains the packet, if there is one.
\<close>

primrec packet_pack :: "'o packet_env \<Rightarrow> ipv4 option \<Rightarrow> 'o packet \<Rightarrow> (bytes \<times> 'o packet) result"
  and payload_pack :: "'o packet_env \<Rightarrow> ipv4 option \<Rightarrow> 'o payload \<Rightarrow> (bytes \<times> 'o payload) result" where
  "packet_pack env ip (PEthernet h n) =
     bindE (payload_pack env None n) (\<lambda>(rest, n). bindE (ethernet_hdr h) (\<lambda>b. Inr (b @ rest, PEthernet h n)))"
| "packet_pack env ip (PVlan h n) =
     bindE (payload_pack env None n) (\<lambda>(rest, n). bindE (vlan_hdr h) (\<lambda>b. Inr (b @ rest, PVlan h n)))"
| "packet_pack env ip (PIpv4 h n) =
     bindE (payload_pack env (Some h) n) (\<lambda>(rest, n). bindE (ipv4_hdr h rest) (\<lambda>(b, h). Inr (b @ rest, PIpv4 h n)))"
| "packet_pack env ip (PUdp h n) =
     bindE (payload_pack env None n) (\<lambda>(rest, n). bindE (udp_hdr ip h rest) (\<lambda>(b, h). Inr (b @ rest, PUdp h n)))"
| "packet_pack env ip (PTcp h n) =
     bindE (payload_pack env None n) (\<lambda>(rest, n). bindE (tcp_hdr ip h rest) (\<lambda>(b, h). Inr (b @ rest, PTcp h n)))"
| "packet_pack env ip (PIcmp h n) =
     bindE (payload_pack env None n) (\<lambda>(rest, n). bindE (icmp_hdr h rest) (\<lambda>(b, h). Inr (b @ rest, PIcmp h n)))"
| "packet_pack env ip (PEcho h n) =
     bindE (payload_pack env None n) (\<lambda>(rest, n). bindE (echo_hdr h) (\<lambda>b. Inr (b @ rest, PEcho h n)))"
| "packet_pack env ip (PUnreach h n) =
     bindE (payload_pack env None n) (\<lambda>(rest, n). bindE (unreach_hdr h) (\<lambda>b. Inr (b @ rest, PUnreach h n)))"
| "packet_pack env ip (PArp h n) =
     bindE (payload_pack env None n) (\<lambda>(rest, n). bindE (arp_hdr h) (\<lambda>b. Inr (b @ rest, PArp h n)))"
| "packet_pack env ip (PMpls h n) =
     bindE (payload_pack env None n) (\<lambda>(rest, n). bindE (mpls_hdr h) (\<lambda>b. Inr (b @ rest, PMpls h n)))"
| "packet_pack env ip (POther p) = bindE (other_pack env p) (\<lambda>(b, p). Inr (b, POther p))"
| "payload_pack env ip NoNext = Inr ([], NoNext)"
| "payload_pack env ip UndefNext = Inl AttributeError"
| "payload_pack env ip (RawNext b) = Inr (b, RawNext b)"
| "payload_pack env ip (PktNext p) = bindE (packet_pack env ip p) (\<lambda>(b, p). Inr (b, PktNext p))"

subsection \<open>The checksum is the Internet checksum\<close>

text \<open>The sum of the big-endian words, an odd last byte padded with zero.\<close>

fun be_sum :: "bytes \<Rightarrow> int" where
  "be_sum (a # b # s) = 256 * of_char a + of_char b + be_sum s"
| "be_sum [a] = 256 * of_char a"
| "be_sum [] = 0"

definition le_sum :: "bytes \<Rightarrow> int" where
  "le_sum data = sum_list (le_words data) + (if length data mod 2 \<noteq> 0 then of_char (last data) else 0)"

lemma le_sum_simps [simp]:
  "le_sum [] = 0" "le_sum [a] = of_char a"
  "le_sum (a # b # s) = of_char a + 256 * of_char b + le_sum s"
  by (cases s; auto simp: le_sum_def)+

lemma le_sum_range: "0 \<le> le_sum s \<and> 2 * le_sum s \<le> 65535 * (int (length s) + 1)"
proof (induction s rule: be_sum.induct)
  case (1 a b s)
  then show ?case using of_char_range [of a] of_char_range [of b] by simp
next
  case (2 a)
  then show ?case using of_char_range [of a] by simp
qed simp

lemma be_sum_le_sum: "(be_sum s - 256 * le_sum s) mod 65535 = 0"
proof (induction s rule: be_sum.induct)
  case (1 a b s)
  have "be_sum (a # b # s) - 256 * le_sum (a # b # s) = (be_sum s - 256 * le_sum s) + 65535 * (- of_char b)"
    by simp
  then show ?case using 1 by (simp only: mod_mult_self2)
qed simp_all

text \<open>Folding the carries twice is enough below \<open>2 ^ 32\<close>, and keeps the value modulo \<open>2 ^ 16 - 1\<close>.\<close>

definition fold16 :: "int \<Rightarrow> int" where
  "fold16 n = (let m = drop_bit 16 n + (n AND 0xffff) in (m + drop_bit 16 m) AND 0xffff)"

lemma and_ffff: "(n::int) AND 0xffff = n mod 2 ^ 16"
proof -
  have "(0xffff::int) = mask 16" by (simp add: mask_eq_exp_minus_1)
  then show ?thesis by (metis take_bit_eq_mask take_bit_eq_mod)
qed

lemma wrap16:
  assumes "65536 \<le> m" "m \<le> 131070"
  shows "(m + 1) mod 65536 = (m::int) - 65535"
proof -
  have "(m + 1) mod 65536 = (m - 65535 + 65536) mod 65536" by (rule arg_cong [where f = "\<lambda>x. x mod 65536"]) simp
  also have "\<dots> = (m - 65535) mod 65536" by (rule mod_add_self2)
  also have "\<dots> = m - 65535" using assms by (intro mod_pos_pos_trivial) auto
  finally show ?thesis .
qed

lemma fold16_mod:
  assumes "0 \<le> n" "n < 2 ^ 32"
  shows "(n - fold16 n) mod 65535 = 0" "0 \<le> fold16 n" "fold16 n < 65536" "0 < n \<Longrightarrow> 0 < fold16 n"
proof -
  define h l where "h = n div 65536" and "l = n mod 65536"
  have n: "n = 65536 * h + l" "0 \<le> l" "l < 65536" "0 \<le> h" "h < 65536"
    using assms by (auto simp: h_def l_def)
  define m where "m = h + l"
  have f: "fold16 n = (m + m div 65536) mod 65536"
    by (simp add: fold16_def drop_bit_eq_div and_ffff h_def l_def m_def Let_def)
  have m: "m \<le> 131070" "0 \<le> m" using n by (auto simp: m_def)
  show "0 \<le> fold16 n" "fold16 n < 65536" by (simp_all add: f)
  have nm: "n = 65535 * h + m" using n by (simp add: m_def)
  show "(n - fold16 n) mod 65535 = 0"
  proof (cases "m < 65536")
    case True
    then have "fold16 n = m" using m by (simp add: f)
    then show ?thesis by (simp add: nm)
  next
    case False
    then have "m div 65536 = 1" using m by simp
    moreover have "(m + 1) mod 65536 = m - 65535" using wrap16 [of m] m False by simp
    ultimately have "fold16 n = m - 65535" by (simp add: f)
    then have "n - fold16 n = 65535 * (h + 1)" by (simp add: nm)
    then show ?thesis by simp
  qed
  assume "0 < n"
  show "0 < fold16 n"
  proof (cases "m < 65536")
    case True
    then have "fold16 n = m" using m by (simp add: f)
    moreover have "m \<noteq> 0" using \<open>0 < n\<close> n by (auto simp: m_def)
    ultimately show ?thesis using m by simp
  next
    case False
    then have "m div 65536 = 1" using m by simp
    moreover have "(m + 1) mod 65536 = m - 65535" using wrap16 [of m] m False by simp
    ultimately show ?thesis using False by (simp add: f)
  qed
qed

lemma checksum_fold16: "checksum data 0 None = ntohs (65535 - fold16 (le_sum data))"
proof -
  have "NOT x AND 0xffff = 65535 - (x AND 0xffff)" for x :: int
  proof -
    have "(- x - 1) mod 65536 = (65535 - x mod 65536 + 65536 * (- (x div 65536) - 1)) mod 65536"
      by (rule arg_cong [where f = "\<lambda>y. y mod 65536"]) (simp add: minus_mod_eq_mult_div [symmetric] algebra_simps)
    also have "\<dots> = (65535 - x mod 65536) mod 65536" by (rule mod_mult_self2)
    also have "\<dots> = 65535 - x mod 65536" by (rule mod_pos_pos_trivial) auto
    finally show ?thesis unfolding and_ffff by (simp add: not_int_def)
  qed
  then show ?thesis
    by (simp add: checksum_def fold16_def le_sum_def skip_sum_def Let_def)
qed

lemma ntohs_mod: "(256 * c - ntohs c) mod 65535 = 0"
proof -
  define q r where "q = c div 256" and "r = c mod 256"
  then have "c = 256 * q + r" by simp
  then have "256 * c - ntohs c = 65535 * q"
    unfolding ntohs_def q_def [symmetric] r_def [symmetric] by simp
  then show ?thesis by simp
qed

lemma le_sum_bound: "length s < 131072 \<Longrightarrow> le_sum s < 2 ^ 32"
  using le_sum_range [of s] by simp

text \<open>Adding the checksum to the words gives zero, in one's complement arithmetic.\<close>

lemma checksum_complements:
  assumes "length data < 131072"
  shows "(be_sum data + checksum data 0 None) mod 65535 = 0"
proof -
  let ?S = "le_sum data" and ?f = "fold16 (le_sum data)"
  have S: "0 \<le> ?S" "?S < 2 ^ 32" using le_sum_range [of data] le_sum_bound [OF assms] by auto
  obtain a b c where "be_sum data - 256 * ?S = 65535 * a" "?S - ?f = 65535 * b"
    "256 * (65535 - ?f) - ntohs (65535 - ?f) = 65535 * c"
    using be_sum_le_sum [of data] fold16_mod(1) [OF S] ntohs_mod [of "65535 - ?f"]
    by (meson dvdE mod_0_imp_dvd)
  then have "be_sum data + ntohs (65535 - ?f) = 65535 * (a + 256 * b + 256 - c)" by simp
  then show ?thesis by (simp add: checksum_fold16)
qed

text \<open>Conversely, data whose words sum to zero has checksum zero.\<close>

lemma checksum_zero:
  assumes "length data < 131072" "be_sum data mod 65535 = 0" "0 < le_sum data"
  shows "checksum data 0 None = 0"
proof -
  let ?S = "le_sum data" and ?f = "fold16 (le_sum data)"
  have S: "0 \<le> ?S" "?S < 2 ^ 32" using le_sum_range [of data] le_sum_bound [OF assms(1)] by auto
  obtain a b d where abd: "be_sum data - 256 * ?S = 65535 * a" "?S - ?f = 65535 * b" "be_sum data = 65535 * d"
    using be_sum_le_sum [of data] fold16_mod(1) [OF S] assms(2) by (meson dvdE mod_0_imp_dvd)
  then have "?f = 65535 * (256 * (d - a) - ?S - b)" by simp
  then obtain k where k: "?f = 65535 * k" by blast
  have "0 < ?f" "?f < 65536" using fold16_mod(3,4) [OF S] assms(3) by auto
  then have "k = 1" using k by simp
  then show ?thesis using k by (simp add: checksum_fold16 ntohs_def)
qed

lemma be_sum_append: "length s mod 2 = 0 \<Longrightarrow> be_sum (s @ t) = be_sum s + be_sum t"
  by (induction s rule: be_sum.induct) auto

lemma be_sum_word: "0 \<le> v \<Longrightarrow> v < 65536 \<Longrightarrow> be_sum (be_bytes 2 v) = v"
  by (simp add: numeral_2_eq_2)

lemma ntohs_range: "0 \<le> v \<Longrightarrow> v < 65536 \<Longrightarrow> 0 \<le> ntohs v \<and> ntohs v < 65536"
  by (simp add: ntohs_def)

lemma checksum_range:
  assumes "length data < 131072"
  shows "0 \<le> checksum data 0 None \<and> checksum data 0 None < 65536"
proof -
  have S: "0 \<le> le_sum data" "le_sum data < 2 ^ 32" using le_sum_range [of data] le_sum_bound [OF assms] by auto
  have "fold16 (le_sum data) \<le> 65535" using fold16_mod(3) [OF S] by simp
  then show ?thesis using fold16_mod(2) [OF S] by (simp add: checksum_fold16 ntohs_range)
qed

text \<open>Putting the checksum into the zero field of a header makes the header check.\<close>

lemma checksum_insert:
  assumes "length a mod 2 = 0" "length (a @ PAD 2 @ t) < 131072" "0 < le_sum (a @ PAD 2 @ t)"
  shows "checksum (a @ be_bytes 2 (checksum (a @ PAD 2 @ t) 0 None) @ t) 0 None = 0"
proof (rule checksum_zero)
  let ?c = "checksum (a @ PAD 2 @ t) 0 None"
  have c: "be_sum (be_bytes 2 ?c) = ?c" using checksum_range [OF assms(2)] by (intro be_sum_word) auto
  have z: "be_sum (PAD 2 @ t) = be_sum t" by (simp add: PAD_def numeral_2_eq_2)
  have "be_sum (a @ be_bytes 2 ?c @ t) = be_sum (a @ PAD 2 @ t) + ?c"
    using assms(1) c z by (simp add: be_sum_append)
  then show "be_sum (a @ be_bytes 2 ?c @ t) mod 65535 = 0"
    using checksum_complements [OF assms(2)] by simp
  show "length (a @ be_bytes 2 ?c @ t) < 131072" using assms(2) by simp
  have mono: "le_sum (x @ y) = le_sum x + le_sum y" if "length x mod 2 = 0" for x y
    using that by (induction x rule: be_sum.induct) auto
  have "le_sum (a @ PAD 2 @ t) = le_sum a + le_sum t"
    using mono [OF assms(1)] mono [of "PAD 2" t] by (simp add: PAD_def numeral_2_eq_2)
  then show "0 < le_sum (a @ be_bytes 2 ?c @ t)"
    using assms(3) mono [OF assms(1)] mono [of "be_bytes 2 ?c" t] le_sum_range [of "be_bytes 2 ?c"] by simp
qed

lemma of_char_char_of: "0 \<le> n \<Longrightarrow> n < 256 \<Longrightarrow> of_char (char_of n) = (n::int)"
  by (simp add: of_char_of)

lemma le_sum_pos:
  assumes "c \<in> set s" "(of_char c :: int) \<noteq> 0"
  shows "0 < le_sum s"
  using assms
proof (induction s rule: be_sum.induct)
  case (1 a b s)
  then show ?case using of_char_range [of a] of_char_range [of b] of_char_range [of c] le_sum_range [of s]
    by (auto simp: add_pos_nonneg add_nonneg_pos)
next
  case (2 a)
  then show ?case using of_char_range [of a] by auto
qed simp

subsection \<open>Headers that check\<close>

lemma struct_pack_H: "0 \<le> v \<Longrightarrow> v < 65536 \<Longrightarrow> struct_pack ''!H'' [v] = Inr (be_bytes 2 v)"
  by (simp add: struct_pack.simps code_min_def code_max_def code_signed_def)

lemma be_bytes_zero: "be_bytes 2 0 = PAD 2"
  by (simp add: PAD_def numeral_2_eq_2 char_of_def)

text \<open>A header with its checksum in a 16-bit field after an even number of bytes.\<close>

lemma header_checks:
  assumes z: "struct_pack (f @ ''H'' @ g) (vs @ [0] @ ws) = Inr h0"
    and c: "c = checksum (h0 @ payload) 0 None" "struct_pack (f @ ''H'' @ g) (vs @ [c] @ ws) = Inr h"
    and f: "length vs = struct_arity f" "struct_calcsize f mod 2 = 0"
    and l: "length (h0 @ payload) < 131072" "0 < le_sum (h0 @ payload)"
  shows "checksum (h @ payload) 0 None = 0"
proof -
  have split: "struct_pack (f @ ''H'' @ g) (vs @ [v] @ ws) = Inr x \<Longrightarrow>
      \<exists>a b. struct_pack f vs = Inr a \<and> struct_pack g ws = Inr b \<and> x = a @ be_bytes 2 v @ b \<and> 0 \<le> v \<and> v < 65536" for v x
    unfolding struct_pack_append [OF f(1)]
    using struct_pack_append [of "[v]" "''H''" g ws]
    by (auto simp: struct_pack.simps code_min_def code_max_def code_signed_def split: if_splits)
  obtain a b where a: "struct_pack f vs = Inr a" "struct_pack g ws = Inr b" and h0: "h0 = a @ PAD 2 @ b"
    using split [OF z] be_bytes_zero by auto
  moreover have h: "h = a @ be_bytes 2 c @ b" using split [OF c(2)] a by auto
  have "length a mod 2 = 0" using struct_pack_length [OF a(1)] f(2) by simp
  then have "checksum (a @ be_bytes 2 (checksum (a @ PAD 2 @ b @ payload) 0 None) @ b @ payload) 0 None = 0"
    using l by (intro checksum_insert) (simp_all add: h0)
  then show ?thesis by (simp add: h h0 c(1))
qed

lemma ipv4_hdr_checks:
  assumes "ipv4_hdr self payload = Inr (b, self')" "ip_v self \<noteq> 0 \<or> ip_hl self \<noteq> 0"
    "0 \<le> ip_v self" "0 \<le> ip_hl self"
  shows "length b = 20" "ip_len self' = ip_hl self * 4 + int (length payload)" "checksum b 0 None = 0"
proof -
  define s1 where "s1 = self\<lparr>ip_len := ip_hl self * 4 + int (length payload)\<rparr>"
  obtain c where c: "ipv4_checksum s1 = Inr c" and self': "self' = s1\<lparr>ip_csum := c\<rparr>"
    and b: "ipv4_fields self' c = Inr b"
    using assms(1) by (auto simp: ipv4_hdr_def Let_def s1_def)
  obtain h0 where h0: "ipv4_fields s1 0 = Inr h0" and ch: "c = checksum h0 0 None"
    using c by (auto simp: ipv4_checksum_def)
  obtain s d where sd: "ip_unsigned (ip_srcip s1) = Inr s" "ip_unsigned (ip_dstip s1) = Inr d"
    using h0 by (auto simp: ipv4_fields_def)
  let ?vs = "[push_bit 4 (ip_v s1) + ip_hl s1, ip_tos s1, ip_len s1, ip_ident s1,
    push_bit 13 (ip_flags s1) OR ip_frag s1, ip_ttl s1, ip_protocol s1]"
  have z: "struct_pack (''!BBHHHBB'' @ ''H'' @ ''II'') (?vs @ [0] @ [s, d]) = Inr h0"
    using h0 by (simp add: ipv4_fields_def sd)
  have bb: "struct_pack (''!BBHHHBB'' @ ''H'' @ ''II'') (?vs @ [c] @ [s, d]) = Inr b"
    using b by (simp add: ipv4_fields_def sd self')
  show "length b = 20" using struct_pack_length [OF bb] by simp
  show "ip_len self' = ip_hl self * 4 + int (length payload)" by (simp add: self' s1_def)
  have len0: "length h0 = 20" using struct_pack_length [OF z] by simp
  have "0 < push_bit 4 (ip_v self) + ip_hl self"
    using assms(2-4) by (simp add: push_bit_eq_mult) linarith
  moreover have "push_bit 4 (ip_v self) + ip_hl self < 256" "\<exists>t. h0 = char_of (push_bit 4 (ip_v self) + ip_hl self) # t"
    using z by (auto simp: s1_def struct_pack.simps code_min_def code_max_def code_signed_def split: if_splits)
  ultimately have "0 < le_sum h0"
    using le_sum_pos [of "char_of (push_bit 4 (ip_v self) + ip_hl self)" h0]
      of_char_char_of [of "push_bit 4 (ip_v self) + ip_hl self"] by auto
  then show "checksum b 0 None = 0"
    using header_checks [OF z _ bb, of "[]"] ch len0 by simp
qed

subsection \<open>Parsing and packing\<close>

lemma icmp_hdr_checks:
  assumes "icmp_hdr self payload = Inr (b, self')" "length payload < 131068"
    "i_type self \<noteq> 0 \<or> i_code self \<noteq> 0"
  shows "length b = 4" "checksum (b @ payload) 0 None = 0"
proof -
  obtain h c where h: "struct_pack (''!BB'' @ ''H'' @ '''') ([i_type self, i_code self] @ [0] @ []) = Inr h"
    and c: "c = checksum (h @ payload) 0 None"
    and b: "struct_pack (''!BB'' @ ''H'' @ '''') ([i_type self, i_code self] @ [c] @ []) = Inr b"
    using assms(1) by (auto simp: icmp_hdr_def Let_def)
  show "length b = 4" using struct_pack_length [OF b] by simp
  have len: "length h = 4" using struct_pack_length [OF h] by simp
  have r: "0 \<le> i_type self" "i_type self < 256" "0 \<le> i_code self" "i_code self < 256"
    "\<exists>t. h = char_of (i_type self) # char_of (i_code self) # t"
    using h by (auto simp: struct_pack.simps code_min_def code_max_def code_signed_def split: if_splits)
  have "\<exists>x \<in> {char_of (i_type self), char_of (i_code self)}. (of_char x :: int) \<noteq> 0"
    using assms(3) r of_char_char_of by auto
  then have "0 < le_sum (h @ payload)" using le_sum_pos [of _ "h @ payload"] r(5) by fastforce
  then show "checksum (b @ payload) 0 None = 0"
    using header_checks [OF h c b] assms(2) len by simp
qed

text \<open>MPLS: the label is split over two fields and put together again.\<close>

definition mpls_wf :: "mpls \<Rightarrow> bool" where
  "mpls_wf m \<longleftrightarrow> 0 \<le> mp_label m \<and> mp_label m < 2 ^ 20 \<and> 0 \<le> mp_tc m \<and> mp_tc m < 8 \<and>
     0 \<le> mp_s m \<and> mp_s m < 2 \<and> 0 \<le> mp_ttl m \<and> mp_ttl m < 256"

lemma bit_below: "0 \<le> (k::int) \<Longrightarrow> k < 2 ^ n \<Longrightarrow> bit k j \<Longrightarrow> j < n"
  by (metis bit_take_bit_iff take_bit_int_eq_self)

lemma and_mask_id: "0 \<le> (k::int) \<Longrightarrow> k < 2 ^ n \<Longrightarrow> k AND mask n = k"
  by (simp add: take_bit_eq_mask [symmetric] take_bit_int_eq_self)

lemma mpls_unpack_pack:
  assumes "mpls_wf m"
  shows "\<exists>b. mpls_hdr m = Inr b \<and> length b = 4 \<and>
    mpls_parse (b @ payload) = Inr (PMpls (m\<lparr>mp_parsed := True\<rparr>) (RawNext payload))"
proof -
  let ?l = "mp_label m" and ?t = "mp_tc m" and ?s = "mp_s m"
  have l: "0 \<le> ?l" "?l < 2 ^ 20" and t: "0 \<le> ?t" "?t < 2 ^ 3" and s: "0 \<le> ?s" "?s < 2 ^ 1"
    and q: "0 \<le> mp_ttl m" "mp_ttl m < 2 ^ 8"
    using assms by (auto simp: mpls_wf_def)
  define hi lo where "hi = drop_bit 4 ?l" and "lo = (push_bit 4 (?l AND mask 4) OR push_bit 1 ?t) OR ?s"
  have bl: "bit lo i \<longleftrightarrow> (4 \<le> i \<and> i < 8 \<and> bit ?l (i - 4)) \<or> (1 \<le> i \<and> i < 4 \<and> bit ?t (i - 1)) \<or> (i = 0 \<and> bit ?s 0)" for i
    using bit_below [OF t, of "i - 1"] bit_below [OF s, of i]
    unfolding lo_def bit_or_iff bit_and_iff bit_push_bit_iff_int bit_mask_iff by auto
  have lo_take: "take_bit 8 lo = lo" by (rule bit_eqI) (auto simp: bit_take_bit_iff bl)
  have lo_r: "0 \<le> lo" "lo < 256"
    using take_bit_nonnegative [of 8 lo] take_bit_int_less_exp [of 8 lo] unfolding lo_take by simp_all
  have hi_r: "0 \<le> hi" "hi < 65536" using l by (auto simp: hi_def drop_bit_eq_div)
  have masks: "(0xfffff::int) = mask 20" "(7::int) = mask 3" "(1::int) = mask 1" "(0xff::int) = mask 8" "(0xf::int) = mask 4"
    by (simp_all add: mask_eq_exp_minus_1)
  have hdr: "mpls_hdr m = struct_pack ''!HBB'' [hi, lo, mp_ttl m]"
    using and_mask_id [OF l] and_mask_id [OF t] and_mask_id [OF s] and_mask_id [OF q]
    by (simp add: mpls_hdr_def masks Let_def hi_def lo_def del: mask_Suc_0 One_nat_def)
  obtain b where b: "struct_pack ''!HBB'' [hi, lo, mp_ttl m] = Inr b"
    using lo_r hi_r q by (simp add: struct_pack.simps code_min_def code_max_def code_signed_def)
  have len: "length b = 4" using struct_pack_length [OF b] by simp
  have "push_bit 4 hi OR drop_bit 4 lo = ?l"
  proof (rule bit_eqI)
    fix i show "bit (push_bit 4 hi OR drop_bit 4 lo) i = bit ?l i"
      by (auto simp: hi_def bit_or_iff bit_push_bit_iff bit_drop_bit_eq bl)
  qed
  moreover have "drop_bit 1 (lo AND 0xf) = ?t"
  proof (rule bit_eqI)
    fix i show "bit (drop_bit 1 (lo AND 0xf)) i = bit ?t i"
      using bit_below [OF t, of i] unfolding masks by (auto simp: bit_and_iff bit_drop_bit_eq bl bit_mask_iff)
  qed
  moreover have "lo AND 1 = ?s"
  proof (rule bit_eqI)
    fix i show "bit (lo AND 1) i = bit ?s i"
      using bit_below [OF s, of i] by (auto simp: bit_and_iff bit_1_iff bl)
  qed
  ultimately show ?thesis
    using len by (intro exI [of _ b]) (simp add: hdr b mpls_parse_def struct_unpack_def struct_fields_pack_end [OF b])
qed

text \<open>
  VLAN: a tag that was parsed packs again to the same four bytes if its CFI bit is clear; if the bit is
  set the tag does not pack, and neither does a tag made by hand.
\<close>

lemma vlan_hdr_init: "v_c h = None \<Longrightarrow> vlan_hdr h = Inl AttributeError"
  by (simp add: vlan_hdr_def)

lemma tci_join:
  assumes "0 \<le> (w::int)" "w < 65536"
  shows "w AND 0x1000 = 0 \<Longrightarrow> push_bit 13 (drop_bit 13 w) OR push_bit 12 (w AND 0x1000) OR (w AND 0x0fff) = w"
    and "w AND 0x1000 \<noteq> 0 \<Longrightarrow> 65536 \<le> push_bit 13 (drop_bit 13 w) OR push_bit 12 (w AND 0x1000) OR (w AND 0x0fff)"
proof -
  have b: "bit (0x1000::int) i \<longleftrightarrow> i = 12" "bit (0x0fff::int) i \<longleftrightarrow> i < 12" for i
    using bit_exp_iff [of 12 i, where 'a = int] bit_mask_iff [of 12 i, where 'a = int]
    by (simp_all add: mask_eq_exp_minus_1)
  have c: "bit (w AND 0x1000) i \<longleftrightarrow> i = 12 \<and> bit w 12" for i by (auto simp: bit_and_iff b)
  {
    assume "w AND 0x1000 = 0"
    then have n: "\<not> bit w 12" using c [of 12] by auto
    show "push_bit 13 (drop_bit 13 w) OR push_bit 12 (w AND 0x1000) OR (w AND 0x0fff) = w"
    proof (rule bit_eqI)
      fix i :: nat
      have "i < 12 \<or> i = 12 \<or> 13 \<le> i" by arith
      then show "bit (push_bit 13 (drop_bit 13 w) OR push_bit 12 (w AND 0x1000) OR (w AND 0x0fff)) i = bit w i"
        using n unfolding bit_or_iff bit_push_bit_iff_int bit_drop_bit_eq c unfolding bit_and_iff b by auto
    qed
  }
  assume "w AND 0x1000 \<noteq> 0"
  then have "bit w 12" using c by (metis bit_0_eq bit_eqI bot_apply bot_bool_def)
  then have "bit (push_bit 13 (drop_bit 13 w) OR push_bit 12 (w AND 0x1000) OR (w AND 0x0fff)) 24" (is "bit ?x 24")
    unfolding bit_or_iff bit_push_bit_iff_int c by auto
  moreover have "0 \<le> ?x" using assms by simp
  ultimately show "65536 \<le> ?x"
    using bit_below [of ?x 16 24] by fastforce
qed

lemma parse_typed_error: "parse_typed env 0x8100 raw = Inr None"
  by (simp add: parse_typed_def Let_def)

lemma vlan_hdr_parse:
  assumes "vlan_parse env raw = Inr (PVlan h n)" "4 \<le> length raw"
  shows "(if v_c h = Some 0 then vlan_hdr h = Inr (take 4 raw) else vlan_hdr h = Inl StructError)"
proof -
  define w e where "w = be_value (take 2 raw)" and "e = be_value (take 2 (drop 2 raw))"
  have raw: "take 4 raw = take 2 raw @ take 2 (drop 2 raw)"
    using take_add [of 2 2 raw] by simp
  have l: "length (take 2 raw) = 2" "length (take 2 (drop 2 raw)) = 2" using assms(2) by auto
  have r: "0 \<le> w" "w < 65536" "0 \<le> e" "e < 65536"
    using be_value_bounds [of "take 2 raw"] be_value_bounds [of "take 2 (drop 2 raw)"] l by (auto simp: w_def e_def)
  have f: "struct_fields ''!HH'' (take 4 raw) = [w, e]"
    using r l by (simp add: struct_fields.simps raw code_decode_def code_max_def code_signed_def w_def e_def Let_def)
  have h: "v_c h = Some (w AND 0x1000)" "v_pcp h = drop_bit 13 w" "v_id h = w AND 0x0fff" "v_eth_type h = e"
    using assms f by (auto simp: vlan_parse_def struct_unpack_def Let_def split: if_splits)
  have b: "be_bytes 2 w = take 2 raw" "be_bytes 2 e = take 2 (drop 2 raw)"
    using be_bytes_be_value [of "take 2 raw"] be_bytes_be_value [of "take 2 (drop 2 raw)"] l by (simp_all add: w_def e_def)
  show ?thesis
  proof (cases "w AND 0x1000 = 0")
    case True
    then have "vlan_hdr h = struct_pack ''!HH'' [w, e]"
      using tci_join(1) [OF r(1,2) True] by (simp add: vlan_hdr_def h)
    then show ?thesis using True h(1) r b raw
      by (simp add: struct_pack.simps code_min_def code_max_def code_signed_def)
  next
    case False
    have "struct_pack ''!HH'' [x, e] = Inl StructError" if "65536 \<le> x" for x
      using that by (simp add: struct_pack.simps code_min_def code_max_def code_signed_def)
    then have "vlan_hdr h = Inl StructError"
      using tci_join(2) [OF r(1,2) False] by (simp only: vlan_hdr_def h option.case)
    then show ?thesis using False by (simp add: h(1))
  qed
qed

text \<open>The rest of the frame after a tag is lost when its type has no parser.\<close>

lemma vlan_drops_payload:
  assumes "4 \<le> length raw" "be_value (slice 2 4 raw) \<notin> {0x0800, 0x0806, 0x8035, 0x8100, 0x8847, 0x8848, 0x888e, 0x88cc}"
  shows "\<exists>h. vlan_parse env raw = Inr (PVlan h NoNext)"
proof -
  have l: "length (take 2 (drop 2 (take 4 raw))) = 2" using assms(1) by simp
  have "be_value (take 2 (drop 2 (take 4 raw))) < 65536"
    using be_value_bounds [of "take 2 (drop 2 (take 4 raw))"] unfolding l by simp
  moreover have "slice 2 4 raw = take 2 (drop 2 (take 4 raw))" by (simp add: slice_def take_drop)
  ultimately have "struct_fields ''!HH'' (take 4 raw) ! 1 = be_value (slice 2 4 raw)"
    by (simp add: struct_fields.simps code_decode_def code_max_def code_signed_def Let_def)
  then show ?thesis using assms
    by (simp add: vlan_parse_def struct_unpack_def parse_typed_def Let_def)
qed

text \<open>An ICMP payload too short for its header makes the parsing of the whole IP packet raise.\<close>

lemma ipv4_short_icmp:
  assumes "ipv4_header env raw = Inr (h, Some body)" "ip_protocol h = 1" "length body < 4"
  shows "ipv4_parse env raw = Inl AttributeError"
  using assms by (simp add: ipv4_parse.simps icmp_parse.simps icmp_init_def)

lemma ethernet_pack_parse:
  assumes "ethernet_parse env raw = Inr (PEthernet h n)" "14 \<le> length raw"
    "payload_pack env None n = Inr (drop 14 raw, n)"
  shows "packet_pack env ip (PEthernet h n) = Inr (raw, PEthernet h n)"
proof -
  have eth: "EthAddr_init (EaStr s) = Inr e \<Longrightarrow> length s = 6 \<Longrightarrow> eth_value e = s" for s e
    by (cases "count_list s (CHR '':'') = 5") (auto simp: EthAddr_init_five_colons EthAddr_init_raw simp del: EthAddr_init.simps)
  have l: "length (take 6 raw) = 6" "length (slice 6 12 raw) = 6" "length (slice 12 14 raw) = 2"
    using assms(2) by (auto simp: slice_def)
  have t: "struct_fields ''!H'' (slice 12 14 raw) ! 0 = be_value (slice 12 14 raw)"
    using be_value_bounds [of "slice 12 14 raw"] l(3)
    by (simp add: struct_fields.simps code_decode_def code_max_def code_signed_def)
  have h: "hw_raw (e_dst h) = take 6 raw" "hw_raw (e_src h) = slice 6 12 raw"
    "e_type h = be_value (slice 12 14 raw)"
    using assms(1,2) l
    by (auto simp: ethernet_parse_def eth_toRaw_def struct_unpack_def t dest: eth split: if_splits
        simp del: EthAddr_init.simps)
  have s: "s6 b = b" if "length b = 6" for b using that by (simp add: s6_def ljust_def)
  have "struct_pack ''!H'' [e_type h] = Inr (slice 12 14 raw)"
    using be_value_bounds [of "slice 12 14 raw"] be_bytes_be_value [of "slice 12 14 raw"] l(3) h(3)
    by (simp add: struct_pack_H)
  then have "ethernet_hdr h = Inr (take 6 raw @ slice 6 12 raw @ slice 12 14 raw)"
    using l by (simp add: ethernet_hdr_def h s)
  moreover have "take 6 raw @ slice 6 12 raw @ slice 12 14 raw @ drop 14 raw = raw"
    unfolding slice_def using append_take_drop_id [of 6 raw] append_take_drop_id [of 6 "drop 6 raw"]
      append_take_drop_id [of 2 "drop 12 raw"] by (simp add: drop_drop)
  ultimately show ?thesis using assms(3) by simp
qed

end
