(* ===== verification/Flow_Table.thy ===== *)
theory Flow_Table
  imports Complex_Main OF_Stats Packets
begin

text \<open>
  \<^verbatim>\<open>pox/openflow/flow_table.py\<close>: table entries, the ordered table and the table of a switch, with the
  match of a packet (\<^verbatim>\<open>ofp_match.from_packet\<close>) that its lookup starts from. An entry is a Python object: it
  carries an identity, which is what \<^verbatim>\<open>list.remove\<close> compares. The events a table raises are recorded in
  the order they are raised. Time is an argument, in seconds.
\<close>

subsection \<open>The match of a packet\<close>

text \<open>
  The fields of the IP or ARP header, and of the transport header behind it; then the whole match. A
  packet without the attribute \<^verbatim>\<open>next\<close>, which only a failed ICMP parse leaves, is not reached here: the
  type tests look at \<^verbatim>\<open>next\<close> of Ethernet, VLAN and IP headers.
\<close>

definition match_l3 :: "'o payload \<Rightarrow> ofp_match \<Rightarrow> ofp_match result" where
  "match_l3 p match =
     (case p of
        PktNext (PIpv4 h n) \<Rightarrow>
          bindE (nw_set F_nw_src (Some (ip_srcip h)) None match) (\<lambda>match.
          bindE (nw_set F_nw_dst (Some (ip_dstip h)) None match) (\<lambda>match.
            let match = int_set F_nw_proto (Some (ip_protocol h)) match;
                match = int_set F_nw_tos (Some (ip_tos h)) match
            in Inr (case n of
                 PktNext (PUdp u _) \<Rightarrow>
                   int_set F_tp_dst (Some (u_dstport u)) (int_set F_tp_src (Some (u_srcport u)) match)
               | PktNext (PTcp t _) \<Rightarrow>
                   int_set F_tp_dst (Some (t_dstport t)) (int_set F_tp_src (Some (t_srcport t)) match)
               | PktNext (PIcmp i _) \<Rightarrow>
                   int_set F_tp_dst (Some (i_code i)) (int_set F_tp_src (Some (i_type i)) match)
               | _ \<Rightarrow> match)))
      | PktNext (PArp a _) \<Rightarrow>
          (if a_opcode a \<le> 255 then
             let match = int_set F_nw_proto (Some (a_opcode a)) match
             in bindE (nw_set F_nw_src (Some (a_protosrc a)) None match) (\<lambda>match.
                  nw_set F_nw_dst (Some (a_protodst a)) None match)
           else Inr match)
      | _ \<Rightarrow> Inr match)"

definition from_packet :: "ethernet \<Rightarrow> 'o payload \<Rightarrow> int option \<Rightarrow> ofp_match result" where
  "from_packet packet nxt in_port =
     (let match = ofp_match_new;
          match = (case in_port of None \<Rightarrow> match | Some p \<Rightarrow> int_set F_in_port (Some p) match);
          match = hw_set F_dl_src (Some (e_src packet)) match;
          match = hw_set F_dl_dst (Some (e_dst packet)) match;
          match = int_set F_dl_type (Some (e_type packet)) match
      in case nxt of
           PktNext (PVlan v n) \<Rightarrow>
             match_l3 n
               (int_set F_dl_vlan_pcp (Some (v_pcp v)) (int_set F_dl_vlan (Some (v_id v))
                  (int_set F_dl_type (Some (v_eth_type v)) match)))
         | _ \<Rightarrow>
             match_l3 nxt
               (int_set F_dl_vlan_pcp (Some 0) (int_set F_dl_vlan (Some OFP_VLAN_NONE) match)))"

subsection \<open>TableEntry\<close>

record table_entry =
  te_id :: nat
  te_created :: rat
  te_last_touched :: rat
  te_bytes :: int
  te_packets :: int
  te_priority :: int
  te_cookie :: int
  te_idle_timeout :: int
  te_hard_timeout :: int
  te_match :: ofp_match
  te_actions :: "ofp_action list"
  te_buffer_id :: "int option"

definition TableEntry_init ::
    "nat \<Rightarrow> int \<Rightarrow> int \<Rightarrow> int \<Rightarrow> int \<Rightarrow> ofp_match \<Rightarrow> ofp_action list \<Rightarrow> int option \<Rightarrow> rat \<Rightarrow> table_entry" where
  "TableEntry_init self priority cookie idle_timeout hard_timeout match actions buffer_id now =
     \<lparr>te_id = self, te_created = now, te_last_touched = now, te_bytes = 0, te_packets = 0,
      te_priority = priority, te_cookie = cookie, te_idle_timeout = idle_timeout,
      te_hard_timeout = hard_timeout, te_match = match, te_actions = actions, te_buffer_id = buffer_id\<rparr>"

definition from_flow_mod :: "nat \<Rightarrow> ofp_flow_mod \<Rightarrow> rat \<Rightarrow> table_entry" where
  "from_flow_mod self flow_mod now =
     TableEntry_init self (fm_priority flow_mod) (fm_cookie flow_mod) (fm_idle_timeout flow_mod)
       (fm_hard_timeout flow_mod) (fm_match flow_mod) (fm_actions flow_mod) (fm_buffer_id flow_mod) now"

definition to_flow_mod :: "table_entry \<Rightarrow> (ofp_flow_mod \<Rightarrow> ofp_flow_mod) \<Rightarrow> ofp_flow_mod" where
  "to_flow_mod self kw =
     ofp_flow_mod_init (\<lambda>m. kw (m\<lparr>fm_priority := te_priority self, fm_cookie := te_cookie self,
       fm_match := te_match self, fm_idle_timeout := te_idle_timeout self,
       fm_hard_timeout := te_hard_timeout self, fm_actions := te_actions self,
       fm_buffer_id := te_buffer_id self\<rparr>))"

definition check_port :: "table_entry \<Rightarrow> int option \<Rightarrow> bool" where
  "check_port self out_port \<longleftrightarrow>
     out_port = None \<or>
     (\<exists>a \<in> set (te_actions self). case a of ActOutput o' \<Rightarrow> ao_port o' = out_port | _ \<Rightarrow> False)"

definition is_matched_by :: "table_entry \<Rightarrow> ofp_match \<Rightarrow> int option \<Rightarrow> bool \<Rightarrow> int option \<Rightarrow> bool result" where
  "is_matched_by self match priority strict out_port =
     (if strict
      then bindE (ofp_match_eq (te_match self) match) (\<lambda>t.
             Inr (t \<and> Some (te_priority self) = priority \<and> check_port self out_port))
      else bindE (matches_with_wildcards match (te_match self) True) (\<lambda>t.
             Inr (t \<and> check_port self out_port)))"

definition touch_packet :: "table_entry \<Rightarrow> int \<Rightarrow> rat \<Rightarrow> table_entry" where
  "touch_packet self byte_count now =
     self\<lparr>te_bytes := te_bytes self + byte_count, te_packets := te_packets self + 1, te_last_touched := now\<rparr>"

definition is_expired :: "table_entry \<Rightarrow> rat \<Rightarrow> bool" where
  "is_expired self now \<longleftrightarrow>
     (te_hard_timeout self > 0 \<and> now - te_created self > of_int (te_hard_timeout self)) \<or>
     (te_idle_timeout self > 0 \<and> now - te_last_touched self > of_int (te_idle_timeout self))"

text \<open>\<^verbatim>\<open>int()\<close> cuts towards zero. The byte count of the statistics is taken from the time of the last packet.\<close>

definition py_trunc :: "rat \<Rightarrow> int" where
  "py_trunc q = (if q < 0 then - floor (- q) else floor q)"

definition entry_flow_stats :: "table_entry \<Rightarrow> rat \<Rightarrow> ofp_flow_stats" where
  "entry_flow_stats self now =
     (let duration = now - te_created self
      in ofp_flow_stats_init (\<lambda>s. s\<lparr>fs_match := te_match self, fs_duration_sec := py_trunc duration,
           fs_duration_nsec := py_trunc (duration * 1000000000), fs_priority := te_priority self,
           fs_idle_timeout := te_idle_timeout self, fs_hard_timeout := te_hard_timeout self,
           fs_cookie := te_cookie self, fs_packet_count := te_packets self,
           fs_byte_count := py_trunc (te_last_touched self), fs_actions := te_actions self\<rparr>))"

subsection \<open>FlowTable\<close>

text \<open>\<^verbatim>\<open>FlowTableModification\<close> events, and the identity the next new entry gets.\<close>

record modification =
  md_added :: "table_entry list"
  md_removed :: "table_entry list"

record flow_table =
  ft_table :: "table_entry list"
  ft_events :: "modification list"
  ft_next :: nat

definition FlowTable_init :: flow_table where
  "FlowTable_init = \<lparr>ft_table = [], ft_events = [], ft_next = 0\<rparr>"

definition raise_modification :: "table_entry list \<Rightarrow> table_entry list \<Rightarrow> flow_table \<Rightarrow> flow_table" where
  "raise_modification added removed t =
     t\<lparr>ft_events := ft_events t @ [\<lparr>md_added = added, md_removed = removed\<rparr>]\<rparr>"

definition flow_table_len :: "flow_table \<Rightarrow> nat" where
  "flow_table_len t = length (ft_table t)"

text \<open>Exact matches come before every priority; sorting is stable and descending.\<close>

definition entry_key :: "table_entry \<Rightarrow> int" where
  "entry_key e = (if is_wildcarded (te_match e) then te_priority e else push_bit 16 1 + 1)"

definition add_entry :: "table_entry \<Rightarrow> flow_table \<Rightarrow> flow_table" where
  "add_entry entry t =
     raise_modification [entry] [] (t\<lparr>ft_table := sort_key (\<lambda>e. - entry_key e) (ft_table t @ [entry])\<rparr>)"

fun remove_ref :: "table_entry \<Rightarrow> table_entry list \<Rightarrow> table_entry list result" where
  "remove_ref entry [] = Inl ValueError"
| "remove_ref entry (e # es) =
     (if te_id e = te_id entry then Inr es else bindE (remove_ref entry es) (\<lambda>es. Inr (e # es)))"

fun remove_refs :: "table_entry list \<Rightarrow> table_entry list \<Rightarrow> table_entry list result" where
  "remove_refs [] es = Inr es"
| "remove_refs (r # rs) es = bindE (remove_ref r es) (remove_refs rs)"

definition remove_entry :: "table_entry \<Rightarrow> flow_table \<Rightarrow> flow_table result" where
  "remove_entry entry t =
     bindE (remove_ref entry (ft_table t)) (\<lambda>es. Inr (raise_modification [] [entry] (t\<lparr>ft_table := es\<rparr>)))"

text \<open>
  \<^verbatim>\<open>entries_for_port\<close>: the first entry whose last action is an output makes it raise, since the port is a
  number without the attribute \<^verbatim>\<open>port_no\<close>.
\<close>

fun entries_for_port :: "table_entry list \<Rightarrow> int \<Rightarrow> table_entry list result" where
  "entries_for_port [] port_no = Inr []"
| "entries_for_port (e # es) port_no =
     (if te_actions e \<noteq> [] \<and> (case last (te_actions e) of ActOutput _ \<Rightarrow> True | _ \<Rightarrow> False)
      then Inl AttributeError else entries_for_port es port_no)"

definition matching_entries ::
    "flow_table \<Rightarrow> ofp_match \<Rightarrow> int \<Rightarrow> bool \<Rightarrow> int option \<Rightarrow> table_entry list result" where
  "matching_entries t match priority strict out_port =
     filterE (\<lambda>e. is_matched_by e match (Some priority) strict out_port) (ft_table t)"

definition table_flow_stats :: "flow_table \<Rightarrow> ofp_match \<Rightarrow> int option \<Rightarrow> rat \<Rightarrow> ofp_flow_stats list result" where
  "table_flow_stats t match out_port now =
     bindE (matching_entries t match 0 False out_port) (\<lambda>es. Inr (map (\<lambda>e. entry_flow_stats e now) es))"

definition expired_entries :: "flow_table \<Rightarrow> rat \<Rightarrow> table_entry list" where
  "expired_entries t now = filter (\<lambda>e. is_expired e now) (ft_table t)"

definition remove_expired_entries :: "flow_table \<Rightarrow> rat \<Rightarrow> (table_entry list \<times> flow_table) result" where
  "remove_expired_entries t now =
     (let remove_flows = expired_entries t now
      in bindE (remove_refs remove_flows (ft_table t)) (\<lambda>es.
           Inr (remove_flows, raise_modification [] remove_flows (t\<lparr>ft_table := es\<rparr>))))"

definition remove_matching_entries ::
    "flow_table \<Rightarrow> ofp_match \<Rightarrow> int \<Rightarrow> bool \<Rightarrow> (table_entry list \<times> flow_table) result" where
  "remove_matching_entries t match priority strict =
     bindE (matching_entries t match priority strict None) (\<lambda>remove_flows.
       bindE (remove_refs remove_flows (ft_table t)) (\<lambda>es.
         Inr (remove_flows, raise_modification [] remove_flows (t\<lparr>ft_table := es\<rparr>))))"

fun find_entry :: "ofp_match \<Rightarrow> table_entry list \<Rightarrow> table_entry option result" where
  "find_entry m [] = Inr None"
| "find_entry m (e # es) =
     bindE (matches_with_wildcards (te_match e) m False) (\<lambda>t. if t then Inr (Some e) else find_entry m es)"

definition entry_for_packet :: "flow_table \<Rightarrow> ethernet \<Rightarrow> 'o payload \<Rightarrow> int \<Rightarrow> table_entry option result" where
  "entry_for_packet t packet nxt in_port =
     bindE (from_packet packet nxt (Some in_port)) (\<lambda>m. find_entry m (ft_table t))"

subsection \<open>SwitchFlowTable\<close>

text \<open>The loop of MODIFY: the entries that match get the new actions, and are listed.\<close>

fun modify_entries ::
    "ofp_match \<Rightarrow> int \<Rightarrow> bool \<Rightarrow> ofp_action list \<Rightarrow> table_entry list \<Rightarrow> (table_entry list \<times> table_entry list) result" where
  "modify_entries match priority strict actions [] = Inr ([], [])"
| "modify_entries match priority strict actions (e # es) =
     bindE (is_matched_by e match (Some priority) strict None) (\<lambda>t.
     bindE (modify_entries match priority strict actions es) (\<lambda>(modified, es).
       let e' = (if t then e\<lparr>te_actions := actions\<rparr> else e)
       in Inr (if t then e' # modified else modified, e' # es)))"

definition add_flow_mod :: "ofp_flow_mod \<Rightarrow> rat \<Rightarrow> flow_table \<Rightarrow> flow_table" where
  "add_flow_mod flow_mod now t =
     add_entry (from_flow_mod (ft_next t) flow_mod now) (t\<lparr>ft_next := Suc (ft_next t)\<rparr>)"

text \<open>
  The result is what the call returns (the kind, and the entries or \<^verbatim>\<open>None\<close>) with the table after it.
  Both forms of DELETE remove strictly.
\<close>

definition process_flow_mod ::
    "ofp_flow_mod \<Rightarrow> rat \<Rightarrow> flow_table \<Rightarrow> ((string \<times> table_entry list option) \<times> flow_table) result" where
  "process_flow_mod flow_mod now t =
     (if fm_flags flow_mod AND OFPFF_CHECK_OVERLAP \<noteq> 0 then Inl NotImplementedError
      else if fm_out_port flow_mod \<noteq> OFPP_NONE then Inl NotImplementedError
      else if fm_command flow_mod = OFPFC_ADD then
        bindE (remove_matching_entries t (fm_match flow_mod) (fm_priority flow_mod) True) (\<lambda>(_, t).
          Inr ((''added'', None), add_flow_mod flow_mod now t))
      else if fm_command flow_mod = OFPFC_MODIFY \<or> fm_command flow_mod = OFPFC_MODIFY_STRICT then
        bindE (modify_entries (fm_match flow_mod) (fm_priority flow_mod)
            (fm_command flow_mod = OFPFC_MODIFY_STRICT) (fm_actions flow_mod) (ft_table t)) (\<lambda>(modified, es).
          if modified = [] then Inr ((''added'', None), add_flow_mod flow_mod now (t\<lparr>ft_table := es\<rparr>))
          else Inr ((''modified'', Some modified), t\<lparr>ft_table := es\<rparr>))
      else if fm_command flow_mod = OFPFC_DELETE \<or> fm_command flow_mod = OFPFC_DELETE_STRICT then
        bindE (remove_matching_entries t (fm_match flow_mod) (fm_priority flow_mod) True) (\<lambda>(removed, t).
          Inr ((''removed'', Some removed), t))
      else Inl AttributeError)"

subsection \<open>The match of a packet\<close>

text \<open>Writing an address into a match.\<close>

lemma nw_set_plain:
  assumes "case x of IpInt _ \<Rightarrow> True | IpObj _ \<Rightarrow> True | _ \<Rightarrow> False"
  shows "nw_set s (Some x) None m = Inr ((nw_store s x m)\<lparr>wildcards := (wildcards m AND NOT (nw_mask s)) OR push_bit (nw_shift s) 0\<rparr>)"
  using assms by (cases x) (simp_all add: nw_set_def make_addr_def)

lemma nw_set_gets:
  assumes "case x of IpInt _ \<Rightarrow> True | IpObj _ \<Rightarrow> True | _ \<Rightarrow> False" "nw_set s (Some x) None m = Inr m'"
  shows "nw_get s m' = (Some x, 32)" "t \<noteq> s \<Longrightarrow> nw_get t m' = nw_get t m"
    "int_get f m' = int_get f m" "hw_get h m' = hw_get h m"
    "nw_slot s m' = x" "t \<noteq> s \<Longrightarrow> nw_slot t m' = nw_slot t m" "hw_slot h m' = hw_slot h m"
proof -
  have m': "m' = (nw_store s x m)\<lparr>wildcards := (wildcards m AND NOT (nw_mask s)) OR push_bit (nw_shift s) 0\<rparr>"
    using assms by (simp only: nw_set_plain Inr_inject sum.inject)
  have k: "0 \<le> (0::int)" "(0::int) < 64" by simp_all
  show "nw_get s m' = (Some x, 32)"
    by (simp add: m' nw_get_eq nw_bits_write_field [OF k] del: push_bit_of_0)
  show "t \<noteq> s \<Longrightarrow> nw_get t m' = nw_get t m"
    by (simp add: m' nw_get_eq nw_bits_write_other [OF k] del: push_bit_of_0)
  show "int_get f m' = int_get f m"
    using int_bit_outside [of s f] by (auto simp: m' int_get_bit bit_write_field [OF k] simp del: push_bit_of_0)
  show "hw_get h m' = hw_get h m"
    using hw_bit_outside [of s h] by (auto simp: m' hw_get_bit bit_write_field [OF k] simp del: push_bit_of_0)
  show "nw_slot s m' = x" "t \<noteq> s \<Longrightarrow> nw_slot t m' = nw_slot t m" "hw_slot h m' = hw_slot h m"
    by (simp_all add: m')
qed

lemma match_ok_int_set [simp]: "match_ok (int_set f v m) = match_ok m"
  unfolding match_ok_def int_set_def by (cases f; cases v) simp_all

lemma match_ok_hw_set: "match_ok m \<Longrightarrow> hw_wire a \<Longrightarrow> match_ok (hw_set h (Some a) m)"
  unfolding match_ok_def hw_set_def by (cases h) simp_all

lemma nw_set_ok:
  assumes "nw_ok x"
  shows "nw_set s (Some x) None m = Inr ((nw_store s x m)\<lparr>wildcards := (wildcards m AND NOT (nw_mask s)) OR push_bit (nw_shift s) 0\<rparr>)"
  using assms by (intro nw_set_plain) (cases x; simp)

lemma match_ok_nw_store:
  "nw_ok x \<Longrightarrow> match_ok m \<Longrightarrow> match_ok ((nw_store s x m)\<lparr>wildcards := w\<rparr>)"
  by (cases s) (simp_all add: match_ok_def)

lemma match_ok_new: "match_ok ofp_match_new"
  by (simp add: match_ok_def ofp_match_new_def hw_wire_def)

text \<open>The headers of a packet hold proper addresses; parsing always leaves it so.\<close>

fun headers_ok :: "'o payload \<Rightarrow> bool" where
  "headers_ok (PktNext (PVlan v n)) = headers_ok n"
| "headers_ok (PktNext (PIpv4 h n)) = (nw_ok (ip_srcip h) \<and> nw_ok (ip_dstip h))"
| "headers_ok (PktNext (PArp a n)) = (nw_ok (a_protosrc a) \<and> nw_ok (a_protodst a))"
| "headers_ok _ = True"

lemma match_ok_addrs:
  "match_ok m \<Longrightarrow> nw_ok x \<Longrightarrow> nw_ok y \<Longrightarrow> match_ok (m\<lparr>m_nw_src := x, m_nw_dst := y, wildcards := w\<rparr>)"
  by (simp add: match_ok_def)

lemma match_l3_ok:
  "headers_ok p \<Longrightarrow> match_ok m \<Longrightarrow> \<exists>m'. match_l3 p m = Inr m' \<and> match_ok m'"
  by (cases p rule: headers_ok.cases)
     (simp_all add: match_l3_def nw_set_ok match_ok_addrs Let_def split: payload.splits packet.splits)

lemma from_packet_ok:
  assumes "hw_wire (e_src packet)" "hw_wire (e_dst packet)" "headers_ok nxt"
  shows "\<exists>m. from_packet packet nxt in_port = Inr m \<and> match_ok m"
proof -
  have l2: "match_ok (hw_set F_dl_dst (Some (e_dst packet)) (hw_set F_dl_src (Some (e_src packet)) m))"
    if "match_ok m" for m
    using assms that by (simp add: match_ok_hw_set)
  show ?thesis
    using assms(3) match_ok_new
    by (auto simp: from_packet_def Let_def l2 split: option.split payload.split packet.split intro!: match_l3_ok)
qed

subsection \<open>The order of the table\<close>

text \<open>Higher keys first; among equal keys, the older identity first.\<close>

definition table_lt :: "table_entry \<Rightarrow> table_entry \<Rightarrow> bool" where
  "table_lt a b \<longleftrightarrow> entry_key b < entry_key a \<or> (entry_key a = entry_key b \<and> te_id a < te_id b)"

definition table_ok :: "flow_table \<Rightarrow> bool" where
  "table_ok t \<longleftrightarrow> sorted_wrt table_lt (ft_table t) \<and> distinct (map te_id (ft_table t)) \<and>
     (\<forall>e \<in> set (ft_table t). te_id e < ft_next t \<and> match_ok (te_match e))"

lemma table_okD:
  assumes "table_ok t"
  shows "sorted_wrt table_lt (ft_table t)" "distinct (map te_id (ft_table t))"
    "e \<in> set (ft_table t) \<Longrightarrow> match_ok (te_match e)" "e \<in> set (ft_table t) \<Longrightarrow> te_id e < ft_next t"
  using assms by (auto simp: table_ok_def)

lemma table_lt_keys: "sorted_wrt table_lt es \<Longrightarrow> sorted (map (\<lambda>e. - entry_key e) es)"
  unfolding sorted_map by (rule sorted_wrt_mono_rel) (auto simp: table_lt_def)

lemma table_ok_init: "table_ok FlowTable_init"
  by (simp add: table_ok_def FlowTable_init_def)

lemma table_ok_sub:
  assumes "table_ok t" "ft_table t' = filter P (ft_table t)" "ft_next t \<le> ft_next t'"
  shows "table_ok t'"
  using assms unfolding table_ok_def
  by (auto intro: sorted_wrt_filter distinct_map_filter)

text \<open>What \<^verbatim>\<open>add_entry\<close> leaves in the table.\<close>

definition insert_entry :: "table_entry \<Rightarrow> table_entry list \<Rightarrow> table_entry list" where
  "insert_entry e es =
     takeWhile (\<lambda>y. entry_key e \<le> entry_key y) es @ e # dropWhile (\<lambda>y. entry_key e \<le> entry_key y) es"

lemma add_entry_insert:
  assumes "sorted_wrt table_lt (ft_table t)"
  shows "add_entry e t = raise_modification [e] [] (t\<lparr>ft_table := insert_entry e (ft_table t)\<rparr>)"
  using sort_key_snoc [OF table_lt_keys [OF assms], of e] by (simp add: add_entry_def insert_entry_def)

lemma set_insert_entry [simp]: "set (insert_entry e es) = insert e (set es)"
proof -
  have "set (takeWhile P es) \<union> set (dropWhile P es) = set es" for P
    by (metis set_append takeWhile_dropWhile_id)
  then show ?thesis unfolding insert_entry_def by auto
qed

lemma sorted_insert_entry:
  assumes "sorted_wrt table_lt es" "\<forall>y \<in> set es. te_id y < te_id e"
  shows "sorted_wrt table_lt (insert_entry e es)"
proof -
  let ?P = "\<lambda>y. entry_key e \<le> entry_key y"
  have s: "sorted_wrt table_lt (takeWhile ?P es @ dropWhile ?P es)" using assms by simp
  have before: "table_lt y e" if "y \<in> set (takeWhile ?P es)" for y
    using set_takeWhileD [OF that] assms(2) by (auto simp: table_lt_def)
  have after: "table_lt e z" if z: "z \<in> set (dropWhile ?P es)" for z
  proof (cases "dropWhile ?P es")
    case (Cons d ds)
    then have d: "entry_key d < entry_key e" using hd_dropWhile [of ?P es] by auto
    have "entry_key z \<le> entry_key d"
      using s z unfolding Cons sorted_wrt_append by (auto simp: table_lt_def)
    then show ?thesis using d by (simp add: table_lt_def)
  next
    case Nil
    then show ?thesis using z by (metis empty_iff empty_set)
  qed
  show ?thesis
    using s before after unfolding insert_entry_def sorted_wrt_append by auto
qed

lemma distinct_insert_entry:
  assumes "distinct (map te_id es)" "\<forall>y \<in> set es. te_id y < te_id e"
  shows "distinct (map te_id (insert_entry e es))"
proof -
  let ?P = "\<lambda>y. entry_key e \<le> entry_key y"
  have s: "distinct (map te_id (takeWhile ?P es @ dropWhile ?P es))" using assms by simp
  have "te_id e \<notin> te_id ` set (takeWhile ?P es)" "te_id e \<notin> te_id ` set (dropWhile ?P es)"
    using assms(2) by (auto dest!: set_takeWhileD set_dropWhileD)
  then show ?thesis using s unfolding insert_entry_def map_append distinct_append by auto
qed

text \<open>A new entry made from a flow-mod.\<close>

lemma from_flow_mod_fields [simp]:
  "te_id (from_flow_mod i fm now) = i" "te_match (from_flow_mod i fm now) = fm_match fm"
  "te_priority (from_flow_mod i fm now) = fm_priority fm" "te_actions (from_flow_mod i fm now) = fm_actions fm"
  "te_created (from_flow_mod i fm now) = now" "te_last_touched (from_flow_mod i fm now) = now"
  by (simp_all add: from_flow_mod_def TableEntry_init_def)

lemma raise_modification_fields [simp]:
  "ft_table (raise_modification a r t) = ft_table t" "ft_next (raise_modification a r t) = ft_next t"
  "ft_events (raise_modification a r t) = ft_events t @ [\<lparr>md_added = a, md_removed = r\<rparr>]"
  by (simp_all add: raise_modification_def)

lemma table_ok_raise [simp]: "table_ok (raise_modification a r t) = table_ok t"
  by (simp add: table_ok_def)

lemma add_flow_mod_table:
  assumes "table_ok t"
  shows "ft_table (add_flow_mod fm now t) = insert_entry (from_flow_mod (ft_next t) fm now) (ft_table t)"
    "ft_next (add_flow_mod fm now t) = Suc (ft_next t)"
    "ft_events (add_flow_mod fm now t) = ft_events t @ [\<lparr>md_added = [from_flow_mod (ft_next t) fm now], md_removed = []\<rparr>]"
  using table_okD(1) [OF assms] by (simp_all add: add_flow_mod_def add_entry_insert)

lemma table_ok_add:
  assumes "table_ok t" "match_ok (fm_match fm)"
  shows "table_ok (add_flow_mod fm now t)"
  using assms sorted_insert_entry [of "ft_table t" "from_flow_mod (ft_next t) fm now"]
    distinct_insert_entry [of "ft_table t" "from_flow_mod (ft_next t) fm now"]
  unfolding table_ok_def add_flow_mod_table [OF assms(1)]
  by (auto intro: less_SucI)

subsection \<open>Removing entries\<close>

lemma remove_ref_filter:
  "distinct (map te_id es) \<Longrightarrow> te_id r \<in> te_id ` set es \<Longrightarrow>
     remove_ref r es = Inr (filter (\<lambda>e. te_id e \<noteq> te_id r) es)"
proof (induction es)
  case (Cons a es)
  show ?case
  proof (cases "te_id a = te_id r")
    case True
    then have "filter (\<lambda>e. te_id e \<noteq> te_id r) es = es" using Cons.prems(1)
      by (simp add: filter_id_conv) (metis imageI)
    then show ?thesis using True by simp
  next
    case False
    then have "te_id r \<in> te_id ` set es" using Cons.prems(2) by force
    with Cons False show ?thesis by simp
  qed
qed simp

lemma remove_refs_filter:
  "distinct (map te_id es) \<Longrightarrow> distinct (map te_id rs) \<Longrightarrow> te_id ` set rs \<subseteq> te_id ` set es \<Longrightarrow>
     remove_refs rs es = Inr (filter (\<lambda>e. te_id e \<notin> te_id ` set rs) es)"
proof (induction rs arbitrary: es)
  case (Cons r rs)
  let ?es = "filter (\<lambda>e. te_id e \<noteq> te_id r) es"
  have r: "remove_ref r es = Inr ?es" using Cons.prems by (intro remove_ref_filter) auto
  have "te_id ` set rs \<subseteq> te_id ` set ?es"
  proof
    fix i assume i: "i \<in> te_id ` set rs"
    then have "i \<noteq> te_id r" using Cons.prems(2) by (simp add: image_iff) metis
    moreover obtain e where "e \<in> set es" "i = te_id e" using i Cons.prems(3) by auto
    ultimately show "i \<in> te_id ` set ?es" by simp
  qed
  then have "remove_refs rs ?es = Inr (filter (\<lambda>e. te_id e \<notin> te_id ` set rs) ?es)"
    using Cons.prems(1,2) by (intro Cons.IH) (simp_all add: distinct_map_filter)
  then show ?case by (simp add: r conj_commute)
qed simp

lemma remove_refs_selected:
  assumes "distinct (map te_id es)"
  shows "remove_refs (filter P es) es = Inr (filter (\<lambda>e. \<not> P e) es)"
proof -
  have "te_id e \<in> te_id ` set (filter P es) \<longleftrightarrow> P e" if "e \<in> set es" for e
    using assms that by (auto simp: distinct_map dest: inj_onD)
  then have "filter (\<lambda>e. te_id e \<notin> te_id ` set (filter P es)) es = filter (\<lambda>e. \<not> P e) es"
    by (intro filter_cong) simp_all
  moreover have "remove_refs (filter P es) es = Inr (filter (\<lambda>e. te_id e \<notin> te_id ` set (filter P es)) es)"
    using assms by (intro remove_refs_filter) (auto simp: distinct_map_filter)
  ultimately show ?thesis by (simp only:)
qed

text \<open>Which entries a match, a priority and an output port select.\<close>

definition selects :: "ofp_match \<Rightarrow> int \<Rightarrow> bool \<Rightarrow> int option \<Rightarrow> table_entry \<Rightarrow> bool" where
  "selects match priority strict out_port e \<longleftrightarrow>
     (if strict then match_same (te_match e) match \<and> te_priority e = priority
      else match_same match (te_match e) \<or> (wild_covers match (te_match e) \<and> match_covers match (te_match e)))
     \<and> check_port e out_port"

lemma is_matched_by_iff:
  assumes "match_ok match" "match_ok (te_match e)"
  shows "is_matched_by e match (Some priority) strict out_port = Inr (selects match priority strict out_port e)"
  by (simp add: is_matched_by_def ofp_match_eq_iff [OF assms(2,1)] matches_with_wildcards_iff [OF assms] selects_def)

lemma matching_entries_eq:
  assumes "table_ok t" "match_ok match"
  shows "matching_entries t match priority strict out_port = Inr (filter (selects match priority strict out_port) (ft_table t))"
  unfolding matching_entries_def
  using assms by (intro filterE_pure) (simp add: is_matched_by_iff table_okD)

lemma remove_matching_entries_eq:
  assumes "table_ok t" "match_ok match"
  shows "remove_matching_entries t match priority strict =
    (let removed = filter (selects match priority strict None) (ft_table t)
     in Inr (removed, raise_modification [] removed
          (t\<lparr>ft_table := filter (\<lambda>e. \<not> selects match priority strict None e) (ft_table t)\<rparr>)))"
  using assms
  by (simp add: remove_matching_entries_def matching_entries_eq remove_refs_selected table_okD Let_def)

lemma remove_expired_entries_eq:
  assumes "table_ok t"
  shows "remove_expired_entries t now =
    (let removed = filter (\<lambda>e. is_expired e now) (ft_table t)
     in Inr (removed, raise_modification [] removed
          (t\<lparr>ft_table := filter (\<lambda>e. \<not> is_expired e now) (ft_table t)\<rparr>)))"
  using assms
  by (simp add: remove_expired_entries_def expired_entries_def remove_refs_selected table_okD Let_def)

subsection \<open>Changing entries\<close>

definition set_actions :: "(table_entry \<Rightarrow> bool) \<Rightarrow> ofp_action list \<Rightarrow> table_entry \<Rightarrow> table_entry" where
  "set_actions P actions e = (if P e then e\<lparr>te_actions := actions\<rparr> else e)"

lemma modify_entries_eq:
  assumes "match_ok match" "\<forall>e \<in> set es. match_ok (te_match e)"
  shows "modify_entries match priority strict actions es =
    (let P = selects match priority strict None
     in Inr (map (set_actions P actions) (filter P es), map (set_actions P actions) es))"
  using assms(2)
  by (induction es) (simp_all add: is_matched_by_iff [OF assms(1)] Let_def set_actions_def)

text \<open>A change of an entry that the order and the identity do not see.\<close>

lemma table_ok_map:
  assumes "table_ok t" "ft_table t' = map g (ft_table t)" "ft_next t' = ft_next t"
    and "\<And>e. te_id (g e) = te_id e" "\<And>e. te_match (g e) = te_match e" "\<And>e. te_priority (g e) = te_priority e"
  shows "table_ok t'"
proof -
  have k: "table_lt (g a) (g b) = table_lt a b" for a b
    by (simp add: table_lt_def entry_key_def assms(4-6))
  have i: "map te_id (map g es) = map te_id es" for es by (simp add: assms(4))
  show ?thesis
    using assms(1) unfolding table_ok_def assms(2,3) i sorted_wrt_map k by (simp add: assms(4,5))
qed

lemma set_actions_fields [simp]:
  "te_id (set_actions P a e) = te_id e" "te_match (set_actions P a e) = te_match e"
  "te_priority (set_actions P a e) = te_priority e"
  by (simp_all add: set_actions_def)

subsection \<open>Flow-mods\<close>

definition supported :: "ofp_flow_mod \<Rightarrow> bool" where
  "supported fm \<longleftrightarrow> fm_flags fm AND OFPFF_CHECK_OVERLAP = 0 \<and> fm_out_port fm = OFPP_NONE"

abbreviation selected :: "ofp_flow_mod \<Rightarrow> bool \<Rightarrow> table_entry \<Rightarrow> bool" where
  "selected fm strict \<equiv> selects (fm_match fm) (fm_priority fm) strict None"

lemma process_add:
  assumes "table_ok t" "match_ok (fm_match fm)" "supported fm" "fm_command fm = OFPFC_ADD"
  shows "process_flow_mod fm now t =
    (let removed = filter (selected fm True) (ft_table t);
         kept = filter (\<lambda>e. \<not> selected fm True e) (ft_table t)
     in Inr ((''added'', None), add_flow_mod fm now (raise_modification [] removed (t\<lparr>ft_table := kept\<rparr>))))"
  using assms by (simp add: process_flow_mod_def supported_def remove_matching_entries_eq Let_def)

lemma process_delete:
  assumes "table_ok t" "match_ok (fm_match fm)" "supported fm"
    "fm_command fm = OFPFC_DELETE \<or> fm_command fm = OFPFC_DELETE_STRICT"
  shows "process_flow_mod fm now t =
    (let removed = filter (selected fm True) (ft_table t);
         kept = filter (\<lambda>e. \<not> selected fm True e) (ft_table t)
     in Inr ((''removed'', Some removed), raise_modification [] removed (t\<lparr>ft_table := kept\<rparr>)))"
  using assms by (auto simp: process_flow_mod_def supported_def remove_matching_entries_eq Let_def)

lemma process_modify:
  assumes "table_ok t" "match_ok (fm_match fm)" "supported fm"
    "fm_command fm = OFPFC_MODIFY \<or> fm_command fm = OFPFC_MODIFY_STRICT"
  shows "process_flow_mod fm now t =
    (let P = selected fm (fm_command fm = OFPFC_MODIFY_STRICT)
     in if filter P (ft_table t) = [] then Inr ((''added'', None), add_flow_mod fm now t)
        else Inr ((''modified'', Some (map (set_actions P (fm_actions fm)) (filter P (ft_table t)))),
                  t\<lparr>ft_table := map (set_actions P (fm_actions fm)) (ft_table t)\<rparr>))"
proof -
  let ?P = "selected fm (fm_command fm = OFPFC_MODIFY_STRICT)"
  have m: "modify_entries (fm_match fm) (fm_priority fm) (fm_command fm = OFPFC_MODIFY_STRICT) (fm_actions fm) (ft_table t) =
      Inr (map (set_actions ?P (fm_actions fm)) (filter ?P (ft_table t)), map (set_actions ?P (fm_actions fm)) (ft_table t))"
    using assms by (subst modify_entries_eq) (auto simp: table_okD Let_def)
  have none: "map (set_actions ?P (fm_actions fm)) (ft_table t) = ft_table t" if "filter ?P (ft_table t) = []"
    using that by (intro map_idI) (auto simp: set_actions_def filter_empty_conv)
  show ?thesis
    using assms(3,4) m none by (auto simp: process_flow_mod_def supported_def Let_def)
qed

lemma process_flow_mod_ok:
  assumes "table_ok t" "match_ok (fm_match fm)" "process_flow_mod fm now t = Inr (r, t')"
  shows "table_ok t'"
proof -
  have s: "supported fm" using assms(3) by (auto simp: process_flow_mod_def supported_def split: if_splits)
  have c: "fm_command fm \<in> {OFPFC_ADD, OFPFC_MODIFY, OFPFC_MODIFY_STRICT, OFPFC_DELETE, OFPFC_DELETE_STRICT}"
    using assms(3) by (auto simp: process_flow_mod_def split: if_splits)
  have kept: "table_ok (raise_modification a b (t\<lparr>ft_table := filter P (ft_table t)\<rparr>))" for a b P
    using assms(1) by (rule table_ok_sub) simp_all
  have changed: "table_ok (t\<lparr>ft_table := map (set_actions P as) (ft_table t)\<rparr>)" for P as
    using assms(1) by (rule table_ok_map [where g = "set_actions P as"]) simp_all
  from c consider "fm_command fm = OFPFC_ADD" | "fm_command fm = OFPFC_MODIFY \<or> fm_command fm = OFPFC_MODIFY_STRICT"
    | "fm_command fm = OFPFC_DELETE \<or> fm_command fm = OFPFC_DELETE_STRICT" by auto
  then show ?thesis
  proof cases
    case 1
    show ?thesis using assms(3) unfolding process_add [OF assms(1,2) s 1] Let_def
      by (auto intro!: table_ok_add kept assms(2))
  next
    case 2
    show ?thesis using assms(3) unfolding process_modify [OF assms(1,2) s 2] Let_def
      by (auto split: if_splits intro: table_ok_add assms changed)
  next
    case 3
    show ?thesis using assms(3) unfolding process_delete [OF assms(1,2) s 3] Let_def
      by (auto intro!: kept)
  qed
qed

subsection \<open>Lookup\<close>

definition entry_applies :: "ofp_match \<Rightarrow> table_entry \<Rightarrow> bool" where
  "entry_applies m e \<longleftrightarrow> match_same (te_match e) m \<or> match_covers (te_match e) m"

lemma find_entry_eq:
  "match_ok m \<Longrightarrow> \<forall>e \<in> set es. match_ok (te_match e) \<Longrightarrow> find_entry m es = Inr (find (entry_applies m) es)"
  by (induction es) (simp_all add: matches_with_wildcards_iff entry_applies_def)

lemma find_first:
  assumes "sorted_wrt R es" "find P es = Some e"
  shows "e \<in> set es" "P e" "\<forall>y \<in> set es. P y \<longrightarrow> y = e \<or> R e y"
proof -
  from assms(2) obtain i where i: "i < length es" "P (es ! i)" "e = es ! i" "\<forall>j < i. \<not> P (es ! j)"
    by (auto simp: find_Some_iff)
  show "e \<in> set es" "P e" using i by auto
  have "y = e \<or> R e y" if y: "y \<in> set es" "P y" for y
  proof -
    from y(1) obtain j where j: "j < length es" "es ! j = y" by (auto simp: in_set_conv_nth)
    have "\<not> j < i" using i(4) j(2) y(2) by auto
    then show ?thesis
      using i(3) j sorted_wrt_nth_less [OF assms(1), of i j] by (cases "i = j") auto
  qed
  then show "\<forall>y \<in> set es. P y \<longrightarrow> y = e \<or> R e y" by blast
qed

lemma find_entry_best:
  assumes "table_ok t" "match_ok m"
  obtains r where "find_entry m (ft_table t) = Inr r"
    "case r of None \<Rightarrow> \<forall>e \<in> set (ft_table t). \<not> entry_applies m e
     | Some e \<Rightarrow> e \<in> set (ft_table t) \<and> entry_applies m e \<and>
         (\<forall>e' \<in> set (ft_table t). entry_applies m e' \<longrightarrow> e' = e \<or> table_lt e e')"
proof (rule that)
  show "find_entry m (ft_table t) = Inr (find (entry_applies m) (ft_table t))"
    using assms by (intro find_entry_eq) (auto simp: table_okD)
  show "case find (entry_applies m) (ft_table t) of None \<Rightarrow> \<forall>e \<in> set (ft_table t). \<not> entry_applies m e
     | Some e \<Rightarrow> e \<in> set (ft_table t) \<and> entry_applies m e \<and>
         (\<forall>e' \<in> set (ft_table t). entry_applies m e' \<longrightarrow> e' = e \<or> table_lt e e')"
    using find_first [OF table_okD(1) [OF assms(1)], of "entry_applies m"]
    by (auto split: option.split simp: find_None_iff)
qed

end
