(* ===== verification/Switch.thy ===== *)
theory Switch
  imports Complex_Main "HOL-Library.AList" Flow_Table OF_Channel
begin

unbundle bit_operations_syntax

text \<open>
  The software switch, \<^verbatim>\<open>openflow/switch_impl.py\<close>: ports, packet buffer and flow table, the actions on
  packets, the handlers of OpenFlow messages and the connection to the controller. Frames are mutable
  objects that the buffer and the running action list share, so they live in a store and are named by
  references. What is sent to the controller and which frames leave which port is recorded in order.
\<close>

subsection \<open>Capabilities\<close>

record SwitchCapabilities =
  cap_flow_stats :: bool
  cap_table_stats :: bool
  cap_port_stats :: bool
  cap_stp :: bool
  cap_multi_phy_tx :: bool
  cap_ip_resam :: bool
  cap_ip_frag :: int
  cap_miss_send_len :: int
  act_output :: bool
  act_set_vlan_vid :: bool
  act_set_vlan_pcp :: bool
  act_strip_vlan :: bool
  act_set_dl_src :: bool
  act_set_dl_dst :: bool
  act_set_nw_src :: bool
  act_set_nw_dst :: bool
  act_set_tp_src :: bool
  act_set_tp_dst :: bool
  act_vendor :: bool

definition SwitchCapabilities_init :: "int \<Rightarrow> SwitchCapabilities" where
  "SwitchCapabilities_init miss_send_len =
     \<lparr>cap_flow_stats = False, cap_table_stats = False, cap_port_stats = False, cap_stp = False,
      cap_multi_phy_tx = False, cap_ip_resam = False, cap_ip_frag = 0, cap_miss_send_len = miss_send_len,
      act_output = True, act_set_vlan_vid = True, act_set_vlan_pcp = True, act_strip_vlan = True,
      act_set_dl_src = True, act_set_dl_dst = True, act_set_nw_src = True, act_set_nw_dst = True,
      act_set_tp_src = True, act_set_tp_dst = True, act_vendor = False\<rparr>"

definition rev_lookup :: "rev_map \<Rightarrow> string \<Rightarrow> int result" where
  "rev_lookup m k = (case map_of m k of None \<Rightarrow> Inl KeyError | Some v \<Rightarrow> Inr v)"

text \<open>\<^verbatim>\<open>if flag: value += map[key]\<close>, one after the other.\<close>

fun add_flags :: "(bool \<times> int result) list \<Rightarrow> int \<Rightarrow> int result" where
  "add_flags [] v = Inr v"
| "add_flags ((f, x) # fs) v = (if f then bindE x (\<lambda>x. add_flags fs (v + x)) else add_flags fs v)"

definition get_capabilities :: "SwitchCapabilities \<Rightarrow> int result" where
  "get_capabilities self =
     (let bit = rev_lookup ofp_capabilities_rev_map in add_flags [
        (cap_flow_stats self, bit ''OFPC_FLOW_STATS''), (cap_table_stats self, bit ''OFPC_TABLE_STATS''),
        (cap_port_stats self, bit ''OFPC_PORT_STATS''), (cap_stp self, bit ''OFPC_STP''),
        (cap_multi_phy_tx self, bit ''OFPC_MULTI_PHY_TX''), (cap_ip_resam self, bit ''OFPC_IP_REASM'')] 0)"

definition get_actions :: "SwitchCapabilities \<Rightarrow> int result" where
  "get_actions self =
     (let bit = (\<lambda>k. bindE (rev_lookup ofp_action_type_rev_map k) (\<lambda>v. Inr (push_bit (nat (v + 1)) 1))) in add_flags [
        (act_output self, bit ''OFPAT_OUTPUT''), (act_set_vlan_vid self, bit ''OFPAT_SET_VLAN_VID''),
        (act_set_vlan_pcp self, bit ''OFPAT_SET_VLAN_PCP''), (act_strip_vlan self, bit ''OFPAT_STRIP_VLAN''),
        (act_set_dl_src self, bit ''OFPAT_SET_DL_SRC''), (act_set_dl_dst self, bit ''OFPAT_SET_DL_DST''),
        (act_set_nw_src self, bit ''OFPAT_SET_NW_SRC''), (act_set_nw_dst self, bit ''OFPAT_SET_NW_DST''),
        (act_set_tp_src self, bit ''OFPAT_SET_TP_SRC''), (act_set_tp_dst self, bit ''OFPAT_SET_TP_DST'')] 0)"

subsection \<open>State\<close>

type_synonym 'o frame = "ethernet \<times> 'o payload"

text \<open>
  \<open>sw_frames\<close> is the store of frames, \<open>sw_next_frame\<close> the next reference. A slot of the packet buffer
  holds a reference and the port the frame came from. \<open>sw_ports\<close> is the dictionary of ports in the order
  it is iterated. \<open>sw_out\<close> lists the \<^verbatim>\<open>DpPacketOut\<close> events with the frame as it was then. \<open>sw_connected\<close>
  says whether \<^verbatim>\<open>_connection\<close> is set.
\<close>

record 'o switch =
  sw_dpid :: int
  sw_n_buffers :: int
  sw_n_tables :: int
  sw_capabilities :: SwitchCapabilities
  sw_ports :: "(int \<times> ofp_phy_port) list"
  sw_port_stats :: "(int \<times> ofp_port_stats) list"
  sw_table :: flow_table
  sw_packet_buffer :: "(nat \<times> int) option list"
  sw_xid_count :: int
  sw_connected :: bool
  sw_frames :: "nat \<rightharpoonup> 'o frame"
  sw_next_frame :: nat
  sw_out :: "('o frame \<times> ofp_phy_port) list"
  sw_sent :: "bytes list"
  sw_next_XID :: int

text \<open>The clock and what the packet library does not model.\<close>

record 'o switch_env =
  se_packets :: "'o packet_env"
  se_time :: rat

definition hex_2 :: "int \<Rightarrow> string" where
  "hex_2 n = (let d = nat_digits 16 (nat \<bar>n\<bar>); d = (if n < 0 then CHR ''-'' # d else d) in replicate (2 - length d) (CHR '' '') @ d)"

definition default_port_list :: "int \<Rightarrow> int \<Rightarrow> ofp_phy_port list result" where
  "default_port_list num_ports prefix =
     mapE (\<lambda>i. bindE (EthAddr_init (EaStr (''00:00:00:00:'' @ hex_2 (prefix mod 255) @ '':'' @ hex_2 (int i)))) (\<lambda>a.
       Inr (ofp_phy_port_init (\<lambda>p. p\<lparr>pp_port_no := int i, pp_hw_addr := HwEth a\<rparr>)))) [1..<nat (num_ports + 1)]"

text \<open>A dictionary filled in order: a port number that comes again replaces the port under it.\<close>

definition dict_of :: "(int \<times> 'a) list \<Rightarrow> (int \<times> 'a) list" where
  "dict_of kvs = fold (\<lambda>(k, v) d. AList.update k v d) kvs []"

definition SwitchImpl_init :: "int \<Rightarrow> ofp_phy_port list \<Rightarrow> int \<Rightarrow> int \<Rightarrow> int \<Rightarrow> int \<Rightarrow> 'o switch" where
  "SwitchImpl_init dpid ports miss_send_len n_buffers n_tables nextXID =
     \<lparr>sw_dpid = dpid, sw_n_buffers = n_buffers, sw_n_tables = n_tables,
      sw_capabilities = SwitchCapabilities_init miss_send_len,
      sw_ports = dict_of (map (\<lambda>p. (pp_port_no p, p)) ports),
      sw_port_stats = dict_of (map (\<lambda>p. (pp_port_no p, ofp_port_stats_init (\<lambda>s. s\<lparr>pst_port_no := pp_port_no p\<rparr>))) ports),
      sw_table = FlowTable_init, sw_packet_buffer = [], sw_xid_count = xid_generator 1, sw_connected = False,
      sw_frames = Map.empty, sw_next_frame = 0, sw_out = [], sw_sent = [], sw_next_XID = nextXID\<rparr>"

definition set_connection :: "'o switch \<Rightarrow> 'o switch" where
  "set_connection s = s\<lparr>sw_connected := True\<rparr>"

text \<open>\<^verbatim>\<open>send\<close> and \<^verbatim>\<open>ControllerConnection.send\<close>: pack and hand over, or drop silently.\<close>

definition sw_send :: "(int \<Rightarrow> (bytes option \<times> 'm \<times> int) result) \<Rightarrow> 'o switch stmt" where
  "sw_send pack s =
     (if \<not> sw_connected s then (None, s)
      else case pack (sw_next_XID s) of
        Inl e \<Rightarrow> (Some e, s)
      | Inr (None, _, nx) \<Rightarrow> (Some TypeError, s\<lparr>sw_next_XID := nx\<rparr>)
      | Inr (Some b, _, nx) \<Rightarrow> (None, s\<lparr>sw_sent := sw_sent s @ [b], sw_next_XID := nx\<rparr>))"

text \<open>A new frame in the store.\<close>

definition alloc :: "'o frame \<Rightarrow> 'o switch \<Rightarrow> nat \<times> 'o switch" where
  "alloc f s = (sw_next_frame s, s\<lparr>sw_frames := (sw_frames s)(sw_next_frame s \<mapsto> f), sw_next_frame := Suc (sw_next_frame s)\<rparr>)"

definition next_xid_count :: "'o switch \<Rightarrow> int \<times> 'o switch" where
  "next_xid_count s = (let (x, n) = xid_generator_next (sw_xid_count s) in (x, s\<lparr>sw_xid_count := n\<rparr>))"

subsection \<open>The packet buffer\<close>

fun free_slot :: "'a option list \<Rightarrow> nat option" where
  "free_slot [] = None"
| "free_slot (None # vs) = Some 0"
| "free_slot (Some _ # vs) = map_option Suc (free_slot vs)"

definition buffer_packet :: "nat \<Rightarrow> int \<Rightarrow> 'o switch \<Rightarrow> int \<times> 'o switch" where
  "buffer_packet packet in_port s =
     (case free_slot (sw_packet_buffer s) of
        Some i \<Rightarrow> (int i + 1, s\<lparr>sw_packet_buffer := (sw_packet_buffer s)[i := Some (packet, in_port)]\<rparr>)
      | None \<Rightarrow> (int (length (sw_packet_buffer s)) + 1, s\<lparr>sw_packet_buffer := sw_packet_buffer s @ [Some (packet, in_port)]\<rparr>))"

subsection \<open>Actions on a frame\<close>

text \<open>The attributes of action objects; an object without the attribute raises.\<close>

fun action_type :: "ofp_action \<Rightarrow> int option" where
  "action_type (ActHeader a) = ah_type a"
| "action_type (ActDecTtl a) = ah_type a"
| "action_type (ActResubmit a) = ah_type a"
| "action_type (ActOutput a) = Some (ao_type a)"
| "action_type (ActEnqueue a) = Some (aq_type a)"
| "action_type (ActPushMpls a) = Some (apm_type a)"
| "action_type (ActMplsLabel a) = Some (aml_type a)"
| "action_type (ActMplsTc a) = Some (amc_type a)"
| "action_type (ActMplsTtl a) = Some (amt_type a)"
| "action_type (ActPopMpls a) = Some (app_type a)"
| "action_type (ActVlanVid a) = Some (avv_type a)"
| "action_type (ActVlanPcp a) = Some (avp_type a)"
| "action_type (ActDlAddr a) = ada_type a"
| "action_type (ActNwAddr a) = ana_type a"
| "action_type (ActNwTos a) = Some (ant_type a)"
| "action_type (ActTpPort a) = atp_type a"
| "action_type (ActVendorHeader a) = Some (avh_type a)"

definition action_port :: "ofp_action \<Rightarrow> int option result" where
  "action_port a = (case a of ActOutput a \<Rightarrow> Inr (ao_port a) | ActEnqueue a \<Rightarrow> Inr (Some (aq_port a)) | _ \<Rightarrow> Inl AttributeError)"

definition action_dl_addr :: "ofp_action \<Rightarrow> hw result" where
  "action_dl_addr a = (case a of ActDlAddr a \<Rightarrow> Inr (ada_dl_addr a) | _ \<Rightarrow> Inl AttributeError)"

definition action_nw_addr :: "ofp_action \<Rightarrow> IPAddr result" where
  "action_nw_addr a = (case a of ActNwAddr a \<Rightarrow> Inr (ana_nw_addr a) | _ \<Rightarrow> Inl AttributeError)"

definition action_nw_tos :: "ofp_action \<Rightarrow> int result" where
  "action_nw_tos a = (case a of ActNwTos a \<Rightarrow> Inr (ant_nw_tos a) | _ \<Rightarrow> Inl AttributeError)"

definition action_tp_port :: "ofp_action \<Rightarrow> int option result" where
  "action_tp_port a = (case a of ActTpPort a \<Rightarrow> Inr (atp_tp_port a) | _ \<Rightarrow> Inl AttributeError)"

definition action_vlan_pcp :: "ofp_action \<Rightarrow> int result" where
  "action_vlan_pcp a = (case a of ActVlanPcp a \<Rightarrow> Inr (avp_vlan_pcp a) | _ \<Rightarrow> Inl AttributeError)"

definition action_ethertype :: "ofp_action \<Rightarrow> int result" where
  "action_ethertype a = (case a of ActPushMpls a \<Rightarrow> Inr (apm_ethertype a) | ActPopMpls a \<Rightarrow> Inr (app_ethertype a) | _ \<Rightarrow> Inl AttributeError)"

definition action_mpls_label :: "ofp_action \<Rightarrow> int result" where
  "action_mpls_label a = (case a of ActMplsLabel a \<Rightarrow> Inr (aml_mpls_label a) | _ \<Rightarrow> Inl AttributeError)"

definition action_mpls_tc :: "ofp_action \<Rightarrow> int result" where
  "action_mpls_tc a = (case a of ActMplsTc a \<Rightarrow> Inr (amc_mpls_tc a) | _ \<Rightarrow> Inl AttributeError)"

definition action_mpls_ttl :: "ofp_action \<Rightarrow> int result" where
  "action_mpls_ttl a = (case a of ActMplsTtl a \<Rightarrow> Inr (amt_mpls_ttl a) | _ \<Rightarrow> Inl AttributeError)"

text \<open>The action modifies the frame and may raise afterwards: both results count. \<^verbatim>\<open>attr = action.x\<close>:\<close>

definition assign :: "'a result \<Rightarrow> ('a \<Rightarrow> 'o frame) \<Rightarrow> 'o frame \<Rightarrow> py_error option \<times> 'o frame" where
  "assign v f packet = (case v of Inl e \<Rightarrow> (Some e, packet) | Inr x \<Rightarrow> (None, f x))"

text \<open>
  A frame without a tag gets a new one whose payload is nothing: the old payload is only given as
  \<^verbatim>\<open>prev\<close>.
\<close>

definition ensure_vlan :: "'o frame \<Rightarrow> 'o frame" where
  "ensure_vlan = (\<lambda>(h, n).
     (case n of PktNext (PVlan _ _) \<Rightarrow> (h, n)
      | _ \<Rightarrow> (h\<lparr>e_type := 0x8100\<rparr>, PktNext (PVlan (vlan_init\<lparr>v_eth_type := e_type h\<rparr>) NoNext))))"

text \<open>No action has the attribute \<^verbatim>\<open>vlan_id\<close>. \<^verbatim>\<open>pcp\<close> is set on the frame, where nothing reads it.\<close>

definition set_vlan_id :: "ofp_action \<Rightarrow> 'o frame \<Rightarrow> py_error option \<times> 'o frame" where
  "set_vlan_id action packet = (Some AttributeError, ensure_vlan packet)"

definition set_vlan_pcp :: "ofp_action \<Rightarrow> 'o frame \<Rightarrow> py_error option \<times> 'o frame" where
  "set_vlan_pcp action packet =
     (let packet = ensure_vlan packet in assign (action_vlan_pcp action) (\<lambda>_. packet) packet)"

definition strip_vlan :: "ofp_action \<Rightarrow> 'o frame \<Rightarrow> py_error option \<times> 'o frame" where
  "strip_vlan action = (\<lambda>(h, n).
     (case n of PktNext (PVlan v m) \<Rightarrow> (None, (h\<lparr>e_type := v_eth_type v\<rparr>, m)) | _ \<Rightarrow> (None, (h, n))))"

definition set_dl_src :: "ofp_action \<Rightarrow> 'o frame \<Rightarrow> py_error option \<times> 'o frame" where
  "set_dl_src action = (\<lambda>(h, n). assign (action_dl_addr action) (\<lambda>a. (h\<lparr>e_src := a\<rparr>, n)) (h, n))"

definition set_dl_dst :: "ofp_action \<Rightarrow> 'o frame \<Rightarrow> py_error option \<times> 'o frame" where
  "set_dl_dst action = (\<lambda>(h, n). assign (action_dl_addr action) (\<lambda>a. (h\<lparr>e_dst := a\<rparr>, n)) (h, n))"

text \<open>\<^verbatim>\<open>nw_src\<close> and \<^verbatim>\<open>nw_dst\<close> of an IP header are new attributes; the header is packed from \<^verbatim>\<open>srcip\<close> and \<^verbatim>\<open>dstip\<close>.\<close>

definition set_nw_addr :: "ofp_action \<Rightarrow> 'o frame \<Rightarrow> py_error option \<times> 'o frame" where
  "set_nw_addr action = (\<lambda>(h, n).
     (case n of PktNext (PIpv4 _ _) \<Rightarrow> assign (action_nw_addr action) (\<lambda>_. (h, n)) (h, n) | _ \<Rightarrow> (None, (h, n))))"

definition set_nw_tos :: "ofp_action \<Rightarrow> 'o frame \<Rightarrow> py_error option \<times> 'o frame" where
  "set_nw_tos action = (\<lambda>(h, n).
     (case n of PktNext (PIpv4 i m) \<Rightarrow> assign (action_nw_tos action) (\<lambda>t. (h, PktNext (PIpv4 (i\<lparr>ip_tos := t\<rparr>) m))) (h, n)
      | _ \<Rightarrow> (None, (h, n))))"

text \<open>
  The transport ports are looked for directly behind the Ethernet header. A port of \<^verbatim>\<open>None\<close>, which
  only an action made by hand has, is not a port number of the packet model and counts as an error.
\<close>

definition set_tp_src :: "ofp_action \<Rightarrow> 'o frame \<Rightarrow> py_error option \<times> 'o frame" where
  "set_tp_src action = (\<lambda>(h, n).
     (let port = bindE (action_tp_port action) (\<lambda>p. case p of None \<Rightarrow> Inl TypeError | Some p \<Rightarrow> Inr p) in
      case n of
        PktNext (PUdp u m) \<Rightarrow> assign port (\<lambda>p. (h, PktNext (PUdp (u\<lparr>u_srcport := p\<rparr>) m))) (h, n)
      | PktNext (PTcp t m) \<Rightarrow> assign port (\<lambda>p. (h, PktNext (PTcp (t\<lparr>t_srcport := p\<rparr>) m))) (h, n)
      | _ \<Rightarrow> (None, (h, n))))"

definition set_tp_dst :: "ofp_action \<Rightarrow> 'o frame \<Rightarrow> py_error option \<times> 'o frame" where
  "set_tp_dst action = (\<lambda>(h, n).
     (let port = bindE (action_tp_port action) (\<lambda>p. case p of None \<Rightarrow> Inl TypeError | Some p \<Rightarrow> Inr p) in
      case n of
        PktNext (PUdp u m) \<Rightarrow> assign port (\<lambda>p. (h, PktNext (PUdp (u\<lparr>u_dstport := p\<rparr>) m))) (h, n)
      | PktNext (PTcp t m) \<Rightarrow> assign port (\<lambda>p. (h, PktNext (PTcp (t\<lparr>t_dstport := p\<rparr>) m))) (h, n)
      | _ \<Rightarrow> (None, (h, n))))"

text \<open>
  MPLS. Pushing packs the frame, hands the bytes over as \<^verbatim>\<open>prev\<close> and so leaves a label with no payload.
  Popping parses the payload by the action's type, but leaves the type of the frame.
\<close>

definition push_mpls_tag :: "'o packet_env \<Rightarrow> ofp_action \<Rightarrow> 'o frame \<Rightarrow> py_error option \<times> 'o frame" where
  "push_mpls_tag env action = (\<lambda>(h, n).
     (let bottom_of_stack = (case n of PktNext (PMpls _ _) \<Rightarrow> True | _ \<Rightarrow> False) in
      case packet_pack env None (PEthernet h n) of
        Inl e \<Rightarrow> (Some e, (h, n))
      | Inr _ \<Rightarrow>
          let n = PktNext (PMpls (if bottom_of_stack then mpls_init\<lparr>mp_s := 1\<rparr> else mpls_init) NoNext)
          in assign (action_ethertype action) (\<lambda>t. (h\<lparr>e_type := t\<rparr>, n)) (h, n)))"

text \<open>\<^verbatim>\<open>ethernet.type_parsers[t](raw)\<close>.\<close>

definition type_parser :: "'o packet_env \<Rightarrow> int \<Rightarrow> bytes \<Rightarrow> 'o packet option result" where
  "type_parser env t raw =
     (if t = 0x8100 then bindE (vlan_parse env raw) (\<lambda>p. Inr (Some p)) else parse_typed env t raw)"

definition pop_mpls_tag :: "'o packet_env \<Rightarrow> ofp_action \<Rightarrow> 'o frame \<Rightarrow> py_error option \<times> 'o frame" where
  "pop_mpls_tag env action = (\<lambda>(h, n).
     (case n of
        PktNext (PMpls m nn) \<Rightarrow>
          (case (case nn of RawNext b \<Rightarrow> Inr b | PktNext p \<Rightarrow> bindE (packet_pack env None p) (\<lambda>(b, _). Inr b)
                 | _ \<Rightarrow> Inl AttributeError) of
             Inl e \<Rightarrow> (Some e, (h, n))
           | Inr b \<Rightarrow>
               assign (bindE (action_ethertype action) (\<lambda>t. type_parser env t b))
                 (\<lambda>p. (h, case p of None \<Rightarrow> RawNext b | Some p \<Rightarrow> PktNext p)) (h, PktNext (PMpls m (RawNext b))))
      | _ \<Rightarrow> (None, (h, n))))"

text \<open>The mock action pushes with the type of unicast MPLS; then the label's field is assigned.\<close>

definition ensure_mpls :: "'o packet_env \<Rightarrow> 'o frame \<Rightarrow> py_error option \<times> 'o frame" where
  "ensure_mpls env packet =
     (case snd packet of
        PktNext (PMpls _ _) \<Rightarrow> (None, packet)
      | _ \<Rightarrow> push_mpls_tag env (ActPushMpls (ofp_action_push_mpls_init (\<lambda>a. a))) packet)"

definition assign_mpls :: "int result \<Rightarrow> (int \<Rightarrow> mpls \<Rightarrow> mpls) \<Rightarrow> 'o frame \<Rightarrow> py_error option \<times> 'o frame" where
  "assign_mpls v f = (\<lambda>(h, n).
     (case n of
        PktNext (PMpls m nn) \<Rightarrow> assign v (\<lambda>x. (h, PktNext (PMpls (f x m) nn))) (h, n)
      | _ \<Rightarrow> (None, (h, n))))"

definition set_mpls_field ::
    "'o packet_env \<Rightarrow> int result \<Rightarrow> (int \<Rightarrow> mpls \<Rightarrow> mpls) \<Rightarrow> 'o frame \<Rightarrow> py_error option \<times> 'o frame" where
  "set_mpls_field env v f packet =
     (case ensure_mpls env packet of (Some e, packet) \<Rightarrow> (Some e, packet) | (None, packet) \<Rightarrow> assign_mpls v f packet)"

definition set_mpls_label :: "'o packet_env \<Rightarrow> ofp_action \<Rightarrow> 'o frame \<Rightarrow> py_error option \<times> 'o frame" where
  "set_mpls_label env action = set_mpls_field env (action_mpls_label action) (\<lambda>v m. m\<lparr>mp_label := v\<rparr>)"

definition set_mpls_tc :: "'o packet_env \<Rightarrow> ofp_action \<Rightarrow> 'o frame \<Rightarrow> py_error option \<times> 'o frame" where
  "set_mpls_tc env action = set_mpls_field env (action_mpls_tc action) (\<lambda>v m. m\<lparr>mp_tc := v\<rparr>)"

definition set_mpls_ttl :: "'o packet_env \<Rightarrow> ofp_action \<Rightarrow> 'o frame \<Rightarrow> py_error option \<times> 'o frame" where
  "set_mpls_ttl env action = set_mpls_field env (action_mpls_ttl action) (\<lambda>v m. m\<lparr>mp_ttl := v\<rparr>)"

definition dec_mpls_ttl :: "ofp_action \<Rightarrow> 'o frame \<Rightarrow> py_error option \<times> 'o frame" where
  "dec_mpls_ttl action = (\<lambda>(h, n).
     (case n of
        PktNext (PMpls m nn) \<Rightarrow> (None, (h, PktNext (PMpls (m\<lparr>mp_ttl := mp_ttl m - 1\<rparr>) nn)))
      | _ \<Rightarrow> (None, (h, n))))"

text \<open>
  The handlers that only change the frame, by the type of the action. \<^verbatim>\<open>enqueue\<close> calls the output handler
  with a number, or asks for an attribute its action does not have.
\<close>

definition frame_handler :: "'o packet_env \<Rightarrow> int \<Rightarrow> (ofp_action \<Rightarrow> 'o frame \<Rightarrow> py_error option \<times> 'o frame) option" where
  "frame_handler env t =
     (if t = OFPAT_SET_VLAN_VID then Some set_vlan_id
      else if t = OFPAT_SET_VLAN_PCP then Some set_vlan_pcp
      else if t = OFPAT_STRIP_VLAN then Some strip_vlan
      else if t = OFPAT_SET_DL_SRC then Some set_dl_src
      else if t = OFPAT_SET_DL_DST then Some set_dl_dst
      else if t = OFPAT_SET_NW_SRC then Some set_nw_addr
      else if t = OFPAT_SET_NW_DST then Some set_nw_addr
      else if t = OFPAT_SET_NW_TOS then Some set_nw_tos
      else if t = OFPAT_SET_TP_SRC then Some set_tp_src
      else if t = OFPAT_SET_TP_DST then Some set_tp_dst
      else if t = OFPAT_ENQUEUE then Some (\<lambda>_ packet. (Some AttributeError, packet))
      else if t = OFPAT_PUSH_MPLS then Some (push_mpls_tag env)
      else if t = OFPAT_POP_MPLS then Some (pop_mpls_tag env)
      else if t = OFPAT_SET_MPLS_LABEL then Some (set_mpls_label env)
      else if t = OFPAT_SET_MPLS_TC then Some (set_mpls_tc env)
      else if t = OFPAT_SET_MPLS_TTL then Some (set_mpls_ttl env)
      else if t = OFPAT_DEC_MPLS_TTL then Some dec_mpls_ttl
      else None)"

subsection \<open>Packets to the controller and out of ports\<close>

text \<open>
  \<^verbatim>\<open>send_packet_in\<close>. Packing the frame fills in its checksums, also in the store. \<^verbatim>\<open>None\<close> as the buffer
  is \<^verbatim>\<open>0xFFFFFFFF\<close>, and without an identifier the next one is drawn.
\<close>

definition send_packet_in ::
    "'o switch_env \<Rightarrow> int \<Rightarrow> int option \<Rightarrow> nat \<Rightarrow> int option \<Rightarrow> int \<Rightarrow> 'o switch stmt" where
  "send_packet_in env in_port buffer_id r x reason s =
     (case sw_frames s r of
        None \<Rightarrow> (Some AssertionError, s)
      | Some (h, n) \<Rightarrow>
          let buffer_id = (case buffer_id of None \<Rightarrow> 0xFFFFFFFF | Some b \<Rightarrow> b);
              (x, s) = (case x of None \<Rightarrow> next_xid_count s | Some x \<Rightarrow> (x, s))
          in case packet_pack (se_packets env) None (PEthernet h n) of
               Inr (data, PEthernet h n) \<Rightarrow>
                 sw_send (ofp_packet_in_pack True (ofp_packet_in_init (\<lambda>m. pi_set_data (Some data)
                     (m\<lparr>xid := Some x, pi_in_port := in_port, pi_buffer_id := buffer_id, pi_reason := reason\<rparr>))))
                   (s\<lparr>sw_frames := (sw_frames s)(r \<mapsto> (h, n))\<rparr>)
             | Inr _ \<Rightarrow> (None, s)
             | Inl e \<Rightarrow> (Some e, s))"

text \<open>\<^verbatim>\<open>buffer_id = self._buffer_packet(...); self.send_packet_in(..., self.xid_count.next(), ...)\<close>\<close>

definition to_controller :: "'o switch_env \<Rightarrow> nat \<Rightarrow> int \<Rightarrow> int \<Rightarrow> 'o switch stmt" where
  "to_controller env r in_port reason s =
     (let (buffer_id, s) = buffer_packet r in_port s; (x, s) = next_xid_count s
      in send_packet_in env in_port (Some buffer_id) r (Some x) reason s)"

text \<open>\<^verbatim>\<open>real_send\<close>: \<^verbatim>\<open>None\<close> is no port, and cannot be formatted for the message either.\<close>

definition real_send :: "nat \<Rightarrow> int option \<Rightarrow> 'o switch stmt" where
  "real_send r port_no s =
     (case port_no of
        None \<Rightarrow> (Some TypeError, s)
      | Some p \<Rightarrow>
          (case map_of (sw_ports s) p of
             None \<Rightarrow> (Some RuntimeError, s)
           | Some port \<Rightarrow> (None, s\<lparr>sw_out := sw_out s @ [(the (sw_frames s r), port)]\<rparr>)))"

text \<open>
  \<^verbatim>\<open>_output_packet\<close>. \<^verbatim>\<open>None\<close> is smaller than every number. Raising a string, as the last branch does, is
  a \<^verbatim>\<open>TypeError\<close>.
\<close>

definition output_packet :: "'o switch_env \<Rightarrow> nat \<Rightarrow> int option \<Rightarrow> int \<Rightarrow> 'o switch stmt" where
  "output_packet env r out_port in_port s =
     (case out_port of
        None \<Rightarrow> real_send r None s
      | Some p \<Rightarrow>
          if p < OFPP_MAX then real_send r (Some p) s
          else if p = OFPP_IN_PORT then real_send r (Some in_port) s
          else if p = OFPP_FLOOD \<or> p = OFPP_ALL then
            seq (map (\<lambda>(no, port). if no \<noteq> in_port then real_send r (Some (pp_port_no port)) else update (\<lambda>s. s)) (sw_ports s)) s
          else if p = OFPP_CONTROLLER then to_controller env r in_port 1 s
          else (Some TypeError, s))"

text \<open>
  One action: a frame handler on the object in the store, or the output. The test for a resubmit
  compares the type with a class and never succeeds; a type without handler fails while the message
  about it is formatted.
\<close>

definition process_action :: "'o switch_env \<Rightarrow> nat \<Rightarrow> int \<Rightarrow> ofp_action \<Rightarrow> 'o switch stmt" where
  "process_action env r in_port action s =
     (case action_type action of
        None \<Rightarrow> (Some TypeError, s)
      | Some t \<Rightarrow>
          if t = OFPAT_OUTPUT then
            (case action_port action of Inl e \<Rightarrow> (Some e, s) | Inr port \<Rightarrow> output_packet env r port in_port s)
          else case frame_handler (se_packets env) t of
            None \<Rightarrow> (Some TypeError, s)
          | Some f \<Rightarrow>
              (case f action (the (sw_frames s r)) of
                 (e, packet) \<Rightarrow> (e, s\<lparr>sw_frames := (sw_frames s)(r \<mapsto> packet)\<rparr>)))"

definition process_actions :: "'o switch_env \<Rightarrow> ofp_action list \<Rightarrow> nat \<Rightarrow> int \<Rightarrow> 'o switch stmt" where
  "process_actions env actions r in_port = seq (map (process_action env r in_port) actions)"

text \<open>Data of a packet-out is parsed into a new frame.\<close>

definition process_actions_for_data :: "'o switch_env \<Rightarrow> ofp_action list \<Rightarrow> bytes \<Rightarrow> int \<Rightarrow> 'o switch stmt" where
  "process_actions_for_data env actions data in_port s =
     (case ethernet_parse (se_packets env) data of
        Inl e \<Rightarrow> (Some e, s)
      | Inr (PEthernet h n) \<Rightarrow> (let (r, s) = alloc (h, n) s in process_actions env actions r in_port s)
      | Inr _ \<Rightarrow> (None, s))"

text \<open>The bound is checked with \<^verbatim>\<open>>\<close>. A slot is freed only when all actions went well.\<close>

definition process_from_buffer :: "'o switch_env \<Rightarrow> ofp_action list \<Rightarrow> int \<Rightarrow> 'o switch stmt" where
  "process_from_buffer env actions buffer_id s =
     (let i = buffer_id - 1 in
      if i > int (length (sw_packet_buffer s)) then (None, s)
      else if i = int (length (sw_packet_buffer s)) then (Some IndexError, s)
      else case sw_packet_buffer s ! nat i of
        None \<Rightarrow> (None, s)
      | Some (r, in_port) \<Rightarrow>
          seq [process_actions env actions r in_port,
               update (\<lambda>s. s\<lparr>sw_packet_buffer := (sw_packet_buffer s)[nat i := None]\<rparr>)] s)"

subsection \<open>Packets from the network\<close>

definition touch_entry :: "table_entry \<Rightarrow> int \<Rightarrow> rat \<Rightarrow> flow_table \<Rightarrow> flow_table" where
  "touch_entry e n now t = t\<lparr>ft_table := map (\<lambda>x. if te_id x = te_id e then touch_packet x n now else x) (ft_table t)\<rparr>"

text \<open>\<^verbatim>\<open>len(packet)\<close> is the length of the packed frame.\<close>

definition process_packet :: "'o switch_env \<Rightarrow> nat \<Rightarrow> int \<Rightarrow> 'o switch stmt" where
  "process_packet env r in_port s =
     (case sw_frames s r of
        None \<Rightarrow> (Some AssertionError, s)
      | Some (h, n) \<Rightarrow>
          (case entry_for_packet (sw_table s) h n in_port of
             Inl e \<Rightarrow> (Some e, s)
           | Inr None \<Rightarrow> to_controller env r in_port 0 s
           | Inr (Some entry) \<Rightarrow>
               (case packet_pack (se_packets env) None (PEthernet h n) of
                  Inl e \<Rightarrow> (Some e, s)
                | Inr (data, PEthernet h n) \<Rightarrow>
                    process_actions env (te_actions entry) r in_port
                      (s\<lparr>sw_frames := (sw_frames s)(r \<mapsto> (h, n)),
                         sw_table := touch_entry entry (int (length data)) (se_time env) (sw_table s)\<rparr>)
                | Inr _ \<Rightarrow> (None, s))))"

definition receive_frame :: "'o switch_env \<Rightarrow> 'o frame \<Rightarrow> int \<Rightarrow> 'o switch stmt" where
  "receive_frame env f in_port s = (let (r, s) = alloc f s in process_packet env r in_port s)"

subsection \<open>Ports\<close>

definition send_port_status :: "ofp_phy_port \<Rightarrow> int \<Rightarrow> 'o switch stmt" where
  "send_port_status port reason s =
     (if reason \<notin> set (map snd ofp_port_reason_rev_map) then (Some AssertionError, s)
      else sw_send (ofp_port_status_pack True (ofp_port_status_init (\<lambda>m. m\<lparr>ps_desc := port, ps_reason := reason\<rparr>))) s)"

definition take_port_down :: "ofp_phy_port \<Rightarrow> 'o switch stmt" where
  "take_port_down port s =
     (let port_no = pp_port_no port in
      if map_of (sw_ports s) port_no = None then (Some RuntimeError, s)
      else send_port_status port 1 (s\<lparr>sw_ports := AList.delete port_no (sw_ports s)\<rparr>))"

definition bring_port_up :: "ofp_phy_port \<Rightarrow> 'o switch stmt" where
  "bring_port_up port s =
     (let port_no = pp_port_no port in
      if map_of (sw_ports s) port_no \<noteq> None then (Some RuntimeError, s)
      else send_port_status port 0 (s\<lparr>sw_ports := AList.update port_no port (sw_ports s)\<rparr>))"

subsection \<open>OpenFlow messages\<close>

definition send_hello :: "'o switch stmt" where
  "send_hello = sw_send (bare_pack True (ofp_hello_init (\<lambda>m. m)))"

definition send_echo :: "'o switch stmt" where
  "send_echo = sw_send (ofp_echo_request_pack True (ofp_echo_request_init (\<lambda>m. m)))"

definition receive_echo :: "ofp_echo_request \<Rightarrow> 'o switch stmt" where
  "receive_echo ofp = sw_send (ofp_echo_reply_pack True (ofp_echo_reply_init (\<lambda>m. m\<lparr>xid := xid ofp\<rparr>)))"

definition receive_features_request :: "ofp_header \<Rightarrow> 'o switch stmt" where
  "receive_features_request ofp s =
     (case bindE (get_capabilities (sw_capabilities s)) (\<lambda>c. bindE (get_actions (sw_capabilities s)) (\<lambda>a. Inr (c, a))) of
        Inl e \<Rightarrow> (Some e, s)
      | Inr (c, a) \<Rightarrow>
          sw_send (ofp_features_reply_pack True (ofp_features_reply_init (\<lambda>m. m\<lparr>fr_datapath_id := sw_dpid s,
            xid := xid ofp, fr_n_buffers := sw_n_buffers s, fr_n_tables := sw_n_tables s, fr_capabilities := c,
            fr_actions := a, fr_ports := map snd (sw_ports s)\<rparr>))) s)"

text \<open>In Python 2 \<^verbatim>\<open>None > 0\<close> is false.\<close>

definition positive :: "int option \<Rightarrow> bool" where
  "positive v = (case v of None \<Rightarrow> False | Some n \<Rightarrow> n > 0)"

definition receive_flow_mod :: "'o switch_env \<Rightarrow> ofp_flow_mod \<Rightarrow> 'o switch stmt" where
  "receive_flow_mod env ofp s =
     (case process_flow_mod ofp (se_time env) (sw_table s) of
        Inl e \<Rightarrow> (Some e, s)
      | Inr (_, t) \<Rightarrow>
          let s = s\<lparr>sw_table := t\<rparr>
          in if positive (fm_buffer_id ofp) then process_from_buffer env (fm_actions ofp) (the (fm_buffer_id ofp)) s
             else (None, s))"

definition receive_packet_out :: "'o switch_env \<Rightarrow> ofp_packet_out \<Rightarrow> 'o switch stmt" where
  "receive_packet_out env m s =
     (if po_data m \<noteq> [] then process_actions_for_data env (po_actions m) (po_data m) (po_in_port m) s
      else if po_buffer_id m > 0 then process_from_buffer env (po_actions m) (po_buffer_id m) s
      else (None, s))"

definition receive_barrier_request :: "ofp_header \<Rightarrow> 'o switch stmt" where
  "receive_barrier_request ofp = sw_send (ofp_barrier_reply_pack True (ofp_barrier_reply_init (\<lambda>m. m\<lparr>xid := xid ofp\<rparr>)))"

definition receive_get_config_request :: "ofp_header \<Rightarrow> 'o switch stmt" where
  "receive_get_config_request ofp =
     sw_send (ofp_get_config_reply_pack True (ofp_get_config_reply_init (\<lambda>m. m\<lparr>xid := xid ofp\<rparr>)))"

definition receive_vendor :: "ofp_vendor \<Rightarrow> 'o switch stmt" where
  "receive_vendor m = sw_send (ofp_error_pack True (ofp_error_init (\<lambda>m. m\<lparr>oe_type := 1, oe_code := 3\<rparr>)))"

text \<open>
  Statistics. \<^verbatim>\<open>unpack\<close> returns what is left of the bytes, not the request; the switch has no
  \<^verbatim>\<open>table_id\<close>, the bytes no \<^verbatim>\<open>port_no\<close>, the table no \<^verbatim>\<open>table_stats\<close>. Only the description is answered.
\<close>

definition desc_stats :: "'o switch \<Rightarrow> ofp_desc_stats" where
  "desc_stats s = ofp_desc_stats_init (\<lambda>d. d\<lparr>ds_mfr_desc := ''BadAssEmulatedPoxSwitch(TM)'',
     ds_hw_desc := ''your finest emulated asics'',
     ds_sw_desc := ''pox. reliable, fast, stable. Choose 0 (or more?)'',
     ds_serial_num := py_str (sw_dpid s),
     ds_dp_desc := ''high performance emuswitch. Several packets per second have been observed (but not by reliable witnesses)''\<rparr>)"

definition stats_body :: "int option \<Rightarrow> bytes \<Rightarrow> 'o switch \<Rightarrow> stats_item result" where
  "stats_body t body s =
     (if t = Some OFPST_DESC then Inr (ItDesc (desc_stats s))
      else if t = Some OFPST_FLOW then
        bindE (ofp_flow_stats_request_unpack (ofp_flow_stats_request_init (\<lambda>m. m)) body) (\<lambda>_. Inl AttributeError)
      else if t = Some OFPST_AGGREGATE then
        bindE (ofp_aggregate_stats_request_unpack (ofp_aggregate_stats_request_init (\<lambda>m. m)) body) (\<lambda>_. Inl AttributeError)
      else if t = Some OFPST_PORT then
        bindE (ofp_port_stats_request_unpack (ofp_port_stats_request_init (\<lambda>m. m)) body) (\<lambda>_. Inl AttributeError)
      else Inl AttributeError)"

definition receive_stats_request :: "ofp_stats_request \<Rightarrow> 'o switch stmt" where
  "receive_stats_request ofp s =
     (case bindE (case srq_body ofp of ReqBytes b \<Rightarrow> Inr b | _ \<Rightarrow> Inl TypeError) (\<lambda>b. stats_body (srq_type ofp) b s) of
        Inl e \<Rightarrow> (Some e, s)
      | Inr item \<Rightarrow>
          sw_send (ofp_stats_reply_pack True (ofp_stats_reply_init (\<lambda>m. m\<lparr>xid := xid ofp, srp_body := RepOne item\<rparr>))) s)"

text \<open>The handlers by the type of the message; any other type is an error.\<close>

definition sw_handle :: "'o switch_env \<Rightarrow> of_msg \<Rightarrow> 'o switch stmt" where
  "sw_handle env msg s =
     (case msg of
        MHello m \<Rightarrow> send_hello s
      | MEchoRequest m \<Rightarrow> receive_echo m s
      | MFeaturesRequest m \<Rightarrow> receive_features_request m s
      | MFlowMod m \<Rightarrow> receive_flow_mod env m s
      | MPacketOut m \<Rightarrow> receive_packet_out env m s
      | MBarrierRequest m \<Rightarrow> receive_barrier_request m s
      | MGetConfigRequest m \<Rightarrow> receive_get_config_request m s
      | MSetConfig m \<Rightarrow> (None, s)
      | MStatsRequest m \<Rightarrow> receive_stats_request m s
      | MVendor m \<Rightarrow> receive_vendor m s
      | MEchoReply m \<Rightarrow> (None, s)
      | _ \<Rightarrow> (Some RuntimeError, s))"

text \<open>
  \<^verbatim>\<open>ControllerConnection.read\<close> on the receive buffer: unlike the controller's loop it stops at the first
  message whose handler raises. Nothing is returned when the buffer holds only a part of a message.
\<close>

datatype cc_end = CcTrue | CcFalse | CcNone | CcRaised py_error

partial_function (option) cc_read ::
    "(of_msg \<Rightarrow> 's stmt) \<Rightarrow> bytes \<Rightarrow> 's \<Rightarrow> (cc_end \<times> bytes \<times> 's) option" where
  [code]: "cc_read h buf s =
     (case next_frame buf of
        Inl e \<Rightarrow> Some (CcRaised e, buf, s)
      | Inr NeedMore \<Rightarrow> Some (if length buf > 4 then CcNone else CcTrue, buf, s)
      | Inr BadVersion \<Rightarrow> Some (CcFalse, buf, s)
      | Inr (Frame t m rest) \<Rightarrow>
          (case h m s of
             (Some e, s) \<Rightarrow> Some (CcFalse, rest, s)
           | (None, s) \<Rightarrow> cc_read h rest s))"

subsection \<open>The invariant of the switch\<close>

text \<open>
  The flow table is in order, what is buffered is in the store, references in the store are below the
  next one, and every port is under its own number.
\<close>

definition ports_ok :: "(int \<times> ofp_phy_port) list \<Rightarrow> bool" where
  "ports_ok ps \<longleftrightarrow> distinct (map fst ps) \<and> (\<forall>(n, p) \<in> set ps. pp_port_no p = n)"

definition sw_ok :: "'o switch \<Rightarrow> bool" where
  "sw_ok s \<longleftrightarrow> table_ok (sw_table s) \<and> ports_ok (sw_ports s) \<and>
     (\<forall>v. Some v \<in> set (sw_packet_buffer s) \<longrightarrow> fst v \<in> dom (sw_frames s)) \<and>
     (\<forall>r \<in> dom (sw_frames s). r < sw_next_frame s) \<and> 0 \<le> sw_xid_count s \<and> sw_xid_count s \<le> MAX_XID"

lemma sw_ok_frame [simp]:
  "sw_ok (s\<lparr>sw_sent := x\<rparr>) = sw_ok s" "sw_ok (s\<lparr>sw_next_XID := n\<rparr>) = sw_ok s"
  "sw_ok (s\<lparr>sw_out := es\<rparr>) = sw_ok s"
  by (simp_all add: sw_ok_def)

lemma sw_ok_send: "sw_ok s \<Longrightarrow> sw_ok (snd (sw_send p s))"
  by (auto simp: sw_send_def split: sum.split option.split)

lemma sw_ok_store: "sw_ok s \<Longrightarrow> r \<in> dom (sw_frames s) \<Longrightarrow> sw_ok (s\<lparr>sw_frames := (sw_frames s)(r \<mapsto> f)\<rparr>)"
  by (auto simp: sw_ok_def)

lemma sw_ok_alloc: "sw_ok s \<Longrightarrow> sw_ok (snd (alloc f s)) \<and> fst (alloc f s) \<in> dom (sw_frames (snd (alloc f s)))"
  by (auto simp: sw_ok_def alloc_def less_Suc_eq)

lemma frames_kept [simp]:
  "sw_frames (snd (sw_send p s)) = sw_frames s"
  "sw_frames (snd (next_xid_count s)) = sw_frames s"
  "sw_frames (snd (buffer_packet r q s)) = sw_frames s"
  by (auto simp: sw_send_def next_xid_count_def xid_generator_next_def buffer_packet_def Let_def split: sum.split option.split)

text \<open>\<open>free_slot\<close> is the first empty slot.\<close>

lemma free_slot_Some: "free_slot vs = Some i \<Longrightarrow> i < length vs \<and> vs ! i = None"
  by (induction vs arbitrary: i rule: free_slot.induct) auto

lemma free_slot_None: "free_slot vs = None \<longleftrightarrow> None \<notin> set vs"
  by (induction vs rule: free_slot.induct) auto

lemma buffer_packet_spec:
  assumes "buffer_packet r p s = (b, s')"
  shows "1 \<le> b" "nat (b - 1) < length (sw_packet_buffer s')" "sw_packet_buffer s' ! nat (b - 1) = Some (r, p)"
    "s' = s\<lparr>sw_packet_buffer := sw_packet_buffer s'\<rparr>"
    "i < length (sw_packet_buffer s) \<Longrightarrow> sw_packet_buffer s ! i = Some v \<Longrightarrow>
       i < length (sw_packet_buffer s') \<and> sw_packet_buffer s' ! i = Some v"
    "w \<in> set (sw_packet_buffer s') \<Longrightarrow> w \<in> set (sw_packet_buffer s) \<or> w = Some (r, p)"
  using assms free_slot_Some [of "sw_packet_buffer s"] set_update_subset_insert [THEN subsetD, of w "sw_packet_buffer s" _ "Some (r, p)"]
  by (auto simp: buffer_packet_def nth_list_update nth_append split: option.splits)

lemma buffer_packet_fields [simp]:
  "sw_table (snd (buffer_packet r p s)) = sw_table s" "sw_ports (snd (buffer_packet r p s)) = sw_ports s"
  "sw_next_frame (snd (buffer_packet r p s)) = sw_next_frame s" "sw_out (snd (buffer_packet r p s)) = sw_out s"
  "sw_connected (snd (buffer_packet r p s)) = sw_connected s" "sw_xid_count (snd (buffer_packet r p s)) = sw_xid_count s"
  "sw_next_XID (snd (buffer_packet r p s)) = sw_next_XID s" "sw_sent (snd (buffer_packet r p s)) = sw_sent s"
  by (simp_all add: buffer_packet_def split: option.split)

lemma sw_ok_buffer: "sw_ok s \<Longrightarrow> r \<in> dom (sw_frames s) \<Longrightarrow> sw_ok (snd (buffer_packet r p s))"
proof -
  assume ok: "sw_ok s" "r \<in> dom (sw_frames s)"
  obtain b s' where b: "buffer_packet r p s = (b, s')" by fastforce
  have "sw_table s' = sw_table s" "sw_ports s' = sw_ports s" "sw_frames s' = sw_frames s" "sw_next_frame s' = sw_next_frame s"
    using buffer_packet_fields [of r p s] frames_kept(3) [of r p s] by (simp_all add: b)
  moreover have "sw_xid_count s' = sw_xid_count s" using buffer_packet_fields(6) [of r p s] by (simp add: b)
  ultimately show ?thesis using ok buffer_packet_spec(6) [OF b] by (fastforce simp: sw_ok_def b)
qed
lemma dom_store: "r \<in> dom (sw_frames s) \<Longrightarrow> dom (sw_frames (s\<lparr>sw_frames := (sw_frames s)(r \<mapsto> f)\<rparr>)) = dom (sw_frames s)"
  by auto

text \<open>What an action may do: the invariant is kept and no frame is lost.\<close>

definition sw_safe :: "'o switch stmt \<Rightarrow> nat \<Rightarrow> bool" where
  "sw_safe c r \<longleftrightarrow> (\<forall>s. sw_ok s \<and> r \<in> dom (sw_frames s) \<longrightarrow> sw_ok (snd (c s)) \<and> r \<in> dom (sw_frames (snd (c s))))"

lemma sw_safeD: "sw_safe c r \<Longrightarrow> sw_ok s \<Longrightarrow> r \<in> dom (sw_frames s) \<Longrightarrow> sw_ok (snd (c s)) \<and> r \<in> dom (sw_frames (snd (c s)))"
  by (simp add: sw_safe_def)

lemma sw_safe_seq: "(\<And>c. c \<in> set cs \<Longrightarrow> sw_safe c r) \<Longrightarrow> sw_safe (seq cs) r"
  unfolding sw_safe_def
  by (intro allI impI, rule seq_keeps [where P = "\<lambda>s. sw_ok s \<and> r \<in> dom (sw_frames s)"]) blast+

lemma sw_safe_send: "sw_safe (sw_send p) r"
  by (simp add: sw_safe_def sw_ok_send)

lemma sw_safe_next_xid: "sw_ok s \<Longrightarrow> sw_ok (snd (next_xid_count s))"
  by (simp add: next_xid_count_def xid_generator_next_def Let_def sw_ok_def MAX_XID_def)

lemma sw_safe_packet_in: "sw_safe (send_packet_in env in_port b r x reason) r"
proof (unfold sw_safe_def, intro allI impI)
  fix s :: "'a switch"
  assume s: "sw_ok s \<and> r \<in> dom (sw_frames s)"
  then obtain h n where f: "sw_frames s r = Some (h, n)" by auto
  obtain y t where t: "(case x of None \<Rightarrow> next_xid_count s | Some x \<Rightarrow> (x, s)) = (y, t)" by fastforce
  have ok: "sw_ok t" "sw_frames t = sw_frames s"
    using arg_cong [OF t, of snd] s sw_safe_next_xid [of s] frames_kept(2) [of s] by (auto split: option.splits simp del: frames_kept)
  then have "sw_ok (t\<lparr>sw_frames := (sw_frames t)(r \<mapsto> g)\<rparr>)" for g using s sw_ok_store [of t r g] by auto
  with ok s show "sw_ok (snd (send_packet_in env in_port b r x reason s)) \<and>
      r \<in> dom (sw_frames (snd (send_packet_in env in_port b r x reason s)))"
    by (auto simp: send_packet_in_def f t Let_def intro!: sw_ok_send split: sum.split packet.split)
qed

lemma sw_safe_to_controller: "sw_safe (to_controller env r in_port reason) r"
proof (unfold sw_safe_def, intro allI impI)
  fix s :: "'a switch"
  assume s: "sw_ok s \<and> r \<in> dom (sw_frames s)"
  obtain b t where b: "buffer_packet r in_port s = (b, t)" by fastforce
  obtain x u where x: "next_xid_count t = (x, u)" by fastforce
  have "sw_ok u" "r \<in> dom (sw_frames u)"
    using s sw_ok_buffer [of s r in_port] sw_safe_next_xid [of t] frames_kept(2) [of t] frames_kept(3) [of r in_port s]
    by (simp_all add: b x)
  then show "sw_ok (snd (to_controller env r in_port reason s)) \<and> r \<in> dom (sw_frames (snd (to_controller env r in_port reason s)))"
    using sw_safeD [OF sw_safe_packet_in] by (simp add: to_controller_def b x)
qed

lemma sw_safe_real_send: "sw_safe (real_send r p) r"
  by (auto simp: sw_safe_def real_send_def split: option.split)

lemma sw_safe_output: "sw_safe (output_packet env r p in_port) r"
proof (cases p)
  case None
  then show ?thesis using sw_safe_real_send [of r None] by (simp add: sw_safe_def output_packet_def)
next
  case (Some q)
  have flood: "sw_safe (seq (map (\<lambda>(no, port). if no \<noteq> in_port then real_send r (Some (pp_port_no port)) else update (\<lambda>s. s)) ps)) r" for ps
    by (rule sw_safe_seq) (auto simp: sw_safe_real_send, simp add: sw_safe_def update_def)
  show ?thesis
  proof (unfold sw_safe_def, intro allI impI)
    fix s :: "'a switch"
    assume "sw_ok s \<and> r \<in> dom (sw_frames s)"
    then have s: "sw_ok s" "r \<in> dom (sw_frames s)" by simp_all
    show "sw_ok (snd (output_packet env r p in_port s)) \<and> r \<in> dom (sw_frames (snd (output_packet env r p in_port s)))"
      using sw_safeD [OF sw_safe_real_send s, of "Some q"] sw_safeD [OF sw_safe_real_send s, of "Some in_port"]
        sw_safeD [OF flood s, of "sw_ports s"] sw_safeD [OF sw_safe_to_controller s, of env in_port 1] s
      by (simp add: output_packet_def Some)
  qed
qed

lemma sw_safe_action: "sw_safe (process_action env r in_port a) r"
proof (unfold sw_safe_def, intro allI impI)
  fix s :: "'a switch"
  assume s: "sw_ok s \<and> r \<in> dom (sw_frames s)"
  then show "sw_ok (snd (process_action env r in_port a s)) \<and> r \<in> dom (sw_frames (snd (process_action env r in_port a s)))"
    using sw_safeD [OF sw_safe_output, of s r env _ in_port] sw_ok_store [of s r]
    by (auto simp: process_action_def split: option.split sum.split prod.split)
qed

lemma sw_safe_actions: "sw_safe (process_actions env as r in_port) r"
  unfolding process_actions_def by (rule sw_safe_seq) (auto simp: sw_safe_action)

lemma sw_ok_process_data: "sw_ok s \<Longrightarrow> sw_ok (snd (process_actions_for_data env as data in_port s))"
proof -
  assume ok: "sw_ok s"
  have "sw_ok (snd (process_actions env as (fst (alloc f s)) in_port (snd (alloc f s))))" for f
    using sw_ok_alloc [OF ok, of f] sw_safeD [OF sw_safe_actions] by blast
  with ok show ?thesis
    by (auto simp: process_actions_for_data_def Let_def case_prod_unfold split: sum.split packet.split)
qed

lemma sw_ok_clear: "sw_ok s \<Longrightarrow> sw_ok (s\<lparr>sw_packet_buffer := (sw_packet_buffer s)[i := None]\<rparr>)"
  by (auto simp: sw_ok_def dest!: set_update_subset_insert [THEN subsetD])

lemma sw_ok_from_buffer:
  assumes "sw_ok s" "1 \<le> b"
  shows "sw_ok (snd (process_from_buffer env as b s))"
proof -
  have "sw_ok (snd (seq [process_actions env as r p, update (\<lambda>s. s\<lparr>sw_packet_buffer := (sw_packet_buffer s)[i := None]\<rparr>)] s))"
    if "r \<in> dom (sw_frames s)" for r p i
    using sw_safeD [OF sw_safe_actions assms(1) that, of env as p]
    by (auto simp: update_def sw_ok_clear split: prod.split option.split)
  moreover have "r \<in> dom (sw_frames s)"
    if "sw_packet_buffer s ! i = Some (r, p)" "i < length (sw_packet_buffer s)" for r p i
    using assms(1) that nth_mem [of i "sw_packet_buffer s"] unfolding sw_ok_def by (metis fst_conv)
  ultimately show ?thesis
    using assms by (auto simp: process_from_buffer_def Let_def simp del: seq.simps split: option.split)
qed

lemma table_ok_touch: "table_ok t \<Longrightarrow> table_ok (touch_entry e n now t)"
  by (erule table_ok_map [where g = "\<lambda>x. if te_id x = te_id e then touch_packet x n now else x"])
    (simp_all add: touch_entry_def touch_packet_def)

lemma sw_ok_process_packet:
  assumes "sw_ok s" "r \<in> dom (sw_frames s)"
  shows "sw_ok (snd (process_packet env r in_port s))"
proof -
  have "sw_ok (s\<lparr>sw_frames := (sw_frames s)(r \<mapsto> f), sw_table := touch_entry e n now (sw_table s)\<rparr>)" for f e n now
    using assms by (auto simp: sw_ok_def table_ok_touch)
  from sw_safeD [OF sw_safe_actions this] sw_safeD [OF sw_safe_to_controller assms] assms show ?thesis
    by (auto simp: process_packet_def split: sum.split packet.split option.split)
qed

lemma sw_ok_receive_frame: "sw_ok s \<Longrightarrow> sw_ok (snd (receive_frame env f in_port s))"
  using sw_ok_alloc [of s f] by (auto simp: receive_frame_def case_prod_unfold Let_def intro!: sw_ok_process_packet)

lemma sw_ok_flow_mod:
  assumes "sw_ok s" "match_ok (fm_match ofp)"
  shows "sw_ok (snd (receive_flow_mod env ofp s))"
proof -
  have "sw_ok (s\<lparr>sw_table := t\<rparr>)" if "process_flow_mod ofp (se_time env) (sw_table s) = Inr (x, t)" for x t
    using process_flow_mod_ok [OF _ assms(2) that] assms(1) by (simp add: sw_ok_def)
  then show ?thesis
    using assms by (auto simp: receive_flow_mod_def Let_def positive_def intro!: sw_ok_from_buffer split: sum.split option.splits)
qed

text \<open>Every message keeps the invariant; the match of a flow-mod has to be well-formed.\<close>

definition sw_msg_ok :: "of_msg \<Rightarrow> bool" where
  "sw_msg_ok m \<longleftrightarrow> (case m of MFlowMod f \<Rightarrow> match_ok (fm_match f) | _ \<Rightarrow> True)"

lemma sw_ok_handle:
  assumes "sw_ok s" "sw_msg_ok m"
  shows "sw_ok (snd (sw_handle env m s))"
  using assms
  by (cases m) (auto simp: sw_handle_def sw_msg_ok_def send_hello_def receive_echo_def receive_features_request_def
    receive_barrier_request_def receive_get_config_request_def receive_vendor_def receive_stats_request_def
    receive_packet_out_def sw_ok_send sw_ok_flow_mod sw_ok_process_data sw_ok_from_buffer split: sum.split)

lemma ports_ok_delete: "ports_ok ps \<Longrightarrow> ports_ok (AList.delete k ps)"
  using AList.distinct_delete [of ps k] by (auto simp: ports_ok_def AList.delete_eq)

lemma set_alist_update: "x \<in> set (AList.update k v ps) \<Longrightarrow> x = (k, v) \<or> x \<in> set ps"
  by (induction ps) (auto split: if_splits)

lemma ports_ok_update: "ports_ok ps \<Longrightarrow> ports_ok (AList.update (pp_port_no p) p ps)"
  using AList.distinct_update [of ps "pp_port_no p" p] by (auto simp: ports_ok_def dest!: set_alist_update)

lemma sw_ok_ports: "sw_ok s \<Longrightarrow> ports_ok ps \<Longrightarrow> sw_ok (s\<lparr>sw_ports := ps\<rparr>)"
  by (simp add: sw_ok_def)

lemma sw_ok_portsD: "sw_ok s \<Longrightarrow> ports_ok (sw_ports s)"
  by (simp add: sw_ok_def)

lemma switch_ports_numbered: "sw_ok s \<Longrightarrow> (n, p) \<in> set (sw_ports s) \<Longrightarrow> pp_port_no p = n"
  by (auto simp: sw_ok_def ports_ok_def)

lemma sw_ok_port_status: "sw_ok s \<Longrightarrow> sw_ok (snd (send_port_status p reason s))"
  by (simp add: send_port_status_def sw_ok_send)

lemma sw_ok_take_port_down: "sw_ok s \<Longrightarrow> sw_ok (snd (take_port_down p s))"
  by (auto simp: take_port_down_def Let_def sw_ok_portsD intro!: sw_ok_port_status sw_ok_ports ports_ok_delete)

lemma sw_ok_bring_port_up: "sw_ok s \<Longrightarrow> sw_ok (snd (bring_port_up p s))"
  by (auto simp: bring_port_up_def Let_def sw_ok_portsD intro!: sw_ok_port_status sw_ok_ports ports_ok_update)

lemma ports_ok_dict: "ports_ok (dict_of (map (\<lambda>p. (pp_port_no p, p)) ps))"
proof -
  have "ports_ok (fold (\<lambda>(k, v) d. AList.update k v d) (map (\<lambda>p. (pp_port_no p, p)) ps) d)" if "ports_ok d" for d
    using that by (induction ps arbitrary: d) (auto simp: ports_ok_update)
  from this [of "[]"] show ?thesis by (simp add: dict_of_def ports_ok_def)
qed

lemma sw_ok_init: "sw_ok (SwitchImpl_init dpid ports msl nb nt nx)"
  by (simp add: sw_ok_def SwitchImpl_init_def ports_ok_dict table_ok_init xid_generator_def MAX_XID_def)

subsection \<open>Forwarding\<close>

lemma flood_outputs:
  assumes "\<forall>(n, p) \<in> set qs. map_of (sw_ports s) n = Some p \<and> pp_port_no p = n"
  shows "seq (map (\<lambda>(no, port). if no \<noteq> in_port then real_send r (Some (pp_port_no port)) else update (\<lambda>s. s)) qs) s =
    (None, s\<lparr>sw_out := sw_out s @ map (\<lambda>(n, p). (the (sw_frames s r), p)) (filter (\<lambda>(n, p). n \<noteq> in_port) qs)\<rparr>)"
  using assms
proof (induction qs arbitrary: s)
  case (Cons q qs)
  obtain n p where q: "q = (n, p)" by fastforce
  show ?case
  proof (cases "n = in_port")
    case True
    then show ?thesis using Cons by (simp add: q update_def)
  next
    case False
    let ?s = "s\<lparr>sw_out := sw_out s @ [(the (sw_frames s r), p)]\<rparr>"
    have "real_send r (Some (pp_port_no p)) s = (None, ?s)" using Cons.prems by (simp add: q real_send_def)
    with Cons.IH [of ?s] Cons.prems False show ?thesis by (simp add: q)
  qed
qed simp

lemma ports_ok_lookup: "ports_ok ps \<Longrightarrow> (n, p) \<in> set ps \<Longrightarrow> map_of ps n = Some p \<and> pp_port_no p = n"
  by (auto simp: ports_ok_def)

lemma output_flood:
  assumes "sw_ok s" "v = OFPP_FLOOD \<or> v = OFPP_ALL"
  shows "output_packet env r (Some v) in_port s =
    (None, s\<lparr>sw_out := sw_out s @ map (\<lambda>(n, p). (the (sw_frames s r), p)) (filter (\<lambda>(n, p). n \<noteq> in_port) (sw_ports s))\<rparr>)"
proof -
  have "\<forall>(n, p) \<in> set (sw_ports s). map_of (sw_ports s) n = Some p \<and> pp_port_no p = n"
    using ports_ok_lookup [OF sw_ok_portsD [OF assms(1)]] by blast
  from flood_outputs [OF this] assms(2) show ?thesis by (auto simp: output_packet_def)
qed

lemma output_port:
  assumes "map_of (sw_ports s) p = Some port" "p < OFPP_MAX"
  shows "output_packet env r (Some p) in_port s = (None, s\<lparr>sw_out := sw_out s @ [(the (sw_frames s r), port)]\<rparr>)"
  using assms by (simp add: output_packet_def real_send_def)

subsection \<open>The way of a packet without an entry\<close>

lemma packet_in_packs:
  assumes "0 \<le> x" "x \<le> MAX_XID" "0 \<le> in_port" "in_port < 65536" "0 \<le> reason" "reason < 256" "length data + 18 < 65536"
    "m = ofp_packet_in_init (\<lambda>m. pi_set_data (Some data) (m\<lparr>xid := Some x, pi_in_port := in_port, pi_buffer_id := b, pi_reason := reason\<rparr>))"
  shows "\<exists>bs. ofp_packet_in_pack True m nx = Inr (Some bs, m\<lparr>hlength := 18 + int (length data), pi_total_len := 18 + int (length data)\<rparr>, nx)"
proof -
  let ?m = "m\<lparr>hlength := 18 + int (length data), pi_total_len := 18 + int (length data)\<rparr>"
  have t: "ofp_type_map OFPT_PACKET_IN \<noteq> None" by code_simp
  have "\<exists>h. ofp_header_pack True ?m nx = Inr (h, ?m, nx)"
    using assms t by (auto simp: ofp_header_pack_def ofp_header_assert_def ofp_packet_in_init_def pi_set_data_def MAX_XID_def Let_def
      struct_pack.simps code_min_def code_max_def code_signed_def)
  moreover have "0 \<le> b AND 0xffffffff" "b AND 0xffffffff < 4294967296"
    using and_mask32 [of b] by (simp_all add: mask32_def)
  then have "\<exists>y. struct_pack ''!LHHBB'' [pi_buffer_id ?m AND 0xffffffff, pi_total_len ?m, pi_in_port ?m, pi_reason ?m, 0] = Inr y"
    using assms by (simp add: ofp_packet_in_init_def pi_set_data_def struct_pack.simps code_min_def code_max_def code_signed_def)
  ultimately show ?thesis
    using assms(8) by (auto simp: ofp_packet_in_pack_def ofp_packet_in_len_def ofp_packet_in_assert_def codec Let_def
      ofp_packet_in_init_def pi_set_data_def)
qed

definition small_frame :: "bytes \<Rightarrow> int \<Rightarrow> 'o switch \<Rightarrow> bool" where
  "small_frame data in_port s \<longleftrightarrow> length data + 18 < 65536 \<and> 0 \<le> in_port \<and> in_port < 65536 \<and>
     int (length (sw_packet_buffer s)) + 2 < 0xffffffff"

lemma to_controller_sends:
  assumes "sw_ok s" "sw_connected s" "sw_frames s r = Some (h, n)" "0 \<le> reason" "reason < 256"
    "packet_pack (se_packets env) None (PEthernet h n) = Inr (data, PEthernet h' n')" "small_frame data in_port s"
  shows "\<exists>b bytes m s'. to_controller env r in_port reason s = (None, s') \<and> sw_sent s' = sw_sent s @ [bytes] \<and>
      sw_out s' = sw_out s \<and> sw_ports s' = sw_ports s \<and> sw_table s' = sw_table s \<and> sw_frames s' = (sw_frames s)(r \<mapsto> (h', n')) \<and>
      (\<forall>self rest. ofp_packet_in_unpack self (bytes @ rest) = Inr (m, rest)) \<and>
      pi_in_port m = in_port \<and> pi_reason m = reason \<and> pi_data m = Some data \<and> pi_buffer_id m = b \<and> 1 \<le> b \<and> buffer_id_ok b \<and>
      nat (b - 1) < length (sw_packet_buffer s') \<and> sw_packet_buffer s' ! nat (b - 1) = Some (r, in_port) \<and>
      (\<forall>i v. i < length (sw_packet_buffer s) \<and> sw_packet_buffer s ! i = Some v \<longrightarrow> sw_packet_buffer s' ! i = Some v)"
proof -
  obtain b t where b: "buffer_packet r in_port s = (b, t)" by fastforce
  note spec = buffer_packet_spec [OF b]
  have t: "sw_sent t = sw_sent s" "sw_out t = sw_out s" "sw_ports t = sw_ports s" "sw_table t = sw_table s"
    "sw_frames t = sw_frames s" "sw_connected t" "sw_xid_count t = sw_xid_count s" "sw_next_XID t = sw_next_XID s"
    using buffer_packet_fields [of r in_port s] frames_kept(3) [of r in_port s] assms(2) by (simp_all add: b)
  have bound: "b \<le> int (length (sw_packet_buffer s)) + 1"
    using b free_slot_Some [of "sw_packet_buffer s"] by (auto simp: buffer_packet_def split: option.splits)
  let ?x = "sw_xid_count s"
  let ?m = "ofp_packet_in_init (\<lambda>m. pi_set_data (Some data) (m\<lparr>xid := Some ?x, pi_in_port := in_port, pi_buffer_id := b, pi_reason := reason\<rparr>))"
  let ?m' = "?m\<lparr>hlength := 18 + int (length data), pi_total_len := 18 + int (length data)\<rparr>"
  have x: "0 \<le> ?x" "?x \<le> MAX_XID" using assms(1) by (simp_all add: sw_ok_def)
  obtain bs where bs: "ofp_packet_in_pack True ?m (sw_next_XID s) = Inr (Some bs, ?m', sw_next_XID s)"
    using packet_in_packs [OF x _ _ assms(4,5) _ refl, of in_port data b "sw_next_XID s"] assms(7) by (auto simp: small_frame_def)
  have wf: "ofp_packet_in_wf ?m"
    using bound spec(1) assms(7) by (simp add: ofp_packet_in_wf_def ofp_packet_in_init_def pi_set_data_def buffer_id_ok_def small_frame_def)
  let ?s = "t\<lparr>sw_xid_count := snd (xid_generator_next ?x), sw_frames := (sw_frames s)(r \<mapsto> (h', n')), sw_sent := sw_sent s @ [bs], sw_next_XID := sw_next_XID s\<rparr>"
  have "to_controller env r in_port reason s = (None, ?s)"
    using assms(3,6) bs t by (simp add: to_controller_def b next_xid_count_def xid_generator_next_def send_packet_in_def sw_send_def Let_def)
  moreover have "ofp_packet_in_unpack self (bs @ rest) = Inr (?m', rest)" for self rest
    by (rule msg_packet_in.unpack_pack [OF wf bs])
  ultimately show ?thesis
    using t spec(1-3,5) wf by (intro exI [of _ b] exI [of _ bs] exI [of _ ?m'] exI [of _ ?s])
      (simp add: ofp_packet_in_init_def pi_set_data_def ofp_packet_in_wf_def)
qed

definition output_action :: "int \<Rightarrow> ofp_action" where
  "output_action p = ActOutput (ofp_action_output_init (\<lambda>a. a\<lparr>ao_port := Some p\<rparr>))"

text \<open>A list of actions that only outputs to a port, whatever length the output is cut to.\<close>

definition outputs_to :: "int \<Rightarrow> ofp_action list \<Rightarrow> bool" where
  "outputs_to p acts \<longleftrightarrow> (\<exists>a. acts = [ActOutput a] \<and> ao_type a = OFPAT_OUTPUT \<and> ao_port a = Some p)"

lemma outputs_to_output_action [simp]: "outputs_to p [output_action p]"
  by (simp add: outputs_to_def output_action_def ofp_action_output_init_def)

lemma process_outputs_to:
  "outputs_to p acts \<Longrightarrow> process_actions env acts r in_port s = output_packet env r (Some p) in_port s"
  by (auto simp: outputs_to_def process_actions_def process_action_def action_port_def split: prod.split option.split)

text \<open>A buffered packet leaves by the port, and its slot is free again.\<close>

lemma from_buffer_output:
  assumes "1 \<le> b" "nat (b - 1) < length (sw_packet_buffer s)" "sw_packet_buffer s ! nat (b - 1) = Some (r, in_port)"
    "map_of (sw_ports s) p = Some port" "p < OFPP_MAX" "outputs_to p acts"
  shows "process_from_buffer env acts b s =
    (None, s\<lparr>sw_out := sw_out s @ [(the (sw_frames s r), port)], sw_packet_buffer := (sw_packet_buffer s)[nat (b - 1) := None]\<rparr>)"
proof -
  have "b - 1 < int (length (sw_packet_buffer s))" using assms(1,2) by linarith
  then show ?thesis
    using assms by (simp add: process_from_buffer_def process_outputs_to output_port update_def Let_def)
qed

lemma release_buffered:
  assumes "1 \<le> b" "nat (b - 1) < length (sw_packet_buffer s)" "sw_packet_buffer s ! nat (b - 1) = Some (r, in_port)"
    "map_of (sw_ports s) p = Some port" "p < OFPP_MAX" "po_data m = []" "po_buffer_id m = b" "outputs_to p (po_actions m)"
  shows "receive_packet_out env m s =
    (None, s\<lparr>sw_out := sw_out s @ [(the (sw_frames s r), port)], sw_packet_buffer := (sw_packet_buffer s)[nat (b - 1) := None]\<rparr>)"
  using assms(6,7) from_buffer_output [OF assms(1-5,8)] assms(1) by (simp add: receive_packet_out_def)

subsection \<open>Actions that go wrong\<close>

text \<open>The buffer number just behind the last slot passes the check and raises.\<close>

lemma buffer_overrun: "process_from_buffer env as (int (length (sw_packet_buffer s)) + 1) s = (Some IndexError, s)"
  by (simp add: process_from_buffer_def Let_def)

text \<open>Setting the priority of an untagged frame drops what it carried, and leaves a tag that cannot be packed.\<close>

lemma vlan_pcp_drops:
  assumes "\<And>v m. n \<noteq> PktNext (PVlan v m)"
  shows "set_vlan_pcp (ActVlanPcp a) (h, n) =
      (None, (h\<lparr>e_type := 0x8100\<rparr>, PktNext (PVlan (vlan_init\<lparr>v_eth_type := e_type h\<rparr>) NoNext)))"
    and "packet_pack env None (case snd (set_vlan_pcp (ActVlanPcp a) (h, n)) of (h, n) \<Rightarrow> PEthernet h n) = Inl AttributeError"
proof -
  show 1: "set_vlan_pcp (ActVlanPcp a) (h, n) =
      (None, (h\<lparr>e_type := 0x8100\<rparr>, PktNext (PVlan (vlan_init\<lparr>v_eth_type := e_type h\<rparr>) NoNext)))"
    using assms by (auto simp: set_vlan_pcp_def ensure_vlan_def assign_def action_vlan_pcp_def split: payload.split packet.split)
  show "packet_pack env None (case snd (set_vlan_pcp (ActVlanPcp a) (h, n)) of (h, n) \<Rightarrow> PEthernet h n) = Inl AttributeError"
    by (simp add: 1 vlan_hdr_def vlan_init_def)
qed

text \<open>Pushing and popping a label: the payload is gone and the type stays.\<close>

lemma mpls_push_pop:
  assumes "packet_pack env None (PEthernet h n) = Inr (b, p)" "\<And>m k. n \<noteq> PktNext (PMpls m k)"
  shows "push_mpls_tag env (ActPushMpls a) (h, n) = (None, (h\<lparr>e_type := apm_ethertype a\<rparr>, PktNext (PMpls mpls_init NoNext)))"
    and "pop_mpls_tag env (ActPopMpls c) (h\<lparr>e_type := t\<rparr>, PktNext (PMpls mpls_init NoNext)) =
      (Some AttributeError, (h\<lparr>e_type := t\<rparr>, PktNext (PMpls mpls_init NoNext)))"
  using assms by (auto simp: push_mpls_tag_def pop_mpls_tag_def assign_def action_ethertype_def Let_def split: payload.split packet.split)

subsection \<open>Runs of a switch\<close>

text \<open>Whatever happens to a switch: connections, messages, frames on its ports, ports going up and down.\<close>

inductive sw_reachable :: "'o switch_env \<Rightarrow> 'o switch \<Rightarrow> bool" for env where
  created: "sw_reachable env (SwitchImpl_init dpid ports msl nb nt nx)"
| connected: "sw_reachable env s \<Longrightarrow> sw_reachable env (set_connection s)"
| message: "sw_reachable env s \<Longrightarrow> sw_msg_ok m \<Longrightarrow> sw_reachable env (snd (sw_handle env m s))"
| frame: "sw_reachable env s \<Longrightarrow> sw_reachable env (snd (receive_frame env f in_port s))"
| port_down: "sw_reachable env s \<Longrightarrow> sw_reachable env (snd (take_port_down p s))"
| port_up: "sw_reachable env s \<Longrightarrow> sw_reachable env (snd (bring_port_up p s))"

lemma sw_ok_connected: "sw_ok s \<Longrightarrow> sw_ok (set_connection s)"
  by (simp add: set_connection_def sw_ok_def)

lemma sw_reachable_ok: "sw_reachable env s \<Longrightarrow> sw_ok s"
  by (induction rule: sw_reachable.induct)
     (simp_all add: sw_ok_init sw_ok_handle sw_ok_receive_frame sw_ok_take_port_down sw_ok_bring_port_up sw_ok_connected)

subsection \<open>Frames from the network\<close>

text \<open>A frame without an entry goes to the controller; the buffer slot holds its reference.\<close>

lemma receive_frame_miss:
  assumes "sw_ok s" "sw_connected s" "entry_for_packet (sw_table s) h n in_port = Inr None"
    "packet_pack (se_packets env) None (PEthernet h n) = Inr (data, PEthernet h' n')" "small_frame data in_port s"
  shows "\<exists>b bytes m s'. receive_frame env (h, n) in_port s = (None, s') \<and> sw_sent s' = sw_sent s @ [bytes] \<and>
      sw_out s' = sw_out s \<and> sw_ports s' = sw_ports s \<and> sw_table s' = sw_table s \<and>
      sw_frames s' (sw_next_frame s) = Some (h', n') \<and>
      (\<forall>self rest. ofp_packet_in_unpack self (bytes @ rest) = Inr (m, rest)) \<and>
      pi_in_port m = in_port \<and> pi_reason m = 0 \<and> pi_data m = Some data \<and> pi_buffer_id m = b \<and> 1 \<le> b \<and> buffer_id_ok b \<and>
      nat (b - 1) < length (sw_packet_buffer s') \<and> sw_packet_buffer s' ! nat (b - 1) = Some (sw_next_frame s, in_port) \<and>
      (\<forall>i v. i < length (sw_packet_buffer s) \<and> sw_packet_buffer s ! i = Some v \<longrightarrow> sw_packet_buffer s' ! i = Some v)"
proof -
  let ?t = "snd (alloc (h, n) s)"
  have ok: "sw_ok ?t" using sw_ok_alloc [OF assms(1)] by blast
  have t: "sw_connected ?t" "sw_frames ?t (sw_next_frame s) = Some (h, n)" "sw_packet_buffer ?t = sw_packet_buffer s"
    "sw_sent ?t = sw_sent s" "sw_out ?t = sw_out s" "sw_ports ?t = sw_ports s" "sw_table ?t = sw_table s"
    using assms(2) by (simp_all add: alloc_def)
  have small: "small_frame data in_port ?t" using assms(5) by (simp add: small_frame_def t)
  have "receive_frame env (h, n) in_port s = to_controller env (sw_next_frame s) in_port 0 ?t"
    using assms(3) by (simp add: receive_frame_def alloc_def process_packet_def)
  then show ?thesis
    using to_controller_sends [OF ok t(1,2) _ _ assms(4) small, of 0] by (fastforce simp: t)
qed

text \<open>A frame with an entry follows its actions, and the entry's counters move.\<close>

lemma receive_frame_hit:
  assumes "entry_for_packet (sw_table s) h n in_port = Inr (Some e)" "outputs_to p (te_actions e)"
    "packet_pack (se_packets env) None (PEthernet h n) = Inr (data, PEthernet h' n')"
    "map_of (sw_ports s) p = Some port" "p < OFPP_MAX"
  shows "receive_frame env (h, n) in_port s = (None, s\<lparr>sw_frames := (sw_frames s)(sw_next_frame s \<mapsto> (h', n')),
      sw_next_frame := Suc (sw_next_frame s), sw_table := touch_entry e (int (length data)) (se_time env) (sw_table s),
      sw_out := sw_out s @ [((h', n'), port)]\<rparr>)"
  using assms by (simp add: receive_frame_def alloc_def process_packet_def process_outputs_to output_port)

end
