(* ===== verification/OF_System.thy ===== *)
theory OF_System
  imports Complex_Main OF_Connection Switch
begin

text \<open>
  A switch of \<^verbatim>\<open>switch_impl.py\<close> on a connection of \<^verbatim>\<open>of_01.py\<close>: each side reads what the other has sent
  since its last read. The lemmas follow the bytes of the whole handshake, from the first hello to
  \<^verbatim>\<open>ConnectionUp\<close>, through packing, framing and the handlers of both sides.
\<close>

subsection \<open>The frame of a packet-in\<close>

text \<open>\<^verbatim>\<open>event.parse()\<close>\<close>

definition event_parse :: "'o packet_env \<Rightarrow> ofp_packet_in \<Rightarrow> 'o packet result" where
  "event_parse env ofp =
     (case pi_data ofp of None \<Rightarrow> Inr (PEthernet ethernet_init (RawNext [])) | Some d \<Rightarrow> ethernet_parse env d)"

subsection \<open>Reading a stream of messages\<close>

lemma cc_read_stream:
  assumes "list_all2 framed bs ms" "seq (map (\<lambda>tm. h (snd tm)) ms) s = (None, s')"
  shows "cc_read h (concat bs) s = Some (CcTrue, [], s')"
  using assms
proof (induction arbitrary: s rule: list_all2_induct)
  case Nil
  then show ?case by (simp add: cc_read.simps next_frame_Nil)
next
  case (Cons b bs tm ms)
  obtain s1 where 1: "h (snd tm) s = (None, s1)" "seq (map (\<lambda>tm. h (snd tm)) ms) s1 = (None, s')"
    using Cons.prems by (auto split: prod.splits option.splits)
  have "next_frame (b @ concat bs) = Inr (Frame (fst tm) (snd tm) (concat bs))"
    using Cons.hyps by (simp add: framed_def)
  then show ?case using 1 Cons.IH [OF 1(2)] by (simp add: cc_read.simps [of h "b @ concat bs"])
qed

lemma read_loop_stream:
  assumes "list_all2 framed bs ms"
  shows "read_loop h (concat bs) s = Some (Returned True, [], fold (\<lambda>(t, m) s. h t m s) ms s)"
  using assms
proof (induction arbitrary: s rule: list_all2_induct)
  case Nil
  then show ?case by (simp add: read_loop_NeedMore next_frame_Nil)
next
  case (Cons b bs tm ms)
  have "next_frame (b @ concat bs) = Inr (Frame (fst tm) (snd tm) (concat bs))"
    using Cons.hyps by (simp add: framed_def)
  then show ?case using Cons.IH by (simp add: read_loop_Frame case_prod_unfold)
qed

subsection \<open>The two sides\<close>

text \<open>\<open>to_sw\<close> and \<open>to_con\<close> count the messages that were already handed over in each direction.\<close>

record 'o link =
  lk_con :: connection
  lk_sw :: "'o switch"
  lk_to_sw :: nat
  lk_to_con :: nat

definition switch_reads :: "'o switch_env \<Rightarrow> 'o link \<Rightarrow> 'o link option" where
  "switch_reads env l =
     (case cc_read (sw_handle env) (concat (drop (lk_to_sw l) (con_sent (lk_con l)))) (lk_sw l) of
        Some (CcTrue, [], s) \<Rightarrow> Some (l\<lparr>lk_sw := s, lk_to_sw := length (con_sent (lk_con l))\<rparr>)
      | _ \<Rightarrow> None)"

definition controller_reads :: "of_env \<Rightarrow> 'o link \<Rightarrow> 'o link option" where
  "controller_reads env l =
     (case read_loop (dispatch env) (concat (drop (lk_to_con l) (sw_sent (lk_sw l)))) (lk_con l) of
        Some (Returned True, [], s) \<Rightarrow> Some (l\<lparr>lk_con := s, lk_to_con := length (sw_sent (lk_sw l))\<rparr>)
      | _ \<Rightarrow> None)"

lemma switch_reads_stream:
  assumes "drop (lk_to_sw l) (con_sent (lk_con l)) = bs" "list_all2 framed bs ms"
    "seq (map (\<lambda>tm. sw_handle env (snd tm)) ms) (lk_sw l) = (None, s)"
  shows "switch_reads env l = Some (l\<lparr>lk_sw := s, lk_to_sw := length (con_sent (lk_con l))\<rparr>)"
  using cc_read_stream [OF assms(2,3)] assms(1) by (simp add: switch_reads_def)

lemma controller_reads_stream:
  assumes "drop (lk_to_con l) (sw_sent (lk_sw l)) = bs" "list_all2 framed bs ms"
    "fold (\<lambda>(t, m) s. dispatch env t m s) ms (lk_con l) = s"
  shows "controller_reads env l = Some (l\<lparr>lk_con := s, lk_to_con := length (sw_sent (lk_sw l))\<rparr>)"
  using read_loop_stream [OF assms(2), of "dispatch env" "lk_con l"] assms(1,3) by (simp add: controller_reads_def)

definition bind_link :: "'o link option \<Rightarrow> ('o link \<Rightarrow> 'o link option) \<Rightarrow> 'o link option" where
  "bind_link l f = (case l of None \<Rightarrow> None | Some l \<Rightarrow> f l)"

text \<open>Three rounds: hellos, features, and the set-up with its barrier.\<close>

definition connect :: "'o switch_env \<Rightarrow> of_env \<Rightarrow> 'o link \<Rightarrow> 'o link option" where
  "connect se ce l =
     (let round = (\<lambda>l. bind_link (switch_reads se l) (controller_reads ce))
      in bind_link (round l) (\<lambda>l. bind_link (round l) round))"

subsection \<open>What the switch answers\<close>

lemma sw_hello:
  assumes "sw_connected s" "0 \<le> sw_next_XID s" "sw_next_XID s \<le> MAX_XID"
  shows "\<exists>b m. framed b (OFPT_HELLO, MHello m) \<and>
    sw_handle env (MHello h) s = (None, s\<lparr>sw_sent := sw_sent s @ [b], sw_next_XID := next_xid (sw_next_XID s)\<rparr>)"
proof -
  have "ofp_type_map OFPT_HELLO \<noteq> None" by code_simp
  with bare_pack_fresh [of OFPT_HELLO "sw_next_XID s"] assms
  obtain b m where b: "bare_pack True (header_defaults OFPT_HELLO 8) (sw_next_XID s) = Inr (Some b, m, next_xid (sw_next_XID s))" by auto
  then have "framed b (OFPT_HELLO, MHello m)" using bare_framed(1) by blast
  with b assms show ?thesis by (auto simp: sw_handle_def send_hello_def sw_send_def ofp_hello_init_def)
qed

definition features_of :: "int option \<Rightarrow> 'o switch \<Rightarrow> ofp_features_reply" where
  "features_of x s = ofp_features_reply_init (\<lambda>m. m\<lparr>fr_datapath_id := sw_dpid s, xid := x,
     fr_n_buffers := sw_n_buffers s, fr_n_tables := sw_n_tables s,
     fr_capabilities := (case get_capabilities (sw_capabilities s) of Inr c \<Rightarrow> c),
     fr_actions := (case get_actions (sw_capabilities s) of Inr a \<Rightarrow> a), fr_ports := map snd (sw_ports s)\<rparr>)"

text \<open>A switch whose features fit into a features reply.\<close>

definition describable :: "'o switch \<Rightarrow> bool" where
  "describable s \<longleftrightarrow> (\<exists>c. get_capabilities (sw_capabilities s) = Inr c) \<and> (\<exists>a. get_actions (sw_capabilities s) = Inr a) \<and>
     (\<forall>p \<in> set (sw_ports s). ofp_phy_port_wf (snd p)) \<and>
     (\<forall>x nx. 0 \<le> x \<and> x \<le> MAX_XID \<longrightarrow> (\<exists>b m. ofp_features_reply_pack True (features_of (Some x) s) nx = Inr (Some b, m, nx)))"

lemma sw_features:
  assumes "sw_connected s" "describable s" "xid m = Some x" "0 \<le> x" "x \<le> MAX_XID"
  shows "\<exists>b f. framed b (OFPT_FEATURES_REPLY, MFeaturesReply f) \<and> fr_datapath_id f = sw_dpid s \<and> fr_ports f = map snd (sw_ports s) \<and>
    sw_handle env (MFeaturesRequest m) s = (None, s\<lparr>sw_sent := sw_sent s @ [b]\<rparr>)"
proof -
  let ?f = "features_of (Some x) s"
  obtain b f where b: "ofp_features_reply_pack True ?f (sw_next_XID s) = Inr (Some b, f, sw_next_XID s)"
    using assms(2,4,5) unfolding describable_def by blast
  have "of_msg_pack (MFeaturesReply ?f) (sw_next_XID s) = Inr (Some b, MFeaturesReply f, sw_next_XID s)"
    using b by (simp add: pack_result_def)
  moreover have "of_msg_wf (MFeaturesReply ?f)"
    using assms(2) by (auto simp: head_ok_def features_of_def ofp_features_reply_wf_def ofp_features_reply_init_def describable_def
      ofp_features_reply_len_def)
  ultimately have "framed b (OFPT_FEATURES_REPLY, MFeaturesReply f)"
    using of_msg_framed by (fastforce simp: msg_type_def)
  moreover have "fr_datapath_id f = sw_dpid s" "fr_ports f = map snd (sw_ports s)"
    using b by (auto simp: ofp_features_reply_pack_def codec Let_def features_of_def ofp_features_reply_init_def
      split: if_splits elim!: ofp_header_pack_Inr)
  moreover have "sw_handle env (MFeaturesRequest m) s = (None, s\<lparr>sw_sent := sw_sent s @ [b]\<rparr>)"
    using assms b by (auto simp: sw_handle_def receive_features_request_def describable_def sw_send_def features_of_def)
  ultimately show ?thesis by blast
qed

text \<open>
  The set-up messages on the switch. Both forms of delete are strict there, so clearing removes only
  entries that match everything at the default priority.
\<close>

definition match_all_entry :: "table_entry \<Rightarrow> bool" where
  "match_all_entry e \<longleftrightarrow> match_same (te_match e) (wire_form True ofp_match_new) \<and> te_priority e = OFP_DEFAULT_PRIORITY"

lemma sw_clear:
  assumes "sw_ok s" "clear_flows f"
  shows "\<exists>t. sw_handle env (MFlowMod f) s = (None, s\<lparr>sw_table := t\<rparr>) \<and> table_ok t \<and>
    ft_table t = filter (\<lambda>e. \<not> match_all_entry e) (ft_table (sw_table s))"
proof -
  have f: "match_ok (fm_match f)" "supported f" "fm_command f = OFPFC_DELETE" "fm_buffer_id f = Some (-1)"
    using assms(2) match_ok_wire_form [OF match_ok_blank] by (simp_all add: clear_flows_def supported_def)
  have sel: "selected f True = match_all_entry"
    using assms(2) by (auto simp: fun_eq_iff selects_def match_all_entry_def check_port_def clear_flows_def)
  have ok: "table_ok (sw_table s)" using assms(1) by (simp add: sw_ok_def)
  obtain r t where r: "process_flow_mod f (se_time env) (sw_table s) = Inr (r, t)"
    and t: "ft_table t = filter (\<lambda>e. \<not> match_all_entry e) (ft_table (sw_table s))"
    using process_delete [OF ok f(1,2), of "se_time env"] f(3) by (auto simp: Let_def sel raise_modification_def)
  have "table_ok t" by (rule process_flow_mod_ok [OF ok f(1) r])
  with r t f(4) show ?thesis by (auto simp: sw_handle_def receive_flow_mod_def positive_def Let_def)
qed

lemma sw_setup:
  assumes "sw_ok s" "\<forall>tm \<in> set ms. setup_msg (snd tm)"
  shows "\<exists>t. seq (map (\<lambda>tm. sw_handle env (snd tm)) ms) s = (None, s\<lparr>sw_table := t\<rparr>) \<and> table_ok t \<and>
    filter (\<lambda>e. \<not> match_all_entry e) (ft_table t) = filter (\<lambda>e. \<not> match_all_entry e) (ft_table (sw_table s))"
  using assms
proof (induction ms arbitrary: s)
  case Nil
  then show ?case by (intro exI [of _ "sw_table s"]) (simp add: sw_ok_def)
next
  case (Cons tm ms)
  have "\<exists>t. sw_handle env (snd tm) s = (None, s\<lparr>sw_table := t\<rparr>) \<and> table_ok t \<and>
      filter (\<lambda>e. \<not> match_all_entry e) (ft_table t) = filter (\<lambda>e. \<not> match_all_entry e) (ft_table (sw_table s))"
  proof (cases "snd tm" rule: setup_msg.cases)
    case (1 c)
    then show ?thesis using Cons.prems(1) by (intro exI [of _ "sw_table s"]) (simp add: sw_handle_def sw_ok_def)
  next
    case (2 f)
    with Cons.prems have "clear_flows f" by simp
    then obtain t where "sw_handle env (MFlowMod f) s = (None, s\<lparr>sw_table := t\<rparr>)" "table_ok t"
        "ft_table t = filter (\<lambda>e. \<not> match_all_entry e) (ft_table (sw_table s))"
      using sw_clear [OF Cons.prems(1)] by blast
    then show ?thesis using 2 by (intro exI [of _ t]) simp
  qed (use Cons.prems in auto)
  then obtain t where t: "sw_handle env (snd tm) s = (None, s\<lparr>sw_table := t\<rparr>)" "table_ok t"
      "filter (\<lambda>e. \<not> match_all_entry e) (ft_table t) = filter (\<lambda>e. \<not> match_all_entry e) (ft_table (sw_table s))" by blast
  have "sw_ok (s\<lparr>sw_table := t\<rparr>)" using Cons.prems(1) t(2) by (simp add: sw_ok_def)
  from Cons.IH [OF this] Cons.prems(2) t show ?case by auto
qed

lemma sw_barrier:
  assumes "sw_connected s" "xid m = Some x" "0 \<le> x" "x \<le> MAX_XID"
  shows "\<exists>b r. framed b (OFPT_BARRIER_REPLY, MBarrierReply r) \<and> xid r = Some x \<and>
    sw_handle env (MBarrierRequest m) s = (None, s\<lparr>sw_sent := sw_sent s @ [b]\<rparr>)"
proof -
  let ?m = "ofp_barrier_reply_init (\<lambda>m. m\<lparr>xid := Some x\<rparr>)"
  have t: "ofp_type_map OFPT_BARRIER_REPLY \<noteq> None" by code_simp
  have "\<exists>b. ofp_barrier_reply_pack True ?m (sw_next_XID s) = Inr (Some b, ?m, sw_next_XID s)"
    using assms t by (auto simp: ofp_barrier_reply_pack_def codec ofp_barrier_reply_init_def header_defaults_def ofp_header_pack_def
      ofp_header_assert_def Let_def struct_pack.simps code_min_def code_max_def code_signed_def MAX_XID_def)
  then obtain b where b: "ofp_barrier_reply_pack True ?m (sw_next_XID s) = Inr (Some b, ?m, sw_next_XID s)" by blast
  have "framed b (OFPT_BARRIER_REPLY, MBarrierReply ?m)"
    using of_msg_framed [of "MBarrierReply ?m" "sw_next_XID s" b "MBarrierReply ?m"] b
    by (simp add: pack_result_def head_ok_def bare_wf_def ofp_barrier_reply_init_def header_defaults_def msg_type_def)
  with b assms show ?thesis
    by (intro exI [of _ b] exI [of _ ?m]) (auto simp: sw_handle_def receive_barrier_request_def sw_send_def ofp_barrier_reply_init_def)
qed

lemma describable_kept [simp]:
  "describable (s\<lparr>sw_sent := bs\<rparr>) = describable s" "describable (s\<lparr>sw_next_XID := nx\<rparr>) = describable s"
  by (simp_all add: describable_def features_of_def)

text \<open>The whole way, with the states after each round.\<close>

lemma connect_rounds:
  assumes "config_ok ce" "0 \<le> nx" "nx \<le> MAX_XID" "sw_ok s" "sw_connected s" "sw_sent s = []"
    "0 \<le> sw_next_XID s" "sw_next_XID s \<le> MAX_XID" "describable s"
  shows "\<exists>c s' f r. connect se ce \<lparr>lk_con = Connection_init cid n nx, lk_sw = s, lk_to_sw = 0, lk_to_con = 0\<rparr> =
      Some \<lparr>lk_con = c, lk_sw = s', lk_to_sw = length (con_sent c), lk_to_con = length (sw_sent s')\<rparr> \<and>
    fr_datapath_id f = sw_dpid s \<and> fr_ports f = map snd (sw_ports s) \<and>
    con_connect_time c = Some (env_time ce) \<and> \<not> con_disconnected c \<and> con_dpid c = Some (sw_dpid s) \<and> con_pending c = [] \<and>
    nexus_connections c = n(sw_dpid s \<mapsto> cid) \<and>
    con_events c = [(AtNexus, BarrierIn (con_dpid c) r), (AtConnection, BarrierIn (con_dpid c) r),
      (AtNexus, ConnectionUp (con_dpid c) f), (AtConnection, ConnectionUp (con_dpid c) f)] \<and>
    sw_ok s' \<and> filter (\<lambda>e. \<not> match_all_entry e) (ft_table (sw_table s')) = filter (\<lambda>e. \<not> match_all_entry e) (ft_table (sw_table s)) \<and>
    sw_out s' = sw_out s \<and> sw_ports s' = sw_ports s \<and> sw_packet_buffer s' = sw_packet_buffer s"
proof -
  obtain b0 h0 where h0: "framed b0 (OFPT_HELLO, MHello h0)" and c0: "Connection_init cid n nx =
    \<lparr>con_ID = cid, con_dpid = None, con_features = None, con_disconnected = False,
     con_connect_time = None, con_has_nexus = False, con_pending = [], con_previous_stats = [],
     con_sent = [b0], con_events = [], nexus_connections = n, next_XID = next_xid nx, next_eid = 0\<rparr>" (is "_ = ?c0")
    using Connection_init_eq [OF assms(2,3), of cid n] by auto
  obtain hb h1 where h1: "framed hb (OFPT_HELLO, MHello h1)"
    and s1: "sw_handle se (MHello h0) s = (None, s\<lparr>sw_sent := [hb], sw_next_XID := next_xid (sw_next_XID s)\<rparr>)" (is "_ = (_, ?s1)")
    using sw_hello [OF assms(5,7,8), of se h0] assms(6) by auto
  obtain b1 m1 where m1: "framed b1 (OFPT_FEATURES_REQUEST, MFeaturesRequest m1)" "xid m1 = Some (next_xid nx)"
    and c1: "handle_HELLO h1 ?c0 = (None, ?c0\<lparr>con_sent := [b0, b1], next_XID := next_xid (next_xid nx)\<rparr>)" (is "_ = (_, ?c1)")
    using handle_HELLO_eq [of ?c0 h1] next_xid_range by auto
  obtain fb f where f: "framed fb (OFPT_FEATURES_REPLY, MFeaturesReply f)" "fr_datapath_id f = sw_dpid s" "fr_ports f = map snd (sw_ports s)"
    and s2: "sw_handle se (MFeaturesRequest m1) ?s1 = (None, ?s1\<lparr>sw_sent := [hb, fb]\<rparr>)" (is "_ = (_, ?s2)")
    using sw_features [of ?s1 m1 "next_xid nx" se] assms(5,9) m1(2) next_xid_range by auto
  obtain bs ms x bb m2 where c2: "handle_FEATURES_REPLY ce f ?c1 =
      (None, ?c1\<lparr>con_features := Some f, con_dpid := Some (sw_dpid s), con_has_nexus := True,
        con_pending := [\<lparr>pd_id = 0, pd_xid = Some x, pd_features = f\<rparr>], con_sent := [b0, b1] @ bs @ [bb],
        nexus_connections := n(sw_dpid s \<mapsto> cid), next_XID := next_xid x, next_eid := 1\<rparr>)" (is "_ = (_, ?c2)")
    and m2: "xid m2 = Some x" "0 \<le> x" "x \<le> MAX_XID" "framed bb (OFPT_BARRIER_REQUEST, MBarrierRequest m2)"
    and ms: "list_all2 framed bs ms" "\<forall>tm \<in> set ms. setup_msg (snd tm)"
    using handshake_waits [OF assms(1), of ?c1 f] next_xid_range f(2) by auto
  have ok2: "sw_ok ?s2" using assms(4) by simp
  obtain t where t: "seq (map (\<lambda>tm. sw_handle se (snd tm)) ms) ?s2 = (None, ?s2\<lparr>sw_table := t\<rparr>)" "table_ok t"
    "filter (\<lambda>e. \<not> match_all_entry e) (ft_table t) = filter (\<lambda>e. \<not> match_all_entry e) (ft_table (sw_table s))"
    using sw_setup [OF ok2 ms(2), of se] by auto
  let ?s3 = "?s2\<lparr>sw_table := t\<rparr>"
  obtain rb r where r: "framed rb (OFPT_BARRIER_REPLY, MBarrierReply r)" "xid r = Some x"
    and s4: "sw_handle se (MBarrierRequest m2) ?s3 = (None, ?s3\<lparr>sw_sent := [hb, fb, rb]\<rparr>)" (is "_ = (_, ?s4)")
    using sw_barrier [of ?s3 m2 x se] assms(5) m2(1-3) by auto
  have p: "con_pending ?c2 = [\<lparr>pd_id = 0, pd_xid = Some x, pd_features = f\<rparr>]" "con_has_nexus ?c2" by simp_all
  obtain c3 where c3: "snd (handle_BARRIER ce r ?c2) = c3" by blast
  note c3_eq = barrier_one(2) [OF p, of r ce, unfolded c3]
  let ?l = "\<lambda>c s a b. \<lparr>lk_con = c, lk_sw = s, lk_to_sw = a, lk_to_con = b\<rparr>"
  have r1: "switch_reads se (?l ?c0 s 0 0) = Some (?l ?c0 ?s1 1 0)"
    by (subst switch_reads_stream [of _ "[b0]" "[(OFPT_HELLO, MHello h0)]" _ ?s1]) (use h0 s1 in simp_all)
  have r2: "controller_reads ce (?l ?c0 ?s1 1 0) = Some (?l ?c1 ?s1 1 1)"
    by (subst controller_reads_stream [of _ "[hb]" "[(OFPT_HELLO, MHello h1)]" _ ?c1]) (use h1 c1 in \<open>simp_all add: dispatch_def handle_def\<close>)
  have r3: "switch_reads se (?l ?c1 ?s1 1 1) = Some (?l ?c1 ?s2 2 1)"
    by (subst switch_reads_stream [of _ "[b1]" "[(OFPT_FEATURES_REQUEST, MFeaturesRequest m1)]" _ ?s2]) (use m1 s2 in simp_all)
  have r4: "controller_reads ce (?l ?c1 ?s2 2 1) = Some (?l ?c2 ?s2 2 2)"
    by (subst controller_reads_stream [of _ "[fb]" "[(OFPT_FEATURES_REPLY, MFeaturesReply f)]" _ ?c2]) (use f c2 in \<open>simp_all add: dispatch_def handle_def\<close>)
  have r5: "switch_reads se (?l ?c2 ?s2 2 2) = Some (?l ?c2 ?s4 (length (con_sent ?c2)) 2)"
    by (subst switch_reads_stream [of _ "bs @ [bb]" "ms @ [(OFPT_BARRIER_REQUEST, MBarrierRequest m2)]" _ ?s4])
      (use ms m2 t s4 in \<open>simp_all add: seq_append list_all2_appendI\<close>)
  have r6: "controller_reads ce (?l ?c2 ?s4 (length (con_sent ?c2)) 2) = Some (?l c3 ?s4 (length (con_sent ?c2)) 3)"
    by (subst controller_reads_stream [of _ "[rb]" "[(OFPT_BARRIER_REPLY, MBarrierReply r)]" _ c3]) (use r c3 in \<open>simp_all add: dispatch_def handle_def\<close>)
  have c3': "c3 = ?c2\<lparr>con_connect_time := Some (env_time ce), con_pending := [], con_events := [(AtNexus, BarrierIn (Some (sw_dpid s)) r),
      (AtConnection, BarrierIn (Some (sw_dpid s)) r), (AtNexus, ConnectionUp (Some (sw_dpid s)) f), (AtConnection, ConnectionUp (Some (sw_dpid s)) f)]\<rparr>"
    using c3_eq r(2) by simp
  have "connect se ce (?l ?c0 s 0 0) = Some (?l c3 ?s4 (length (con_sent ?c2)) 3)"
    unfolding connect_def Let_def bind_link_def by (simp only: r1 r2 r3 r4 r5 r6 option.case)
  moreover have "sw_ok ?s4" using assms(4) t(2) by (simp add: sw_ok_def)
  ultimately show ?thesis
    unfolding c0 using f t(3) by (intro exI [of _ c3] exI [of _ ?s4] exI [of _ f] exI [of _ r]) (simp add: c3')
qed

text \<open>Features in range can be described.\<close>

lemma describableI:
  assumes "get_capabilities (sw_capabilities s) = Inr c" "get_actions (sw_capabilities s) = Inr a"
    "0 \<le> c" "c < 2 ^ 32" "0 \<le> a" "a < 2 ^ 32" "0 \<le> sw_dpid s" "sw_dpid s < 2 ^ 64"
    "0 \<le> sw_n_buffers s" "sw_n_buffers s < 2 ^ 32" "0 \<le> sw_n_tables s" "sw_n_tables s < 256"
    "\<forall>p \<in> set (map snd (sw_ports s)). ofp_phy_port_wf p \<and> (\<exists>b. ofp_phy_port_pack True p = Inr (Some b))"
    "length (sw_ports s) < 1000"
  shows "describable s"
proof -
  have "\<exists>b m. ofp_features_reply_pack True (features_of (Some x) s) nx = Inr (Some b, m, nx)" if x: "0 \<le> x" "x \<le> MAX_XID" for x nx
  proof -
    let ?m = "features_of (Some x) s"
    have m: "header_type ?m = OFPT_FEATURES_REPLY" "xid ?m = Some x" "version ?m = OFP_VERSION" "hlength ?m = 32 + 48 * int (length (sw_ports s))" "fr_datapath_id ?m = sw_dpid s" "fr_n_buffers ?m = sw_n_buffers s"
      "fr_n_tables ?m = sw_n_tables s" "fr_capabilities ?m = c" "fr_actions ?m = a" "fr_ports ?m = map snd (sw_ports s)"
      using assms(1,2) by (simp_all add: features_of_def ofp_features_reply_init_def ofp_features_reply_len_def)
    have "\<exists>bs. concatE (map (\<lambda>i. needE (ofp_phy_port_pack True i)) ps) = Inr bs"
      if "\<forall>p \<in> set ps. \<exists>b. ofp_phy_port_pack True p = Inr (Some b)" for ps
      using that by (induction ps) (auto simp: needE_def codec)
    with assms(13) obtain bs where "concatE (map (\<lambda>i. needE (ofp_phy_port_pack True i)) (map snd (sw_ports s))) = Inr bs" by blast
    moreover have "ofp_type_map OFPT_FEATURES_REPLY \<noteq> None" by code_simp
    then have "\<exists>h. ofp_header_pack True ?m nx = Inr (h, ?m\<lparr>xid := Some x\<rparr>, nx)"
      using assms x m by (simp add: ofp_header_pack_def ofp_header_assert_def Let_def MAX_XID_def struct_pack.simps code_min_def
        code_max_def code_signed_def)
    moreover have "\<exists>y. struct_pack ''!QLB'' [sw_dpid s, sw_n_buffers s, sw_n_tables s] = Inr y" "\<exists>y. struct_pack ''!LL'' [c, a] = Inr y"
      using assms by (simp_all add: struct_pack.simps code_min_def code_max_def code_signed_def)
    ultimately show ?thesis
      using m by (auto simp: ofp_features_reply_pack_def codec assert_true_def)
  qed
  then show ?thesis using assms by (auto simp: describable_def)
qed

subsection \<open>Packing a single output\<close>

lemma pack_output_action:
  assumes "0 \<le> p" "p < 65536"
  shows "\<exists>z ac. pack_actions True [output_action p] = Inr (z, ac) \<and> outputs_to p ac \<and> length z = 8"
  using assms by (auto simp: output_action_def ofp_action_output_init_def ofp_action_output_pack_def codec Let_def outputs_to_def
      assert_true_def int_arg_def needE_def packed_def struct_pack.simps code_min_def code_max_def code_signed_def code_size_def)

end
