(* ===== verification/LLDP.thy ===== *)
theory LLDP
  imports Complex_Main Packets
begin

text \<open>
  \<^verbatim>\<open>lib/packet/lldp.py\<close>: the discovery frames and their TLVs, as the controller builds and reads them.
  Attributes that nothing reads (\<^verbatim>\<open>arr\<close>, the \<^verbatim>\<open>parsed\<close> flags of single TLVs) are left out. The lemmas show
  that a frame of well-formed TLVs is read back as it was built, whatever follows it.
\<close>

unbundle bit_operations_syntax

subsection \<open>TLVs\<close>

record chassis_id =
  ch_strlen :: int
  ch_subtype :: int
  ch_id :: "bytes option"

record port_id =
  pt_subtype :: int
  pt_id :: "bytes option"

record ttl =
  ttl_strlen :: int
  ttl_ttl :: int

record basic_tlv =
  bt_type :: int
  bt_len :: int
  bt_next :: bytes

record management_address =
  ma_address_subtype :: int
  ma_address :: bytes
  ma_interface_numbering_subtype :: int
  ma_interface_number :: int
  ma_object_identifier :: bytes

record organizationally_specific =
  os_len :: int
  os_oui :: bytes
  os_subtype :: int
  os_next :: bytes

record system_capabilities =
  sc_len :: int
  sc_caps :: "bool list"
  sc_enabled_caps :: "bool list"

datatype tlv =
    ChassisId chassis_id
  | PortId port_id
  | Ttl ttl
  | EndTlv int
  | BasicTlv basic_tlv
  | MgmtAddress management_address
  | OrgSpecific organizationally_specific
  | SystemCaps system_capabilities

fun tlv_type :: "tlv \<Rightarrow> int" where
  "tlv_type (ChassisId _) = 1"
| "tlv_type (PortId _) = 2"
| "tlv_type (Ttl _) = 3"
| "tlv_type (EndTlv _) = 0"
| "tlv_type (BasicTlv t) = bt_type t"
| "tlv_type (MgmtAddress _) = 8"
| "tlv_type (OrgSpecific _) = 127"
| "tlv_type (SystemCaps _) = 7"

subsection \<open>Building\<close>

definition chassis_id_fill :: "int \<Rightarrow> bytes \<Rightarrow> chassis_id" where
  "chassis_id_fill subtype strval = \<lparr>ch_strlen = 1 + int (length strval), ch_subtype = subtype, ch_id = Some strval\<rparr>"

definition port_id_fill :: "int \<Rightarrow> bytes \<Rightarrow> port_id" where
  "port_id_fill subtype strval = \<lparr>pt_subtype = subtype, pt_id = Some strval\<rparr>"

definition ttl_fill :: "int \<Rightarrow> ttl" where
  "ttl_fill t = \<lparr>ttl_strlen = 2, ttl_ttl = t\<rparr>"

text \<open>\<^verbatim>\<open>system_description\<close>, \<^verbatim>\<open>system_name\<close>, \<^verbatim>\<open>port_description\<close> by their type.\<close>

definition basic_tlv_fill :: "int \<Rightarrow> bytes \<Rightarrow> basic_tlv" where
  "basic_tlv_fill t strval = \<lparr>bt_type = t, bt_len = int (length strval), bt_next = strval\<rparr>"

subsection \<open>Packing\<close>

definition typelen :: "int \<Rightarrow> int \<Rightarrow> int" where
  "typelen t n = push_bit 9 t OR (n AND 0x01ff)"

text \<open>\<^verbatim>\<open>struct.pack('!HB' + str(strlen - 1) + 's', ...)\<close> cuts or fills the string; a negative count is no format.\<close>

definition pack_id :: "int \<Rightarrow> int \<Rightarrow> int \<Rightarrow> bytes option \<Rightarrow> bytes result" where
  "pack_id t strlen subtype v =
     (if strlen < 1 then Inl StructError
      else case v of None \<Rightarrow> Inl StructError
      | Some s \<Rightarrow> let k = nat (strlen - 1) in
          bindE (struct_pack ''!HB'' [typelen t strlen, subtype]) (\<lambda>b. Inr (b @ take k (ljust k s))))"

definition chassis_id_hdr :: "chassis_id \<Rightarrow> bytes result" where
  "chassis_id_hdr self = pack_id 1 (ch_strlen self) (ch_subtype self) (ch_id self)"

definition port_id_pack :: "port_id \<Rightarrow> bytes result" where
  "port_id_pack self =
     (case pt_id self of None \<Rightarrow> Inl TypeError
      | Some s \<Rightarrow> pack_id 2 (1 + int (length s)) (pt_subtype self) (Some s))"

definition ttl_pack :: "ttl \<Rightarrow> bytes result" where
  "ttl_pack self = struct_pack ''!HH'' [typelen 3 (ttl_strlen self), ttl_ttl self]"

definition end_tlv_pack :: "int \<Rightarrow> bytes result" where
  "end_tlv_pack strlen = struct_pack ''!H'' [typelen 0 strlen]"

definition basic_tlv_pack :: "basic_tlv \<Rightarrow> bytes result" where
  "basic_tlv_pack self = bindE (struct_pack ''!H'' [typelen (bt_type self) (bt_len self)]) (\<lambda>b. Inr (b @ bt_next self))"

definition management_address_len :: "management_address \<Rightarrow> int" where
  "management_address_len self = 2 + 1 + 1 + int (length (ma_address self)) + 1 + 4 + 1 + int (length (ma_object_identifier self))"

definition management_address_pack :: "management_address \<Rightarrow> bytes result" where
  "management_address_pack self = concatE [
     struct_pack ''!H'' [typelen 8 (management_address_len self - 2)],
     struct_pack ''!BB'' [int (length (ma_address self)) + 1, ma_address_subtype self],
     Inr (ma_address self),
     struct_pack ''!BLB'' [ma_interface_numbering_subtype self, ma_interface_number self, int (length (ma_object_identifier self))],
     Inr (ma_object_identifier self)]"

definition organizationally_specific_pack :: "organizationally_specific \<Rightarrow> bytes result" where
  "organizationally_specific_pack self = concatE [
     struct_pack ''!H'' [typelen 127 (os_len self)], Inr (take 3 (ljust 3 (os_oui self))),
     struct_pack ''!B'' [os_subtype self], Inr (os_next self)]"

text \<open>\<^verbatim>\<open>cap |= 1 << i\<close> for the capabilities that are set; a list of fewer than 16 raises.\<close>

fun flags_value :: "nat \<Rightarrow> bool list \<Rightarrow> int" where
  "flags_value i [] = 0"
| "flags_value i (f # fs) = (if f then push_bit i 1 else 0) OR flags_value (Suc i) fs"

definition system_capabilities_pack :: "system_capabilities \<Rightarrow> bytes result" where
  "system_capabilities_pack self =
     (if length (sc_caps self) < 16 \<or> length (sc_enabled_caps self) < 16 then Inl IndexError
      else struct_pack ''!HHH'' [typelen 7 (sc_len self), flags_value 0 (take 16 (sc_caps self)),
        flags_value 0 (take 16 (sc_enabled_caps self))])"

fun tlv_pack :: "tlv \<Rightarrow> bytes result" where
  "tlv_pack (ChassisId t) = chassis_id_hdr t"
| "tlv_pack (PortId t) = port_id_pack t"
| "tlv_pack (Ttl t) = ttl_pack t"
| "tlv_pack (EndTlv n) = end_tlv_pack n"
| "tlv_pack (BasicTlv t) = basic_tlv_pack t"
| "tlv_pack (MgmtAddress t) = management_address_pack t"
| "tlv_pack (OrgSpecific t) = organizationally_specific_pack t"
| "tlv_pack (SystemCaps t) = system_capabilities_pack t"

subsection \<open>Reading\<close>

definition header_16 :: "bytes \<Rightarrow> int result" where
  "header_16 arr = bindE (struct_unpack ''!H'' (slice 0 2 arr)) (\<lambda>v. Inr (v ! 0))"

definition chassis_id_parse :: "bytes \<Rightarrow> chassis_id result" where
  "chassis_id_parse arr =
     bindE (header_16 arr) (\<lambda>tl.
       if drop_bit 9 tl \<noteq> 1 then Inl AssertionError
       else let strlen = tl AND 0x01ff in
       if \<not> strlen \<ge> 2 then Inl AssertionError
       else bindE (struct_unpack ''!B'' (slice 2 3 arr)) (\<lambda>v.
         Inr \<lparr>ch_strlen = strlen, ch_subtype = v ! 0, ch_id = Some (drop 3 arr)\<rparr>))"

definition port_id_parse :: "bytes \<Rightarrow> port_id result" where
  "port_id_parse arr =
     bindE (header_16 arr) (\<lambda>tl.
       if drop_bit 9 tl \<noteq> 2 then Inl AssertionError
       else let strlen = tl AND 0x01ff in
       if \<not> strlen \<ge> 2 then Inl AssertionError
       else bindE (struct_unpack ''!B'' (slice 2 3 arr)) (\<lambda>v.
         if strlen \<noteq> 1 + int (length (drop 3 arr)) then Inl AssertionError
         else Inr \<lparr>pt_subtype = v ! 0, pt_id = Some (drop 3 arr)\<rparr>))"

text \<open>A wrong length only leaves the time at 0.\<close>

definition ttl_parse :: "bytes \<Rightarrow> ttl result" where
  "ttl_parse arr =
     bindE (header_16 arr) (\<lambda>tl.
       if drop_bit 9 tl \<noteq> 3 then Inl AssertionError
       else let strlen = tl AND 0x01ff in
       if strlen \<noteq> 2 then Inr \<lparr>ttl_strlen = strlen, ttl_ttl = 0\<rparr>
       else bindE (struct_unpack ''!H'' (slice 2 4 arr)) (\<lambda>v. Inr \<lparr>ttl_strlen = strlen, ttl_ttl = v ! 0\<rparr>))"

definition end_tlv_parse :: "bytes \<Rightarrow> int result" where
  "end_tlv_parse arr =
     bindE (header_16 arr) (\<lambda>tl. if drop_bit 9 tl \<noteq> 0 then Inl AssertionError else Inr (tl AND 0x01ff))"

definition basic_tlv_parse :: "bytes \<Rightarrow> basic_tlv result" where
  "basic_tlv_parse arr =
     bindE (header_16 arr) (\<lambda>tl. Inr \<lparr>bt_type = drop_bit 9 tl, bt_len = tl AND 0x01ff, bt_next = drop 2 arr\<rparr>)"

text \<open>All positions are non-negative, because the address length counts its own subtype.\<close>

definition management_address_parse :: "bytes \<Rightarrow> management_address result" where
  "management_address_parse data =
     bindE (header_16 data) (\<lambda>_.
     bindE (byte_at data 2) (\<lambda>asl.
     bindE (byte_at data 3) (\<lambda>sub.
       let asl = asl - 1; pos = nat (4 + asl) in
       bindE (byte_at data pos) (\<lambda>ins.
       bindE (struct_unpack ''!L'' (slice (pos + 1) (pos + 1 + 4) data)) (\<lambda>num.
       bindE (byte_at data (pos + 5)) (\<lambda>osl.
         Inr \<lparr>ma_address_subtype = sub, ma_address = slice 4 pos data, ma_interface_numbering_subtype = ins,
              ma_interface_number = num ! 0, ma_object_identifier = slice (pos + 6) (pos + 6 + nat osl) data\<rparr>))))))"

definition organizationally_specific_parse :: "bytes \<Rightarrow> organizationally_specific result" where
  "organizationally_specific_parse arr =
     bindE (basic_tlv_parse arr) (\<lambda>t.
       if length (slice 0 4 (bt_next t)) \<noteq> 4 then Inl StructError
       else Inr \<lparr>os_len = bt_len t, os_oui = slice 0 3 (bt_next t), os_subtype = of_char (bt_next t ! 3), os_next = drop 4 (bt_next t)\<rparr>)"

text \<open>\<^verbatim>\<open>cap and (1 << i)\<close>: every capability is set as soon as one bit is.\<close>

definition system_capabilities_parse :: "bytes \<Rightarrow> system_capabilities result" where
  "system_capabilities_parse arr =
     bindE (basic_tlv_parse arr) (\<lambda>t.
       bindE (struct_unpack ''!HH'' (bt_next t)) (\<lambda>v.
         Inr \<lparr>sc_len = bt_len t, sc_caps = replicate 16 (v ! 0 \<noteq> 0), sc_enabled_caps = replicate 16 (v ! 1 \<noteq> 0)\<rparr>))"

text \<open>\<^verbatim>\<open>tlv_parsers\<close>; any other type is an \<^verbatim>\<open>unknown_tlv\<close>, which is parsed like the basic ones.\<close>

definition tlv_parse :: "int \<Rightarrow> bytes \<Rightarrow> tlv result" where
  "tlv_parse t arr =
     (if t = 1 then bindE (chassis_id_parse arr) (\<lambda>x. Inr (ChassisId x))
      else if t = 2 then bindE (port_id_parse arr) (\<lambda>x. Inr (PortId x))
      else if t = 3 then bindE (ttl_parse arr) (\<lambda>x. Inr (Ttl x))
      else if t = 0 then bindE (end_tlv_parse arr) (\<lambda>x. Inr (EndTlv x))
      else if t = 127 then bindE (organizationally_specific_parse arr) (\<lambda>x. Inr (OrgSpecific x))
      else if t = 7 then bindE (system_capabilities_parse arr) (\<lambda>x. Inr (SystemCaps x))
      else if t = 8 then bindE (management_address_parse arr) (\<lambda>x. Inr (MgmtAddress x))
      else bindE (basic_tlv_parse arr) (\<lambda>x. Inr (BasicTlv x)))"

text \<open>The bytes are only checked against the length without the two bytes of the header.\<close>

definition next_tlv :: "bytes \<Rightarrow> (tlv \<times> nat) option result" where
  "next_tlv array =
     (if length array < 2 then Inr None
      else bindE (header_16 array) (\<lambda>tl.
        let t = drop_bit 9 tl; n = nat (tl AND 0x01ff) in
        if length array < n then Inr None
        else bindE (tlv_parse t (slice 0 (2 + n) array)) (\<lambda>x. Inr (Some (x, 2 + n)))))"

lemma next_tlv_advances: "next_tlv array = Inr (Some (t, n)) \<Longrightarrow> 2 \<le> n"
  by (auto simp: next_tlv_def Let_def split: if_splits)

record lldp =
  ld_parsed :: bool
  ld_tlvs :: "tlv list"

text \<open>The loop over the optional TLVs, from \<open>head\<close> on: the TLVs and whether the end was found.\<close>

function lldp_rest :: "bytes \<Rightarrow> nat \<Rightarrow> tlv list \<Rightarrow> (tlv list \<times> bool) result" where
  "lldp_rest raw head tlvs =
     bindE (next_tlv (drop head raw)) (\<lambda>r.
       case r of
         None \<Rightarrow> Inr (tlvs, False)
       | Some (t, n) \<Rightarrow>
           if tlv_type t = 0 then Inr (tlvs @ [t], True)
           else if head + n \<ge> length raw then Inr (tlvs @ [t], False)
           else lldp_rest raw (head + n) (tlvs @ [t]))"
  by pat_completeness auto
termination
  by (relation "measure (\<lambda>(raw, head, _). length raw - head)") (auto dest: next_tlv_advances)

declare lldp_rest.simps [simp del]

text \<open>The three that must come first; a missing one ends the parsing with what was read.\<close>

fun lldp_first :: "int list \<Rightarrow> bytes \<Rightarrow> nat \<Rightarrow> tlv list \<Rightarrow> (tlv list \<times> bool) result" where
  "lldp_first [] raw head tlvs = lldp_rest raw head tlvs"
| "lldp_first (ty # tys) raw head tlvs =
     bindE (next_tlv (drop head raw)) (\<lambda>r.
       case r of
         None \<Rightarrow> Inr (tlvs, False)
       | Some (t, n) \<Rightarrow>
           if tlv_type t \<noteq> ty then Inr (tlvs @ [t], False)
           else lldp_first tys raw (head + n) (tlvs @ [t]))"

definition lldp_parse :: "bytes \<Rightarrow> lldp result" where
  "lldp_parse raw =
     (if length raw < 14 then Inr \<lparr>ld_parsed = False, ld_tlvs = []\<rparr>
      else bindE (lldp_first [1, 2, 3] raw 0 []) (\<lambda>(tlvs, ok). Inr \<lparr>ld_parsed = ok, ld_tlvs = tlvs\<rparr>))"

definition lldp_hdr :: "lldp \<Rightarrow> bytes result" where
  "lldp_hdr self = concatE (map tlv_pack (ld_tlvs self))"

subsection \<open>Headers\<close>

lemma typelen_split:
  assumes "0 \<le> t" "t < 128" "0 \<le> n" "n < 512"
  shows "drop_bit 9 (typelen t n) = t" "typelen t n AND 0x01ff = n" "0 \<le> typelen t n" "typelen t n < 65536"
proof -
  have m: "x AND 0x01ff = take_bit 9 x" for x :: int
    by (simp add: take_bit_eq_mask mask_eq_exp_minus_1)
  have n: "n AND 0x01ff = n" unfolding m using assms(3,4) by (intro take_bit_int_eq_self) auto
  have b: "bit n i \<Longrightarrow> i < 9" for i
    using n unfolding m by (metis bit_take_bit_iff)
  have "typelen t n = push_bit 9 t + n"
    unfolding typelen_def n by (intro disjunctive_add [symmetric]) (metis b bit_push_bit_iff_int not_less)
  then have e: "typelen t n = t * 512 + n" by (simp add: push_bit_eq_mult)
  show "drop_bit 9 (typelen t n) = t" using assms by (simp add: e drop_bit_eq_div)
  have "typelen t n AND 0x01ff = typelen t n mod 512"
    by (simp add: m take_bit_eq_mod)
  then show "typelen t n AND 0x01ff = n" using assms by (simp add: e)
  show "0 \<le> typelen t n" "typelen t n < 65536" using assms by (simp_all add: e)
qed

lemma pack_header:
  assumes "0 \<le> t" "t < 128" "0 \<le> n" "n < 512"
  shows "struct_pack ''!H'' [typelen t n] = Inr (be_bytes 2 (typelen t n))"
  using typelen_split(3,4) [OF assms] by (simp add: struct_pack_H)

text \<open>What the bytes of a TLV are: a header with type and length, and that many bytes.\<close>

definition tlv_bytes :: "int \<Rightarrow> bytes \<Rightarrow> bytes \<Rightarrow> bool" where
  "tlv_bytes t body b \<longleftrightarrow> 0 \<le> t \<and> t < 128 \<and> length body < 512 \<and> b = be_bytes 2 (typelen t (int (length body))) @ body"

lemma tlv_bytes_header:
  assumes "tlv_bytes t body b"
  shows "header_16 (b @ r) = Inr (typelen t (int (length body)))" "slice 0 2 b = take 2 b"
    "drop_bit 9 (typelen t (int (length body))) = t" "typelen t (int (length body)) AND 0x01ff = int (length body)"
    "length b = 2 + length body" "drop 2 b = body" "drop 3 b = drop 1 body" "slice 2 k b = slice 0 (k - 2) body"
proof -
  have t: "0 \<le> t" "t < 128" "0 \<le> int (length body)" "int (length body) < 512" using assms by (auto simp: tlv_bytes_def)
  note s = typelen_split [OF t]
  have b: "b = be_bytes 2 (typelen t (int (length body))) @ body" using assms by (simp add: tlv_bytes_def)
  show "drop_bit 9 (typelen t (int (length body))) = t" "typelen t (int (length body)) AND 0x01ff = int (length body)"
    using s by simp_all
  have "struct_unpack ''!H'' (be_bytes 2 (typelen t (int (length body)))) = Inr [typelen t (int (length body))]"
    using s(3,4) by (simp add: struct_unpack_def struct_fields.simps code_decode_def be_value_be_bytes code_max_def code_signed_def)
  then show "header_16 (b @ r) = Inr (typelen t (int (length body)))"
    by (simp add: header_16_def b slice_def)
  show "slice 0 2 b = take 2 b" by (simp add: slice_def)
  show "length b = 2 + length body" "drop 2 b = body" "slice 2 k b = slice 0 (k - 2) body" by (simp_all add: b slice_def)
  show "drop 3 b = drop 1 body" by (simp add: b numeral_3_eq_3 numeral_2_eq_2)
qed

text \<open>
  The interface of a TLV class: its bytes carry its type and length, and parsing them gives the object
  back.
\<close>

locale tlv_class =
  fixes ty :: int and pack :: "'a \<Rightarrow> bytes result" and parse :: "bytes \<Rightarrow> 'a result" and wf :: "'a \<Rightarrow> bool"
    and tag :: "'a \<Rightarrow> tlv"
  assumes packed_bytes: "wf x \<Longrightarrow> pack x = Inr b \<Longrightarrow> \<exists>body. tlv_bytes ty body b"
    and parse_pack: "wf x \<Longrightarrow> pack x = Inr b \<Longrightarrow> parse b = Inr x"
    and dispatch: "tlv_parse ty b = bindE (parse b) (\<lambda>x. Inr (tag x))"
begin

lemma next_tlv_pack:
  assumes "wf x" "pack x = Inr b"
  shows "next_tlv (b @ r) = Inr (Some (tag x, length b))"
proof -
  obtain body where b: "tlv_bytes ty body b" using packed_bytes [OF assms] by blast
  note h = tlv_bytes_header [OF b]
  show ?thesis
    using h(1) [of r] h(3-5) parse_pack [OF assms] by (simp add: next_tlv_def dispatch slice_def Let_def)
qed

end

lemma struct_pack_HB:
  "struct_pack ''!HB'' [a, b] = Inr x \<longleftrightarrow> 0 \<le> a \<and> a < 65536 \<and> 0 \<le> b \<and> b < 256 \<and> x = be_bytes 2 a @ be_bytes 1 b"
  by (auto simp: struct_pack.simps code_min_def code_max_def code_signed_def code_size_def)

lemma struct_pack_B: "struct_pack ''!B'' [a] = (if 0 \<le> a \<and> a < 256 then Inr (be_bytes 1 a) else Inl StructError)"
  by (simp add: struct_pack.simps code_min_def code_max_def code_signed_def code_size_def)

lemma unpack_B: "0 \<le> v \<Longrightarrow> v < 256 \<Longrightarrow> struct_unpack ''!B'' (be_bytes 1 v) = Inr [v]"
  by (simp add: struct_unpack_def struct_fields.simps code_decode_def be_value_be_bytes code_max_def code_signed_def code_size_def
      be_value_def Let_def)

lemma pack_id_bytes:
  assumes "pack_id t (1 + int (length s)) sub (Some s) = Inr b" "0 \<le> t" "t < 128" "length s \<le> 510"
  shows "tlv_bytes t (be_bytes 1 sub @ s) b" "0 \<le> sub" "sub < 256"
proof -
  have l: "take (length s) (ljust (length s) s) = s" by (simp add: ljust_def)
  show "tlv_bytes t (be_bytes 1 sub @ s) b" "0 \<le> sub" "sub < 256"
    using assms by (auto simp: pack_id_def Let_def l tlv_bytes_def struct_pack_HB ac_simps)
qed

subsection \<open>The classes\<close>

definition chassis_id_wf :: "chassis_id \<Rightarrow> bool" where
  "chassis_id_wf c \<longleftrightarrow> (\<exists>s. ch_id c = Some s \<and> ch_strlen c = 1 + int (length s) \<and> s \<noteq> [] \<and> length s \<le> 510)"

definition port_id_wf :: "port_id \<Rightarrow> bool" where
  "port_id_wf p \<longleftrightarrow> (\<exists>s. pt_id p = Some s \<and> s \<noteq> [] \<and> length s \<le> 510)"

definition basic_tlv_wf :: "basic_tlv \<Rightarrow> bool" where
  "basic_tlv_wf t \<longleftrightarrow> bt_type t \<notin> {0, 1, 2, 3, 7, 8, 127} \<and> 0 \<le> bt_type t \<and> bt_type t < 128 \<and>
     bt_len t = int (length (bt_next t)) \<and> length (bt_next t) < 512"

definition organizationally_specific_wf :: "organizationally_specific \<Rightarrow> bool" where
  "organizationally_specific_wf t \<longleftrightarrow> length (os_oui t) = 3 \<and> os_len t = 4 + int (length (os_next t)) \<and> length (os_next t) < 508"

definition system_capabilities_wf :: "system_capabilities \<Rightarrow> bool" where
  "system_capabilities_wf t \<longleftrightarrow> sc_len t = 4 \<and> (\<exists>a b. sc_caps t = replicate 16 a \<and> sc_enabled_caps t = replicate 16 b)"

interpretation chassis: tlv_class 1 chassis_id_hdr chassis_id_parse chassis_id_wf ChassisId
proof
  fix x b assume x: "chassis_id_wf x" "chassis_id_hdr x = Inr b"
  then obtain s where s: "ch_id x = Some s" "ch_strlen x = 1 + int (length s)" "s \<noteq> []" "length s \<le> 510"
    by (auto simp: chassis_id_wf_def)
  then have "pack_id 1 (1 + int (length s)) (ch_subtype x) (Some s) = Inr b" using x(2) by (simp add: chassis_id_hdr_def)
  note p = pack_id_bytes [OF this _ _ s(4), simplified]
  note h = tlv_bytes_header [OF p(1)]
  show "\<exists>body. tlv_bytes 1 body b" using p(1) by blast
  have sub: "slice 2 3 b = be_bytes 1 (ch_subtype x)" using h(8) [of 3] by (simp add: slice_def)
  show "chassis_id_parse b = Inr x"
    using h(1) [of "[]"] h(3,4,7) s unpack_B [OF p(2,3)] by (simp add: chassis_id_parse_def Let_def sub Suc_le_eq)
qed (simp add: tlv_parse_def)

interpretation port: tlv_class 2 port_id_pack port_id_parse port_id_wf PortId
proof
  fix x b assume x: "port_id_wf x" "port_id_pack x = Inr b"
  then obtain s where s: "pt_id x = Some s" "s \<noteq> []" "length s \<le> 510" by (auto simp: port_id_wf_def)
  then have "pack_id 2 (1 + int (length s)) (pt_subtype x) (Some s) = Inr b" using x(2) by (simp add: port_id_pack_def)
  note p = pack_id_bytes [OF this _ _ s(3), simplified]
  note h = tlv_bytes_header [OF p(1)]
  show "\<exists>body. tlv_bytes 2 body b" using p(1) by blast
  have sub: "slice 2 3 b = be_bytes 1 (pt_subtype x)" using h(8) [of 3] by (simp add: slice_def)
  show "port_id_parse b = Inr x"
    using h(1) [of "[]"] h(3,4,7) s unpack_B [OF p(2,3)] by (simp add: port_id_parse_def Let_def sub Suc_le_eq)
qed (simp add: tlv_parse_def)

lemma unpack_H: "0 \<le> v \<Longrightarrow> v < 65536 \<Longrightarrow> struct_unpack ''!H'' (be_bytes 2 v) = Inr [v]"
  by (simp add: struct_unpack_def struct_fields.simps code_decode_def be_value_be_bytes code_max_def code_signed_def)

interpretation time: tlv_class 3 ttl_pack ttl_parse "\<lambda>t. ttl_strlen t = 2" Ttl
proof
  fix x b assume x: "ttl_strlen x = 2" "ttl_pack x = Inr b"
  then have b: "tlv_bytes 3 (be_bytes 2 (ttl_ttl x)) b" "0 \<le> ttl_ttl x" "ttl_ttl x < 65536"
    by (auto simp: ttl_pack_def tlv_bytes_def struct_pack.simps code_min_def code_max_def code_signed_def split: if_splits)
  note h = tlv_bytes_header [OF b(1)]
  show "\<exists>body. tlv_bytes 3 body b" using b(1) by blast
  have t: "slice 2 4 b = be_bytes 2 (ttl_ttl x)" using h(8) [of 4] by (simp add: slice_def)
  show "ttl_parse b = Inr x"
    using h(1) [of "[]"] h(3,4) x(1) unpack_H [OF b(2,3)] by (simp add: ttl_parse_def Let_def t)
qed (simp add: tlv_parse_def)

interpretation stop: tlv_class 0 end_tlv_pack end_tlv_parse "\<lambda>n. n = 0" EndTlv
proof
  fix x b assume x: "x = 0" "end_tlv_pack x = Inr b"
  then have b: "tlv_bytes 0 [] b"
    using pack_header [of 0 0] by (simp add: end_tlv_pack_def tlv_bytes_def)
  then show "\<exists>body. tlv_bytes 0 body b" by blast
  show "end_tlv_parse b = Inr x"
    using tlv_bytes_header(1) [OF b, of "[]"] tlv_bytes_header(3,4) [OF b] x(1) by (simp add: end_tlv_parse_def)
qed (simp add: tlv_parse_def)

lemma basic_class:
  assumes "ty \<notin> {0, 1, 2, 3, 7, 8, 127}" "0 \<le> ty" "ty < 128"
  shows "tlv_class ty basic_tlv_pack basic_tlv_parse (\<lambda>t. basic_tlv_wf t \<and> bt_type t = ty) BasicTlv"
proof
  fix x b assume x: "basic_tlv_wf x \<and> bt_type x = ty" "basic_tlv_pack x = Inr b"
  then have b: "tlv_bytes ty (bt_next x) b"
    using pack_header [of ty "bt_len x"] by (auto simp: basic_tlv_pack_def basic_tlv_wf_def tlv_bytes_def)
  then show "\<exists>body. tlv_bytes ty body b" by blast
  show "basic_tlv_parse b = Inr x"
    using tlv_bytes_header(1) [OF b, of "[]"] tlv_bytes_header(3-6) [OF b] x(1) by (simp add: basic_tlv_parse_def basic_tlv_wf_def)
qed (use assms in \<open>simp add: tlv_parse_def\<close>)

interpretation desc: tlv_class 6 basic_tlv_pack basic_tlv_parse "\<lambda>t. basic_tlv_wf t \<and> bt_type t = 6" BasicTlv
  by (rule basic_class) simp_all

interpretation org: tlv_class 127 organizationally_specific_pack organizationally_specific_parse organizationally_specific_wf OrgSpecific
proof
  fix x b assume x: "organizationally_specific_wf x" "organizationally_specific_pack x = Inr b"
  let ?body = "os_oui x @ be_bytes 1 (os_subtype x) @ os_next x"
  have o3: "take 3 (ljust 3 (os_oui x)) = os_oui x" using x(1) by (simp add: organizationally_specific_wf_def ljust_def)
  have l: "os_len x = int (length ?body)" "length ?body < 512" using x(1) by (simp_all add: organizationally_specific_wf_def)
  have H: "struct_pack ''!H'' [typelen 127 (os_len x)] = Inr (be_bytes 2 (typelen 127 (int (length ?body))))"
    unfolding l(1) using l(2) by (intro pack_header) simp_all
  from x(2) have sub: "0 \<le> os_subtype x" "os_subtype x < 256" and "b = be_bytes 2 (typelen 127 (int (length ?body))) @ ?body"
    unfolding organizationally_specific_pack_def H o3 by (auto simp: codec struct_pack_B split: if_splits)
  then have b: "tlv_bytes 127 ?body b" unfolding tlv_bytes_def using l(2) by simp
  then show "\<exists>body. tlv_bytes 127 body b" by blast
  note h = tlv_bytes_header [OF b]
  have n: "basic_tlv_parse b = Inr \<lparr>bt_type = 127, bt_len = int (length ?body), bt_next = ?body\<rparr>"
    using h(1) [of "[]"] h(3,4,6) by (simp add: basic_tlv_parse_def)
  show "organizationally_specific_parse b = Inr x"
    using x(1) sub by (simp add: organizationally_specific_parse_def n organizationally_specific_wf_def slice_def nth_append)
qed (simp add: tlv_parse_def)

lemma all_flags: "flags_value 0 (replicate 16 a) = (if a then 65535 else 0)"
  by (cases a) (simp_all add: eval_nat_numeral)

lemma unpack_HH:
  assumes "0 \<le> v" "v < 65536" "0 \<le> w" "w < 65536"
  shows "struct_unpack ''!HH'' (be_bytes 2 v @ be_bytes 2 w) = Inr [v, w]"
  using assms by (simp add: struct_unpack_def struct_fields.simps code_decode_def be_value_be_bytes code_max_def code_signed_def)

interpretation caps: tlv_class 7 system_capabilities_pack system_capabilities_parse system_capabilities_wf SystemCaps
proof
  fix x b assume x: "system_capabilities_wf x" "system_capabilities_pack x = Inr b"
  then obtain p q where f: "sc_len x = 4" "sc_caps x = replicate 16 p" "sc_enabled_caps x = replicate 16 q"
    by (auto simp: system_capabilities_wf_def)
  let ?v = "\<lambda>p. if p then 65535 else 0 :: int"
  let ?body = "be_bytes 2 (?v p) @ be_bytes 2 (?v q)"
  have "struct_pack ''!HHH'' [typelen 7 4, ?v p, ?v q] = Inr (be_bytes 2 (typelen 7 4) @ ?body)"
    using typelen_split(3,4) [of 7 4] by (simp add: struct_pack.simps code_min_def code_max_def code_signed_def)
  then have b: "tlv_bytes 7 ?body b" using x(2) f by (simp add: system_capabilities_pack_def all_flags tlv_bytes_def)
  then show "\<exists>body. tlv_bytes 7 body b" by blast
  have "basic_tlv_parse b = Inr \<lparr>bt_type = 7, bt_len = 4, bt_next = ?body\<rparr>"
    using tlv_bytes_header(1) [OF b, of "[]"] tlv_bytes_header(3-6) [OF b] by (simp add: basic_tlv_parse_def)
  moreover have "struct_unpack ''!HH'' ?body = Inr [?v p, ?v q]" by (rule unpack_HH) simp_all
  ultimately show "system_capabilities_parse b = Inr x" using f by (simp add: system_capabilities_parse_def)
qed (simp add: tlv_parse_def)

definition management_address_wf :: "management_address \<Rightarrow> bool" where
  "management_address_wf m \<longleftrightarrow> length (ma_address m) + length (ma_object_identifier m) \<le> 503"

lemma struct_pack_BB: "struct_pack ''!BB'' [a, b] = (if 0 \<le> a \<and> a < 256 \<and> 0 \<le> b \<and> b < 256 then Inr (be_bytes 1 a @ be_bytes 1 b) else Inl StructError)"
  by (simp add: struct_pack.simps code_min_def code_max_def code_signed_def code_size_def)

lemma struct_pack_BLB: "struct_pack ''!BLB'' [a, b, c] =
    (if 0 \<le> a \<and> a < 256 \<and> 0 \<le> b \<and> b < 2 ^ 32 \<and> 0 \<le> c \<and> c < 256 then Inr (be_bytes 1 a @ be_bytes 4 b @ be_bytes 1 c) else Inl StructError)"
  by (simp add: struct_pack.simps code_min_def code_max_def code_signed_def code_size_def)

lemma unpack_L: "0 \<le> v \<Longrightarrow> v < 2 ^ 32 \<Longrightarrow> struct_unpack ''!L'' (be_bytes 4 v) = Inr [v]"
  by (simp add: struct_unpack_def struct_fields.simps code_decode_def be_value_be_bytes code_max_def code_signed_def)

lemma byte_at_be: "0 \<le> v \<Longrightarrow> v < 256 \<Longrightarrow> length s = i \<Longrightarrow> byte_at (s @ be_bytes 1 v @ t) i = Inr v"
  by (simp add: byte_at_def nth_append)

interpretation mgmt: tlv_class 8 management_address_pack management_address_parse management_address_wf MgmtAddress
proof
  fix x b assume x: "management_address_wf x" "management_address_pack x = Inr b"
  let ?a = "ma_address x" and ?o = "ma_object_identifier x"
  let ?tail = "be_bytes 1 (ma_interface_numbering_subtype x) @ be_bytes 4 (ma_interface_number x) @ be_bytes 1 (int (length ?o)) @ ?o"
  let ?body = "be_bytes 1 (int (length ?a) + 1) @ be_bytes 1 (ma_address_subtype x) @ ?a @ ?tail"
  have l: "management_address_len x - 2 = int (length ?body)" "length ?body < 512"
    using x(1) by (simp_all add: management_address_len_def management_address_wf_def)
  have H: "struct_pack ''!H'' [typelen 8 (management_address_len x - 2)] = Inr (be_bytes 2 (typelen 8 (int (length ?body))))"
    unfolding l(1) using l(2) by (intro pack_header) simp_all
  let ?h = "be_bytes 2 (typelen 8 (int (length ?body)))"
  from x(2) have r: "length ?a < 255" "0 \<le> ma_address_subtype x" "ma_address_subtype x < 256"
      "0 \<le> ma_interface_numbering_subtype x" "ma_interface_numbering_subtype x < 256" "0 \<le> ma_interface_number x" "ma_interface_number x < 2 ^ 32"
      "length ?o < 256" and e: "b = ?h @ ?body"
    unfolding management_address_pack_def H by (auto simp: codec struct_pack_BB struct_pack_BLB simp del: be_bytes.simps split: if_splits)
  have b: "tlv_bytes 8 ?body b" unfolding tlv_bytes_def using e l(2) by simp
  then show "\<exists>body. tlv_bytes 8 body b" by blast
  have h: "header_16 b = Inr (typelen 8 (int (length ?body)))" using tlv_bytes_header(1) [OF b, of "[]"] by simp
  have p2: "byte_at b 2 = Inr (int (length ?a) + 1)"
    unfolding e using r by (intro byte_at_be) simp_all
  have p3: "byte_at b 3 = Inr (ma_address_subtype x)"
    unfolding e using r byte_at_be [of "ma_address_subtype x" "?h @ be_bytes 1 (int (length ?a) + 1)" 3] by simp
  let ?n = "4 + length ?a"
  have p4: "byte_at b ?n = Inr (ma_interface_numbering_subtype x)"
    unfolding e using r byte_at_be [of "ma_interface_numbering_subtype x" "?h @ be_bytes 1 (int (length ?a) + 1) @ be_bytes 1 (ma_address_subtype x) @ ?a" ?n]
    by (simp del: be_bytes.simps)
  have p5: "byte_at b (?n + 5) = Inr (int (length ?o))"
    unfolding e using r byte_at_be [of "int (length ?o)" "?h @ be_bytes 1 (int (length ?a) + 1) @ be_bytes 1 (ma_address_subtype x) @ ?a @
      be_bytes 1 (ma_interface_numbering_subtype x) @ be_bytes 4 (ma_interface_number x)" "?n + 5" ?o]
    by (simp del: be_bytes.simps)
  have s1: "slice (?n + 1) (?n + 1 + 4) b = be_bytes 4 (ma_interface_number x)" "slice 4 ?n b = ?a" "slice (?n + 6) (?n + 6 + length ?o) b = ?o"
    unfolding e slice_def by (simp_all del: be_bytes.simps)
  have n: "nat (4 + int (length ?a)) = ?n" by simp
  have p5': "byte_at b (9 + length ?a) = Inr (int (length ?o))" using p5 by (simp add: ac_simps)
  have s1': "slice (5 + length ?a) (9 + length ?a) b = be_bytes 4 (ma_interface_number x)"
    "slice (10 + length ?a) (10 + length ?a + length ?o) b = ?o" using s1(1,3) by (simp_all add: ac_simps)
  show "management_address_parse b = Inr x"
    using unpack_L [OF r(6,7)] by (simp add: management_address_parse_def h p2 p3 p4 p5' s1(2) s1' n Let_def del: One_nat_def)
qed (simp add: tlv_parse_def)

subsection \<open>Whole frames\<close>

fun tlv_wf :: "tlv \<Rightarrow> bool" where
  "tlv_wf (ChassisId t) = chassis_id_wf t"
| "tlv_wf (PortId t) = port_id_wf t"
| "tlv_wf (Ttl t) = (ttl_strlen t = 2)"
| "tlv_wf (EndTlv n) = (n = 0)"
| "tlv_wf (BasicTlv t) = basic_tlv_wf t"
| "tlv_wf (MgmtAddress t) = management_address_wf t"
| "tlv_wf (OrgSpecific t) = organizationally_specific_wf t"
| "tlv_wf (SystemCaps t) = system_capabilities_wf t"

lemma next_tlv_packed: "tlv_wf t \<Longrightarrow> tlv_pack t = Inr b \<Longrightarrow> next_tlv (b @ r) = Inr (Some (t, length b))"
  using chassis.next_tlv_pack port.next_tlv_pack time.next_tlv_pack stop.next_tlv_pack org.next_tlv_pack caps.next_tlv_pack
    mgmt.next_tlv_pack tlv_class.next_tlv_pack [OF basic_class]
  by (cases t) (simp_all add: basic_tlv_wf_def)

lemma lldp_rest_pack:
  assumes "concatE (map tlv_pack ts) = Inr b" "\<forall>t \<in> set ts. tlv_wf t \<and> tlv_type t \<noteq> 0" "end_tlv_pack 0 = Inr e" "length pre = n"
  shows "lldp_rest (pre @ b @ e @ r) n tlvs = Inr (tlvs @ ts @ [EndTlv 0], True)"
  using assms
proof (induction ts arbitrary: b pre n tlvs)
  case Nil
  then show ?case
    using stop.next_tlv_pack [of 0 e r] by (simp add: lldp_rest.simps [of "pre @ e @ r"])
next
  case (Cons t ts)
  obtain c d where b: "tlv_pack t = Inr c" "concatE (map tlv_pack ts) = Inr d" "b = c @ d"
    using Cons.prems(1) by (auto simp: codec)
  have t: "next_tlv (c @ d @ e @ r) = Inr (Some (t, length c))" using next_tlv_packed [OF _ b(1)] Cons.prems(2) by simp
  have "e \<noteq> []" using stop.next_tlv_pack [OF refl Cons.prems(3), of "[]"] next_tlv_advances by force
  moreover have "lldp_rest ((pre @ c) @ d @ e @ r) (length (pre @ c)) (tlvs @ [t]) = Inr ((tlvs @ [t]) @ ts @ [EndTlv 0], True)"
    using Cons.prems b(2) by (intro Cons.IH) simp_all
  ultimately show ?case
    using t Cons.prems(2,4) by (simp add: b(3) lldp_rest.simps [of "pre @ c @ d @ e @ r"])
qed

lemma chassis_len: "chassis_id_wf c \<Longrightarrow> chassis_id_hdr c = Inr b \<Longrightarrow> 4 \<le> length b"
  by (auto simp: chassis_id_hdr_def chassis_id_wf_def pack_id_def Let_def ljust_def Suc_le_eq neq_Nil_conv dest!: struct_pack_length)

lemma port_len: "port_id_wf c \<Longrightarrow> port_id_pack c = Inr b \<Longrightarrow> 4 \<le> length b"
  by (auto simp: port_id_pack_def port_id_wf_def pack_id_def Let_def ljust_def Suc_le_eq neq_Nil_conv dest!: struct_pack_length)

lemma lldp_parse_hdr:
  assumes "lldp_hdr (\<lparr>ld_parsed = p, ld_tlvs = [ChassisId c, PortId i, Ttl t] @ ts @ [EndTlv 0]\<rparr>) = Inr b"
    "chassis_id_wf c" "port_id_wf i" "ttl_strlen t = 2" "\<forall>x \<in> set ts. tlv_wf x \<and> tlv_type x \<noteq> 0"
  shows "lldp_parse (b @ r) = Inr \<lparr>ld_parsed = True, ld_tlvs = [ChassisId c, PortId i, Ttl t] @ ts @ [EndTlv 0]\<rparr>"
proof -
  have ce: "concatE (xs @ ys) = Inr z \<longleftrightarrow> (\<exists>u v. concatE xs = Inr u \<and> concatE ys = Inr v \<and> z = u @ v)" for xs ys z
    by (induction xs arbitrary: z) (auto simp: codec)
  obtain b1 b2 b3 m e where b: "chassis_id_hdr c = Inr b1" "port_id_pack i = Inr b2" "ttl_pack t = Inr b3"
      "concatE (map tlv_pack ts) = Inr m" "end_tlv_pack 0 = Inr e" "b = b1 @ b2 @ b3 @ m @ e"
    using assms(1) by (auto simp: lldp_hdr_def codec ce)
  have n: "next_tlv (b1 @ s) = Inr (Some (ChassisId c, length b1))" "next_tlv (b2 @ s) = Inr (Some (PortId i, length b2))"
    "next_tlv (b3 @ s) = Inr (Some (Ttl t, length b3))" for s
    using chassis.next_tlv_pack [OF assms(2) b(1)] port.next_tlv_pack [OF assms(3) b(2)] time.next_tlv_pack [OF assms(4) b(3)] by simp_all
  have "4 \<le> length b1" "4 \<le> length b2" "length b3 = 4" "length e = 2"
    using chassis_len [OF assms(2) b(1)] port_len [OF assms(3) b(2)] b(3,5) by (auto simp: ttl_pack_def end_tlv_pack_def dest: struct_pack_length)
  then have "14 \<le> length b" by (simp add: b(6))
  moreover have "lldp_rest ((b1 @ b2 @ b3) @ m @ e @ r) (length b1 + length b2 + length b3) ([ChassisId c, PortId i, Ttl t]) =
      Inr ([ChassisId c, PortId i, Ttl t] @ ts @ [EndTlv 0], True)"
    by (rule lldp_rest_pack [OF b(4) assms(5) b(5)]) simp
  ultimately show ?thesis
    using n by (simp add: lldp_parse_def b(6))
qed

end
