(* ===== verification/Discovery.thy ===== *)
theory Discovery
  imports Complex_Main "HOL-Library.AList" OF_System LLDP
begin

text \<open>
  \<^verbatim>\<open>openflow/discovery.py\<close>: the probes that are sent round robin out of every port, the handler that turns
  a received probe into a link, and the expiry of links. The lemmas give the invariant of the component,
  relate the events it raised to the links it knows, and follow a probe from its construction to the
  link it discovers.
\<close>

unbundle bit_operations_syntax

subsection \<open>State\<close>

text \<open>The packet library with LLDP as it is modelled, and the rest as before.\<close>

definition lldp_env :: "'p packet_env \<Rightarrow> (lldp + 'p) packet_env" where
  "lldp_env e =
     \<lparr>env_ip_id = env_ip_id e, env_echo_id = env_echo_id e,
      other_parse = (\<lambda>c b. if c = C_lldp then bindE (lldp_parse b) (\<lambda>l. Inr (Inl l))
                          else bindE (other_parse e c b) (\<lambda>p. Inr (Inr p))),
      other_parsed = (\<lambda>p. case p of Inl l \<Rightarrow> ld_parsed l | Inr p \<Rightarrow> other_parsed e p),
      other_pack = (\<lambda>p. case p of Inl l \<Rightarrow> bindE (lldp_hdr l) (\<lambda>b. Inr (b, Inl l))
                              | Inr p \<Rightarrow> bindE (other_pack e p) (\<lambda>(b, p). Inr (b, Inr p)))\<rparr>"

datatype dlink = Link (dpid1: int) (port1: int) (dpid2: int) (port2: int)

text \<open>
  \<open>dc_adjacency\<close> is the dictionary from links to time stamps. \<open>dc_timer\<close> is the period of the timer that
  sends probes, if it runs. Events and probes that were sent are recorded in order.
\<close>

record discovery =
  dc_explicit_drop :: bool
  dc_install_flow :: bool
  dc_dps :: "int set"
  dc_adjacency :: "(dlink \<times> rat) list"
  dc_packets :: "(int \<times> int \<times> bytes) list"
  dc_timer :: "rat option"
  dc_next_XID :: int
  dc_events :: "(bool \<times> dlink) list"
  dc_probes :: "(int \<times> bytes) list"

definition Discovery_init :: "bool \<Rightarrow> bool \<Rightarrow> int \<Rightarrow> discovery" where
  "Discovery_init install_flow explicit_drop nx =
     \<lparr>dc_explicit_drop = explicit_drop, dc_install_flow = install_flow, dc_dps = {}, dc_adjacency = [],
      dc_packets = [], dc_timer = None, dc_next_XID = nx, dc_events = [], dc_probes = []\<rparr>"

definition NDP_MULTICAST :: EthAddr where
  "NDP_MULTICAST = EthAddr [CHR 0x01, CHR 0x23, CHR 0x20, CHR 0x00, CHR 0x00, CHR 0x01]"

abbreviation (input) LLDP_SEND_CYCLE :: rat where "LLDP_SEND_CYCLE \<equiv> 5"
abbreviation (input) LINK_TIMEOUT :: rat where "LINK_TIMEOUT \<equiv> 10"

subsection \<open>Probes\<close>

text \<open>\<^verbatim>\<open>'dpid:' + hex(long(dpid))[2:-1]\<close>: \<^verbatim>\<open>hex\<close> of a long ends with \<^verbatim>\<open>L\<close>.\<close>

definition hex_long :: "int \<Rightarrow> string" where
  "hex_long n = (if n < 0 then ''-'' else []) @ ''0x'' @ nat_digits 16 (nat \<bar>n\<bar>) @ ''L''"

definition dpid_text :: "int \<Rightarrow> string" where
  "dpid_text dpid = ''dpid:'' @ butlast (drop 2 (hex_long dpid))"

definition probe_lldp :: "int \<Rightarrow> int \<Rightarrow> lldp" where
  "probe_lldp dpid portNum = \<lparr>ld_parsed = False, ld_tlvs =
     [ChassisId (chassis_id_fill 7 (dpid_text dpid)), PortId (port_id_fill 2 (py_str portNum)), Ttl (ttl_fill 120),
      BasicTlv (basic_tlv_fill 6 (dpid_text dpid)), EndTlv 0]\<rparr>"

definition probe_frame :: "'p packet_env \<Rightarrow> int \<Rightarrow> int \<Rightarrow> hw \<Rightarrow> (bytes \<times> (lldp + 'p) packet) result" where
  "probe_frame env dpid portNum portAddr = packet_pack (lldp_env env) None
     (PEthernet \<lparr>e_parsed = False, e_dst = HwEth NDP_MULTICAST, e_src = portAddr, e_type = 0x88cc\<rparr>
        (PktNext (POther (Inl (probe_lldp dpid portNum)))))"

definition create_discovery_packet :: "'p packet_env \<Rightarrow> int \<Rightarrow> int \<Rightarrow> hw \<Rightarrow> int \<Rightarrow> (bytes \<times> int) result" where
  "create_discovery_packet env dpid portNum portAddr nextXID =
     bindE (probe_frame env dpid portNum portAddr) (\<lambda>(data, _).
     bindE (ofp_packet_out_pack True (po_set_data (Some data)
         ((ofp_packet_out_init (\<lambda>m. m))\<lparr>po_actions := [output_action portNum]\<rparr>)) nextXID) (\<lambda>(b, _, nx).
       case b of None \<Rightarrow> Inl TypeError | Some b \<Rightarrow> Inr (b, nx)))"

definition set_timer :: "discovery \<Rightarrow> discovery" where
  "set_timer s = s\<lparr>dc_timer := (if dc_packets s = [] then None else Some (LLDP_SEND_CYCLE / of_nat (length (dc_packets s))))\<rparr>"

definition append_probe :: "'p packet_env \<Rightarrow> int \<Rightarrow> int \<Rightarrow> hw \<Rightarrow> discovery stmt" where
  "append_probe env dpid portNum portAddr s =
     (case create_discovery_packet env dpid portNum portAddr (dc_next_XID s) of
        Inl e \<Rightarrow> (Some e, s)
      | Inr (b, nx) \<Rightarrow> (None, s\<lparr>dc_packets := dc_packets s @ [(dpid, portNum, b)], dc_next_XID := nx\<rparr>))"

definition drop_probes :: "(int \<times> int \<Rightarrow> bool) \<Rightarrow> discovery \<Rightarrow> discovery" where
  "drop_probes P s = s\<lparr>dc_packets := filter (\<lambda>(d, p, _). \<not> P (d, p)) (dc_packets s)\<rparr>"

definition addSwitch :: "'p packet_env \<Rightarrow> int \<Rightarrow> (int \<times> hw) list \<Rightarrow> discovery stmt" where
  "addSwitch env dpid ports s =
     seq (map (\<lambda>(portNum, portAddr). if portNum > OFPP_MAX then update (\<lambda>s. s) else append_probe env dpid portNum portAddr) ports
          @ [update set_timer])
       (drop_probes (\<lambda>(d, _). d = dpid) s)"

definition delSwitch :: "int \<Rightarrow> discovery \<Rightarrow> discovery" where
  "delSwitch dpid s = set_timer (drop_probes (\<lambda>(d, _). d = dpid) s)"

definition delPort :: "int \<Rightarrow> int \<Rightarrow> discovery \<Rightarrow> discovery" where
  "delPort dpid portNum s = set_timer (drop_probes (\<lambda>(d, p). d = dpid \<and> p = portNum) s)"

definition addPort :: "'p packet_env \<Rightarrow> int \<Rightarrow> int \<Rightarrow> hw \<Rightarrow> discovery stmt" where
  "addPort env dpid portNum portAddr s =
     (if portNum > OFPP_MAX then (None, s)
      else seq [append_probe env dpid portNum portAddr, update set_timer] (delPort dpid portNum s))"

text \<open>A tick of the timer: the first probe is sent and goes to the end of the queue.\<close>

definition timerHandler :: "discovery stmt" where
  "timerHandler s =
     (case dc_packets s of
        [] \<Rightarrow> (Some IndexError, s)
      | (d, p, b) # ps \<Rightarrow> (None, s\<lparr>dc_packets := ps @ [(d, p, b)], dc_probes := dc_probes s @ [(d, b)]\<rparr>))"

subsection \<open>Links\<close>

definition raise_link :: "bool \<Rightarrow> dlink \<Rightarrow> discovery \<Rightarrow> discovery" where
  "raise_link added l s = s\<lparr>dc_events := dc_events s @ [(added, l)]\<rparr>"

fun deleteLinks :: "dlink list \<Rightarrow> discovery stmt" where
  "deleteLinks [] s = (None, s)"
| "deleteLinks (l # ls) s =
     (if map_of (dc_adjacency s) l = None then (Some KeyError, s)
      else deleteLinks ls (raise_link False l (s\<lparr>dc_adjacency := AList.delete l (dc_adjacency s)\<rparr>)))"

definition expireLinks :: "rat \<Rightarrow> discovery stmt" where
  "expireLinks curtime s =
     (let deleteme = [l. (l, timestamp) \<leftarrow> dc_adjacency s, curtime - timestamp > LINK_TIMEOUT]
      in deleteLinks deleteme s)"

definition isSwitchOnlyPort :: "int \<Rightarrow> int \<Rightarrow> discovery \<Rightarrow> bool" where
  "isSwitchOnlyPort dpid port s =
     list_ex (\<lambda>(l, _). dpid1 l = dpid \<and> port1 l = port \<or> dpid2 l = dpid \<and> port2 l = port) (dc_adjacency s)"

subsection \<open>Connections and ports\<close>

definition lldp_flow :: ofp_flow_mod where
  "lldp_flow = (ofp_flow_mod_init (\<lambda>m. m\<lparr>fm_match := hw_set F_dl_dst (Some (HwEth NDP_MULTICAST)) (int_set F_dl_type (Some 0x88cc) ofp_match_new)\<rparr>))
     \<lparr>fm_actions := [output_action OFPP_CONTROLLER]\<rparr>"

text \<open>Sending on a connection draws from the one global identifier counter.\<close>

definition dc_send ::
    "(int \<Rightarrow> (bytes option \<times> 'a ofp_header_scheme \<times> int) result) \<Rightarrow> (connection \<times> discovery) stmt" where
  "dc_send pack = (\<lambda>(c, s).
     (case con_send pack (\<lambda>_ c. c) (c\<lparr>next_XID := dc_next_XID s\<rparr>) of
        (e, c) \<Rightarrow> (e, (c, s\<lparr>dc_next_XID := next_XID c\<rparr>))))"

definition on_discovery :: "discovery stmt \<Rightarrow> (connection \<times> discovery) stmt" where
  "on_discovery f = (\<lambda>(c, s). (case f s of (e, s) \<Rightarrow> (e, (c, s))))"

definition dc_ConnectionUp :: "'p packet_env \<Rightarrow> int \<Rightarrow> ofp_features_reply \<Rightarrow> (connection \<times> discovery) stmt" where
  "dc_ConnectionUp env dpid ofp = (\<lambda>(c, s).
     if dpid \<in> dc_dps s then (Some AssertionError, (c, s))
     else seq [
       (if dc_install_flow s then dc_send (ofp_flow_mod_pack True lldp_flow) else update (\<lambda>x. x)),
       on_discovery (update (\<lambda>s. s\<lparr>dc_dps := insert dpid (dc_dps s)\<rparr>)),
       on_discovery (addSwitch env dpid (map (\<lambda>p. (pp_port_no p, pp_hw_addr p)) (fr_ports ofp)))] (c, s))"

definition dc_ConnectionDown :: "int \<Rightarrow> discovery stmt" where
  "dc_ConnectionDown dpid s =
     (if dpid \<notin> dc_dps s then (Some AssertionError, s)
      else let s = delSwitch dpid (s\<lparr>dc_dps := dc_dps s - {dpid}\<rparr>);
               deleteme = [l. (l, _) \<leftarrow> dc_adjacency s, dpid1 l = dpid \<or> dpid2 l = dpid]
           in deleteLinks deleteme s)"

definition dc_PortStatus :: "'p packet_env \<Rightarrow> int \<Rightarrow> ofp_port_status \<Rightarrow> discovery stmt" where
  "dc_PortStatus env dpid ofp s =
     (let port = pp_port_no (ps_desc ofp) in
      if port \<le> OFPP_MAX then
        if ps_reason ofp = 0 then addPort env dpid port (pp_hw_addr (ps_desc ofp)) s
        else if ps_reason ofp = 1 then (None, delPort dpid port s) else (None, s)
      else (None, s))"

subsection \<open>Received probes\<close>

definition py_Q :: "bytes \<Rightarrow> int option" where
  "py_Q b = (case struct_unpack ''!Q'' b of Inr [v] \<Rightarrow> Some v | _ \<Rightarrow> None)"

text \<open>The first line with a number; then eight bytes; only the first description counts.\<close>

fun dpid_line :: "string list \<Rightarrow> int option" where
  "dpid_line [] = None"
| "dpid_line (l # ls) =
     (if take 5 l = ''dpid:'' then case py_int 16 (drop 5 l) of Inr n \<Rightarrow> Some n | Inl _ \<Rightarrow> dpid_line ls
      else dpid_line ls)"

fun lookInSysDesc :: "tlv list \<Rightarrow> int option" where
  "lookInSysDesc [] = None"
| "lookInSysDesc (BasicTlv t # ts) =
     (if bt_type t = 6 then
        case dpid_line (split_on (CHR 0x0A) (bt_next t)) of
          Some n \<Rightarrow> Some n
        | None \<Rightarrow> if length (bt_next t) = 8 then py_Q (bt_next t) else None
      else lookInSysDesc ts)"
| "lookInSysDesc (t # ts) = lookInSysDesc ts"

text \<open>
  The chassis identifier as a last resort. Its text form is read with \<^verbatim>\<open>tostring\<close>, which a \<^verbatim>\<open>str\<close> does not
  have, and the exception is swallowed: only the hardware address form works.
\<close>

definition lookInChassis :: "tlv \<Rightarrow> int option" where
  "lookInChassis t =
     (case t of
        ChassisId c \<Rightarrow>
          (case ch_id c of
             Some s \<Rightarrow> if ch_subtype c = 4 \<and> length s = 6 then py_Q (NUL # NUL # s) else None
           | None \<Rightarrow> None)
      | _ \<Rightarrow> None)"

definition is_digits :: "string \<Rightarrow> bool" where
  "is_digits s \<longleftrightarrow> s \<noteq> [] \<and> list_all (\<lambda>c. 48 \<le> (of_char c :: nat) \<and> (of_char c :: nat) \<le> 57) s"

definition originator_port :: "bytes \<Rightarrow> int option" where
  "originator_port s =
     (if is_digits s then (case py_int 10 s of Inr n \<Rightarrow> Some n | Inl _ \<Rightarrow> None)
      else if length s = 2 then (case struct_unpack ''!H'' s of Inr [v] \<Rightarrow> Some v | _ \<Rightarrow> None)
      else None)"

text \<open>Whom a list of TLVs comes from: \<open>None\<close> where the handler returns without a link.\<close>

definition originator :: "int set \<Rightarrow> tlv list \<Rightarrow> (int \<times> int) option" where
  "originator dps tlvs =
     (case tlvs of
        c # PortId p # t # ts \<Rightarrow>
          if tlv_type c \<noteq> 1 \<or> tlv_type t \<noteq> 3 then None
          else (case (case lookInSysDesc ts of Some n \<Rightarrow> Some n | None \<Rightarrow> lookInChassis c) of
             None \<Rightarrow> None
           | Some dpid \<Rightarrow>
               if dpid \<notin> dps then None
               else if pt_subtype p \<noteq> 2 then None
               else case pt_id p of None \<Rightarrow> None
                 | Some s \<Rightarrow> (case originator_port s of None \<Rightarrow> None | Some port \<Rightarrow> Some (dpid, port)))
      | _ \<Rightarrow> None)"

text \<open>The table of links and its event; the result says whether the event is halted.\<close>

definition found_link :: "rat \<Rightarrow> dlink \<Rightarrow> discovery \<Rightarrow> discovery" where
  "found_link now l s =
     (if map_of (dc_adjacency s) l = None
      then raise_link True l (s\<lparr>dc_adjacency := AList.update l now (dc_adjacency s)\<rparr>)
      else s\<lparr>dc_adjacency := AList.update l now (dc_adjacency s)\<rparr>)"

definition drop_lldp :: "ofp_packet_in \<Rightarrow> (connection \<times> discovery) stmt" where
  "drop_lldp ofp = (\<lambda>(c, s).
     if dc_explicit_drop s \<and> pi_buffer_id ofp \<noteq> -1
     then dc_send (ofp_packet_out_pack True ((ofp_packet_out_init (\<lambda>m. m))\<lparr>po_buffer_id := pi_buffer_id ofp, po_in_port := pi_in_port ofp\<rparr>)) (c, s)
     else (None, (c, s)))"

definition dc_PacketIn ::
    "'p packet_env \<Rightarrow> rat \<Rightarrow> int \<Rightarrow> ofp_packet_in \<Rightarrow> connection \<times> discovery \<Rightarrow> bool result \<times> connection \<times> discovery" where
  "dc_PacketIn env now dpid ofp st =
     (case event_parse (lldp_env env) ofp of
        Inl e \<Rightarrow> (Inl e, st)
      | Inr (PEthernet h n) \<Rightarrow>
          if e_type h \<noteq> 0x88cc then (Inr False, st)
          else if e_dst h \<noteq> HwEth NDP_MULTICAST then (Inr False, st)
          else (case n of
             PktNext (POther (Inl l)) \<Rightarrow>
               if \<not> ld_parsed l then (Inr False, st)
               else (case drop_lldp ofp st of
                  (Some e, st) \<Rightarrow> (Inl e, st)
                | (None, (c, s)) \<Rightarrow>
                    (case originator (dc_dps s) (ld_tlvs l) of
                       None \<Rightarrow> (Inr False, (c, s))
                     | Some (d, p) \<Rightarrow>
                         if (dpid, pi_in_port ofp) = (d, p) then (Inr False, (c, s))
                         else (Inr True, (c, found_link now (Link d p dpid (pi_in_port ofp)) s))))
           | PktNext p \<Rightarrow> (if packet_parsed (lldp_env env) p = Inr False then Inr False else Inl AssertionError, st)
           | RawNext b \<Rightarrow> (if b = [] then Inr False else Inl AssertionError, st)
           | _ \<Rightarrow> (Inr False, st))
      | Inr _ \<Rightarrow> (Inr False, st))"

subsection \<open>The invariant\<close>

text \<open>
  Each link is stored once, runs between two different ports of known switches, and each probe belongs to
  a known switch.
\<close>

definition dc_ok :: "discovery \<Rightarrow> bool" where
  "dc_ok s \<longleftrightarrow> distinct (map fst (dc_adjacency s)) \<and>
     (\<forall>l \<in> fst ` set (dc_adjacency s). dpid1 l \<in> dc_dps s \<and> dpid2 l \<in> dc_dps s \<and> (dpid1 l, port1 l) \<noteq> (dpid2 l, port2 l)) \<and>
     (\<forall>(d, p, b) \<in> set (dc_packets s). d \<in> dc_dps s)"

text \<open>What a listener that only hears the events knows.\<close>

definition replay :: "(bool \<times> dlink) list \<Rightarrow> dlink set" where
  "replay evs = fold (\<lambda>(added, l) S. if added then insert l S else S - {l}) evs {}"

definition dc_mirror :: "discovery \<Rightarrow> bool" where
  "dc_mirror s \<longleftrightarrow> replay (dc_events s) = fst ` set (dc_adjacency s)"

lemma replay_snoc [simp]: "replay (evs @ [(a, l)]) = (if a then insert l (replay evs) else replay evs - {l})"
  by (simp add: replay_def)

lemma probes_kept [simp]:
  "dc_adjacency (set_timer s) = dc_adjacency s" "dc_dps (set_timer s) = dc_dps s" "dc_events (set_timer s) = dc_events s"
  "dc_packets (set_timer s) = dc_packets s"
  "dc_adjacency (drop_probes P s) = dc_adjacency s" "dc_dps (drop_probes P s) = dc_dps s" "dc_events (drop_probes P s) = dc_events s"
  by (simp_all add: set_timer_def drop_probes_def)

lemma dc_ok_drop: "dc_ok s \<Longrightarrow> dc_ok (drop_probes P s)"
  by (auto simp: dc_ok_def drop_probes_def)

lemma dc_ok_timer [simp]: "dc_ok (set_timer s) = dc_ok s"
  by (simp add: dc_ok_def)

text \<open>The statements that build probes.\<close>

definition dc_safe :: "int \<Rightarrow> discovery stmt \<Rightarrow> bool" where
  "dc_safe dpid f \<longleftrightarrow> (\<forall>s. dc_ok s \<and> dpid \<in> dc_dps s \<longrightarrow> dc_ok (snd (f s)) \<and> dc_dps (snd (f s)) = dc_dps s \<and>
     dc_adjacency (snd (f s)) = dc_adjacency s \<and> dc_events (snd (f s)) = dc_events s)"

lemma dc_safe_append: "dc_safe dpid (append_probe env dpid p a)"
  by (auto simp: dc_safe_def append_probe_def dc_ok_def split: sum.split)

lemma dc_safe_timer: "dc_safe dpid (update set_timer)"
  by (simp add: dc_safe_def update_def)

lemma dc_safe_seq: "(\<And>f. f \<in> set fs \<Longrightarrow> dc_safe dpid f) \<Longrightarrow> dc_safe dpid (seq fs)"
proof (induction fs)
  case (Cons f fs)
  show ?case
    unfolding dc_safe_def
  proof (intro allI impI)
    fix s assume s: "dc_ok s \<and> dpid \<in> dc_dps s"
    obtain e t where t: "f s = (e, t)" by fastforce
    have f: "dc_ok t" "dc_dps t = dc_dps s" "dc_adjacency t = dc_adjacency s" "dc_events t = dc_events s"
      using Cons.prems [of f] s t by (auto simp: dc_safe_def)
    have "dc_safe dpid (seq fs)" using Cons by simp
    then show "dc_ok (snd (seq (f # fs) s)) \<and> dc_dps (snd (seq (f # fs) s)) = dc_dps s \<and>
        dc_adjacency (snd (seq (f # fs) s)) = dc_adjacency s \<and> dc_events (snd (seq (f # fs) s)) = dc_events s"
      using f s t by (cases e) (auto simp: dc_safe_def)
  qed
qed (simp add: dc_safe_def)

lemma dc_safe_addSwitch: "dc_safe dpid (addSwitch env dpid ports)"
proof -
  have "dc_safe dpid (seq (map (\<lambda>(portNum, portAddr). if portNum > OFPP_MAX then update (\<lambda>s. s) else append_probe env dpid portNum portAddr) ports
          @ [update set_timer]))"
    by (rule dc_safe_seq) (auto simp: dc_safe_append dc_safe_timer dc_safe_def [of _ "update (\<lambda>s. s)"] update_def [of "\<lambda>s. s"])
  then show ?thesis
    unfolding dc_safe_def addSwitch_def using dc_ok_drop [of _ "\<lambda>(d, _). d = dpid"] probes_kept(5-7) [of "\<lambda>(d, _). d = dpid"]
    by simp
qed

lemma dc_safe_delPort: "dc_ok s \<Longrightarrow> dc_ok (delPort dpid p s) \<and> dc_dps (delPort dpid p s) = dc_dps s \<and>
    dc_adjacency (delPort dpid p s) = dc_adjacency s \<and> dc_events (delPort dpid p s) = dc_events s"
  by (simp add: delPort_def dc_ok_drop)

lemma dc_safe_addPort: "dc_safe dpid (addPort env dpid p a)"
proof -
  have q: "dc_safe dpid (seq [append_probe env dpid p a, update set_timer])"
    by (rule dc_safe_seq) (auto simp: dc_safe_append dc_safe_timer)
  show ?thesis
    unfolding dc_safe_def
  proof (intro allI impI)
    fix s assume s: "dc_ok s \<and> dpid \<in> dc_dps s"
    then show "dc_ok (snd (addPort env dpid p a s)) \<and> dc_dps (snd (addPort env dpid p a s)) = dc_dps s \<and>
        dc_adjacency (snd (addPort env dpid p a s)) = dc_adjacency s \<and> dc_events (snd (addPort env dpid p a s)) = dc_events s"
      using dc_safe_delPort [of s dpid p] q [unfolded dc_safe_def, rule_format, of "delPort dpid p s"]
      by (simp add: addPort_def del: seq.simps)
  qed
qed

text \<open>Deleting links.\<close>

lemma map_of_delete_other: "map_of (AList.delete l xs) k = (if k = l then None else map_of xs k)"
  by (simp add: AList.delete_conv')

lemma keys_delete: "fst ` set (AList.delete l xs) = fst ` set xs - {l}"
  by (force simp: AList.delete_eq)

lemma deleteLinks_all:
  assumes "distinct ls" "set ls \<subseteq> fst ` set (dc_adjacency s)"
  shows "deleteLinks ls s = (None, s\<lparr>dc_adjacency := filter (\<lambda>(l, _). l \<notin> set ls) (dc_adjacency s), dc_events := dc_events s @ map (Pair False) ls\<rparr>)"
  using assms
proof (induction ls arbitrary: s)
  case (Cons l ls)
  have "map_of (dc_adjacency s) l \<noteq> None" using Cons.prems(2) by (simp add: map_of_eq_None_iff)
  moreover have "set ls \<subseteq> fst ` set (AList.delete l (dc_adjacency s))"
    using Cons.prems keys_delete [of l "dc_adjacency s"] by auto
  moreover have "filter (\<lambda>(k, _). k \<notin> set ls) (AList.delete l (dc_adjacency s)) = filter (\<lambda>(k, _). k \<notin> set (l # ls)) (dc_adjacency s)"
    by (auto simp: AList.delete_eq filter_filter intro!: filter_cong)
  ultimately show ?case
    using Cons.IH [of "raise_link False l (s\<lparr>dc_adjacency := AList.delete l (dc_adjacency s)\<rparr>)"] Cons.prems(1)
    by (simp add: raise_link_def)
qed (simp add: filter_True)

lemma selected_keys: "[l. (l, t) \<leftarrow> xs, P l t] = map fst (filter (\<lambda>(l, t). P l t) xs)"
  by (induction xs) auto

lemma deleteLinks_ok:
  assumes "distinct (map fst (dc_adjacency s))" "deleteme = [l. (l, t) \<leftarrow> dc_adjacency s, P l t]"
  shows "deleteLinks deleteme s = (None, s\<lparr>dc_adjacency := filter (\<lambda>(l, t). \<not> P l t) (dc_adjacency s), dc_events := dc_events s @ map (Pair False) deleteme\<rparr>)"
proof -
  have d: "deleteme = map fst (filter (\<lambda>(l, t). P l t) (dc_adjacency s))"
    unfolding assms(2) by (rule selected_keys)
  have "distinct deleteme" unfolding d using assms(1) by (rule distinct_map_filter)
  moreover have "set deleteme \<subseteq> fst ` set (dc_adjacency s)" unfolding d by auto
  moreover have "filter (\<lambda>(l, _). l \<notin> set deleteme) (dc_adjacency s) = filter (\<lambda>(l, t). \<not> P l t) (dc_adjacency s)"
    unfolding d by (intro filter_cong) (auto simp: image_iff dest: eq_key_imp_eq_value [OF assms(1)])
  ultimately show ?thesis by (simp add: deleteLinks_all)
qed

lemma replay_deleted: "replay (evs @ map (Pair False) ls) = replay evs - set ls"
  by (induction ls rule: rev_induct) (auto simp flip: append_assoc)

lemma deleteLinks_keeps:
  assumes "dc_ok s" "dc_mirror s" "deleteme = [l. (l, t) \<leftarrow> dc_adjacency s, P l t]" "deleteLinks deleteme s = (e, s')"
  shows "e = None" "dc_ok s'" "dc_mirror s'" "dc_adjacency s' = filter (\<lambda>(l, t). \<not> P l t) (dc_adjacency s)" "dc_dps s' = dc_dps s"
    "dc_packets s' = dc_packets s"
proof -
  have dist: "distinct (map fst (dc_adjacency s))" using assms(1) by (simp add: dc_ok_def)
  note d = deleteLinks_ok [OF dist assms(3), unfolded assms(4)]
  show "e = None" "dc_adjacency s' = filter (\<lambda>(l, t). \<not> P l t) (dc_adjacency s)" "dc_dps s' = dc_dps s" "dc_packets s' = dc_packets s"
    using d by simp_all
  show "dc_ok s'" using assms(1) d by (auto simp: dc_ok_def distinct_map_filter)
  have "set deleteme = {l. \<exists>t. (l, t) \<in> set (dc_adjacency s) \<and> P l t}" unfolding assms(3) by auto
  then show "dc_mirror s'"
    using assms(2) d by (auto simp: dc_mirror_def replay_deleted image_iff dest: eq_key_imp_eq_value [OF dist])
qed

subsection \<open>Every handler keeps it\<close>

definition dc_good :: "discovery \<Rightarrow> bool" where
  "dc_good s \<longleftrightarrow> dc_ok s \<and> dc_mirror s"

lemma deleteLinks_good:
  assumes "dc_good s"
  shows "dc_good (snd (deleteLinks [l. (l, t) \<leftarrow> dc_adjacency s, P l t] s))"
    "fst (deleteLinks [l. (l, t) \<leftarrow> dc_adjacency s, P l t] s) = None"
  using deleteLinks_keeps [OF _ _ refl prod.collapse [symmetric], of s P] assms by (simp_all add: dc_good_def)

lemma safe_good: "dc_safe d f \<Longrightarrow> d \<in> dc_dps s \<Longrightarrow> dc_good s \<Longrightarrow> dc_good (snd (f s))"
  by (auto simp: dc_safe_def dc_good_def dc_mirror_def)

lemma delPort_good: "dc_good s \<Longrightarrow> dc_good (delPort d p s)"
  using dc_safe_delPort [of s d p] by (simp add: dc_good_def dc_mirror_def)

lemma keys_filter: "fst ` set (filter (\<lambda>(l, _). Q l) xs) = {l \<in> fst ` set xs. Q l}"
  by force

lemma good_updates [simp]:
  "dc_good (s\<lparr>dc_next_XID := n\<rparr>) = dc_good s"
  "dc_good (s\<lparr>dc_probes := ps\<rparr>) = dc_good s"
  by (simp_all add: dc_good_def dc_ok_def dc_mirror_def)

lemma good_known: "dc_good s \<Longrightarrow> dc_good (s\<lparr>dc_dps := insert d (dc_dps s)\<rparr>)"
  by (fastforce simp: dc_good_def dc_ok_def dc_mirror_def)

lemma dc_send_keeps:
  "snd (snd (dc_send pack (c, s))) = s\<lparr>dc_next_XID := dc_next_XID (snd (snd (dc_send pack (c, s))))\<rparr>"
  by (simp add: dc_send_def split: prod.split)

lemma dc_send_good: "dc_good s \<Longrightarrow> dc_send pack (c, s) = (e, (c', s')) \<Longrightarrow> dc_good s' \<and> dc_dps s' = dc_dps s"
  using dc_send_keeps [of pack c s] good_updates(1) [where s = s and n = "dc_next_XID s'"]
  by (metis discovery.select_convs(3) discovery.surjective discovery.update_convs(7) snd_conv)

lemma dc_ConnectionUp_good:
  assumes "dc_good s"
  shows "dc_good (snd (snd (dc_ConnectionUp env dpid ofp (c, s))))"
proof (cases "dpid \<in> dc_dps s")
  case False
  have add: "dc_good t \<Longrightarrow> dc_good (snd (addSwitch env dpid ps (t\<lparr>dc_dps := insert dpid (dc_dps t)\<rparr>)))" for t ps
    by (rule safe_good [OF dc_safe_addSwitch]) (simp_all add: good_known)
  show ?thesis
  proof (cases "dc_install_flow s")
    case True
    obtain e c' t where t: "dc_send (ofp_flow_mod_pack True lldp_flow) (c, s) = (e, (c', t))" by (metis prod_cases3)
    then show ?thesis using False True add [of t] dc_send_good [OF assms t]
      by (auto simp: dc_ConnectionUp_def on_discovery_def update_def prod.case_eq_if split: option.split)
  next
    case no: False
    then show ?thesis using False add [OF assms]
      by (auto simp: dc_ConnectionUp_def on_discovery_def update_def prod.case_eq_if split: option.split)
  qed
qed (simp add: dc_ConnectionUp_def assms)

lemma dc_ConnectionDown_good:
  assumes "dc_good s"
  shows "dc_good (snd (dc_ConnectionDown dpid s))"
proof (cases "dpid \<in> dc_dps s")
  case True
  define t where "t = delSwitch dpid (s\<lparr>dc_dps := dc_dps s - {dpid}\<rparr>)"
  have adj: "dc_adjacency t = dc_adjacency s" "dc_events t = dc_events s" "dc_dps t = dc_dps s - {dpid}"
    "dc_packets t = filter (\<lambda>(d, p, _). d \<noteq> dpid) (dc_packets s)"
    by (simp_all add: t_def delSwitch_def set_timer_def drop_probes_def)
  define u where "u = snd (deleteLinks [l. (l, _) \<leftarrow> dc_adjacency t, dpid1 l = dpid \<or> dpid2 l = dpid] t)"
  have ok: "dc_ok s" "dc_mirror s" using assms by (simp_all add: dc_good_def)
  have dist: "distinct (map fst (dc_adjacency t))" using ok adj by (simp add: dc_ok_def)
  have u: "u = t\<lparr>dc_adjacency := filter (\<lambda>(l, _). \<not> (dpid1 l = dpid \<or> dpid2 l = dpid)) (dc_adjacency t),
      dc_events := dc_events t @ map (Pair False) [l. (l, _) \<leftarrow> dc_adjacency t, dpid1 l = dpid \<or> dpid2 l = dpid]\<rparr>"
    unfolding u_def using deleteLinks_ok [OF dist refl, of "\<lambda>l _. dpid1 l = dpid \<or> dpid2 l = dpid"] by simp
  have "dc_ok u" using ok(1) adj unfolding u by (auto simp: dc_ok_def distinct_map_filter)
  moreover have "dc_mirror u"
  proof -
    have "set [l. (l, _) \<leftarrow> dc_adjacency s, dpid1 l = dpid \<or> dpid2 l = dpid] = {l \<in> fst ` set (dc_adjacency s). dpid1 l = dpid \<or> dpid2 l = dpid}"
      by force
    then have "replay (dc_events u) = fst ` set (dc_adjacency s) - {l \<in> fst ` set (dc_adjacency s). dpid1 l = dpid \<or> dpid2 l = dpid}"
      using ok(2) adj by (simp add: dc_mirror_def replay_deleted u)
    moreover have "fst ` set (dc_adjacency u) = {l \<in> fst ` set (dc_adjacency s). \<not> (dpid1 l = dpid \<or> dpid2 l = dpid)}"
    proof -
      have "dc_adjacency u = filter (\<lambda>(l, _). \<not> (dpid1 l = dpid \<or> dpid2 l = dpid)) (dc_adjacency s)"
        using adj by (simp add: u)
      then show ?thesis by (simp only: keys_filter)
    qed
    moreover have "X - {l \<in> X. P l} = {l \<in> X. \<not> P l}" for X :: "dlink set" and P by blast
    ultimately show ?thesis unfolding dc_mirror_def by (simp only:)
  qed
  ultimately show ?thesis using True by (simp add: dc_ConnectionDown_def dc_good_def u_def t_def Let_def)
qed (simp add: dc_ConnectionDown_def assms)

lemma dc_PortStatus_good:
  assumes "dc_good s" "dpid \<in> dc_dps s"
  shows "dc_good (snd (dc_PortStatus env dpid ofp s))"
  using assms by (simp add: dc_PortStatus_def Let_def delPort_good safe_good [OF dc_safe_addPort])

lemma found_link_good:
  assumes "dc_good s" "d \<in> dc_dps s" "dpid \<in> dc_dps s" "(d, p) \<noteq> (dpid, q)"
  shows "dc_good (found_link now (Link d p dpid q) s)"
proof -
  have dist: "distinct (map fst (dc_adjacency s))" using assms(1) by (simp add: dc_good_def dc_ok_def)
  have keys: "fst ` set (AList.update l now (dc_adjacency s)) = insert l (fst ` set (dc_adjacency s))" for l
    using dom_update [of l now "dc_adjacency s"] by (simp add: dom_map_of_conv_image_fst)
  show ?thesis
    using assms dist distinct_update [OF dist] keys [of "Link d p dpid q"]
    unfolding found_link_def raise_link_def dc_good_def dc_ok_def dc_mirror_def
    by (simp add: map_of_eq_None_iff insert_absorb del: ball_simps add: ball_simps(7))
qed

subsection \<open>Reachable states\<close>

text \<open>
  The events the component reacts to. Port changes and packets come from switches that are connected. A
  handler that raises stops where it stands, and its state stays.
\<close>

inductive dc_step :: "'p packet_env \<Rightarrow> connection \<times> discovery \<Rightarrow> connection \<times> discovery \<Rightarrow> bool" for env where
  Up: "dc_ConnectionUp env dpid ofp (c, s) = (e, st) \<Longrightarrow> dc_step env (c, s) st"
| Down: "dc_ConnectionDown dpid s = (e, s') \<Longrightarrow> dc_step env (c, s) (c, s')"
| PortChange: "dpid \<in> dc_dps s \<Longrightarrow> dc_PortStatus env dpid ps s = (e, s') \<Longrightarrow> dc_step env (c, s) (c, s')"
| PacketArrives: "dpid \<in> dc_dps s \<Longrightarrow> dc_PacketIn env now dpid pin (c, s) = (r, st) \<Longrightarrow> dc_step env (c, s) st"
| Expire: "expireLinks now s = (e, s') \<Longrightarrow> dc_step env (c, s) (c, s')"
| Tick: "timerHandler s = (e, s') \<Longrightarrow> dc_step env (c, s) (c, s')"

inductive dc_reachable :: "'p packet_env \<Rightarrow> connection \<times> discovery \<Rightarrow> bool" for env where
  Start: "dc_reachable env (c, Discovery_init f x nx)"
| Step: "dc_reachable env st \<Longrightarrow> dc_step env st st' \<Longrightarrow> dc_reachable env st'"

lemma drop_lldp_good: "dc_good s \<Longrightarrow> drop_lldp ofp (c, s) = (e, (c', s')) \<Longrightarrow> dc_good s' \<and> dc_dps s' = dc_dps s"
  by (auto simp: drop_lldp_def dest: dc_send_good split: if_splits)

lemma originator_known: "originator dps ts = Some (d, p) \<Longrightarrow> d \<in> dps"
  by (auto simp: originator_def split: list.splits tlv.splits option.splits if_splits)

lemma dc_PacketIn_good:
  assumes "dc_good s" "dpid \<in> dc_dps s" "dc_PacketIn env now dpid ofp (c, s) = (r, (c', s'))"
  shows "dc_good s'"
proof -
  have "dc_good t \<and> dpid \<in> dc_dps t \<Longrightarrow> originator (dc_dps t) ts = Some (d, p) \<Longrightarrow> (d, p) \<noteq> (dpid, q) \<Longrightarrow> dc_good (found_link now (Link d p dpid q) t)" for t ts d p q
    using found_link_good originator_known by blast
  then show ?thesis
    using assms drop_lldp_good [OF assms(1)]
    by (auto simp: dc_PacketIn_def split: sum.splits packet.splits payload.splits option.splits prod.splits if_splits)
qed

lemma timer_good: "dc_good s \<Longrightarrow> dc_good (snd (timerHandler s))"
  by (cases "dc_packets s") (simp_all add: timerHandler_def dc_good_def dc_ok_def dc_mirror_def prod.case_eq_if)

lemma dc_step_good:
  assumes "dc_step env (c, s) (c', s')" "dc_good s"
  shows "dc_good s'"
  using assms(1)
proof cases
  case (Up dpid ofp e)
  then show ?thesis using dc_ConnectionUp_good [OF assms(2), of env dpid ofp c] by simp
next
  case (Down dpid e)
  then show ?thesis using dc_ConnectionDown_good [OF assms(2), of dpid] by simp
next
  case (PortChange dpid ps e)
  then show ?thesis using dc_PortStatus_good [OF assms(2), of dpid env ps] by simp
next
  case (PacketArrives dpid now pin r)
  then show ?thesis using dc_PacketIn_good [OF assms(2)] by blast
next
  case (Expire now e)
  then show ?thesis using deleteLinks_good(1) [OF assms(2), of "\<lambda>_ t. now - t > LINK_TIMEOUT"] by (simp add: expireLinks_def Let_def)
next
  case (Tick e)
  then show ?thesis using assms(2) timer_good [of s] by simp
qed

lemma dc_reachable_good: "dc_reachable env st \<Longrightarrow> dc_good (snd st)"
proof (induction rule: dc_reachable.induct)
  case (Start c f x nx)
  then show ?case by (simp add: dc_good_def dc_ok_def dc_mirror_def Discovery_init_def replay_def)
next
  case (Step st st')
  then show ?case using dc_step_good [of env "fst st" "snd st" "fst st'" "snd st'"] by simp
qed

text \<open>In a reachable state the deletions never meet a missing link.\<close>

lemma expireLinks_exact:
  assumes "dc_good s"
  shows "expireLinks now s = (None, s\<lparr>dc_adjacency := filter (\<lambda>(_, t). now - t \<le> LINK_TIMEOUT) (dc_adjacency s),
      dc_events := dc_events s @ map (\<lambda>l. (False, l)) [l. (l, t) \<leftarrow> dc_adjacency s, now - t > LINK_TIMEOUT]\<rparr>)"
proof -
  have "distinct (map fst (dc_adjacency s))" using assms by (simp add: dc_good_def dc_ok_def)
  from deleteLinks_ok [OF this refl, of "\<lambda>_ t. now - t > LINK_TIMEOUT"]
  show ?thesis by (simp add: expireLinks_def Let_def not_less)
qed

subsection \<open>The round of probes\<close>

lemma probe_round:
  assumes "length ps = n" "dc_packets s = ps @ qs"
  shows "seq (replicate n timerHandler) s = (None, s\<lparr>dc_packets := qs @ ps, dc_probes := dc_probes s @ map (\<lambda>(d, _, b). (d, b)) ps\<rparr>)"
  using assms
proof (induction n arbitrary: s ps qs)
  case (Suc n)
  then obtain d p b ps' where ps: "ps = (d, p, b) # ps'" "length ps' = n" by (cases ps) auto
  have "timerHandler s = (None, s\<lparr>dc_packets := ps' @ qs @ [(d, p, b)], dc_probes := dc_probes s @ [(d, b)]\<rparr>)"
    using Suc.prems(2) by (simp add: timerHandler_def ps)
  then show ?case
    using Suc.IH [OF ps(2), of "s\<lparr>dc_packets := ps' @ qs @ [(d, p, b)], dc_probes := dc_probes s @ [(d, b)]\<rparr>" "qs @ [(d, p, b)]"]
    by (simp add: ps)
qed simp

subsection \<open>Texts in a probe\<close>

lemma nat_digits_bound:
  assumes "2 \<le> b"
  shows "n < b ^ k \<Longrightarrow> 0 < k \<Longrightarrow> length (nat_digits b n) \<le> k"
proof (induction k arbitrary: n)
  case (Suc k)
  show ?case
  proof (cases "n < b")
    case False
    then have "k \<noteq> 0" using Suc.prems(1) by (cases k) auto
    moreover have "n div b < b ^ k" using Suc.prems(1) assms by (simp add: less_mult_imp_div_less mult.commute)
    ultimately show ?thesis using Suc.IH [of "n div b"] False assms by (subst nat_digits.simps) simp
  qed (subst nat_digits.simps, simp)
qed simp

lemma hex_digit_class: "c \<in> set (nat_digits 16 n) \<Longrightarrow> c \<noteq> CHR ''x'' \<and> c \<noteq> CHR ''X''"
  using set_nat_digits [of 16 c n] digit_char_code by (auto split: if_splits dest!: arg_cong [where f = "of_char :: char \<Rightarrow> nat"])

lemma digit_not_newline: "c \<in> set (nat_digits b n) \<Longrightarrow> 2 \<le> b \<Longrightarrow> b \<le> 36 \<Longrightarrow> c \<noteq> CHR 0x0A"
  using nat_digits_class(1) [of b c n] by (auto simp: is_space_def)

lemma py_int_nat_digits_16: "py_int 16 (nat_digits 16 n) = Inr (int n)"
proof -
  let ?s = "nat_digits 16 n"
  have "strip ?s = ?s" by (rule strip_no_space) (auto dest: nat_digits_class(1) [rotated 2])
  moreover obtain c cs where s: "?s = c # cs" by (cases ?s) auto
  moreover have "c \<noteq> CHR ''-''" "c \<noteq> CHR ''+''"
    using nat_digits_class(2,3) [of 16 c n] s by auto
  moreover have "take 2 ?s \<noteq> ''0x''" "take 2 ?s \<noteq> ''0X''"
    using hex_digit_class [of _ n] s by (cases cs; auto)+
  ultimately show ?thesis
    using parse_digits_nat_digits [of 16 n] by (cases cs) (auto simp: py_int_def parse_nat_def Let_def)
qed

lemma dpid_text_eq: "0 \<le> dpid \<Longrightarrow> dpid_text dpid = ''dpid:'' @ nat_digits 16 (nat dpid)"
  by (simp add: dpid_text_def hex_long_def butlast_append)

lemma dpid_line_text:
  assumes "0 \<le> dpid"
  shows "dpid_line (split_on (CHR 0x0A) (dpid_text dpid)) = Some dpid"
proof -
  have "split_on (CHR 0x0A) (dpid_text dpid) = [dpid_text dpid]"
    using digit_not_newline [of _ 16 "nat dpid"] by (intro split_on_no_sep) (auto simp: dpid_text_eq [OF assms])
  then show ?thesis using assms by (simp add: dpid_text_eq py_int_nat_digits_16)
qed

lemma originator_port_text:
  assumes "0 \<le> p"
  shows "originator_port (py_str p) = Some p"
proof -
  have "is_digits (nat_digits 10 n)" for n
    using set_nat_digits [of 10 _ n] digit_char_code by (fastforce simp: is_digits_def list_all_iff)
  then show ?thesis using assms by (simp add: originator_port_def py_str_def py_int_nat_digits_10)
qed

subsection \<open>A probe on its way\<close>

abbreviation probe_tlvs :: "int \<Rightarrow> int \<Rightarrow> tlv list" where
  "probe_tlvs dpid p \<equiv> ld_tlvs (probe_lldp dpid p)"

lemma pack_id_fits:
  assumes "0 \<le> t" "t < 128" "0 \<le> sub" "sub < 256" "length s \<le> 500"
  shows "\<exists>b. pack_id t (1 + int (length s)) sub (Some s) = Inr b \<and> length b = 3 + length s"
proof -
  have "0 \<le> typelen t (1 + int (length s))" "typelen t (1 + int (length s)) < 65536"
    using typelen_split(3,4) [of t "1 + int (length s)"] assms by auto
  then have "struct_pack ''!HB'' [typelen t (1 + int (length s)), sub] = Inr (be_bytes 2 (typelen t (1 + int (length s))) @ be_bytes 1 sub)"
    using assms(3,4) struct_pack_HB by blast
  then show ?thesis by (simp add: pack_id_def ljust_def)
qed

lemma texts_short:
  assumes "0 \<le> dpid" "dpid < 2 ^ 64" "0 \<le> p" "p \<le> OFPP_MAX"
  shows "length (dpid_text dpid) \<le> 21" "length (py_str p) \<le> 5" "py_str p \<noteq> []" "dpid_text dpid \<noteq> []"
proof -
  have "nat dpid < 16 ^ 16" using assms(1,2) by (simp add: nat_less_iff)
  then show "length (dpid_text dpid) \<le> 21" using nat_digits_bound [of 16 "nat dpid" 16] by (simp add: dpid_text_eq [OF assms(1)])
  have "nat p < 10 ^ 5" using assms(3,4) by simp
  then show "length (py_str p) \<le> 5" using nat_digits_bound [of 10 "nat p" 5] assms(3) by (simp add: py_str_def)
qed (use assms in \<open>simp_all add: py_str_def dpid_text_eq\<close>)

lemma probe_lldp_packs:
  assumes "0 \<le> dpid" "dpid < 2 ^ 64" "0 \<le> p" "p \<le> OFPP_MAX"
  shows "\<exists>b. lldp_hdr (probe_lldp dpid p) = Inr b \<and> length b \<le> 100 \<and>
    lldp_parse b = Inr \<lparr>ld_parsed = True, ld_tlvs = probe_tlvs dpid p\<rparr>"
proof -
  note short = texts_short [OF assms]
  obtain b1 where b1: "chassis_id_hdr (chassis_id_fill 7 (dpid_text dpid)) = Inr b1" "length b1 \<le> 24"
    using pack_id_fits [of 1 7 "dpid_text dpid"] short(1) by (auto simp: chassis_id_hdr_def chassis_id_fill_def)
  obtain b2 where b2: "port_id_pack (port_id_fill 2 (py_str p)) = Inr b2" "length b2 \<le> 8"
    using pack_id_fits [of 2 2 "py_str p"] short(2) by (auto simp: port_id_pack_def port_id_fill_def)
  have t: "0 \<le> typelen 3 2" "typelen 3 2 < 65536" using typelen_split(3,4) [of 3 2] by auto
  obtain b3 where b3: "ttl_pack (ttl_fill 120) = Inr b3" "length b3 = 4"
    using t by (simp add: ttl_pack_def ttl_fill_def struct_pack.simps code_min_def code_max_def code_signed_def code_size_def)
  obtain b4 where b4: "basic_tlv_pack (basic_tlv_fill 6 (dpid_text dpid)) = Inr b4" "length b4 \<le> 23"
    using pack_header [of 6 "int (length (dpid_text dpid))"] short(1) by (auto simp: basic_tlv_pack_def basic_tlv_fill_def)
  obtain b5 where b5: "end_tlv_pack 0 = Inr b5" "length b5 = 2"
    using pack_header [of 0 0] by (simp add: end_tlv_pack_def)
  have h: "lldp_hdr (probe_lldp dpid p) = Inr (b1 @ b2 @ b3 @ b4 @ b5)"
    by (simp add: lldp_hdr_def probe_lldp_def b1 b2 b3 b4 b5 codec)
  have e: "probe_lldp dpid p = \<lparr>ld_parsed = False, ld_tlvs = [ChassisId (chassis_id_fill 7 (dpid_text dpid)), PortId (port_id_fill 2 (py_str p)),
      Ttl (ttl_fill 120)] @ [BasicTlv (basic_tlv_fill 6 (dpid_text dpid))] @ [EndTlv 0]\<rparr>"
    by (simp add: probe_lldp_def)
  have "lldp_parse ((b1 @ b2 @ b3 @ b4 @ b5) @ []) = Inr \<lparr>ld_parsed = True, ld_tlvs = [ChassisId (chassis_id_fill 7 (dpid_text dpid)),
      PortId (port_id_fill 2 (py_str p)), Ttl (ttl_fill 120)] @ [BasicTlv (basic_tlv_fill 6 (dpid_text dpid))] @ [EndTlv 0]\<rparr>"
    using short h unfolding e
    by (intro lldp_parse_hdr) (simp_all add: chassis_id_wf_def chassis_id_fill_def port_id_wf_def port_id_fill_def ttl_fill_def
        basic_tlv_fill_def basic_tlv_wf_def)
  then show ?thesis using h b1 b2 b3 b4 b5 by (simp add: probe_lldp_def)
qed

lemma originator_probe:
  assumes "0 \<le> dpid" "0 \<le> p" "dpid \<in> dps"
  shows "originator dps (probe_tlvs dpid p) = Some (dpid, p)"
  using assms by (simp add: originator_def probe_lldp_def basic_tlv_fill_def port_id_fill_def dpid_line_text originator_port_text)

text \<open>The frame of a probe, and how it is read.\<close>

lemma probe_frame_read:
  assumes "0 \<le> dpid" "dpid < 2 ^ 64" "0 \<le> p" "p \<le> OFPP_MAX" "hw_text_safe a"
  shows "\<exists>data k. probe_frame env dpid p a = Inr (data, k) \<and> data \<noteq> [] \<and> length data \<le> 114 \<and>
    ethernet_parse (lldp_env env) data = Inr (PEthernet \<lparr>e_parsed = True, e_dst = HwEth NDP_MULTICAST, e_src = a, e_type = 0x88cc\<rparr>
      (PktNext (POther (Inl \<lparr>ld_parsed = True, ld_tlvs = probe_tlvs dpid p\<rparr>))))"
proof -
  obtain b where b: "lldp_hdr (probe_lldp dpid p) = Inr b" "length b \<le> 100" "lldp_parse b = Inr \<lparr>ld_parsed = True, ld_tlvs = probe_tlvs dpid p\<rparr>"
    using probe_lldp_packs [OF assms(1-4)] by blast
  let ?n = "[CHR 0x01, CHR 0x23, CHR 0x20, CHR 0x00, CHR 0x00, CHR 0x01] :: bytes" and ?t = "be_bytes 2 0x88cc"
  obtain e where e: "a = HwEth e" "eth_ok e" "length (hw_raw a) = 6" "EthAddr_init (EaStr (hw_raw a)) = Inr e"
    using EthAddr_init_hw_raw [OF assms(5)] assms(5) by (auto simp: hw_text_safe_def hw_wire_def eth_ok_def eth_toRaw_def)
  have d: "EthAddr_init (EaStr ?n) = Inr NDP_MULTICAST" by (subst EthAddr_init_raw) (simp_all add: NDP_MULTICAST_def)
  have s6: "s6 x = x" if "length x = 6" for x using that by (simp add: s6_def ljust_def)
  let ?data = "?n @ hw_raw a @ ?t @ b"
  have "probe_frame env dpid p a = Inr (?data, PEthernet \<lparr>e_parsed = False, e_dst = HwEth NDP_MULTICAST, e_src = a, e_type = 0x88cc\<rparr>
      (PktNext (POther (Inl (probe_lldp dpid p)))))"
    using b(1) e(3) s6 [of ?n] s6 [of "hw_raw a"]
    by (simp add: probe_frame_def lldp_env_def ethernet_hdr_def struct_pack_H NDP_MULTICAST_def eth_toRaw_def)
  moreover have "ethernet_parse (lldp_env env) ?data = Inr (PEthernet \<lparr>e_parsed = True, e_dst = HwEth NDP_MULTICAST, e_src = a, e_type = 0x88cc\<rparr>
      (PktNext (POther (Inl \<lparr>ld_parsed = True, ld_tlvs = probe_tlvs dpid p\<rparr>))))"
  proof -
    have parts: "14 \<le> length ?data" "take 6 ?data = ?n" "slice 6 12 ?data = hw_raw a" "slice 12 14 ?data = ?t" "drop 14 ?data = b"
      using e(3) by (simp_all add: slice_def)
    have t: "struct_unpack ''!H'' ?t = Inr [0x88cc]"
      by (simp add: struct_unpack_def struct_fields.simps code_decode_def be_value_be_bytes code_max_def code_signed_def code_size_def del: be_bytes.simps)
    have "parse_typed (lldp_env env) 0x88cc b = Inr (Some (POther (Inl \<lparr>ld_parsed = True, ld_tlvs = probe_tlvs dpid p\<rparr>)))"
      using b(3) by (simp add: parse_typed_def other_packet_def lldp_env_def)
    then show ?thesis
      using parts(1) d e(1,4) t unfolding ethernet_parse_def parts(2-5) by (simp del: EthAddr_init.simps be_bytes.simps)
  qed
  ultimately show ?thesis using b(2) e(3) by (intro exI [of _ ?data] exI conjI) auto
qed

text \<open>The packet-out of a probe carries its frame and sends it out of its port alone.\<close>

lemma probe_packet:
  assumes "0 \<le> dpid" "dpid < 2 ^ 64" "0 \<le> p" "p \<le> OFPP_MAX" "hw_text_safe a" "0 \<le> nx" "nx \<le> MAX_XID"
  shows "\<exists>b m data k. create_discovery_packet env dpid p a nx = Inr (b, next_xid nx) \<and> framed b (OFPT_PACKET_OUT, MPacketOut m) \<and>
    po_data m = data \<and> outputs_to p (po_actions m) \<and> po_buffer_id m = -1 \<and> po_in_port m = OFPP_NONE \<and> probe_frame env dpid p a = Inr (data, k)"
proof -
  obtain data k where data: "probe_frame env dpid p a = Inr (data, k)" "length data \<le> 114"
    using probe_frame_read [OF assms(1-5)] by blast
  let ?m = "po_set_data (Some data) ((ofp_packet_out_init (\<lambda>m. m))\<lparr>po_actions := [output_action p]\<rparr>)"
  obtain z ac where z: "pack_actions True [output_action p] = Inr (z, ac)" "outputs_to p ac" "length z = 8"
    using pack_output_action [of p] assms(3,4) by auto
  have w: "\<forall>a \<in> set [output_action p]. action_wf a" by (simp add: output_action_def ofp_action_output_init_def)
  have e: "?m = po_set_data (Some data) ((ofp_packet_out_init (\<lambda>m. m))\<lparr>po_actions := [output_action p], po_buffer_id := -1, po_in_port := OFPP_NONE\<rparr>)"
    by (simp add: ofp_packet_out_init_def)
  obtain b m where "ofp_packet_out_pack True ?m nx = Inr (Some b, m, next_xid nx)" "framed b (OFPT_PACKET_OUT, MPacketOut m)"
      "po_data m = data" "po_actions m = ac" "po_buffer_id m = -1" "po_in_port m = OFPP_NONE"
    using packet_out_fresh [OF z(1), of data "-1" OFPP_NONE nx] z(3) w data(2) assms(6,7) unfolding e by (auto simp: buffer_id_ok_def)
  then show ?thesis using data(1) z(2) by (intro exI [of _ b], intro exI [of _ m], intro exI [of _ data], intro exI [of _ k]) (simp add: create_discovery_packet_def)
qed

text \<open>
  A probe that arrives at another port of a connected switch becomes a link, or renews it; the event
  is raised when the link is new.
\<close>

lemma probe_arrives:
  assumes "0 \<le> dpid" "dpid < 2 ^ 64" "0 \<le> p" "p \<le> OFPP_MAX" "hw_text_safe a" "probe_frame env dpid p a = Inr (data, k)"
    "dpid \<in> dc_dps s" "(dpid', pi_in_port ofp) \<noteq> (dpid, p)" "pi_data ofp = Some data" "\<not> dc_explicit_drop s \<or> pi_buffer_id ofp = -1"
  shows "dc_PacketIn env now dpid' ofp (c, s) = (Inr True, (c, found_link now (Link dpid p dpid' (pi_in_port ofp)) s))"
proof -
  have "ethernet_parse (lldp_env env) data = Inr (PEthernet \<lparr>e_parsed = True, e_dst = HwEth NDP_MULTICAST, e_src = a, e_type = 0x88cc\<rparr>
      (PktNext (POther (Inl \<lparr>ld_parsed = True, ld_tlvs = probe_tlvs dpid p\<rparr>))))"
    using probe_frame_read [OF assms(1-5), of env] assms(6) by auto
  then show ?thesis
    using originator_probe [OF assms(1,3,7)] assms(8,9,10)
    by (auto simp: dc_PacketIn_def event_parse_def drop_lldp_def)
qed

lemma found_link_known:
  "map_of (dc_adjacency (found_link now l s)) = (map_of (dc_adjacency s))(l \<mapsto> now)"
  "dc_events (found_link now l s) = dc_events s @ (if map_of (dc_adjacency s) l = None then [(True, l)] else [])"
  by (simp_all add: found_link_def raise_link_def update_conv')

end
