(* ===== verification/Spanning_Tree.thy ===== *)
theory Spanning_Tree
  imports Complex_Main Discovery
begin

text \<open>
  \<^verbatim>\<open>openflow/spanning_tree.py\<close>: the tree that is computed from the discovered links, and the port changes
  that keep flooding on it. The lemmas show that what is computed is a forest over the switches that
  connects what two-way links connect, and that flooding is loop free once the ports are set.
\<close>
subsection \<open>Links between switches\<close>

text \<open>
  \<^verbatim>\<open>adj[a][b]\<close> is first the list of the links from \<open>a\<close> to \<open>b\<close> and later the port of \<open>a\<close> that leads to \<open>b\<close>.
  Sets and dictionaries are iterated in an order that Python does not promise: \<open>order\<close> lists the set of
  switches, and \<open>ord v\<close> the keys of \<^verbatim>\<open>adj[v]\<close>.
\<close>

datatype adj_val = Links "dlink list" | Port int

type_synonym adjacency = "int \<times> int \<Rightarrow> adj_val option"

definition flip :: "dlink \<Rightarrow> dlink" where
  "flip l = Link (dpid2 l) (port2 l) (dpid1 l) (port1 l)"

definition add_link :: "dlink \<Rightarrow> adjacency \<Rightarrow> adjacency" where
  "add_link l adj =
     (let k = (dpid1 l, dpid2 l)
      in adj(k \<mapsto> Links ((case adj k of Some (Links ls) \<Rightarrow> ls | _ \<Rightarrow> []) @ [l])))"

definition link_lists :: "dlink list \<Rightarrow> adjacency" where
  "link_lists links = fold add_link links Map.empty"

definition switches_of :: "dlink list \<Rightarrow> int set" where
  "switches_of links = set (map dpid1 links) \<union> set (map dpid2 links)"

definition cull_pair :: "dlink list \<Rightarrow> int \<times> int \<Rightarrow> adjacency \<Rightarrow> adjacency result" where
  "cull_pair links = (\<lambda>(s1, s2) adj.
     (case adj (s1, s2) of
        Some (Links ls) \<Rightarrow>
          if s1 = s2 then Inl AssertionError
          else (case find (\<lambda>l. flip l \<in> set links) ls of
             Some l \<Rightarrow> Inr (adj((s1, s2) \<mapsto> Port (port1 l), (s2, s1) \<mapsto> Port (port2 l)))
           | None \<Rightarrow> Inr (adj((s1, s2) := None, (s2, s1) := None)))
      | _ \<Rightarrow> Inr adj))"

fun cull :: "dlink list \<Rightarrow> (int \<times> int) list \<Rightarrow> adjacency \<Rightarrow> adjacency result" where
  "cull links [] adj = Inr adj"
| "cull links (p # ps) adj = bindE (cull_pair links p adj) (cull links ps)"

subsection \<open>The tree\<close>

type_synonym tree = "int \<Rightarrow> (int \<times> adj_val) set option"

text \<open>\<^verbatim>\<open>tree[v].add(x)\<close> on a dictionary that makes missing sets, and \<^verbatim>\<open>adj[w][v]\<close> on one that makes missing lists.\<close>

definition tree_add :: "int \<Rightarrow> int \<times> adj_val \<Rightarrow> tree \<Rightarrow> tree" where
  "tree_add v x t = t(v \<mapsto> insert x (case t v of None \<Rightarrow> {} | Some s \<Rightarrow> s))"

definition adj_get :: "adjacency \<Rightarrow> int \<Rightarrow> int \<Rightarrow> adj_val" where
  "adj_get adj w v = (case adj (w, v) of None \<Rightarrow> Links [] | Some x \<Rightarrow> x)"

fun visit :: "adjacency \<Rightarrow> int \<Rightarrow> int list \<Rightarrow> int set \<Rightarrow> tree \<Rightarrow> int set \<times> tree" where
  "visit adj v [] fresh t = (fresh, t)"
| "visit adj v (w # ws) fresh t =
     (if t w \<noteq> None then visit adj v ws fresh t
      else visit adj v ws (insert w fresh) (tree_add w (v, adj_get adj w v) (tree_add v (w, adj_get adj v w) t)))"

definition neighbours :: "(int \<Rightarrow> int list) \<Rightarrow> adjacency \<Rightarrow> int \<Rightarrow> int list" where
  "neighbours ord adj v = filter (\<lambda>w. adj (v, w) \<noteq> None) (ord v)"

text \<open>\<^verbatim>\<open>while True\<close>: the loop ends when nothing is left in the queue.\<close>

partial_function (option) tree_loop ::
    "(int \<Rightarrow> int list) \<Rightarrow> adjacency \<Rightarrow> int set \<Rightarrow> int list \<Rightarrow> int set \<Rightarrow> tree \<Rightarrow> tree option" where
  "tree_loop ord adj fresh q visited t =
     (case sorted_list_of_set fresh @ q of
        [] \<Rightarrow> Some t
      | v # q \<Rightarrow>
          if v \<in> visited then tree_loop ord adj {} q visited t
          else (case visit adj v (neighbours ord adj v) {} t of (fresh, t) \<Rightarrow>
                  tree_loop ord adj fresh q (insert v visited) t))"

definition calc_spanning_tree :: "int list \<Rightarrow> (int \<Rightarrow> int list) \<Rightarrow> dlink list \<Rightarrow> tree result option" where
  "calc_spanning_tree order ord links =
     (case cull links [(s1, s2). s1 \<leftarrow> order, s2 \<leftarrow> order] (link_lists links) of
        Inl e \<Rightarrow> Some (Inl e)
      | Inr adj \<Rightarrow> map_option Inr (tree_loop ord adj (switches_of links) [] {} Map.empty))"

subsection \<open>The port changes\<close>

text \<open>
  \<open>st_prev\<close> is what was last asked of each port. The connections by datapath share the one counter for
  transaction identifiers.
\<close>

record spanning =
  st_prev :: "int \<times> int \<Rightarrow> bool option"
  st_connections :: "int \<Rightarrow> connection option"
  st_next_XID :: int

abbreviation (input) OFPPC_NO_FLOOD :: int where "OFPPC_NO_FLOOD \<equiv> 16"

definition flood_mod :: "ofp_phy_port \<Rightarrow> bool \<Rightarrow> ofp_port_mod" where
  "flood_mod p flood = ofp_port_mod_init (\<lambda>m. m\<lparr>pm_port_no := pp_port_no p, pm_hw_addr := pp_hw_addr p,
     pm_config := (if flood then 0 else OFPPC_NO_FLOOD), pm_mask := OFPPC_NO_FLOOD\<rparr>)"

definition st_send :: "int \<Rightarrow> ofp_port_mod \<Rightarrow> spanning stmt" where
  "st_send sw pm s =
     (case st_connections s sw of None \<Rightarrow> (Some AttributeError, s)
      | Some c \<Rightarrow> (case con_send (ofp_port_mod_pack True pm) (\<lambda>_ c. c) (c\<lparr>next_XID := st_next_XID s\<rparr>) of
          (e, c) \<Rightarrow> (e, s\<lparr>st_connections := (st_connections s)(sw \<mapsto> c), st_next_XID := next_XID c\<rparr>)))"

definition floods :: "discovery \<Rightarrow> int \<Rightarrow> (int \<times> adj_val) set \<Rightarrow> int \<Rightarrow> bool" where
  "floods d sw ports p \<longleftrightarrow> (\<exists>x \<in> ports. snd x = Port p) \<or> \<not> isSwitchOnlyPort sw p d"

definition set_port :: "discovery \<Rightarrow> int \<Rightarrow> (int \<times> adj_val) set \<Rightarrow> ofp_phy_port \<Rightarrow> spanning stmt" where
  "set_port d sw ports p s =
     (if \<not> pp_port_no p < OFPP_MAX then (None, s)
      else let flood = floods d sw ports (pp_port_no p) in
        if st_prev s (sw, pp_port_no p) = Some flood then (None, s)
        else st_send sw (flood_mod p flood) (s\<lparr>st_prev := (st_prev s)((sw, pp_port_no p) \<mapsto> flood)\<rparr>))"

definition set_switch :: "discovery \<Rightarrow> tree \<Rightarrow> int \<Rightarrow> spanning stmt" where
  "set_switch d t sw s =
     (case st_connections s sw of None \<Rightarrow> (None, s)
      | Some c \<Rightarrow> (case con_features c of None \<Rightarrow> (Some AttributeError, s)
          | Some f \<Rightarrow> (case t sw of None \<Rightarrow> (None, s)
              | Some ports \<Rightarrow> seq (map (set_port d sw ports) (fr_ports f)) s)))"

text \<open>
  The handler of a link event. \<open>keys\<close> is the order in which the tree is iterated. Errors in the
  loop are caught; one in the calculation is not.
\<close>

definition st_handle ::
    "int list \<Rightarrow> (int \<Rightarrow> int list) \<Rightarrow> int list \<Rightarrow> discovery \<Rightarrow> spanning \<Rightarrow> (py_error option \<times> spanning) option" where
  "st_handle order ord keys d s =
     (case calc_spanning_tree order ord (map fst (dc_adjacency d)) of
        None \<Rightarrow> None
      | Some (Inl e) \<Rightarrow> Some (Some e, s)
      | Some (Inr t) \<Rightarrow> Some (case seq (map (set_switch d t) keys) s of
          (None, s) \<Rightarrow> (None, s)
        | (Some _, s) \<Rightarrow> (None, s\<lparr>st_prev := \<lambda>_. None\<rparr>)))"

subsection \<open>What culling leaves\<close>

definition two_way :: "dlink list \<Rightarrow> dlink \<Rightarrow> bool" where
  "two_way links l \<longleftrightarrow> l \<in> set links \<and> flip l \<in> set links"

definition loop_free_links :: "dlink list \<Rightarrow> bool" where
  "loop_free_links links \<longleftrightarrow> (\<forall>l \<in> set links. dpid1 l \<noteq> dpid2 l)"

lemma flip_simps [simp]: "flip (flip l) = l" "dpid1 (flip l) = dpid2 l" "dpid2 (flip l) = dpid1 l" "port1 (flip l) = port2 l" "port2 (flip l) = port1 l"
  by (simp_all add: flip_def)

lemma two_way_flip [simp]: "two_way links (flip l) = two_way links l"
  by (auto simp: two_way_def)

definition links_from :: "dlink list \<Rightarrow> int \<times> int \<Rightarrow> dlink list" where
  "links_from links k = filter (\<lambda>l. (dpid1 l, dpid2 l) = k) links"

lemma link_lists_eq: "link_lists links k = (if links_from links k = [] then None else Some (Links (links_from links k)))"
  unfolding link_lists_def
proof (induction links rule: rev_induct)
  case (snoc l links)
  then show ?case by (auto simp: add_link_def Let_def links_from_def)
qed (simp add: links_from_def)

text \<open>A pair of switches is settled when both directions hold the ports of one two-way link, or nothing.\<close>

definition settled :: "dlink list \<Rightarrow> adjacency \<Rightarrow> int \<Rightarrow> int \<Rightarrow> bool" where
  "settled links adj a b \<longleftrightarrow>
     (\<exists>l. two_way links l \<and> dpid1 l = a \<and> dpid2 l = b \<and> adj (a, b) = Some (Port (port1 l)) \<and> adj (b, a) = Some (Port (port2 l))) \<or>
     (\<nexists>l. two_way links l \<and> dpid1 l = a \<and> dpid2 l = b) \<and> adj (a, b) = None \<and> adj (b, a) = None"

definition untouched :: "dlink list \<Rightarrow> (int \<times> int) set \<Rightarrow> adjacency \<Rightarrow> int \<Rightarrow> int \<Rightarrow> bool" where
  "untouched links D adj a b \<longleftrightarrow> adj (a, b) = link_lists links (a, b) \<and> adj (b, a) = link_lists links (b, a) \<and>
     ((a, b) \<in> D \<longrightarrow> link_lists links (a, b) = None) \<and> ((b, a) \<in> D \<longrightarrow> link_lists links (b, a) = None)"

definition culled :: "dlink list \<Rightarrow> (int \<times> int) set \<Rightarrow> adjacency \<Rightarrow> bool" where
  "culled links D adj \<longleftrightarrow> (\<forall>a. adj (a, a) = None) \<and> (\<forall>a b. a \<noteq> b \<longrightarrow> settled links adj a b \<or> untouched links D adj a b)"

lemma settled_sym: "settled links adj a b \<Longrightarrow> settled links adj b a"
  unfolding settled_def using two_way_flip flip_simps by metis

lemma untouched_sym: "untouched links D adj a b \<Longrightarrow> untouched links D adj b a"
  by (auto simp: untouched_def)

lemma settled_cong: "adj' (a, b) = adj (a, b) \<Longrightarrow> adj' (b, a) = adj (b, a) \<Longrightarrow> settled links adj' a b = settled links adj a b"
  by (simp add: settled_def)

lemma untouched_cong: "adj' (a, b) = adj (a, b) \<Longrightarrow> adj' (b, a) = adj (b, a) \<Longrightarrow> untouched links D adj' a b = untouched links D adj a b"
  by (simp add: untouched_def)

lemma untouched_more:
  "untouched links D adj a b \<Longrightarrow> {a, b} \<noteq> {fst p, snd p} \<or> link_lists links p = None \<Longrightarrow> untouched links (insert p D) adj a b"
  by (auto simp: untouched_def doubleton_eq_iff)

lemma in_links_from: "l \<in> set (links_from links (a, b)) \<longleftrightarrow> l \<in> set links \<and> dpid1 l = a \<and> dpid2 l = b"
  by (auto simp: links_from_def)

lemma settling:
  assumes "link_lists links (a, b) = Some (Links ls)"
  shows "case find (\<lambda>l. flip l \<in> set links) ls of
      Some l \<Rightarrow> two_way links l \<and> dpid1 l = a \<and> dpid2 l = b
    | None \<Rightarrow> \<nexists>l. two_way links l \<and> dpid1 l = a \<and> dpid2 l = b"
proof -
  have ls: "ls = links_from links (a, b)" using assms by (simp add: link_lists_eq split: if_splits)
  show ?thesis
  proof (cases "find (\<lambda>l. flip l \<in> set links) ls")
    case None
    then have "\<nexists>l. two_way links l \<and> dpid1 l = a \<and> dpid2 l = b" using ls by (auto simp: find_None_iff two_way_def in_links_from)
    then show ?thesis by (simp add: None)
  next
    case (Some l)
    then have "l \<in> set ls" "flip l \<in> set links" by (auto simp: find_Some_iff)
    then show ?thesis using Some ls by (simp add: two_way_def in_links_from)
  qed
qed

lemma cull_pair_step:
  assumes "culled links D adj"
  shows "\<exists>adj'. cull_pair links (s1, s2) adj = Inr adj' \<and> culled links (insert (s1, s2) D) adj'"
proof -
  have self: "adj (a, a) = None" for a using assms by (simp add: culled_def)
  have rest: "settled links adj a b \<or> untouched links D adj a b" if "a \<noteq> b" for a b using assms that by (simp add: culled_def)
  show ?thesis
  proof (cases "s1 \<noteq> s2 \<and> (\<exists>ls. adj (s1, s2) = Some (Links ls))")
    case True
    then obtain ls where ls: "s1 \<noteq> s2" "adj (s1, s2) = Some (Links ls)" by blast
    have "\<not> settled links adj s1 s2" using ls by (auto simp: settled_def)
    then have u: "link_lists links (s1, s2) = Some (Links ls)" using rest [OF ls(1)] ls(2) by (simp add: untouched_def)
    define adj' where "adj' = (case find (\<lambda>l. flip l \<in> set links) ls of
        Some l \<Rightarrow> adj((s1, s2) \<mapsto> Port (port1 l), (s2, s1) \<mapsto> Port (port2 l))
      | None \<Rightarrow> adj((s1, s2) := None, (s2, s1) := None))"
    have c: "cull_pair links (s1, s2) adj = Inr adj'" using ls by (simp add: cull_pair_def adj'_def split: option.split)
    have new: "settled links adj' s1 s2"
    proof (cases "find (\<lambda>l. flip l \<in> set links) ls")
      case None
      then have "adj' (s1, s2) = None" "adj' (s2, s1) = None" by (simp_all add: adj'_def)
      moreover have "\<nexists>l. two_way links l \<and> dpid1 l = s1 \<and> dpid2 l = s2" using settling [OF u] unfolding None option.case .
      ultimately show ?thesis unfolding settled_def by blast
    next
      case (Some l)
      then have "adj' (s1, s2) = Some (Port (port1 l))" "adj' (s2, s1) = Some (Port (port2 l))" using ls(1) by (simp_all add: adj'_def)
      moreover have "two_way links l \<and> dpid1 l = s1 \<and> dpid2 l = s2" using settling [OF u] unfolding Some option.case .
      ultimately show ?thesis unfolding settled_def by blast
    qed
    have other: "adj' (a, b) = adj (a, b)" if "{a, b} \<noteq> {s1, s2}" for a b
    proof -
      have "(a, b) \<noteq> (s1, s2)" "(a, b) \<noteq> (s2, s1)" using that by blast+
      then show ?thesis unfolding adj'_def by (cases "find (\<lambda>l. flip l \<in> set links) ls") (simp_all only: option.case fun_upd_apply if_False)
    qed
    have "culled links (insert (s1, s2) D) adj'"
      unfolding culled_def
    proof (intro conjI allI impI)
      show "adj' (a, a) = None" for a using self [of a] ls(1) by (subst other) auto
      fix a b :: int assume ab: "a \<noteq> b"
      show "settled links adj' a b \<or> untouched links (insert (s1, s2) D) adj' a b"
      proof (cases "{a, b} = {s1, s2}")
        case True
        then show ?thesis using new settled_sym [OF new] by (auto simp: doubleton_eq_iff)
      next
        case False
        then have "adj' (a, b) = adj (a, b)" "adj' (b, a) = adj (b, a)" using other [of a b] other [of b a] by (auto simp: insert_commute)
        then show ?thesis
          using rest [OF ab] False settled_cong [of adj' a b adj links] untouched_cong [of adj' a b adj links D]
            untouched_more [of links D adj' a b "(s1, s2)"] unfolding fst_conv snd_conv by blast
      qed
    qed
    then show ?thesis using c by blast
  next
    case False
    then have c: "cull_pair links (s1, s2) adj = Inr adj" using self [of s2] by (auto simp: cull_pair_def split: option.split adj_val.split)
    have "untouched links (insert (s1, s2) D) adj a b" if "a \<noteq> b" "untouched links D adj a b" for a b
    proof (cases "{a, b} = {s1, s2}")
      case True
      then have "adj (s1, s2) = link_lists links (s1, s2)" "s1 \<noteq> s2" using that by (auto simp: untouched_def doubleton_eq_iff)
      then have "link_lists links (s1, s2) = None" using False by (auto simp: link_lists_eq split: if_splits)
      then show ?thesis using that(2) by (intro untouched_more) simp_all
    next
      case False
      then show ?thesis using that(2) by (intro untouched_more) simp_all
    qed
    then have "culled links (insert (s1, s2) D) adj" using self rest unfolding culled_def by blast
    then show ?thesis using c by blast
  qed
qed

lemma cull_all:
  "culled links D adj \<Longrightarrow> \<exists>adj'. cull links ps adj = Inr adj' \<and> culled links (D \<union> set ps) adj'"
proof (induction ps arbitrary: D adj)
  case (Cons p ps)
  obtain adj1 where a: "cull_pair links p adj = Inr adj1" "culled links (insert p D) adj1"
    using cull_pair_step [OF Cons.prems, of "fst p" "snd p"] by auto
  then show ?case using Cons.IH [OF a(2)] by auto
qed simp

text \<open>The graph of two-way links.\<close>

definition joined :: "dlink list \<Rightarrow> (int \<times> int) set" where
  "joined links = {(dpid1 l, dpid2 l) | l. two_way links l}"

definition port_graph :: "dlink list \<Rightarrow> adjacency \<Rightarrow> bool" where
  "port_graph links adj \<longleftrightarrow> (\<forall>a b. settled links adj a b)"

lemma cull_settles:
  assumes "loop_free_links links" "switches_of links \<subseteq> set order"
  shows "\<exists>adj. cull links [(s1, s2). s1 \<leftarrow> order, s2 \<leftarrow> order] (link_lists links) = Inr adj \<and> port_graph links adj"
proof -
  have "link_lists links (a, a) = None" for a
    using assms(1) by (auto simp: link_lists_eq loop_free_links_def links_from_def filter_empty_conv)
  then have "culled links {} (link_lists links)" by (simp add: culled_def untouched_def)
  moreover have "set [(s1, s2). s1 \<leftarrow> order, s2 \<leftarrow> order] = set order \<times> set order" by auto
  ultimately obtain adj where adj: "cull links [(s1, s2). s1 \<leftarrow> order, s2 \<leftarrow> order] (link_lists links) = Inr adj"
      "culled links (set order \<times> set order) adj"
    using cull_all [of links "{}" "link_lists links" "[(s1, s2). s1 \<leftarrow> order, s2 \<leftarrow> order]"] by (auto simp only: Un_empty_left)
  have "settled links adj a b" for a b
  proof (cases "a = b")
    case True
    then show ?thesis using adj(2) assms(1) by (auto simp: settled_def culled_def two_way_def loop_free_links_def)
  next
    case False
    have gone: "link_lists links (x, y) = None" if "untouched links (set order \<times> set order) adj x y" for x y
    proof (rule ccontr)
      assume n: "link_lists links (x, y) \<noteq> None"
      then have "links_from links (x, y) \<noteq> []" by (auto simp: link_lists_eq)
      then obtain l where "l \<in> set (links_from links (x, y))" by (meson last_in_set)
      then have "x \<in> set order" "y \<in> set order" using assms(2) by (auto simp: in_links_from switches_of_def)
      then show False using that n by (simp add: untouched_def)
    qed
    have "settled links adj a b" if u: "untouched links (set order \<times> set order) adj a b"
    proof -
      have "links_from links (a, b) = []" using gone [OF u] by (simp add: link_lists_eq split: if_splits)
      then have "\<nexists>l. two_way links l \<and> dpid1 l = a \<and> dpid2 l = b" by (metis in_links_from list.set(1) empty_iff two_way_def)
      then show ?thesis using u gone [OF u] gone [OF untouched_sym [OF u]] by (simp add: settled_def untouched_def)
    qed
    then show ?thesis using adj(2) False by (auto simp: culled_def)
  qed
  then show ?thesis using adj(1) by (auto simp: port_graph_def)
qed

lemma port_graph_link:
  assumes "port_graph links adj" "adj (a, b) \<noteq> None"
  shows "\<exists>l. two_way links l \<and> dpid1 l = a \<and> dpid2 l = b \<and> adj (a, b) = Some (Port (port1 l)) \<and> adj (b, a) = Some (Port (port2 l))"
proof -
  have "settled links adj a b" using assms(1) by (simp only: port_graph_def)
  then show ?thesis using assms(2) unfolding settled_def by (elim disjE) simp_all
qed

lemma port_graph_joined: "port_graph links adj \<Longrightarrow> adj (a, b) \<noteq> None \<longleftrightarrow> (a, b) \<in> joined links"
proof
  assume p: "port_graph links adj"
  show "(a, b) \<in> joined links" if "adj (a, b) \<noteq> None"
    using port_graph_link [OF p that] unfolding joined_def by auto
  assume "(a, b) \<in> joined links"
  then obtain l where l: "two_way links l" "dpid1 l = a" "dpid2 l = b" unfolding joined_def by auto
  have "settled links adj a b" using p by (simp only: port_graph_def)
  then show "adj (a, b) \<noteq> None" using l unfolding settled_def by (elim disjE) auto
qed

lemma joined_sym: "(a, b) \<in> joined links \<Longrightarrow> (b, a) \<in> joined links"
proof -
  assume "(a, b) \<in> joined links"
  then obtain l where "two_way links l" "dpid1 l = a" "dpid2 l = b" by (auto simp: joined_def)
  then show "(b, a) \<in> joined links" unfolding joined_def by (intro CollectI exI [of _ "flip l"]) simp
qed

subsection \<open>The search\<close>

definition edges :: "tree \<Rightarrow> (int \<times> int) set" where
  "edges t = {(v, w). \<exists>s x. t v = Some s \<and> (w, x) \<in> s}"

definition forest :: "(int \<times> int) set \<Rightarrow> bool" where
  "forest E \<longleftrightarrow> sym E \<and> (\<forall>(a, b) \<in> E. (a, b) \<notin> (E - {(a, b), (b, a)})\<^sup>*)"

lemma edges_tree_add: "edges (tree_add v (w, x) t) = insert (v, w) (edges t)"
proof -
  have "(a, b) \<in> edges (tree_add v (w, x) t) \<longleftrightarrow> (a, b) = (v, w) \<or> (a, b) \<in> edges t" for a b
    by (cases "a = v"; cases "t v") (auto simp: edges_def tree_add_def)
  then show ?thesis by (auto simp del: Pair_inject)
qed

lemma forest_irrefl: "forest E \<Longrightarrow> (a, a) \<notin> E"
  unfolding forest_def by blast

text \<open>An edge to a switch without edges closes no cycle.\<close>

lemma forest_leaf:
  assumes "forest E" "v \<noteq> w" "w \<notin> Field E"
  shows "forest (insert (v, w) (insert (w, v) E))"
proof -
  let ?F = "insert (v, w) (insert (w, v) E)"
  have no: "(w, x) \<notin> E" "(x, w) \<notin> E" for x using assms(3) by (auto simp: Field_def)
  have symE: "sym E" using assms(1) by (simp add: forest_def)
  have leave: "(x, y) \<in> (?F - {(a, b), (b, a)})\<^sup>* \<Longrightarrow> x \<noteq> w \<Longrightarrow> (if y = w then (x, v) else (x, y)) \<in> (E - {(a, b), (b, a)})\<^sup>*" for x y a b
  proof (induction rule: rtrancl_induct)
    case (step y z)
    then show ?case using assms(2) no by (auto split: if_splits dest: rtrancl_into_rtrancl)
  qed simp
  have "(a, b) \<notin> (?F - {(a, b), (b, a)})\<^sup>*" if ab: "(a, b) \<in> ?F" for a b
  proof
    assume path: "(a, b) \<in> (?F - {(a, b), (b, a)})\<^sup>*"
    consider "(a, b) \<in> E" | "a = v" "b = w" | "a = w" "b = v" using ab by auto
    then show False
    proof cases
      case 1
      then have "a \<noteq> w" "b \<noteq> w" using no by auto
      then show False using leave [OF path] 1 assms(1) by (auto simp: forest_def)
    next
      case 2
      then have "b \<notin> Range (?F - {(a, b), (b, a)})" using no assms(2) by auto
      then show False using path 2 assms(2) by (metis RangeI rtranclE)
    next
      case 3
      then have "a \<notin> Domain (?F - {(a, b), (b, a)})" using no assms(2) by auto
      then show False using path 3 assms(2) by (metis DomainI converse_rtranclE)
    qed
  qed
  moreover have "sym ?F" using symE by (auto simp: sym_def)
  ultimately show ?thesis unfolding forest_def by blast
qed

text \<open>A tree over the graph: every entry is the port of a two-way link, both ends are entered, and there are no cycles.\<close>

definition tree_ok :: "dlink list \<Rightarrow> tree \<Rightarrow> bool" where
  "tree_ok links t \<longleftrightarrow> dom t = Field (edges t) \<and> forest (edges t) \<and>
     (\<forall>v s w x. t v = Some s \<longrightarrow> (w, x) \<in> s \<longrightarrow>
        (\<exists>l s'. two_way links l \<and> dpid1 l = v \<and> dpid2 l = w \<and> x = Port (port1 l) \<and> t w = Some s' \<and> (v, Port (port2 l)) \<in> s'))"

lemma tree_ok_add:
  assumes "tree_ok links t" "port_graph links adj" "t w = None" "adj (v, w) \<noteq> None" "v \<noteq> w"
  shows "tree_ok links (tree_add w (v, adj_get adj w v) (tree_add v (w, adj_get adj v w) t))" (is "tree_ok links ?t")
    and "edges (tree_add w (v, adj_get adj w v) (tree_add v (w, adj_get adj v w) t)) = insert (v, w) (insert (w, v) (edges t))"
proof -
  show e: "edges ?t = insert (v, w) (insert (w, v) (edges t))" unfolding edges_tree_add by (rule insert_commute)
  obtain l where l: "two_way links l" "dpid1 l = v" "dpid2 l = w" "adj (v, w) = Some (Port (port1 l))" "adj (w, v) = Some (Port (port2 l))"
    using port_graph_link [OF assms(2,4)] by blast
  have w: "w \<notin> Field (edges t)" using assms(1,3) by (auto simp: tree_ok_def)
  have "forest (edges ?t)" unfolding e using assms(1,5) w by (intro forest_leaf) (auto simp: tree_ok_def)
  moreover have "dom ?t = Field (edges ?t)"
    unfolding e using assms(1) by (auto simp: tree_ok_def tree_add_def)
  moreover have "\<exists>l s'. two_way links l \<and> dpid1 l = a \<and> dpid2 l = b \<and> x = Port (port1 l) \<and> ?t b = Some s' \<and> (a, Port (port2 l)) \<in> s'"
    if ab: "?t a = Some s" "(b, x) \<in> s" for a s b x
  proof -
    have vt: "?t v = Some (insert (w, Port (port1 l)) (case t v of None \<Rightarrow> {} | Some s \<Rightarrow> s))"
      "?t w = Some {(v, Port (port2 l))}" "\<And>u. u \<noteq> v \<Longrightarrow> u \<noteq> w \<Longrightarrow> ?t u = t u"
      using assms(3,5) l(4,5) by (simp_all add: tree_add_def adj_get_def)
    consider "a = v" "b = w" "x = Port (port1 l)" | "a = w" "b = v" "x = Port (port2 l)" | s' where "t a = Some s'" "(b, x) \<in> s'" "a \<noteq> w"
      using ab vt assms(3,5) by (cases "a = w"; cases "a = v") (auto split: option.splits)
    then show ?thesis
    proof cases
      case 1
      then show ?thesis using l vt by auto
    next
      case 2
      then show ?thesis using l vt by (intro exI [of _ "flip l"]) auto
    next
      case 3
      then obtain l' s'' where l': "two_way links l'" "dpid1 l' = a" "dpid2 l' = b" "x = Port (port1 l')" "t b = Some s''" "(a, Port (port2 l')) \<in> s''"
        using assms(1) unfolding tree_ok_def by blast
      then have "b \<noteq> w" using assms(3) by auto
      then show ?thesis using l' vt by (cases "b = v") auto
    qed
  qed
  ultimately show "tree_ok links ?t" unfolding tree_ok_def by blast
qed

text \<open>Visiting a switch enters its neighbours that are not in the tree yet.\<close>

lemma visit_neighbours:
  assumes "tree_ok links t" "port_graph links adj" "\<forall>w \<in> set ws. adj (v, w) \<noteq> None \<and> v \<noteq> w" "visit adj v ws fresh t = (fresh', t')"
  shows "tree_ok links t' \<and> fresh' = fresh \<union> (set ws - dom t) \<and> edges t \<subseteq> edges t' \<and>
    (\<forall>w \<in> set ws - dom t. (v, w) \<in> edges t') \<and> dom t' = dom t \<union> (set ws - dom t) \<union> (if set ws \<subseteq> dom t then {} else {v})"
  using assms
proof (induction adj v ws fresh t rule: visit.induct)
  case (2 adj v w ws fresh t)
  show ?case
  proof (cases "t w = None")
    case False
    then show ?thesis using 2 by (auto simp: insert_absorb domIff)
  next
    case True
    let ?t = "tree_add w (v, adj_get adj w v) (tree_add v (w, adj_get adj v w) t)"
    have t: "tree_ok links ?t" "edges ?t = insert (v, w) (insert (w, v) (edges t))"
      using tree_ok_add [OF 2(3,4) True, of v] 2(5) by auto
    have d: "dom ?t = insert v (insert w (dom t))" by (auto simp: tree_add_def)
    have "tree_ok links t' \<and> fresh' = insert w fresh \<union> (set ws - dom ?t) \<and> edges ?t \<subseteq> edges t' \<and>
        (\<forall>w \<in> set ws - dom ?t. (v, w) \<in> edges t') \<and> dom t' = dom ?t \<union> (set ws - dom ?t) \<union> (if set ws \<subseteq> dom ?t then {} else {v})"
      using 2(2) [OF _ t(1) 2(4)] 2(5,6) True by simp
    moreover have "v \<notin> set (w # ws)" using 2(5) by auto
    ultimately show ?thesis using True t(2) by (auto simp: d domIff)
  qed
qed auto

text \<open>
  The state of the search. The queue begins with switches of the tree, among them all that still wait
  for their visit, and these are connected with each other. What a visited switch is joined to is connected to it.
\<close>

definition waiting :: "int set \<Rightarrow> tree \<Rightarrow> int set" where
  "waiting visited t = dom t - visited"

definition search_ok :: "dlink list \<Rightarrow> int list \<Rightarrow> int set \<Rightarrow> tree \<Rightarrow> bool" where
  "search_ok links q visited t \<longleftrightarrow> tree_ok links t \<and> set q \<subseteq> switches_of links \<and> switches_of links \<subseteq> visited \<union> set q \<and>
     (\<forall>x \<in> visited. \<forall>y. (x, y) \<in> joined links \<longrightarrow> (x, y) \<in> (edges t)\<^sup>*) \<and>
     (\<exists>pre suf. q = pre @ suf \<and> waiting visited t \<subseteq> set pre \<and> set pre \<subseteq> dom t \<and>
        (\<forall>x \<in> waiting visited t. \<forall>y \<in> waiting visited t. (x, y) \<in> (edges t)\<^sup>*))"

lemma joined_switches: "(x, y) \<in> joined links \<Longrightarrow> x \<in> switches_of links \<and> y \<in> switches_of links"
  by (auto simp: joined_def switches_of_def two_way_def)

lemma joined_irrefl: "loop_free_links links \<Longrightarrow> (x, y) \<in> joined links \<Longrightarrow> x \<noteq> y"
  by (auto simp: joined_def loop_free_links_def two_way_def)

lemma tree_edges_joined: "tree_ok links t \<Longrightarrow> edges t \<subseteq> joined links"
  unfolding tree_ok_def edges_def joined_def by fastforce

lemma tree_rtrancl_sym: "tree_ok links t \<Longrightarrow> (x, y) \<in> (edges t)\<^sup>* \<Longrightarrow> (y, x) \<in> (edges t)\<^sup>*"
  unfolding tree_ok_def forest_def by (blast dest: sym_rtrancl symD)

lemma connected_in_tree: "tree_ok links t \<Longrightarrow> (x, y) \<in> (edges t)\<^sup>* \<Longrightarrow> x \<noteq> y \<Longrightarrow> x \<in> dom t \<and> y \<in> dom t"
  unfolding tree_ok_def by (metis FieldI1 FieldI2 converse_rtranclE rtranclE)

lemma finite_switches [simp]: "finite (switches_of links)"
  by (simp add: switches_of_def)

lemma search_skip:
  assumes "search_ok links (v # q) visited t" "v \<in> visited"
  shows "search_ok links q visited t"
proof -
  obtain pre suf where p: "v # q = pre @ suf" "waiting visited t \<subseteq> set pre" "set pre \<subseteq> dom t"
    "\<forall>x \<in> waiting visited t. \<forall>y \<in> waiting visited t. (x, y) \<in> (edges t)\<^sup>*"
    using assms(1) unfolding search_ok_def by blast
  have "\<exists>pre suf. q = pre @ suf \<and> waiting visited t \<subseteq> set pre \<and> set pre \<subseteq> dom t"
  proof (cases pre)
    case Nil
    then show ?thesis using p by (intro exI [of _ "[]"] exI [of _ q]) auto
  next
    case (Cons x xs)
    then show ?thesis using p assms(2) by (intro exI [of _ xs] exI [of _ suf]) (auto simp: waiting_def)
  qed
  then show ?thesis using assms p(4) unfolding search_ok_def by auto
qed

lemma search_visit:
  assumes "search_ok links (v # q) visited t" "v \<notin> visited" "port_graph links adj" "loop_free_links links"
    "\<forall>w. (v, w) \<in> joined links \<longrightarrow> w \<in> set (ord v)" "visit adj v (neighbours ord adj v) {} t = (fresh, t')"
  shows "search_ok links (sorted_list_of_set fresh @ q) (insert v visited) t'"
proof -
  obtain pre suf where p: "v # q = pre @ suf" "waiting visited t \<subseteq> set pre" "set pre \<subseteq> dom t"
    "\<forall>x \<in> waiting visited t. \<forall>y \<in> waiting visited t. (x, y) \<in> (edges t)\<^sup>*"
    using assms(1) unfolding search_ok_def by blast
  have t: "tree_ok links t" "set (v # q) \<subseteq> switches_of links" "switches_of links \<subseteq> visited \<union> set (v # q)"
    and old: "\<And>x y. x \<in> visited \<Longrightarrow> (x, y) \<in> joined links \<Longrightarrow> (x, y) \<in> (edges t)\<^sup>*"
    using assms(1) by (auto simp: search_ok_def)
  let ?ws = "neighbours ord adj v"
  have ws: "set ?ws = {w. (v, w) \<in> joined links}"
    using assms(5) port_graph_joined [OF assms(3)] by (auto simp: neighbours_def)
  have n: "\<forall>w \<in> set ?ws. adj (v, w) \<noteq> None \<and> v \<noteq> w"
    using ws port_graph_joined [OF assms(3)] joined_irrefl [OF assms(4)] by blast
  note vn = visit_neighbours [OF t(1) assms(3) n assms(6)]
  have t': "tree_ok links t'" and fresh: "fresh = set ?ws - dom t" and mono: "edges t \<subseteq> edges t'"
    and to_fresh: "\<And>w. w \<in> fresh \<Longrightarrow> (v, w) \<in> edges t'"
    and dom': "dom t' = dom t \<union> fresh \<union> (if set ?ws \<subseteq> dom t then {} else {v})"
    using vn by auto
  have fin: "finite fresh" by (simp add: fresh)
  have grow: "(x, y) \<in> (edges t)\<^sup>* \<Longrightarrow> (x, y) \<in> (edges t')\<^sup>*" for x y using mono rtrancl_mono by blast
  text \<open>A neighbour that is in the tree already is connected to the visited switch.\<close>
  have known: "v \<in> dom t \<and> (v, w) \<in> (edges t)\<^sup>*" if w: "w \<in> set ?ws" "w \<in> dom t" for w
  proof -
    have jw: "(w, v) \<in> joined links" "v \<noteq> w" using w(1) ws joined_sym n by auto
    show ?thesis
    proof (cases "w \<in> visited")
      case True
      then show ?thesis using old [OF True jw(1)] connected_in_tree [OF t(1)] tree_rtrancl_sym [OF t(1)] jw(2) by blast
    next
      case False
      then have ww: "w \<in> waiting visited t" using w(2) by (simp add: waiting_def)
      then have "pre \<noteq> []" using p(2) by auto
      then have "v \<in> set pre" using p(1) by (cases pre) auto
      then have "v \<in> waiting visited t" using p(3) assms(2) by (auto simp: waiting_def)
      then show ?thesis using p(4) ww by (auto simp: waiting_def)
    qed
  qed
  have reach: "(v, y) \<in> (edges t')\<^sup>*" if "(v, y) \<in> joined links" for y
    using known [of y] to_fresh [of y] that ws fresh grow by (cases "y \<in> dom t") auto
  let ?pre = "sorted_list_of_set fresh @ (if pre = [] then [] else tl pre)" and ?suf = "if pre = [] then tl suf else suf"
  have q: "sorted_list_of_set fresh @ q = ?pre @ ?suf" using p(1) by (cases pre) (auto simp: neq_Nil_conv)
  have w': "waiting (insert v visited) t' = (waiting visited t - {v}) \<union> (fresh - insert v visited)"
    using dom' by (auto simp: waiting_def split: if_splits)
  have sub: "waiting (insert v visited) t' \<subseteq> set ?pre"
    using w' p(1,2) fin by (cases pre) auto
  have sub': "set ?pre \<subseteq> dom t'" using dom' p(1,3) fin by (cases pre) auto
  have conn: "(x, y) \<in> (edges t')\<^sup>*" if "x \<in> waiting (insert v visited) t'" "y \<in> waiting (insert v visited) t'" for x y
  proof -
    have fr: "(v, w) \<in> (edges t')\<^sup>*" if "w \<in> waiting (insert v visited) t'" "w \<in> fresh \<or> v \<in> waiting visited t" for w
      using that w' to_fresh p(4) grow by blast
    show ?thesis
    proof (cases "v \<in> waiting visited t")
      case True
      then show ?thesis using fr that tree_rtrancl_sym [OF t'] by (meson rtrancl_trans)
    next
      case False
      have "pre = []"
      proof (rule ccontr)
        assume "pre \<noteq> []"
        then have "v \<in> set pre" using p(1) by (cases pre) auto
        then show False using p(3) assms(2) False by (auto simp: waiting_def)
      qed
      then have "waiting visited t = {}" using p(2) by simp
      then have "x \<in> fresh" "y \<in> fresh" using that w' by auto
      then show ?thesis using fr that tree_rtrancl_sym [OF t'] by (meson rtrancl_trans)
    qed
  qed
  have "set (sorted_list_of_set fresh @ q) \<subseteq> switches_of links"
    using t(2) fresh ws joined_switches fin by auto
  moreover have "switches_of links \<subseteq> insert v visited \<union> set (sorted_list_of_set fresh @ q)" using t(3) by auto
  moreover have "\<forall>x \<in> insert v visited. \<forall>y. (x, y) \<in> joined links \<longrightarrow> (x, y) \<in> (edges t')\<^sup>*"
    using old reach grow by blast
  ultimately show ?thesis unfolding search_ok_def using t' q sub sub' conn by blast
qed

lemma tree_loop_spans:
  assumes "port_graph links adj" "loop_free_links links" "\<forall>v w. (v, w) \<in> joined links \<longrightarrow> w \<in> set (ord v)"
  shows "search_ok links (sorted_list_of_set fresh @ q) visited t \<Longrightarrow>
    \<exists>t'. tree_loop ord adj fresh q visited t = Some t' \<and> tree_ok links t' \<and> joined links \<subseteq> (edges t')\<^sup>*"
proof (induction "(card (switches_of links - visited), length (sorted_list_of_set fresh @ q))" arbitrary: fresh q visited t
    rule: wf_induct_rule [OF wf_lex_prod [OF wf_less_than wf_less_than]])
  case less: (1 fresh q visited t)
  note IH = less.hyps
  show ?case
  proof (cases "sorted_list_of_set fresh @ q")
    case Nil
    then have "switches_of links \<subseteq> visited" using less.prems by (simp add: search_ok_def)
    then have "(x, y) \<in> (edges t)\<^sup>*" if "(x, y) \<in> joined links" for x y
      using less.prems joined_switches [OF that] that unfolding search_ok_def by blast
    then have "joined links \<subseteq> (edges t)\<^sup>*" by (simp add: subset_iff)
    moreover have "tree_ok links t" using less.prems by (simp add: search_ok_def)
    moreover have "tree_loop ord adj fresh q visited t = Some t" using Nil by (subst tree_loop.simps) simp
    ultimately show ?thesis by blast
  next
    case (Cons v q')
    note ok = less.prems [unfolded Cons]
    show ?thesis
    proof (cases "v \<in> visited")
      case True
      have "search_ok links (sorted_list_of_set {} @ q') visited t" using search_skip [OF ok True] by simp
      then have "\<exists>t'. tree_loop ord adj {} q' visited t = Some t' \<and> tree_ok links t' \<and> joined links \<subseteq> (edges t')\<^sup>*"
        using Cons by (intro IH) simp_all
      then show ?thesis using True Cons by (subst tree_loop.simps) simp
    next
      case False
      obtain fr t1 where v: "visit adj v (neighbours ord adj v) {} t = (fr, t1)" by fastforce
      have s: "search_ok links (sorted_list_of_set fr @ q') (insert v visited) t1"
        by (rule search_visit [OF ok False assms(1,2) _ v]) (use assms(3) in blast)
      have "v \<in> switches_of links" using ok by (simp add: search_ok_def)
      then have "card (switches_of links - insert v visited) < card (switches_of links - visited)"
        using False by (intro psubset_card_mono) auto
      then have "\<exists>t'. tree_loop ord adj fr q' (insert v visited) t1 = Some t' \<and> tree_ok links t' \<and> joined links \<subseteq> (edges t')\<^sup>*"
        using s by (intro IH) simp_all
      then show ?thesis using False Cons v by (subst tree_loop.simps) simp
    qed
  qed
qed

text \<open>The computed tree: it exists, and spans what two-way links join.\<close>

lemma calc_spans:
  assumes "loop_free_links links" "switches_of links \<subseteq> set order" "\<forall>v w. (v, w) \<in> joined links \<longrightarrow> w \<in> set (ord v)"
  shows "\<exists>t. calc_spanning_tree order ord links = Some (Inr t) \<and> tree_ok links t \<and> (edges t)\<^sup>* = (joined links)\<^sup>*"
proof -
  obtain adj where adj: "cull links [(s1, s2). s1 \<leftarrow> order, s2 \<leftarrow> order] (link_lists links) = Inr adj" "port_graph links adj"
    using cull_settles [OF assms(1,2)] by blast
  have "edges Map.empty = {}" by (simp add: edges_def)
  then have "tree_ok links Map.empty" by (simp add: tree_ok_def forest_def)
  then have "search_ok links (sorted_list_of_set (switches_of links) @ []) {} Map.empty"
    by (simp add: search_ok_def waiting_def)
  from tree_loop_spans [OF adj(2) assms(1,3) this] obtain t where
    t: "tree_loop ord adj (switches_of links) [] {} Map.empty = Some t" "tree_ok links t" "joined links \<subseteq> (edges t)\<^sup>*" by blast
  have "(edges t)\<^sup>* = (joined links)\<^sup>*"
    using t(3) tree_edges_joined [OF t(2)] by (metis rtrancl_subset)
  then show ?thesis using t(1,2) adj(1) by (auto simp: calc_spanning_tree_def)
qed

subsection \<open>Links that the search refuses\<close>

lemma cull_self_link:
  "adj (a, a) = Some (Links ls) \<Longrightarrow> (a, a) \<in> set ps \<Longrightarrow> cull links ps adj = Inl AssertionError"
proof (induction ps arbitrary: adj)
  case (Cons p ps)
  obtain s1 s2 where p: "p = (s1, s2)" by fastforce
  show ?case
  proof (cases "s1 = s2 \<and> (\<exists>ls. adj (s1, s2) = Some (Links ls))")
    case True
    then show ?thesis by (auto simp: p cull_pair_def)
  next
    case False
    obtain adj' where adj': "cull_pair links (s1, s2) adj = Inr adj'" "adj' (a, a) = adj (a, a)"
    proof (cases "\<exists>ls. adj (s1, s2) = Some (Links ls)")
      case True
      then obtain ks where ks: "adj (s1, s2) = Some (Links ks)" "s1 \<noteq> s2" using False by blast
      define adj' where "adj' = (case find (\<lambda>l. flip l \<in> set links) ks of
          Some l \<Rightarrow> adj((s1, s2) \<mapsto> Port (port1 l), (s2, s1) \<mapsto> Port (port2 l))
        | None \<Rightarrow> adj((s1, s2) := None, (s2, s1) := None))"
      have "cull_pair links (s1, s2) adj = Inr adj'" using ks by (simp add: cull_pair_def adj'_def split: option.split)
      moreover have "(a, a) \<noteq> (s1, s2)" "(a, a) \<noteq> (s2, s1)" using ks(2) by auto
      then have "adj' (a, a) = adj (a, a)"
        unfolding adj'_def by (cases "find (\<lambda>l. flip l \<in> set links) ks") (simp_all only: option.case fun_upd_apply if_False)
      ultimately show ?thesis by (rule that)
    next
      case False
      then have "cull_pair links (s1, s2) adj = Inr adj" by (auto simp: cull_pair_def split: option.split adj_val.split)
      then show ?thesis using that by blast
    qed
    then have "(a, a) \<in> set ps" using Cons.prems False p by auto
    then show ?thesis using Cons.IH [of adj'] Cons.prems(1) adj' by (simp add: p)
  qed
qed simp

lemma calc_self_link:
  assumes "l \<in> set links" "dpid1 l = dpid2 l" "switches_of links \<subseteq> set order"
  shows "calc_spanning_tree order ord links = Some (Inl AssertionError)"
proof -
  let ?a = "dpid1 l"
  have "links_from links (?a, ?a) \<noteq> []" using assms(1,2) by (auto simp: links_from_def filter_empty_conv)
  then have "link_lists links (?a, ?a) = Some (Links (links_from links (?a, ?a)))" by (simp add: link_lists_eq)
  moreover have "?a \<in> set order" using assms(1,3) by (auto simp: switches_of_def)
  then have "(?a, ?a) \<in> set [(s1, s2). s1 \<leftarrow> order, s2 \<leftarrow> order]" by auto
  ultimately have "cull links [(s1, s2). s1 \<leftarrow> order, s2 \<leftarrow> order] (link_lists links) = Inl AssertionError"
    by (rule cull_self_link)
  then show ?thesis by (simp add: calc_spanning_tree_def)
qed

subsection \<open>Flooding follows the tree\<close>

text \<open>The links over which a flooded frame leaves a switch of the tree.\<close>

definition flood_graph :: "discovery \<Rightarrow> tree \<Rightarrow> (int \<times> int) set" where
  "flood_graph d t = {(dpid1 l, dpid2 l) | l ports. l \<in> fst ` set (dc_adjacency d) \<and> t (dpid1 l) = Some ports \<and> floods d (dpid1 l) ports (port1 l)}"

text \<open>Every port leads to one switch port at most.\<close>

definition point_to_point :: "dlink list \<Rightarrow> bool" where
  "point_to_point links \<longleftrightarrow> (\<forall>l \<in> set links. \<forall>k \<in> set links. dpid1 l = dpid1 k \<and> port1 l = port1 k \<longrightarrow> l = k)"

lemma flood_graph_eq:
  assumes "tree_ok (map fst (dc_adjacency d)) t" "point_to_point (map fst (dc_adjacency d))"
  shows "flood_graph d t = edges t"
proof (intro set_eqI iffI; clarify)
  let ?links = "map fst (dc_adjacency d)"
  fix a b
  assume "(a, b) \<in> flood_graph d t"
  then obtain l ports where l: "l \<in> set ?links" "a = dpid1 l" "b = dpid2 l" "t a = Some ports" "floods d a ports (port1 l)"
    by (auto simp: flood_graph_def)
  have "isSwitchOnlyPort a (port1 l) d" using l(1,2) by (auto simp: isSwitchOnlyPort_def list_ex_iff)
  then obtain w where w: "(w, Port (port1 l)) \<in> ports" using l(5) by (auto simp: floods_def)
  then obtain k where k: "two_way ?links k" "dpid1 k = a" "dpid2 k = w" "port1 l = port1 k"
    using assms(1) l(4) unfolding tree_ok_def by (metis adj_val.inject(2))
  then have "k = l" using assms(2) l(1,2) unfolding point_to_point_def two_way_def by metis
  then show "(a, b) \<in> edges t" using w k(3) l(3,4) by (auto simp: edges_def)
next
  let ?links = "map fst (dc_adjacency d)"
  fix a b
  assume "(a, b) \<in> edges t"
  then obtain s x where s: "t a = Some s" "(b, x) \<in> s" by (auto simp: edges_def)
  then obtain l where l: "two_way ?links l" "dpid1 l = a" "dpid2 l = b" "x = Port (port1 l)"
    using assms(1) unfolding tree_ok_def by blast
  then have "floods d a s (port1 l)" using s(2) by (force simp: floods_def)
  then show "(a, b) \<in> flood_graph d t"
    using l s(1) unfolding flood_graph_def two_way_def by auto
qed

subsection \<open>What the switches are told\<close>

text \<open>The last flooding setting that was sent for each port.\<close>

definition asks :: "bytes \<Rightarrow> (int \<times> bool) option" where
  "asks b = (case next_frame b of Inr (Frame _ (MPortMod m) _) \<Rightarrow> Some (pm_port_no m, pm_config m = 0) | _ \<Rightarrow> None)"

definition asked :: "bytes list \<Rightarrow> int \<Rightarrow> bool option" where
  "asked bs = fold (\<lambda>b f. case asks b of None \<Rightarrow> f | Some (p, v) \<Rightarrow> f(p \<mapsto> v)) bs Map.empty"

lemma asked_snoc: "asked (bs @ [b]) = (case asks b of None \<Rightarrow> asked bs | Some (p, v) \<Rightarrow> (asked bs)(p \<mapsto> v))"
  by (simp add: asked_def split: option.split)

definition st_mirror :: "spanning \<Rightarrow> bool" where
  "st_mirror s \<longleftrightarrow> (\<forall>sw p v. st_prev s (sw, p) = Some v \<longrightarrow>
     (\<exists>c. st_connections s sw = Some c \<and> (con_disconnected c \<or> asked (con_sent c) p = Some v)))"

definition features_ok :: "spanning \<Rightarrow> bool" where
  "features_ok s \<longleftrightarrow> 0 \<le> st_next_XID s \<and> st_next_XID s \<le> MAX_XID \<and>
     (\<forall>sw c. st_connections s sw = Some c \<longrightarrow>
        (\<exists>f. con_features c = Some f \<and> (\<forall>p \<in> set (fr_ports f). hw_text_safe (pp_hw_addr p) \<and> 0 \<le> pp_port_no p)))"

definition st_features :: "spanning \<Rightarrow> int \<Rightarrow> ofp_features_reply option" where
  "st_features s sw = (case st_connections s sw of None \<Rightarrow> None | Some c \<Rightarrow> con_features c)"

lemma flood_mod_packs:
  assumes "hw_text_safe (pp_hw_addr p)" "0 \<le> pp_port_no p" "pp_port_no p < OFPP_MAX" "0 \<le> nx" "nx \<le> MAX_XID"
  shows "\<exists>b m. ofp_port_mod_pack True (flood_mod p flood) nx = Inr (Some b, m, next_xid nx) \<and> asks b = Some (pp_port_no p, flood)"
proof -
  let ?m = "flood_mod p flood"
  have i: "xid ?m = None" "version ?m = OFP_VERSION" "header_type ?m = OFPT_PORT_MOD" "hlength ?m = 32"
    "pm_port_no ?m = pp_port_no p" "pm_hw_addr ?m = pp_hw_addr p" "pm_config ?m = (if flood then 0 else 16)" "pm_mask ?m = 16" "pm_advertise ?m = 0"
    by (simp_all add: flood_mod_def ofp_port_mod_init_def)
  have t: "ofp_type_map OFPT_PORT_MOD \<noteq> None" by code_simp
  obtain h where h: "ofp_header_pack True ?m nx = Inr (h, ?m\<lparr>xid := Some nx\<rparr>, next_xid nx)"
    using header_pack_fresh [of ?m nx] t i assms(4,5) by auto
  have len: "length (hw_raw (pp_hw_addr p)) = 6" "hw_len (pp_hw_addr p) = 6"
    using assms(1) by (auto simp: hw_text_safe_def hw_wire_def EthAddr_len_def)
  obtain b where b: "ofp_port_mod_pack True ?m nx = Inr (Some b, ?m\<lparr>xid := Some nx\<rparr>, next_xid nx)"
    using h i assms(1-3) len
    by (cases flood) (auto simp: ofp_port_mod_pack_def ofp_port_mod_assert_def msg_packed_def concatE.simps(2) struct_pack.simps
        code_min_def code_max_def code_signed_def)
  then have "of_msg_pack (MPortMod ?m) nx = Inr (Some b, MPortMod (?m\<lparr>xid := Some nx\<rparr>), next_xid nx)" by (simp add: pack_result_def)
  moreover have "of_msg_wf (MPortMod ?m)" using i assms(1) by (simp add: head_ok_def ofp_port_mod_wf_def)
  ultimately have "framed b (OFPT_PORT_MOD, MPortMod (?m\<lparr>xid := Some nx\<rparr>))" using of_msg_framed by (fastforce simp: msg_type_def)
  then have "next_frame (b @ []) = Inr (Frame OFPT_PORT_MOD (MPortMod (?m\<lparr>xid := Some nx\<rparr>)) [])" unfolding framed_def by (metis fst_conv snd_conv)
  then have "asks b = Some (pp_port_no p, flood)" using i by (simp add: asks_def)
  then show ?thesis using b by blast
qed

definition same_connections :: "spanning \<Rightarrow> spanning \<Rightarrow> bool" where
  "same_connections s s' \<longleftrightarrow> (\<forall>sw. map_option con_features (st_connections s' sw) = map_option con_features (st_connections s sw) \<and>
     map_option con_disconnected (st_connections s' sw) = map_option con_disconnected (st_connections s sw))"

definition st_ok :: "spanning \<Rightarrow> bool" where
  "st_ok s \<longleftrightarrow> features_ok s \<and> st_mirror s"

lemma set_port_ok:
  assumes "st_ok s" "st_features s sw = Some f" "p \<in> set (fr_ports f)"
  shows "\<exists>s'. set_port d sw ports p s = (None, s') \<and> st_ok s' \<and> st_features s' = st_features s \<and>
    st_prev s' = (if pp_port_no p < OFPP_MAX then (st_prev s)((sw, pp_port_no p) \<mapsto> floods d sw ports (pp_port_no p)) else st_prev s) \<and>
    (\<forall>sw'. sw' \<noteq> sw \<longrightarrow> st_connections s' sw' = st_connections s sw')"
proof -
  let ?n = "pp_port_no p" and ?v = "floods d sw ports (pp_port_no p)"
  consider "\<not> ?n < OFPP_MAX" | "?n < OFPP_MAX" "st_prev s (sw, ?n) = Some ?v" | "?n < OFPP_MAX" "st_prev s (sw, ?n) \<noteq> Some ?v" by blast
  then show ?thesis
  proof cases
    case 3
    obtain c where c: "st_connections s sw = Some c" "con_features c = Some f"
      using assms(2) by (auto simp: st_features_def split: option.splits)
    have w: "hw_text_safe (pp_hw_addr p)" "0 \<le> ?n" "0 \<le> st_next_XID s" "st_next_XID s \<le> MAX_XID"
      using assms(1,3) c by (fastforce simp: st_ok_def features_ok_def)+
    obtain b m where b: "ofp_port_mod_pack True (flood_mod p ?v) (st_next_XID s) = Inr (Some b, m, next_xid (st_next_XID s))" "asks b = Some (?n, ?v)"
      using flood_mod_packs [OF w(1,2) 3(1) w(3,4)] by blast
    define c' where "c' = (if con_disconnected c then c\<lparr>next_XID := st_next_XID s\<rparr>
        else c\<lparr>con_sent := con_sent c @ [b], next_XID := next_xid (st_next_XID s)\<rparr>)"
    let ?s = "s\<lparr>st_prev := (st_prev s)((sw, ?n) \<mapsto> ?v), st_connections := (st_connections s)(sw \<mapsto> c'), st_next_XID := next_XID c'\<rparr>"
    have r: "set_port d sw ports p s = (None, ?s)"
      using 3 c b(1) by (simp add: set_port_def Let_def st_send_def con_send_def c'_def)
    have c'f: "con_features c' = Some f" "con_disconnected c' = con_disconnected c" "0 \<le> next_XID c'" "next_XID c' \<le> MAX_XID"
      using c(2) w(3,4) next_xid_range by (simp_all add: c'_def)
    have feat: "st_features ?s = st_features s" using c c'f(1) by (auto simp: st_features_def fun_eq_iff)
    have "\<forall>p \<in> set (fr_ports f). hw_text_safe (pp_hw_addr p) \<and> 0 \<le> pp_port_no p"
      using assms(1) c unfolding st_ok_def features_ok_def by (metis option.inject)
    then have "features_ok ?s" using assms(1) c'f unfolding st_ok_def features_ok_def by simp
    moreover have "st_mirror ?s"
    proof -
      have old: "\<exists>c. st_connections s sw' = Some c \<and> (con_disconnected c \<or> asked (con_sent c) n = Some v)"
        if "st_prev s (sw', n) = Some v" for sw' n v using assms(1) that by (simp add: st_ok_def st_mirror_def)
      have sent: "con_disconnected c' \<or> asked (con_sent c') = (asked (con_sent c))(?n \<mapsto> ?v)"
        using b(2) by (simp add: c'_def asked_snoc)
      show ?thesis
        unfolding st_mirror_def
      proof (intro allI impI)
        fix sw' n v
        assume "st_prev ?s (sw', n) = Some v"
        then consider "sw' = sw" "n = ?n" "v = ?v" | "(sw', n) \<noteq> (sw, ?n)" "st_prev s (sw', n) = Some v"
          by (cases "(sw', n) = (sw, ?n)") auto
        then show "\<exists>c. st_connections ?s sw' = Some c \<and> (con_disconnected c \<or> asked (con_sent c) n = Some v)"
        proof cases
          case 1
          then show ?thesis using sent by auto
        next
          case 2
          then show ?thesis using old [OF 2(2)] sent c(1) c'f(2) by (cases "sw' = sw") auto
        qed
      qed
    qed
    ultimately show ?thesis using r feat 3(1) by (auto simp: st_ok_def)
  qed (use assms in \<open>auto simp: set_port_def Let_def fun_upd_idem\<close>)
qed

text \<open>One switch: the numbers of its ports that are no virtual ports.\<close>

definition real_ports :: "ofp_features_reply \<Rightarrow> int set" where
  "real_ports f = {n \<in> pp_port_no ` set (fr_ports f). n < OFPP_MAX}"

lemma set_ports_ok:
  assumes "st_ok s" "st_features s sw = Some f" "set ps \<subseteq> set (fr_ports f)"
  shows "\<exists>s'. seq (map (set_port d sw ports) ps) s = (None, s') \<and> st_ok s' \<and> st_features s' = st_features s \<and>
    st_prev s' = (\<lambda>(x, n). if x = sw \<and> n \<in> pp_port_no ` set ps \<and> n < OFPP_MAX then Some (floods d sw ports n) else st_prev s (x, n)) \<and>
    (\<forall>sw'. sw' \<noteq> sw \<longrightarrow> st_connections s' sw' = st_connections s sw')"
  using assms
proof (induction ps arbitrary: s)
  case (Cons p ps)
  have sub: "p \<in> set (fr_ports f)" "set ps \<subseteq> set (fr_ports f)" using Cons.prems(3) by auto
  obtain s1 where s1: "set_port d sw ports p s = (None, s1)" "st_ok s1" "st_features s1 = st_features s"
    "st_prev s1 = (if pp_port_no p < OFPP_MAX then (st_prev s)((sw, pp_port_no p) \<mapsto> floods d sw ports (pp_port_no p)) else st_prev s)"
    "\<forall>sw'. sw' \<noteq> sw \<longrightarrow> st_connections s1 sw' = st_connections s sw'"
    using set_port_ok [OF Cons.prems(1,2) sub(1), of d ports] by blast
  obtain s2 where s2: "seq (map (set_port d sw ports) ps) s1 = (None, s2)" "st_ok s2" "st_features s2 = st_features s1"
    "st_prev s2 = (\<lambda>(x, n). if x = sw \<and> n \<in> pp_port_no ` set ps \<and> n < OFPP_MAX then Some (floods d sw ports n) else st_prev s1 (x, n))"
    "\<forall>sw'. sw' \<noteq> sw \<longrightarrow> st_connections s2 sw' = st_connections s1 sw'"
    using Cons.IH [OF s1(2) _ sub(2)] Cons.prems(2) s1(3) by metis
  have "st_prev s2 = (\<lambda>(x, n). if x = sw \<and> n \<in> pp_port_no ` set (p # ps) \<and> n < OFPP_MAX then Some (floods d sw ports n) else st_prev s (x, n))"
    unfolding s2(4) s1(4) by (auto simp: fun_eq_iff)
  then show ?case using s1 s2 by auto
qed (auto simp: fun_eq_iff)

lemma set_switch_ok:
  assumes "st_ok s"
  shows "\<exists>s'. set_switch d t sw s = (None, s') \<and> st_ok s' \<and> st_features s' = st_features s \<and>
    st_prev s' = (\<lambda>(x, n). case (st_features s sw, t sw) of
        (Some f, Some ports) \<Rightarrow> if x = sw \<and> n \<in> real_ports f then Some (floods d sw ports n) else st_prev s (x, n)
      | _ \<Rightarrow> st_prev s (x, n)) \<and>
    (\<forall>sw'. sw' \<noteq> sw \<longrightarrow> st_connections s' sw' = st_connections s sw')"
proof (cases "st_connections s sw")
  case None
  then show ?thesis using assms by (auto simp: set_switch_def st_features_def fun_eq_iff)
next
  case (Some c)
  then obtain f where f: "con_features c = Some f" using assms unfolding st_ok_def features_ok_def by blast
  then have sf: "st_features s sw = Some f" using Some by (simp add: st_features_def)
  show ?thesis
  proof (cases "t sw")
    case None
    then show ?thesis using assms Some f sf by (auto simp: set_switch_def fun_eq_iff)
  next
    case t: (Some ports)
    show ?thesis
      using set_ports_ok [OF assms sf subset_refl, of d ports] Some f sf t by (auto simp: set_switch_def real_ports_def fun_eq_iff)
  qed
qed

lemma set_switches_ok:
  assumes "st_ok s"
  shows "\<exists>s'. seq (map (set_switch d t) keys) s = (None, s') \<and> st_ok s' \<and> st_features s' = st_features s \<and>
    (\<forall>x n. st_prev s' (x, n) = (case (st_features s x, t x) of
        (Some f, Some ports) \<Rightarrow> if x \<in> set keys \<and> n \<in> real_ports f then Some (floods d x ports n) else st_prev s (x, n)
      | _ \<Rightarrow> st_prev s (x, n))) \<and>
    (\<forall>sw'. sw' \<notin> set keys \<longrightarrow> st_connections s' sw' = st_connections s sw')"
  using assms
proof (induction keys arbitrary: s)
  case Nil
  then show ?case by (auto split: option.split)
next
  case (Cons k keys)
  obtain s1 where s1: "set_switch d t k s = (None, s1)" "st_ok s1" "st_features s1 = st_features s"
    "st_prev s1 = (\<lambda>(x, n). case (st_features s k, t k) of
        (Some f, Some ports) \<Rightarrow> if x = k \<and> n \<in> real_ports f then Some (floods d k ports n) else st_prev s (x, n)
      | _ \<Rightarrow> st_prev s (x, n))"
    "\<forall>sw'. sw' \<noteq> k \<longrightarrow> st_connections s1 sw' = st_connections s sw'"
    using set_switch_ok [OF Cons.prems] by blast
  obtain s2 where s2: "seq (map (set_switch d t) keys) s1 = (None, s2)" "st_ok s2" "st_features s2 = st_features s1"
    "\<forall>x n. st_prev s2 (x, n) = (case (st_features s1 x, t x) of
        (Some f, Some ports) \<Rightarrow> if x \<in> set keys \<and> n \<in> real_ports f then Some (floods d x ports n) else st_prev s1 (x, n)
      | _ \<Rightarrow> st_prev s1 (x, n))"
    "\<forall>sw'. sw' \<notin> set keys \<longrightarrow> st_connections s2 sw' = st_connections s1 sw'"
    using Cons.IH [OF s1(2)] by blast
  have "st_prev s2 (x, n) = (case (st_features s x, t x) of
        (Some f, Some ports) \<Rightarrow> if x \<in> set (k # keys) \<and> n \<in> real_ports f then Some (floods d x ports n) else st_prev s (x, n)
      | _ \<Rightarrow> st_prev s (x, n))" for x n
    using s2(4) s1(3,4) by (cases "x = k"; cases "st_features s x"; cases "t x"; cases "st_features s k"; cases "t k") auto
  then show ?case using s1 s2 by auto
qed

text \<open>The handler, when the calculation succeeds.\<close>

lemma st_handle_ok:
  assumes "st_ok s" "calc_spanning_tree order ord (map fst (dc_adjacency d)) = Some (Inr t)" "set keys = dom t"
  shows "\<exists>s'. st_handle order ord keys d s = Some (None, s') \<and> st_ok s' \<and> st_features s' = st_features s \<and>
    (\<forall>x n. st_prev s' (x, n) = (case (st_features s x, t x) of
        (Some f, Some ports) \<Rightarrow> if n \<in> real_ports f then Some (floods d x ports n) else st_prev s (x, n)
      | _ \<Rightarrow> st_prev s (x, n))) \<and>
    (\<forall>x. t x = None \<longrightarrow> st_connections s' x = st_connections s x)"
proof -
  obtain s' where s': "seq (map (set_switch d t) keys) s = (None, s')" "st_ok s'" "st_features s' = st_features s"
    "\<forall>x n. st_prev s' (x, n) = (case (st_features s x, t x) of
        (Some f, Some ports) \<Rightarrow> if x \<in> set keys \<and> n \<in> real_ports f then Some (floods d x ports n) else st_prev s (x, n)
      | _ \<Rightarrow> st_prev s (x, n))"
    "\<forall>sw'. sw' \<notin> set keys \<longrightarrow> st_connections s' sw' = st_connections s sw'"
    using set_switches_ok [OF assms(1)] by blast
  have "st_prev s' (x, n) = (case (st_features s x, t x) of
        (Some f, Some ports) \<Rightarrow> if n \<in> real_ports f then Some (floods d x ports n) else st_prev s (x, n)
      | _ \<Rightarrow> st_prev s (x, n))" for x n
    using s'(4) assms(3) by (cases "st_features s x"; cases "t x") auto
  moreover have "st_handle order ord keys d s = Some (None, s')" using assms(2) s'(1) by (simp add: st_handle_def)
  moreover have "\<forall>x. t x = None \<longrightarrow> st_connections s' x = st_connections s x" using s'(5) assms(3) by (metis domIff)
  ultimately show ?thesis using s'(2,3) by blast
qed

lemma told:
  assumes "st_ok s" "st_prev s (x, n) = Some v" "st_connections s x = Some c" "\<not> con_disconnected c"
  shows "asked (con_sent c) n = Some v"
  using assms unfolding st_ok_def st_mirror_def by fastforce

end
