(* ===== verification/L2_Learning.thy ===== *)
theory L2_Learning
  imports Complex_Main OF_System
begin

text \<open>
  \<^verbatim>\<open>forwarding/l2_learning.py\<close>: the learning switch. The handler of packet-ins parses the frame, learns the
  port of its source and answers with at most one message. The lemmas show that the handler carries out
  an abstract decision, what the table holds after any run, and what the answer does on the switch.
\<close>

subsection \<open>State and answers\<close>

record learning_switch =
  ls_connection :: connection
  ls_transparent :: bool
  ls_macToPort :: "hw \<rightharpoonup> int"

abbreviation (input) FLOOD_DELAY :: rat where "FLOOD_DELAY \<equiv> 5"

definition LearningSwitch_init :: "connection \<Rightarrow> bool \<Rightarrow> learning_switch" where
  "LearningSwitch_init connection transparent =
     \<lparr>ls_connection = connection, ls_transparent = transparent, ls_macToPort = Map.empty\<rparr>"

definition ls_send :: "(int \<Rightarrow> (bytes option \<times> 'a ofp_header_scheme \<times> int) result) \<Rightarrow> learning_switch stmt" where
  "ls_send pack s = (let (e, c) = con_send pack (\<lambda>_ c. c) (ls_connection s) in (e, s\<lparr>ls_connection := c\<rparr>))"

text \<open>The messages that answer a packet-in: packet-outs with its buffer and flow-mods.\<close>

definition answer_out :: "ofp_packet_in \<Rightarrow> ofp_action list \<Rightarrow> ofp_packet_out" where
  "answer_out ofp actions = (ofp_packet_out_init (\<lambda>m. m))
     \<lparr>po_actions := actions, po_buffer_id := pi_buffer_id ofp, po_in_port := pi_in_port ofp\<rparr>"

definition answer_flow :: "ofp_packet_in \<Rightarrow> ofp_match \<Rightarrow> int \<Rightarrow> int \<Rightarrow> ofp_action list \<Rightarrow> ofp_flow_mod" where
  "answer_flow ofp match idle hard actions = (ofp_flow_mod_init (\<lambda>m. m))
     \<lparr>fm_match := match, fm_idle_timeout := idle, fm_hard_timeout := hard, fm_actions := actions,
      fm_buffer_id := Some (pi_buffer_id ofp)\<rparr>"

text \<open>Flooding is held down while the connection is young; then the buffered packet is dropped.\<close>

definition l2_flood :: "rat \<Rightarrow> ofp_packet_in \<Rightarrow> learning_switch stmt" where
  "l2_flood now ofp s =
     (if pi_buffer_id ofp = -1 then (None, s)
      else case con_connect_time (ls_connection s) of
        None \<Rightarrow> (Some TypeError, s)
      | Some t \<Rightarrow>
          ls_send (ofp_packet_out_pack True
            (answer_out ofp (if now - t > FLOOD_DELAY then [output_action OFPP_FLOOD] else []))) s)"

text \<open>\<^verbatim>\<open>drop\<close>, with the durations for which similar packets are dropped, or without.\<close>

definition l2_drop :: "(int \<times> int) option \<Rightarrow> ofp_packet_in \<Rightarrow> ethernet \<Rightarrow> 'o payload \<Rightarrow> learning_switch stmt" where
  "l2_drop duration ofp packet nxt s =
     (case duration of
        Some (idle, hard) \<Rightarrow>
          (case from_packet packet nxt None of
             Inl e \<Rightarrow> (Some e, s)
           | Inr match \<Rightarrow> ls_send (ofp_flow_mod_pack True (answer_flow ofp match idle hard [])) s)
      | None \<Rightarrow>
          if pi_buffer_id ofp \<noteq> -1 then ls_send (ofp_packet_out_pack True (answer_out ofp [])) s
          else (None, s))"

definition hw_test :: "(EthAddr \<Rightarrow> bool result) \<Rightarrow> hw \<Rightarrow> bool result" where
  "hw_test f h = (case h of HwEth e \<Rightarrow> f e | HwBytes _ \<Rightarrow> Inl AttributeError)"

text \<open>Steps 2 to 6 of the algorithm, behind the learning.\<close>

definition l2_forward :: "rat \<Rightarrow> ofp_packet_in \<Rightarrow> ethernet \<Rightarrow> 'o payload \<Rightarrow> learning_switch stmt" where
  "l2_forward now ofp packet nxt s =
     (case (if ls_transparent s then Inr False
            else if e_type packet = 0x88cc then Inr True
            else hw_test isBridgeFiltered (e_dst packet)) of
        Inl e \<Rightarrow> (Some e, s)
      | Inr True \<Rightarrow> l2_drop None ofp packet nxt s
      | Inr False \<Rightarrow>
          (case hw_test isMulticast (e_dst packet) of
             Inl e \<Rightarrow> (Some e, s)
           | Inr True \<Rightarrow> l2_flood now ofp s
           | Inr False \<Rightarrow>
               (case ls_macToPort s (e_dst packet) of
                  None \<Rightarrow> l2_flood now ofp s
                | Some port \<Rightarrow>
                    if port = pi_in_port ofp then l2_drop (Some (10, 10)) ofp packet nxt s
                    else case from_packet packet nxt None of
                      Inl e \<Rightarrow> (Some e, s)
                    | Inr match \<Rightarrow>
                        ls_send (ofp_flow_mod_pack True (answer_flow ofp match 10 30 [output_action port])) s)))"

definition l2_PacketIn :: "'o packet_env \<Rightarrow> rat \<Rightarrow> ofp_packet_in \<Rightarrow> learning_switch stmt" where
  "l2_PacketIn env now ofp s =
     (case event_parse env ofp of
        Inl e \<Rightarrow> (Some e, s)
      | Inr (PEthernet packet nxt) \<Rightarrow>
          l2_forward now ofp packet nxt
            (s\<lparr>ls_macToPort := (ls_macToPort s)(e_src packet \<mapsto> pi_in_port ofp)\<rparr>)
      | Inr _ \<Rightarrow> (None, s))"

subsection \<open>What is learned\<close>

lemma ls_send_table [simp]:
  "ls_macToPort (snd (ls_send p s)) = ls_macToPort s" "ls_transparent (snd (ls_send p s)) = ls_transparent s"
  by (simp_all add: ls_send_def case_prod_unfold Let_def)

lemma l2_forward_table [simp]:
  "ls_macToPort (snd (l2_forward now ofp h n s)) = ls_macToPort s"
  "ls_transparent (snd (l2_forward now ofp h n s)) = ls_transparent s"
  by (auto simp: l2_forward_def l2_flood_def l2_drop_def split: sum.split bool.split option.split)

text \<open>The source and port of a packet-in that parses.\<close>

definition seen :: "'o packet_env \<Rightarrow> ofp_packet_in \<Rightarrow> (hw \<times> int) option" where
  "seen env ofp = (case event_parse env ofp of Inr (PEthernet h n) \<Rightarrow> Some (e_src h, pi_in_port ofp) | _ \<Rightarrow> None)"

lemma l2_learns:
  "ls_macToPort (snd (l2_PacketIn env now ofp s)) =
     (case seen env ofp of None \<Rightarrow> ls_macToPort s | Some (a, p) \<Rightarrow> (ls_macToPort s)(a \<mapsto> p))"
  by (auto simp: l2_PacketIn_def seen_def split: sum.split packet.split)

text \<open>A run: packet-ins at their times, one after the other, whether or not a handler raises.\<close>

definition l2_run :: "'o packet_env \<Rightarrow> (rat \<times> ofp_packet_in) list \<Rightarrow> learning_switch \<Rightarrow> learning_switch" where
  "l2_run env evs s = fold (\<lambda>(now, ofp) s. snd (l2_PacketIn env now ofp s)) evs s"

lemma l2_run_table:
  "ls_macToPort (l2_run env evs s) = ls_macToPort s ++ map_of (rev (List.map_filter (seen env) (map snd evs)))"
proof (induction evs rule: rev_induct)
  case (snoc ev evs)
  then show ?case
    by (cases ev) (auto simp: l2_run_def l2_learns List.map_filter_def split: option.split)
qed (simp add: l2_run_def List.map_filter_def)

subsection \<open>Decision and answer\<close>

text \<open>The algorithm of the class comment as a decision, for a frame that has proper addresses.\<close>

datatype verdict = Drop | DropFor int | Flood | Forward int

definition decide :: "bool \<Rightarrow> (hw \<rightharpoonup> int) \<Rightarrow> ethernet \<Rightarrow> int \<Rightarrow> verdict" where
  "decide transparent table packet port =
     (if \<not> transparent \<and> (e_type packet = 0x88cc \<or> hw_test isBridgeFiltered (e_dst packet) = Inr True) then Drop
      else if hw_test isMulticast (e_dst packet) = Inr True then Flood
      else case table (e_dst packet) of
        None \<Rightarrow> Flood
      | Some p \<Rightarrow> if p = port then DropFor 10 else Forward p)"

definition carry_out :: "rat \<Rightarrow> ofp_packet_in \<Rightarrow> ethernet \<Rightarrow> 'o payload \<Rightarrow> verdict \<Rightarrow> learning_switch stmt" where
  "carry_out now ofp packet nxt v =
     (case v of
        Drop \<Rightarrow> l2_drop None ofp packet nxt
      | DropFor d \<Rightarrow> l2_drop (Some (d, d)) ofp packet nxt
      | Flood \<Rightarrow> l2_flood now ofp
      | Forward p \<Rightarrow> (\<lambda>s. case from_packet packet nxt None of
            Inl e \<Rightarrow> (Some e, s)
          | Inr match \<Rightarrow> ls_send (ofp_flow_mod_pack True (answer_flow ofp match 10 30 [output_action p])) s))"

lemma hw_test_ok:
  assumes "hw_wire a"
  shows "\<exists>b. hw_test isMulticast a = Inr b" "\<exists>b. hw_test isBridgeFiltered a = Inr b"
  using assms by (auto simp: hw_wire_def hw_test_def eth_ok_def isMulticast_def isBridgeFiltered_def byte_at_def Let_def)

lemma l2_forward_decides:
  assumes "hw_wire (e_dst packet)"
  shows "l2_forward now ofp packet nxt s =
    carry_out now ofp packet nxt (decide (ls_transparent s) (ls_macToPort s) packet (pi_in_port ofp)) s"
  using hw_test_ok [OF assms]
  by (auto simp: l2_forward_def decide_def carry_out_def split: option.split bool.split)

subsection \<open>The match of a packet with and without its port\<close>

text \<open>Two matches that differ at most in the port, which the first leaves open.\<close>

definition all_but_port :: "ofp_match \<Rightarrow> ofp_match \<Rightarrow> bool" where
  "all_but_port a b \<longleftrightarrow> int_get F_in_port a = None \<and> (\<forall>f. f \<noteq> F_in_port \<longrightarrow> int_get f a = int_get f b) \<and>
     (\<forall>h. hw_get h a = hw_get h b) \<and> (\<forall>s. nw_get s a = nw_get s b \<and> (fst (nw_get s b) = None \<or> snd (nw_get s b) = 32))"

lemma all_but_port_int: "f \<noteq> F_in_port \<Longrightarrow> all_but_port a b \<Longrightarrow> all_but_port (int_set f v a) (int_set f v b)"
  by (auto simp: all_but_port_def int_get_set)

lemma all_but_port_hw: "all_but_port a b \<Longrightarrow> all_but_port (hw_set h v a) (hw_set h v b)"
  by (auto simp: all_but_port_def hw_get_set)

lemma all_but_port_nw:
  assumes "all_but_port a b" "nw_ok x" "nw_set s (Some x) None a = Inr a'"
  shows "\<exists>b'. nw_set s (Some x) None b = Inr b' \<and> all_but_port a' b'"
proof -
  obtain b' where b': "nw_set s (Some x) None b = Inr b'" using nw_set_ok [OF assms(2)] by blast
  have x: "case x of IpInt _ \<Rightarrow> True | IpObj _ \<Rightarrow> True | _ \<Rightarrow> False" using assms(2) by (cases x) simp_all
  have "all_but_port a' b'"
    unfolding all_but_port_def
  proof (intro conjI allI impI)
    fix t
    show "nw_get t a' = nw_get t b'" "fst (nw_get t b') = None \<or> snd (nw_get t b') = 32"
      using assms(1) nw_set_gets(1,2) [OF x assms(3)] nw_set_gets(1,2) [OF x b'] by (cases "t = s"; simp add: all_but_port_def)+
  qed (use assms(1) nw_set_gets(3,4) [OF x assms(3)] nw_set_gets(3,4) [OF x b'] in \<open>auto simp: all_but_port_def\<close>)
  with b' show ?thesis by blast
qed

lemma all_but_port_l3:
  assumes "all_but_port a b" "headers_ok p" "match_l3 p a = Inr a'"
  shows "\<exists>b'. match_l3 p b = Inr b' \<and> all_but_port a' b'"
proof (cases p)
  case (PktNext k)
  show ?thesis
  proof (cases k)
    case (PIpv4 h n)
    with assms(2) PktNext have ok: "nw_ok (ip_srcip h)" "nw_ok (ip_dstip h)" by simp_all
    obtain a1 a2 where a: "nw_set F_nw_src (Some (ip_srcip h)) None a = Inr a1" "nw_set F_nw_dst (Some (ip_dstip h)) None a1 = Inr a2"
      using nw_set_ok [OF ok(1)] nw_set_ok [OF ok(2)] by blast
    obtain b1 where b1: "nw_set F_nw_src (Some (ip_srcip h)) None b = Inr b1" "all_but_port a1 b1"
      using all_but_port_nw [OF assms(1) ok(1) a(1)] by blast
    obtain b2 where b2: "nw_set F_nw_dst (Some (ip_dstip h)) None b1 = Inr b2" "all_but_port a2 b2"
      using all_but_port_nw [OF b1(2) ok(2) a(2)] by blast
    show ?thesis
      using assms(3) a b1(1) b2 PktNext PIpv4
      by (auto simp: match_l3_def Let_def intro!: all_but_port_int split: payload.split packet.split)
  next
    case (PArp h n)
    with assms(2) PktNext have ok: "nw_ok (a_protosrc h)" "nw_ok (a_protodst h)" by simp_all
    show ?thesis
    proof (cases "a_opcode h \<le> 255")
      case True
      let ?a = "int_set F_nw_proto (Some (a_opcode h)) a" and ?b = "int_set F_nw_proto (Some (a_opcode h)) b"
      obtain a1 a2 where a: "nw_set F_nw_src (Some (a_protosrc h)) None ?a = Inr a1" "nw_set F_nw_dst (Some (a_protodst h)) None a1 = Inr a2"
        using nw_set_ok [OF ok(1)] nw_set_ok [OF ok(2)] by blast
      have "all_but_port ?a ?b" by (rule all_but_port_int [OF _ assms(1)]) simp
      then obtain b1 where b1: "nw_set F_nw_src (Some (a_protosrc h)) None ?b = Inr b1" "all_but_port a1 b1"
        using all_but_port_nw [OF _ ok(1) a(1)] by blast
      obtain b2 where b2: "nw_set F_nw_dst (Some (a_protodst h)) None b1 = Inr b2" "all_but_port a2 b2"
        using all_but_port_nw [OF b1(2) ok(2) a(2)] by blast
      show ?thesis using assms(3) a b1(1) b2 PktNext PArp True by (simp add: match_l3_def Let_def)
    qed (use assms PktNext PArp in \<open>simp add: match_l3_def\<close>)
  qed (use assms PktNext in \<open>simp_all add: match_l3_def\<close>)
qed (use assms in \<open>simp_all add: match_l3_def\<close>)

lemma nw_get_new: "nw_get F_nw_src ofp_match_new = (None, 0)" "nw_get F_nw_dst ofp_match_new = (None, 0)"
  by code_simp+

lemma int_get_new: "int_get f ofp_match_new = None"
proof -
  have "\<forall>f \<in> {F_in_port, F_dl_vlan, F_dl_vlan_pcp, F_dl_type, F_nw_tos, F_nw_proto, F_tp_src, F_tp_dst}. int_get f ofp_match_new = None"
    by code_simp
  then show ?thesis by (cases f) simp_all
qed

lemma from_packet_ports:
  assumes "from_packet packet nxt None = Inr a" "headers_ok nxt"
  shows "\<exists>b. from_packet packet nxt (Some p) = Inr b \<and> all_but_port a b"
proof -
  have new: "all_but_port ofp_match_new (int_set F_in_port (Some p) ofp_match_new)"
    unfolding all_but_port_def
  proof (intro conjI allI impI)
    show "fst (nw_get s (int_set F_in_port (Some p) ofp_match_new)) = None \<or> snd (nw_get s (int_set F_in_port (Some p) ofp_match_new)) = 32" for s
      by (cases s) (simp_all add: nw_get_new)
  qed (simp_all add: int_get_new int_get_set)
  let ?l2 = "\<lambda>m. int_set F_dl_type (Some (e_type packet)) (hw_set F_dl_dst (Some (e_dst packet)) (hw_set F_dl_src (Some (e_src packet)) m))"
  have l2: "all_but_port (?l2 ofp_match_new) (?l2 (int_set F_in_port (Some p) ofp_match_new))"
    by (intro all_but_port_int all_but_port_hw new) simp
  let ?v = "\<lambda>v m. int_set F_dl_vlan_pcp (Some (v_pcp v)) (int_set F_dl_vlan (Some (v_id v)) (int_set F_dl_type (Some (v_eth_type v)) m))"
  let ?u = "\<lambda>m. int_set F_dl_vlan_pcp (Some 0) (int_set F_dl_vlan (Some OFP_VLAN_NONE) m)"
  have vl: "all_but_port (?v v (?l2 ofp_match_new)) (?v v (?l2 (int_set F_in_port (Some p) ofp_match_new)))" for v
    by (intro all_but_port_int l2) simp_all
  have ul: "all_but_port (?u (?l2 ofp_match_new)) (?u (?l2 (int_set F_in_port (Some p) ofp_match_new)))"
    by (intro all_but_port_int l2) simp_all
  show ?thesis
  proof (cases "\<exists>v n. nxt = PktNext (PVlan v n)")
    case True
    then obtain v n where n: "nxt = PktNext (PVlan v n)" by blast
    have "match_l3 n (?v v (?l2 ofp_match_new)) = Inr a" "headers_ok n"
      using assms by (simp_all add: n from_packet_def)
    from all_but_port_l3 [OF vl this(2,1)] show ?thesis by (simp add: n from_packet_def)
  next
    case False
    then have f: "from_packet packet nxt q = match_l3 nxt (?u (?l2 (case q of None \<Rightarrow> ofp_match_new | Some p \<Rightarrow> int_set F_in_port (Some p) ofp_match_new)))" for q
      by (auto simp: from_packet_def Let_def split: payload.split packet.split)
    have "match_l3 nxt (?u (?l2 ofp_match_new)) = Inr a" using assms(1) by (simp add: f)
    from all_but_port_l3 [OF ul assms(2) this] show ?thesis by (simp add: f)
  qed
qed

text \<open>What such a match says after the wire covers every port's match.\<close>

lemma all_but_port_covers:
  assumes "all_but_port a b" "match_ok a" "match_ok b"
  shows "match_covers (wire_form True a) b"
  unfolding match_covers_def
proof (intro conjI allI)
  fix f
  show "field_covers (int_get f (wire_form True a)) (int_get f b)"
    using assms(1) by (cases "f = F_in_port") (auto simp: field_covers_def int_get_wire_form all_but_port_def)
next
  fix h
  have "hw_val h (wire_form True a) = hw_val h b"
    using assms(1) by (simp add: hw_val_def hw_get_wire_form [OF assms(2)] all_but_port_def)
  then show "field_covers (hw_val h (wire_form True a)) (hw_val h b)" by (simp add: field_covers_def)
next
  fix s
  have v: "nw_val s a = nw_val s b" using assms(1) by (simp add: nw_val_def all_but_port_def)
  have "prefix_covers (nw_val s b) (nw_val s b)"
    using assms(1) by (cases "nw_get s b") (auto simp: prefix_covers_def nw_val_def all_but_port_def split: option.splits dest: spec [of _ s])
  then show "prefix_covers (nw_val s (wire_form True a)) (nw_val s b)"
    by (simp add: nw_val_wire_form(1) [OF assms(2)] v prefix_covers_def)
qed

subsection \<open>The answer on the wire\<close>

lemma flow_mod_framed:
  assumes "ofp_flow_mod_pack True i nx = Inr (Some b, m, nx')" "match_ok (fm_match i)" "fm_buffer_ok i"
    "\<forall>a \<in> set (fm_actions i). action_wf a" "version i = OFP_VERSION" "header_type i = OFPT_FLOW_MOD"
  shows "framed b (OFPT_FLOW_MOD, MFlowMod (m\<lparr>fm_match := wire_form True (fm_match i)\<rparr>))"
proof -
  note rt = flow_mod_unpack_pack [OF assms(1-4)]
  have "has_header b (version i) (header_type i) (hlength m)"
    using assms(1) by (auto simp: ofp_flow_mod_pack_def codec Let_def split: if_splits elim!: ofp_header_pack_Inr intro: has_headerI)
  then show ?thesis
    using rt assms(5,6) by (intro header_framed [OF _ blank_msgs(15)]) (simp_all add: msg_result_def)
qed

lemma answer_flow_packs:
  assumes "ofp_match_pack True True a = Inr x" "0 \<le> nx" "nx \<le> MAX_XID" "0 \<le> idle" "idle < 65536" "0 \<le> hard" "hard < 65536"
    "0 \<le> p" "p < 65536"
  shows "\<exists>b m acts. ofp_flow_mod_pack True (answer_flow ofp a idle hard [output_action p]) nx = Inr (Some b, m, next_xid nx) \<and>
    fm_match m = a \<and> fm_command m = OFPFC_ADD \<and> supported m \<and> fm_buffer_id m = Some (pi_buffer_id ofp) \<and> outputs_to p (fm_actions m) \<and>
    fm_idle_timeout m = idle \<and> fm_hard_timeout m = hard"
proof -
  let ?i = "answer_flow ofp a idle hard [output_action p]"
  have t: "ofp_type_map OFPT_FLOW_MOD \<noteq> None" by code_simp
  have i: "xid ?i = None" "version ?i = OFP_VERSION" "header_type ?i = OFPT_FLOW_MOD" "fm_match ?i = a" "fm_command ?i = OFPFC_ADD"
    "fm_flags ?i = 0" "fm_out_port ?i = OFPP_NONE" "fm_buffer_id ?i = Some (pi_buffer_id ofp)" "fm_actions ?i = [output_action p]"
    "fm_idle_timeout ?i = idle" "fm_hard_timeout ?i = hard" "fm_cookie ?i = 0" "fm_priority ?i = OFP_DEFAULT_PRIORITY"
    by (simp_all add: answer_flow_def ofp_flow_mod_init_def)
  let ?j = "?i\<lparr>hlength := ofp_flow_mod_len ?i\<rparr>"
  have la: "ofp_action_len (output_action p) = 8" by (simp add: output_action_def ofp_action_output_len_def)
  have l: "0 \<le> hlength ?j" "hlength ?j < 65536"
    by (simp_all add: ofp_flow_mod_len_def i(9) actions_len_def ofp_match_len_def la)
  have j: "xid ?j = None" "version ?j = OFP_VERSION" "header_type ?j = OFPT_FLOW_MOD" using i by simp_all
  obtain h where h: "ofp_header_pack True ?j nx = Inr (h, ?j\<lparr>xid := Some nx\<rparr>, next_xid nx)"
    using header_pack_fresh [of ?j nx] t l assms(2,3) j by auto
  have "0 \<le> pi_buffer_id ofp AND 0xffffffff" "pi_buffer_id ofp AND 0xffffffff < 4294967296"
    using and_mask32 [of "pi_buffer_id ofp"] by (simp_all add: mask32_def)
  then obtain y where y: "struct_pack ''!QHHHHLHH'' (flow_mod_mid (?j\<lparr>xid := Some nx\<rparr>) (pi_buffer_id ofp AND 0xffffffff)) = Inr y"
    using assms(4-7) i by (simp add: flow_mod_mid_def struct_pack.simps code_min_def code_max_def code_signed_def)
  obtain z ac where z: "pack_actions True [output_action p] = Inr (z, ac)" "outputs_to p ac"
    using pack_output_action [OF assms(8,9)] by blast
  have "ofp_flow_mod_pack True ?i nx = Inr (Some (h @ x @ y @ z), ?j\<lparr>xid := Some nx, fm_actions := ac\<rparr>, next_xid nx)"
    using h assms(1) y z i by (simp add: ofp_flow_mod_pack_def Let_def assert_true_def mask_arg_def)
  then show ?thesis using i z(2) by (simp add: supported_def)
qed

subsection \<open>The answer on the switch\<close>

lemma find_inserted:
  assumes "\<forall>y \<in> set es. \<not> P y" "P e"
  shows "find P (insert_entry e es) = Some e"
proof -
  have "find P (xs @ e # ys) = Some e" if "\<forall>y \<in> set xs. \<not> P y" for xs ys
    using that assms(2) by (induction xs) auto
  then show ?thesis using assms(1) by (auto simp: insert_entry_def dest: set_takeWhileD)
qed

text \<open>An ADD whose match covers a packet without an entry gives that packet its entry.\<close>

lemma added_entry_found:
  assumes "table_ok t" "match_ok (fm_match fm)" "supported fm" "fm_command fm = OFPFC_ADD"
    "from_packet h n (Some in_port) = Inr b" "match_ok b" "entry_for_packet t h n in_port = Inr None" "match_covers (fm_match fm) b"
  shows "\<exists>r t' e. process_flow_mod fm now t = Inr (r, t') \<and> table_ok t' \<and> entry_for_packet t' h n in_port = Inr (Some e) \<and> te_actions e = fm_actions fm"
proof -
  let ?removed = "filter (selected fm True) (ft_table t)" and ?kept = "filter (\<lambda>e. \<not> selected fm True e) (ft_table t)"
  let ?e = "from_flow_mod (ft_next t) fm now"
  let ?k = "raise_modification [] ?removed (t\<lparr>ft_table := ?kept\<rparr>)"
  let ?t = "add_flow_mod fm now ?k"
  have p: "process_flow_mod fm now t = Inr ((''added'', None), ?t)" by (simp add: process_add [OF assms(1-4)] Let_def)
  have ok: "table_ok ?t" by (rule process_flow_mod_ok [OF assms(1,2) p])
  have k: "table_ok ?k" using assms(1) by (rule table_ok_sub) simp_all
  have tab: "ft_table ?t = insert_entry ?e ?kept" using add_flow_mod_table(1) [OF k] by simp
  have fe: "find_entry b (ft_table t') = Inr (find (entry_applies b) (ft_table t'))" if "table_ok t'" for t'
    using that assms(6) by (intro find_entry_eq) (auto simp: table_okD)
  have "find (entry_applies b) (ft_table t) = None"
    using assms(5,7) fe [OF assms(1)] by (simp add: entry_for_packet_def)
  then have "\<forall>y \<in> set ?kept. \<not> entry_applies b y" by (auto simp: find_None_iff)
  moreover have "entry_applies b ?e" using assms(8) by (simp add: entry_applies_def)
  ultimately have "find (entry_applies b) (ft_table ?t) = Some ?e" unfolding tab by (rule find_inserted)
  then have "entry_for_packet ?t h n in_port = Inr (Some ?e)" using assms(5) fe [OF ok] by (simp add: entry_for_packet_def)
  with p ok show ?thesis by (intro exI [of _ "(''added'', None)"] exI [of _ ?t] exI [of _ ?e]) simp
qed

lemma learned_flow:
  assumes "sw_ok s" "entry_for_packet (sw_table s) h n in_port = Inr None" "hw_wire (e_src h)" "hw_wire (e_dst h)" "headers_ok n"
    "from_packet h n None = Inr a" "fm_match f = wire_form True a" "supported f" "fm_command f = OFPFC_ADD" "outputs_to p (fm_actions f)"
    "fm_buffer_id f = Some k" "1 \<le> k" "nat (k - 1) < length (sw_packet_buffer s)" "sw_packet_buffer s ! nat (k - 1) = Some (r, in_port)"
    "map_of (sw_ports s) p = Some port" "p < OFPP_MAX"
  shows "\<exists>t e. sw_handle env (MFlowMod f) s = (None, s\<lparr>sw_table := t, sw_out := sw_out s @ [(the (sw_frames s r), port)],
      sw_packet_buffer := (sw_packet_buffer s)[nat (k - 1) := None]\<rparr>) \<and>
    entry_for_packet t h n in_port = Inr (Some e) \<and> outputs_to p (te_actions e)"
proof -
  obtain b where b: "from_packet h n (Some in_port) = Inr b" "all_but_port a b"
    using from_packet_ports [OF assms(6,5)] by blast
  have ok: "match_ok a" "match_ok b"
    using from_packet_ok [OF assms(3-5), of None] from_packet_ok [OF assms(3-5), of "Some in_port"] assms(6) b(1) by auto
  have "match_ok (fm_match f)" using match_ok_wire_form [OF ok(1)] assms(7) by simp
  moreover have "match_covers (fm_match f) b" using all_but_port_covers [OF b(2) ok] assms(7) by simp
  moreover have "table_ok (sw_table s)" using assms(1) by (simp add: sw_ok_def)
  ultimately obtain q t e where t: "process_flow_mod f (se_time env) (sw_table s) = Inr (q, t)"
      "entry_for_packet t h n in_port = Inr (Some e)" "te_actions e = fm_actions f"
    using added_entry_found [OF _ _ assms(8,9) b(1) ok(2) assms(2), of "se_time env"] by blast
  have "process_from_buffer env (fm_actions f) k (s\<lparr>sw_table := t\<rparr>) = (None, s\<lparr>sw_table := t, sw_out := sw_out s @ [(the (sw_frames s r), port)],
      sw_packet_buffer := (sw_packet_buffer s)[nat (k - 1) := None]\<rparr>)"
    using from_buffer_output [of k "s\<lparr>sw_table := t\<rparr>" r in_port p port "fm_actions f" env] assms(10,12-16) by simp
  then have "sw_handle env (MFlowMod f) s = (None, s\<lparr>sw_table := t, sw_out := sw_out s @ [(the (sw_frames s r), port)],
      sw_packet_buffer := (sw_packet_buffer s)[nat (k - 1) := None]\<rparr>)"
    using t(1) assms(11,12) by (simp add: sw_handle_def receive_flow_mod_def positive_def)
  with t(2,3) show ?thesis using assms(10) by (intro exI [of _ t] exI [of _ e]) simp
qed

text \<open>The handler's answer to a frame whose destination is known behind another port.\<close>

lemma l2_answers:
  assumes "pi_data m = Some data" "ethernet_parse pe data = Inr (PEthernet h n)" "pi_in_port m = in_port"
    "hw_wire (e_dst h)" "decide (ls_transparent ls) ((ls_macToPort ls)(e_src h \<mapsto> in_port)) h in_port = Forward p"
    "from_packet h n None = Inr a" "ofp_match_pack True True a = Inr x" "match_ok a" "0 \<le> p" "p < 65536" "buffer_id_ok (pi_buffer_id m)"
    "\<not> con_disconnected (ls_connection ls)" "0 \<le> next_XID (ls_connection ls)" "next_XID (ls_connection ls) \<le> MAX_XID"
  shows "\<exists>b f ls'. l2_PacketIn pe now m ls = (None, ls') \<and> con_sent (ls_connection ls') = con_sent (ls_connection ls) @ [b] \<and>
    framed b (OFPT_FLOW_MOD, MFlowMod f) \<and> fm_match f = wire_form True a \<and> supported f \<and> fm_command f = OFPFC_ADD \<and>
    fm_buffer_id f = Some (pi_buffer_id m) \<and> outputs_to p (fm_actions f)"
proof -
  let ?ls = "ls\<lparr>ls_macToPort := (ls_macToPort ls)(e_src h \<mapsto> in_port)\<rparr>" and ?i = "answer_flow m a 10 30 [output_action p]"
  obtain b f where f: "ofp_flow_mod_pack True ?i (next_XID (ls_connection ls)) = Inr (Some b, f, next_xid (next_XID (ls_connection ls)))"
    "fm_match f = a" "fm_command f = OFPFC_ADD" "supported f" "fm_buffer_id f = Some (pi_buffer_id m)" "outputs_to p (fm_actions f)"
    using answer_flow_packs [OF assms(7,13,14) _ _ _ _ assms(9,10), of 10 30 m] by auto
  have i: "fm_match ?i = a" "fm_buffer_ok ?i" "\<forall>q \<in> set (fm_actions ?i). action_wf q" "version ?i = OFP_VERSION" "header_type ?i = OFPT_FLOW_MOD"
    using assms(11) by (simp_all add: answer_flow_def ofp_flow_mod_init_def fm_buffer_ok_def output_action_def ofp_action_output_init_def)
  have fr: "framed b (OFPT_FLOW_MOD, MFlowMod (f\<lparr>fm_match := wire_form True a\<rparr>))"
    using flow_mod_framed [OF f(1)] i assms(8) by simp
  have "l2_PacketIn pe now m ls = l2_forward now m h n ?ls" using assms(1-3) by (simp add: l2_PacketIn_def event_parse_def)
  also have "\<dots> = carry_out now m h n (Forward p) ?ls" using assms(3,5) by (simp add: l2_forward_decides [OF assms(4)])
  also have "\<dots> = ls_send (ofp_flow_mod_pack True ?i) ?ls" using assms(6) by (simp add: carry_out_def)
  also have "\<dots> = (None, ?ls\<lparr>ls_connection := (ls_connection ls)\<lparr>con_sent := con_sent (ls_connection ls) @ [b],
      next_XID := next_xid (next_XID (ls_connection ls))\<rparr>\<rparr>)" (is "_ = (None, ?r)")
    using f(1) assms(12) by (simp add: ls_send_def con_send_def)
  finally have "l2_PacketIn pe now m ls = (None, ?r)" .
  then show ?thesis
    using f fr by (intro exI [of _ b] exI [of _ "f\<lparr>fm_match := wire_form True a\<rparr>"] exI [of _ ?r]) (simp add: supported_def)
qed

lemma receive_flow_hit:
  assumes "entry_for_packet (sw_table s) h n in_port = Inr (Some e)" "outputs_to p (te_actions e)"
    "packet_pack (se_packets env) None (PEthernet h n) = Inr (data, PEthernet h n)"
    "map_of (sw_ports s) p = Some port" "p < OFPP_MAX"
  shows "\<exists>s'. receive_frame env (h, n) in_port s = (None, s') \<and> sw_out s' = sw_out s @ [((h, n), port)] \<and> sw_sent s' = sw_sent s \<and>
    sw_packet_buffer s' = sw_packet_buffer s"
  by (simp add: receive_frame_hit [OF assms])

text \<open>
  The whole way of a first frame: it is buffered, the controller reads the packet-in and sends a flow,
  the switch reads the flow, sends the buffered frame on, and forwards the next such frame alone.
\<close>

lemma first_frame:
  assumes "sw_ok s" "sw_connected s" "entry_for_packet (sw_table s) h n in_port = Inr None"
    "packet_pack (se_packets se) None (PEthernet h n) = Inr (data, PEthernet h n)" "small_frame data in_port s"
    "ethernet_parse pe data = Inr (PEthernet h n)" "hw_wire (e_src h)" "hw_wire (e_dst h)" "headers_ok n"
    "decide (ls_transparent ls) ((ls_macToPort ls)(e_src h \<mapsto> in_port)) h in_port = Forward p"
    "from_packet h n None = Inr a" "ofp_match_pack True True a = Inr x" "0 \<le> p" "map_of (sw_ports s) p = Some port" "p < OFPP_MAX"
    "\<not> con_disconnected (ls_connection ls)" "0 \<le> next_XID (ls_connection ls)" "next_XID (ls_connection ls) \<le> MAX_XID"
  shows "\<exists>s1 bytes m ls' b s2 s3. receive_frame se (h, n) in_port s = (None, s1) \<and> sw_out s1 = sw_out s \<and> sw_sent s1 = sw_sent s @ [bytes] \<and>
    (\<forall>self rest. ofp_packet_in_unpack self (bytes @ rest) = Inr (m, rest)) \<and>
    l2_PacketIn pe now m ls = (None, ls') \<and> con_sent (ls_connection ls') = con_sent (ls_connection ls) @ [b] \<and>
    cc_read (sw_handle se) b s1 = Some (CcTrue, [], s2) \<and> sw_out s2 = sw_out s @ [((h, n), port)] \<and> sw_sent s2 = sw_sent s1 \<and>
    receive_frame se (h, n) in_port s2 = (None, s3) \<and> sw_out s3 = sw_out s2 @ [((h, n), port)] \<and> sw_sent s3 = sw_sent s1"
proof -
  obtain k bytes m s1 where r: "receive_frame se (h, n) in_port s = (None, s1)" "sw_sent s1 = sw_sent s @ [bytes]"
    "sw_out s1 = sw_out s" "sw_ports s1 = sw_ports s" "sw_table s1 = sw_table s" "sw_frames s1 (sw_next_frame s) = Some (h, n)"
    "\<forall>self rest. ofp_packet_in_unpack self (bytes @ rest) = Inr (m, rest)"
    "pi_in_port m = in_port" "pi_data m = Some data" "pi_buffer_id m = k" "1 \<le> k" "buffer_id_ok k"
    "nat (k - 1) < length (sw_packet_buffer s1)" "sw_packet_buffer s1 ! nat (k - 1) = Some (sw_next_frame s, in_port)"
    using receive_frame_miss [OF assms(1-5)] by blast
  have ok1: "sw_ok s1" using sw_ok_receive_frame [OF assms(1), of se "(h, n)" in_port] r(1) by simp
  have a: "match_ok a" using from_packet_ok [OF assms(7-9), of None] assms(11) by auto
  have p: "p < 65536" using assms(15) by simp
  obtain b f ls' where l: "l2_PacketIn pe now m ls = (None, ls')" "con_sent (ls_connection ls') = con_sent (ls_connection ls) @ [b]"
    "framed b (OFPT_FLOW_MOD, MFlowMod f)" "fm_match f = wire_form True a" "supported f" "fm_command f = OFPFC_ADD"
    "fm_buffer_id f = Some k" "outputs_to p (fm_actions f)"
    using l2_answers [OF r(9) assms(6) r(8) assms(8,10,11,12) a assms(13) p _ assms(16-18), of now] r(10,12) by auto
  obtain t e where t: "sw_handle se (MFlowMod f) s1 = (None, s1\<lparr>sw_table := t, sw_out := sw_out s1 @ [(the (sw_frames s1 (sw_next_frame s)), port)],
      sw_packet_buffer := (sw_packet_buffer s1)[nat (k - 1) := None]\<rparr>)" (is "_ = (None, ?s2)")
    "entry_for_packet t h n in_port = Inr (Some e)" "outputs_to p (te_actions e)"
    using learned_flow [OF ok1 _ assms(7-9,11) l(4-6) l(8,7) r(11,13,14) _ assms(15), of port se] assms(3,14) r(4,5) by auto
  have c: "cc_read (sw_handle se) b s1 = Some (CcTrue, [], ?s2)"
    using cc_read_stream [of "[b]" "[(OFPT_FLOW_MOD, MFlowMod f)]" "sw_handle se" s1 ?s2] l(3) t(1) by simp
  have e: "entry_for_packet (sw_table ?s2) h n in_port = Inr (Some e)" "map_of (sw_ports ?s2) p = Some port"
    using t(2) assms(14) r(4) by simp_all
  obtain s3 where "receive_frame se (h, n) in_port ?s2 = (None, s3)" "sw_out s3 = sw_out ?s2 @ [((h, n), port)]" "sw_sent s3 = sw_sent ?s2"
    using receive_flow_hit [OF e(1) t(3) assms(4) e(2) assms(15)] by blast
  then show ?thesis
    using r l(1,2) c by (intro exI [of _ s1] exI [of _ bytes] exI [of _ m] exI [of _ ls'] exI [of _ b] exI [of _ ?s2] exI [of _ s3]) simp
qed

end
