(* ===== verification/L2_Multi.thy ===== *)
theory L2_Multi
  imports Complex_Main Switch_Paths Spanning_Tree L2_Learning
begin

text \<open>
  \<^verbatim>\<open>forwarding/l2_multi.py\<close>: a learning switch over the whole network. Links that discovery reports make the
  map of ports between switches; a packet to a known address gets a shortest path of flow entries. The lemmas
  show that the map agrees with the two-way links, and what is sent for a packet.
\<close>

subsection \<open>State\<close>

text \<open>
  A \<^verbatim>\<open>Switch\<close> object is made for a datapath identifier when it first connects and stays in \<^verbatim>\<open>switches\<close>, so
  the identifier stands for the object. \<open>lm_path_map\<close> is \<open>None\<close> while the dictionary is empty. The paths of
  \<^verbatim>\<open>PathInstalled\<close> events are recorded.
\<close>

record fwd_switch =
  fs_dpid :: "int option"
  fs_ports :: "ofp_phy_port list option"
  fs_connection :: "connection option"

record l2_multi =
  lm_switches :: "int \<Rightarrow> fwd_switch option"
  lm_adjacency :: port_map
  lm_mac_map :: "(hw \<times> int \<times> int) list"
  lm_path_map :: "path_map option"
  lm_next_XID :: int
  lm_installed :: "(int \<times> int option) list list"

definition Switch_init :: fwd_switch where
  "Switch_init = \<lparr>fs_dpid = None, fs_ports = None, fs_connection = None\<rparr>"

definition l2_multi_init :: "int \<Rightarrow> l2_multi" where
  "l2_multi_init nx = \<lparr>lm_switches = (\<lambda>_. None), lm_adjacency = (\<lambda>_ _. None), lm_mac_map = [],
     lm_path_map = None, lm_next_XID = nx, lm_installed = []\<rparr>"

definition fs_disconnect :: "fwd_switch \<Rightarrow> fwd_switch" where
  "fs_disconnect sw = sw\<lparr>fs_connection := None\<rparr>"

text \<open>\<^verbatim>\<open>connect\<close>; what was assigned before an error stays.\<close>

definition fs_connect :: "connection \<Rightarrow> fwd_switch stmt" where
  "fs_connect c sw =
     (let sw = (if fs_dpid sw = None then sw\<lparr>fs_dpid := con_dpid c\<rparr> else sw)
      in if fs_dpid sw \<noteq> con_dpid c then (Some AssertionError, sw)
         else case (fs_ports sw, con_features c) of
           (None, None) \<Rightarrow> (Some AttributeError, sw)
         | (None, Some f) \<Rightarrow> (None, (fs_disconnect (sw\<lparr>fs_ports := Some (fr_ports f)\<rparr>))\<lparr>fs_connection := Some c\<rparr>)
         | (Some _, _) \<Rightarrow> (None, (fs_disconnect sw)\<lparr>fs_connection := Some c\<rparr>))"

definition lm_ConnectionUp :: "int \<Rightarrow> connection \<Rightarrow> l2_multi stmt" where
  "lm_ConnectionUp dpid c s =
     (case fs_connect c (case lm_switches s dpid of None \<Rightarrow> Switch_init | Some sw \<Rightarrow> sw) of
        (e, sw) \<Rightarrow> (e, s\<lparr>lm_switches := (lm_switches s)(dpid \<mapsto> sw)\<rparr>))"

text \<open>The handler of the switch object, subscribed at its connection.\<close>

definition lm_ConnectionDown :: "int \<Rightarrow> l2_multi \<Rightarrow> l2_multi" where
  "lm_ConnectionDown dpid s = s\<lparr>lm_switches := (lm_switches s)(dpid := map_option fs_disconnect (lm_switches s dpid))\<rparr>"

subsection \<open>Sending\<close>

definition lm_connection :: "l2_multi \<Rightarrow> int \<Rightarrow> connection option" where
  "lm_connection s d = Option.bind (lm_switches s d) fs_connection"

definition lm_set_connection :: "int \<Rightarrow> connection \<Rightarrow> l2_multi \<Rightarrow> l2_multi" where
  "lm_set_connection d c s = s\<lparr>lm_switches := (lm_switches s)(d := map_option (fs_connection_update (\<lambda>_. Some c)) (lm_switches s d)),
     lm_next_XID := next_XID c\<rparr>"

definition lm_send :: "int \<Rightarrow> (int \<Rightarrow> (bytes option \<times> 'a ofp_header_scheme \<times> int) result) \<Rightarrow> l2_multi stmt" where
  "lm_send d pack s =
     (case lm_connection s d of
        None \<Rightarrow> (Some AttributeError, s)
      | Some c \<Rightarrow> (case con_send pack (\<lambda>_ c. c) (c\<lparr>next_XID := lm_next_XID s\<rparr>) of
          (e, c) \<Rightarrow> (e, lm_set_connection d c s)))"

definition path_flow :: "ofp_match \<Rightarrow> int option \<Rightarrow> int \<Rightarrow> ofp_flow_mod" where
  "path_flow match port buf = (ofp_flow_mod_init (\<lambda>m. m))
     \<lparr>fm_match := match, fm_idle_timeout := 10, fm_hard_timeout := 30,
      fm_actions := [ActOutput (ofp_action_output_init (\<lambda>a. a\<lparr>ao_port := port\<rparr>))], fm_buffer_id := Some buf\<rparr>"

definition lm_install :: "int \<Rightarrow> int option \<Rightarrow> ofp_match \<Rightarrow> int \<Rightarrow> l2_multi stmt" where
  "lm_install d port match buf = lm_send d (ofp_flow_mod_pack True (path_flow match port buf))"

text \<open>The first switch comes last, with the buffered packet.\<close>

definition install_hops :: "(int \<times> int option) list \<Rightarrow> ofp_match \<Rightarrow> int \<Rightarrow> l2_multi stmt" where
  "install_hops p match buf =
     seq (map (\<lambda>(d, port). lm_install d port match (-1)) (tl p) @
          [lm_install (fst (hd p)) (snd (hd p)) match buf,
           update (\<lambda>s. s\<lparr>lm_installed := lm_installed s @ [p]\<rparr>)])"

subsection \<open>A destination that cannot be reached\<close>

definition dpidToStr :: "int \<Rightarrow> string result" where
  "dpidToStr dpid =
     bindE (struct_pack ''!Q'' [dpid]) (\<lambda>b. Inr (
       join ''-'' (map (\<lambda>c. hex02 (of_char c)) (drop 2 b)) @
       (if take 2 b \<noteq> [NUL, NUL] then ''|'' @ py_str (be_value (take 2 b)) else [])))"

text \<open>\<^verbatim>\<open>find('ipv4')\<close>: the first IP header that was accepted, below headers that were.\<close>

primrec find_ipv4 :: "'o packet_env \<Rightarrow> 'o packet \<Rightarrow> (ipv4 \<times> 'o payload) option result"
  and find_in_payload :: "'o packet_env \<Rightarrow> 'o payload \<Rightarrow> (ipv4 \<times> 'o payload) option result" where
  "find_ipv4 env (PEthernet h n) = find_in_payload env n"
| "find_ipv4 env (PVlan h n) = find_in_payload env n"
| "find_ipv4 env (PIpv4 h n) = (if ip_parsed h then Inr (Some (h, n)) else find_in_payload env n)"
| "find_ipv4 env (PUdp h n) = find_in_payload env n"
| "find_ipv4 env (PTcp h n) = find_in_payload env n"
| "find_ipv4 env (PIcmp h n) = find_in_payload env n"
| "find_ipv4 env (PEcho h n) = find_in_payload env n"
| "find_ipv4 env (PUnreach h n) = find_in_payload env n"
| "find_ipv4 env (PArp h n) = find_in_payload env n"
| "find_ipv4 env (PMpls h n) = find_in_payload env n"
| "find_ipv4 env (POther p) = Inr None"
| "find_in_payload env NoNext = Inr None"
| "find_in_payload env UndefNext = Inl AttributeError"
| "find_in_payload env (RawNext b) = Inr None"
| "find_in_payload env (PktNext p) = bindE (packet_parsed env p) (\<lambda>t. if t then find_ipv4 env p else Inr None)"

text \<open>The answer carries the header of the packet and eight bytes more, behind four zero bytes.\<close>

definition unreachable_frame ::
    "'o packet_env \<Rightarrow> int option \<Rightarrow> ofp_match \<Rightarrow> ipv4 \<times> 'o payload \<Rightarrow> bytes result" where
  "unreachable_frame env dpid match orig =
     bindE (case dpid of None \<Rightarrow> Inl TypeError | Some d \<Rightarrow> dpidToStr d) (\<lambda>t.
     bindE (EthAddr_init (EaStr t)) (\<lambda>src.
     bindE (packet_pack env None (PIpv4 (fst orig) (snd orig))) (\<lambda>(d, orig).
     case (hw_get F_dl_src match, fst (nw_get F_nw_dst match), fst (nw_get F_nw_src match), orig) of
       (Some dst, Some ip_src, Some ip_dst, PIpv4 h _) \<Rightarrow>
         bindE (struct_pack ''!HH'' [0, 0]) (\<lambda>z.
         bindE (packet_pack env None (PEthernet (ethernet_init\<lparr>e_src := HwEth src, e_dst := dst, e_type := 0x0800\<rparr>)
           (PktNext (PIpv4 ((ipv4_init (env_ip_id env))\<lparr>ip_protocol := 1, ip_srcip := ip_src, ip_dstip := ip_dst\<rparr>)
             (PktNext (PIcmp (icmp_init\<lparr>i_type := 3, i_code := 1\<rparr>)
               (RawNext (z @ slice_int 0 (ip_hl h * 4 + 8) d)))))))) (\<lambda>(b, _). Inr b))
     | _ \<Rightarrow> Inl AttributeError)))"

definition send_unreachable ::
    "'o packet_env \<Rightarrow> int \<Rightarrow> ofp_packet_in \<Rightarrow> 'o packet \<Rightarrow> ofp_match \<Rightarrow> l2_multi stmt" where
  "send_unreachable env d ofp packet match s =
     (if int_get F_dl_type match \<noteq> Some 0x0800 then (None, s)
      else case find_ipv4 env packet of
        Inl e \<Rightarrow> (Some e, s)
      | Inr None \<Rightarrow> (None, s)
      | Inr (Some orig) \<Rightarrow>
          (case unreachable_frame env (Option.bind (lm_switches s d) fs_dpid) match orig of
             Inl e \<Rightarrow> (Some e, s)
           | Inr b \<Rightarrow> lm_send d (ofp_packet_out_pack True
               (po_set_data (Some b) ((ofp_packet_out_init (\<lambda>m. m))\<lparr>po_actions := [output_action (pi_in_port ofp)]\<rparr>))) s))"

subsection \<open>Packets\<close>

text \<open>\<open>order\<close> lists \<^verbatim>\<open>switches\<close>. \<open>None\<close> is a path that never ends.\<close>

definition ensure_paths :: "int list \<Rightarrow> l2_multi \<Rightarrow> l2_multi" where
  "ensure_paths order s =
     (if lm_path_map s = None \<and> order \<noteq> [] then s\<lparr>lm_path_map := Some (calc_paths (lm_adjacency s) order)\<rparr> else s)"

definition the_paths :: "l2_multi \<Rightarrow> path_map" where
  "the_paths s = (case lm_path_map s of None \<Rightarrow> (\<lambda>_ _. None) | Some pm \<Rightarrow> pm)"

definition install_path ::
    "'o packet_env \<Rightarrow> int list \<Rightarrow> int \<Rightarrow> int \<Rightarrow> int \<Rightarrow> ofp_match \<Rightarrow> ofp_packet_in \<Rightarrow> 'o packet \<Rightarrow> l2_multi \<Rightarrow> (py_error option \<times> l2_multi) option" where
  "install_path env order d dst_sw last_port match ofp packet s =
     (let s = (if d = dst_sw then s else ensure_paths order s)
      in map_option (\<lambda>r. case r of
           Inl e \<Rightarrow> (Some e, s)
         | Inr None \<Rightarrow> send_unreachable env d ofp packet match s
         | Inr (Some p) \<Rightarrow> install_hops p match (pi_buffer_id ofp) s)
       (get_path (lm_adjacency s) (the_paths s) d dst_sw last_port))"

definition lm_flood :: "int \<Rightarrow> ofp_packet_in \<Rightarrow> l2_multi stmt" where
  "lm_flood d ofp = lm_send d (ofp_packet_out_pack True (answer_out ofp [output_action OFPP_FLOOD]))"

definition lm_drop :: "int \<Rightarrow> ofp_packet_in \<Rightarrow> l2_multi stmt" where
  "lm_drop d ofp s =
     (if pi_buffer_id ofp \<noteq> -1 then lm_send d (ofp_packet_out_pack True (answer_out ofp [])) s else (None, s))"

text \<open>
  Where an address was seen. The messages that are logged read the identifiers of the connections of both
  places, which a switch that is down does not have.
\<close>

definition dpid_logged :: "int \<Rightarrow> l2_multi \<Rightarrow> string result" where
  "dpid_logged d s =
     (case lm_connection s d of None \<Rightarrow> Inl AttributeError
      | Some c \<Rightarrow> (case con_dpid c of None \<Rightarrow> Inl TypeError | Some n \<Rightarrow> dpidToStr n))"

definition learn_at :: "hw \<Rightarrow> int \<times> int \<Rightarrow> l2_multi stmt" where
  "learn_at a loc s =
     (case hw_test isMulticast a of Inl e \<Rightarrow> (Some e, s)
      | Inr m \<Rightarrow> (None, if m then s else s\<lparr>lm_mac_map := AList.update a loc (lm_mac_map s)\<rparr>))"

definition switch_port :: "l2_multi \<Rightarrow> int list \<Rightarrow> int \<Rightarrow> int \<Rightarrow> bool" where
  "switch_port s order d port \<longleftrightarrow> (\<exists>x \<in> set order. lm_adjacency s d x = Some port)"

definition learn_move :: "int list \<Rightarrow> ethernet \<Rightarrow> int \<times> int \<Rightarrow> int \<times> int \<Rightarrow> l2_multi stmt" where
  "learn_move order packet loc oldloc s =
     (if \<not> switch_port s order (fst loc) (snd loc) then
        (case bindE (dpid_logged (fst oldloc) s) (\<lambda>_. dpid_logged (fst loc) s) of
           Inl e \<Rightarrow> (Some e, s) | Inr _ \<Rightarrow> learn_at (e_src packet) loc s)
      else case hw_test isMulticast (e_dst packet) of
        Inl e \<Rightarrow> (Some e, s)
      | Inr True \<Rightarrow> (None, s)
      | Inr False \<Rightarrow>
          (case (case Option.bind (lm_switches s (fst loc)) fs_dpid of None \<Rightarrow> Inl TypeError | Some n \<Rightarrow> dpidToStr n) of
             Inl e \<Rightarrow> (Some e, s) | Inr _ \<Rightarrow> (None, s)))"

definition learn_source :: "int list \<Rightarrow> ethernet \<Rightarrow> int \<times> int \<Rightarrow> l2_multi stmt" where
  "learn_source order packet loc s =
     (case map_of (lm_mac_map s) (e_src packet) of
        None \<Rightarrow> learn_at (e_src packet) loc s
      | Some oldloc \<Rightarrow> if oldloc \<noteq> loc then learn_move order packet loc oldloc s else (None, s))"

definition lm_forward ::
    "'o packet_env \<Rightarrow> int list \<Rightarrow> int \<Rightarrow> ofp_packet_in \<Rightarrow> ethernet \<Rightarrow> 'o payload \<Rightarrow> l2_multi \<Rightarrow> (py_error option \<times> l2_multi) option" where
  "lm_forward env order d ofp packet nxt s =
     (case hw_test isMulticast (e_dst packet) of
        Inl e \<Rightarrow> Some (Some e, s)
      | Inr True \<Rightarrow> Some (lm_flood d ofp s)
      | Inr False \<Rightarrow>
          (case map_of (lm_mac_map s) (e_dst packet) of
             None \<Rightarrow> Some (lm_flood d ofp s)
           | Some dest \<Rightarrow>
               (case from_packet packet nxt None of
                  Inl e \<Rightarrow> Some (Some e, s)
                | Inr match \<Rightarrow> install_path env order d (fst dest) (snd dest) match ofp (PEthernet packet nxt) s)))"

definition lm_PacketIn ::
    "'o packet_env \<Rightarrow> int list \<Rightarrow> int \<Rightarrow> ofp_packet_in \<Rightarrow> l2_multi \<Rightarrow> (py_error option \<times> l2_multi) option" where
  "lm_PacketIn env order d ofp s =
     (case event_parse env ofp of
        Inl e \<Rightarrow> Some (Some e, s)
      | Inr (PEthernet packet nxt) \<Rightarrow>
          if e_type packet = 0x88cc then Some (lm_drop d ofp s)
          else (case learn_source order packet (d, pi_in_port ofp) s of
             (Some e, s) \<Rightarrow> Some (Some e, s)
           | (None, s) \<Rightarrow> lm_forward env order d ofp packet nxt s)
      | Inr _ \<Rightarrow> Some (None, s))"

subsection \<open>Links\<close>

text \<open>The message that deletes all flows is one object: it draws its identifier when it is first packed.\<close>

definition packed_flow_mod :: "int \<Rightarrow> ofp_flow_mod \<Rightarrow> l2_multi \<Rightarrow> ofp_flow_mod" where
  "packed_flow_mod d m s =
     (case lm_connection s d of None \<Rightarrow> m
      | Some c \<Rightarrow> if con_disconnected c then m
          else (case ofp_flow_mod_pack True m (lm_next_XID s) of Inl _ \<Rightarrow> m | Inr (_, m, _) \<Rightarrow> m))"

fun send_clear :: "int list \<Rightarrow> ofp_flow_mod \<Rightarrow> l2_multi stmt" where
  "send_clear [] clear s = (None, s)"
| "send_clear (d # ds) clear s =
     (case lm_send d (ofp_flow_mod_pack True clear) s of
        (Some e, s') \<Rightarrow> (Some e, s')
      | (None, s') \<Rightarrow> send_clear ds (packed_flow_mod d clear s) s')"

definition clear_message :: ofp_flow_mod where
  "clear_message = ofp_flow_mod_init (\<lambda>m. m\<lparr>fm_match := ofp_match_new, fm_command := OFPFC_DELETE\<rparr>)"

definition set_adjacency :: "int \<Rightarrow> int \<Rightarrow> int option \<Rightarrow> l2_multi \<Rightarrow> l2_multi" where
  "set_adjacency a b p s = s\<lparr>lm_adjacency := (lm_adjacency s)(a := (lm_adjacency s a)(b := p))\<rparr>"

definition link_removed :: "dlink list \<Rightarrow> dlink \<Rightarrow> l2_multi \<Rightarrow> l2_multi" where
  "link_removed links l s =
     (let s = set_adjacency (dpid2 l) (dpid1 l) None (set_adjacency (dpid1 l) (dpid2 l) None s)
      in case find (\<lambda>ll. dpid1 ll = dpid1 l \<and> dpid2 ll = dpid2 l \<and> flip ll \<in> set links) links of
           None \<Rightarrow> s
         | Some ll \<Rightarrow> set_adjacency (dpid2 l) (dpid1 l) (Some (port2 ll)) (set_adjacency (dpid1 l) (dpid2 l) (Some (port1 ll)) s))"

definition link_added :: "dlink list \<Rightarrow> dlink \<Rightarrow> l2_multi \<Rightarrow> l2_multi" where
  "link_added links l s =
     (let s = (if lm_adjacency s (dpid1 l) (dpid2 l) = None \<and> flip l \<in> set links
               then set_adjacency (dpid2 l) (dpid1 l) (Some (port2 l)) (set_adjacency (dpid1 l) (dpid2 l) (Some (port1 l)) s) else s)
      in s\<lparr>lm_mac_map := filter (\<lambda>(mac, loc). loc \<noteq> (dpid1 l, port1 l) \<and> loc \<noteq> (dpid2 l, port2 l)) (lm_mac_map s)\<rparr>)"

text \<open>\<open>links\<close> is the table of discovery when the event is raised.\<close>

definition lm_LinkEvent :: "int list \<Rightarrow> dlink list \<Rightarrow> bool \<Rightarrow> dlink \<Rightarrow> l2_multi stmt" where
  "lm_LinkEvent order links added l s =
     (if lm_switches s (dpid1 l) = None \<or> lm_switches s (dpid2 l) = None then (Some KeyError, s)
      else case send_clear order clear_message s of
        (Some e, s) \<Rightarrow> (Some e, s)
      | (None, s) \<Rightarrow>
          (let s = s\<lparr>lm_path_map := None\<rparr>
           in (None, if added then link_added links l s else link_removed links l s)))"

subsection \<open>Sending changes connections only\<close>

definition fs_shape :: "fwd_switch \<Rightarrow> int option \<times> ofp_phy_port list option \<times> (int option \<times> bool) option" where
  "fs_shape sw = (fs_dpid sw, fs_ports sw, map_option (\<lambda>c. (con_dpid c, con_disconnected c)) (fs_connection sw))"

definition same_network :: "l2_multi \<Rightarrow> l2_multi \<Rightarrow> bool" where
  "same_network s s' \<longleftrightarrow> lm_adjacency s' = lm_adjacency s \<and> lm_mac_map s' = lm_mac_map s \<and> lm_path_map s' = lm_path_map s \<and>
     (\<forall>d. map_option fs_shape (lm_switches s' d) = map_option fs_shape (lm_switches s d))"

lemma same_network_refl [simp]: "same_network s s"
  by (simp add: same_network_def)

lemma same_network_trans: "same_network s s' \<Longrightarrow> same_network s' s'' \<Longrightarrow> same_network s s''"
  by (simp add: same_network_def)

lemma same_network_known: "same_network s s' \<Longrightarrow> lm_switches s' d = None \<longleftrightarrow> lm_switches s d = None"
  unfolding same_network_def by (metis option.map_disc_iff)

definition linked_up :: "l2_multi \<Rightarrow> int \<Rightarrow> bool" where
  "linked_up s d \<longleftrightarrow> (case lm_connection s d of None \<Rightarrow> False | Some c \<Rightarrow> \<not> con_disconnected c)"

lemma connection_shape: "map_option (\<lambda>c. (con_dpid c, con_disconnected c)) (lm_connection s d) =
    Option.bind (map_option fs_shape (lm_switches s d)) (\<lambda>x. snd (snd x))"
  by (cases "lm_switches s d") (auto simp: lm_connection_def fs_shape_def)

lemma linked_up_shape: "linked_up s d \<longleftrightarrow> map_option snd (map_option (\<lambda>c. (con_dpid c, con_disconnected c)) (lm_connection s d)) = Some False"
  by (auto simp: linked_up_def split: option.splits)

lemma same_network_up: "same_network s s' \<Longrightarrow> linked_up s' d = linked_up s d"
  unfolding linked_up_shape connection_shape by (simp add: same_network_def)

lemma same_network_down: "same_network s s' \<Longrightarrow> lm_connection s' d = None \<longleftrightarrow> lm_connection s d = None"
proof -
  assume "same_network s s'"
  then have "map_option (\<lambda>c. (con_dpid c, con_disconnected c)) (lm_connection s' d) = map_option (\<lambda>c. (con_dpid c, con_disconnected c)) (lm_connection s d)"
    unfolding connection_shape same_network_def by simp
  then show ?thesis by (metis (no_types, lifting) option.map_disc_iff)
qed

lemma con_send_shape: "con_dpid (snd (con_send p (\<lambda>_ c. c) c)) = con_dpid c \<and> con_disconnected (snd (con_send p (\<lambda>_ c. c) c)) = con_disconnected c"
  using con_send_cases [of p "\<lambda>_ c. c" c] by auto

lemma same_network_send: "same_network s (snd (lm_send d p s))"
proof (cases "lm_connection s d")
  case (Some c)
  obtain sw where sw: "lm_switches s d = Some sw" "fs_connection sw = Some c"
    using Some by (auto simp: lm_connection_def bind_eq_Some_conv)
  show ?thesis
    using Some sw con_send_shape [of p "c\<lparr>next_XID := lm_next_XID s\<rparr>"]
    by (auto simp: lm_send_def same_network_def lm_set_connection_def fs_shape_def split: prod.split)
qed (simp add: lm_send_def)

lemma same_network_seq:
  "(\<And>c s. c \<in> set cs \<Longrightarrow> same_network s (snd (c s))) \<Longrightarrow> same_network s (snd (seq cs s))"
  by (rule seq_keeps [where P = "same_network s"]) (auto intro: same_network_trans)

lemma same_network_hops: "same_network s (snd (install_hops p match buf s))"
proof -
  have "same_network s (snd (c s))"
    if "c \<in> set (map (\<lambda>(d, port). lm_install d port match (-1)) (tl p) @
        [lm_install (fst (hd p)) (snd (hd p)) match buf, update (\<lambda>s. s\<lparr>lm_installed := lm_installed s @ [p]\<rparr>)])" for c s
    using that by (auto simp: lm_install_def same_network_send update_def) (simp add: same_network_def)
  then show ?thesis unfolding install_hops_def by (rule same_network_seq)
qed

lemma same_network_clear: "send_clear ds m s = (e, s') \<Longrightarrow> same_network s s'"
proof (induction ds m s rule: send_clear.induct)
  case (2 d ds clear s)
  obtain e1 s1 where s1: "lm_send d (ofp_flow_mod_pack True clear) s = (e1, s1)" by fastforce
  have k: "same_network s s1" using same_network_send [of s d "ofp_flow_mod_pack True clear"] s1 by simp
  show ?case
  proof (cases e1)
    case None
    then have "send_clear ds (packed_flow_mod d clear s) s1 = (e, s')" using 2(2) s1 by simp
    from 2(1) [OF s1 [symmetric] None this] show ?thesis by (rule same_network_trans [OF k])
  qed (use 2(2) s1 k in auto)
qed simp

lemma same_network_unreachable: "same_network s (snd (send_unreachable env d ofp packet match s))"
  by (auto simp: send_unreachable_def same_network_send split: sum.split option.split)

lemma same_network_flood: "same_network s (snd (lm_flood d ofp s))" "same_network s (snd (lm_drop d ofp s))"
  by (simp_all add: lm_flood_def lm_drop_def same_network_send)

subsection \<open>The map of ports agrees with the links\<close>

text \<open>
  \<open>L\<close> is the set of links discovery knows. An entry is a port of a two-way link, and switches with a two-way
  link between them have one. What a link from a switch to itself does to the diagonal does not matter.
\<close>

definition agrees :: "dlink set \<Rightarrow> port_map \<Rightarrow> bool" where
  "agrees L adj \<longleftrightarrow> (\<forall>a b. a \<noteq> b \<longrightarrow>
     (\<forall>p. adj a b = Some p \<longrightarrow> (\<exists>q. adj b a = Some q \<and> Link a p b q \<in> L \<and> Link b q a p \<in> L)) \<and>
     (\<forall>p q. Link a p b q \<in> L \<longrightarrow> Link b q a p \<in> L \<longrightarrow> adj a b \<noteq> None))"

lemma agreesD:
  assumes "agrees L adj" "a \<noteq> b"
  shows "adj a b = Some p \<Longrightarrow> \<exists>q. adj b a = Some q \<and> Link a p b q \<in> L \<and> Link b q a p \<in> L"
    and "Link a p b q \<in> L \<Longrightarrow> Link b q a p \<in> L \<Longrightarrow> adj a b \<noteq> None"
  using assms unfolding agrees_def by blast+

lemma agrees_none: "agrees L adj \<Longrightarrow> a \<noteq> b \<Longrightarrow> adj a b = None \<longleftrightarrow> adj b a = None"
  using agreesD(1) [of L adj a b] agreesD(1) [of L adj b a] by (cases "adj a b"; cases "adj b a") fastforce+

lemma set_adjacency_value [simp]: "lm_adjacency (set_adjacency a b p s) x y = (if x = a \<and> y = b then p else lm_adjacency s x y)"
  by (simp add: set_adjacency_def)

lemma set_adjacency_fields [simp]: "lm_switches (set_adjacency a b p s) = lm_switches s" "lm_path_map (set_adjacency a b p s) = lm_path_map s"
  by (simp_all add: set_adjacency_def)

text \<open>Outside the pair of switches of a link nothing changes, neither in the map nor in what it should be.\<close>

definition near :: "dlink \<Rightarrow> int \<Rightarrow> int \<Rightarrow> bool" where
  "near l a b \<longleftrightarrow> a = dpid1 l \<and> b = dpid2 l \<or> a = dpid2 l \<and> b = dpid1 l"

lemma agrees_near:
  assumes "agrees L adj" "\<And>a b. \<not> near l a b \<Longrightarrow> adj' a b = adj a b" "\<And>k. k \<noteq> l \<Longrightarrow> k \<in> L' \<longleftrightarrow> k \<in> L"
    and pair: "\<And>a b. near l a b \<Longrightarrow> a \<noteq> b \<Longrightarrow>
      (\<forall>p. adj' a b = Some p \<longrightarrow> (\<exists>q. adj' b a = Some q \<and> Link a p b q \<in> L' \<and> Link b q a p \<in> L')) \<and>
      (\<forall>p q. Link a p b q \<in> L' \<longrightarrow> Link b q a p \<in> L' \<longrightarrow> adj' a b \<noteq> None)"
  shows "agrees L' adj'"
  unfolding agrees_def
proof (intro allI impI)
  fix a b :: int
  assume ab: "a \<noteq> b"
  show "(\<forall>p. adj' a b = Some p \<longrightarrow> (\<exists>q. adj' b a = Some q \<and> Link a p b q \<in> L' \<and> Link b q a p \<in> L')) \<and>
      (\<forall>p q. Link a p b q \<in> L' \<longrightarrow> Link b q a p \<in> L' \<longrightarrow> adj' a b \<noteq> None)"
  proof (cases "near l a b")
    case True
    then show ?thesis using pair ab by blast
  next
    case False
    then have "\<not> near l b a" by (auto simp: near_def)
    note same = assms(2) [OF False] assms(2) [OF this]
    have ne: "k \<noteq> l" if "near k a b" for k using that False by blast
    have "Link a p b q \<noteq> l" "Link b q a p \<noteq> l" for p q by (rule ne, simp add: near_def)+
    then have "Link a p b q \<in> L' \<longleftrightarrow> Link a p b q \<in> L" "Link b q a p \<in> L' \<longleftrightarrow> Link b q a p \<in> L" for p q
      by (simp_all add: assms(3))
    then show ?thesis using agreesD [OF assms(1) ab] unfolding same by blast
  qed
qed

lemma near_Link: "near (Link a p b q) x y \<longleftrightarrow> x = a \<and> y = b \<or> x = b \<and> y = a"
  by (simp add: near_def)

lemma mac_map_adjacency: "lm_adjacency (s\<lparr>lm_mac_map := xs\<rparr>) = lm_adjacency s" by simp
lemma link_added_adjacency: "lm_adjacency (link_added links (Link a p b q) s) x y =
    (if lm_adjacency s a b = None \<and> Link b q a p \<in> set links
     then (if x = b \<and> y = a then Some q else if x = a \<and> y = b then Some p else lm_adjacency s x y) else lm_adjacency s x y)"
  unfolding link_added_def Let_def flip_def dlink.sel mac_map_adjacency if_distrib [of lm_adjacency]
    if_distribR set_adjacency_value by (rule refl)
definition two_way_link :: "dlink list \<Rightarrow> int \<Rightarrow> int \<Rightarrow> dlink option" where
  "two_way_link links a b = find (\<lambda>ll. dpid1 ll = a \<and> dpid2 ll = b \<and> flip ll \<in> set links) links"

lemma two_way_link_None: "two_way_link links a b = None \<Longrightarrow> \<not> (Link a p b q \<in> set links \<and> Link b q a p \<in> set links)"
  unfolding two_way_link_def find_None_iff flip_def by force

lemma two_way_link_Some: "two_way_link links a b = Some ll \<Longrightarrow> Link a (port1 ll) b (port2 ll) \<in> set links \<and> Link b (port2 ll) a (port1 ll) \<in> set links"
  unfolding two_way_link_def find_Some_iff flip_def by (metis dlink.collapse nth_mem)

lemma link_removed_adjacency: "lm_adjacency (link_removed links (Link a p b q) s) x y =
    (if x = b \<and> y = a then map_option port2 (two_way_link links a b)
     else if x = a \<and> y = b then map_option port1 (two_way_link links a b) else lm_adjacency s x y)"
  unfolding link_removed_def Let_def dlink.sel two_way_link_def [symmetric]
  by (cases "two_way_link links a b"; simp only: option.case option.map set_adjacency_value; presburger)

lemma agrees_added:
  assumes "agrees L (lm_adjacency s)" and links: "set links = insert (Link a p b q) L"
  shows "agrees (insert (Link a p b q) L) (lm_adjacency (link_added links (Link a p b q) s))"
proof (rule agrees_near [OF assms(1), of "Link a p b q"])
  let ?s' = "link_added links (Link a p b q) s"
  note adj = link_added_adjacency [of links a p b q s]
  show "lm_adjacency ?s' x y = lm_adjacency s x y" if "\<not> near (Link a p b q) x y" for x y
    using that unfolding adj near_Link by presburger
  fix x y :: int
  assume near: "near (Link a p b q) x y" and xy: "x \<noteq> y"
  show "(\<forall>u. lm_adjacency ?s' x y = Some u \<longrightarrow> (\<exists>v. lm_adjacency ?s' y x = Some v \<and> Link x u y v \<in> insert (Link a p b q) L \<and> Link y v x u \<in> insert (Link a p b q) L)) \<and>
      (\<forall>u v. Link x u y v \<in> insert (Link a p b q) L \<longrightarrow> Link y v x u \<in> insert (Link a p b q) L \<longrightarrow> lm_adjacency ?s' x y \<noteq> None)"
  proof (cases "lm_adjacency s a b = None \<and> Link b q a p \<in> set links")
    case True
    then have ll: "Link b q a p \<in> insert (Link a p b q) L" using links by simp
    have ab: "a \<noteq> b" using near xy by (auto simp: near_Link)
    have v: "lm_adjacency ?s' a b = Some p" "lm_adjacency ?s' b a = Some q" unfolding adj using True ab by simp_all
    from near consider "x = a" "y = b" | "x = b" "y = a" by (auto simp: near_Link)
    then show ?thesis by cases (use ll v in simp_all)
  next
    case False
    then have same: "lm_adjacency ?s' u v = lm_adjacency s u v" for u v using False unfolding adj by presburger
    have "lm_adjacency s x y \<noteq> None" if "Link x u y v \<in> insert (Link a p b q) L" "Link y v x u \<in> insert (Link a p b q) L" for u v
    proof
      assume none: "lm_adjacency s x y = None"
      then have "lm_adjacency s a b = None" using near agrees_none [OF assms(1) xy] unfolding near_Link by metis
      then have "Link b q a p \<notin> insert (Link a p b q) L" using False links by simp
      then have "Link x u y v \<in> L" "Link y v x u \<in> L" using that near xy by (auto simp: near_Link)
      then show False using agreesD(2) [OF assms(1) xy] none by blast
    qed
    then show ?thesis unfolding same using agreesD(1) [OF assms(1) xy] by blast
  qed
qed simp

lemma agrees_removed:
  assumes "agrees L (lm_adjacency s)" and links: "set links = L - {Link a p b q}"
  shows "agrees (L - {Link a p b q}) (lm_adjacency (link_removed links (Link a p b q) s))"
proof (rule agrees_near [OF assms(1), of "Link a p b q"])
  let ?s' = "link_removed links (Link a p b q) s"
  note adj = link_removed_adjacency [of links a p b q s]
  show "lm_adjacency ?s' x y = lm_adjacency s x y" if "\<not> near (Link a p b q) x y" for x y
    using that unfolding adj near_Link by presburger
  fix x y :: int
  assume near: "near (Link a p b q) x y" and xy: "x \<noteq> y"
  then have ab: "a \<noteq> b" by (auto simp: near_Link)
  from near consider "x = a" "y = b" | "x = b" "y = a" by (auto simp: near_Link)
  note side = this
  show "(\<forall>u. lm_adjacency ?s' x y = Some u \<longrightarrow> (\<exists>v. lm_adjacency ?s' y x = Some v \<and> Link x u y v \<in> L - {Link a p b q} \<and> Link y v x u \<in> L - {Link a p b q})) \<and>
      (\<forall>u v. Link x u y v \<in> L - {Link a p b q} \<longrightarrow> Link y v x u \<in> L - {Link a p b q} \<longrightarrow> lm_adjacency ?s' x y \<noteq> None)"
    unfolding links [symmetric]
  proof (cases "two_way_link links a b")
    case None
    have v: "lm_adjacency ?s' a b = None" "lm_adjacency ?s' b a = None" unfolding adj None using ab by simp_all
    from side show "(\<forall>u. lm_adjacency ?s' x y = Some u \<longrightarrow> (\<exists>v. lm_adjacency ?s' y x = Some v \<and> Link x u y v \<in> set links \<and> Link y v x u \<in> set links)) \<and>
      (\<forall>u v. Link x u y v \<in> set links \<longrightarrow> Link y v x u \<in> set links \<longrightarrow> lm_adjacency ?s' x y \<noteq> None)"
      by cases (use v two_way_link_None [OF None] in simp_all, blast+)
  next
    case (Some ll)
    have v: "lm_adjacency ?s' a b = Some (port1 ll)" "lm_adjacency ?s' b a = Some (port2 ll)" unfolding adj Some using ab by simp_all
    from side show "(\<forall>u. lm_adjacency ?s' x y = Some u \<longrightarrow> (\<exists>v. lm_adjacency ?s' y x = Some v \<and> Link x u y v \<in> set links \<and> Link y v x u \<in> set links)) \<and>
      (\<forall>u v. Link x u y v \<in> set links \<longrightarrow> Link y v x u \<in> set links \<longrightarrow> lm_adjacency ?s' x y \<noteq> None)"
      by cases (use v two_way_link_Some [OF Some] in simp_all)
  qed
qed auto

subsection \<open>The invariant\<close>

text \<open>The table of paths was computed for switches that are all known, over the present map.\<close>

definition path_table_ok :: "int set \<Rightarrow> port_map \<Rightarrow> path_map \<Rightarrow> bool" where
  "path_table_ok known adj pm \<longleftrightarrow> (\<exists>V. V \<subseteq> known \<and> paths_ok adj V V pm \<and>
     (\<forall>i j. pm i j \<noteq> None \<longrightarrow> i \<in> V \<and> j \<in> V) \<and> (\<forall>a b. adj a b \<noteq> None \<longrightarrow> a \<in> V \<and> b \<in> V))"

definition lm_ok :: "dlink set \<Rightarrow> l2_multi \<Rightarrow> bool" where
  "lm_ok L s \<longleftrightarrow> agrees L (lm_adjacency s) \<and>
     (\<forall>a b. lm_adjacency s a b \<noteq> None \<longrightarrow> a \<in> dom (lm_switches s) \<and> b \<in> dom (lm_switches s)) \<and>
     (\<forall>pm. lm_path_map s = Some pm \<longrightarrow> path_table_ok (dom (lm_switches s)) (lm_adjacency s) pm)"

lemma lm_okD:
  assumes "lm_ok L s"
  shows "agrees L (lm_adjacency s)"
    and "lm_adjacency s a b \<noteq> None \<Longrightarrow> a \<in> dom (lm_switches s) \<and> b \<in> dom (lm_switches s)"
    and "lm_path_map s = Some pm \<Longrightarrow> path_table_ok (dom (lm_switches s)) (lm_adjacency s) pm"
  using assms by (auto simp: lm_ok_def)

lemma same_network_dom: "same_network s s' \<Longrightarrow> dom (lm_switches s') = dom (lm_switches s)"
  using same_network_known [of s s'] by (simp add: dom_def)

lemma lm_ok_same: "same_network s s' \<Longrightarrow> lm_ok L s \<Longrightarrow> lm_ok L s'"
  using same_network_dom [of s s'] by (simp add: lm_ok_def same_network_def)

lemma path_table_mono: "path_table_ok A adj pm \<Longrightarrow> A \<subseteq> B \<Longrightarrow> path_table_ok B adj pm"
  unfolding path_table_ok_def by (meson order_trans)

lemma relax_rounds_outside: "i \<notin> set sws \<or> j \<notin> set sws \<Longrightarrow> fold (relax_all sws) ks pm i j = pm i j"
proof (induction ks arbitrary: pm)
  case (Cons k ks)
  have f: "fold (\<lambda>(i, j). relax k i j) ps pm i j = pm i j" if "set ps \<subseteq> set sws \<times> set sws" for ps
    using that Cons.prems by (induction ps arbitrary: pm) (auto simp: relax_via)
  have "relax_all sws k pm i j = pm i j" unfolding relax_all_def by (rule f) auto
  then show ?case using Cons by simp
qed simp

lemma calc_paths_table:
  assumes "set order = V" "\<forall>a b. adj a b \<noteq> None \<longrightarrow> a \<in> V \<and> b \<in> V"
  shows "path_table_ok V adj (calc_paths adj order)"
proof -
  have "calc_paths adj order i j = None" if "i \<notin> V \<or> j \<notin> V" for i j
  proof -
    have "adj i j = None" using that assms(2) by blast
    then show ?thesis using that assms(1) unfolding calc_paths_def by (subst relax_rounds_outside) (auto simp: direct_rows)
  qed
  then show ?thesis
    unfolding path_table_ok_def using calc_paths_ok [of adj order] assms by (intro exI [of _ V] conjI allI impI) auto
qed

lemma lm_ok_ensure: "lm_ok L s \<Longrightarrow> set order = dom (lm_switches s) \<Longrightarrow> lm_ok L (ensure_paths order s)"
  using calc_paths_table [of order "dom (lm_switches s)" "lm_adjacency s"] by (auto simp: lm_ok_def ensure_paths_def)

lemma lm_ok_macs: "lm_ok L (s\<lparr>lm_mac_map := m\<rparr>) = lm_ok L s"
  by (simp add: lm_ok_def)

lemma learn_source_shape: "\<exists>m. snd (learn_source order packet loc s) = s\<lparr>lm_mac_map := m\<rparr>"
proof -
  have at: "\<exists>m. snd (learn_at a loc s) = s\<lparr>lm_mac_map := m\<rparr>" for a
    by (cases "hw_test isMulticast a") (auto simp: learn_at_def intro: exI [of _ "lm_mac_map s"])
  have self: "\<exists>m. s = s\<lparr>lm_mac_map := m\<rparr>" by (rule exI [of _ "lm_mac_map s"]) simp
  have "\<exists>m. snd (learn_move order packet loc oldloc s) = s\<lparr>lm_mac_map := m\<rparr>" for oldloc
    unfolding learn_move_def using at self by (auto split: sum.split bool.split option.split)
  then show ?thesis unfolding learn_source_def using at self by (auto split: option.split)
qed

lemma lm_ok_install:
  assumes "lm_ok L s" "set order = dom (lm_switches s)" "install_path env order d sw port match ofp packet s = Some (e, s')"
  shows "lm_ok L s'"
proof -
  let ?s = "if d = sw then s else ensure_paths order s"
  have ok: "lm_ok L ?s" using assms(1) lm_ok_ensure [OF assms(1,2)] by simp
  obtain r where r: "get_path (lm_adjacency ?s) (the_paths ?s) d sw port = Some r"
    "(e, s') = (case r of Inl e \<Rightarrow> (Some e, ?s) | Inr None \<Rightarrow> send_unreachable env d ofp packet match ?s
       | Inr (Some p) \<Rightarrow> install_hops p match (pi_buffer_id ofp) ?s)"
    using assms(3) by (auto simp: install_path_def Let_def)
  have "same_network ?s s'"
  proof (cases r)
    case (Inl x)
    then show ?thesis using r(2) by simp
  next
    case (Inr x)
    then show ?thesis
      using r(2) same_network_unreachable [of ?s env d ofp packet match] same_network_hops [of ?s _ match "pi_buffer_id ofp"]
      by (cases x) (metis sum.simps(6) option.simps(4,5) snd_conv)+
  qed
  then show ?thesis using lm_ok_same ok by blast
qed

lemma lm_ok_PacketIn:
  assumes "lm_ok L s" "set order = dom (lm_switches s)" "lm_PacketIn env order d ofp s = Some (e, s')"
  shows "lm_ok L s'"
proof (cases "event_parse env ofp")
  case (Inr p)
  show ?thesis
  proof (cases p)
    case (PEthernet packet nxt)
    obtain e1 s1 where s1: "learn_source order packet (d, pi_in_port ofp) s = (e1, s1)" by fastforce
    obtain m where m: "s1 = s\<lparr>lm_mac_map := m\<rparr>" using learn_source_shape [of order packet "(d, pi_in_port ofp)" s] s1 by auto
    have ok: "lm_ok L s1" "set order = dom (lm_switches s1)" using assms(1,2) by (simp_all add: m lm_ok_macs)
    have flood: "lm_ok L (snd (lm_flood d ofp s1))" "lm_ok L (snd (lm_drop d ofp s))"
      using lm_ok_same [OF same_network_flood(1) ok(1)] lm_ok_same [OF same_network_flood(2) assms(1)] by blast+
    have "lm_ok L s'" if "lm_forward env order d ofp packet nxt s1 = Some (e, s')"
      using that flood(1) ok lm_ok_install [OF ok]
      by (auto simp: lm_forward_def split: sum.splits bool.splits option.splits)
    then show ?thesis
      using assms(3) Inr PEthernet s1 flood(2) ok(1) by (auto simp: lm_PacketIn_def split: if_splits option.splits)
  qed (use assms Inr in \<open>auto simp: lm_PacketIn_def\<close>)
qed (use assms in \<open>auto simp: lm_PacketIn_def\<close>)

lemma lm_ok_switch: "lm_ok L s \<Longrightarrow> lm_ok L (s\<lparr>lm_switches := (lm_switches s)(d \<mapsto> sw)\<rparr>)"
  unfolding lm_ok_def by (auto intro: path_table_mono)

lemma lm_ok_Up: "lm_ok L s \<Longrightarrow> lm_ok L (snd (lm_ConnectionUp d c s))"
  by (auto simp: lm_ConnectionUp_def lm_ok_switch split: prod.split)

lemma lm_ok_Down: "lm_ok L s \<Longrightarrow> lm_ok L (lm_ConnectionDown d s)"
  by (cases "lm_switches s d") (auto simp: lm_ConnectionDown_def lm_ok_switch fun_upd_idem)

lemma link_kept:
  "lm_switches (link_added links l s) = lm_switches s" "lm_path_map (link_added links l s) = lm_path_map s"
  "lm_switches (link_removed links l s) = lm_switches s" "lm_path_map (link_removed links l s) = lm_path_map s"
  by (auto simp: link_added_def link_removed_def Let_def split: option.split)

lemma lm_ok_LinkEvent:
  assumes "lm_ok L s" "lm_LinkEvent order links added l s = (None, s')"
    "set links = (if added then insert l L else L - {l})"
  shows "lm_ok (set links) s'"
proof -
  obtain a p b q where l: "l = Link a p b q" by (cases l) auto
  have known: "a \<in> dom (lm_switches s)" "b \<in> dom (lm_switches s)"
    using assms(2) by (auto simp: lm_LinkEvent_def l split: if_splits)
  obtain s1 where s1: "send_clear order clear_message s = (None, s1)"
    "s' = (if added then link_added links l (s1\<lparr>lm_path_map := None\<rparr>) else link_removed links l (s1\<lparr>lm_path_map := None\<rparr>))"
    using assms(2) unfolding lm_LinkEvent_def by (auto simp: Let_def split: if_splits prod.splits option.splits)
  let ?t = "s1\<lparr>lm_path_map := None\<rparr>"
  have ok: "lm_ok L s1" and dom: "dom (lm_switches s1) = dom (lm_switches s)"
    using same_network_clear [OF s1(1)] lm_ok_same assms(1) same_network_dom by blast+
  have t: "agrees L (lm_adjacency ?t)" "lm_switches ?t = lm_switches s1" using lm_okD(1) [OF ok] by simp_all
  have ag: "agrees (set links) (lm_adjacency s')"
    using agrees_added [OF t(1), of links a p b q] agrees_removed [OF t(1), of links a p b q] assms(3) by (auto simp: s1(2) l)
  have adj: "lm_adjacency s' x y \<noteq> None \<Longrightarrow> lm_adjacency s1 x y \<noteq> None \<or> near l x y" for x y
    by (cases added) (auto simp: s1(2) l near_Link link_added_adjacency link_removed_adjacency split: if_splits)
  have "lm_path_map s' = None" "lm_switches s' = lm_switches s1" by (simp_all add: s1(2) link_kept)
  moreover have "x \<in> dom (lm_switches s1) \<and> y \<in> dom (lm_switches s1)" if "lm_adjacency s' x y \<noteq> None" for x y
    using adj [OF that] lm_okD(2) [OF ok, of x y] known by (auto simp: dom near_def l)
  ultimately show ?thesis unfolding lm_ok_def using ag by simp
qed

text \<open>
  The states of the application while discovery knows the links \<open>L\<close>. A link event comes after discovery has
  changed its table; only link events that succeed are steps here. The counter of transaction identifiers is
  shared with the rest of the program.
\<close>

inductive lm_reachable :: "'o packet_env \<Rightarrow> dlink set \<Rightarrow> l2_multi \<Rightarrow> bool" for env where
  init: "lm_reachable env {} (l2_multi_init nx)"
| up: "lm_reachable env L s \<Longrightarrow> lm_reachable env L (snd (lm_ConnectionUp d c s))"
| down: "lm_reachable env L s \<Longrightarrow> lm_reachable env L (lm_ConnectionDown d s)"
| counter: "lm_reachable env L s \<Longrightarrow> 0 \<le> nx \<Longrightarrow> nx \<le> MAX_XID \<Longrightarrow> lm_reachable env L (s\<lparr>lm_next_XID := nx\<rparr>)"
| packet: "lm_reachable env L s \<Longrightarrow> set order = dom (lm_switches s) \<Longrightarrow> lm_PacketIn env order d ofp s = Some (e, s') \<Longrightarrow>
    lm_reachable env L s'"
| linked: "lm_reachable env L s \<Longrightarrow> set order = dom (lm_switches s) \<Longrightarrow> set links = (if added then insert l L else L - {l}) \<Longrightarrow>
    lm_LinkEvent order links added l s = (None, s') \<Longrightarrow> lm_reachable env (set links) s'"

lemma lm_reachable_ok: "lm_reachable env L s \<Longrightarrow> lm_ok L s"
proof (induction rule: lm_reachable.induct)
  case (linked L s order links added l s')
  then show ?case using lm_ok_LinkEvent by metis
next
  case (counter L s nx)
  then show ?case by (simp add: lm_ok_def)
qed (auto simp: lm_ok_Up lm_ok_Down lm_ok_PacketIn, simp add: lm_ok_def l2_multi_init_def agrees_def)

subsection \<open>The path that is installed\<close>

lemma walk_inside:
  assumes "\<forall>a b. adj a b \<noteq> None \<longrightarrow> a \<in> V \<and> b \<in> V"
  shows "walk adj i xs j \<Longrightarrow> set xs \<subseteq> V \<and> i \<in> V \<and> j \<in> V"
proof (induction xs arbitrary: i)
  case Nil
  then show ?case using assms by auto
next
  case (Cons y ys)
  then have "adj i y \<noteq> None" "walk adj y ys j" using walk_split [of adj i "[]" y ys j] by auto
  then show ?case using Cons.IH assms by auto
qed

lemma shortest_everywhere:
  "\<forall>a b. adj a b \<noteq> None \<longrightarrow> a \<in> V \<and> b \<in> V \<Longrightarrow> shortest adj V i xs j \<Longrightarrow> shortest adj UNIV i xs j"
  using walk_inside [of adj V] unfolding shortest_def by blast

text \<open>Two cases: a shortest path, or none at all.\<close>

lemma path_answer:
  assumes "path_table_ok known adj pm" "d \<noteq> dst"
  shows "(get_path adj pm d dst q = Some (Inr None) \<and> (\<forall>xs. \<not> walk adj d xs dst)) \<or>
    (\<exists>xs r. get_path adj pm d dst q = Some (Inr (Some r)) \<and> shortest adj UNIV d xs dst \<and> leads adj d r dst q \<and> map fst r = d # xs @ [dst])"
proof -
  obtain V where V: "paths_ok adj V V pm" "\<And>i j. pm i j \<noteq> None \<Longrightarrow> i \<in> V \<and> j \<in> V" "\<forall>a b. adj a b \<noteq> None \<longrightarrow> a \<in> V \<and> b \<in> V"
    using assms(1) unfolding path_table_ok_def by blast
  show ?thesis
  proof (cases "d \<in> V \<and> dst \<in> V")
    case True
    show ?thesis
    proof (cases "pm d dst")
      case None
      have "\<not> walk adj d xs dst" for xs using no_walk_iff [OF V(1)] True assms(2) None walk_inside [OF V(3)] by blast
      then show ?thesis using get_path_none [of d dst pm, OF assms(2) None] by blast
    next
      case (Some nm)
      then obtain n m where nm: "pm d dst = Some (n, m)" by (cases nm) simp
      have "map fst (cook adj (d # xs @ [dst]) dst q) = d # xs @ [dst]" for xs by (rule cook_switches) simp_all
      then show ?thesis using get_path_some [OF V(1) _ _ assms(2) nm] True shortest_everywhere [OF V(3)] by blast
    qed
  next
    case False
    then have "pm d dst = None" using V(2) by blast
    moreover have "\<not> walk adj d xs dst" for xs using walk_inside [OF V(3)] False by blast
    ultimately show ?thesis using get_path_none [of d dst pm, OF assms(2)] by blast
  qed
qed

subsection \<open>What each switch is sent\<close>

definition lm_sent :: "l2_multi \<Rightarrow> int \<Rightarrow> bytes list" where
  "lm_sent s d = (case lm_connection s d of None \<Rightarrow> [] | Some c \<Rightarrow> con_sent c)"

definition xid_ok :: "l2_multi \<Rightarrow> bool" where
  "xid_ok s \<longleftrightarrow> 0 \<le> lm_next_XID s \<and> lm_next_XID s \<le> MAX_XID"

text \<open>The bytes of a flow for a match, out of a port, with a buffered packet.\<close>

definition flow_bytes :: "ofp_match \<Rightarrow> int \<Rightarrow> int \<Rightarrow> bytes \<Rightarrow> bool" where
  "flow_bytes match p buf b \<longleftrightarrow> (\<exists>f. framed b (OFPT_FLOW_MOD, MFlowMod f) \<and> fm_match f = wire_form True match \<and>
     fm_command f = OFPFC_ADD \<and> fm_idle_timeout f = 10 \<and> fm_hard_timeout f = 30 \<and> fm_buffer_id f = Some buf \<and> outputs_to p (fm_actions f))"

lemma path_flow_packs:
  assumes "match_ok a" "ofp_match_pack True True a = Inr x" "0 \<le> nx" "nx \<le> MAX_XID" "0 \<le> p" "p < 65536" "buffer_id_ok buf"
  shows "\<exists>b m. ofp_flow_mod_pack True (path_flow a (Some p) buf) nx = Inr (Some b, m, next_xid nx) \<and> flow_bytes a p buf b"
proof -
  let ?ofp = "(undefined :: ofp_packet_in)\<lparr>pi_buffer_id := buf\<rparr>"
  let ?i = "answer_flow ?ofp a 10 30 [output_action p]"
  have i: "path_flow a (Some p) buf = ?i" by (simp add: path_flow_def answer_flow_def output_action_def)
  obtain b f where f: "ofp_flow_mod_pack True ?i nx = Inr (Some b, f, next_xid nx)"
    "fm_match f = a" "fm_command f = OFPFC_ADD" "fm_buffer_id f = Some buf" "outputs_to p (fm_actions f)" "fm_idle_timeout f = 10" "fm_hard_timeout f = 30"
    using answer_flow_packs [OF assms(2-4) _ _ _ _ assms(5,6), of 10 30 ?ofp] by auto
  have "fm_match ?i = a" "fm_buffer_ok ?i" "\<forall>q \<in> set (fm_actions ?i). action_wf q" "version ?i = OFP_VERSION" "header_type ?i = OFPT_FLOW_MOD"
    using assms(7) by (simp_all add: answer_flow_def ofp_flow_mod_init_def fm_buffer_ok_def output_action_def ofp_action_output_init_def)
  then have "framed b (OFPT_FLOW_MOD, MFlowMod (f\<lparr>fm_match := wire_form True a\<rparr>))"
    using flow_mod_framed [OF f(1)] assms(1) by simp
  then have "flow_bytes a p buf b"
    unfolding flow_bytes_def using f by (intro exI [of _ "f\<lparr>fm_match := wire_form True a\<rparr>"]) simp
  then show ?thesis using f(1) i by auto
qed

lemma lm_send_ok:
  assumes "linked_up s d" "pack (lm_next_XID s) = Inr (Some b, m, nx)"
  shows "\<exists>s'. lm_send d pack s = (None, s') \<and> (\<forall>x. lm_sent s' x = lm_sent s x @ (if x = d then [b] else [])) \<and>
    lm_next_XID s' = nx \<and> lm_installed s' = lm_installed s"
proof -
  obtain sw c where sw: "lm_switches s d = Some sw" "fs_connection sw = Some c" "\<not> con_disconnected c"
    using assms(1) by (auto simp: linked_up_def lm_connection_def bind_eq_Some_conv split: option.splits)
  let ?c = "c\<lparr>con_sent := con_sent c @ [b], next_XID := nx\<rparr>"
  have "lm_send d pack s = (None, lm_set_connection d ?c s)"
    using sw assms(2) by (simp add: lm_send_def lm_connection_def con_send_def)
  moreover have "lm_sent (lm_set_connection d ?c s) x = lm_sent s x @ (if x = d then [b] else [])" for x
    using sw by (simp add: lm_sent_def lm_connection_def lm_set_connection_def)
  ultimately show ?thesis by (simp add: lm_set_connection_def)
qed

definition flow_ok :: "ofp_match \<Rightarrow> bool" where
  "flow_ok a \<longleftrightarrow> match_ok a \<and> (\<exists>x. ofp_match_pack True True a = Inr x)"

lemma install_hop:
  assumes "flow_ok a" "linked_up s d" "xid_ok s" "0 \<le> p" "p < 65536" "buffer_id_ok buf"
  shows "\<exists>b s'. lm_install d (Some p) a buf s = (None, s') \<and> flow_bytes a p buf b \<and> same_network s s' \<and> xid_ok s' \<and>
    lm_installed s' = lm_installed s \<and> (\<forall>x. lm_sent s' x = lm_sent s x @ (if x = d then [b] else []))"
proof -
  obtain b m where b: "ofp_flow_mod_pack True (path_flow a (Some p) buf) (lm_next_XID s) = Inr (Some b, m, next_xid (lm_next_XID s))" "flow_bytes a p buf b"
    using path_flow_packs [of a _ "lm_next_XID s" p buf] assms by (auto simp: flow_ok_def xid_ok_def)
  obtain s' where s': "lm_install d (Some p) a buf s = (None, s')" "\<forall>x. lm_sent s' x = lm_sent s x @ (if x = d then [b] else [])"
    "lm_next_XID s' = next_xid (lm_next_XID s)" "lm_installed s' = lm_installed s"
    using lm_send_ok [of s d "ofp_flow_mod_pack True (path_flow a (Some p) buf)", OF assms(2) b(1)] by (auto simp: lm_install_def)
  have "same_network s s'" using same_network_send [of s d "ofp_flow_mod_pack True (path_flow a (Some p) buf)"] s'(1) by (simp add: lm_install_def)
  moreover have "xid_ok s'" using s'(3) next_xid_range by (simp add: xid_ok_def)
  ultimately show ?thesis using b(2) s' by blast
qed

definition sent_flows :: "(int \<times> int option) list \<Rightarrow> ofp_match \<Rightarrow> (int \<Rightarrow> int) \<Rightarrow> l2_multi \<Rightarrow> l2_multi \<Rightarrow> bool" where
  "sent_flows r a buf s s' \<longleftrightarrow> (\<forall>x. (\<forall>p. (x, Some p) \<in> set r \<longrightarrow> (\<exists>b. flow_bytes a p (buf x) b \<and> lm_sent s' x = lm_sent s x @ [b])) \<and>
     (x \<notin> fst ` set r \<longrightarrow> lm_sent s' x = lm_sent s x))"

lemma install_list:
  assumes "flow_ok a" "xid_ok s" "distinct (map fst r)" "\<forall>h \<in> set r. linked_up s (fst h) \<and> (\<exists>p. snd h = Some p \<and> 0 \<le> p \<and> p < 65536)"
    "\<forall>h \<in> set r. buffer_id_ok (buf (fst h))"
  shows "\<exists>s'. seq (map (\<lambda>(d, port). lm_install d port a (buf d)) r) s = (None, s') \<and> same_network s s' \<and> xid_ok s' \<and>
    lm_installed s' = lm_installed s \<and> sent_flows r a buf s s'"
  using assms(2-)
proof (induction r arbitrary: s)
  case (Cons h r)
  obtain d p where h: "h = (d, Some p)" "0 \<le> p" "p < 65536" using Cons.prems(3) by (cases h) auto
  obtain b s1 where s1: "lm_install d (Some p) a (buf d) s = (None, s1)" "flow_bytes a p (buf d) b" "same_network s s1" "xid_ok s1"
    "lm_installed s1 = lm_installed s" "\<forall>x. lm_sent s1 x = lm_sent s x @ (if x = d then [b] else [])"
    using install_hop [OF assms(1) _ Cons.prems(1) h(2,3), of d "buf d"] Cons.prems(3,4) h(1) by auto
  obtain s2 where s2: "seq (map (\<lambda>(d, port). lm_install d port a (buf d)) r) s1 = (None, s2)" "same_network s1 s2" "xid_ok s2"
    "lm_installed s2 = lm_installed s1" "sent_flows r a buf s1 s2"
    using Cons.IH [OF s1(4)] Cons.prems same_network_up [OF s1(3)] by auto
  have d: "d \<notin> fst ` set r" using Cons.prems(2) h(1) by simp
  have "sent_flows (h # r) a buf s s2"
    unfolding sent_flows_def
  proof (intro allI conjI impI)
    fix x q
    assume x: "(x, Some q) \<in> set (h # r)"
    show "\<exists>b. flow_bytes a q (buf x) b \<and> lm_sent s2 x = lm_sent s x @ [b]"
    proof (cases "x = d")
      case True
      then have "q = p" using x h(1) d by (force simp: image_iff)
      then show ?thesis using True s1(2,6) s2(5) d by (auto simp: sent_flows_def)
    next
      case False
      then have "(x, Some q) \<in> set r" "lm_sent s1 x = lm_sent s x" using x h(1) s1(6) by simp_all
      moreover have "\<exists>b. flow_bytes a q (buf x) b \<and> lm_sent s2 x = lm_sent s1 x @ [b]"
        using s2(5) calculation(1) unfolding sent_flows_def by blast
      ultimately show ?thesis by simp
    qed
  next
    fix x
    assume "x \<notin> fst ` set (h # r)"
    then show "lm_sent s2 x = lm_sent s x" using s1(6) s2(5) h(1) by (simp add: sent_flows_def)
  qed
  then show ?case using s1 s2 same_network_trans h(1) by auto
qed (simp add: sent_flows_def)

lemma sent_flows_trans:
  assumes "sent_flows r a buf s s1" "sent_flows r' a buf s1 s2" "fst ` set r \<inter> fst ` set r' = {}"
  shows "sent_flows (r' @ r) a buf s s2"
  unfolding sent_flows_def
proof (intro allI conjI impI)
  fix x p
  assume "(x, Some p) \<in> set (r' @ r)"
  then consider "(x, Some p) \<in> set r'" "x \<notin> fst ` set r" | "(x, Some p) \<in> set r" "x \<notin> fst ` set r'"
    using assms(3) image_eqI [of x fst "(x, Some p)"] by (metis (no_types, lifting) Un_iff disjoint_iff fst_conv set_append)
  then show "\<exists>b. flow_bytes a p (buf x) b \<and> lm_sent s2 x = lm_sent s x @ [b]"
    using assms(1,2) [unfolded sent_flows_def] by cases metis+
next
  fix x
  assume "x \<notin> fst ` set (r' @ r)"
  then have "x \<notin> fst ` set r" "x \<notin> fst ` set r'" by auto
  then show "lm_sent s2 x = lm_sent s x" using assms(1,2) unfolding sent_flows_def by simp
qed

text \<open>All switches of the path at once: the first has the buffered packet.\<close>

lemma install_hops_ok:
  assumes "flow_ok a" "xid_ok s" "r \<noteq> []" "distinct (map fst r)" "buffer_id_ok b"
    "\<forall>h \<in> set r. linked_up s (fst h) \<and> (\<exists>p. snd h = Some p \<and> 0 \<le> p \<and> p < 65536)"
  shows "\<exists>s'. install_hops r a b s = (None, s') \<and> same_network s s' \<and> lm_installed s' = lm_installed s @ [r] \<and>
    sent_flows r a (\<lambda>x. if x = fst (hd r) then b else -1) s s'"
proof -
  let ?buf = "\<lambda>x. if x = fst (hd r) then b else -1"
  obtain h t where r: "r = h # t" using assms(3) by (cases r) auto
  have buf: "buffer_id_ok (?buf x)" for x using assms(5) by (simp add: buffer_id_ok_def)
  have tl: "map (\<lambda>(d, port). lm_install d port a (?buf d)) t = map (\<lambda>(d, port). lm_install d port a (-1)) t"
    using assms(4) r by (auto simp: image_iff)
  obtain s1 where s1: "seq (map (\<lambda>(d, port). lm_install d port a (-1)) t) s = (None, s1)" "same_network s s1" "xid_ok s1"
    "lm_installed s1 = lm_installed s" "sent_flows t a ?buf s s1"
    using install_list [OF assms(1,2), of t ?buf, unfolded tl] assms(4,6) buf r by auto
  obtain d p where h: "h = (d, Some p)" "0 \<le> p" "p < 65536" and up: "linked_up s1 d"
    using assms(6) r same_network_up [OF s1(2)] by (cases h) auto
  have one: "distinct (map fst [h])" "\<forall>h \<in> set [h]. linked_up s1 (fst h) \<and> (\<exists>p. snd h = Some p \<and> 0 \<le> p \<and> p < 65536)"
    "\<forall>h \<in> set [h]. buffer_id_ok (?buf (fst h))"
    using h up buf by simp_all
  obtain s2 where s2: "seq (map (\<lambda>(d, port). lm_install d port a (?buf d)) [h]) s1 = (None, s2)" "same_network s1 s2"
    "lm_installed s2 = lm_installed s1" "sent_flows [h] a ?buf s1 s2"
    using install_list [OF assms(1) s1(3) one] by blast
  have "lm_install (fst h) (snd h) a b s1 = (None, s2)" using s2(1) r h(1) by (auto split: prod.splits option.splits)
  then have "install_hops r a b s = (None, s2\<lparr>lm_installed := lm_installed s2 @ [r]\<rparr>)"
    using s1(1) r by (simp add: install_hops_def seq_append update_def)
  moreover have "sent_flows r a ?buf s s2" using sent_flows_trans [OF s1(5) s2(4)] assms(4) r by (force simp: image_iff)
  then have "sent_flows r a ?buf s (s2\<lparr>lm_installed := lm_installed s2 @ [r]\<rparr>)"
    by (simp add: sent_flows_def lm_sent_def lm_connection_def)
  moreover have "same_network s (s2\<lparr>lm_installed := lm_installed s2 @ [r]\<rparr>)"
    using same_network_trans [OF s1(2) s2(2)] by (simp add: same_network_def)
  ultimately show ?thesis using s1(4) s2(3) by simp
qed

text \<open>The ports of a path that leads somewhere are those of two-way links.\<close>

definition over_links :: "dlink set \<Rightarrow> (int \<times> int option) list \<Rightarrow> bool" where
  "over_links L r \<longleftrightarrow> successively (\<lambda>x y. \<exists>p q. snd x = Some p \<and> Link (fst x) p (fst y) q \<in> L \<and> Link (fst y) q (fst x) p \<in> L) r"

lemma leads_over_links:
  assumes "agrees L adj" "leads adj src r dst q"
  shows "over_links L r"
proof -
  have "distinct (map fst r) \<Longrightarrow> successively (\<lambda>x y. snd x = adj (fst x) (fst y) \<and> snd x \<noteq> None) r \<Longrightarrow> over_links L r" for r
  proof (induction r rule: induct_list012)
    case (3 x y zs)
    then have ne: "fst x \<noteq> fst y" and p: "snd x = adj (fst x) (fst y)" "snd x \<noteq> None" by auto
    obtain p where "adj (fst x) (fst y) = Some p" using p by auto
    then show ?case using 3 agreesD(1) [OF assms(1) ne] p(1) by (auto simp: over_links_def)
  qed (simp_all add: over_links_def)
  then show ?thesis using assms(2) by (simp add: leads_def)
qed

text \<open>Every port on the way is one of a link, and the last is the one of the address.\<close>

lemma over_links_ports:
  "over_links L r \<Longrightarrow> h \<in> set r \<Longrightarrow> h = last r \<or> (\<exists>p b q. snd h = Some p \<and> Link (fst h) p b q \<in> L)"
proof (induction r rule: induct_list012)
  case (3 x y zs)
  have x: "\<exists>p b q. snd x = Some p \<and> Link (fst x) p b q \<in> L" and yz: "over_links L (y # zs)"
    using "3.prems"(1) unfolding over_links_def successively.simps by blast+
  have "h = x \<or> h \<in> set (y # zs)" using "3.prems"(2) by simp
  then show ?case using x "3.IH"(2) [OF yz] by auto
qed (simp_all add: over_links_def)

definition ports_small :: "dlink set \<Rightarrow> bool" where
  "ports_small L \<longleftrightarrow> (\<forall>l \<in> L. 0 \<le> port1 l \<and> port1 l < 65536)"

lemma ensured:
  assumes "lm_ok L s" "set order = dom (lm_switches s)" "d \<in> dom (lm_switches s)"
  shows "lm_ok L (ensure_paths order s)" "path_table_ok (dom (lm_switches s)) (lm_adjacency s) (the_paths (ensure_paths order s))"
    "lm_adjacency (ensure_paths order s) = lm_adjacency s" "linked_up (ensure_paths order s) x = linked_up s x"
    "lm_sent (ensure_paths order s) x = lm_sent s x" "xid_ok (ensure_paths order s) = xid_ok s"
    "lm_installed (ensure_paths order s) = lm_installed s" "lm_switches (ensure_paths order s) = lm_switches s"
proof -
  show ok: "lm_ok L (ensure_paths order s)" by (rule lm_ok_ensure [OF assms(1,2)])
  have "order \<noteq> []" using assms(2,3) by auto
  then obtain pm where pm: "lm_path_map (ensure_paths order s) = Some pm" by (cases "lm_path_map s") (auto simp: ensure_paths_def)
  show sw: "lm_switches (ensure_paths order s) = lm_switches s" and adj: "lm_adjacency (ensure_paths order s) = lm_adjacency s"
    and "linked_up (ensure_paths order s) x = linked_up s x" "lm_sent (ensure_paths order s) x = lm_sent s x"
    "xid_ok (ensure_paths order s) = xid_ok s" "lm_installed (ensure_paths order s) = lm_installed s"
    by (simp_all add: ensure_paths_def linked_up_def lm_connection_def lm_sent_def xid_ok_def)
  show "path_table_ok (dom (lm_switches s)) (lm_adjacency s) (the_paths (ensure_paths order s))"
    using lm_okD(3) [OF ok pm] by (simp add: the_paths_def pm sw adj)
qed

lemma install_path_installs:
  assumes "lm_ok L s" "set order = dom (lm_switches s)" "d \<in> dom (lm_switches s)" "dst = d \<or> walk (lm_adjacency s) d ys dst"
    "\<forall>x \<in> dom (lm_switches s). linked_up s x" "xid_ok s" "flow_ok match" "buffer_id_ok (pi_buffer_id ofp)"
    "ports_small L" "0 \<le> q" "q < 65536"
  shows "\<exists>r s'. install_path env order d dst q match ofp packet s = Some (None, s') \<and> leads (lm_adjacency s) d r dst q \<and> over_links L r \<and>
    (\<forall>xs. dst \<noteq> d \<longrightarrow> walk (lm_adjacency s) d xs dst \<longrightarrow> length r \<le> length xs + 2) \<and> lm_installed s' = lm_installed s @ [r] \<and>
    sent_flows r match (\<lambda>x. if x = d then pi_buffer_id ofp else -1) s s'"
proof -
  note ok = lm_okD [OF assms(1)] and en = ensured [OF assms(1-3)]
  let ?s = "if d = dst then s else ensure_paths order s"
  have s: "lm_adjacency ?s = lm_adjacency s" "\<And>x. linked_up ?s x = linked_up s x" "\<And>x. lm_sent ?s x = lm_sent s x"
    "xid_ok ?s" "lm_installed ?s = lm_installed s"
    using en assms(6) by simp_all
  obtain r where r: "get_path (lm_adjacency ?s) (the_paths ?s) d dst q = Some (Inr (Some r))" "leads (lm_adjacency s) d r dst q"
    "fst ` set r \<subseteq> dom (lm_switches s)" "\<forall>xs. dst \<noteq> d \<longrightarrow> walk (lm_adjacency s) d xs dst \<longrightarrow> length r \<le> length xs + 2"
  proof (cases "d = dst")
    case True
    then have "leads (lm_adjacency s) d [(dst, Some q)] dst q" "fst ` set [(dst, Some q)] \<subseteq> dom (lm_switches s)"
      using assms(3) by (simp_all add: leads_def)
    then show ?thesis using that [of "[(dst, Some q)]"] get_path_here True by auto
  next
    case False
    obtain xs r where xr: "get_path (lm_adjacency s) (the_paths ?s) d dst q = Some (Inr (Some r))" "shortest (lm_adjacency s) UNIV d xs dst"
      "leads (lm_adjacency s) d r dst q" "map fst r = d # xs @ [dst]"
      using path_answer [OF en(2) False, of q] assms(4) False by auto
    have "\<forall>a b. lm_adjacency s a b \<noteq> None \<longrightarrow> a \<in> dom (lm_switches s) \<and> b \<in> dom (lm_switches s)" using ok(2) by blast
    from walk_inside [OF this, of d xs dst] have "set (map fst r) \<subseteq> dom (lm_switches s)"
      using xr(2) unfolding xr(4) shortest_def by simp
    moreover have "length r = length xs + 2" using arg_cong [OF xr(4), of length] by simp
    ultimately show ?thesis using that [of r] xr s(1) unfolding shortest_def set_map by simp
  qed
  have hops: "\<forall>h \<in> set r. linked_up ?s (fst h) \<and> (\<exists>p. snd h = Some p \<and> 0 \<le> p \<and> p < 65536)"
  proof
    fix h
    assume h: "h \<in> set r"
    have "fst h \<in> dom (lm_switches s)" using h r(3) by blast
    moreover have "\<exists>p. snd h = Some p \<and> 0 \<le> p \<and> p < 65536"
    proof (cases "h = last r")
      case True
      then show ?thesis using r(2) assms(10,11) by (simp add: leads_def)
    next
      case False
      then obtain p b q where "snd h = Some p" "Link (fst h) p b q \<in> L"
        using over_links_ports [OF leads_over_links [OF ok(1) r(2)] h] by blast
      then show ?thesis using assms(9) unfolding ports_small_def by fastforce
    qed
    ultimately show "linked_up ?s (fst h) \<and> (\<exists>p. snd h = Some p \<and> 0 \<le> p \<and> p < 65536)"
      using assms(5) s(2) by blast
  qed
  have ne: "r \<noteq> []" "distinct (map fst r)" "fst (hd r) = d" using r(2) by (auto simp: leads_def)
  obtain s' where s': "install_hops r match (pi_buffer_id ofp) ?s = (None, s')" "lm_installed s' = lm_installed ?s @ [r]"
    "sent_flows r match (\<lambda>x. if x = d then pi_buffer_id ofp else -1) ?s s'"
    using install_hops_ok [OF assms(7) s(4) ne(1,2) assms(8) hops] ne(3) by auto
  have "install_path env order d dst q match ofp packet s = Some (None, s')" using r(1) s'(1) by (simp add: install_path_def Let_def)
  moreover have "sent_flows r match (\<lambda>x. if x = d then pi_buffer_id ofp else -1) s s'" using s'(3) s(3) by (simp add: sent_flows_def)
  ultimately show ?thesis using r leads_over_links [OF ok(1) r(2)] s'(2) s(5) by metis
qed

text \<open>The same for the handler, when the source was learned without an error and the destination is known.\<close>

lemma packet_installs:
  assumes "lm_ok L s" "set order = dom (lm_switches s)" "d \<in> dom (lm_switches s)" "\<forall>x \<in> dom (lm_switches s). linked_up s x" "xid_ok s"
    "event_parse env ofp = Inr (PEthernet h n)" "e_type h \<noteq> 0x88cc" "learn_source order h (d, pi_in_port ofp) s = (None, s1)"
    "hw_test isMulticast (e_dst h) = Inr False" "map_of (lm_mac_map s1) (e_dst h) = Some (dst, q)" "dst = d \<or> walk (lm_adjacency s) d ys dst"
    "from_packet h n None = Inr match" "flow_ok match" "buffer_id_ok (pi_buffer_id ofp)" "ports_small L" "0 \<le> q" "q < 65536"
  shows "\<exists>r s'. lm_PacketIn env order d ofp s = Some (None, s') \<and> leads (lm_adjacency s) d r dst q \<and> over_links L r \<and>
    (\<forall>xs. dst \<noteq> d \<longrightarrow> walk (lm_adjacency s) d xs dst \<longrightarrow> length r \<le> length xs + 2) \<and> lm_installed s' = lm_installed s @ [r] \<and>
    sent_flows r match (\<lambda>x. if x = d then pi_buffer_id ofp else -1) s s'"
proof -
  obtain m where m: "s1 = s\<lparr>lm_mac_map := m\<rparr>" using learn_source_shape [of order h "(d, pi_in_port ofp)" s] assms(8) by auto
  have same: "lm_switches s1 = lm_switches s" "lm_adjacency s1 = lm_adjacency s" "lm_installed s1 = lm_installed s"
    "xid_ok s1 = xid_ok s" "\<And>x. linked_up s1 x = linked_up s x" "\<And>x. lm_sent s1 x = lm_sent s x" "lm_ok L s1"
    using assms(1) by (simp_all add: m xid_ok_def linked_up_def lm_connection_def lm_sent_def lm_ok_macs)
  have h: "lm_PacketIn env order d ofp s = install_path env order d dst q match ofp (PEthernet h n) s1"
    using assms(6-10,12) by (simp add: lm_PacketIn_def lm_forward_def)
  have "sent_flows r match b s1 s' = sent_flows r match b s s'" for r b s' by (simp add: sent_flows_def same)
  then show ?thesis
    using install_path_installs [of L s1 order d dst ys match ofp q env "PEthernet h n"] assms same unfolding h by simp
qed

lemma install_path_unreachable:
  assumes "lm_ok L s" "set order = dom (lm_switches s)" "d \<in> dom (lm_switches s)" "dst \<noteq> d" "\<forall>xs. \<not> walk (lm_adjacency s) d xs dst"
  shows "install_path env order d dst q match ofp packet s = Some (send_unreachable env d ofp packet match (ensure_paths order s))"
proof -
  note en = ensured [OF assms(1-3)]
  have "get_path (lm_adjacency s) (the_paths (ensure_paths order s)) d dst q = Some (Inr None)"
    using path_answer [OF en(2) assms(4) [symmetric], of q] assms(5) unfolding shortest_def by blast
  then show ?thesis using assms(4) en(3) by (auto simp: install_path_def)
qed

subsection \<open>A switch that is down\<close>

lemma send_clear_stops:
  assumes "x \<in> set ds" "lm_connection s x = None"
  shows "\<exists>e s'. send_clear ds m s = (Some e, s')"
  using assms
proof (induction ds m s rule: send_clear.induct)
  case (2 d ds clear s)
  obtain e1 s1 where s1: "lm_send d (ofp_flow_mod_pack True clear) s = (e1, s1)" by fastforce
  show ?case
  proof (cases e1)
    case None
    then have "d \<noteq> x" using s1 2(3) by (auto simp: lm_send_def)
    then have "x \<in> set ds" using 2(2) by simp
    moreover have "same_network s s1" using same_network_send [of s d "ofp_flow_mod_pack True clear"] s1 by simp
    then have "lm_connection s1 x = None" using same_network_down 2(3) by blast
    ultimately show ?thesis using 2(1) [OF s1 [symmetric] None] s1 None by simp
  qed (use s1 in simp)
qed simp

lemma link_event_stops:
  assumes "x \<in> dom (lm_switches s)" "set order = dom (lm_switches s)" "lm_connection s x = None"
  shows "\<exists>e s'. lm_LinkEvent order links added l s = (Some e, s') \<and> same_network s s'"
proof (cases "lm_switches s (dpid1 l) = None \<or> lm_switches s (dpid2 l) = None")
  case False
  have "x \<in> set order" using assms(1,2) by blast
  then obtain e s' where "send_clear order clear_message s = (Some e, s')" using send_clear_stops assms(3) by blast
  then show ?thesis using False same_network_clear by (auto simp: lm_LinkEvent_def)
qed (auto simp: lm_LinkEvent_def)

text \<open>While every switch is up, link events succeed.\<close>

definition cleared :: "ofp_flow_mod \<Rightarrow> bool" where
  "cleared m \<longleftrightarrow> m = clear_message \<or> (\<exists>x. 0 \<le> x \<and> x \<le> MAX_XID \<and> m = clear_message\<lparr>hlength := 72, xid := Some x\<rparr>)"

lemma header_pack_again:
  assumes "xid m = Some x" "version m = OFP_VERSION" "0 \<le> header_type m" "header_type m < 256" "ofp_type_map (header_type m) \<noteq> None"
    "0 \<le> hlength m" "hlength m < 65536" "0 \<le> x" "x \<le> MAX_XID"
  shows "\<exists>h. ofp_header_pack True m nx = Inr (h, m, nx)"
  using assms by (simp add: ofp_header_pack_def ofp_header_assert_def MAX_XID_def Let_def struct_pack.simps code_min_def code_max_def code_signed_def)

lemma clear_packs:
  assumes "cleared m" "0 \<le> nx" "nx \<le> MAX_XID"
  shows "\<exists>b m' nx'. ofp_flow_mod_pack True m nx = Inr (Some b, m', nx') \<and> cleared m' \<and> 0 \<le> nx' \<and> nx' \<le> MAX_XID"
proof -
  have t: "ofp_type_map OFPT_FLOW_MOD \<noteq> None" by code_simp
  have "case ofp_match_pack True True ofp_match_new of Inl _ \<Rightarrow> False | Inr _ \<Rightarrow> True" by code_simp
  then obtain x where x: "ofp_match_pack True True ofp_match_new = Inr x" by (auto split: sum.splits)
  let ?c = "clear_message\<lparr>hlength := 72\<rparr>"
  have c: "version ?c = OFP_VERSION" "header_type ?c = OFPT_FLOW_MOD" "hlength ?c = 72" "xid ?c = None"
    by (simp_all add: clear_message_def ofp_flow_mod_init_def)
  note defs = ofp_flow_mod_pack_def Let_def clear_message_def ofp_flow_mod_init_def ofp_flow_mod_len_def ofp_match_len_def actions_len_def
      mask_arg_def flow_mod_mid_def struct_pack.simps code_min_def code_max_def code_signed_def assert_true_def
  show ?thesis
  proof (cases "m = clear_message")
    case True
    obtain h where "ofp_header_pack True ?c nx = Inr (h, ?c\<lparr>xid := Some nx\<rparr>, next_xid nx)"
      using header_pack_fresh [of ?c nx] c t assms(2,3) by auto
    then have "\<exists>b. ofp_flow_mod_pack True m nx = Inr (Some b, ?c\<lparr>xid := Some nx\<rparr>, next_xid nx)"
      using x by (auto simp: True defs)
    then show ?thesis using assms(2,3) next_xid_range [of nx] by (auto simp: cleared_def)
  next
    case False
    then obtain y where y: "0 \<le> y" "y \<le> MAX_XID" "m = clear_message\<lparr>hlength := 72, xid := Some y\<rparr>" using assms(1) by (auto simp: cleared_def)
    obtain h where "ofp_header_pack True m nx = Inr (h, m, nx)"
      using header_pack_again [of m y nx] c t y by auto
    then have "\<exists>b. ofp_flow_mod_pack True m nx = Inr (Some b, m, nx)"
      using x y(3) by (auto simp: defs)
    then show ?thesis using assms by blast
  qed
qed

lemma send_clear_ok:
  "\<forall>x \<in> set ds. linked_up s x \<Longrightarrow> xid_ok s \<Longrightarrow> cleared m \<Longrightarrow> \<exists>s'. send_clear ds m s = (None, s') \<and> xid_ok s' \<and> same_network s s'"
proof (induction ds m s rule: send_clear.induct)
  case (2 d ds m s)
  obtain b m' nx' where b: "ofp_flow_mod_pack True m (lm_next_XID s) = Inr (Some b, m', nx')" "cleared m'" "0 \<le> nx'" "nx' \<le> MAX_XID"
    using clear_packs [OF 2(4)] 2(3) unfolding xid_ok_def by blast
  have up: "linked_up s d" using 2(2) by simp
  obtain s1 where s1: "lm_send d (ofp_flow_mod_pack True m) s = (None, s1)" "lm_next_XID s1 = nx'"
    using lm_send_ok [OF up, of "ofp_flow_mod_pack True m", OF b(1)] by blast
  have same: "same_network s s1" using same_network_send [of s d "ofp_flow_mod_pack True m"] s1(1) by simp
  have "packed_flow_mod d m s = m'" using up b(1) by (auto simp: packed_flow_mod_def linked_up_def split: option.splits)
  then obtain s2 where "send_clear ds (packed_flow_mod d m s) s1 = (None, s2)" "xid_ok s2" "same_network s1 s2"
    using 2(1) [OF s1(1) [symmetric] refl] 2(2) b s1(2) same_network_up [OF same] by (auto simp: xid_ok_def)
  then show ?case using s1(1) same_network_trans [OF same] by auto
qed simp

lemma link_event_succeeds:
  assumes "\<forall>x \<in> dom (lm_switches s). linked_up s x" "set order = dom (lm_switches s)" "xid_ok s"
    "dpid1 l \<in> dom (lm_switches s)" "dpid2 l \<in> dom (lm_switches s)"
  shows "\<exists>s'. lm_LinkEvent order links added l s = (None, s') \<and> (\<forall>x. linked_up s' x = linked_up s x) \<and> xid_ok s' \<and>
    dom (lm_switches s') = dom (lm_switches s) \<and> lm_mac_map s' = (if added then
      filter (\<lambda>(mac, loc). loc \<noteq> (dpid1 l, port1 l) \<and> loc \<noteq> (dpid2 l, port2 l)) (lm_mac_map s) else lm_mac_map s)"
proof -
  have "cleared clear_message" by (simp add: cleared_def)
  then obtain s1 where s1: "send_clear order clear_message s = (None, s1)" "xid_ok s1" "same_network s s1"
    using send_clear_ok [of order s clear_message] assms(1-3) by auto
  let ?t = "s1\<lparr>lm_path_map := None\<rparr>"
  let ?s' = "if added then link_added links l ?t else link_removed links l ?t"
  have keep: "lm_switches ?s' = lm_switches s1" "lm_next_XID ?s' = lm_next_XID s1"
    by (auto simp: link_kept link_added_def link_removed_def Let_def set_adjacency_def split: option.split)
  then have "\<forall>x. linked_up ?s' x = linked_up s x" using same_network_up [OF s1(3)] by (simp add: linked_up_def lm_connection_def)
  moreover have "xid_ok ?s'" using s1(2) keep(2) unfolding xid_ok_def by simp
  moreover have "dom (lm_switches ?s') = dom (lm_switches s)" using same_network_dom [OF s1(3)] keep(1) by simp
  moreover have "lm_mac_map ?s' = (if added then
      filter (\<lambda>(mac, loc). loc \<noteq> (dpid1 l, port1 l) \<and> loc \<noteq> (dpid2 l, port2 l)) (lm_mac_map s) else lm_mac_map s)"
    using s1(3) by (auto simp: same_network_def link_added_def link_removed_def Let_def set_adjacency_def split: option.split)
  moreover have "lm_LinkEvent order links added l s = (None, ?s')"
    using assms(4,5) s1(1) by (auto simp: lm_LinkEvent_def Let_def)
  ultimately show ?thesis by blast
qed

lemma moved_from_down:
  assumes "event_parse env ofp = Inr (PEthernet h n)" "e_type h \<noteq> 0x88cc" "map_of (lm_mac_map s) (e_src h) = Some (old, port)"
    "(old, port) \<noteq> (d, pi_in_port ofp)" "\<not> switch_port s order d (pi_in_port ofp)" "lm_connection s old = None"
  shows "lm_PacketIn env order d ofp s = Some (Some AttributeError, s)"
  using assms by (simp add: lm_PacketIn_def learn_source_def learn_move_def dpid_logged_def)

end
