(* ===== verification/VNS.thy ===== *)
theory VNS
  imports Addresses
begin


text \<open>
  \<^verbatim>\<open>pox_module/cs561/VNSProtocol.py\<close>: the messages between the controller and the software routers of the
  course. The transport (\<^verbatim>\<open>ltprotocol\<close>) is not part of the repository; here are the bodies of the messages, their
  lengths and the splitting of long texts. The lemmas are round trips, lengths and what is lost where a
  text does not fit.
\<close>

subsection \<open>Fixed-width text\<close>

text \<open>The code \<^verbatim>\<open>ns\<close> of a \<^verbatim>\<open>struct\<close> format: text that is too long is cut, text that is too short is padded.\<close>

definition pack_s :: "nat \<Rightarrow> bytes \<Rightarrow> bytes" where
  "pack_s n s = take n s @ replicate (n - length s) NUL"

text \<open>\<^verbatim>\<open>strip_null_chars\<close>; the pattern matches anywhere.\<close>

definition strip_null_chars :: "bytes \<Rightarrow> bytes" where
  "strip_null_chars s = strip_nul s"

definition IDSIZE :: nat where "IDSIZE = 32"

text \<open>A text that survives a field of \<open>n\<close> bytes.\<close>

definition fits :: "nat \<Rightarrow> bytes \<Rightarrow> bool" where
  "fits n s \<longleftrightarrow> length s \<le> n \<and> NUL \<notin> set s"

lemma length_pack_s [simp]: "length (pack_s n s) = n"
  by (simp add: pack_s_def)

lemma strip_null_pack_s: "strip_null_chars (pack_s n s) = strip_null_chars (take n s)"
  by (simp add: pack_s_def strip_null_chars_def strip_nul_def)

lemma strip_null_fits [simp]: "fits n s \<Longrightarrow> strip_null_chars (pack_s n s) = s"
  by (subst strip_null_pack_s) (simp add: strip_null_chars_def fits_def strip_nul_id)

lemma strip_null_clean: "NUL \<notin> set (strip_null_chars s)" "length (strip_null_chars s) \<le> length s"
  by (simp_all add: strip_null_chars_def strip_nul_def)

subsection \<open>Opening and closing\<close>

record vns_open =
  vo_topo_id :: int
  vo_vhost :: bytes
  vo_user :: bytes
  vo_pw :: bytes

definition VNSOpen_init :: "int \<Rightarrow> bytes \<Rightarrow> bytes \<Rightarrow> bytes \<Rightarrow> vns_open" where
  "VNSOpen_init topo_id virtualHostID UID pw = \<lparr>vo_topo_id = topo_id, vo_vhost = virtualHostID, vo_user = UID, vo_pw = pw\<rparr>"

definition VNSOpen_SIZE :: nat where
  "VNSOpen_SIZE = struct_calcsize ''!HH'' + IDSIZE + IDSIZE + IDSIZE"

definition VNSOpen_pack :: "vns_open \<Rightarrow> bytes result" where
  "VNSOpen_pack m = concatE [struct_pack ''!HH'' [vo_topo_id m, 0],
     Inr (pack_s IDSIZE (vo_vhost m)), Inr (pack_s IDSIZE (vo_user m)), Inr (pack_s IDSIZE (vo_pw m))]"

definition VNSOpen_unpack :: "bytes \<Rightarrow> vns_open result" where
  "VNSOpen_unpack body =
     (if length body \<noteq> VNSOpen_SIZE then Inl StructError
      else Inr (VNSOpen_init (struct_fields ''!HH'' body ! 0) (strip_null_chars (slice 4 36 body))
        (strip_null_chars (slice 36 68 body)) (strip_null_chars (slice 68 100 body))))"

definition VNSOpen_wf :: "vns_open \<Rightarrow> bool" where
  "VNSOpen_wf m \<longleftrightarrow> 0 \<le> vo_topo_id m \<and> vo_topo_id m < 65536 \<and> fits 32 (vo_vhost m) \<and> fits 32 (vo_user m) \<and> fits 32 (vo_pw m)"

record vns_close = vc_msg :: bytes

definition VNSClose_init :: "bytes \<Rightarrow> vns_close" where
  "VNSClose_init msg = \<lparr>vc_msg = msg\<rparr>"

definition VNSClose_SIZE :: nat where "VNSClose_SIZE = 256"

definition VNSClose_pack :: "vns_close \<Rightarrow> bytes result" where
  "VNSClose_pack m = Inr (pack_s 256 (vc_msg m))"

definition VNSClose_unpack :: "bytes \<Rightarrow> vns_close result" where
  "VNSClose_unpack body = (if length body \<noteq> VNSClose_SIZE then Inl StructError else Inr (VNSClose_init (strip_null_chars body)))"

record vns_banner = vb_msg :: bytes

definition VNSBanner_init :: "bytes \<Rightarrow> vns_banner" where
  "VNSBanner_init msg = \<lparr>vb_msg = msg\<rparr>"

definition VNSBanner_SIZE :: nat where "VNSBanner_SIZE = 256"

definition VNSBanner_pack :: "vns_banner \<Rightarrow> bytes result" where
  "VNSBanner_pack m = Inr (pack_s 256 (vb_msg m))"

definition VNSBanner_unpack :: "bytes \<Rightarrow> vns_banner result" where
  "VNSBanner_unpack body = (if length body \<noteq> VNSBanner_SIZE then Inl StructError else Inr (VNSBanner_init (strip_null_chars body)))"

subsection \<open>Packets and routing tables\<close>

record vns_packet =
  vp_intf_name :: bytes
  vp_ethernet_frame :: bytes

definition VNSPacket_init :: "bytes \<Rightarrow> bytes \<Rightarrow> vns_packet" where
  "VNSPacket_init intf_name ethernet_frame = \<lparr>vp_intf_name = intf_name, vp_ethernet_frame = ethernet_frame\<rparr>"

definition VNSPacket_HEADER_SIZE :: nat where "VNSPacket_HEADER_SIZE = 16"

definition VNSPacket_pack :: "vns_packet \<Rightarrow> bytes result" where
  "VNSPacket_pack m = Inr (pack_s 16 (vp_intf_name m) @ vp_ethernet_frame m)"

definition VNSPacket_unpack :: "bytes \<Rightarrow> vns_packet result" where
  "VNSPacket_unpack body =
     (let t = slice 0 VNSPacket_HEADER_SIZE body
      in if length t \<noteq> VNSPacket_HEADER_SIZE then Inl StructError
         else Inr (VNSPacket_init (strip_null_chars t) (drop VNSPacket_HEADER_SIZE body)))"

record vns_rtable =
  vr_vrhost :: bytes
  vr_rtable :: bytes

definition VNSRtable_init :: "bytes \<Rightarrow> bytes \<Rightarrow> vns_rtable" where
  "VNSRtable_init virtualHostID rtable = \<lparr>vr_vrhost = virtualHostID, vr_rtable = rtable\<rparr>"

definition VNSRtable_pack :: "vns_rtable \<Rightarrow> bytes result" where
  "VNSRtable_pack m = Inr (pack_s IDSIZE (vr_vrhost m) @ vr_rtable m)"

text \<open>Slices instead of a format: a body that is too short is no error.\<close>

definition VNSRtable_unpack :: "bytes \<Rightarrow> vns_rtable result" where
  "VNSRtable_unpack body = Inr (VNSRtable_init (strip_null_chars (slice 0 IDSIZE body)) (drop IDSIZE body))"

subsection \<open>Interfaces\<close>

record vns_interface =
  vi_name :: bytes
  vi_mac :: bytes
  vi_ip :: bytes
  vi_mask :: bytes

definition VNSInterface_init :: "bytes \<Rightarrow> bytes \<Rightarrow> bytes \<Rightarrow> bytes \<Rightarrow> vns_interface result" where
  "VNSInterface_init name mac ip msk =
     (if length mac \<noteq> 6 then Inl VNSProtocolException
      else if length ip \<noteq> 4 then Inl VNSProtocolException
      else if length msk \<noteq> 4 then Inl VNSProtocolException
      else Inr \<lparr>vi_name = name, vi_mac = mac, vi_ip = ip, vi_mask = msk\<rparr>)"

abbreviation (input) HWINTERFACE :: int where "HWINTERFACE \<equiv> 1"
abbreviation (input) HWSPEED :: int where "HWSPEED \<equiv> 2"
abbreviation (input) HWSUBNET :: int where "HWSUBNET \<equiv> 4"
abbreviation (input) HWETHER :: int where "HWETHER \<equiv> 32"
abbreviation (input) HWETHIP :: int where "HWETHIP \<equiv> 64"
abbreviation (input) HWMASK :: int where "HWMASK \<equiv> 128"

definition VNSInterface_SIZE :: nat where
  "VNSInterface_SIZE = (4 + 32) + (4 + 4 + 28) + (4 + 32) + (4 + 4 + 28) + (4 + 4 + 28) + (4 + 4 + 28)"

definition VNSInterface_pack :: "vns_interface \<Rightarrow> bytes result" where
  "VNSInterface_pack i = concatE
     [struct_pack ''!I'' [HWINTERFACE], Inr (pack_s 32 (vi_name i)),
      struct_pack ''!II'' [HWSPEED, 0], Inr (pack_s 28 []),
      struct_pack ''!I'' [HWETHER], Inr (pack_s 32 (vi_mac i)),
      struct_pack ''!I'' [HWETHIP], Inr (pack_s 4 (vi_ip i)), Inr (pack_s 28 []),
      struct_pack ''!II'' [HWSUBNET, 0], Inr (pack_s 28 []),
      struct_pack ''!I'' [HWMASK], Inr (pack_s 4 (vi_mask i)), Inr (pack_s 28 [])]"

record vns_hardware_info = vh_interfaces :: "vns_interface list"

definition VNSHardwareInfo_init :: "vns_interface list \<Rightarrow> vns_hardware_info" where
  "VNSHardwareInfo_init interfaces = \<lparr>vh_interfaces = interfaces\<rparr>"

definition VNSHardwareInfo_pack :: "vns_hardware_info \<Rightarrow> bytes result" where
  "VNSHardwareInfo_pack m = concatE (map VNSInterface_pack (vh_interfaces m))"

text \<open>What a client reads back from the part of one interface.\<close>

definition read_interface :: "bytes \<Rightarrow> vns_interface result" where
  "read_interface b = VNSInterface_init (strip_null_chars (slice 4 36 b)) (slice 76 82 b) (slice 112 116 b) (slice 184 188 b)"

subsection \<open>Templates\<close>

record vns_open_template =
  vt_template_name :: bytes
  vt_vrhost :: bytes
  vt_src_filters :: "(string \<times> int) list"

definition NO_SRC_FILTERS :: "(string \<times> int) list" where
  "NO_SRC_FILTERS = [(''0.0.0.0'', 0)]"

definition set_src_filters :: "(string \<times> int) list \<Rightarrow> (string \<times> int) list" where
  "set_src_filters src_filters = (if src_filters \<noteq> [] then src_filters else NO_SRC_FILTERS)"

definition VNSOpenTemplate_init :: "bytes \<Rightarrow> bytes \<Rightarrow> (string \<times> int) list \<Rightarrow> vns_open_template" where
  "VNSOpenTemplate_init template_name virtualHostID src_filters =
     \<lparr>vt_template_name = template_name, vt_vrhost = virtualHostID, vt_src_filters = set_src_filters src_filters\<rparr>"

definition VNSOpenTemplate_HEADER_SIZE :: nat where "VNSOpenTemplate_HEADER_SIZE = 30 + IDSIZE"

definition pack_filter :: "string \<times> int \<Rightarrow> bytes result" where
  "pack_filter f = concatE [inet_aton (fst f), struct_pack ''!B'' [snd f]]"

definition VNSOpenTemplate_pack :: "vns_open_template \<Rightarrow> bytes result" where
  "VNSOpenTemplate_pack m =
     bindE (concatE (map pack_filter (vt_src_filters m))) (\<lambda>body.
       Inr (pack_s 30 (vt_template_name m) @ pack_s IDSIZE (vt_vrhost m) @ body))"

definition unpack_filter :: "bytes \<Rightarrow> nat \<Rightarrow> (string \<times> int) result" where
  "unpack_filter sf i =
     (let mask = of_char (sf ! (i * 5 + 4))
      in if mask < 0 \<or> mask > 32 then Inl VNSProtocolException
         else Inr (inet_ntoa (slice (i * 5) (i * 5 + 4) sf), mask))"

definition VNSOpenTemplate_unpack :: "bytes \<Rightarrow> vns_open_template result" where
  "VNSOpenTemplate_unpack body =
     (let t = slice 0 VNSOpenTemplate_HEADER_SIZE body; sf = drop VNSOpenTemplate_HEADER_SIZE body
      in if length t \<noteq> VNSOpenTemplate_HEADER_SIZE then Inl StructError
         else bindE (mapE (unpack_filter sf) [0..<length sf div 5]) (\<lambda>fs.
           Inr (VNSOpenTemplate_init (strip_null_chars (slice 0 30 t)) (strip_null_chars (slice 30 62 t)) fs)))"

subsection \<open>Authentication\<close>

record vns_auth_request = vq_salt :: bytes

definition VNSAuthRequest_init :: "bytes \<Rightarrow> vns_auth_request" where
  "VNSAuthRequest_init salt = \<lparr>vq_salt = salt\<rparr>"

definition VNSAuthRequest_pack :: "vns_auth_request \<Rightarrow> bytes result" where
  "VNSAuthRequest_pack m = Inr (vq_salt m)"

definition VNSAuthRequest_unpack :: "bytes \<Rightarrow> vns_auth_request result" where
  "VNSAuthRequest_unpack body = Inr (VNSAuthRequest_init body)"

record vns_auth_reply =
  vy_username :: bytes
  vy_ssp :: bytes

definition VNSAuthReply_init :: "bytes \<Rightarrow> bytes \<Rightarrow> vns_auth_reply" where
  "VNSAuthReply_init username sha1_of_salted_pw = \<lparr>vy_username = username, vy_ssp = sha1_of_salted_pw\<rparr>"

definition VNSAuthReply_pack :: "vns_auth_reply \<Rightarrow> bytes result" where
  "VNSAuthReply_pack m = concatE [struct_pack ''!I'' [int (length (vy_username m))], Inr (vy_username m), Inr (vy_ssp m)]"

definition VNSAuthReply_unpack :: "bytes \<Rightarrow> vns_auth_reply result" where
  "VNSAuthReply_unpack body =
     bindE (struct_unpack ''!I'' (slice 0 4 body)) (\<lambda>t.
       let n = nat (t ! 0); body = drop 4 body
       in Inr (VNSAuthReply_init (slice 0 n body) (drop n body)))"

record vns_auth_status =
  vs_auth_ok :: bool
  vs_msg :: bytes

definition VNSAuthStatus_init :: "bool \<Rightarrow> bytes \<Rightarrow> vns_auth_status" where
  "VNSAuthStatus_init auth_ok msg = \<lparr>vs_auth_ok = auth_ok, vs_msg = msg\<rparr>"

definition VNSAuthStatus_pack :: "vns_auth_status \<Rightarrow> bytes result" where
  "VNSAuthStatus_pack m = concatE [struct_pack ''!B'' [of_bool (vs_auth_ok m)], Inr (vs_msg m)]"

definition VNSAuthStatus_unpack :: "bytes \<Rightarrow> vns_auth_status result" where
  "VNSAuthStatus_unpack body =
     bindE (struct_unpack ''!B'' (slice 0 1 body)) (\<lambda>t. Inr (VNSAuthStatus_init (t ! 0 \<noteq> 0) (drop 1 body)))"

subsection \<open>The registered messages\<close>

text \<open>\<^verbatim>\<open>VNS_MESSAGES\<close>: a value of this type is an object of one of the registered classes.\<close>

datatype vns_msg =
    MOpen vns_open
  | MClose vns_close
  | MPacket vns_packet
  | MBanner vns_banner
  | MHardwareInfo vns_hardware_info
  | MRtable vns_rtable
  | MOpenTemplate vns_open_template
  | MAuthRequest vns_auth_request
  | MAuthReply vns_auth_reply
  | MAuthStatus vns_auth_status

fun get_type :: "vns_msg \<Rightarrow> int" where
  "get_type (MOpen m) = 1"
| "get_type (MClose m) = 2"
| "get_type (MPacket m) = 4"
| "get_type (MBanner m) = 8"
| "get_type (MHardwareInfo m) = 16"
| "get_type (MRtable m) = 32"
| "get_type (MOpenTemplate m) = 64"
| "get_type (MAuthRequest m) = 128"
| "get_type (MAuthReply m) = 256"
| "get_type (MAuthStatus m) = 512"

text \<open>The method \<^verbatim>\<open>length\<close> of each class, which the transport writes in front of the body.\<close>

fun vns_length :: "vns_msg \<Rightarrow> nat" where
  "vns_length (MOpen m) = VNSOpen_SIZE"
| "vns_length (MClose m) = VNSClose_SIZE"
| "vns_length (MPacket m) = VNSPacket_HEADER_SIZE + length (vp_ethernet_frame m)"
| "vns_length (MBanner m) = VNSBanner_SIZE"
| "vns_length (MHardwareInfo m) = length (vh_interfaces m) * VNSInterface_SIZE"
| "vns_length (MRtable m) = IDSIZE + length (vr_rtable m)"
| "vns_length (MOpenTemplate m) = VNSOpenTemplate_HEADER_SIZE + 30 + 5 * length (vt_src_filters m)"
| "vns_length (MAuthRequest m) = length (vq_salt m)"
| "vns_length (MAuthReply m) = length (vy_username m) + length (vy_ssp m)"
| "vns_length (MAuthStatus m) = 1 + length (vs_msg m)"

fun vns_pack :: "vns_msg \<Rightarrow> bytes result" where
  "vns_pack (MOpen m) = VNSOpen_pack m"
| "vns_pack (MClose m) = VNSClose_pack m"
| "vns_pack (MPacket m) = VNSPacket_pack m"
| "vns_pack (MBanner m) = VNSBanner_pack m"
| "vns_pack (MHardwareInfo m) = VNSHardwareInfo_pack m"
| "vns_pack (MRtable m) = VNSRtable_pack m"
| "vns_pack (MOpenTemplate m) = VNSOpenTemplate_pack m"
| "vns_pack (MAuthRequest m) = VNSAuthRequest_pack m"
| "vns_pack (MAuthReply m) = VNSAuthReply_pack m"
| "vns_pack (MAuthStatus m) = VNSAuthStatus_pack m"

definition msg_of :: "('a \<Rightarrow> vns_msg) \<Rightarrow> 'a result \<Rightarrow> vns_msg result" where
  "msg_of c r = bindE r (\<lambda>m. Inr (c m))"

text \<open>The static method \<^verbatim>\<open>unpack\<close> of the class with a type number; \<open>None\<close> where the class has none.\<close>

definition VNS_MESSAGES :: "(int \<times> (bytes \<Rightarrow> vns_msg result) option) list" where
  "VNS_MESSAGES =
     [(1, Some (\<lambda>b. msg_of MOpen (VNSOpen_unpack b))),
      (2, Some (\<lambda>b. msg_of MClose (VNSClose_unpack b))),
      (4, Some (\<lambda>b. msg_of MPacket (VNSPacket_unpack b))),
      (8, Some (\<lambda>b. msg_of MBanner (VNSBanner_unpack b))),
      (16, None),
      (32, Some (\<lambda>b. msg_of MRtable (VNSRtable_unpack b))),
      (64, Some (\<lambda>b. msg_of MOpenTemplate (VNSOpenTemplate_unpack b))),
      (128, Some (\<lambda>b. msg_of MAuthRequest (VNSAuthRequest_unpack b))),
      (256, Some (\<lambda>b. msg_of MAuthReply (VNSAuthReply_unpack b))),
      (512, Some (\<lambda>b. msg_of MAuthStatus (VNSAuthStatus_unpack b)))]"

definition vns_unpack :: "int \<Rightarrow> bytes \<Rightarrow> vns_msg result option" where
  "vns_unpack t b = map_option (\<lambda>u. u b) (Option.bind (map_of VNS_MESSAGES t) (\<lambda>u. u))"

subsection \<open>Round trips\<close>

text \<open>A body is the whole of what is unpacked: its parser is told where it ends.\<close>

locale message_body =
  fixes packm :: "'a \<Rightarrow> bytes result"
    and unpackm :: "bytes \<Rightarrow> 'a result"
    and wf :: "'a \<Rightarrow> bool"
    and len :: "'a \<Rightarrow> nat"
  assumes packs: "wf m \<Longrightarrow> \<exists>b. packm m = Inr b"
    and unpack_pack: "wf m \<Longrightarrow> packm m = Inr b \<Longrightarrow> unpackm b = Inr m"
    and pack_length: "packm m = Inr b \<Longrightarrow> length b = len m"
begin

lemma round_trip: "wf m \<Longrightarrow> \<exists>b. packm m = Inr b \<and> unpackm b = Inr m \<and> length b = len m"
  using packs unpack_pack pack_length by blast

text \<open>Two messages with the same body are the same.\<close>

lemma same_body: "wf m \<Longrightarrow> wf n \<Longrightarrow> packm m = packm n \<Longrightarrow> m = n"
  by (metis packs unpack_pack sum.inject(2))

end

lemma fits_strip [simp]: "fits n s \<Longrightarrow> strip_null_chars s = s"
  by (simp add: fits_def strip_null_chars_def strip_nul_id)

lemma pack_topo:
  assumes "0 \<le> t" "t < 65536"
  shows "\<exists>b. struct_pack ''!HH'' [t, 0] = Inr b"
  using assms by (simp add: struct_pack.simps code_min_def code_max_def code_signed_def)

lemma VNSOpen_length: "VNSOpen_pack m = Inr b \<Longrightarrow> length b = VNSOpen_SIZE"
  by (auto simp: VNSOpen_pack_def VNSOpen_SIZE_def codec dest: struct_pack_length)

interpretation vns_open: message_body VNSOpen_pack VNSOpen_unpack VNSOpen_wf "\<lambda>_. VNSOpen_SIZE"
proof unfold_locales
  fix m b
  show "VNSOpen_pack m = Inr b \<Longrightarrow> length b = VNSOpen_SIZE" by (rule VNSOpen_length)
  assume w: "VNSOpen_wf m"
  then obtain h where h: "struct_pack ''!HH'' [vo_topo_id m, 0] = Inr h" using pack_topo by (auto simp: VNSOpen_wf_def)
  have p: "VNSOpen_pack m = Inr (h @ pack_s 32 (vo_vhost m) @ pack_s 32 (vo_user m) @ pack_s 32 (vo_pw m))"
    using h by (simp add: VNSOpen_pack_def concatE.simps IDSIZE_def)
  then show "\<exists>b. VNSOpen_pack m = Inr b" ..
  assume "VNSOpen_pack m = Inr b"
  moreover have "length h = 4" using struct_pack_length [OF h] by simp
  ultimately show "VNSOpen_unpack b = Inr m"
    using w p VNSOpen_length [of m b] h
    by (auto simp: VNSOpen_unpack_def VNSOpen_wf_def VNSOpen_init_def slice_def)
qed

interpretation vns_close: message_body VNSClose_pack VNSClose_unpack "\<lambda>m. fits 256 (vc_msg m)" "\<lambda>_. VNSClose_SIZE"
  by unfold_locales (auto simp: VNSClose_pack_def VNSClose_unpack_def VNSClose_SIZE_def VNSClose_init_def)

interpretation vns_banner: message_body VNSBanner_pack VNSBanner_unpack "\<lambda>m. fits 256 (vb_msg m)" "\<lambda>_. VNSBanner_SIZE"
  by unfold_locales (auto simp: VNSBanner_pack_def VNSBanner_unpack_def VNSBanner_SIZE_def VNSBanner_init_def)

interpretation vns_packet: message_body VNSPacket_pack VNSPacket_unpack "\<lambda>m. fits 16 (vp_intf_name m)"
    "\<lambda>m. VNSPacket_HEADER_SIZE + length (vp_ethernet_frame m)"
  by unfold_locales (auto simp: VNSPacket_pack_def VNSPacket_unpack_def VNSPacket_HEADER_SIZE_def VNSPacket_init_def slice_def)

interpretation vns_rtable: message_body VNSRtable_pack VNSRtable_unpack "\<lambda>m. fits 32 (vr_vrhost m)"
    "\<lambda>m. IDSIZE + length (vr_rtable m)"
  by unfold_locales (auto simp: VNSRtable_pack_def VNSRtable_unpack_def IDSIZE_def VNSRtable_init_def slice_def)

interpretation vns_auth_request: message_body VNSAuthRequest_pack VNSAuthRequest_unpack "\<lambda>_. True" "\<lambda>m. length (vq_salt m)"
  by unfold_locales (auto simp: VNSAuthRequest_pack_def VNSAuthRequest_unpack_def VNSAuthRequest_init_def)

interpretation vns_auth_status: message_body VNSAuthStatus_pack VNSAuthStatus_unpack "\<lambda>_. True" "\<lambda>m. 1 + length (vs_msg m)"
proof unfold_locales
  fix m b
  show "VNSAuthStatus_pack m = Inr b \<Longrightarrow> length b = 1 + length (vs_msg m)"
    by (auto simp: VNSAuthStatus_pack_def codec dest: struct_pack_length)
  show "\<exists>b. VNSAuthStatus_pack m = Inr b"
    by (cases "vs_auth_ok m") (simp_all add: VNSAuthStatus_pack_def concatE.simps struct_pack.simps code_min_def code_max_def code_signed_def)
  assume "VNSAuthStatus_pack m = Inr b"
  then obtain h where h: "struct_pack ''!B'' [of_bool (vs_auth_ok m)] = Inr h" "b = h @ vs_msg m"
    by (auto simp: VNSAuthStatus_pack_def codec)
  then have "length h = 1" using struct_pack_length by fastforce
  then show "VNSAuthStatus_unpack b = Inr m"
    using h by (simp add: VNSAuthStatus_unpack_def VNSAuthStatus_init_def slice_def struct_unpack_def)
qed

text \<open>The length that the class of authentication replies declares is short by the four bytes that count the name.\<close>

interpretation vns_auth_reply: message_body VNSAuthReply_pack VNSAuthReply_unpack "\<lambda>m. length (vy_username m) < 2 ^ 32"
    "\<lambda>m. 4 + (length (vy_username m) + length (vy_ssp m))"
proof unfold_locales
  fix m b
  show "VNSAuthReply_pack m = Inr b \<Longrightarrow> length b = 4 + (length (vy_username m) + length (vy_ssp m))"
    by (auto simp: VNSAuthReply_pack_def codec dest: struct_pack_length)
  assume w: "length (vy_username m) < 2 ^ 32"
  have "int (length (vy_username m)) < 4294967296" using w by simp
  then show "\<exists>b. VNSAuthReply_pack m = Inr b"
    by (simp add: VNSAuthReply_pack_def concatE.simps struct_pack.simps code_min_def code_max_def code_signed_def)
  assume "VNSAuthReply_pack m = Inr b"
  then obtain h where h: "struct_pack ''!I'' [int (length (vy_username m))] = Inr h" "b = h @ vy_username m @ vy_ssp m"
    by (auto simp: VNSAuthReply_pack_def codec)
  then have "length h = 4" using struct_pack_length by fastforce
  then show "VNSAuthReply_unpack b = Inr m"
    using h by (simp add: VNSAuthReply_unpack_def VNSAuthReply_init_def slice_def struct_unpack_def)
qed

subsection \<open>Filters of a template\<close>

definition filter_ok :: "string \<times> int \<Rightarrow> bool" where
  "filter_ok f \<longleftrightarrow> (case inet_aton (fst f) of Inl e \<Rightarrow> False | Inr b \<Rightarrow> inet_ntoa b = fst f) \<and> 0 \<le> snd f \<and> snd f \<le> 32"

lemma aton_parts_length: "aton_parts k ns = Some b \<Longrightarrow> 0 < k \<and> length b = k"
  by (induction k ns arbitrary: b rule: aton_parts.induct) (auto split: if_splits)

lemma inet_aton_length: "inet_aton s = Inr b \<Longrightarrow> length b = 4"
  by (auto simp: inet_aton_def Let_def dest: aton_parts_length split: option.splits)

lemma pack_filter_length: "pack_filter f = Inr b \<Longrightarrow> length b = 5"
proof -
  assume "pack_filter f = Inr b"
  then obtain x y where "inet_aton (fst f) = Inr x" "struct_pack ''!B'' [snd f] = Inr y" "b = x @ y"
    by (auto simp: pack_filter_def codec)
  then show "length b = 5" using inet_aton_length [of "fst f" x] struct_pack_length [of _ _ y] by fastforce
qed

lemma pack_filters_length: "concatE (map pack_filter fs) = Inr b \<Longrightarrow> length b = 5 * length fs"
  by (induction fs arbitrary: b) (auto simp: codec dest: pack_filter_length)

lemma VNSOpenTemplate_length:
  "VNSOpenTemplate_pack m = Inr b \<Longrightarrow> length b = VNSOpenTemplate_HEADER_SIZE + 5 * length (vt_src_filters m)"
  by (auto simp: VNSOpenTemplate_pack_def VNSOpenTemplate_HEADER_SIZE_def IDSIZE_def dest: pack_filters_length)

lemma pack_filter_ok:
  assumes "filter_ok f"
  obtains a where "pack_filter f = Inr (a @ [char_of (snd f)])" "length a = 4" "inet_ntoa a = fst f"
proof -
  obtain a where a: "inet_aton (fst f) = Inr a" "inet_ntoa a = fst f" using assms by (auto simp: filter_ok_def split: sum.splits)
  have l: "length a = 4" by (rule inet_aton_length [OF a(1)])
  have "0 \<le> snd f" "snd f \<le> 32" using assms by (simp_all add: filter_ok_def)
  then have "struct_pack ''!B'' [snd f] = Inr [char_of (snd f)]"
    by (simp add: struct_pack.simps code_min_def code_max_def code_signed_def numeral_eq_Suc)
  then have "pack_filter f = Inr (a @ [char_of (snd f)])"
    using a by (simp add: pack_filter_def concatE.simps)
  then show ?thesis using that a l by simp
qed

lemma unpack_filter_head:
  assumes "filter_ok f" "pack_filter f = Inr c"
  shows "unpack_filter (c @ sf) 0 = Inr f"
proof -
  obtain a where a: "c = a @ [char_of (snd f)]" "length a = 4" "inet_ntoa a = fst f"
    using pack_filter_ok [OF assms(1)] assms(2) by (metis sum.inject(2))
  moreover have "0 \<le> snd f" "snd f \<le> 32" using assms(1) by (simp_all add: filter_ok_def)
  moreover from this have "of_char (char_of (snd f)) = snd f" by (simp add: of_char_of)
  ultimately show ?thesis by (simp add: unpack_filter_def slice_def nth_append prod_eq_iff)
qed

lemma unpack_filter_Suc:
  assumes "length c = 5"
  shows "unpack_filter (c @ sf) (Suc i) = unpack_filter sf i"
  using assms by (simp add: unpack_filter_def slice_def Let_def nth_append add.commute)

lemma mapE_map: "mapE f (map g xs) = mapE (\<lambda>x. f (g x)) xs"
  by (induction xs) auto

lemma unpack_filters:
  assumes "\<forall>f \<in> set fs. filter_ok f" "concatE (map pack_filter fs) = Inr sf"
  shows "mapE (unpack_filter sf) [0..<length sf div 5] = Inr fs"
  using assms
proof (induction fs arbitrary: sf)
  case (Cons f fs)
  obtain c sf' where c: "pack_filter f = Inr c" "concatE (map pack_filter fs) = Inr sf'" "sf = c @ sf'"
    using Cons.prems(2) by (auto simp: codec)
  have l: "length c = 5" by (rule pack_filter_length [OF c(1)])
  have "length sf div 5 = Suc (length sf' div 5)" using l c(3) by simp
  then have "[0..<length sf div 5] = 0 # map Suc [0..<length sf' div 5]"
    by (simp only: upt_conv_Cons map_Suc_upt)
  moreover have "unpack_filter sf 0 = Inr f" using unpack_filter_head [OF _ c(1)] Cons.prems(1) c(3) by simp
  moreover have "unpack_filter sf (Suc i) = unpack_filter sf' i" for i
    unfolding c(3) by (rule unpack_filter_Suc [OF l])
  ultimately show ?case using Cons.IH [OF _ c(2)] Cons.prems(1) by (simp add: mapE_map)
qed simp

lemma pack_filters_ok: "\<forall>f \<in> set fs. filter_ok f \<Longrightarrow> \<exists>sf. concatE (map pack_filter fs) = Inr sf"
  by (induction fs) (auto simp: concatE.simps elim!: pack_filter_ok)

definition VNSOpenTemplate_wf :: "vns_open_template \<Rightarrow> bool" where
  "VNSOpenTemplate_wf m \<longleftrightarrow> fits 30 (vt_template_name m) \<and> fits 32 (vt_vrhost m) \<and>
     vt_src_filters m \<noteq> [] \<and> (\<forall>f \<in> set (vt_src_filters m). filter_ok f)"

text \<open>The declared length of a template is thirty bytes more.\<close>

interpretation vns_open_template: message_body VNSOpenTemplate_pack VNSOpenTemplate_unpack VNSOpenTemplate_wf
    "\<lambda>m. VNSOpenTemplate_HEADER_SIZE + 5 * length (vt_src_filters m)"
proof unfold_locales
  fix m b
  show "VNSOpenTemplate_pack m = Inr b \<Longrightarrow> length b = VNSOpenTemplate_HEADER_SIZE + 5 * length (vt_src_filters m)"
    by (rule VNSOpenTemplate_length)
  assume w: "VNSOpenTemplate_wf m"
  then show "\<exists>b. VNSOpenTemplate_pack m = Inr b"
    using pack_filters_ok [of "vt_src_filters m"] by (auto simp: VNSOpenTemplate_pack_def VNSOpenTemplate_wf_def)
  assume "VNSOpenTemplate_pack m = Inr b"
  then obtain sf where sf: "concatE (map pack_filter (vt_src_filters m)) = Inr sf"
      "b = pack_s 30 (vt_template_name m) @ pack_s 32 (vt_vrhost m) @ sf"
    by (auto simp: VNSOpenTemplate_pack_def IDSIZE_def)
  moreover have "mapE (unpack_filter sf) [0..<length sf div 5] = Inr (vt_src_filters m)"
    using w by (intro unpack_filters [OF _ sf(1)]) (simp add: VNSOpenTemplate_wf_def)
  ultimately show "VNSOpenTemplate_unpack b = Inr m"
    using w by (simp add: VNSOpenTemplate_unpack_def VNSOpenTemplate_HEADER_SIZE_def IDSIZE_def slice_def Let_def
      VNSOpenTemplate_wf_def VNSOpenTemplate_init_def set_src_filters_def)
qed

subsection \<open>Hardware information\<close>

lemma struct_pack_words:
  "\<exists>b. struct_pack ''!I'' [HWINTERFACE] = Inr b \<and> length b = 4" "\<exists>b. struct_pack ''!II'' [HWSPEED, 0] = Inr b \<and> length b = 8"
  "\<exists>b. struct_pack ''!I'' [HWETHER] = Inr b \<and> length b = 4" "\<exists>b. struct_pack ''!I'' [HWETHIP] = Inr b \<and> length b = 4"
  "\<exists>b. struct_pack ''!II'' [HWSUBNET, 0] = Inr b \<and> length b = 8" "\<exists>b. struct_pack ''!I'' [HWMASK] = Inr b \<and> length b = 4"
  by (simp_all add: struct_pack.simps code_min_def code_max_def code_signed_def)

definition VNSInterface_wf :: "vns_interface \<Rightarrow> bool" where
  "VNSInterface_wf i \<longleftrightarrow> fits 32 (vi_name i) \<and> length (vi_mac i) = 6 \<and> length (vi_ip i) = 4 \<and> length (vi_mask i) = 4"

lemma VNSInterface_packs: "\<exists>b. VNSInterface_pack i = Inr b \<and> length b = VNSInterface_SIZE"
proof -
  note w = struct_pack_words
  from w obtain a b c d e f where
    "struct_pack ''!I'' [HWINTERFACE] = Inr a" "struct_pack ''!II'' [HWSPEED, 0] = Inr b" "struct_pack ''!I'' [HWETHER] = Inr c"
    "struct_pack ''!I'' [HWETHIP] = Inr d" "struct_pack ''!II'' [HWSUBNET, 0] = Inr e" "struct_pack ''!I'' [HWMASK] = Inr f"
    "length a = 4" "length b = 8" "length c = 4" "length d = 4" "length e = 8" "length f = 4" by blast
  then show ?thesis by (simp add: VNSInterface_pack_def concatE.simps VNSInterface_SIZE_def)
qed

lemma read_interface_pack:
  assumes "VNSInterface_wf i" "VNSInterface_pack i = Inr x"
  shows "read_interface x = Inr i"
proof -
  note w = struct_pack_words
  from w obtain a b c d e f where
    "struct_pack ''!I'' [HWINTERFACE] = Inr a" "struct_pack ''!II'' [HWSPEED, 0] = Inr b" "struct_pack ''!I'' [HWETHER] = Inr c"
    "struct_pack ''!I'' [HWETHIP] = Inr d" "struct_pack ''!II'' [HWSUBNET, 0] = Inr e" "struct_pack ''!I'' [HWMASK] = Inr f"
    and l: "length a = 4" "length b = 8" "length c = 4" "length d = 4" "length e = 8" "length f = 4" by blast
  then have x: "x = a @ pack_s 32 (vi_name i) @ b @ pack_s 28 [] @ c @ pack_s 32 (vi_mac i) @ d @ pack_s 4 (vi_ip i) @ pack_s 28 [] @
      e @ pack_s 28 [] @ f @ pack_s 4 (vi_mask i) @ pack_s 28 []"
    using assms(2) by (simp add: VNSInterface_pack_def concatE.simps)
  have m: "pack_s 32 (vi_mac i) = vi_mac i @ replicate 26 NUL" "pack_s 4 (vi_ip i) = vi_ip i" "pack_s 4 (vi_mask i) = vi_mask i"
    using assms(1) by (simp_all add: pack_s_def VNSInterface_wf_def)
  show ?thesis using assms(1) l unfolding x m
    by (simp add: read_interface_def VNSInterface_init_def VNSInterface_wf_def slice_def)
qed

lemma VNSHardwareInfo_length:
  "VNSHardwareInfo_pack m = Inr b \<Longrightarrow> length b = length (vh_interfaces m) * VNSInterface_SIZE"
proof -
  have "concatE (map VNSInterface_pack is) = Inr b \<Longrightarrow> length b = length is * VNSInterface_SIZE" for "is" b
  proof (induction "is" arbitrary: b)
    case (Cons i "is")
    then show ?case using VNSInterface_packs [of i] by (auto simp: codec)
  qed simp
  then show "VNSHardwareInfo_pack m = Inr b \<Longrightarrow> length b = length (vh_interfaces m) * VNSInterface_SIZE"
    by (simp add: VNSHardwareInfo_pack_def)
qed

subsection \<open>All messages\<close>

text \<open>The messages that survive: texts without zero bytes that fit their fields, and canonical addresses.\<close>

fun vns_wf :: "vns_msg \<Rightarrow> bool" where
  "vns_wf (MOpen m) = VNSOpen_wf m"
| "vns_wf (MClose m) = fits 256 (vc_msg m)"
| "vns_wf (MPacket m) = fits 16 (vp_intf_name m)"
| "vns_wf (MBanner m) = fits 256 (vb_msg m)"
| "vns_wf (MHardwareInfo m) = False"
| "vns_wf (MRtable m) = fits 32 (vr_vrhost m)"
| "vns_wf (MOpenTemplate m) = VNSOpenTemplate_wf m"
| "vns_wf (MAuthRequest m) = True"
| "vns_wf (MAuthReply m) = (length (vy_username m) < 2 ^ 32)"
| "vns_wf (MAuthStatus m) = True"

lemma vns_unpack_simps [simp]:
  "vns_unpack 1 b = Some (msg_of MOpen (VNSOpen_unpack b))"
  "vns_unpack 2 b = Some (msg_of MClose (VNSClose_unpack b))"
  "vns_unpack 4 b = Some (msg_of MPacket (VNSPacket_unpack b))"
  "vns_unpack 8 b = Some (msg_of MBanner (VNSBanner_unpack b))"
  "vns_unpack 16 b = None"
  "vns_unpack 32 b = Some (msg_of MRtable (VNSRtable_unpack b))"
  "vns_unpack 64 b = Some (msg_of MOpenTemplate (VNSOpenTemplate_unpack b))"
  "vns_unpack 128 b = Some (msg_of MAuthRequest (VNSAuthRequest_unpack b))"
  "vns_unpack 256 b = Some (msg_of MAuthReply (VNSAuthReply_unpack b))"
  "vns_unpack 512 b = Some (msg_of MAuthStatus (VNSAuthStatus_unpack b))"
  by (simp_all add: vns_unpack_def VNS_MESSAGES_def)

lemma vns_trip:
  assumes "vns_wf m"
  shows "\<exists>b. vns_pack m = Inr b \<and> vns_unpack (get_type m) b = Some (Inr m)"
proof (cases m)
  case (MOpen x) with assms show ?thesis using vns_open.round_trip [of x] by (auto simp: msg_of_def)
next
  case (MClose x) with assms show ?thesis using vns_close.round_trip [of x] by (auto simp: msg_of_def)
next
  case (MPacket x) with assms show ?thesis using vns_packet.round_trip [of x] by (auto simp: msg_of_def)
next
  case (MBanner x) with assms show ?thesis using vns_banner.round_trip [of x] by (auto simp: msg_of_def)
next
  case (MRtable x) with assms show ?thesis using vns_rtable.round_trip [of x] by (auto simp: msg_of_def)
next
  case (MOpenTemplate x) with assms show ?thesis using vns_open_template.round_trip [of x] by (auto simp: msg_of_def)
next
  case (MAuthRequest x) with assms show ?thesis using vns_auth_request.round_trip [of x] by (auto simp: msg_of_def)
next
  case (MAuthReply x) with assms show ?thesis using vns_auth_reply.round_trip [of x] by (auto simp: msg_of_def)
next
  case (MAuthStatus x) with assms show ?thesis using vns_auth_status.round_trip [of x] by (auto simp: msg_of_def)
qed (use assms in simp)

text \<open>How far the declared length is off.\<close>

fun length_error :: "vns_msg \<Rightarrow> int" where
  "length_error (MOpenTemplate m) = 30"
| "length_error (MAuthReply m) = -4"
| "length_error _ = 0"

lemma vns_body_length:
  assumes "vns_pack m = Inr b"
  shows "int (vns_length m) = int (length b) + length_error m"
  using assms
proof (cases m)
  case (MOpenTemplate x) with assms show ?thesis using vns_open_template.pack_length [of x b] by simp
next
  case (MAuthReply x) with assms show ?thesis using vns_auth_reply.pack_length [of x b] by simp
qed (use vns_open.pack_length vns_close.pack_length vns_packet.pack_length vns_banner.pack_length VNSHardwareInfo_length
    vns_rtable.pack_length vns_auth_request.pack_length vns_auth_status.pack_length assms in force)+

text \<open>The interfaces of a hardware description can be read back one by one.\<close>

lemma hardware_info_reads:
  assumes "\<forall>i \<in> set (vh_interfaces m). VNSInterface_wf i"
  shows "\<exists>b. VNSHardwareInfo_pack m = Inr b \<and>
    (\<forall>k < length (vh_interfaces m). read_interface (slice (k * 216) (k * 216 + 216) b) = Inr (vh_interfaces m ! k))"
proof -
  have "\<exists>b. concatE (map VNSInterface_pack xs) = Inr b \<and> (\<forall>k < length xs. read_interface (slice (k * 216) (k * 216 + 216) b) = Inr (xs ! k))"
    if "\<forall>i \<in> set xs. VNSInterface_wf i" for xs
    using that
  proof (induction xs)
    case (Cons x xs)
    then obtain b where b: "concatE (map VNSInterface_pack xs) = Inr b"
      "\<And>k. k < length xs \<Longrightarrow> read_interface (slice (k * 216) (k * 216 + 216) b) = Inr (xs ! k)" by auto
    obtain a where a: "VNSInterface_pack x = Inr a" "length a = 216"
      using VNSInterface_packs [of x] by (auto simp: VNSInterface_SIZE_def)
    have sl: "slice (k * 216) (k * 216 + 216) (a @ b) = (if k = 0 then a else slice ((k - 1) * 216) ((k - 1) * 216 + 216) b)" for k
      using a(2) by (cases k) (simp_all add: slice_def)
    have "read_interface (slice (k * 216) (k * 216 + 216) (a @ b)) = Inr ((x # xs) ! k)" if "k < length (x # xs)" for k
      unfolding sl using that b(2) [of "k - 1"] read_interface_pack [OF _ a(1)] Cons.prems by (cases k) simp_all
    then show ?case using a(1) b(1) by (simp add: concatE.simps)
  qed (simp add: concatE.simps)
  with assms show ?thesis by (simp add: VNSHardwareInfo_pack_def)
qed

subsection \<open>Splitting a text\<close>

text \<open>\<^verbatim>\<open>msg[i*255:(i+1)*255]\<close>\<close>

definition piece :: "nat \<Rightarrow> 'a list \<Rightarrow> 'a list" where
  "piece i s = slice (i * 255) ((i + 1) * 255) s"

definition get_banners :: "bytes \<Rightarrow> vns_banner list" where
  "get_banners msg = (let n = length msg div 255 + 1 in map (\<lambda>i. VNSBanner_init (piece i msg)) [0..<n])"

definition get_banners_and_close :: "bytes \<Rightarrow> vns_msg list" where
  "get_banners_and_close msg =
     (let n = length msg div 255 + 1
      in map (\<lambda>i. if i + 1 < n then MBanner (VNSBanner_init (piece i msg)) else MClose (VNSClose_init (piece i msg))) [0..<n])"

fun msg_text :: "vns_msg \<Rightarrow> bytes" where
  "msg_text (MBanner m) = vb_msg m"
| "msg_text (MClose m) = vc_msg m"
| "msg_text _ = []"

lemma concat_pieces: "concat (map (\<lambda>i. piece i s) [0..<n]) = take (n * 255) s"
proof (induction n)
  case (Suc n)
  have "take (Suc n * 255) s = take (n * 255) s @ take 255 (drop (n * 255) s)"
    by (metis add.commute mult_Suc take_add)
  then show ?case using Suc by (simp add: piece_def slice_def)
qed simp

lemma piece_bounds: "length (piece i s) \<le> 255" "set (piece i s) \<subseteq> set s"
  by (auto simp: piece_def slice_def dest: in_set_takeD in_set_dropD)

lemma all_pieces: "take ((length s div 255 + 1) * 255) s = s"
proof -
  have "length s < (length s div 255 + 1) * 255"
    using dividend_less_div_times [of 255 "length s"] by simp
  then show ?thesis by simp
qed

lemma last_piece: "length (piece (length s div 255) s) = length s mod 255"
proof -
  have "length s - length s div 255 * 255 = length s mod 255" by (rule minus_div_mult_eq_mod)
  moreover have "length s mod 255 < 255" by simp
  ultimately show ?thesis by (simp add: piece_def slice_def)
qed

lemma split_texts:
  "concat (map msg_text (get_banners_and_close msg)) = msg"
  "concat (map vb_msg (get_banners msg)) = msg"
proof -
  have "concat (map (\<lambda>i. msg_text ((if i + 1 < n then MBanner (VNSBanner_init (piece i msg)) else MClose (VNSClose_init (piece i msg))))) [0..<n]) =
      concat (map (\<lambda>i. piece i msg) [0..<n])" for n
    by (intro arg_cong [where f = concat] map_cong) (simp_all add: VNSBanner_init_def VNSClose_init_def)
  then show "concat (map msg_text (get_banners_and_close msg)) = msg"
    unfolding get_banners_and_close_def Let_def map_map comp_def concat_pieces all_pieces by (simp only: concat_pieces all_pieces)
  have "concat (map vb_msg (get_banners msg)) = concat (map (\<lambda>i. piece i msg) [0..<length msg div 255 + 1])"
    by (simp add: get_banners_def Let_def comp_def VNSBanner_init_def)
  then show "concat (map vb_msg (get_banners msg)) = msg" by (simp only: concat_pieces all_pieces)
qed

text \<open>Banners followed by one closing message; the closing text is empty when the length is a multiple of 255.\<close>

lemma banners_then_close:
  "\<exists>bs c. get_banners_and_close msg = map MBanner bs @ [MClose c] \<and> length bs = length msg div 255 \<and>
    length (vc_msg c) = length msg mod 255 \<and> (\<forall>b \<in> set bs. length (vb_msg b) \<le> 255)"
proof -
  let ?n = "length msg div 255"
  have "get_banners_and_close msg = map MBanner (map (\<lambda>i. VNSBanner_init (piece i msg)) [0..<?n]) @ [MClose (VNSClose_init (piece ?n msg))]"
    by (simp add: get_banners_and_close_def Let_def)
  moreover have "length (vc_msg (VNSClose_init (piece ?n msg))) = length msg mod 255"
    by (simp add: VNSClose_init_def last_piece)
  ultimately show ?thesis using piece_bounds(1)
    by (intro exI [of _ "map (\<lambda>i. VNSBanner_init (piece i msg)) [0..<?n]"] exI [of _ "VNSClose_init (piece ?n msg)"]) (auto simp: VNSBanner_init_def)
qed

text \<open>Every piece survives the wire when the text has no zero byte.\<close>

lemma pieces_wf:
  assumes "NUL \<notin> set msg" "m \<in> set (get_banners_and_close msg)"
  shows "vns_wf m"
proof -
  have "fits 256 (piece i msg)" for i
    using piece_bounds [of i msg] assms(1) by (auto simp: fits_def)
  then show ?thesis using assms(2)
    by (auto simp: get_banners_and_close_def Let_def VNSBanner_init_def VNSClose_init_def split: if_splits)
qed

end
