(* ===== verification/SR_Handler.thy ===== *)
theory SR_Handler
  imports VNS L2_Learning
begin

text \<open>
  \<^verbatim>\<open>pox_module/cs561/ofhandler.py\<close> and \<^verbatim>\<open>srhandler.py\<close>: the controller hands the frames that reach a switch to the
  software routers of the course and sends what they answer. The lemmas follow a frame in both directions.
\<close>

subsection \<open>State\<close>

text \<open>
  Connections of clients are objects of the transport, here numbers. What \<^verbatim>\<open>send\<close> of a client was called with is
  recorded; the environment says whether the transport raises, and gives the text of a connection.
  \<open>sr_interfaces\<close> is \<open>None\<close> while the attribute has not been assigned.
\<close>

datatype sr_payload = VnsMsg vns_msg | StrMsg string

record sr_server =
  srclients :: "nat list"
  intfname_to_port :: "string \<rightharpoonup> int"
  port_to_intfname :: "int \<rightharpoonup> string"
  sr_interfaces :: "vns_interface list option"
  sr_outbox :: "(nat \<times> sr_payload) list"
  sr_lost :: "nat list"

record transport =
  tr_send :: "nat \<Rightarrow> sr_payload \<Rightarrow> py_error option"
  tr_str :: "nat \<Rightarrow> string"

type_synonym port_info = "string \<times> string \<times> string \<times> int"

record of_handler =
  oh_connection :: connection
  oh_transparent :: bool
  oh_sw_info :: "string \<rightharpoonup> port_info"

definition SRServerListener_init :: sr_server where
  "SRServerListener_init = \<lparr>srclients = [], intfname_to_port = Map.empty, port_to_intfname = Map.empty,
     sr_interfaces = None, sr_outbox = [], sr_lost = []\<rparr>"

text \<open>\<^verbatim>\<open>pack_mac\<close> and \<^verbatim>\<open>pack_ip\<close>\<close>

definition pack_mac :: "string \<Rightarrow> bytes result" where
  "pack_mac macaddr = mapE (\<lambda>b. bindE (py_int 16 b) py_chr) (split_on (CHR '':'') macaddr)"

definition pack_ip :: "string \<Rightarrow> bytes result" where
  "pack_ip ipaddr = mapE (\<lambda>b. bindE (py_int 10 b) py_chr) (split_on (CHR ''.'') ipaddr)"

subsection \<open>The server of the routers\<close>

definition conn_send :: "transport \<Rightarrow> nat \<Rightarrow> sr_payload \<Rightarrow> sr_server stmt" where
  "conn_send tr conn message s = (tr_send tr conn message, s\<lparr>sr_outbox := sr_outbox s @ [(conn, message)]\<rparr>)"

definition lose_connection :: "nat \<Rightarrow> sr_server stmt" where
  "lose_connection conn = update (\<lambda>s. s\<lparr>sr_lost := sr_lost s @ [conn]\<rparr>)"

definition broadcast :: "transport \<Rightarrow> vns_msg \<Rightarrow> sr_server stmt" where
  "broadcast tr message s = seq (map (\<lambda>client. conn_send tr client (VnsMsg message)) (srclients s)) s"

text \<open>A frame of \<open>None\<close> is printed by \<^verbatim>\<open>str\<close>.\<close>

definition sr_SRPacketIn :: "transport \<Rightarrow> bytes option \<Rightarrow> int \<Rightarrow> sr_server stmt" where
  "sr_SRPacketIn tr pkt port s =
     (case port_to_intfname s port of
        None \<Rightarrow> (None, s)
      | Some intfname \<Rightarrow>
          broadcast tr (MPacket (VNSPacket_init intfname (case pkt of None \<Rightarrow> ''None'' | Some d \<Rightarrow> d))) s)"

text \<open>The loop over the interfaces, in the order in which the dictionary lists them.\<close>

fun router_info_loop :: "(string \<times> port_info) list \<Rightarrow> vns_interface list \<Rightarrow> sr_server \<Rightarrow> py_error option \<times> vns_interface list \<times> sr_server" where
  "router_info_loop [] interfaces s = (None, interfaces, s)"
| "router_info_loop ((intf, ip, mac, rate, port) # info) interfaces s =
     (case bindE (pack_ip ip) (\<lambda>ip. bindE (pack_mac mac) (\<lambda>mac. bindE (pack_ip ''255.255.255.255'') (\<lambda>msk.
         VNSInterface_init intf mac ip msk))) of
        Inl e \<Rightarrow> (Some e, interfaces, s)
      | Inr i \<Rightarrow> router_info_loop info (interfaces @ [i])
          (s\<lparr>intfname_to_port := (intfname_to_port s)(intf \<mapsto> port), port_to_intfname := (port_to_intfname s)(port \<mapsto> intf)\<rparr>))"

definition sr_RouterInfo :: "(string \<times> port_info) list \<Rightarrow> sr_server stmt" where
  "sr_RouterInfo info s =
     (case router_info_loop info [] s of
        (Some e, _, s) \<Rightarrow> (Some e, s)
      | (None, interfaces, s) \<Rightarrow> (None, s\<lparr>sr_interfaces := Some interfaces\<rparr>))"

definition sr_auth_reply :: "transport \<Rightarrow> nat \<Rightarrow> sr_server stmt" where
  "sr_auth_reply tr conn =
     conn_send tr conn (VnsMsg (MAuthStatus (VNSAuthStatus_init True (''authenticated '' @ tr_str tr conn @ '' as user''))))"

text \<open>The salt is what \<^verbatim>\<open>os.urandom(20)\<close> returns.\<close>

definition sr_new_client :: "transport \<Rightarrow> bytes \<Rightarrow> nat \<Rightarrow> sr_server stmt" where
  "sr_new_client tr salt conn s =
     conn_send tr conn (VnsMsg (MAuthRequest (VNSAuthRequest_init salt))) (s\<lparr>srclients := srclients s @ [conn]\<rparr>)"

definition sr_client_disconnected :: "nat \<Rightarrow> sr_server stmt" where
  "sr_client_disconnected conn = lose_connection conn"

text \<open>Every exception is swallowed, the missing attribute as well as an error of the transport.\<close>

definition sr_open_msg :: "transport \<Rightarrow> nat \<Rightarrow> vns_open \<Rightarrow> sr_server stmt" where
  "sr_open_msg tr conn m s =
     (case sr_interfaces s of
        None \<Rightarrow> (None, s)
      | Some interfaces \<Rightarrow> (None, snd (conn_send tr conn (VnsMsg (MHardwareInfo (VNSHardwareInfo_init interfaces))) s)))"

definition sr_close_msg :: "transport \<Rightarrow> nat \<Rightarrow> sr_server stmt" where
  "sr_close_msg tr conn = seq [conn_send tr conn (StrMsg ''Goodbyte!''), lose_connection conn]"

subsection \<open>The handler of a switch\<close>

text \<open>A handler sends on its connection; transaction ids come from the global counter.\<close>

definition oh_send :: "(int \<Rightarrow> (bytes option \<times> 'a ofp_header_scheme \<times> int) result) \<Rightarrow> (of_handler \<times> int) stmt" where
  "oh_send pack s = (case s of (h, nx) \<Rightarrow>
     (case con_send pack (\<lambda>_ c. c) ((oh_connection h)\<lparr>next_XID := nx\<rparr>) of
        (e, c) \<Rightarrow> (e, h\<lparr>oh_connection := c\<rparr>, next_XID c)))"

text \<open>The ports whose name has a second part that the configuration knows.\<close>

fun sw_info_loop :: "(string \<rightharpoonup> string) \<Rightarrow> ofp_phy_port list \<Rightarrow> (string \<rightharpoonup> port_info) \<Rightarrow> (string \<rightharpoonup> port_info) result" where
  "sw_info_loop ROUTER_IP [] info = Inr info"
| "sw_info_loop ROUTER_IP (port # ports) info =
     (let parts = split_on (CHR ''-'') (pp_name port)
      in if length parts < 2 then sw_info_loop ROUTER_IP ports info
         else case ROUTER_IP (parts ! 1) of
           None \<Rightarrow> sw_info_loop ROUTER_IP ports info
         | Some ip \<Rightarrow>
             (case pp_hw_addr port of
                HwBytes _ \<Rightarrow> Inl AttributeError
              | HwEth a \<Rightarrow> sw_info_loop ROUTER_IP ports (info(parts ! 1 \<mapsto> (ip, eth_toStr '':'' a, ''10Gbps'', pp_port_no port)))))"

text \<open>The constructor up to the subscriptions.\<close>

definition OFHandler_init :: "(string \<rightharpoonup> string) \<Rightarrow> connection \<Rightarrow> bool \<Rightarrow> int \<Rightarrow> py_error option \<times> of_handler \<times> int" where
  "OFHandler_init ROUTER_IP connection transparent nx =
     (case oh_send (ofp_switch_config_pack True (ofp_switch_config_init (\<lambda>m. m\<lparr>sc_miss_send_len := 20000\<rparr>)))
         (\<lparr>oh_connection = connection, oh_transparent = transparent, oh_sw_info = Map.empty\<rparr>, nx) of
        (Some e, h, nx) \<Rightarrow> (Some e, h, nx)
      | (None, h, nx) \<Rightarrow>
          (case con_features (oh_connection h) of
             None \<Rightarrow> (Some AttributeError, h, nx)
           | Some f \<Rightarrow> (case sw_info_loop ROUTER_IP (fr_ports f) Map.empty of
               Inl e \<Rightarrow> (Some e, h, nx)
             | Inr info \<Rightarrow> (None, h\<lparr>oh_sw_info := info\<rparr>, nx))))"

definition oh_SRPacketOut :: "bytes \<Rightarrow> int \<Rightarrow> (of_handler \<times> int) stmt" where
  "oh_SRPacketOut pkt port =
     oh_send (ofp_packet_out_pack True (po_set_data (Some pkt)
       ((ofp_packet_out_init (\<lambda>m. m))\<lparr>po_actions := [output_action port], po_buffer_id := -1, po_in_port := OFPP_NONE\<rparr>)))"

subsection \<open>The two components together\<close>

record sr_system =
  sy_server :: sr_server
  sy_handlers :: "of_handler list"
  sy_next_XID :: int

definition at_server :: "sr_server stmt \<Rightarrow> sr_system stmt" where
  "at_server c y = (case c (sy_server y) of (e, s) \<Rightarrow> (e, y\<lparr>sy_server := s\<rparr>))"

text \<open>All handlers listen to \<^verbatim>\<open>SRPacketOut\<close>, in the order of their creation; an exception ends the event.\<close>

fun each_handler :: "(of_handler \<times> int) stmt \<Rightarrow> of_handler list \<Rightarrow> int \<Rightarrow> py_error option \<times> of_handler list \<times> int" where
  "each_handler f [] nx = (None, [], nx)"
| "each_handler f (h # hs) nx =
     (case f (h, nx) of
        (Some e, h, nx) \<Rightarrow> (Some e, h # hs, nx)
      | (None, h, nx) \<Rightarrow> (case each_handler f hs nx of (e, hs, nx) \<Rightarrow> (e, h # hs, nx)))"

definition raise_SRPacketOut :: "bytes \<Rightarrow> int \<Rightarrow> sr_system stmt" where
  "raise_SRPacketOut pkt port y =
     (case each_handler (oh_SRPacketOut pkt port) (sy_handlers y) (sy_next_XID y) of
        (e, hs, nx) \<Rightarrow> (e, y\<lparr>sy_handlers := hs, sy_next_XID := nx\<rparr>))"

text \<open>The message of the log in the handler of the \<^verbatim>\<open>KeyError\<close> reads the variable that was not assigned.\<close>

definition sr_packet_msg :: "nat \<Rightarrow> vns_packet \<Rightarrow> sr_system stmt" where
  "sr_packet_msg conn m y =
     (case intfname_to_port (sy_server y) (vp_intf_name m) of
        None \<Rightarrow> (Some NameError, y)
      | Some out_port \<Rightarrow> raise_SRPacketOut (vp_ethernet_frame m) out_port y)"

definition sr_recv_msg :: "transport \<Rightarrow> nat \<Rightarrow> vns_msg option \<Rightarrow> sr_system stmt" where
  "sr_recv_msg tr conn msg =
     (case msg of
        None \<Rightarrow> at_server (sr_close_msg tr conn)
      | Some (MAuthReply m) \<Rightarrow> at_server (sr_auth_reply tr conn)
      | Some (MOpen m) \<Rightarrow> at_server (sr_open_msg tr conn m)
      | Some (MClose m) \<Rightarrow> at_server (sr_close_msg tr conn)
      | Some (MPacket m) \<Rightarrow> sr_packet_msg conn m
      | Some (MOpenTemplate m) \<Rightarrow> (\<lambda>y. (Some AttributeError, y))
      | Some _ \<Rightarrow> (\<lambda>y. (None, y)))"

text \<open>A switch connects; \<open>keys\<close> is the order in which the dictionary of its interfaces is listed.\<close>

definition sy_ConnectionUp :: "(string \<rightharpoonup> string) \<Rightarrow> bool \<Rightarrow> string list \<Rightarrow> connection \<Rightarrow> sr_system stmt" where
  "sy_ConnectionUp ROUTER_IP transparent keys connection y =
     (case OFHandler_init ROUTER_IP connection transparent (sy_next_XID y) of
        (Some e, h, nx) \<Rightarrow> (Some e, y\<lparr>sy_next_XID := nx\<rparr>)
      | (None, h, nx) \<Rightarrow>
          at_server (sr_RouterInfo (List.map_filter (\<lambda>k. map_option (Pair k) (oh_sw_info h k)) keys))
            (y\<lparr>sy_handlers := sy_handlers y @ [h], sy_next_XID := nx\<rparr>))"

definition at_handler :: "nat \<Rightarrow> (of_handler \<times> int) stmt \<Rightarrow> sr_system stmt" where
  "at_handler i c y =
     (case c (sy_handlers y ! i, sy_next_XID y) of
        (e, h, nx) \<Rightarrow> (e, y\<lparr>sy_handlers := (sy_handlers y)[i := h], sy_next_XID := nx\<rparr>))"

definition sy_PacketIn :: "'o packet_env \<Rightarrow> transport \<Rightarrow> nat \<Rightarrow> ofp_packet_in \<Rightarrow> sr_system stmt" where
  "sy_PacketIn env tr i ofp y =
     (case event_parse env ofp of
        Inl e \<Rightarrow> (Some e, y)
      | Inr _ \<Rightarrow> seq [at_server (sr_SRPacketIn tr (pi_data ofp) (pi_in_port ofp)),
                    at_handler i (oh_send (ofp_packet_out_pack True (answer_out ofp [])))] y)"

subsection \<open>Addresses as text\<close>

lemma mapE_Inr: "\<forall>x \<in> set xs. f x = Inr (g x) \<Longrightarrow> mapE f xs = Inr (map g xs)"
  by (induction xs) auto

lemma split_join_map:
  assumes "xs \<noteq> []" "\<And>x. c \<notin> set (f x)"
  shows "split_on c (join [c] (map f xs)) = map f xs"
  using assms by (intro split_on_join) auto

lemma py_chr_of_char: "py_chr (of_char c) = Inr c"
  using of_char_range [of c] by (simp add: py_chr_def)

lemma pack_mac_toStr:
  assumes "eth_ok a"
  shows "pack_mac (eth_toStr '':'' a) = Inr (eth_value a)"
proof -
  have h: "hex02 (of_char c) = hex02 (int (of_char c))" for c by (simp add: of_nat_of_char)
  have "CHR '':'' \<notin> set (hex02 (of_char c))" for c
  proof -
    have "(of_char c :: nat) < 256" by (rule nat_of_char_less_256)
    then have "(of_char c :: nat) div 16 < 36" "(of_char c :: nat) mod 16 < 36" by linarith+
    then show ?thesis unfolding h hex02_byte [OF nat_of_char_less_256]
      by (metis digit_char_class(5) empty_iff empty_set set_ConsD)
  qed
  moreover have "eth_value a \<noteq> []" using assms by (auto simp: eth_ok_def)
  ultimately have "split_on (CHR '':'') (eth_toStr '':'' a) = map (\<lambda>c. hex02 (of_char c)) (eth_value a)"
    by (simp add: eth_toStr_def split_join_map)
  moreover have "bindE (py_int 16 (hex02 (of_char c))) py_chr = Inr c" for c
    unfolding h py_int_hex02 [OF nat_of_char_less_256] by (simp add: of_nat_of_char py_chr_of_char)
  ultimately show ?thesis by (simp add: pack_mac_def mapE_map mapE_Inr [where g = "\<lambda>c. c"])
qed

lemma pack_ip_ntoa:
  assumes "b \<noteq> []"
  shows "pack_ip (inet_ntoa b) = Inr b"
proof -
  have "CHR ''.'' \<notin> set (nat_digits 10 n)" for n using nat_digits_class(4) [of 10 _ n] by auto
  then have "split_on (CHR ''.'') (inet_ntoa b) = map (\<lambda>c. nat_digits 10 (of_char c)) b"
    unfolding inet_ntoa_def by (intro split_join_map) (use assms in auto)
  moreover have "bindE (py_int 10 (nat_digits 10 (of_char c))) py_chr = Inr c" for c
    by (simp add: py_int_nat_digits_10 of_nat_of_char py_chr_of_char)
  ultimately show ?thesis by (simp add: pack_ip_def mapE_map mapE_Inr [where g = "\<lambda>c. c"])
qed

lemma full_mask: "pack_ip ''255.255.255.255'' = Inr (replicate 4 (CHR 0xFF))"
proof -
  have "''255.255.255.255'' = inet_ntoa (replicate 4 (CHR 0xFF))" by code_simp
  then show ?thesis by (simp add: pack_ip_ntoa)
qed

subsection \<open>Sending\<close>

lemma conn_sends_ok:
  assumes "\<And>c m. tr_send tr c m = None"
  shows "seq (map (\<lambda>c. conn_send tr c (f c)) cs) s = (None, s\<lparr>sr_outbox := sr_outbox s @ map (\<lambda>c. (c, f c)) cs\<rparr>)"
  by (induction cs arbitrary: s) (simp_all add: conn_send_def assms)

lemma broadcast_ok:
  assumes "\<And>c m. tr_send tr c m = None"
  shows "broadcast tr m s = (None, s\<lparr>sr_outbox := sr_outbox s @ map (\<lambda>c. (c, VnsMsg m)) (srclients s)\<rparr>)"
  by (simp add: broadcast_def conn_sends_ok [OF assms])

subsection \<open>From the switch to the routers\<close>

definition released :: "ofp_packet_in \<Rightarrow> connection \<Rightarrow> connection \<Rightarrow> bool" where
  "released ofp c c' \<longleftrightarrow> (\<exists>b m. con_sent c' = con_sent c @ [b] \<and> framed b (OFPT_PACKET_OUT, MPacketOut m) \<and>
     po_actions m = [] \<and> po_data m = [] \<and> po_buffer_id m = pi_buffer_id ofp \<and> po_in_port m = pi_in_port ofp)"

lemma oh_send_ok:
  assumes "\<not> con_disconnected (oh_connection h)" "pack nx = Inr (Some b, m, nx')"
  shows "oh_send pack (h, nx) = (None, h\<lparr>oh_connection := (oh_connection h)\<lparr>con_sent := con_sent (oh_connection h) @ [b], next_XID := nx'\<rparr>\<rparr>, nx')"
  using assms by (simp add: oh_send_def con_send_def)

lemma oh_send_closed:
  assumes "con_disconnected (oh_connection h)"
  shows "oh_send pack (h, nx) = (None, h\<lparr>oh_connection := (oh_connection h)\<lparr>next_XID := nx\<rparr>\<rparr>, nx)"
  using assms by (simp add: oh_send_def con_send_def)

lemma release_ok:
  assumes "\<not> con_disconnected (oh_connection h)" "buffer_id_ok (pi_buffer_id ofp)" "0 \<le> pi_in_port ofp" "pi_in_port ofp < 65536"
    "0 \<le> nx" "nx \<le> MAX_XID"
  shows "\<exists>h'. oh_send (ofp_packet_out_pack True (answer_out ofp [])) (h, nx) = (None, h', next_xid nx) \<and>
    released ofp (oh_connection h) (oh_connection h')"
proof -
  have a: "answer_out ofp [] = po_set_data (Some []) ((ofp_packet_out_init (\<lambda>m. m))
      \<lparr>po_actions := [], po_buffer_id := pi_buffer_id ofp, po_in_port := pi_in_port ofp\<rparr>)"
    by (simp add: answer_out_def po_set_data_def ofp_packet_out_init_def)
  have z: "pack_actions True [] = Inr ([], [])" by simp
  from packet_out_fresh [OF z, of "[]" "pi_buffer_id ofp" "pi_in_port ofp" nx] assms(2-6)
  obtain b m where b: "ofp_packet_out_pack True (answer_out ofp []) nx = Inr (Some b, m, next_xid nx)"
      "framed b (OFPT_PACKET_OUT, MPacketOut m)" "po_data m = []" "po_actions m = []" "po_buffer_id m = pi_buffer_id ofp" "po_in_port m = pi_in_port ofp"
    unfolding a by auto
  show ?thesis using oh_send_ok [of h "ofp_packet_out_pack True (answer_out ofp [])" nx b m, OF assms(1) b(1)] b(2-)
    by (intro exI conjI) (assumption, auto simp: released_def)
qed

lemma at_handler_ok:
  assumes "i < length (sy_handlers y)" "c (sy_handlers y ! i, sy_next_XID y) = (e, h, nx)"
  shows "at_handler i c y = (e, y\<lparr>sy_handlers := (sy_handlers y)[i := h], sy_next_XID := nx\<rparr>)"
  using assms by (simp add: at_handler_def)

text \<open>What the clients are sent for a frame that arrives at a port.\<close>

definition frame_for :: "sr_server \<Rightarrow> ofp_packet_in \<Rightarrow> (nat \<times> sr_payload) list" where
  "frame_for s ofp =
     (case (port_to_intfname s (pi_in_port ofp), pi_data ofp) of
        (Some name, Some data) \<Rightarrow> map (\<lambda>c. (c, VnsMsg (MPacket (VNSPacket_init name data)))) (srclients s)
      | _ \<Rightarrow> [])"

lemma relay_in_ok:
  assumes "\<And>c m. tr_send tr c m = None" "event_parse env ofp = Inr p" "pi_data ofp = Some data"
    "i < length (sy_handlers y)" "\<not> con_disconnected (oh_connection (sy_handlers y ! i))" "buffer_id_ok (pi_buffer_id ofp)"
    "0 \<le> pi_in_port ofp" "pi_in_port ofp < 65536" "0 \<le> sy_next_XID y" "sy_next_XID y \<le> MAX_XID"
  shows "\<exists>h. sy_PacketIn env tr i ofp y =
      (None, y\<lparr>sy_server := (sy_server y)\<lparr>sr_outbox := sr_outbox (sy_server y) @ frame_for (sy_server y) ofp\<rparr>,
        sy_handlers := (sy_handlers y)[i := h], sy_next_XID := next_xid (sy_next_XID y)\<rparr>) \<and>
    released ofp (oh_connection (sy_handlers y ! i)) (oh_connection h)"
proof -
  let ?s = "(sy_server y)\<lparr>sr_outbox := sr_outbox (sy_server y) @ frame_for (sy_server y) ofp\<rparr>"
  have s: "sr_SRPacketIn tr (pi_data ofp) (pi_in_port ofp) (sy_server y) = (None, ?s)"
    using assms(1,3) by (simp add: sr_SRPacketIn_def frame_for_def broadcast_ok split: option.split)
  obtain h where h: "oh_send (ofp_packet_out_pack True (answer_out ofp [])) (sy_handlers y ! i, sy_next_XID y) = (None, h, next_xid (sy_next_XID y))"
      "released ofp (oh_connection (sy_handlers y ! i)) (oh_connection h)"
    using release_ok [OF assms(5-10)] by blast
  have "at_handler i (oh_send (ofp_packet_out_pack True (answer_out ofp []))) (y\<lparr>sy_server := ?s\<rparr>) =
      (None, y\<lparr>sy_server := ?s, sy_handlers := (sy_handlers y)[i := h], sy_next_XID := next_xid (sy_next_XID y)\<rparr>)"
    using h(1) assms(4) by (simp add: at_handler_def)
  then show ?thesis using h(2) assms(2) s by (intro exI [of _ h]) (simp add: sy_PacketIn_def at_server_def)
qed

subsection \<open>From the routers to the switches\<close>

text \<open>The packet-out of a frame, on a connection that is open; nothing on one that is closed.\<close>

definition sent_out :: "bytes \<Rightarrow> int \<Rightarrow> of_handler \<Rightarrow> of_handler \<Rightarrow> bool" where
  "sent_out data p h h' \<longleftrightarrow>
     (if con_disconnected (oh_connection h) then con_sent (oh_connection h') = con_sent (oh_connection h)
      else \<exists>b m. con_sent (oh_connection h') = con_sent (oh_connection h) @ [b] \<and> framed b (OFPT_PACKET_OUT, MPacketOut m) \<and>
        outputs_to p (po_actions m) \<and> po_data m = data \<and> po_buffer_id m = -1)"

lemma oh_SRPacketOut_ok:
  assumes "0 \<le> p" "p < 65536" "length data < 65512" "0 \<le> nx" "nx \<le> MAX_XID"
  shows "\<exists>h' nx'. oh_SRPacketOut data p (h, nx) = (None, h', nx') \<and> sent_out data p h h' \<and> 0 \<le> nx' \<and> nx' \<le> MAX_XID"
proof (cases "con_disconnected (oh_connection h)")
  case True
  then show ?thesis using assms by (simp add: oh_SRPacketOut_def oh_send_closed sent_out_def)
next
  case False
  obtain z ac where z: "pack_actions True [output_action p] = Inr (z, ac)" "outputs_to p ac" "length z = 8"
    using pack_output_action [of p] assms(1,2) by auto
  have "\<forall>a \<in> set [output_action p]. action_wf a" by (simp add: output_action_def ofp_action_output_init_def)
  then obtain b m where b: "ofp_packet_out_pack True (po_set_data (Some data) ((ofp_packet_out_init (\<lambda>m. m))
        \<lparr>po_actions := [output_action p], po_buffer_id := -1, po_in_port := OFPP_NONE\<rparr>)) nx = Inr (Some b, m, next_xid nx)"
      "framed b (OFPT_PACKET_OUT, MPacketOut m)" "po_data m = data" "po_actions m = ac" "po_buffer_id m = -1"
    using packet_out_fresh [OF z(1), of data "-1" OFPP_NONE nx] z(3) assms by (auto simp: buffer_id_ok_def)
  show ?thesis
    using oh_send_ok [of h "ofp_packet_out_pack True (po_set_data (Some data) ((ofp_packet_out_init (\<lambda>m. m))
        \<lparr>po_actions := [output_action p], po_buffer_id := -1, po_in_port := OFPP_NONE\<rparr>))" nx b m, OF False b(1)] False b z(2)
      next_xid_range [of nx]
    unfolding oh_SRPacketOut_def by (intro exI conjI) (assumption, auto simp: sent_out_def)
qed

lemma each_handler_ok:
  assumes "0 \<le> p" "p < 65536" "length data < 65512" "0 \<le> nx" "nx \<le> MAX_XID"
  shows "\<exists>hs' nx'. each_handler (oh_SRPacketOut data p) hs nx = (None, hs', nx') \<and> list_all2 (sent_out data p) hs hs' \<and>
    0 \<le> nx' \<and> nx' \<le> MAX_XID"
  using assms
proof (induction hs arbitrary: nx)
  case (Cons h hs)
  obtain h' nx1 where 1: "oh_SRPacketOut data p (h, nx) = (None, h', nx1)" "sent_out data p h h'" "0 \<le> nx1" "nx1 \<le> MAX_XID"
    using oh_SRPacketOut_ok [OF Cons.prems] by blast
  from Cons.IH [OF Cons.prems(1-3) 1(3,4)] 1 show ?case by auto
qed simp

lemma relay_out_ok:
  assumes "intfname_to_port (sy_server y) (vp_intf_name m) = Some p" "0 \<le> p" "p < 65536" "length (vp_ethernet_frame m) < 65512"
    "0 \<le> sy_next_XID y" "sy_next_XID y \<le> MAX_XID"
  shows "\<exists>hs nx. sr_recv_msg tr conn (Some (MPacket m)) y = (None, y\<lparr>sy_handlers := hs, sy_next_XID := nx\<rparr>) \<and>
    list_all2 (sent_out (vp_ethernet_frame m) p) (sy_handlers y) hs"
  using each_handler_ok [OF assms(2-6), of "sy_handlers y"] assms(1)
  by (force simp: sr_recv_msg_def sr_packet_msg_def raise_SRPacketOut_def)

subsection \<open>The description of a switch\<close>

text \<open>What an interface of the description says about a port of the switch and about the configuration.\<close>

definition describes :: "(string \<rightharpoonup> string) \<Rightarrow> ofp_phy_port list \<Rightarrow> sr_server \<Rightarrow> vns_interface \<Rightarrow> bool" where
  "describes ROUTER_IP ports s i \<longleftrightarrow>
     (\<exists>port \<in> set ports. \<exists>a ip. pp_hw_addr port = HwEth a \<and> vi_mac i = eth_value a \<and>
        split_on (CHR ''-'') (pp_name port) ! 1 = vi_name i \<and> intfname_to_port s (vi_name i) = Some (pp_port_no port) \<and>
        ROUTER_IP (vi_name i) = Some ip \<and> pack_ip ip = Inr (vi_ip i) \<and> vi_mask i = replicate 4 (CHR 0xFF))"

definition info_from :: "(string \<rightharpoonup> string) \<Rightarrow> ofp_phy_port list \<Rightarrow> string \<Rightarrow> port_info \<Rightarrow> bool" where
  "info_from ROUTER_IP ports k v \<longleftrightarrow>
     (\<exists>port \<in> set ports. \<exists>a ip. pp_hw_addr port = HwEth a \<and> split_on (CHR ''-'') (pp_name port) ! 1 = k \<and>
        ROUTER_IP k = Some ip \<and> v = (ip, eth_toStr '':'' a, ''10Gbps'', pp_port_no port))"

lemma sw_info_from:
  assumes "sw_info_loop R ports info = Inr info'" "\<forall>k v. info k = Some v \<longrightarrow> info_from R all k v" "set ports \<subseteq> set all"
  shows "\<forall>k v. info' k = Some v \<longrightarrow> info_from R all k v"
  using assms
proof (induction ports arbitrary: info)
  case (Cons port ports)
  define k where "k = split_on (CHR ''-'') (pp_name port) ! 1"
  consider "sw_info_loop R (port # ports) info = sw_info_loop R ports info"
    | ip a where "R k = Some ip" "pp_hw_addr port = HwEth a"
        "sw_info_loop R (port # ports) info = sw_info_loop R ports (info(k \<mapsto> (ip, eth_toStr '':'' a, ''10Gbps'', pp_port_no port)))"
    using Cons.prems(1) unfolding sw_info_loop.simps Let_def k_def [symmetric]
    by (cases "R k"; cases "pp_hw_addr port") (auto split: if_splits)
  then show ?case
  proof cases
    case 1
    then show ?thesis using Cons by simp
  next
    case (2 ip a)
    have "info_from R all k (ip, eth_toStr '':'' a, ''10Gbps'', pp_port_no port)"
      using 2(1,2) Cons.prems(3) unfolding info_from_def k_def by (intro bexI [of _ port]) auto
    then have "\<forall>k' v. (info(k \<mapsto> (ip, eth_toStr '':'' a, ''10Gbps'', pp_port_no port))) k' = Some v \<longrightarrow> info_from R all k' v"
      using Cons.prems(2) by simp
    from Cons.IH [OF trans [OF 2(3) [symmetric] Cons.prems(1)] this] Cons.prems(3) show ?thesis by simp
  qed
qed simp

text \<open>The maps after the loop, and the interfaces.\<close>

definition info_port :: "string \<times> port_info \<Rightarrow> int" where
  "info_port kv = snd (snd (snd (snd kv)))"

definition info_interface :: "string \<times> port_info \<Rightarrow> vns_interface \<Rightarrow> bool" where
  "info_interface kv i \<longleftrightarrow> vi_name i = fst kv \<and> pack_ip (fst (snd kv)) = Inr (vi_ip i) \<and>
     pack_mac (fst (snd (snd kv))) = Inr (vi_mac i) \<and> vi_mask i = replicate 4 (CHR 0xFF) \<and> length (vi_mac i) = 6 \<and> length (vi_ip i) = 4"

lemma router_info_returns:
  assumes "router_info_loop info is s = (None, is', s')"
  shows "\<exists>js. is' = is @ js \<and> list_all2 info_interface info js \<and>
    s' = s\<lparr>intfname_to_port := intfname_to_port s ++ map_of (rev (map (\<lambda>kv. (fst kv, info_port kv)) info)),
           port_to_intfname := port_to_intfname s ++ map_of (rev (map (\<lambda>kv. (info_port kv, fst kv)) info))\<rparr>"
  using assms
proof (induction info "is" s rule: router_info_loop.induct)
  case (2 intf ip mac rate port info "is" s)
  let ?r = "bindE (pack_ip ip) (\<lambda>ip. bindE (pack_mac mac) (\<lambda>mac. bindE (pack_ip ''255.255.255.255'') (\<lambda>msk. VNSInterface_init intf mac ip msk)))"
  obtain i where i: "?r = Inr i" using 2(2) by (cases ?r) auto
  then have "info_interface (intf, ip, mac, rate, port) i"
    by (auto simp: info_interface_def VNSInterface_init_def full_mask split: if_splits)
  then show ?case using 2(1) [OF i] 2(2) i by (auto simp: info_port_def map_add_def fun_eq_iff split: option.splits)
qed auto

lemma list_all2_set2: "list_all2 P xs ys \<Longrightarrow> y \<in> set ys \<Longrightarrow> \<exists>x \<in> set xs. P x y"
  by (induction rule: list_all2_induct) auto

text \<open>The entries in the order of the dictionary.\<close>

definition items :: "('k \<rightharpoonup> 'v) \<Rightarrow> 'k list \<Rightarrow> ('k \<times> 'v) list" where
  "items m keys = List.map_filter (\<lambda>k. map_option (Pair k) (m k)) keys"

lemma items_props:
  "set (items m keys) = {(k, v). k \<in> set keys \<and> m k = Some v}"
  "distinct keys \<Longrightarrow> distinct (map fst (items m keys))"
  by (induction keys) (auto simp: items_def List.map_filter_def split: option.splits)

lemma map_of_rev_Some:
  "distinct (map fst xs) \<Longrightarrow> map_of (rev xs) k = Some v \<longleftrightarrow> (k, v) \<in> set xs"
  by (subst map_of_eq_Some_iff) (simp_all add: rev_map [symmetric])

lemma up_parts:
  assumes "sy_ConnectionUp R t keys c y = (None, y')" "con_features c = Some f"
  obtains m js s' where "\<forall>k v. m k = Some v \<longrightarrow> info_from R (fr_ports f) k v"
    "router_info_loop (items m keys) [] (sy_server y) = (None, js, s')" "sy_server y' = s'\<lparr>sr_interfaces := Some js\<rparr>"
proof -
  obtain h nx where h: "OFHandler_init R c t (sy_next_XID y) = (None, h, nx)"
    using assms(1) by (auto simp: sy_ConnectionUp_def split: prod.splits option.splits)
  have hf: "con_features (oh_connection h') = con_features c" if "oh_send p (\<lparr>oh_connection = c, oh_transparent = t, oh_sw_info = m\<rparr>, n) = (e, h', k)" for p m n e h' k
    using that by (auto simp: oh_send_def con_send_def split: sum.splits option.splits if_splits prod.splits)
  have info: "sw_info_loop R (fr_ports f) Map.empty = Inr (oh_sw_info h)"
    using h assms(2) by (auto simp: OFHandler_init_def split: prod.splits option.splits sum.splits dest!: hf)
  have "at_server (sr_RouterInfo (items (oh_sw_info h) keys)) (y\<lparr>sy_handlers := sy_handlers y @ [h], sy_next_XID := nx\<rparr>) = (None, y')"
    using assms(1) h by (simp add: sy_ConnectionUp_def items_def)
  then obtain js s' where "router_info_loop (items (oh_sw_info h) keys) [] (sy_server y) = (None, js, s')" "sy_server y' = s'\<lparr>sr_interfaces := Some js\<rparr>"
    by (auto simp: at_server_def sr_RouterInfo_def split: prod.splits option.splits)
  moreover have "\<forall>k v. oh_sw_info h k = Some v \<longrightarrow> info_from R (fr_ports f) k v" by (rule sw_info_from [OF info]) simp_all
  ultimately show ?thesis using that by blast
qed

lemma up_describes:
  assumes "sy_ConnectionUp R t keys c y = (None, y')" "con_features c = Some f" "\<forall>p \<in> set (fr_ports f). hw_wire (pp_hw_addr p)" "distinct keys"
  shows "\<exists>is. sr_interfaces (sy_server y') = Some is \<and> (\<forall>i \<in> set is. describes R (fr_ports f) (sy_server y') i)"
proof -
  obtain m js s' where inf: "\<forall>k v. m k = Some v \<longrightarrow> info_from R (fr_ports f) k v"
    and js: "router_info_loop (items m keys) [] (sy_server y) = (None, js, s')" "sy_server y' = s'\<lparr>sr_interfaces := Some js\<rparr>"
    by (rule up_parts [OF assms(1,2)])
  note r = router_info_returns [OF js(1)]
  have d: "describes R (fr_ports f) (sy_server y') i" if i: "i \<in> set js" for i
  proof -
    obtain k v where kv: "(k, v) \<in> set (items m keys)" "info_interface (k, v) i" using r i by (auto dest: list_all2_set2)
    then have "info_from R (fr_ports f) k v" using inf unfolding items_props(1) by blast
    then obtain port a ip where p: "port \<in> set (fr_ports f)" "pp_hw_addr port = HwEth a" "split_on (CHR ''-'') (pp_name port) ! 1 = k"
        "R k = Some ip" "v = (ip, eth_toStr '':'' a, ''10Gbps'', pp_port_no port)"
      by (auto simp: info_from_def)
    have "eth_ok a" using assms(3) p(1,2) by (auto simp: hw_wire_def)
    then have m: "vi_mac i = eth_value a" "pack_ip ip = Inr (vi_ip i)" "vi_name i = k" "vi_mask i = replicate 4 (CHR 0xFF)"
      using kv(2) p(5) by (simp_all add: info_interface_def pack_mac_toStr)
    have "map_of (rev (map (\<lambda>kv. (fst kv, info_port kv)) (items m keys))) k = Some (pp_port_no port)"
      using kv(1) p(5) items_props(2) [OF assms(4)] by (subst map_of_rev_Some) (force simp: info_port_def comp_def)+
    then have "intfname_to_port (sy_server y') k = Some (pp_port_no port)"
      using r js(2) by (auto simp: map_add_def)
    then show ?thesis unfolding describes_def using p m
      by (intro bexI [of _ port] exI [of _ a] exI [of _ ip]) simp_all
  qed
  then show ?thesis using js(2) by auto
qed

subsection \<open>Reachable states\<close>

text \<open>
  Whatever connects, speaks or fails: whether or not a handler raised, the steps go on. The transport may raise
  at any time.
\<close>

inductive sy_reachable :: "'o packet_env \<Rightarrow> (string \<rightharpoonup> string) \<Rightarrow> sr_system \<Rightarrow> bool" for env R where
  start: "sy_reachable env R \<lparr>sy_server = SRServerListener_init, sy_handlers = [], sy_next_XID = nx\<rparr>"
| up: "sy_reachable env R y \<Longrightarrow> sy_reachable env R (snd (sy_ConnectionUp R t keys c y))"
| packet: "sy_reachable env R y \<Longrightarrow> i < length (sy_handlers y) \<Longrightarrow> sy_reachable env R (snd (sy_PacketIn env tr i ofp y))"
| client: "sy_reachable env R y \<Longrightarrow> sy_reachable env R (snd (at_server (sr_new_client tr salt conn) y))"
| message: "sy_reachable env R y \<Longrightarrow> conn \<in> set (srclients (sy_server y)) \<Longrightarrow> sy_reachable env R (snd (sr_recv_msg tr conn msg y))"
| gone: "sy_reachable env R y \<Longrightarrow> sy_reachable env R (snd (at_server (sr_client_disconnected conn) y))"

definition interface_ok :: "vns_interface \<Rightarrow> bool" where
  "interface_ok i \<longleftrightarrow> length (vi_mac i) = 6 \<and> length (vi_ip i) = 4 \<and> length (vi_mask i) = 4"

definition payload_ok :: "sr_payload \<Rightarrow> bool" where
  "payload_ok p \<longleftrightarrow> (case p of StrMsg t \<Rightarrow> t = ''Goodbyte!'' | VnsMsg (MHardwareInfo m) \<Rightarrow> (\<forall>i \<in> set (vh_interfaces m). interface_ok i)
     | VnsMsg (MAuthStatus m) \<Rightarrow> vs_auth_ok m | VnsMsg (MAuthRequest m) \<Rightarrow> True | VnsMsg (MPacket m) \<Rightarrow> True | VnsMsg _ \<Rightarrow> False)"

text \<open>
  The two maps know the same: a port with a name has a name that leads to a port and conversely. Only clients
  that connected are sent anything, and every authentication succeeds.
\<close>

definition server_ok :: "sr_server \<Rightarrow> bool" where
  "server_ok s \<longleftrightarrow>
     (\<forall>p n. port_to_intfname s p = Some n \<longrightarrow> intfname_to_port s n \<noteq> None) \<and>
     (\<forall>n p. intfname_to_port s n = Some p \<longrightarrow> port_to_intfname s p \<noteq> None) \<and>
     (\<forall>is. sr_interfaces s = Some is \<longrightarrow> (\<forall>i \<in> set is. interface_ok i)) \<and>
     (\<forall>(c, p) \<in> set (sr_outbox s). c \<in> set (srclients s) \<and> payload_ok p)"

lemma conn_send_keeps:
  assumes "server_ok s" "conn \<in> set (srclients s)" "payload_ok p"
  shows "server_ok (snd (conn_send tr conn p s))" "srclients (snd (conn_send tr conn p s)) = srclients s"
  using assms by (auto simp: server_ok_def conn_send_def)

lemma lose_connection_keeps [simp]:
  "server_ok (snd (lose_connection conn s)) \<longleftrightarrow> server_ok s" "srclients (snd (lose_connection conn s)) = srclients s"
  by (simp_all add: lose_connection_def update_def server_ok_def)

lemma broadcast_keeps:
  assumes "server_ok s" "payload_ok (VnsMsg m)"
  shows "server_ok (snd (broadcast tr m s))"
proof -
  have "server_ok (snd (broadcast tr m s)) \<and> srclients (snd (broadcast tr m s)) = srclients s"
    unfolding broadcast_def
    by (rule seq_keeps [where P = "\<lambda>t. server_ok t \<and> srclients t = srclients s"]) (use assms conn_send_keeps in auto)
  then show ?thesis ..
qed

lemma at_server_snd [simp]: "sy_server (snd (at_server c y)) = snd (c (sy_server y))"
  by (simp add: at_server_def split: prod.split)

lemma server_ok_learn:
  assumes "server_ok s"
  shows "server_ok (s\<lparr>intfname_to_port := (intfname_to_port s)(n \<mapsto> p), port_to_intfname := (port_to_intfname s)(p \<mapsto> n)\<rparr>)"
  using assms by (auto simp: server_ok_def)

lemma router_info_keeps:
  assumes "router_info_loop info is s = (e, is', s')" "server_ok s" "\<forall>i \<in> set is. interface_ok i"
  shows "server_ok s' \<and> (\<forall>i \<in> set is'. interface_ok i)"
  using assms
proof (induction info "is" s rule: router_info_loop.induct)
  case (2 intf ip mac rate port info "is" s)
  let ?r = "bindE (pack_ip ip) (\<lambda>ip. bindE (pack_mac mac) (\<lambda>mac. bindE (pack_ip ''255.255.255.255'') (\<lambda>msk. VNSInterface_init intf mac ip msk)))"
  show ?case
  proof (cases ?r)
    case (Inl e)
    then show ?thesis using 2(2-) by simp
  next
    case (Inr i)
    then have "interface_ok i" by (auto simp: interface_ok_def VNSInterface_init_def split: if_splits)
    then show ?thesis using 2(1) [OF Inr _ server_ok_learn [OF 2(3)]] 2(2,4) Inr by simp
  qed
qed auto

lemma sr_RouterInfo_keeps: "server_ok s \<Longrightarrow> server_ok (snd (sr_RouterInfo info s))"
  using router_info_keeps [of info "[]" s]
  by (auto simp: sr_RouterInfo_def server_ok_def split: prod.split option.split)

lemma recv_msg_keeps:
  assumes "server_ok (sy_server y)" "conn \<in> set (srclients (sy_server y))"
  shows "server_ok (sy_server (snd (sr_recv_msg tr conn msg y)))"
proof -
  have close: "server_ok (snd (sr_close_msg tr conn (sy_server y)))"
    unfolding sr_close_msg_def
    using conn_send_keeps [OF assms, of "StrMsg ''Goodbyte!''" tr]
    by (auto simp: payload_ok_def lose_connection_def update_def server_ok_def split: prod.split option.split)
  have auth: "server_ok (snd (sr_auth_reply tr conn (sy_server y)))"
    unfolding sr_auth_reply_def by (rule conn_send_keeps [OF assms]) (simp add: payload_ok_def VNSAuthStatus_init_def)
  have open': "server_ok (snd (sr_open_msg tr conn m (sy_server y)))" for m
    using conn_send_keeps(1) [OF assms, of "VnsMsg (MHardwareInfo (VNSHardwareInfo_init (the (sr_interfaces (sy_server y)))))" tr] assms(1)
    by (auto simp: sr_open_msg_def payload_ok_def VNSHardwareInfo_init_def server_ok_def split: option.split)
  have out: "sy_server (snd (raise_SRPacketOut d p y)) = sy_server y" for d p
    by (simp add: raise_SRPacketOut_def split: prod.split)
  show ?thesis
  proof (cases msg)
    case None
    then show ?thesis using close by (simp add: sr_recv_msg_def)
  next
    case (Some m)
    then show ?thesis using assms(1) close auth open' out
      by (cases m) (simp_all add: sr_recv_msg_def sr_packet_msg_def split: option.split)
  qed
qed

lemma sy_reachable_ok:
  assumes "sy_reachable env R y"
  shows "server_ok (sy_server y)"
  using assms
proof induction
  case (start nx)
  then show ?case by (simp add: SRServerListener_init_def server_ok_def)
next
  case (up y t keys c)
  then show ?case using sr_RouterInfo_keeps by (simp add: sy_ConnectionUp_def split: prod.split option.split)
next
  case (packet y i tr ofp)
  have a: "server_ok s \<Longrightarrow> server_ok (snd (sr_SRPacketIn tr pkt p s))" for pkt p s
    using broadcast_keeps by (auto simp: sr_SRPacketIn_def payload_ok_def split: option.split)
  have b: "sy_server (snd (at_handler i c z)) = sy_server z" for c z by (simp add: at_handler_def split: prod.split)
  have "server_ok (sy_server (snd (seq [at_server (sr_SRPacketIn tr (pi_data ofp) (pi_in_port ofp)),
      at_handler i (oh_send (ofp_packet_out_pack True (answer_out ofp [])))] y)))"
    by (rule seq_keeps [where P = "\<lambda>z. server_ok (sy_server z)"]) (use packet.IH a b in \<open>auto simp del: seq.simps\<close>)
  then show ?case using packet.IH by (simp add: sy_PacketIn_def del: seq.simps split: sum.split)
next
  case (client y tr salt conn)
  then have "server_ok ((sy_server y)\<lparr>srclients := srclients (sy_server y) @ [conn]\<rparr>)" by (auto simp: server_ok_def)
  then show ?case using conn_send_keeps(1) by (simp add: sr_new_client_def payload_ok_def)
next
  case (message y conn tr msg)
  then show ?case by (intro recv_msg_keeps)
next
  case (gone y conn)
  then show ?case by (simp add: sr_client_disconnected_def)
qed

subsection \<open>Names and ports\<close>

text \<open>One switch whose named ports have different numbers: the two maps are inverse.\<close>

definition inverse_maps :: "sr_server \<Rightarrow> bool" where
  "inverse_maps s \<longleftrightarrow> (\<forall>p n. port_to_intfname s p = Some n \<longleftrightarrow> intfname_to_port s n = Some p)"

lemma router_info_inverse:
  assumes "sr_RouterInfo info s = (None, s')" "intfname_to_port s = Map.empty" "port_to_intfname s = Map.empty"
    "distinct (map fst info)" "distinct (map info_port info)"
  shows "inverse_maps s'"
proof -
  obtain is' t where r: "router_info_loop info [] s = (None, is', t)" "s' = t\<lparr>sr_interfaces := Some is'\<rparr>"
    using assms(1) by (auto simp: sr_RouterInfo_def split: prod.splits option.splits)
  have m: "intfname_to_port s' = map_of (rev (map (\<lambda>kv. (fst kv, info_port kv)) info))"
    "port_to_intfname s' = map_of (rev (map (\<lambda>kv. (info_port kv, fst kv)) info))"
    using router_info_returns [OF r(1)] r(2) assms(2,3) by auto
  have "intfname_to_port s' n = Some p \<longleftrightarrow> (n, p) \<in> set (map (\<lambda>kv. (fst kv, info_port kv)) info)" for n p
    unfolding m by (rule map_of_rev_Some) (use assms(4) in \<open>simp add: comp_def\<close>)
  moreover have "port_to_intfname s' p = Some n \<longleftrightarrow> (p, n) \<in> set (map (\<lambda>kv. (info_port kv, fst kv)) info)" for n p
    unfolding m by (rule map_of_rev_Some) (use assms(5) in \<open>simp add: comp_def\<close>)
  ultimately show ?thesis by (auto simp: inverse_maps_def)
qed

lemma up_inverse:
  assumes "sy_ConnectionUp R t keys c y = (None, y')" "con_features c = Some f" "distinct keys" "distinct (map pp_port_no (fr_ports f))"
    "intfname_to_port (sy_server y) = Map.empty" "port_to_intfname (sy_server y) = Map.empty"
  shows "inverse_maps (sy_server y')"
proof -
  obtain m js s' where inf: "\<forall>k v. m k = Some v \<longrightarrow> info_from R (fr_ports f) k v"
    and js: "router_info_loop (items m keys) [] (sy_server y) = (None, js, s')" "sy_server y' = s'\<lparr>sr_interfaces := Some js\<rparr>"
    by (rule up_parts [OF assms(1,2)])
  have d: "distinct (map fst (items m keys))" by (rule items_props(2) [OF assms(3)])
  have "inj_on info_port (set (items m keys))"
  proof (intro inj_onI)
    fix x z assume xz: "x \<in> set (items m keys)" "z \<in> set (items m keys)" "info_port x = info_port z"
    then have "info_from R (fr_ports f) (fst x) (snd x)" "info_from R (fr_ports f) (fst z) (snd z)"
      using inf unfolding items_props(1) by auto
    then obtain p q where "p \<in> set (fr_ports f)" "split_on (CHR ''-'') (pp_name p) ! 1 = fst x" "pp_port_no p = info_port x"
        "q \<in> set (fr_ports f)" "split_on (CHR ''-'') (pp_name q) ! 1 = fst z" "pp_port_no q = info_port z"
      by (auto simp: info_from_def info_port_def)
    then have "fst x = fst z" using xz(3) assms(4) by (metis distinct_map inj_onD)
    then show "x = z" using xz(1,2) by (auto simp: items_props(1))
  qed
  moreover have "distinct (items m keys)" using d by (simp add: distinct_map)
  ultimately have "distinct (map info_port (items m keys))" by (simp add: distinct_map)
  moreover have "sr_RouterInfo (items m keys) (sy_server y) = (None, sy_server y')" using js by (simp add: sr_RouterInfo_def)
  ultimately show ?thesis using router_info_inverse assms(5,6) d by blast
qed

text \<open>A router that answers a frame under the name it came with answers out of the port it came from.\<close>

lemma answer_returns:
  assumes "inverse_maps (sy_server y)" "frame_for (sy_server y) ofp \<noteq> []" "0 \<le> pi_in_port ofp" "pi_in_port ofp < 65536"
    "length reply < 65512" "0 \<le> sy_next_XID y" "sy_next_XID y \<le> MAX_XID"
  shows "\<exists>name data hs nx. (\<forall>cp \<in> set (frame_for (sy_server y) ofp). snd cp = VnsMsg (MPacket (VNSPacket_init name data))) \<and> pi_data ofp = Some data \<and>
    sr_recv_msg tr conn (Some (MPacket (VNSPacket_init name reply))) y = (None, y\<lparr>sy_handlers := hs, sy_next_XID := nx\<rparr>) \<and>
    list_all2 (sent_out reply (pi_in_port ofp)) (sy_handlers y) hs"
proof -
  obtain name data where n: "port_to_intfname (sy_server y) (pi_in_port ofp) = Some name" "pi_data ofp = Some data"
    using assms(2) by (auto simp: frame_for_def split: option.splits)
  then have "intfname_to_port (sy_server y) name = Some (pi_in_port ofp)" using assms(1) by (simp add: inverse_maps_def)
  then have "intfname_to_port (sy_server y) (vp_intf_name (VNSPacket_init name reply)) = Some (pi_in_port ofp)"
    "length (vp_ethernet_frame (VNSPacket_init name reply)) < 65512" using assms(5) by (simp_all add: VNSPacket_init_def)
  from relay_out_ok [OF this(1) assms(3,4) this(2) assms(6,7), of tr conn] n show ?thesis
    by (intro exI [of _ name] exI [of _ data]) (auto simp: frame_for_def VNSPacket_init_def)
qed

subsection \<open>What goes wrong\<close>

lemma unknown_interface:
  assumes "intfname_to_port (sy_server y) (vp_intf_name m) = None"
  shows "sr_recv_msg tr conn (Some (MPacket m)) y = (Some NameError, y)"
  using assms by (simp add: sr_recv_msg_def sr_packet_msg_def)

lemma template_unhandled: "sr_recv_msg tr conn (Some (MOpenTemplate m)) y = (Some AttributeError, y)"
  by (simp add: sr_recv_msg_def)

text \<open>A client that is gone is still sent every frame.\<close>

lemma gone_client_stays:
  "srclients (snd (sr_client_disconnected conn s)) = srclients s"
  by (simp add: sr_client_disconnected_def)

lemma closing_raises:
  assumes "tr_send tr conn (StrMsg ''Goodbyte!'') = Some e"
  shows "sr_recv_msg tr conn None y = (Some e, y\<lparr>sy_server := (sy_server y)\<lparr>sr_outbox := sr_outbox (sy_server y) @ [(conn, StrMsg ''Goodbyte!'')]\<rparr>\<rparr>)"
  using assms by (simp add: sr_recv_msg_def at_server_def sr_close_msg_def conn_send_def)

subsection \<open>The addresses of the configuration\<close>

text \<open>\<^verbatim>\<open>line.split()\<close>\<close>

function py_split :: "string \<Rightarrow> string list" where
  "py_split [] = []"
| "py_split (c # cs) =
     (if is_space c then py_split cs
      else (c # takeWhile (\<lambda>x. \<not> is_space x) cs) # py_split (dropWhile (\<lambda>x. \<not> is_space x) cs))"
  by pat_completeness auto

termination py_split
  by (relation "measure length") (auto simp: le_imp_less_Suc length_dropWhile_le)

record ip_config =
  IP_SETTING :: "string \<rightharpoonup> string"
  RTABLE :: "(string \<times> string \<times> string \<times> string) list"
  ROUTER_IP :: "string \<rightharpoonup> string"

fun read_settings :: "string list \<Rightarrow> (string \<rightharpoonup> string) \<Rightarrow> (string \<rightharpoonup> string) result" where
  "read_settings [] st = Inr st"
| "read_settings (line # ls) st =
     (case py_split line of
        [] \<Rightarrow> Inr st
      | [name, ip] \<Rightarrow> if ip = ''<ELASTIC_IP>'' then Inl SystemExit else read_settings ls (st(name \<mapsto> ip))
      | _ \<Rightarrow> Inl ValueError)"

definition setting :: "(string \<rightharpoonup> string) \<Rightarrow> string \<Rightarrow> string result" where
  "setting st k = (case st k of None \<Rightarrow> Inl KeyError | Some v \<Rightarrow> Inr v)"

text \<open>
  \<open>None\<close> is a file that is missing. The globals are returned as they are when the function returns; when it raises
  the program ends.
\<close>

definition get_ip_setting :: "string list option \<Rightarrow> ip_config \<Rightarrow> (int \<times> ip_config) result" where
  "get_ip_setting file g =
     (case file of
        None \<Rightarrow> Inr (-1, g)
      | Some ls \<Rightarrow>
          bindE (read_settings ls (IP_SETTING g)) (\<lambda>st.
          bindE (setting st ''client'') (\<lambda>c.
          bindE (setting st ''server1'') (\<lambda>s1.
          bindE (setting st ''server2'') (\<lambda>s2.
          bindE (setting st ''sw0-eth1'') (\<lambda>e1.
          bindE (setting st ''sw0-eth2'') (\<lambda>e2.
          bindE (setting st ''sw0-eth3'') (\<lambda>e3.
            Inr (0, \<lparr>IP_SETTING = st,
              RTABLE = RTABLE g @ [(c, c, ''255.255.255.255'', ''eth3''), (s1, s1, ''255.255.255.255'', ''eth1''), (s2, s2, ''255.255.255.255'', ''eth2'')],
              ROUTER_IP = (ROUTER_IP g)(''eth1'' \<mapsto> e1, ''eth2'' \<mapsto> e2, ''eth3'' \<mapsto> e3)\<rparr>)))))))))"

end
