(* ===== verification/Recoco.thy ===== *)
theory Recoco
  imports Complex_Main Py_Prelude
begin


text \<open>
  \<^verbatim>\<open>lib/recoco/recoco.py\<close>: cooperative tasks. The scheduler's thread runs the tasks that are ready, one step each; the
  thread of the \<^verbatim>\<open>SelectHub\<close> holds those that wait for a descriptor or for a time and makes them ready again. The code of
  the tasks is a parameter. The lemmas say where a task can be, who runs next, when sleepers wake, and what goes wrong.
\<close>

subsection \<open>Tasks and what they yield\<close>

text \<open>Descriptors are numbers, and so are functions of the user. A missing list of a select is an empty one.\<close>

type_synonym reg = "nat list \<times> nat list \<times> nat list \<times> rat option"

datatype rv =
    ResNone
  | ResLists "nat list" "nat list" "nat list"
  | ResData bytes
  | ResSent nat
  | ResCall nat

datatype blocking =
    Exit
  | Sleep "rat option"
  | Select "nat list" "nat list" "nat list" "rat option"
  | Recv nat nat "rat option"
  | Send nat bytes nat
  | CallBlocking nat

text \<open>\<^verbatim>\<open>YOther\<close>: a value that is none of those the scheduler knows, such as \<^verbatim>\<open>True\<close>.\<close>

datatype yielded = YOp blocking | YFalse | YNum rat | YNone | YOther

datatype outcome = Yields yielded | Stops | Raises py_error

text \<open>The functions that a task runs before it is resumed: the bound methods of \<^verbatim>\<open>Recv\<close> and \<^verbatim>\<open>Send\<close>.\<close>

datatype ret_fun = RecvF nat nat | SendF nat bytes nat

text \<open>\<^verbatim>\<open>Timer\<close>; its generator stands before the loop, in the loop behind the \<^verbatim>\<open>yield\<close>, or behind the loop.\<close>

datatype timer_at = TStart | TSleeping | TQuit

record timer =
  tm_next :: rat
  tm_interval :: rat
  tm_cancelled :: bool
  tm_recurring :: bool
  tm_self_stoppable :: bool
  tm_callback :: nat
  tm_at :: timer_at

datatype kind = KUser | KSchedule nat bool | KTimer timer

record task =
  tk_rv :: rv
  tk_rf :: "ret_fun option"
  tk_priority :: rat
  tk_kind :: kind

text \<open>
  What the code of a task does to the scheduler while it runs: it makes and starts new tasks, wakes tasks by
  \<^verbatim>\<open>schedule\<close>, and cancels timers.
\<close>

datatype act = Spawn kind | Wake nat | Cancel nat

text \<open>One descriptor of the hub's thread: what it found before it called \<^verbatim>\<open>select\<close>.\<close>

record scan =
  sc_now :: rat
  sc_expired :: "nat list"
  sc_timeout :: "(rat \<times> nat) option"
  sc_rl :: "nat \<rightharpoonup> nat"
  sc_wl :: "nat \<rightharpoonup> nat"
  sc_xl :: "nat \<rightharpoonup> nat"

text \<open>
  The state of both threads. \<open>hub_at\<close> is \<open>None\<close> at the top of the hub's loop. What sockets were given is recorded,
  \<open>rc_user\<close> is the state of everything else.
\<close>

record 'u recoco =
  rc_ready :: "nat list"
  rc_hasQuit :: bool
  rc_tasks :: "nat \<Rightarrow> task"
  rc_nextTaskID :: nat
  rc_threads :: "(nat \<times> nat) list"
  hub_incoming :: "(nat \<times> reg) list"
  hub_pinged :: bool
  hub_tasks :: "nat \<rightharpoonup> reg"
  hub_at :: "scan option"
  hub_dead :: bool
  rc_sent :: "(nat \<times> bytes) list"
  rc_user :: 'u

text \<open>The code of the tasks and callbacks, and what sockets return. A callback may return \<^verbatim>\<open>False\<close>.\<close>

record 'u recoco_env =
  us_send :: "nat \<Rightarrow> rv \<Rightarrow> 'u \<Rightarrow> outcome \<times> act list \<times> 'u"
  us_call :: "nat \<Rightarrow> 'u \<Rightarrow> bool result \<times> act list \<times> 'u"
  us_recv :: "nat \<Rightarrow> nat \<Rightarrow> 'u \<Rightarrow> bytes result \<times> 'u"

definition set_task :: "nat \<Rightarrow> (task \<Rightarrow> task) \<Rightarrow> 'u recoco \<Rightarrow> 'u recoco" where
  "set_task t f s = s\<lparr>rc_tasks := (rc_tasks s)(t := f (rc_tasks s t))\<rparr>"

definition task_init :: "kind \<Rightarrow> task" where
  "task_init k = \<lparr>tk_rv = ResNone, tk_rf = None, tk_priority = 1, tk_kind = k\<rparr>"

definition Scheduler_init :: "'u \<Rightarrow> 'u recoco" where
  "Scheduler_init u = \<lparr>rc_ready = [], rc_hasQuit = False, rc_tasks = (\<lambda>_. task_init KUser), rc_nextTaskID = 0, rc_threads = [],
     hub_incoming = [], hub_pinged = False, hub_tasks = Map.empty, hub_at = None, hub_dead = False, rc_sent = [], rc_user = u\<rparr>"

text \<open>Constructors of tasks and operations that read the clock.\<close>

definition Timer_init :: "rat \<Rightarrow> nat \<Rightarrow> bool \<Rightarrow> bool \<Rightarrow> bool \<Rightarrow> rat \<Rightarrow> timer result" where
  "Timer_init timeToWake callback absoluteTime recurring selfStoppable now =
     (if absoluteTime \<and> recurring then Inl RuntimeError
      else Inr \<lparr>tm_next = (if absoluteTime then timeToWake else timeToWake + now), tm_interval = (if recurring then timeToWake else 0),
        tm_cancelled = False, tm_recurring = recurring, tm_self_stoppable = selfStoppable, tm_callback = callback, tm_at = TStart\<rparr>)"

definition Sleep_init :: "rat option \<Rightarrow> bool \<Rightarrow> rat \<Rightarrow> blocking" where
  "Sleep_init timeToWake absoluteTime now =
     Sleep (if absoluteTime then timeToWake else map_option (\<lambda>x. x + now) timeToWake)"

subsection \<open>Scheduling\<close>

definition fast_schedule :: "nat \<Rightarrow> bool \<Rightarrow> 'u recoco stmt" where
  "fast_schedule t first s =
     (if t \<in> set (rc_ready s) then (Some AssertionError, s)
      else (None, s\<lparr>rc_ready := if first then t # rc_ready s else rc_ready s @ [t]\<rparr>))"

text \<open>On the scheduler's own thread.\<close>

definition schedule :: "nat \<Rightarrow> bool \<Rightarrow> 'u recoco stmt" where
  "schedule t first s = (if t \<in> set (rc_ready s) then (None, s) else fast_schedule t first s)"

definition generateTaskID :: "kind \<Rightarrow> 'u recoco \<Rightarrow> nat \<times> 'u recoco" where
  "generateTaskID k s =
     (let i = rc_nextTaskID s + 1 in (i, s\<lparr>rc_nextTaskID := i, rc_tasks := (rc_tasks s)(i := task_init k)\<rparr>))"

definition spawn :: "kind \<Rightarrow> 'u recoco stmt" where
  "spawn k s = (case generateTaskID k s of (i, s) \<Rightarrow> fast_schedule i False s)"

text \<open>From any other thread: a task that schedules the task.\<close>

definition schedule_from_outside :: "nat \<Rightarrow> 'u recoco stmt" where
  "schedule_from_outside t = spawn (KSchedule t False)"

definition timer_cancel :: "nat \<Rightarrow> 'u recoco \<Rightarrow> 'u recoco" where
  "timer_cancel t = set_task t (\<lambda>k. case tk_kind k of KTimer m \<Rightarrow> k\<lparr>tk_kind := KTimer (m\<lparr>tm_cancelled := True\<rparr>)\<rparr> | _ \<Rightarrow> k)"

fun do_act :: "act \<Rightarrow> 'u recoco stmt" where
  "do_act (Spawn k) s = spawn k s"
| "do_act (Wake t) s = schedule t False s"
| "do_act (Cancel t) s = (None, timer_cancel t s)"

definition do_acts :: "act list \<Rightarrow> 'u recoco stmt" where
  "do_acts acts = seq (map do_act acts)"

subsection \<open>Resuming a generator\<close>

definition user_send :: "'u recoco_env \<Rightarrow> nat \<Rightarrow> rv \<Rightarrow> 'u recoco \<Rightarrow> outcome \<times> 'u recoco" where
  "user_send env t v s =
     (case us_send env t v (rc_user s) of (out, acts, u) \<Rightarrow>
        (case do_acts acts (s\<lparr>rc_user := u\<rparr>) of
           (Some e, s) \<Rightarrow> (Raises e, s)
         | (None, s) \<Rightarrow> (out, s)))"

text \<open>\<^verbatim>\<open>ScheduleTask.run\<close>\<close>

definition schedule_send :: "nat \<Rightarrow> nat \<Rightarrow> bool \<Rightarrow> 'u recoco \<Rightarrow> outcome \<times> 'u recoco" where
  "schedule_send t target done s =
     (if done then (Stops, s)
      else let s = set_task t (\<lambda>k. k\<lparr>tk_kind := KSchedule target True\<rparr>) s
        in if target \<in> set (rc_ready s) then (Yields YFalse, s)
           else (case fast_schedule target True s of
             (Some e, s) \<Rightarrow> (Raises e, s)
           | (None, s) \<Rightarrow> (Yields YFalse, s)))"

text \<open>\<^verbatim>\<open>Timer.run\<close>: the head of its loop, and the part behind the \<^verbatim>\<open>yield\<close>.\<close>

definition set_timer_at :: "nat \<Rightarrow> timer \<Rightarrow> timer_at \<Rightarrow> 'u recoco \<Rightarrow> 'u recoco" where
  "set_timer_at t m p = set_task t (\<lambda>k. k\<lparr>tk_kind := KTimer (m\<lparr>tm_at := p\<rparr>)\<rparr>)"

definition timer_quit :: "nat \<Rightarrow> timer \<Rightarrow> 'u recoco \<Rightarrow> outcome \<times> 'u recoco" where
  "timer_quit t m s = (Yields YFalse, set_timer_at t m TQuit s)"

definition timer_loop :: "nat \<Rightarrow> timer \<Rightarrow> 'u recoco \<Rightarrow> outcome \<times> 'u recoco" where
  "timer_loop t m s =
     (if tm_cancelled m then timer_quit t m s
      else (Yields (YOp (Sleep (Some (tm_next m)))), set_timer_at t m TSleeping s))"

definition the_timer :: "'u recoco \<Rightarrow> nat \<Rightarrow> timer \<Rightarrow> timer" where
  "the_timer s t m = (case tk_kind (rc_tasks s t) of KTimer m' \<Rightarrow> m' | _ \<Rightarrow> m)"

definition timer_fire :: "'u recoco_env \<Rightarrow> rat \<Rightarrow> nat \<Rightarrow> timer \<Rightarrow> 'u recoco \<Rightarrow> outcome \<times> 'u recoco" where
  "timer_fire env now t m s =
     (let m = m\<lparr>tm_next := now + tm_interval m\<rparr>;
          s = set_timer_at t m TSleeping s
      in case us_call env (tm_callback m) (rc_user s) of (r, acts, u) \<Rightarrow>
        (case do_acts acts (s\<lparr>rc_user := u\<rparr>) of
           (Some e, s) \<Rightarrow> (Raises e, set_timer_at t m TQuit s)
         | (None, s) \<Rightarrow>
            (let m = the_timer s t m
             in case r of
                  Inl e \<Rightarrow> (Raises e, set_timer_at t m TQuit s)
                | Inr is_false \<Rightarrow>
                    if tm_self_stoppable m \<and> is_false \<or> \<not> tm_recurring m then timer_quit t m s
                    else timer_loop t m s)))"

definition timer_send :: "'u recoco_env \<Rightarrow> rat \<Rightarrow> nat \<Rightarrow> timer \<Rightarrow> 'u recoco \<Rightarrow> outcome \<times> 'u recoco" where
  "timer_send env now t m s =
     (case tm_at m of
        TStart \<Rightarrow> timer_loop t m s
      | TSleeping \<Rightarrow> if tm_cancelled m then timer_quit t m s else timer_fire env now t m s
      | TQuit \<Rightarrow> (Stops, s))"

definition gen_send :: "'u recoco_env \<Rightarrow> rat \<Rightarrow> nat \<Rightarrow> rv \<Rightarrow> 'u recoco \<Rightarrow> outcome \<times> 'u recoco" where
  "gen_send env now t v s =
     (case tk_kind (rc_tasks s t) of
        KUser \<Rightarrow> user_send env t v s
      | KSchedule target done \<Rightarrow> schedule_send t target done s
      | KTimer m \<Rightarrow> timer_send env now t m s)"

subsection \<open>Blocking operations\<close>

definition registerSelect ::
    "nat \<Rightarrow> nat list \<Rightarrow> nat list \<Rightarrow> nat list \<Rightarrow> rat option \<Rightarrow> bool \<Rightarrow> rat \<Rightarrow> 'u recoco \<Rightarrow> 'u recoco" where
  "registerSelect t rlist wlist xlist timeout timeIsAbsolute now s =
     (let timeout = (if timeIsAbsolute then timeout else map_option (\<lambda>x. x + now) timeout)
      in s\<lparr>hub_incoming := hub_incoming s @ [(t, rlist, wlist, xlist, timeout)], hub_pinged := True\<rparr>)"

definition registerTimer :: "nat \<Rightarrow> rat \<Rightarrow> bool \<Rightarrow> rat \<Rightarrow> 'u recoco \<Rightarrow> 'u recoco" where
  "registerTimer t timeToWake timeIsAbsolute = registerSelect t [] [] [] (Some timeToWake) timeIsAbsolute"

definition set_rf :: "nat \<Rightarrow> ret_fun option \<Rightarrow> 'u recoco \<Rightarrow> 'u recoco" where
  "set_rf t f = set_task t (\<lambda>k. k\<lparr>tk_rf := f\<rparr>)"

definition set_rv :: "nat \<Rightarrow> rv \<Rightarrow> 'u recoco \<Rightarrow> 'u recoco" where
  "set_rv t v = set_task t (\<lambda>k. k\<lparr>tk_rv := v\<rparr>)"

definition send_execute :: "nat \<Rightarrow> bytes \<Rightarrow> nat \<Rightarrow> nat \<Rightarrow> rat \<Rightarrow> 'u recoco \<Rightarrow> 'u recoco" where
  "send_execute fd data sent t now s =
     registerSelect t [] [fd] [fd] None False now (set_rf t (Some (SendF fd data sent)) s)"

fun op_execute :: "blocking \<Rightarrow> nat \<Rightarrow> rat \<Rightarrow> 'u recoco stmt" where
  "op_execute Exit t now s = (None, s\<lparr>rc_hasQuit := True\<rparr>)"
| "op_execute (Sleep None) t now s = (None, s)"
| "op_execute (Sleep (Some x)) t now s =
     (if x = 0 \<or> x < now then fast_schedule t False s else (None, registerTimer t x True now s))"
| "op_execute (Select rl wl xl timeout) t now s = (None, registerSelect t rl wl xl timeout False now s)"
| "op_execute (Recv fd bufsize timeout) t now s =
     (None, registerSelect t [fd] [] [fd] timeout False now (set_rf t (Some (RecvF fd bufsize)) s))"
| "op_execute (Send fd data sent) t now s = (None, send_execute fd data sent t now s)"
| "op_execute (CallBlocking f) t now s = (None, s\<lparr>rc_threads := rc_threads s @ [(t, f)]\<rparr>)"

text \<open>
  \<^verbatim>\<open>Send\<close> takes the whole list of writable sockets for one; a list has no method \<^verbatim>\<open>send\<close>. And for data of
  at most 1024 bytes the local \<^verbatim>\<open>data\<close> is not assigned. Both errors are caught.
\<close>

definition list_send :: "nat list \<Rightarrow> bytes \<Rightarrow> nat result" where
  "list_send sock data = Inl AttributeError"

text \<open>A return function yields the value for the generator, or \<open>None\<close> for \<^verbatim>\<open>ABORT\<close>.\<close>

definition recv_return :: "'u recoco_env \<Rightarrow> nat \<Rightarrow> nat \<Rightarrow> 'u recoco \<Rightarrow> rv option result \<times> 'u recoco" where
  "recv_return env bufsize t s =
     (case tk_rv (rc_tasks s t) of
        ResLists ro wo xo \<Rightarrow>
          (if xo \<noteq> [] \<or> ro = [] then (Inr (Some ResNone), set_rv t ResNone s)
           else case us_recv env (hd ro) bufsize (rc_user s) of
             (Inl e, u) \<Rightarrow> (Inr (Some ResNone), (set_rv t ResNone s)\<lparr>rc_user := u\<rparr>)
           | (Inr b, u) \<Rightarrow> (Inr (Some (ResData b)), (set_rv t ResNone s)\<lparr>rc_user := u\<rparr>))
      | ResCall _ \<Rightarrow> (Inl IndexError, s)
      | _ \<Rightarrow> (Inl TypeError, s))"

definition send_return :: "nat \<Rightarrow> bytes \<Rightarrow> nat \<Rightarrow> rat \<Rightarrow> nat \<Rightarrow> 'u recoco \<Rightarrow> rv option result \<times> 'u recoco" where
  "send_return fd data sent now t s =
     (case tk_rv (rc_tasks s t) of
        ResLists ro sock xo \<Rightarrow>
          (if xo \<noteq> [] then (Inr (Some (ResSent sent)), set_rv t ResNone s)
           else
             let s = set_rv t ResNone s;
                 piece = take 1024 data;
                 rest = (if length data > 1024 then drop 1024 data else data)
             in case (if length data > 1024 then list_send sock piece else Inl NameError) of
                  Inl e \<Rightarrow> (Inr None, send_execute fd rest sent t now s)
                | Inr l \<Rightarrow>
                    let s = s\<lparr>rc_sent := rc_sent s @ [(fd, take l piece)]\<rparr>
                    in if l = length piece \<and> rest = [] then (Inr (Some (ResSent (sent + l))), s)
                       else (Inr None, send_execute fd (drop l piece @ rest) (sent + l) t now s))
      | ResCall _ \<Rightarrow> (Inl IndexError, s)
      | _ \<Rightarrow> (Inl TypeError, s))"

fun run_rf :: "'u recoco_env \<Rightarrow> ret_fun \<Rightarrow> rat \<Rightarrow> nat \<Rightarrow> 'u recoco \<Rightarrow> rv option result \<times> 'u recoco" where
  "run_rf env (RecvF fd bufsize) now t s = recv_return env bufsize t s"
| "run_rf env (SendF fd data sent) now t s = send_return fd data sent now t s"

subsection \<open>One cycle of the scheduler\<close>

text \<open>\<^verbatim>\<open>BaseTask.execute\<close>: the return function is forgotten after it was run, whatever it did.\<close>

definition task_execute :: "'u recoco_env \<Rightarrow> rat \<Rightarrow> nat \<Rightarrow> 'u recoco \<Rightarrow> outcome \<times> 'u recoco" where
  "task_execute env now t s =
     (case tk_rf (rc_tasks s t) of
        Some f \<Rightarrow>
          (case run_rf env f now t s of
             (Inl e, s) \<Rightarrow> (Raises e, s)
           | (Inr None, s) \<Rightarrow> (Yields YFalse, set_rv t ResNone (set_rf t None s))
           | (Inr (Some v), s) \<Rightarrow> gen_send env now t v (set_rv t ResNone (set_rf t None s)))
      | None \<Rightarrow> gen_send env now t (tk_rv (rc_tasks s t)) (set_rv t ResNone s))"

text \<open>
  Python 2 orders numbers before all other objects, so \<^verbatim>\<open>t >= 1\<close> is true of every task: the random numbers and
  the priorities behind it are never looked at.
\<close>

definition object_ge_int :: "nat \<Rightarrow> int \<Rightarrow> bool" where
  "object_ge_int t n = True"

fun pick :: "(nat \<Rightarrow> rat) \<Rightarrow> rat list \<Rightarrow> nat list \<Rightarrow> (nat \<times> nat list) option" where
  "pick prio rs [] = None"
| "pick prio [] (t # q) = (if object_ge_int t 1 then Some (t, q) else None)"
| "pick prio (r # rs) (t # q) =
     (if object_ge_int t 1 then Some (t, q)
      else if r \<ge> prio t then Some (t, q)
      else if length q = 1 then Some (t, q)
      else pick prio rs (q @ [t]))"

text \<open>What becomes of the task; an error of a blocking operation is caught. The result is an error that escapes.\<close>

fun after_yield :: "outcome \<Rightarrow> nat \<Rightarrow> rat \<Rightarrow> 'u recoco stmt" where
  "after_yield Stops t now s = (None, s)"
| "after_yield (Raises e) t now s = (None, s)"
| "after_yield (Yields (YOp b)) t now s = (None, snd (op_execute b t now s))"
| "after_yield (Yields YFalse) t now s = (None, s)"
| "after_yield (Yields (YNum x)) t now s =
     (if x = 0 then (None, s\<lparr>rc_ready := rc_ready s @ [t]\<rparr>) else (None, registerTimer t x False now s))"
| "after_yield (Yields YNone) t now s = (Some RuntimeError, s)"
| "after_yield (Yields YOther) t now s = (None, s)"

definition cycle :: "'u recoco_env \<Rightarrow> rat list \<Rightarrow> rat \<Rightarrow> 'u recoco \<Rightarrow> bool result \<times> 'u recoco" where
  "cycle env rs now s =
     (case pick (\<lambda>t. tk_priority (rc_tasks s t)) rs (rc_ready s) of
        None \<Rightarrow> (Inr False, s)
      | Some (t, q) \<Rightarrow>
          (case task_execute env now t (s\<lparr>rc_ready := q\<rparr>) of
             (out, s) \<Rightarrow> (case after_yield out t now s of
                 (Some e, s) \<Rightarrow> (Inl e, s)
               | (None, s) \<Rightarrow> (Inr True, s))))"

text \<open>One round of \<^verbatim>\<open>run\<close>; an exception leaves the loop, and the hub is told.\<close>

definition run_round :: "'u recoco_env \<Rightarrow> rat list \<Rightarrow> rat \<Rightarrow> 'u recoco \<Rightarrow> 'u recoco" where
  "run_round env rs now s =
     (case cycle env rs now s of
        (Inl e, s) \<Rightarrow> s\<lparr>rc_hasQuit := True, hub_pinged := True\<rparr>
      | (Inr _, s) \<Rightarrow> s)"

text \<open>The thread of a blocking call ends.\<close>

definition thread_proc :: "nat \<Rightarrow> nat \<Rightarrow> 'u recoco stmt" where
  "thread_proc i v s =
     (let t = fst (rc_threads s ! i)
      in fast_schedule t False (set_rv t (ResCall v) (s\<lparr>rc_threads := take i (rc_threads s) @ drop (Suc i) (rc_threads s)\<rparr>)))"

subsection \<open>The hub\<close>

definition hub_return :: "nat \<Rightarrow> rv \<Rightarrow> 'u recoco stmt" where
  "hub_return t v s = fast_schedule t False (set_rv t v s)"

text \<open>\<^verbatim>\<open>del tasks[t]\<close> and \<^verbatim>\<open>_return\<close>\<close>

definition hub_resume :: "nat \<Rightarrow> rv \<Rightarrow> 'u recoco stmt" where
  "hub_resume t v s = hub_return t v (s\<lparr>hub_tasks := (hub_tasks s)(t := None)\<rparr>)"

definition add_fds :: "nat \<Rightarrow> nat list \<Rightarrow> (nat \<rightharpoonup> nat) \<Rightarrow> nat \<rightharpoonup> nat" where
  "add_fds t fds m = fold (\<lambda>i m. m(i \<mapsto> t)) fds m"

definition add_lists :: "nat \<Rightarrow> reg \<Rightarrow> scan \<Rightarrow> scan" where
  "add_lists t r sc = (case r of (rl, wl, xl, tto) \<Rightarrow>
     sc\<lparr>sc_rl := add_fds t rl (sc_rl sc), sc_wl := add_fds t wl (sc_wl sc), sc_xl := add_fds t xl (sc_xl sc)\<rparr>)"

definition scan_task :: "nat \<Rightarrow> reg \<Rightarrow> scan \<Rightarrow> scan" where
  "scan_task t r sc =
     (case snd (snd (snd r)) of
        None \<Rightarrow> add_lists t r sc
      | Some tto \<Rightarrow>
          if tto \<le> sc_now sc then sc\<lparr>sc_expired := sc_expired sc @ [t]\<rparr>
          else add_lists t r
            (if (case sc_timeout sc of None \<Rightarrow> True | Some (m, _) \<Rightarrow> tto - sc_now sc < m)
             then sc\<lparr>sc_timeout := Some (tto - sc_now sc, t)\<rparr> else sc))"

text \<open>\<open>order\<close> is the order in which the dictionary is listed.\<close>

definition scan_all :: "rat \<Rightarrow> nat list \<Rightarrow> (nat \<rightharpoonup> reg) \<Rightarrow> scan" where
  "scan_all now order tasks =
     fold (\<lambda>t sc. case tasks t of None \<Rightarrow> sc | Some r \<Rightarrow> scan_task t r sc) order
       \<lparr>sc_now = now, sc_expired = [], sc_timeout = None, sc_rl = Map.empty, sc_wl = Map.empty, sc_xl = Map.empty\<rparr>"

text \<open>An exception ends the thread of the hub.\<close>

definition hub_end :: "py_error option \<times> 'u recoco \<Rightarrow> 'u recoco" where
  "hub_end r = (case r of (None, s) \<Rightarrow> s | (Some e, s) \<Rightarrow> s\<lparr>hub_dead := True\<rparr>)"

text \<open>From the top of the loop to \<^verbatim>\<open>select\<close>.\<close>

definition hub_before :: "rat \<Rightarrow> nat list \<Rightarrow> 'u recoco \<Rightarrow> 'u recoco" where
  "hub_before now order s =
     (let sc = scan_all now order (hub_tasks s)
      in hub_end (seq (map (\<lambda>t. hub_resume t (ResLists [] [] [])) (sc_expired sc) @ [update (\<lambda>s. s\<lparr>hub_at := Some sc\<rparr>)]) s))"

text \<open>The answer of \<^verbatim>\<open>select\<close>: whether the pinger is readable, and the descriptors.\<close>

record selected =
  se_ping :: bool
  se_ro :: "nat list"
  se_wo :: "nat list"
  se_xo :: "nat list"

fun drain :: "(nat \<times> reg) list \<Rightarrow> 'u recoco stmt" where
  "drain [] s = (None, s\<lparr>hub_incoming := []\<rparr>)"
| "drain ((t, r) # q) s =
     (if hub_tasks s t \<noteq> None then (Some AssertionError, s\<lparr>hub_incoming := q\<rparr>)
      else drain q (s\<lparr>hub_tasks := (hub_tasks s)(t \<mapsto> r)\<rparr>))"

definition nothing :: "selected \<Rightarrow> bool" where
  "nothing se \<longleftrightarrow> se_ro se = [] \<and> se_wo se = [] \<and> se_xo se = []"

definition rets_for :: "scan \<Rightarrow> selected \<Rightarrow> nat \<Rightarrow> rv" where
  "rets_for sc se t = ResLists (filter (\<lambda>i. sc_rl sc i = Some t) (se_ro se)) (filter (\<lambda>i. sc_wl sc i = Some t) (se_wo se))
     (filter (\<lambda>i. sc_xl sc i = Some t) (se_xo se))"

text \<open>The keys of \<^verbatim>\<open>rets\<close>.\<close>

definition resumed :: "scan \<Rightarrow> selected \<Rightarrow> nat set" where
  "resumed sc se = {t. (\<exists>i \<in> set (se_ro se). sc_rl sc i = Some t) \<or> (\<exists>i \<in> set (se_wo se). sc_wl sc i = Some t) \<or>
     (\<exists>i \<in> set (se_xo se). sc_xl sc i = Some t)}"

text \<open>From \<^verbatim>\<open>select\<close> to the end of the loop; \<open>order\<close> lists \<^verbatim>\<open>rets\<close>.\<close>

definition hub_after :: "selected \<Rightarrow> nat list \<Rightarrow> scan \<Rightarrow> 'u recoco \<Rightarrow> 'u recoco" where
  "hub_after se order sc s =
     (let finish = update (\<lambda>s. s\<lparr>hub_at := None\<rparr>)
      in hub_end (case (nothing se \<and> \<not> se_ping se, sc_timeout sc) of
           (True, Some (_, t)) \<Rightarrow> seq [hub_resume t (ResLists [] [] []), finish] s
         | _ \<Rightarrow> seq ((if se_ping se then [update (\<lambda>s. s\<lparr>hub_pinged := False\<rparr>), \<lambda>s. drain (hub_incoming s) s] else []) @
                  map (\<lambda>t. hub_resume t (rets_for sc se t)) order @ [finish]) s))"

subsection \<open>Where a task can be\<close>

definition queue :: "'u recoco \<Rightarrow> nat list" where
  "queue s = rc_ready s @ map fst (hub_incoming s) @ map fst (rc_threads s)"

definition once :: "'u recoco \<Rightarrow> bool" where
  "once s \<longleftrightarrow> distinct (queue s) \<and> (\<forall>t \<in> set (queue s). hub_tasks s t = None)"

definition known :: "'u recoco \<Rightarrow> bool" where
  "known s \<longleftrightarrow> (\<forall>t \<in> set (queue s). t \<le> rc_nextTaskID s) \<and> (\<forall>t r. hub_tasks s t = Some r \<longrightarrow> t \<le> rc_nextTaskID s)"

text \<open>No task wakes another one.\<close>

fun plain_kind :: "kind \<Rightarrow> bool" where
  "plain_kind (KSchedule t d) = False"
| "plain_kind k = True"

fun plain_act :: "act \<Rightarrow> bool" where
  "plain_act (Spawn k) = plain_kind k"
| "plain_act (Wake t) = False"
| "plain_act (Cancel t) = True"

definition plain_env :: "'u recoco_env \<Rightarrow> bool" where
  "plain_env env \<longleftrightarrow> (\<forall>t v u. \<forall>a \<in> set (fst (snd (us_send env t v u))). plain_act a) \<and>
     (\<forall>f u. \<forall>a \<in> set (fst (snd (us_call env f u))). plain_act a)"

definition plain :: "'u recoco \<Rightarrow> bool" where
  "plain s \<longleftrightarrow> (\<forall>t. plain_kind (tk_kind (rc_tasks s t)))"

text \<open>
  What the hub found is about tasks it still holds, which wait for a descriptor, and the shortest timeout is the timeout of
  its task.
\<close>

definition has_fds :: "reg \<Rightarrow> bool" where
  "has_fds r \<longleftrightarrow> (case r of (rl, wl, xl, _) \<Rightarrow> rl \<noteq> [] \<or> wl \<noteq> [] \<or> xl \<noteq> [])"

definition scan_ok :: "(nat \<rightharpoonup> reg) \<Rightarrow> scan \<Rightarrow> bool" where
  "scan_ok tasks sc \<longleftrightarrow> (\<forall>t \<in> ran (sc_rl sc) \<union> ran (sc_wl sc) \<union> ran (sc_xl sc). \<exists>r. tasks t = Some r \<and> has_fds r) \<and>
     (\<forall>x t. sc_timeout sc = Some (x, t) \<longrightarrow> (\<exists>rl wl xl. tasks t = Some (rl, wl, xl, Some (sc_now sc + x))))"

definition hub_ok :: "'u recoco \<Rightarrow> bool" where
  "hub_ok s \<longleftrightarrow> \<not> hub_dead s \<and> (\<forall>sc. hub_at s = Some sc \<longrightarrow> scan_ok (hub_tasks s) sc)"

definition rc_ok :: "'u recoco \<Rightarrow> bool" where
  "rc_ok s \<longleftrightarrow> once s \<and> known s \<and> plain s \<and> hub_ok s \<and> rc_sent s = []"

text \<open>The task that is running is nowhere.\<close>

definition free :: "nat \<Rightarrow> 'u recoco \<Rightarrow> bool" where
  "free t s \<longleftrightarrow> t \<notin> set (queue s) \<and> hub_tasks s t = None \<and> t \<le> rc_nextTaskID s"

lemmas ok_defs = rc_ok_def once_def known_def plain_def hub_ok_def queue_def free_def

text \<open>What a step of a task may do: it only adds tasks at the end.\<close>

definition timers_steady :: "'u recoco \<Rightarrow> 'u recoco \<Rightarrow> bool" where
  "timers_steady s s' \<longleftrightarrow> rc_ok s' \<and> hub_tasks s' = hub_tasks s \<and> (\<exists>new. rc_ready s' = rc_ready s @ new)"

definition grows :: "nat \<Rightarrow> 'u recoco \<Rightarrow> 'u recoco \<Rightarrow> bool" where
  "grows t s s' \<longleftrightarrow> timers_steady s s' \<and> free t s'"

lemma timers_steady_refl: "rc_ok s \<Longrightarrow> timers_steady s s"
  by (simp add: timers_steady_def)

lemma timers_steady_trans: "timers_steady r s \<Longrightarrow> timers_steady s t \<Longrightarrow> timers_steady r t"
  by (auto simp: timers_steady_def)

lemma growsD: "grows t s s' \<Longrightarrow> rc_ok s'" "grows t s s' \<Longrightarrow> free t s'" "grows t s s' \<Longrightarrow> timers_steady s s'"
  by (simp_all add: grows_def timers_steady_def)

lemma grows_trans: "grows t r s \<Longrightarrow> grows t s s' \<Longrightarrow> grows t r s'"
  unfolding grows_def using timers_steady_trans by blast

lemma grows_refl: "rc_ok s \<Longrightarrow> free t s \<Longrightarrow> grows t s s"
  by (simp add: grows_def timers_steady_refl)

text \<open>Changes of tasks and of the user's state do not count.\<close>

definition keeps_plain :: "(task \<Rightarrow> task) \<Rightarrow> bool" where
  "keeps_plain f \<longleftrightarrow> (\<forall>k. plain_kind (tk_kind k) \<longrightarrow> plain_kind (tk_kind (f k)))"

lemma set_task_grows:
  assumes "rc_ok s" "free t s" "keeps_plain f"
  shows "grows t s (set_task u f s)"
  using assms by (auto simp: grows_def timers_steady_def ok_defs set_task_def keeps_plain_def)

lemma rf_rv_grows:
  assumes "rc_ok s" "free t s"
  shows "grows t s (set_rf u f s)" "grows t s (set_rv u v s)"
  using set_task_grows [OF assms] by (simp_all add: set_rf_def set_rv_def keeps_plain_def)

lemma timer_cancel_grows: "rc_ok s \<Longrightarrow> free t s \<Longrightarrow> grows t s (timer_cancel u s)"
  unfolding timer_cancel_def by (rule set_task_grows) (auto simp: keeps_plain_def split: kind.split)

lemma set_timer_grows: "rc_ok s \<Longrightarrow> free t s \<Longrightarrow> grows t s (set_timer_at u m p s)"
  unfolding set_timer_at_def by (rule set_task_grows) (auto simp: keeps_plain_def)

lemma user_grows: "rc_ok s \<Longrightarrow> free t s \<Longrightarrow> grows t s (s\<lparr>rc_user := u\<rparr>)"
  by (auto simp: grows_def timers_steady_def ok_defs)

lemma spawn_settled:
  assumes "rc_ok s" "plain_kind k"
  shows "fst (spawn k s) = None \<and> timers_steady s (snd (spawn k s))"
proof -
  let ?i = "rc_nextTaskID s + 1"
  have n: "\<not> ?i \<le> rc_nextTaskID s" by simp
  have "?i \<notin> set (queue s)" "hub_tasks s ?i = None"
    using assms(1) n unfolding rc_ok_def known_def by (blast, cases "hub_tasks s ?i") blast+
  then show ?thesis using assms
    by (auto simp: spawn_def generateTaskID_def Let_def fast_schedule_def timers_steady_def ok_defs task_init_def dest: le_SucI) (meson le_SucI)
qed

lemma spawn_grows:
  assumes "rc_ok s" "free t s" "plain_kind k"
  shows "fst (spawn k s) = None \<and> grows t s (snd (spawn k s))"
proof -
  have "free t (snd (spawn k s))"
    using assms(2) by (auto simp: spawn_def generateTaskID_def Let_def fast_schedule_def free_def queue_def)
  then show ?thesis using spawn_settled [OF assms(1,3)] by (simp add: grows_def)
qed

lemma do_acts_grows:
  assumes "rc_ok s" "free t s" "\<forall>a \<in> set acts. plain_act a"
  shows "fst (do_acts acts s) = None \<and> grows t s (snd (do_acts acts s))"
  using assms
proof (induction acts arbitrary: s)
  case Nil
  then show ?case by (simp add: do_acts_def grows_refl)
next
  case (Cons a acts)
  have 1: "fst (do_act a s) = None \<and> grows t s (snd (do_act a s))"
    using Cons.prems spawn_grows [of s t] timer_cancel_grows [of s t] by (cases a) auto
  then obtain s1 where s1: "do_act a s = (None, s1)" "grows t s s1" by (metis prod.collapse)
  have "fst (do_acts acts s1) = None \<and> grows t s1 (snd (do_acts acts s1))"
    by (rule Cons.IH) (use growsD [OF s1(2)] Cons.prems(3) in auto)
  then show ?case using s1 grows_trans by (auto simp: do_acts_def)
qed

subsection \<open>A step of a task\<close>

lemma user_send_grows:
  assumes "rc_ok s" "free t s" "plain_env env" "user_send env t v s = (out, s')"
  shows "grows t s s'"
proof -
  obtain o1 acts u where u: "us_send env t v (rc_user s) = (o1, acts, u)" by (cases "us_send env t v (rc_user s)")
  have p: "\<forall>a \<in> set acts. plain_act a" using assms(3) u by (metis fst_conv snd_conv plain_env_def)
  note g = user_grows [OF assms(1,2), of u]
  have "fst (do_acts acts (s\<lparr>rc_user := u\<rparr>)) = None \<and> grows t (s\<lparr>rc_user := u\<rparr>) (snd (do_acts acts (s\<lparr>rc_user := u\<rparr>)))"
    by (rule do_acts_grows [OF growsD(1,2) [OF g] p])
  then show ?thesis using assms(4) u grows_trans [OF g]
    by (auto simp: user_send_def split: prod.splits option.splits)
qed

lemma timer_quit_grows: "rc_ok s \<Longrightarrow> free t s \<Longrightarrow> grows t s (snd (timer_quit t m s))"
  by (simp add: timer_quit_def set_timer_grows)

lemma timer_loop_grows: "rc_ok s \<Longrightarrow> free t s \<Longrightarrow> grows t s (snd (timer_loop t m s))"
  by (simp add: timer_loop_def timer_quit_grows set_timer_grows)

lemma timer_fire_grows:
  assumes "rc_ok s" "free t s" "plain_env env"
  shows "grows t s (snd (timer_fire env now t m s))"
proof -
  let ?m = "m\<lparr>tm_next := now + tm_interval m\<rparr>"
  let ?s = "set_timer_at t ?m TSleeping s"
  obtain r acts u where u: "us_call env (tm_callback ?m) (rc_user ?s) = (r, acts, u)" by (cases "us_call env (tm_callback ?m) (rc_user ?s)")
  have p: "\<forall>a \<in> set acts. plain_act a" using assms(3) u by (metis fst_conv snd_conv plain_env_def)
  note g1 = set_timer_grows [OF assms(1,2), of t ?m TSleeping]
  note g2 = user_grows [OF growsD(1,2) [OF g1], of u]
  obtain s2 where s2: "do_acts acts (?s\<lparr>rc_user := u\<rparr>) = (None, s2)" "grows t (?s\<lparr>rc_user := u\<rparr>) s2"
    using do_acts_grows [OF growsD(1,2) [OF g2] p] by (metis prod.collapse)
  note g = grows_trans [OF g1 grows_trans [OF g2 s2(2)]]
  note n = growsD(1,2) [OF s2(2)]
  have "grows t s2 (snd (timer_fire env now t m s))"
    using u s2(1) timer_quit_grows [OF n] timer_loop_grows [OF n] set_timer_grows [OF n]
    by (simp add: timer_fire_def Let_def split: sum.split)
  then show ?thesis using g grows_trans by blast
qed

lemma gen_send_grows:
  assumes "rc_ok s" "free t s" "plain_env env" "gen_send env now t v s = (out, s')"
  shows "grows t s s'"
proof (cases "tk_kind (rc_tasks s t)")
  case KUser
  then show ?thesis using assms user_send_grows by (simp add: gen_send_def)
next
  case (KSchedule u d)
  moreover have "plain_kind (tk_kind (rc_tasks s t))" using assms(1) by (simp add: rc_ok_def plain_def)
  ultimately show ?thesis by simp
next
  case (KTimer m)
  then have "grows t s (snd (gen_send env now t v s))"
    using assms(1-3) timer_loop_grows timer_quit_grows timer_fire_grows grows_refl
    by (auto simp: gen_send_def timer_send_def split: timer_at.split)
  then show ?thesis using assms(4) by simp
qed

lemma registerSelect_settled:
  assumes "rc_ok s" "free t s"
  shows "timers_steady s (registerSelect t rl wl xl timeout absolute now s)"
  using assms by (auto simp: timers_steady_def registerSelect_def Let_def ok_defs)

lemma set_rf_register_settled:
  assumes "rc_ok s" "free t s"
  shows "timers_steady s (registerSelect t rl wl xl timeout absolute now (set_rf t f s))"
  using rf_rv_grows(1) [OF assms, of t f] registerSelect_settled timers_steady_trans growsD by metis

lemma fast_schedule_settled:
  assumes "rc_ok s" "free t s"
  shows "fast_schedule t False s = (None, s\<lparr>rc_ready := rc_ready s @ [t]\<rparr>)" "timers_steady s (s\<lparr>rc_ready := rc_ready s @ [t]\<rparr>)"
  using assms by (auto simp: fast_schedule_def timers_steady_def ok_defs)

lemma op_execute_settled:
  assumes "rc_ok s" "free t s"
  shows "timers_steady s (snd (op_execute b t now s))"
proof (cases b)
  case (Sleep x)
  then show ?thesis using assms fast_schedule_settled [OF assms] registerSelect_settled [OF assms] timers_steady_refl
    by (cases x) (auto simp: registerTimer_def)
next
  case (CallBlocking f)
  then show ?thesis using assms by (auto simp: timers_steady_def ok_defs)
next
  case Exit
  then show ?thesis using assms by (auto simp: timers_steady_def ok_defs)
qed (use assms set_rf_register_settled registerSelect_settled in \<open>auto simp: send_execute_def\<close>)

lemma after_yield_settled:
  assumes "rc_ok s" "free t s"
  shows "timers_steady s (snd (after_yield out t now s))"
proof (cases out)
  case (Yields y)
  then show ?thesis using op_execute_settled [OF assms] timers_steady_refl [OF assms(1)] fast_schedule_settled(2) [OF assms] registerSelect_settled [OF assms]
    by (cases y) (auto simp: registerTimer_def)
qed (use timers_steady_refl assms in auto)

subsection \<open>A cycle\<close>

lemma pick_head: "pick prio rs (t # q) = Some (t, q)"
  by (cases rs) (simp_all add: object_ge_int_def)

lemma popped:
  assumes "rc_ok s" "rc_ready s = t # q"
  shows "rc_ok (s\<lparr>rc_ready := q\<rparr>)" "free t (s\<lparr>rc_ready := q\<rparr>)"
  using assms by (auto simp: ok_defs)

lemma timers_steady_set_task:
  assumes "timers_steady r s" "keeps_plain f"
  shows "timers_steady r (set_task t f s)"
proof -
  have "rc_ok s" using assms(1) by (simp add: timers_steady_def)
  then have "rc_ok (set_task t f s)" using assms(2) by (auto simp: ok_defs set_task_def keeps_plain_def)
  then show ?thesis using assms(1) by (simp add: timers_steady_def set_task_def)
qed

lemma send_execute_settled:
  assumes "rc_ok s" "free t s"
  shows "timers_steady s (send_execute fd data sent t now s)"
  unfolding send_execute_def by (rule set_rf_register_settled [OF assms])

lemma recv_return_grows:
  assumes "rc_ok s" "free t s" "recv_return env n t s = (r, s')"
  shows "grows t s s' \<and> r \<noteq> Inr None"
proof -
  note g = rf_rv_grows(2) [OF assms(1,2), of t ResNone]
  note u = grows_trans [OF g user_grows [OF growsD(1,2) [OF g]]]
  show ?thesis using assms(3) g u grows_refl [OF assms(1,2)]
    by (auto simp: recv_return_def split: rv.splits if_splits prod.splits sum.splits)
qed

lemma send_return_cases:
  assumes "rc_ok s" "free t s" "send_return fd data sent now t s = (r, s')"
  shows "grows t s s' \<and> r \<noteq> Inr None \<or> timers_steady s s' \<and> r = Inr None"
proof -
  note g = rf_rv_grows(2) [OF assms(1,2), of t ResNone]
  have e: "timers_steady s (send_execute fd d n t now (set_rv t ResNone s))" for d n
    using timers_steady_trans [OF growsD(3) [OF g] send_execute_settled [OF growsD(1,2) [OF g]]] .
  show ?thesis using assms(3) g e grows_refl [OF assms(1,2)]
    by (auto simp: send_return_def Let_def list_send_def split: rv.splits if_splits)
qed

lemma task_execute_cases:
  assumes "rc_ok s" "free t s" "plain_env env" "task_execute env now t s = (out, s')"
  shows "grows t s s' \<or> timers_steady s s' \<and> out = Yields YFalse"
proof (cases "tk_rf (rc_tasks s t)")
  case None
  note g = rf_rv_grows(2) [OF assms(1,2), of t ResNone]
  have "gen_send env now t (tk_rv (rc_tasks s t)) (set_rv t ResNone s) = (out, s')" using assms(4) None by (simp add: task_execute_def)
  then show ?thesis using grows_trans [OF g gen_send_grows [OF growsD(1,2) [OF g] assms(3)]] by blast
next
  case (Some f)
  obtain r s1 where r: "run_rf env f now t s = (r, s1)" by fastforce
  have c: "grows t s s1 \<and> r \<noteq> Inr None \<or> timers_steady s s1 \<and> r = Inr None"
    using r recv_return_grows [OF assms(1,2)] send_return_cases [OF assms(1,2)] by (cases f) auto
  let ?s = "set_rv t ResNone (set_rf t None s1)"
  show ?thesis
  proof (cases "r = Inr None")
    case True
    have "keeps_plain (\<lambda>k. k\<lparr>tk_rf := None\<rparr>)" "keeps_plain (\<lambda>k. k\<lparr>tk_rv := ResNone\<rparr>)" by (simp_all add: keeps_plain_def)
    then have "timers_steady s ?s" unfolding set_rv_def set_rf_def using c True timers_steady_set_task by blast
    then show ?thesis using assms(4) Some r True by (simp add: task_execute_def)
  next
    case False
    then have g: "grows t s s1" using c by blast
    note g1 = rf_rv_grows(1) [OF growsD(1,2) [OF g], of t None]
    note g2 = rf_rv_grows(2) [OF growsD(1,2) [OF g1], of t ResNone]
    note h = grows_trans [OF g grows_trans [OF g1 g2]]
    show ?thesis using assms(4) Some r False g grows_trans [OF h gen_send_grows [OF growsD(1,2) [OF g2] assms(3)]]
      by (auto simp: task_execute_def split: sum.splits option.splits)
  qed
qed

text \<open>A cycle runs the first task that is ready and only adds behind the others.\<close>

lemma cycle_settled:
  assumes "rc_ok s" "plain_env env"
  shows "timers_steady (s\<lparr>rc_ready := tl (rc_ready s)\<rparr>) (snd (cycle env rs now s))"
proof (cases "rc_ready s")
  case Nil
  have "timers_steady (s\<lparr>rc_ready := tl (rc_ready s)\<rparr>) s" using assms(1) Nil by (simp add: timers_steady_def)
  then show ?thesis using Nil by (simp add: cycle_def)
next
  case (Cons t q)
  let ?s = "s\<lparr>rc_ready := q\<rparr>"
  note p = popped [OF assms(1) Cons]
  obtain out s1 where e: "task_execute env now t ?s = (out, s1)" by fastforce
  have "timers_steady ?s (snd (after_yield out t now s1))"
    using task_execute_cases [OF p assms(2) e]
  proof
    assume g: "grows t ?s s1"
    show ?thesis by (rule timers_steady_trans [OF growsD(3) [OF g] after_yield_settled [OF growsD(1,2) [OF g]]])
  qed simp
  moreover obtain r s2 where "after_yield out t now s1 = (r, s2)" by fastforce
  ultimately show ?thesis using Cons e by (cases r) (simp_all add: cycle_def pick_head)
qed

lemma rc_ok_quit: "rc_ok (s\<lparr>rc_hasQuit := a, hub_pinged := b\<rparr>) \<longleftrightarrow> rc_ok s"
  by (simp add: ok_defs)

lemma quit_settled: "timers_steady r s \<Longrightarrow> timers_steady r (s\<lparr>rc_hasQuit := True, hub_pinged := True\<rparr>)"
  by (simp add: timers_steady_def rc_ok_quit)

lemma run_round_settled:
  assumes "rc_ok s" "plain_env env"
  shows "timers_steady (s\<lparr>rc_ready := tl (rc_ready s)\<rparr>) (run_round env rs now s)"
proof -
  obtain r s1 where c: "cycle env rs now s = (r, s1)" by fastforce
  then have "timers_steady (s\<lparr>rc_ready := tl (rc_ready s)\<rparr>) s1" using cycle_settled [OF assms, of rs now] by simp
  then show ?thesis using c quit_settled by (cases r) (simp_all add: run_round_def)
qed

subsection \<open>The hub\<close>

definition core_ok :: "'u recoco \<Rightarrow> bool" where
  "core_ok s \<longleftrightarrow> once s \<and> known s \<and> plain s \<and> \<not> hub_dead s \<and> rc_sent s = []"

lemma rc_ok_core: "rc_ok s \<longleftrightarrow> core_ok s \<and> (\<forall>sc. hub_at s = Some sc \<longrightarrow> scan_ok (hub_tasks s) sc)"
  by (auto simp: rc_ok_def core_ok_def hub_ok_def)

lemma hub_resume_ok:
  assumes "core_ok s" "hub_tasks s t = Some r"
  shows "\<exists>s'. hub_resume t v s = (None, s') \<and> core_ok s' \<and> hub_tasks s' = (hub_tasks s)(t := None) \<and>
    rc_ready s' = rc_ready s @ [t] \<and> hub_at s' = hub_at s"
proof -
  have "t \<notin> set (queue s)" using assms by (auto simp: core_ok_def once_def)
  moreover have "t \<le> rc_nextTaskID s" using assms unfolding core_ok_def known_def by blast
  ultimately show ?thesis using assms
    by (auto simp: hub_resume_def hub_return_def fast_schedule_def set_rv_def set_task_def core_ok_def ok_defs)
qed

lemma hub_resume_all:
  assumes "core_ok s" "distinct ts" "set ts \<subseteq> dom (hub_tasks s)"
  shows "\<exists>s'. seq (map (\<lambda>t. hub_resume t (v t)) ts) s = (None, s') \<and> core_ok s' \<and> hub_tasks s' = hub_tasks s |` (- set ts) \<and>
    rc_ready s' = rc_ready s @ ts \<and> hub_at s' = hub_at s"
  using assms
proof (induction ts arbitrary: s)
  case Nil
  then show ?case by (simp add: restrict_map_def)
next
  case (Cons t ts)
  obtain r where "hub_tasks s t = Some r" using Cons.prems(3) by auto
  then obtain s1 where s1: "hub_resume t (v t) s = (None, s1)" "core_ok s1" "hub_tasks s1 = (hub_tasks s)(t := None)"
      "rc_ready s1 = rc_ready s @ [t]" "hub_at s1 = hub_at s"
    using hub_resume_ok [OF Cons.prems(1)] by blast
  have "set ts \<subseteq> dom (hub_tasks s1)" using Cons.prems(2,3) s1(3) by auto
  then obtain s2 where s2: "seq (map (\<lambda>t. hub_resume t (v t)) ts) s1 = (None, s2)" "core_ok s2" "hub_tasks s2 = hub_tasks s1 |` (- set ts)"
      "rc_ready s2 = rc_ready s1 @ ts" "hub_at s2 = hub_at s1"
    using Cons.IH [OF s1(2)] Cons.prems(2) by auto
  moreover have "hub_tasks s2 = hub_tasks s |` (- set (t # ts))"
    using s2(3) s1(3) by (auto simp: restrict_map_def fun_eq_iff)
  ultimately show ?case using s1 by simp
qed

lemma drain_ok:
  assumes "distinct (map fst q)" "\<forall>t \<in> fst ` set q. hub_tasks s t = None"
  shows "drain q s = (None, s\<lparr>hub_tasks := hub_tasks s ++ map_of q, hub_incoming := []\<rparr>)"
  using assms
proof (induction q arbitrary: s)
  case (Cons x q)
  obtain t r where x: "x = (t, r)" by (cases x) (rule that)
  have e: "(hub_tasks s)(t \<mapsto> r) ++ map_of q = hub_tasks s ++ map_of (x # q)"
    using Cons.prems(1) x by (simp add: map_add_upd_left dom_map_of_conv_image_fst)
  have "\<forall>u \<in> fst ` set q. hub_tasks (s\<lparr>hub_tasks := (hub_tasks s)(t \<mapsto> r)\<rparr>) u = None" using Cons.prems x by auto
  from Cons.IH [OF _ this] Cons.prems(1)
  have "drain q (s\<lparr>hub_tasks := (hub_tasks s)(t \<mapsto> r)\<rparr>) = (None, s\<lparr>hub_tasks := (hub_tasks s)(t \<mapsto> r) ++ map_of q, hub_incoming := []\<rparr>)"
    by (simp del: fun_upd_apply)
  moreover have "drain (x # q) s = drain q (s\<lparr>hub_tasks := (hub_tasks s)(t \<mapsto> r)\<rparr>)" using Cons.prems(2) x by simp
  ultimately show ?case by (simp only: e)
qed simp

lemma drain_core:
  assumes "core_ok s"
  shows "\<exists>s'. drain (hub_incoming s) s = (None, s') \<and> core_ok s' \<and> hub_tasks s' = hub_tasks s ++ map_of (hub_incoming s) \<and>
    rc_ready s' = rc_ready s \<and> hub_at s' = hub_at s"
proof -
  have d: "distinct (map fst (hub_incoming s))" "\<forall>t \<in> fst ` set (hub_incoming s). hub_tasks s t = None"
    using assms by (auto simp: core_ok_def once_def queue_def)
  let ?s = "s\<lparr>hub_tasks := hub_tasks s ++ map_of (hub_incoming s), hub_incoming := []\<rparr>"
  have "map_of (hub_incoming s) t = None" if "t \<in> set (rc_ready s @ map fst (rc_threads s))" for t
    using assms that unfolding map_of_eq_None_iff by (auto simp: core_ok_def once_def queue_def)
  then have o: "once ?s" using assms by (auto simp: core_ok_def once_def queue_def map_add_def)
  have c: "\<forall>t \<in> set (queue s). t \<le> rc_nextTaskID s" "\<forall>t r. hub_tasks s t = Some r \<longrightarrow> t \<le> rc_nextTaskID s"
    using assms unfolding core_ok_def known_def by blast+
  have "t \<le> rc_nextTaskID s" if "(hub_tasks s ++ map_of (hub_incoming s)) t = Some r" for t r
  proof (cases "map_of (hub_incoming s) t")
    case None
    then have "hub_tasks s t = Some r" using that by (simp add: map_add_def)
    then show ?thesis using c(2) by blast
  next
    case (Some r')
    then have "(t, r') \<in> set (hub_incoming s)" by (rule map_of_SomeD)
    then have "t \<in> fst ` set (hub_incoming s)" by (metis fst_conv image_eqI)
    then have "t \<in> set (queue s)" by (simp add: queue_def)
    then show ?thesis using c(1) by blast
  qed
  moreover have "set (queue ?s) \<subseteq> set (queue s)" by (auto simp: queue_def)
  ultimately have k: "known ?s" using c(1) unfolding known_def by fastforce
  have "core_ok ?s" using assms o k by (simp add: core_ok_def plain_def)
  then show ?thesis using drain_ok [OF d] by auto
qed

subsection \<open>What the hub finds\<close>

definition tto :: "(nat \<rightharpoonup> reg) \<Rightarrow> nat \<Rightarrow> rat option" where
  "tto tasks t = Option.bind (tasks t) (\<lambda>r. snd (snd (snd r)))"

definition due :: "rat \<Rightarrow> (nat \<rightharpoonup> reg) \<Rightarrow> nat \<Rightarrow> bool" where
  "due now tasks t \<longleftrightarrow> (\<exists>x. tto tasks t = Some x \<and> x \<le> now)"

definition fd_tasks :: "scan \<Rightarrow> nat set" where
  "fd_tasks sc = ran (sc_rl sc) \<union> ran (sc_wl sc) \<union> ran (sc_xl sc)"

lemma ran_add_fds: "ran (add_fds t fds m) \<subseteq> insert t (ran m)"
  unfolding add_fds_def
proof (induction fds arbitrary: m)
  case (Cons i fds)
  have "ran (m(i \<mapsto> t)) \<subseteq> insert t (ran m)" by (auto simp: ran_def)
  then show ?case using Cons [of "m(i \<mapsto> t)"] by (simp del: fun_upd_apply) blast
qed auto

lemma fd_tasks_add: "u \<in> fd_tasks (add_lists t r sc) \<Longrightarrow> u \<in> fd_tasks sc \<or> u = t \<and> has_fds r"
proof -
  assume u: "u \<in> fd_tasks (add_lists t r sc)"
  obtain rl wl xl x where r: "r = (rl, wl, xl, x)" by (metis surj_pair)
  have "u \<in> ran (add_fds t fds m) \<Longrightarrow> u \<in> ran m \<or> u = t \<and> fds \<noteq> []" for fds m
    using ran_add_fds [of t fds m] by (cases fds) (auto simp: add_fds_def simp del: fun_upd_apply fold_simps(2))
  then show ?thesis using u unfolding r fd_tasks_def add_lists_def has_fds_def by auto
qed

lemma add_lists_keeps [simp]:
  "sc_now (add_lists t r sc) = sc_now sc" "sc_expired (add_lists t r sc) = sc_expired sc" "sc_timeout (add_lists t r sc) = sc_timeout sc"
  by (simp_all add: add_lists_def split: prod.split)

definition scanned :: "rat \<Rightarrow> (nat \<rightharpoonup> reg) \<Rightarrow> nat list \<Rightarrow> scan \<Rightarrow> bool" where
  "scanned now tasks order sc \<longleftrightarrow> sc_now sc = now \<and> sc_expired sc = filter (due now tasks) order \<and>
     (\<forall>t \<in> fd_tasks sc. t \<in> set order \<and> (\<exists>r. tasks t = Some r \<and> has_fds r) \<and> \<not> due now tasks t) \<and>
     (\<forall>x t. sc_timeout sc = Some (x, t) \<longrightarrow> t \<in> set order \<and> tto tasks t = Some (now + x) \<and> \<not> due now tasks t) \<and>
     (\<forall>t y. t \<in> set order \<and> tto tasks t = Some y \<and> \<not> due now tasks t \<longrightarrow> (\<exists>x u. sc_timeout sc = Some (x, u) \<and> x \<le> y - now))"

lemma scannedD:
  assumes "scanned now tasks order sc"
  shows "sc_now sc = now" "sc_expired sc = filter (due now tasks) order"
    "t \<in> fd_tasks sc \<Longrightarrow> t \<in> set order \<and> (\<exists>r. tasks t = Some r \<and> has_fds r) \<and> \<not> due now tasks t"
    "sc_timeout sc = Some (x, t) \<Longrightarrow> t \<in> set order \<and> tto tasks t = Some (now + x) \<and> \<not> due now tasks t"
    "t \<in> set order \<Longrightarrow> tto tasks t = Some y \<Longrightarrow> \<not> due now tasks t \<Longrightarrow> \<exists>x u. sc_timeout sc = Some (x, u) \<and> x \<le> y - now"
  using assms unfolding scanned_def by blast+

lemma scannedI:
  assumes "sc_now sc = now" "sc_expired sc = filter (due now tasks) order"
    "\<And>t. t \<in> fd_tasks sc \<Longrightarrow> t \<in> set order \<and> (\<exists>r. tasks t = Some r \<and> has_fds r) \<and> \<not> due now tasks t"
    "\<And>x t. sc_timeout sc = Some (x, t) \<Longrightarrow> t \<in> set order \<and> tto tasks t = Some (now + x) \<and> \<not> due now tasks t"
    "\<And>t y. t \<in> set order \<Longrightarrow> tto tasks t = Some y \<Longrightarrow> \<not> due now tasks t \<Longrightarrow> \<exists>x u. sc_timeout sc = Some (x, u) \<and> x \<le> y - now"
  shows "scanned now tasks order sc"
  using assms unfolding scanned_def by blast

lemma scanned_step:
  assumes "scanned now tasks order sc" "tasks t = Some r"
  shows "scanned now tasks (order @ [t]) (scan_task t r sc)"
proof (cases "snd (snd (snd r))")
  case None
  then have n: "tto tasks t = None" "\<not> due now tasks t" using assms(2) by (simp_all add: tto_def due_def)
  have e: "scan_task t r sc = add_lists t r sc" using None by (simp add: scan_task_def)
  note a = scannedD [OF assms(1)]
  show ?thesis unfolding e
  proof (rule scannedI)
    fix u assume "u \<in> fd_tasks (add_lists t r sc)"
    then have "u = t \<and> has_fds r \<or> u \<in> fd_tasks sc" using fd_tasks_add by blast
    then show "u \<in> set (order @ [t]) \<and> (\<exists>r. tasks u = Some r \<and> has_fds r) \<and> \<not> due now tasks u" using a(3) [of u] n(2) assms(2) by (cases r) auto
  next
    fix x u assume "sc_timeout (add_lists t r sc) = Some (x, u)"
    then show "u \<in> set (order @ [t]) \<and> tto tasks u = Some (now + x) \<and> \<not> due now tasks u" using a(4) [of x u] by simp
  next
    fix u y assume u: "u \<in> set (order @ [t])" "tto tasks u = Some y" "\<not> due now tasks u"
    then have "u \<noteq> t" using n(1) by auto
    then show "\<exists>x v. sc_timeout (add_lists t r sc) = Some (x, v) \<and> x \<le> y - now" using a(5) [OF _ u(2,3)] u(1) by simp
  qed (use a(1,2) n(2) in simp_all)
next
  case (Some x)
  then have x: "tto tasks t = Some x" using assms(2) by (simp add: tto_def)
  have now: "sc_now sc = now" using assms(1) by (simp add: scanned_def)
  show ?thesis
  proof (cases "x \<le> now")
    case True
    then have d: "due now tasks t" using x by (simp add: due_def)
    have "scan_task t r sc = sc\<lparr>sc_expired := sc_expired sc @ [t]\<rparr>" using Some True now by (simp add: scan_task_def)
    then show ?thesis using assms(1) d by (auto simp: scanned_def fd_tasks_def)
  next
    case False
    then have d: "\<not> due now tasks t" using x by (simp add: due_def)
    let ?less = "case sc_timeout sc of None \<Rightarrow> True | Some (m, _) \<Rightarrow> x - now < m"
    let ?s = "if ?less then sc\<lparr>sc_timeout := Some (x - now, t)\<rparr> else sc"
    have e: "scan_task t r sc = add_lists t r ?s" using Some False unfolding scan_task_def now by simp
    have "fd_tasks ?s = fd_tasks sc" by (simp add: fd_tasks_def)
    then have f: "u \<in> fd_tasks (add_lists t r ?s) \<Longrightarrow> u = t \<and> has_fds r \<or> u \<in> fd_tasks sc" for u using fd_tasks_add by blast
    have m: "\<exists>z u. sc_timeout ?s = Some (z, u) \<and> z \<le> y - now" if q: "u' \<in> set (order @ [t])" "tto tasks u' = Some y" "\<not> due now tasks u'" for u' y
    proof (cases "u' = t")
      case True
      then have "y = x" using q(2) x by simp
      then show ?thesis by (auto split: option.split)
    next
      case False
      then obtain z u where "sc_timeout sc = Some (z, u)" "z \<le> y - now" using scannedD(5) [OF assms(1) _ q(2,3)] q(1) False by auto
      then show ?thesis by auto
    qed
    have b: "u \<in> set (order @ [t]) \<and> tto tasks u = Some (now + z) \<and> \<not> due now tasks u" if "sc_timeout ?s = Some (z, u)" for z u
      using that scannedD(4) [OF assms(1), of z u] x d by (auto split: if_splits)
    note a = scannedD [OF assms(1)]
    show ?thesis unfolding e
    proof (rule scannedI)
      fix u assume "u \<in> fd_tasks (add_lists t r ?s)"
      then have "u = t \<and> has_fds r \<or> u \<in> fd_tasks sc" by (rule f)
      then show "u \<in> set (order @ [t]) \<and> (\<exists>r. tasks u = Some r \<and> has_fds r) \<and> \<not> due now tasks u" using a(3) [of u] d assms(2) by (cases r) auto
    qed (use a(1,2) d m b in simp_all)
  qed
qed

lemma scanned_all:
  assumes "set order \<subseteq> dom tasks"
  shows "scanned now tasks order (scan_all now order tasks)"
  using assms
proof (induction order rule: rev_induct)
  case Nil
  then show ?case by (simp add: scan_all_def scanned_def fd_tasks_def)
next
  case (snoc t order)
  then obtain r where "tasks t = Some r" by auto
  then show ?case using snoc scanned_step [of now tasks order "scan_all now order tasks" t r] by (simp add: scan_all_def)
qed

lemma scanned_ok:
  assumes "scanned now tasks order sc" "set order = dom tasks"
  shows "scan_ok (tasks |` (- set (sc_expired sc))) sc"
proof -
  note a = scannedD [OF assms(1)]
  let ?m = "tasks |` (- set (sc_expired sc))"
  have keep: "?m t = tasks t" if "\<not> due now tasks t" for t using that a(2) by (simp add: restrict_map_def)
  have "\<exists>r. ?m t = Some r \<and> has_fds r" if "t \<in> fd_tasks sc" for t using a(3) [OF that] keep [of t] by (simp add: dom_def)
  moreover have "\<exists>rl wl xl. ?m t = Some (rl, wl, xl, Some (sc_now sc + x))" if "sc_timeout sc = Some (x, t)" for t x
  proof -
    have t: "tto tasks t = Some (now + x)" "\<not> due now tasks t" using a(4) [OF that] by simp_all
    then obtain r where r: "tasks t = Some r" "snd (snd (snd r)) = Some (now + x)" by (auto simp: tto_def bind_eq_Some_conv)
    then have "?m t = Some (fst r, fst (snd r), fst (snd (snd r)), Some (sc_now sc + x))"
      using keep [OF t(2)] a(1) by (metis prod.collapse)
    then show ?thesis by blast
  qed
  ultimately show ?thesis unfolding scan_ok_def fd_tasks_def by blast
qed

subsection \<open>Rounds of the hub\<close>

lemma hub_before_ok:
  assumes "rc_ok s" "set order = dom (hub_tasks s)" "distinct order"
  shows "rc_ok (hub_before now order s) \<and> rc_ready (hub_before now order s) = rc_ready s @ filter (due now (hub_tasks s)) order \<and>
    hub_at (hub_before now order s) = Some (scan_all now order (hub_tasks s))"
proof -
  let ?sc = "scan_all now order (hub_tasks s)"
  note sc = scanned_all [of order "hub_tasks s" now]
  have e: "sc_expired ?sc = filter (due now (hub_tasks s)) order" using sc assms(2) by (simp add: scanned_def)
  have c: "core_ok s" using assms(1) by (simp add: rc_ok_core)
  obtain s1 where s1: "seq (map (\<lambda>t. hub_resume t (ResLists [] [] [])) (sc_expired ?sc)) s = (None, s1)" "core_ok s1"
      "hub_tasks s1 = hub_tasks s |` (- set (sc_expired ?sc))" "rc_ready s1 = rc_ready s @ sc_expired ?sc"
    using hub_resume_all [OF c, of "sc_expired ?sc" "\<lambda>_. ResLists [] [] []"] assms(2,3) e by auto
  have h: "hub_before now order s = s1\<lparr>hub_at := Some ?sc\<rparr>"
    using s1(1) by (simp add: hub_before_def seq_append hub_end_def update_def Let_def)
  have "scan_ok (hub_tasks s1) ?sc" unfolding s1(3) by (rule scanned_ok [OF sc assms(2)]) (simp add: assms(2))
  then have "rc_ok (s1\<lparr>hub_at := Some ?sc\<rparr>)" using s1(2) by (simp add: rc_ok_core core_ok_def once_def known_def plain_def queue_def)
  then show ?thesis unfolding h using s1(4) e by simp
qed

definition woken :: "selected \<Rightarrow> nat list \<Rightarrow> scan \<Rightarrow> nat list" where
  "woken se order sc = (case (nothing se \<and> \<not> se_ping se, sc_timeout sc) of (True, Some (_, t)) \<Rightarrow> [t] | _ \<Rightarrow> order)"

lemma core_ok_at: "core_ok (s\<lparr>hub_at := a\<rparr>) \<longleftrightarrow> core_ok s" "core_ok (s\<lparr>hub_pinged := p\<rparr>) \<longleftrightarrow> core_ok s"
  by (simp_all add: core_ok_def once_def known_def plain_def queue_def)

lemma resumed_fds: "resumed sc se \<subseteq> fd_tasks sc"
  by (auto simp: resumed_def fd_tasks_def ran_def)

lemma hub_after_ok:
  assumes "rc_ok s" "hub_at s = Some sc" "set order = resumed sc se" "distinct order"
  shows "rc_ok (hub_after se order sc s) \<and> rc_ready (hub_after se order sc s) = rc_ready s @ woken se order sc"
proof -
  have c: "core_ok s" "scan_ok (hub_tasks s) sc" using assms(1,2) by (simp_all add: rc_ok_core)
  have fin: "rc_ok (s'\<lparr>hub_at := None\<rparr>)" if "core_ok s'" for s' :: "'a recoco" using that by (simp add: rc_ok_core core_ok_at)
  show ?thesis
  proof (cases "nothing se \<and> \<not> se_ping se \<and> sc_timeout sc \<noteq> None")
    case True
    then obtain x t where t: "sc_timeout sc = Some (x, t)" by auto
    then obtain r where "hub_tasks s t = Some r" using c(2) by (auto simp: scan_ok_def)
    then obtain s1 where "hub_resume t (ResLists [] [] []) s = (None, s1)" "core_ok s1" "rc_ready s1 = rc_ready s @ [t]"
      using hub_resume_ok [OF c(1)] by blast
    then show ?thesis using True t fin [of s1] by (simp add: hub_after_def woken_def hub_end_def update_def Let_def)
  next
    case False
    have w: "woken se order sc = order" using False by (auto simp: woken_def split: option.split bool.split)
    let ?ping = "if se_ping se then [update (\<lambda>s. s\<lparr>hub_pinged := False\<rparr>), \<lambda>s. drain (hub_incoming s) s] else []"
    have a: "hub_after se order sc s = hub_end (seq (?ping @ map (\<lambda>t. hub_resume t (rets_for sc se t)) order @ [update (\<lambda>s. s\<lparr>hub_at := None\<rparr>)]) s)"
      using False by (auto simp: hub_after_def Let_def split: option.split bool.split)
    obtain s1 where s1: "seq ?ping s = (None, s1)" "core_ok s1" "dom (hub_tasks s) \<subseteq> dom (hub_tasks s1)" "rc_ready s1 = rc_ready s"
    proof (cases "se_ping se")
      case True
      have "core_ok (s\<lparr>hub_pinged := False\<rparr>)" using c(1) by (simp add: core_ok_at)
      from drain_core [OF this] that True show ?thesis by (auto simp: update_def)
    next
      case False
      then show ?thesis using that c(1) by simp
    qed
    have "set order \<subseteq> dom (hub_tasks s1)" using assms(3) resumed_fds [of sc se] c(2) s1(3) unfolding scan_ok_def fd_tasks_def by (blast intro: domI)
    then obtain s2 where s2: "seq (map (\<lambda>t. hub_resume t (rets_for sc se t)) order) s1 = (None, s2)" "core_ok s2" "rc_ready s2 = rc_ready s1 @ order"
      using hub_resume_all [OF s1(2) assms(4)] by blast
    have "hub_after se order sc s = s2\<lparr>hub_at := None\<rparr>"
      unfolding a by (simp add: seq_append s1(1) s2(1) update_def hub_end_def)
    then show ?thesis using fin [OF s2(2)] s2(3) s1(4) w by simp
  qed
qed

subsection \<open>Runs of both threads\<close>

text \<open>
  What \<^verbatim>\<open>select\<close> promises: it returns descriptors it was asked for, each once, and nothing at all only when the
  timeout it was given has passed.
\<close>

definition select_ok :: "rat \<Rightarrow> scan \<Rightarrow> selected \<Rightarrow> bool" where
  "select_ok now sc se \<longleftrightarrow> set (se_ro se) \<subseteq> dom (sc_rl sc) \<and> set (se_wo se) \<subseteq> dom (sc_wl sc) \<and> set (se_xo se) \<subseteq> dom (sc_xl sc) \<and>
     (nothing se \<and> \<not> se_ping se \<longrightarrow> (case sc_timeout sc of None \<Rightarrow> True | Some (x, t) \<Rightarrow> sc_now sc + x \<le> now))"

text \<open>
  One step of one of the threads at a time; the first number counts the rounds of the scheduler. With \<open>outside\<close> other
  threads may wake tasks.
\<close>

inductive rc_step :: "'u recoco_env \<Rightarrow> bool \<Rightarrow> nat \<Rightarrow> rat \<times> 'u recoco \<Rightarrow> rat \<times> 'u recoco \<Rightarrow> bool" for env outside where
  tick: "now \<le> now' \<Longrightarrow> rc_step env outside 0 (now, s) (now', s)"
| begin_task: "plain_kind k \<Longrightarrow> rc_step env outside 0 (now, s) (now, snd (spawn k s))"
| round: "\<not> rc_hasQuit s \<Longrightarrow> rc_step env outside 1 (now, s) (now, run_round env rs now s)"
| before: "\<not> rc_hasQuit s \<Longrightarrow> \<not> hub_dead s \<Longrightarrow> hub_at s = None \<Longrightarrow> set order = dom (hub_tasks s) \<Longrightarrow> distinct order \<Longrightarrow>
    rc_step env outside 0 (now, s) (now, hub_before now order s)"
| after: "\<not> hub_dead s \<Longrightarrow> hub_at s = Some sc \<Longrightarrow> select_ok now sc se \<Longrightarrow> set order = resumed sc se \<Longrightarrow> distinct order \<Longrightarrow>
    rc_step env outside 0 (now, s) (now, hub_after se order sc s)"
| thread: "i < length (rc_threads s) \<Longrightarrow> rc_step env outside 0 (now, s) (now, snd (thread_proc i v s))"
| wake: "outside \<Longrightarrow> rc_step env outside 0 (now, s) (now, snd (schedule_from_outside t s))"

inductive rc_run :: "'u recoco_env \<Rightarrow> bool \<Rightarrow> nat \<Rightarrow> rat \<times> 'u recoco \<Rightarrow> rat \<times> 'u recoco \<Rightarrow> bool" for env outside where
  stay: "rc_run env outside 0 c c"
| further: "rc_run env outside n c d \<Longrightarrow> rc_step env outside k d e \<Longrightarrow> rc_run env outside (n + k) c e"

definition rc_reachable :: "'u recoco_env \<Rightarrow> bool \<Rightarrow> rat \<Rightarrow> 'u recoco \<Rightarrow> bool" where
  "rc_reachable env outside now s \<longleftrightarrow> (\<exists>n now0 u. rc_run env outside n (now0, Scheduler_init u) (now, s))"

inductive_simps rc_step_simps: "rc_step env outside k (now, s) (now', s')"

lemma init_ok: "rc_ok (Scheduler_init u)"
  by (simp add: ok_defs Scheduler_init_def task_init_def)

lemma thread_proc_ok:
  assumes "rc_ok s" "i < length (rc_threads s)"
  shows "timers_steady s (snd (thread_proc i v s))"
proof -
  obtain t f where t: "rc_threads s ! i = (t, f)" by fastforce
  let ?s = "s\<lparr>rc_threads := take i (rc_threads s) @ drop (Suc i) (rc_threads s)\<rparr>"
  have d: "rc_threads s = take i (rc_threads s) @ (t, f) # drop (Suc i) (rc_threads s)" using id_take_nth_drop [OF assms(2)] t by simp
  then have m: "map fst (rc_threads s) = map fst (take i (rc_threads s)) @ t # map fst (drop (Suc i) (rc_threads s))"
    by (metis fst_conv list.simps(9) map_append)
  have q: "set (queue ?s) \<subseteq> set (queue s)" "t \<notin> set (queue ?s)" "distinct (queue ?s)" "t \<in> set (queue s)"
    using assms(1) m by (auto simp: queue_def rc_ok_def once_def)
  have "rc_ok ?s" using assms(1) q(1,3) by (auto simp: rc_ok_def once_def known_def plain_def hub_ok_def)
  moreover have "free t ?s" using assms(1) q(2,4) by (auto simp: free_def rc_ok_def once_def known_def)
  ultimately have g: "grows t ?s (set_rv t (ResCall v) ?s)" by (rule rf_rv_grows(2))
  have "timers_steady ?s (snd (thread_proc i v s))"
    using timers_steady_trans [OF growsD(3) [OF g] fast_schedule_settled(2) [OF growsD(1,2) [OF g]]] fast_schedule_settled(1) [OF growsD(1,2) [OF g]] t
    by (simp add: thread_proc_def Let_def)
  then show ?thesis by (simp add: timers_steady_def)
qed

text \<open>Every step only adds behind the tasks that are ready; a round takes the first.\<close>

lemma rc_step_ok:
  assumes "rc_step env False k (now, s) (now', s')" "rc_ok s" "plain_env env"
  shows "rc_ok s' \<and> now \<le> now' \<and> (\<exists>new. rc_ready s' = drop k (rc_ready s) @ new)"
  using assms(1)
proof cases
  case (begin_task kd)
  then show ?thesis using spawn_settled [OF assms(2)] by (simp add: timers_steady_def)
next
  case (round rs)
  then show ?thesis using run_round_settled [OF assms(2,3)] by (simp add: timers_steady_def drop_Suc)
next
  case (before order)
  then show ?thesis using hub_before_ok [OF assms(2)] by auto
next
  case (after sc se order)
  then show ?thesis using hub_after_ok [OF assms(2)] by auto
next
  case (thread i v)
  then show ?thesis using thread_proc_ok [OF assms(2)] by (simp add: timers_steady_def)
qed (use assms(2) in auto)

lemma rc_run_ok:
  assumes "rc_run env False n c d" "rc_ok (snd c)" "plain_env env"
  shows "rc_ok (snd d) \<and> fst c \<le> fst d \<and> (\<exists>new. rc_ready (snd d) = drop n (rc_ready (snd c)) @ new)"
  using assms
proof induction
  case (stay c)
  then show ?case by simp
next
  case (further n c d k e)
  then obtain new where n: "rc_ok (snd d)" "fst c \<le> fst d" "rc_ready (snd d) = drop n (rc_ready (snd c)) @ new" by blast
  obtain new' where m: "rc_ok (snd e)" "fst d \<le> fst e" "rc_ready (snd e) = drop k (rc_ready (snd d)) @ new'"
    using rc_step_ok [of env k "fst d" "snd d" "fst e" "snd e"] further.hyps(2) n(1) further.prems(2) by auto
  have "rc_ready (snd e) = drop (n + k) (rc_ready (snd c)) @ drop (k - length (drop n (rc_ready (snd c)))) new @ new'"
    using m(3) n(3) by (simp add: add.commute)
  then show ?case using m n(2) by auto
qed

lemma rc_reachable_ok:
  assumes "rc_reachable env False now s" "plain_env env"
  shows "rc_ok s"
  using assms rc_run_ok init_ok by (fastforce simp: rc_reachable_def)

text \<open>
  A task that is ready runs when those before it have run once each, whatever happens in between. Priorities and
  random numbers have no say.
\<close>

lemma turn_comes:
  assumes "rc_ok s" "plain_env env" "rc_ready s = xs @ t # ys" "rc_run env False (length xs) (now, s) (now', s')"
  shows "\<exists>zs. rc_ready s' = t # zs \<and> (\<forall>rs when. cycle env rs when s' =
    (case task_execute env when t (s'\<lparr>rc_ready := zs\<rparr>) of (out, s) \<Rightarrow>
      (case after_yield out t when s of (Some e, s) \<Rightarrow> (Inl e, s) | (None, s) \<Rightarrow> (Inr True, s))))"
proof -
  obtain new where "rc_ready s' = drop (length xs) (rc_ready s) @ new" using rc_run_ok [OF assms(4)] assms(1,2) by auto
  then have "rc_ready s' = t # (ys @ new)" using assms(3) by simp
  then show ?thesis by (simp add: cycle_def pick_head)
qed

subsection \<open>Sleeping\<close>

definition sleeper :: "nat \<Rightarrow> rat \<Rightarrow> 'u recoco \<Rightarrow> bool" where
  "sleeper t x s \<longleftrightarrow> hub_tasks s t = Some ([], [], [], Some x)"

lemma sleeper_not_resumed:
  assumes "sleeper t x s" "scan_ok (hub_tasks s) sc"
  shows "t \<notin> resumed sc se"
proof
  assume "t \<in> resumed sc se"
  then have "\<exists>r. hub_tasks s t = Some r \<and> has_fds r" using assms(2) resumed_fds unfolding scan_ok_def fd_tasks_def by blast
  then show False using assms(1) by (auto simp: sleeper_def has_fds_def)
qed

lemma not_woken_early:
  assumes "rc_step env False k (now, s) (now', s')" "rc_ok s" "plain_env env" "sleeper t x s" "t \<in> set (rc_ready s')"
  shows "x \<le> now'"
proof -
  have h: "hub_tasks s t \<noteq> None" using assms(4) by (simp add: sleeper_def)
  have same: False if "timers_steady s1 s'" "hub_tasks s1 = hub_tasks s" for s1
    using that assms(5) h by (auto simp: timers_steady_def rc_ok_def once_def queue_def)
  have n: "t \<notin> set (rc_ready s)" using assms(2) h by (auto simp: rc_ok_def once_def queue_def)
  from assms(1) show ?thesis
  proof cases
    case (begin_task kd)
    then show ?thesis using same [of s] spawn_settled [OF assms(2)] by simp
  next
    case (round rs)
    then show ?thesis using same [of "s\<lparr>rc_ready := tl (rc_ready s)\<rparr>"] run_round_settled [OF assms(2,3)] by simp
  next
    case (thread i v)
    then show ?thesis using same [of s] thread_proc_ok [OF assms(2)] by simp
  next
    case (before order)
    then have "t \<in> set (filter (due now (hub_tasks s)) order)" using assms(5) hub_before_ok [OF assms(2), of order now] n by auto
    then show ?thesis using assms(4) before by (auto simp: due_def tto_def sleeper_def)
  next
    case (after sc se order)
    have sc: "scan_ok (hub_tasks s) sc" using assms(2) after(5) by (simp add: rc_ok_core)
    have w: "t \<in> set (woken se order sc)" using assms(5) hub_after_ok [OF assms(2), of sc order se] after n by auto
    have "t \<notin> set order" using sleeper_not_resumed [OF assms(4) sc] after(7) by simp
    then obtain y where y: "nothing se \<and> \<not> se_ping se" "sc_timeout sc = Some (y, t)"
      using w by (auto simp: woken_def split: option.splits bool.splits)
    have "sc_now sc + y \<le> now" using after(6) y by (simp add: select_ok_def)
    moreover have "x = sc_now sc + y" using sc y(2) assms(4) by (auto simp: scan_ok_def sleeper_def)
    ultimately show ?thesis using after by simp
  qed (use n assms(5) in auto)
qed

text \<open>A round of the hub wakes all whose time has come.\<close>

lemma due_are_woken:
  assumes "rc_ok s" "set order = dom (hub_tasks s)" "distinct order" "sleeper t x s" "x \<le> now"
  shows "t \<in> set (rc_ready (hub_before now order s))"
proof -
  have "t \<in> set order" "due now (hub_tasks s) t" using assms(2,4,5) by (auto simp: sleeper_def due_def tto_def)
  then show ?thesis using hub_before_ok [OF assms(1-3), of now] by simp
qed

subsection \<open>What goes wrong\<close>

text \<open>
  \<^verbatim>\<open>Send\<close>: when the socket is writable the return function fails and registers again, and is forgotten; when the
  socket is writable again the generator is given the lists of \<^verbatim>\<open>select\<close>. Nothing was sent.
\<close>

lemma send_fails:
  assumes "tk_rf (rc_tasks s t) = Some (SendF fd data sent)" "tk_rv (rc_tasks s t) = ResLists ro wo []" "rc_ready s = t # q"
  shows "\<exists>s'. cycle env rs now s = (Inr True, s') \<and> rc_sent s' = rc_sent s \<and> rc_ready s' = q \<and>
    hub_incoming s' = hub_incoming s @ [(t, [], [fd], [fd], None)] \<and> tk_rf (rc_tasks s' t) = None"
  using assms
  by (auto simp: cycle_def pick_head task_execute_def send_return_def Let_def list_send_def set_rv_def set_rf_def set_task_def
    send_execute_def registerSelect_def)

text \<open>A task that yields \<^verbatim>\<open>None\<close> ends the scheduler.\<close>

lemma none_ends_scheduler:
  assumes "rc_ready s = t # q" "task_execute env now t (s\<lparr>rc_ready := q\<rparr>) = (Yields YNone, s')"
  shows "run_round env rs now s = s'\<lparr>rc_hasQuit := True, hub_pinged := True\<rparr>"
  using assms by (simp add: run_round_def cycle_def pick_head)

text \<open>A timer that does not recur calls its callback at its first wake and is then done.\<close>

lemma one_shot_timer:
  assumes "tm_at m = TStart" "\<not> tm_cancelled m" "\<not> tm_recurring m"
  shows "timer_send env now t m s = (Yields (YOp (Sleep (Some (tm_next m)))), set_timer_at t m TSleeping s)"
    and "us_call env (tm_callback m) (rc_user s) = (Inr f, [], u) \<Longrightarrow> tk_kind (rc_tasks s t) = KTimer (m\<lparr>tm_at := TSleeping\<rparr>) \<Longrightarrow>
      \<exists>s' m'. timer_send env now t (m\<lparr>tm_at := TSleeping\<rparr>) s = (Yields YFalse, s') \<and> rc_user s' = u \<and> tk_kind (rc_tasks s' t) = KTimer m' \<and>
        tm_at m' = TQuit"
  using assms
  by (simp_all add: timer_send_def timer_loop_def timer_fire_def Let_def do_acts_def set_timer_at_def set_task_def the_timer_def timer_quit_def)

lemma cancelled_timer:
  assumes "tm_at m = TSleeping" "tm_cancelled m"
  shows "timer_send env now t m s = (Yields YFalse, set_timer_at t m TQuit s)"
  using assms by (simp add: timer_send_def timer_quit_def)

text \<open>
  \<^verbatim>\<open>schedule\<close>, the safe way to wake a task, looks only at the tasks that are ready. A sleeper that is woken by it and
  sleeps again is registered a second time, and the assertion ends the thread of the hub: nobody wakes any more.
\<close>

definition napping :: "unit recoco_env" where
  "napping = \<lparr>us_send = \<lambda>t v u. (Yields (YNum 5), [], u), us_call = \<lambda>f u. (Inr False, [], u), us_recv = \<lambda>f n u. (Inr [], u)\<rparr>"

lemmas rc_eval = spawn_def generateTaskID_def fast_schedule_def task_init_def Scheduler_init_def run_round_def cycle_def pick_head
  task_execute_def gen_send_def user_send_def do_acts_def napping_def set_rv_def set_task_def registerTimer_def registerSelect_def Let_def
  hub_before_def scan_all_def hub_end_def update_def hub_after_def hub_resume_def hub_return_def nothing_def schedule_from_outside_def schedule_send_def
  scan_task_def add_lists_def add_fds_def

definition pinged :: selected where "pinged = \<lparr>se_ping = True, se_ro = [], se_wo = [], se_xo = []\<rparr>"

definition napped :: "unit recoco" where
  "napped = (let s = hub_before 0 [] (run_round napping [] 0 (snd (spawn KUser (Scheduler_init ())))) in hub_after pinged [] (the (hub_at s)) s)"

definition napped_again :: "unit recoco" where
  "napped_again = run_round napping [] 0 (run_round napping [] 0 (snd (schedule_from_outside 1 napped)))"

lemma napped_value:
  "hub_tasks napped = [1 \<mapsto> ([], [], [], Some 5)]" "rc_ready napped = []" "hub_at napped = None" "\<not> hub_dead napped" "\<not> rc_hasQuit napped"
  by (simp_all add: napped_def pinged_def rc_eval)

lemma napped_again_value:
  "hub_tasks napped_again = [1 \<mapsto> ([], [], [], Some 5)]" "hub_incoming napped_again = [(1, [], [], [], Some 5)]" "hub_at napped_again = None"
  "\<not> hub_dead napped_again" "\<not> rc_hasQuit napped_again"
  by (simp_all add: napped_again_def napped_def pinged_def rc_eval)

lemma select_pinged: "select_ok now sc pinged" "resumed sc pinged = {}"
  by (simp_all add: select_ok_def pinged_def nothing_def resumed_def)

lemma napped_reached: "rc_run napping outside 1 (0, Scheduler_init ()) (0, napped)"
proof -
  let ?s1 = "snd (spawn KUser (Scheduler_init ()))"
  let ?s2 = "run_round napping [] 0 ?s1"
  let ?s3 = "hub_before 0 [] ?s2"
  have 1: "rc_run napping outside (0 + 0) (0, Scheduler_init ()) (0, ?s1)"
    by (intro rc_run.further [OF rc_run.stay] rc_step.begin_task) simp
  have 2: "rc_run napping outside (0 + 0 + 1) (0, Scheduler_init ()) (0, ?s2)"
    by (intro rc_run.further [OF 1] rc_step.round) (simp add: rc_eval)
  have 3: "rc_run napping outside (0 + 0 + 1 + 0) (0, Scheduler_init ()) (0, ?s3)"
    by (intro rc_run.further [OF 2] rc_step.before) (simp_all add: rc_eval)
  have h: "hub_at ?s3 = Some (the (hub_at ?s3))" "\<not> hub_dead ?s3" by (simp_all add: rc_eval)
  have "rc_run napping outside (0 + 0 + 1 + 0 + 0) (0, Scheduler_init ()) (0, napped)"
    unfolding napped_def Let_def by (intro rc_run.further [OF 3] rc_step.after h select_pinged) (simp_all add: select_pinged)
  then show ?thesis by simp
qed

lemma waking_kills:
  "\<exists>s. rc_reachable napping True 0 s \<and> hub_dead s"
proof -
  let ?s1 = "snd (schedule_from_outside 1 napped)"
  let ?s2 = "run_round napping [] 0 ?s1"
  let ?s4 = "hub_before 0 [1] napped_again"
  let ?s5 = "hub_after pinged [] (the (hub_at ?s4)) ?s4"
  note v = napped_again_value
  have 1: "rc_run napping True (1 + 0) (0, Scheduler_init ()) (0, ?s1)" by (intro rc_run.further [OF napped_reached] rc_step.wake) simp
  have 2: "rc_run napping True (1 + 0 + 1) (0, Scheduler_init ()) (0, ?s2)"
    by (intro rc_run.further [OF 1] rc_step.round) (simp add: schedule_from_outside_def spawn_def generateTaskID_def Let_def fast_schedule_def napped_value)
  have 3: "rc_run napping True (1 + 0 + 1 + 1) (0, Scheduler_init ()) (0, napped_again)"
    unfolding napped_again_def by (intro rc_run.further [OF 2] rc_step.round) (simp add: napped_def pinged_def rc_eval)
  have 4: "rc_run napping True (1 + 0 + 1 + 1 + 0) (0, Scheduler_init ()) (0, ?s4)"
    by (intro rc_run.further [OF 3] rc_step.before) (simp_all add: v)
  have h: "hub_at ?s4 = Some (the (hub_at ?s4))" "\<not> hub_dead ?s4" by (simp_all add: v rc_eval)
  have 5: "rc_run napping True (1 + 0 + 1 + 1 + 0 + 0) (0, Scheduler_init ()) (0, ?s5)"
    by (intro rc_run.further [OF 4] rc_step.after h select_pinged) (simp_all add: select_pinged)
  have "hub_dead ?s5" by (simp add: v rc_eval pinged_def)
  then show ?thesis using 5 unfolding rc_reachable_def by blast
qed

end
