(* ===== verification/Spec2Isabelle.thy ===== *)
theory Spec2Isabelle
  imports Revent L2_Multi SR_Handler Recoco
begin

unbundle bit_operations_syntax

text \<open>
  POX, an OpenFlow 1.0 controller and switch in Python, under
  \<^verbatim>\<open>src/cs561-as2-kenwith/pox/pox/\<close>. File names below are relative to that directory. The language
  is Python 2: strings are bytes, integers are unbounded, and every exception is a value of
  \<^verbatim>\<open>py_error\<close> in the sum type \<^verbatim>\<open>result\<close>, so that a raise is a branch of the definition it happens in.

  \<^bold>\<open>Parts and theories.\<close>

  \<^item> \<^verbatim>\<open>Py_Prelude\<close>, \<^verbatim>\<open>Py_Text\<close>: what the source uses of the language and its standard library: errors,
    slices, \<^verbatim>\<open>struct\<close> with its format strings, \<^verbatim>\<open>int\<close>, \<^verbatim>\<open>str\<close>, \<^verbatim>\<open>split\<close>, \<^verbatim>\<open>inet_aton\<close>. The lemmas say
    that packing a format and unpacking it are inverse for values in range.
  \<^item> \<^verbatim>\<open>Addresses\<close>: \<^verbatim>\<open>lib/addresses.py\<close>: \<^verbatim>\<open>EthAddr\<close>, \<^verbatim>\<open>IPAddr\<close>, \<^verbatim>\<open>parseCIDR\<close>, \<^verbatim>\<open>inferNetMask\<close>.
  \<^item> \<^verbatim>\<open>OF_Base\<close>, \<^verbatim>\<open>OF_Structs\<close>, \<^verbatim>\<open>OF_Match\<close>, \<^verbatim>\<open>OF_Actions\<close>, \<^verbatim>\<open>OF_Messages\<close>, \<^verbatim>\<open>OF_Stats\<close>:
    \<^verbatim>\<open>openflow/libopenflow_01.py\<close>, class by class. A class is a record; its constructor, \<^verbatim>\<open>_assert\<close>,
    \<^verbatim>\<open>pack\<close>, \<^verbatim>\<open>unpack\<close>, \<^verbatim>\<open>__len__\<close> and \<^verbatim>\<open>__eq__\<close> are definitions named after class and method. Python's
    keyword arguments are the function the constructor applies to the defaults. A \<^verbatim>\<open>pack\<close> that assigns
    to the object returns the object too, and one that draws a transaction id takes and returns the
    global counter.
  \<^item> \<^verbatim>\<open>Packets\<close>: \<^verbatim>\<open>lib/packet/\<close>: Ethernet, VLAN, IPv4, UDP, TCP, ICMP, ARP, MPLS and the Internet
    checksum. A frame is a tree of headers; the packet classes that are not part of it are a parameter of the functions
    that reach them, with which \<^verbatim>\<open>LLDP\<close> is composed (\<^verbatim>\<open>lib/packet/lldp.py\<close>) and without which DHCP, DNS and EAP remain.
  \<^item> \<^verbatim>\<open>Flow_Table\<close>: \<^verbatim>\<open>openflow/flow_table.py\<close>: entries, the sorted table with its events, flow-mods.
    Entries have identities, because \<^verbatim>\<open>list.remove\<close> compares objects.
  \<^item> \<^verbatim>\<open>OF_Channel\<close>: \<^verbatim>\<open>openflow/util.py\<close> and the framing loop of \<^verbatim>\<open>openflow/of_01.py\<close>.
  \<^item> \<^verbatim>\<open>OF_Connection\<close>: the handlers of \<^verbatim>\<open>openflow/of_01.py\<close>, \<^verbatim>\<open>Connection\<close> and the nexus of
    \<^verbatim>\<open>openflow/connection_arbiter.py\<close>: the handshake, events, statistics in several parts.
  \<^item> \<^verbatim>\<open>Switch\<close>: \<^verbatim>\<open>openflow/switch_impl.py\<close>: the software switch: ports, packet buffer, the actions on frames, which live in a store because actions change them in place, and every message handler.
  \<^item> \<^verbatim>\<open>OF_System\<close>: a switch and a connection of the controller joined by the bytes they send each other.
  \<^item> \<^verbatim>\<open>L2_Learning\<close>: \<^verbatim>\<open>forwarding/l2_learning.py\<close>: the learning switch.
  \<^item> \<^verbatim>\<open>LLDP\<close>: \<^verbatim>\<open>lib/packet/lldp.py\<close>: the probes of discovery.
  \<^item> \<^verbatim>\<open>Discovery\<close>: \<^verbatim>\<open>openflow/discovery.py\<close>: the sender of probes and the table of links.
  \<^item> \<^verbatim>\<open>Spanning_Tree\<close>: \<^verbatim>\<open>openflow/spanning_tree.py\<close>: the tree and the ports it leaves out of flooding.
  \<^item> \<^verbatim>\<open>Revent\<close>: \<^verbatim>\<open>lib/revent/revent.py\<close>: events: listeners in lists that are shared objects, and the loop that raises an event.
  \<^item> \<^verbatim>\<open>Switch_Paths\<close>: the table of shortest paths of \<^verbatim>\<open>forwarding/l2_multi.py\<close> and the reading of a path.
  \<^item> \<^verbatim>\<open>L2_Multi\<close>: \<^verbatim>\<open>forwarding/l2_multi.py\<close>: the learning switch over the whole network.
  \<^item> \<^verbatim>\<open>VNS\<close>: \<^verbatim>\<open>../../pox_module/cs561/VNSProtocol.py\<close>: the messages between the controller and the software routers of the course.
  \<^item> \<^verbatim>\<open>SR_Handler\<close>: \<^verbatim>\<open>srhandler.py\<close> and \<^verbatim>\<open>ofhandler.py\<close>: the server of these routers and the handler of a switch, with the two events between them.
  \<^item> \<^verbatim>\<open>Recoco\<close>: \<^verbatim>\<open>lib/recoco/recoco.py\<close>: cooperative tasks: the thread of the scheduler, that of the
    \<^verbatim>\<open>SelectHub\<close> and those of blocking functions, as steps that interleave, and timers. The code of a task is a parameter.

  \<^bold>\<open>How they interact.\<close> A message is bytes between \<^verbatim>\<open>OF_Channel\<close> and \<^verbatim>\<open>OF_Connection\<close>; handlers take a message and a
  state and return an exception or none with the new state, whether they raise or not. Applications are handlers
  of the events of a connection, and what they send is packed by the message classes. Transaction ids come from one
  global counter, which every state carries along. The order in which a dictionary or a set is listed is an argument.

  \<^bold>\<open>Interfaces.\<close> \<^verbatim>\<open>wire_struct\<close> (in \<^verbatim>\<open>OF_Base\<close>) is what a structure of the protocol promises: what was
  packed is unpacked from its bytes with any bytes behind them, which are given back, and its length
  is the number of bytes. \<^verbatim>\<open>wire_message\<close> is the same for messages with a header and a transaction id,
  \<^verbatim>\<open>framed_message\<close> adds what the framing loop reads. Every structure, action and message with a
  faithful round trip is an interpretation; those without one are the subject of the findings.
  \<^verbatim>\<open>message_body\<close> (in \<^verbatim>\<open>VNS\<close>) is the same for bodies whose end is known from outside. \<^verbatim>\<open>handlers_keep\<close> and \<^verbatim>\<open>quiet_handlers\<close>
  (in \<^verbatim>\<open>Revent\<close>) are handlers that keep the order of the listeners, and handlers that do not subscribe; \<^verbatim>\<open>path_finder\<close>
  (in \<^verbatim>\<open>Switch_Paths\<close>) is what a table of paths promises to the reader of a path.

  \<^bold>\<open>What the lemmas show.\<close> The wire formats round trip; the wildcard bits of a match decide an abstract
  coverage relation; flow-mods keep the table sorted and do to it what the protocol says; any chopping
  of a stream of messages is delivered message by message; checksums verify. The handshake completes, and closed
  connections send and report nothing. The switch keeps its buffer and table in order, forwards by its best entry and connects
  to the controller. The learning switch carries out an abstract decision, and its flow takes over on the switch.
  Discovery knows only links it was shown, and drops them in time; the spanning tree is spanning and acyclic. Raising an event
  calls the listeners in the order of their priorities. The paths of \<^verbatim>\<open>l2_multi\<close> are shortest, follow
  two-way links and are installed hop by hop. Frames reach the routers of the course and their answers return. A task is
  in one place, each gets its turn, and sleepers wake in time.
  Where the code errs, the theorem states what it does.

  \<^bold>\<open>Bounds and loops.\<close> Values that are packed are bounded by the width of their field, as hypotheses or
  as the well-formedness of a message. Loops that may run forever are a
  \<^verbatim>\<open>partial_function\<close>: the framing loops of both sides, the loop of the spanning tree, the loop that raises an event and the
  reading of a path. That they return, and when they do not, are theorems. Every other loop is a total
  function.

  \<^bold>\<open>Not modelled.\<close> Printing and logging (\<^verbatim>\<open>show\<close>, \<^verbatim>\<open>__str__\<close>), hashes of addresses, the vendor names of
  hardware addresses; sockets, the locks of threads and the waiting inside \<^verbatim>\<open>select\<close>; the loop that reads
  a connection; calls from other threads into the scheduler; weak references to listeners; DHCP, DNS, EAP; the graph library, the
  host tracker, the GUI, the messenger,
  the web server and the scripts that run experiments, which are input and output around the core.

\<close>

subsection \<open>Concrete inputs\<close>

text \<open>The values the properties are applied to in their witnesses.\<close>

definition packs :: "(bytes option \<times> 'a \<times> int) result \<Rightarrow> bool" where
  "packs r \<longleftrightarrow> (case r of Inr (Some _, _) \<Rightarrow> True | _ \<Rightarrow> False)"

lemma packsE:
  assumes "packs r"
  obtains b m n where "r = Inr (Some b, m, n)"
  using assms by (auto simp: packs_def split: sum.splits prod.splits option.splits)

definition demo_match :: ofp_match where
  "demo_match = int_set F_in_port (Some 3) (int_set F_dl_type (Some 0x0800) ofp_match_new)"

definition demo_output :: ofp_action where
  "demo_output = ActOutput \<lparr>ao_type = 0, ao_length = 8, ao_port = Some 2, ao_max_len = 65535\<rparr>"

definition demo_flow_mod :: ofp_flow_mod where
  "demo_flow_mod = ofp_flow_mod_init (\<lambda>m. m\<lparr>fm_match := demo_match, fm_actions := [demo_output]\<rparr>)"

definition demo_table :: flow_table where
  "demo_table = add_flow_mod demo_flow_mod 0 FlowTable_init"

lemma demo_match_ok: "match_ok demo_match"
  by (simp add: demo_match_def match_ok_new)

lemma demo_flow_mod_fields:
  "fm_match demo_flow_mod = demo_match" "fm_actions demo_flow_mod = [demo_output]" "fm_command demo_flow_mod = OFPFC_ADD"
  "fm_buffer_ok demo_flow_mod" "supported demo_flow_mod" "action_wf demo_output"
  by (simp_all add: demo_flow_mod_def ofp_flow_mod_init_def supported_def fm_buffer_ok_def buffer_id_ok_def demo_output_def)

lemma demo_table_ok: "table_ok demo_table"
  unfolding demo_table_def by (rule table_ok_add [OF table_ok_init]) (simp add: demo_flow_mod_fields demo_match_ok)

subsection \<open>Matching\<close>

text \<open>
  C1. On matches whose slots hold addresses, \<^verbatim>\<open>matches_with_wildcards\<close> never raises and decides the
  abstract relation: the two are the same, or every field of the first covers the field of the second
  (and, when the second's wildcards count, every wildcard bit of the second is one of the first).
\<close>

theorem matching_refines_coverage:
  assumes "match_ok a" "match_ok b"
  shows "matches_with_wildcards a b c =
    Inr (match_same a b \<or> ((c \<longrightarrow> wild_covers a b) \<and> match_covers a b))"
  by (rule matches_with_wildcards_iff [OF assms])

theorem matching_refines_coverage_witness:
  "matches_with_wildcards ofp_match_new demo_match True =
    Inr (match_same ofp_match_new demo_match \<or>
      ((True \<longrightarrow> wild_covers ofp_match_new demo_match) \<and> match_covers ofp_match_new demo_match))"
  by (rule matching_refines_coverage [OF match_ok_new demo_match_ok])

text \<open>
  A match that covers another one matches every packet that the other one matches: what a broad
  flow-mod selects and what the selected entries would have caught agree.
\<close>

lemma matching_transitive:
  assumes "match_ok a" "match_ok b" "match_ok p"
    "matches_with_wildcards a b True = Inr True" "matches_with_wildcards b p False = Inr True"
  shows "matches_with_wildcards a p False = Inr True"
proof -
  have ab: "match_same a b \<or> match_covers a b" and bp: "match_same b p \<or> match_covers b p"
    using assms(4,5) unfolding matches_with_wildcards_iff [OF assms(1,2)] matches_with_wildcards_iff [OF assms(2,3)]
    by auto
  then have "match_same a p \<or> match_covers a p"
    using match_same_trans [of a b p] match_covers_same(1) [of a b p] match_covers_same(2) [of b p a]
      match_covers_trans [of a b p] by blast
  then show ?thesis by (simp add: matches_with_wildcards_iff [OF assms(1,3)])
qed

text \<open>
  The attributes of a match: an attribute reads what was last written to it (\<^verbatim>\<open>None\<close> being a
  wildcard), and no write of an address with a prefix length disturbs another attribute.
\<close>

lemma attribute_laws:
  assumes "nw_set s (Some (IpObj a)) (Some bits) m = Inr m'"
  shows "int_get g (int_set f v m) = (if f = g then v else int_get g m) \<and>
    hw_get h (hw_set k w m) = (if k = h then w else hw_get h m) \<and>
    nw_get t m' = (if t \<noteq> s then nw_get t m else if clamp32 bits = 0 then (None, 0) else (Some (IpObj a), clamp32 bits)) \<and>
    int_get f m' = int_get f m \<and> hw_get h m' = hw_get h m"
  using nw_set_IpObj [OF assms] by (simp add: int_get_set hw_get_set)

text \<open>
  Wildcarding the destination address resets the stored \<^emph>\<open>source\<close> address: the source attribute,
  if it is not wildcarded, reads 0 with its old prefix length, whatever it was.
\<close>

lemma nw_dst_reset_clears_source:
  assumes "nw_get F_nw_src m = (Some x, n)"
  shows "\<exists>m'. nw_set F_nw_dst None None m = Inr m' \<and> nw_get F_nw_src m' = (Some (IpInt 0), n) \<and>
    nw_get F_nw_dst m' = (None, 0)"
proof -
  have k: "(0::int) \<le> 32" "(32::int) < 64" by simp_all
  have w: "nw_all F_nw_dst = push_bit (nw_shift F_nw_dst) 32" by simp
  show ?thesis
    using assms unfolding nw_set_def make_addr_def nw_get_eq
    by (simp add: w nw_bits_write_other [OF k] nw_bits_write_field [OF k] split: if_splits
        del: nw_all.simps nw_mask.simps nw_shift.simps push_bit_numeral)
qed

subsection \<open>Flow table\<close>

text \<open>
  C2. Looking up a packet in a well-formed table never raises and returns the best entry: one that
  matches and comes before every other one that matches, exact matches first, then by priority, then
  by age. It returns \<^verbatim>\<open>None\<close> only when no entry matches.
\<close>

theorem packet_lookup_best:
  assumes "table_ok t" "hw_wire (e_src packet)" "hw_wire (e_dst packet)" "headers_ok nxt"
  shows "\<exists>m r. from_packet packet nxt (Some in_port) = Inr m \<and> entry_for_packet t packet nxt in_port = Inr r \<and>
    (case r of None \<Rightarrow> \<forall>e \<in> set (ft_table t). \<not> entry_applies m e
     | Some e \<Rightarrow> e \<in> set (ft_table t) \<and> entry_applies m e \<and>
         (\<forall>e' \<in> set (ft_table t). entry_applies m e' \<longrightarrow> e' = e \<or> table_lt e e'))"
proof -
  obtain m where m: "from_packet packet nxt (Some in_port) = Inr m" "match_ok m"
    using from_packet_ok [OF assms(2-4)] by blast
  obtain r where "find_entry m (ft_table t) = Inr r"
    "case r of None \<Rightarrow> \<forall>e \<in> set (ft_table t). \<not> entry_applies m e
     | Some e \<Rightarrow> e \<in> set (ft_table t) \<and> entry_applies m e \<and>
         (\<forall>e' \<in> set (ft_table t). entry_applies m e' \<longrightarrow> e' = e \<or> table_lt e e')"
    by (rule find_entry_best [OF assms(1) m(2)])
  then show ?thesis using m(1) by (simp add: entry_for_packet_def)
qed

theorem packet_lookup_best_witness:
  "\<exists>m r. from_packet ethernet_init (NoNext :: unit payload) (Some 3) = Inr m \<and>
    entry_for_packet demo_table ethernet_init (NoNext :: unit payload) 3 = Inr r \<and>
    (case r of None \<Rightarrow> \<forall>e \<in> set (ft_table demo_table). \<not> entry_applies m e
     | Some e \<Rightarrow> e \<in> set (ft_table demo_table) \<and> entry_applies m e \<and>
         (\<forall>e' \<in> set (ft_table demo_table). entry_applies m e' \<longrightarrow> e' = e \<or> table_lt e e'))"
  by (rule packet_lookup_best [OF demo_table_ok]) (simp_all add: ethernet_init_def hw_wire_def)

text \<open>
  C3. Every flow-mod that the table accepts keeps it well-formed: sorted by descending key with equal keys
  in order of arrival, no entry twice, every match well-formed.
\<close>

theorem flow_mod_keeps_table:
  assumes "table_ok t" "match_ok (fm_match fm)" "process_flow_mod fm now t = Inr (r, t')"
  shows "table_ok t'"
  by (rule process_flow_mod_ok [OF assms])

theorem flow_mod_keeps_table_witness:
  "\<exists>r t'. process_flow_mod demo_flow_mod 1 demo_table = Inr (r, t') \<and> table_ok t'"
proof -
  have m: "match_ok (fm_match demo_flow_mod)" by (simp add: demo_flow_mod_fields demo_match_ok)
  obtain r t' where p: "process_flow_mod demo_flow_mod 1 demo_table = Inr (r, t')"
    using process_add [OF demo_table_ok m] by (simp add: demo_flow_mod_fields Let_def)
  then show ?thesis using flow_mod_keeps_table [OF demo_table_ok m p] by blast
qed

text \<open>
  C4. ADD removes exactly the entries with the same match and priority, keeps all others in order, and puts
  the new entry behind every entry of at least its key. The removal and the addition are reported as
  two events.
\<close>

theorem flow_mod_add:
  assumes "table_ok t" "match_ok (fm_match fm)" "supported fm" "fm_command fm = OFPFC_ADD"
  shows "\<exists>t'. process_flow_mod fm now t = Inr ((''added'', None), t') \<and>
    ft_table t' = insert_entry (from_flow_mod (ft_next t) fm now)
      (filter (\<lambda>e. \<not> (match_same (te_match e) (fm_match fm) \<and> te_priority e = fm_priority fm)) (ft_table t)) \<and>
    map md_removed (ft_events t') = map md_removed (ft_events t) @
      [filter (\<lambda>e. match_same (te_match e) (fm_match fm) \<and> te_priority e = fm_priority fm) (ft_table t), []] \<and>
    map md_added (ft_events t') = map md_added (ft_events t) @ [[], [from_flow_mod (ft_next t) fm now]]"
proof -
  have s: "selected fm True = (\<lambda>e. match_same (te_match e) (fm_match fm) \<and> te_priority e = fm_priority fm)"
    by (rule ext) (simp add: selects_def check_port_def)
  have ok: "table_ok (raise_modification a b (t\<lparr>ft_table := filter P (ft_table t)\<rparr>))" for a b P
    using assms(1) by (rule table_ok_sub) simp_all
  show ?thesis
    by (simp add: process_add [OF assms] Let_def add_flow_mod_table [OF ok] s)
qed

theorem flow_mod_add_witness:
  "\<exists>t'. process_flow_mod demo_flow_mod 1 demo_table = Inr ((''added'', None), t') \<and>
    ft_table t' = insert_entry (from_flow_mod (ft_next demo_table) demo_flow_mod 1)
      (filter (\<lambda>e. \<not> (match_same (te_match e) demo_match \<and> te_priority e = fm_priority demo_flow_mod)) (ft_table demo_table))"
proof -
  have m: "match_ok (fm_match demo_flow_mod)" by (simp add: demo_flow_mod_fields demo_match_ok)
  show ?thesis using flow_mod_add [OF demo_table_ok m demo_flow_mod_fields(5,3), of 1]
    unfolding demo_flow_mod_fields by blast
qed

text \<open>
  MODIFY gives the selected entries the new actions, in place, and returns them; without a selected
  entry it is an ADD that removes nothing. The strict form selects by equality of match and priority,
  the other one every entry whose match the given one covers.
\<close>

lemma flow_mod_modify:
  assumes "table_ok t" "match_ok (fm_match fm)" "supported fm"
    "fm_command fm = OFPFC_MODIFY \<or> fm_command fm = OFPFC_MODIFY_STRICT"
  shows "process_flow_mod fm now t =
    (let P = selected fm (fm_command fm = OFPFC_MODIFY_STRICT)
     in if filter P (ft_table t) = [] then Inr ((''added'', None), add_flow_mod fm now t)
        else Inr ((''modified'', Some (map (set_actions P (fm_actions fm)) (filter P (ft_table t)))),
                  t\<lparr>ft_table := map (set_actions P (fm_actions fm)) (ft_table t)\<rparr>))"
  by (rule process_modify [OF assms])

text \<open>
  C5. DELETE and DELETE_STRICT do the same: they remove exactly the entries with an equal match and an equal
  priority. In particular the wildcard form never deletes an entry that it merely covers.
\<close>

theorem flow_mod_delete:
  assumes "table_ok t" "match_ok (fm_match fm)" "supported fm"
    "fm_command fm = OFPFC_DELETE \<or> fm_command fm = OFPFC_DELETE_STRICT"
  shows "\<exists>t'. process_flow_mod fm now t =
      Inr ((''removed'', Some (filter (\<lambda>e. match_same (te_match e) (fm_match fm) \<and> te_priority e = fm_priority fm) (ft_table t))), t') \<and>
    ft_table t' = filter (\<lambda>e. \<not> (match_same (te_match e) (fm_match fm) \<and> te_priority e = fm_priority fm)) (ft_table t)"
proof -
  have s: "selected fm True = (\<lambda>e. match_same (te_match e) (fm_match fm) \<and> te_priority e = fm_priority fm)"
    by (rule ext) (simp add: selects_def check_port_def)
  show ?thesis by (simp add: process_delete [OF assms] Let_def s)
qed

theorem flow_mod_delete_witness:
  "\<exists>t'. process_flow_mod (demo_flow_mod\<lparr>fm_command := OFPFC_DELETE, fm_match := ofp_match_new\<rparr>) 1 demo_table =
     Inr ((''removed'', Some []), t') \<and> ft_table t' = ft_table demo_table"
proof -
  let ?fm = "demo_flow_mod\<lparr>fm_command := OFPFC_DELETE, fm_match := ofp_match_new\<rparr>"
  have w: "wildcards demo_match \<noteq> wildcards ofp_match_new" by code_simp
  have t: "ft_table demo_table = [from_flow_mod 0 demo_flow_mod 0]"
    using add_flow_mod_table(1) [OF table_ok_init]
    by (simp add: demo_table_def FlowTable_init_def insert_entry_def)
  have "match_ok (fm_match ?fm)" "supported ?fm" "fm_command ?fm = OFPFC_DELETE \<or> fm_command ?fm = OFPFC_DELETE_STRICT"
    using demo_flow_mod_fields(5) by (simp_all add: match_ok_new supported_def)
  from flow_mod_delete [OF demo_table_ok this, of 1] show ?thesis
    using w by (auto simp: t demo_flow_mod_fields match_same_def)
qed

text \<open>
  Expiry removes exactly the entries whose hard or idle timeout has passed and keeps the order of the
  rest; an entry touched at this moment is only removed when its hard timeout has passed.
\<close>

lemma expiry_exact:
  assumes "table_ok t"
  shows "\<exists>t'. remove_expired_entries t now = Inr (filter (\<lambda>e. is_expired e now) (ft_table t), t') \<and>
    ft_table t' = filter (\<lambda>e. \<not> is_expired e now) (ft_table t) \<and> table_ok t' \<and>
    (is_expired (touch_packet e n now) now \<longleftrightarrow> te_hard_timeout e > 0 \<and> now - te_created e > of_int (te_hard_timeout e))"
proof -
  have "table_ok (raise_modification [] r (t\<lparr>ft_table := filter P (ft_table t)\<rparr>))" for r P
    using assms by (rule table_ok_sub) simp_all
  then show ?thesis
    by (auto simp: remove_expired_entries_eq [OF assms] Let_def is_expired_def touch_packet_def)
qed

subsection \<open>Wire formats\<close>

text \<open>
  C6. Packing a flow-mod and unpacking it behind any other bytes gives the message back, with its match in
  wire form (the fields that cannot apply to the match's type wildcarded and zeroed), leaves the other
  bytes, and the length field counts the bytes. The match keeps every field that applies.
\<close>

theorem flow_mod_round_trip:
  assumes "ofp_flow_mod_pack as m nx = Inr (Some b, m', nx')" "match_ok (fm_match m)" "fm_buffer_ok m"
    "\<forall>a \<in> set (fm_actions m). action_wf a"
  shows "int (length b) = hlength m' \<and>
    ofp_flow_mod_unpack self (b @ r) = Inr (m'\<lparr>fm_match := wire_form True (fm_match m)\<rparr>, r) \<and>
    int_get f (wire_form True (fm_match m)) = (if applies f (fm_match m) then int_get f (fm_match m) else None) \<and>
    hw_get h (wire_form True (fm_match m)) = hw_get h (fm_match m)"
  using flow_mod_unpack_pack [OF assms] by (simp add: int_get_wire_form hw_get_wire_form [OF assms(2)])

theorem flow_mod_round_trip_witness:
  "\<exists>b m' nx'. ofp_flow_mod_pack True demo_flow_mod 7 = Inr (Some b, m', nx') \<and>
    ofp_flow_mod_unpack (ofp_flow_mod_init (\<lambda>m. m)) (b @ ''tail'') = Inr (m'\<lparr>fm_match := wire_form True demo_match\<rparr>, ''tail'')"
proof -
  have "packs (ofp_flow_mod_pack True demo_flow_mod 7)" by code_simp
  then obtain b m' nx' where p: "ofp_flow_mod_pack True demo_flow_mod 7 = Inr (Some b, m', nx')" by (rule packsE)
  have "match_ok (fm_match demo_flow_mod)" "fm_buffer_ok demo_flow_mod" "\<forall>a \<in> set (fm_actions demo_flow_mod). action_wf a"
    by (simp_all add: demo_flow_mod_fields demo_match_ok)
  from flow_mod_round_trip [OF p this] p show ?thesis by (auto simp: demo_flow_mod_fields)
qed

text \<open>
  C7. A list of actions of any classes is read back by \<^verbatim>\<open>_unpack_actions\<close> from wherever it stands in a
  buffer, and reading stops right behind it.
\<close>

theorem action_list_round_trip:
  assumes "pack_actions as acts = Inr (b, acts')" "\<forall>a \<in> set acts. action_wf a"
  shows "unpack_actions (pre @ b @ r) (int (length b)) (length pre) = Inr (acts', length pre + length b)"
  by (rule unpack_actions_pack [OF assms refl refl])

theorem action_list_round_trip_witness:
  "\<exists>b acts'. pack_actions True [demo_output, demo_output] = Inr (b, acts') \<and>
     unpack_actions (''xy'' @ b @ ''z'') (int (length b)) 2 = Inr (acts', 2 + length b)"
proof -
  obtain b acts' where p: "pack_actions True [demo_output, demo_output] = Inr (b, acts')"
  proof (cases "pack_actions True [demo_output, demo_output]")
    case (Inl e)
    have "case pack_actions True [demo_output, demo_output] of Inl _ \<Rightarrow> False | Inr _ \<Rightarrow> True" by code_simp
    then show ?thesis using Inl by simp
  qed auto
  have "\<forall>a \<in> set [demo_output, demo_output]. action_wf a" by (simp add: demo_flow_mod_fields)
  from action_list_round_trip [OF p this, of "''xy''" "''z''"] p show ?thesis by (auto simp: numeral_2_eq_2)
qed

text \<open>
  A packet-in is read back as it was sent, with the rest of the buffer behind it.
\<close>

lemma packet_in_round_trip:
  assumes "ofp_packet_in_pack as m nx = Inr (Some b, m', nx')" "ofp_packet_in_wf m"
  shows "int (length b) = hlength m' \<and> ofp_packet_in_unpack self (b @ r) = Inr (m', r)"
  using msg_packet_in.pack_length [OF assms(2,1)] msg_packet_in.unpack_pack [OF assms(2,1)] by simp

text \<open>
  A packet-out with its actions and its data is read back as it was sent.
\<close>

lemma packet_out_round_trip:
  assumes "ofp_packet_out_pack as m nx = Inr (Some b, m', nx')" "ofp_packet_out_wf m"
  shows "int (length b) = hlength m' \<and> ofp_packet_out_unpack self (b @ r) = Inr (m', r)"
  using msg_packet_out.pack_length [OF assms(2,1)] msg_packet_out.unpack_pack [OF assms(2,1)] by simp

text \<open>
  A features reply is read back as it was sent, with all its ports, provided the caller has set its
  length and no port's hardware address contains five colons.
\<close>

lemma features_reply_round_trip:
  assumes "ofp_features_reply_pack as m nx = Inr (Some b, m', nx')" "ofp_features_reply_wf m"
  shows "int (length b) = hlength m' \<and> ofp_features_reply_unpack self (b @ r) = Inr (m', r)"
  using msg_features_reply.pack_length [OF assms(2,1)] msg_features_reply.unpack_pack [OF assms(2,1)] by simp

text \<open>
  A flow statistics request cannot be read back from the bytes it packs to: \<^verbatim>\<open>unpack\<close> indexes the byte
  behind them. With more bytes behind it the fields are right but the rest is a single byte.
\<close>

lemma flow_stats_request_unreadable:
  assumes "match_ok (fsq_match m)" "ofp_flow_stats_request_pack as m = Inr (Some b)"
  shows "ofp_flow_stats_request_unpack s b = Inl IndexError \<and>
    ofp_flow_stats_request_unpack s (b @ c # r) = Inr (m\<lparr>fsq_match := wire_form False (fsq_match m)\<rparr>, [c])"
  using flow_stats_request_unpack_pack [OF assms] by simp



subsection \<open>Reading a byte stream\<close>

text \<open>
  C9. However the bytes of a sequence of well-formed messages are cut into non-empty reads, every read returns
  \<^verbatim>\<open>True\<close>, each message is delivered exactly once, in order, and no byte is left in the buffer.
\<close>

theorem stream_is_split:
  assumes "list_all2 (\<lambda>b tm. \<exists>m m' nx nx'. of_msg_wf m \<and> of_msg_pack m nx = Inr (Some b, m', nx') \<and> tm = (msg_type m, received m')) bs ms"
    "\<forall>d \<in> set ds. d \<noteq> []" "concat ds = concat bs"
  shows "read_all h ds [] s = Some (Returned True, [], deliver h ms s)"
proof (rule read_all_stream)
  show "list_all2 framed bs ms"
    using assms(1) by (rule list_all2_mono) (auto intro: of_msg_framed)
qed (use assms in simp_all)

theorem stream_is_split_witness:
  "\<exists>b. read_all (\<lambda>t m n. Suc n) [take 3 b, drop 3 b] [] (0::nat) = Some (Returned True, [], 1)"
proof -
  let ?m = "MHello (ofp_hello_init (\<lambda>m. m))"
  have "packs (of_msg_pack ?m 7)" by code_simp
  then obtain b m' nx' where p: "of_msg_pack ?m 7 = Inr (Some b, m', nx')" by (rule packsE)
  have w: "of_msg_wf ?m" by (simp add: bare_wf_def head_ok_def ofp_hello_init_def header_defaults_def)
  then have l: "8 \<le> length b" using of_msg_framed [OF p] p fr_bare.frame_bytes(1)
    by (auto simp: pack_result_def)
  have "list_all2 (\<lambda>b tm. \<exists>m m' nx nx'. of_msg_wf m \<and> of_msg_pack m nx = Inr (Some b, m', nx') \<and> tm = (msg_type m, received m')) [b] [(msg_type ?m, received m')]"
    using p w by (intro list.rel_intros) blast
  moreover have "\<forall>d \<in> set [take 3 b, drop 3 b]. d \<noteq> []" using l by auto
  ultimately have "read_all (\<lambda>t m n. Suc n) [take 3 b, drop 3 b] [] (0::nat) =
      Some (Returned True, [], deliver (\<lambda>t m n. Suc n) [(msg_type ?m, received m')] 0)"
    by (rule stream_is_split) simp
  then show ?thesis by (auto simp: deliver_def)
qed

text \<open>
  C10. A message that declares a length of zero never leaves the buffer: the loop delivers it for ever,
  whatever the handlers do. Here that is any readable header with length zero.
\<close>

theorem zero_length_spins:
  assumes "4 < length buf" "of_char (buf ! 0) = OFP_VERSION" "buf ! 2 = NUL" "buf ! 3 = NUL"
    "blank_msg (of_char (buf ! 1)) = Inr m0" "of_msg_unpack m0 buf = Inr (m, r)"
  shows "read_loop h buf s = None"
  using assms by (intro read_loop_stuck [of buf "of_char (buf ! 1)" m]) (simp add: next_frame_def Let_def)

theorem zero_length_spins_witness:
  "read_loop (\<lambda>t m (n::nat). Suc n) [CHR 0x01, NUL, NUL, NUL, NUL, NUL, NUL, NUL] 0 = None"
proof -
  let ?b = "[CHR 0x01, NUL, NUL, NUL, NUL, NUL, NUL, NUL]"
  have "case of_msg_unpack (MHello (ofp_hello_init (\<lambda>m. m))) ?b of Inl _ \<Rightarrow> False | Inr _ \<Rightarrow> True" by code_simp
  then obtain m r where "of_msg_unpack (MHello (ofp_hello_init (\<lambda>m. m))) ?b = Inr (m, r)"
    by (cases "of_msg_unpack (MHello (ofp_hello_init (\<lambda>m. m))) ?b") auto
  then show ?thesis by (intro zero_length_spins [where ?m0.0 = "MHello (ofp_hello_init (\<lambda>m. m))"]) (simp_all only: blank_msgs, simp_all add: blank_msgs)
qed

text \<open>
  The loop returns on every buffer in which no position reads as a header with length zero.
\<close>

lemma positive_lengths_return:
  assumes "\<forall>k. frame_advances (drop k buf)"
  shows "\<exists>r. read_loop h buf s = Some r"
  by (rule read_loop_returns [OF assms])

subsection \<open>Identifiers and addresses\<close>

text \<open>
  C11. \<^verbatim>\<open>generateXID\<close> moves by two: from any start its first \<open>2 ^ 30\<close> identifiers are pairwise distinct, below
  \<open>2 ^ 31\<close>, and of the parity of the first.
\<close>

theorem generated_xids_distinct:
  assumes "0 \<le> s" "s < 2 ^ 31" "k \<le> 2 ^ 30"
  shows "distinct (draw generateXID k s) \<and>
    (\<forall>i < k. draw generateXID k s ! i = (s + 2 * int i) mod 2 ^ 31)"
  using generateXID_distinct [OF assms] generateXID_nth [OF assms(1,2)] by blast

theorem generated_xids_distinct_witness: "distinct (draw generateXID 3 (2 ^ 31 - 1))"
  using generated_xids_distinct [of "2 ^ 31 - 1" 3] by simp

text \<open>
  The text form of an Ethernet address, with either separator, is read back as the address.
\<close>

lemma ethernet_text_round_trip:
  assumes "eth_ok e" "sep = CHR '':'' \<or> sep = CHR ''-''"
  shows "EthAddr_init (EaStr (eth_toStr [sep] e)) = Inr e"
  by (rule eth_str_roundtrip [OF assms])

text \<open>
  Six raw bytes make the address they are, except that exactly five bytes \<open>0x3a\<close> among them are taken for
  separators, and the constructor raises.
\<close>

lemma raw_ethernet_five_colons:
  assumes "length s = 6"
  shows "EthAddr_init (EaStr s) = (if count_list s (CHR '':'') = 5 then Inl ValueError else Inr (EthAddr s))"
  using EthAddr_init_raw [OF assms] EthAddr_init_five_colons [OF assms] by simp

text \<open>
  An IPv4 address is recovered from its four raw bytes and from its dotted text.
\<close>

lemma ip_forms_round_trip:
  assumes "ip_ok a"
  shows "\<exists>b s. ip_toRaw a = Inr b \<and> length b = 4 \<and> IPAddr_init (IpStr b) n = Inr a \<and>
    ip_toStr a = Inr s \<and> IPAddr_init (IpStr s) n = Inr a"
proof -
  obtain b where "ip_toRaw a = Inr b" "length b = 4" "IPAddr_init (IpStr b) n = Inr a"
    by (rule ip_raw_roundtrip [OF assms])
  moreover obtain s where "ip_toStr a = Inr s" "IPAddr_init (IpStr s) n = Inr a"
    by (rule ip_str_roundtrip [OF assms])
  ultimately show ?thesis by blast
qed

text \<open>
  The test of \<^verbatim>\<open>inNetwork\<close> for \<open>b\<close> host bits holds exactly when the network is the address with its \<open>b\<close>
  low bits cleared; a network with host bits set contains nothing.
\<close>

lemma network_membership:
  "inNetwork_test self n (int b) = Inr True \<longleftrightarrow>
     (\<forall>i. bit (toUnsigned n False) i \<longleftrightarrow> b \<le> i \<and> bit (toUnsigned self False) i)"
  by (rule inNetwork_test_iff)

text \<open>
  Whatever text \<^verbatim>\<open>parseCIDR\<close> accepts, the count of host bits it returns lies between 0 and 32 and the
  address has no host bit set.
\<close>

lemma parsed_networks_are_aligned:
  assumes "parseCIDR s infer = Inr (a, b)"
  shows "ip_ok a \<and> 0 \<le> b \<and> b \<le> 32 \<and> (\<forall>i < nat b. \<not> bit (toUnsigned a False) i)"
  using parseCIDR_ok [OF assms] by blast

text \<open>
  \<^verbatim>\<open>inferNetMask\<close> gives the host bits of the address's class, 32 for the zero address, and \<^verbatim>\<open>None\<close> for every
  address from \<open>240.0.0.0\<close> on, which \<^verbatim>\<open>parseCIDR\<close> then shifts by.
\<close>

lemma classful_masks:
  "inferNetMask a =
     (let v = toUnsigned a False in
      if v = 0 then Some 32 else if v < 0x80000000 then Some 24 else if v < 0xC0000000 then Some 16
      else if v < 0xE0000000 then Some 8 else if v < 0xF0000000 then Some 0 else None)"
  by (rule inferNetMask_eq)

subsection \<open>Packets\<close>

text \<open>
  Every IPv4 header that is written has the right total length and a checksum that makes the Internet
  checksum of the header zero.
\<close>

lemma ip_header_checks:
  assumes "ipv4_hdr self payload = Inr (b, self')" "ip_v self \<noteq> 0 \<or> ip_hl self \<noteq> 0" "0 \<le> ip_v self" "0 \<le> ip_hl self"
  shows "length b = 20 \<and> ip_len self' = ip_hl self * 4 + int (length payload) \<and> checksum b 0 None = 0"
  using ipv4_hdr_checks [OF assms] by blast

text \<open>
  The checksum of a written ICMP message verifies over the header and the payload, of even or odd length.
\<close>

lemma icmp_message_checks:
  assumes "icmp_hdr self payload = Inr (b, self')" "length payload < 131068" "i_type self \<noteq> 0 \<or> i_code self \<noteq> 0"
  shows "length b = 4 \<and> checksum (b @ payload) 0 None = 0"
  using icmp_hdr_checks [OF assms] by blast

text \<open>
  An MPLS entry whose fields are in range is read back from the four bytes it is written to.
\<close>

lemma mpls_round_trip:
  assumes "mpls_wf m"
  shows "\<exists>b. mpls_hdr m = Inr b \<and> length b = 4 \<and> mpls_parse (b @ payload) = Inr (PMpls (m\<lparr>mp_parsed := True\<rparr>) (RawNext payload))"
  by (rule mpls_unpack_pack [OF assms])

text \<open>
  The tag of a parsed VLAN header is written back as it was when the CFI bit is clear; when it is set,
  writing the header raises.
\<close>

lemma vlan_tag_rewrite:
  assumes "vlan_parse env raw = Inr (PVlan h n)" "4 \<le> length raw"
  shows "if v_c h = Some 0 then vlan_hdr h = Inr (take 4 raw) else vlan_hdr h = Inl StructError"
  by (rule vlan_hdr_parse [OF assms])

text \<open>
  An IP packet with an ICMP payload of fewer than four bytes makes parsing raise, since \<^verbatim>\<open>icmp\<close> does not
  run the base constructor.
\<close>

lemma short_icmp_raises:
  assumes "ipv4_header env raw = Inr (h, Some body)" "ip_protocol h = 1" "length body < 4"
  shows "ipv4_parse env raw = Inl AttributeError"
  by (rule ipv4_short_icmp [OF assms])

text \<open>
  Packing a parsed frame gives the bytes it was parsed from, whenever its payload does.
\<close>

lemma ethernet_repack:
  assumes "ethernet_parse env raw = Inr (PEthernet h n)" "14 \<le> length raw" "payload_pack env None n = Inr (drop 14 raw, n)"
  shows "packet_pack env ip (PEthernet h n) = Inr (raw, PEthernet h n)"
  by (rule ethernet_pack_parse [OF assms])

subsection \<open>Connections\<close>

definition demo_env :: of_env where
  "demo_env = \<lparr>env_nexus = True, miss_send_len = Some 128, clear_flows_on_connect = True, env_time = 5\<rparr>"

lemma demo_env_ok: "config_ok demo_env"
  by (simp add: config_ok_def demo_env_def)

definition after_features :: "of_env \<Rightarrow> ofp_header \<Rightarrow> ofp_features_reply \<Rightarrow> connection \<Rightarrow> connection" where
  "after_features env h f s = dispatch env OFPT_FEATURES_REPLY (MFeaturesReply f) (dispatch env OFPT_HELLO (MHello h) s)"

text \<open>
  C12. The handshake: whatever the transaction counter, after the switch's hello and its features reply the
  last message sent is a barrier with some identifier \<open>x\<close>, the nexus has the connection under the
  switch's datapath identifier, and nothing is announced. A barrier reply with the identifier \<open>x\<close> makes
  the connection up, announced with the switch's features on the nexus and on the connection. A
  barrier reply with another identifier closes it: the identifier is forgotten before the nexus could
  be told, so the nexus keeps the closed connection, and no \<^verbatim>\<open>ConnectionDown\<close> is raised.
\<close>

theorem handshake_completes:
  fixes f :: ofp_features_reply and h :: ofp_header and cid :: nat and n :: "int \<rightharpoonup> nat"
  assumes "config_ok env" "0 \<le> nx" "nx \<le> MAX_XID"
  defines "d \<equiv> fr_datapath_id f"
  defines "s \<equiv> after_features env h f (Connection_init cid n nx)"
  shows "\<exists>x b m bs. bare_pack True (ofp_barrier_request_init (\<lambda>m. m)) x = Inr (Some b, m, next_xid x) \<and> xid m = Some x \<and>
      con_sent s = bs @ [b] \<and> con_events s = [] \<and> nexus_connections s = n(d \<mapsto> cid) \<and>
      (\<forall>r. xid r = Some x \<longrightarrow> dispatch env OFPT_BARRIER_REPLY (MBarrierReply r) s = s\<lparr>con_connect_time := Some (env_time env), con_pending := [],
         con_events := [(AtNexus, BarrierIn (Some d) r), (AtConnection, BarrierIn (Some d) r),
           (AtNexus, ConnectionUp (Some d) f), (AtConnection, ConnectionUp (Some d) f)]\<rparr>) \<and>
      (\<forall>r. xid r \<noteq> Some x \<longrightarrow> dispatch env OFPT_BARRIER_REPLY (MBarrierReply r) s = s\<lparr>con_dpid := None, con_disconnected := True, con_pending := [],
         con_events := [(AtNexus, BarrierIn (Some d) r), (AtConnection, BarrierIn (Some d) r)]\<rparr>)"
proof -
  let ?i = "Connection_init cid n nx"
  obtain b0 where i: "?i = \<lparr>con_ID = cid, con_dpid = None, con_features = None, con_disconnected = False,
      con_connect_time = None, con_has_nexus = False, con_pending = [], con_previous_stats = [],
      con_sent = [b0], con_events = [], nexus_connections = n, next_XID = next_xid nx, next_eid = 0\<rparr>"
    using Connection_init_eq [OF assms(2,3)] by blast
  obtain b1 where h: "handle_HELLO h ?i = (None, ?i\<lparr>con_sent := con_sent ?i @ [b1], next_XID := next_xid (next_XID ?i)\<rparr>)"
    using handle_HELLO_eq [of ?i h] next_xid_range by (auto simp: i)
  let ?h = "?i\<lparr>con_sent := con_sent ?i @ [b1], next_XID := next_xid (next_XID ?i)\<rparr>"
  obtain bs x b m where f: "handle_FEATURES_REPLY env f ?h = (None, ?h\<lparr>con_features := Some f, con_dpid := Some d, con_has_nexus := True,
      con_pending := [\<lparr>pd_id = next_eid ?h, pd_xid = Some x, pd_features = f\<rparr>], con_sent := con_sent ?h @ bs @ [b],
      nexus_connections := (nexus_connections ?h)(d \<mapsto> con_ID ?h), next_XID := next_xid x, next_eid := Suc (next_eid ?h)\<rparr>)"
    and b: "bare_pack True (ofp_barrier_request_init (\<lambda>m. m)) x = Inr (Some b, m, next_xid x)" "xid m = Some x"
    using handshake_waits [of env ?h f] assms(1) next_xid_range by (auto simp: i d_def)
  have s: "s = ?h\<lparr>con_features := Some f, con_dpid := Some d, con_has_nexus := True,
      con_pending := [\<lparr>pd_id = 0, pd_xid = Some x, pd_features = f\<rparr>], con_sent := [b0, b1] @ bs @ [b],
      nexus_connections := n(d \<mapsto> cid), next_XID := next_xid x, next_eid := 1\<rparr>"
    using h f by (simp add: s_def after_features_def dispatch_def handle_def i)
  have p: "con_pending s = [\<lparr>pd_id = 0, pd_xid = Some x, pd_features = f\<rparr>]" "con_has_nexus s" "con_events s = []" "con_dpid s = Some d"
    "con_sent s = ([b0, b1] @ bs) @ [b]" "nexus_connections s = n(d \<mapsto> cid)" by (simp_all add: s i)
  show ?thesis
    using b p barrier_one(2,3) [OF p(1,2), of _ env]
    by (intro exI [of _ x] exI [of _ b] exI [of _ m] exI [of _ "[b0, b1] @ bs"]) (simp add: dispatch_def handle_def)
qed

theorem handshake_completes_witness:
  "\<exists>x b m bs. con_sent (after_features demo_env (ofp_hello_init (\<lambda>m. m)) (ofp_features_reply_init (\<lambda>m. m\<lparr>fr_datapath_id := 7\<rparr>))
      (Connection_init 1 Map.empty 1)) = bs @ [b] \<and> bare_pack True (ofp_barrier_request_init (\<lambda>m. m)) x = Inr (Some b, m, next_xid x)"
  using handshake_completes [OF demo_env_ok, of 1 "ofp_hello_init (\<lambda>m. m)" "ofp_features_reply_init (\<lambda>m. m\<lparr>fr_datapath_id := 7\<rparr>)" 1 Map.empty]
  by (auto simp: MAX_XID_def)

text \<open>
  C13. What always holds of a connection, whatever messages arrive, whenever it is closed and whatever other
  connections do meanwhile: its datapath identifier is that of the features it received; it counts as
  connected exactly when \<^verbatim>\<open>ConnectionUp\<close> was raised on it, and every \<^verbatim>\<open>ConnectionUp\<close> on it was raised on the
  nexus as well; \<^verbatim>\<open>ConnectionDown\<close> is never raised on the connection itself; and a connection that is up or
  waits for its barrier belongs to a nexus.
\<close>

theorem connection_invariant:
  "con_reachable env s \<Longrightarrow>
     (\<forall>d. con_dpid s = Some d \<longrightarrow> (\<exists>f. con_features s = Some f \<and> fr_datapath_id f = d)) \<and>
     (con_connect_time s \<noteq> None \<longleftrightarrow> (\<exists>d f. (AtConnection, ConnectionUp d f) \<in> set (con_events s))) \<and>
     (\<forall>d f. ((AtNexus, ConnectionUp d f) \<in> set (con_events s)) = ((AtConnection, ConnectionUp d f) \<in> set (con_events s))) \<and>
     (\<forall>d. (AtConnection, ConnectionDown d) \<notin> set (con_events s)) \<and>
     (con_pending s \<noteq> [] \<or> con_connect_time s \<noteq> None \<longrightarrow> con_has_nexus s)"
  using con_reachable_ok [of env s] by (simp add: con_ok_iff)

theorem connection_invariant_witness:
  "\<forall>d. (AtConnection, ConnectionDown d) \<notin> set (con_events (con_disconnect (Connection_init 1 Map.empty 1)))"
  using connection_invariant [OF con_reachable.step [OF con_reachable.opened con_step.close]] by blast

text \<open>
  C14. After \<^verbatim>\<open>disconnect\<close>, no step of the connection sends anything or opens it again, however many buffered
  messages are still handled.
\<close>

theorem closed_connection_is_silent:
  assumes "con_disconnected s" "(con_step env)\<^sup>*\<^sup>* s s'"
  shows "con_sent s' = con_sent s \<and> con_disconnected s'"
  using assms(2,1) by (induction rule: rtranclp_induct) (auto dest: silent_step simp: silent_def)

theorem closed_connection_is_silent_witness:
  "con_sent (dispatch demo_env 0 (MHello (ofp_hello_init (\<lambda>m. m))) (con_disconnect (Connection_init 1 Map.empty 1)))
     = con_sent (Connection_init 1 Map.empty 1)"
proof -
  let ?s = "con_disconnect (Connection_init 1 Map.empty 1)"
  have "(con_step demo_env)\<^sup>*\<^sup>* ?s (dispatch demo_env 0 (MHello (ofp_hello_init (\<lambda>m. m))) ?s)"
    by (rule r_into_rtranclp) (rule con_step.message)
  from closed_connection_is_silent [OF _ this] show ?thesis by simp
qed

text \<open>
  A switch that answers a request for port statistics in several parts, each the packing of some of the
  structures: the controller collects the parts and raises, after the last one, exactly one
  \<^verbatim>\<open>PortStatsReceived\<close> on the nexus and on the connection, with all structures in order; no part is left
  over.
\<close>

lemma port_stats_reassembled:
  assumes "stats_run OFPST_PORT x parts" "con_previous_stats s = []"
    "list_all2 (\<lambda>part ms. \<exists>bs. srp_body part = RepBytes (concat bs) \<and> list_all2 (\<lambda>m b. \<exists>as. ofp_port_stats_pack as m = Inr (Some b)) ms bs) parts mss"
  shows "replies parts s = s\<lparr>con_events := con_events s @ raw_events s parts @
    [(nexus_target s, PortStatsReceived parts (concat mss)), (AtConnection, PortStatsReceived parts (concat mss))]\<rparr>"
proof (rule stats_reassembled_event [OF assms(1,2)])
  have "process_stats_body (ofp_port_stats_init (\<lambda>m. m)) ofp_port_stats_unpack (concat bs) = Inr ms"
    if "list_all2 (\<lambda>m b. \<exists>as. ofp_port_stats_pack as m = Inr (Some b)) ms bs" for ms bs
    using that by (intro st_port_stats.process_stats_body_packed) (simp_all add: ofp_port_stats_len_def)
  with assms(3) have "list_all2 (\<lambda>part ms. \<exists>b. srp_body part = RepBytes b \<and>
      process_stats_body (ofp_port_stats_init (\<lambda>m. m)) ofp_port_stats_unpack b = Inr ms) parts mss"
    by (auto elim!: list_all2_mono)
  then show "stats_event OFPST_PORT parts = Inr (PortStatsReceived parts (concat mss))"
    by (simp add: stats_event_def stats_parts_packed)
qed

text \<open>
  When a part waits for its continuation, every reply with another identifier dies in the message for the
  log, which reads an attribute that does not exist: only the raw event of each is raised, and the old
  part stays.
\<close>

lemma unfinished_stats_block_others:
  assumes "con_previous_stats s = q # qs"
    "\<forall>p \<in> set ps. srp_type p \<in> {OFPST_FLOW, OFPST_TABLE, OFPST_PORT, OFPST_QUEUE} \<and> xid p \<noteq> xid q"
  shows "replies ps s = s\<lparr>con_events := con_events s @ raw_events s ps\<rparr> \<and>
    (\<forall>p \<in> set ps. fst (incoming_stats_reply p s) = Some AttributeError)"
  using stats_blocked [OF assms] assms by (auto simp: incoming_stats_reply_def Let_def)

subsection \<open>The switch\<close>

definition demo_packets :: "unit packet_env" where
  "demo_packets = \<lparr>env_ip_id = 0, env_echo_id = 0, other_parse = \<lambda>_ _. Inr (), other_parsed = \<lambda>_. True, other_pack = \<lambda>_. Inr ([], ())\<rparr>"

definition demo_switch_env :: "unit switch_env" where
  "demo_switch_env = \<lparr>se_packets = demo_packets, se_time = 0\<rparr>"

definition demo_ports :: "ofp_phy_port list" where
  "demo_ports = map (\<lambda>n. ofp_phy_port_init (\<lambda>p. p\<lparr>pp_port_no := n, pp_hw_addr := HwEth (EthAddr (replicate 6 (CHR 0x02)))\<rparr>)) [1, 2, 3]"

definition demo_switch :: "unit switch" where
  "demo_switch = set_connection (SwitchImpl_init 7 demo_ports 128 100 1 1)"

lemma demo_switch_fields [simp]:
  "sw_connected demo_switch" "sw_sent demo_switch = []" "sw_next_XID demo_switch = 1" "sw_dpid demo_switch = 7"
  "sw_n_buffers demo_switch = 100" "sw_n_tables demo_switch = 1" "sw_packet_buffer demo_switch = []" "sw_out demo_switch = []"
  "sw_table demo_switch = FlowTable_init" "sw_frames demo_switch = Map.empty" "sw_next_frame demo_switch = 0"
  by (simp_all add: demo_switch_def set_connection_def SwitchImpl_init_def)

lemma demo_switch_ports: "sw_ports demo_switch = map (\<lambda>p. (pp_port_no p, p)) demo_ports"
  by code_simp

lemma demo_switch_reachable: "sw_reachable env demo_switch"
  unfolding demo_switch_def by (intro sw_reachable.connected sw_reachable.created)

lemma opt_result_Some: "(case x of Inr (Some _) \<Rightarrow> True | _ \<Rightarrow> False) \<Longrightarrow> \<exists>b. x = Inr (Some b)"
  by (auto split: sum.splits option.splits)

lemma demo_switch_describable: "describable demo_switch"
proof (rule describableI [where c = 0 and a = "0xdfe"])
  show "get_capabilities (sw_capabilities demo_switch) = Inr 0" "get_actions (sw_capabilities demo_switch) = Inr 0xdfe"
    by code_simp+
  have "list_all (\<lambda>p. case ofp_phy_port_pack True p of Inr (Some _) \<Rightarrow> True | _ \<Rightarrow> False) demo_ports"
    by code_simp
  moreover have "\<forall>p \<in> set demo_ports. ofp_phy_port_wf p"
    by (simp add: demo_ports_def ofp_phy_port_init_def ofp_phy_port_wf_def hw_text_safe_def hw_wire_def eth_ok_def
      eth_toRaw_def eval_nat_numeral)
  ultimately show "\<forall>p \<in> set (map snd (sw_ports demo_switch)). ofp_phy_port_wf p \<and> (\<exists>b. ofp_phy_port_pack True p = Inr (Some b))"
    using opt_result_Some unfolding demo_switch_ports list_all_iff by (auto simp: comp_def)
qed (simp_all add: demo_switch_ports demo_ports_def)

text \<open>A frame of an experimental type, broadcast.\<close>

abbreviation (input) demo_header :: ethernet where
  "demo_header \<equiv> \<lparr>e_parsed = True, e_dst = HwEth (EthAddr (replicate 6 (CHR 0xFF))), e_src = HwEth (EthAddr (replicate 6 (CHR 0x04))), e_type = 0x88B5\<rparr>"

abbreviation (input) demo_payload :: "unit payload" where
  "demo_payload \<equiv> RawNext ''data''"

lemma demo_frame_packs:
  "\<exists>data. packet_pack demo_packets None (PEthernet demo_header demo_payload) = Inr (data, PEthernet demo_header demo_payload) \<and> length data = 18"
proof -
  have "case packet_pack demo_packets None (PEthernet demo_header demo_payload) of
      Inr (data, PEthernet h n) \<Rightarrow> length data = 18 \<and> (h, n) = (demo_header, demo_payload) | _ \<Rightarrow> False"
    by code_simp
  then show ?thesis by (auto split: sum.splits packet.splits)
qed

lemma demo_frame_small: "length data = 18 \<Longrightarrow> small_frame data 1 demo_switch"
  by (simp add: small_frame_def)

lemma demo_frame_misses: "entry_for_packet (sw_table demo_switch) demo_header demo_payload 1 = Inr None"
  unfolding demo_switch_fields by code_simp

text \<open>
  C15. Whatever happens to a switch, in any order: its flow table stays well-formed, every occupied buffer slot
  refers to a frame that exists, each port is stored once and under its own number, and the transaction
  identifier it draws next is in range. This holds after handlers that raise, too.
\<close>

theorem switch_invariant:
  "sw_reachable env s \<Longrightarrow> table_ok (sw_table s) \<and>
     (\<forall>r p. Some (r, p) \<in> set (sw_packet_buffer s) \<longrightarrow> sw_frames s r \<noteq> None) \<and>
     distinct (map fst (sw_ports s)) \<and> (\<forall>n p. (n, p) \<in> set (sw_ports s) \<longrightarrow> pp_port_no p = n) \<and>
     0 \<le> sw_xid_count s \<and> sw_xid_count s \<le> MAX_XID"
  using sw_reachable_ok [of env s] by (fastforce simp: sw_ok_def ports_ok_def)

theorem switch_invariant_witness:
  "distinct (map fst (sw_ports (snd (take_port_down (hd demo_ports) demo_switch))))"
  using switch_invariant [OF sw_reachable.port_down [OF demo_switch_reachable]] by blast

text \<open>
  C16. A frame for which the table has no entry goes nowhere but to the controller: one packet-in is sent,
  whose bytes read back as a message with the frame's bytes, its port and a buffer number. A packet-out
  that names this number and a port sends the frame out of that port, only there, and frees the slot.
\<close>

theorem table_miss_and_release:
  assumes "sw_reachable env s" "sw_connected s" "entry_for_packet (sw_table s) h n in_port = Inr None"
    "packet_pack (se_packets env) None (PEthernet h n) = Inr (data, PEthernet h' n')" "small_frame data in_port s"
    "map_of (sw_ports s) p = Some port" "p < OFPP_MAX"
  shows "\<exists>s1 bytes m. receive_frame env (h, n) in_port s = (None, s1) \<and> sw_sent s1 = sw_sent s @ [bytes] \<and> sw_out s1 = sw_out s \<and>
      (\<forall>self rest. ofp_packet_in_unpack self (bytes @ rest) = Inr (m, rest)) \<and>
      pi_in_port m = in_port \<and> pi_reason m = 0 \<and> pi_data m = Some data \<and>
      (\<forall>po. po_data po = [] \<and> po_buffer_id po = pi_buffer_id m \<and> outputs_to p (po_actions po) \<longrightarrow>
        receive_packet_out env po s1 = (None, s1\<lparr>sw_out := sw_out s @ [((h', n'), port)],
          sw_packet_buffer := (sw_packet_buffer s1)[nat (pi_buffer_id m - 1) := None]\<rparr>))"
proof -
  obtain b bytes m s1 where r: "receive_frame env (h, n) in_port s = (None, s1)" "sw_sent s1 = sw_sent s @ [bytes]"
    "sw_out s1 = sw_out s" "sw_ports s1 = sw_ports s" "sw_frames s1 (sw_next_frame s) = Some (h', n')"
    "\<forall>self rest. ofp_packet_in_unpack self (bytes @ rest) = Inr (m, rest)"
    "pi_in_port m = in_port" "pi_reason m = 0" "pi_data m = Some data" "pi_buffer_id m = b" "1 \<le> b" "buffer_id_ok b"
    "nat (b - 1) < length (sw_packet_buffer s1)" "sw_packet_buffer s1 ! nat (b - 1) = Some (sw_next_frame s, in_port)"
    using receive_frame_miss [OF sw_reachable_ok [OF assms(1)] assms(2-5)] by blast
  have "receive_packet_out env po s1 = (None, s1\<lparr>sw_out := sw_out s @ [((h', n'), port)],
      sw_packet_buffer := (sw_packet_buffer s1)[nat (b - 1) := None]\<rparr>)"
    if "po_data po = []" "po_buffer_id po = b" "outputs_to p (po_actions po)" for po
    using release_buffered [OF r(11,13,14) _ assms(7) that, of port env] assms(6) by (simp add: r(3-5))
  with r show ?thesis by (intro exI [of _ s1] exI [of _ bytes] exI [of _ m]) simp
qed

theorem table_miss_and_release_witness:
  "\<exists>s1 data (m :: ofp_packet_in). receive_frame demo_switch_env (demo_header, demo_payload) 1 demo_switch = (None, s1) \<and> pi_data m = Some data \<and> length data = 18 \<and>
    sw_out (snd (receive_packet_out demo_switch_env (ofp_packet_out_init (\<lambda>po. po\<lparr>po_buffer_id := pi_buffer_id m, po_actions := [output_action 2]\<rparr>)) s1)) =
      [((demo_header, demo_payload), demo_ports ! 1)]"
proof -
  obtain data where d: "packet_pack (se_packets demo_switch_env) None (PEthernet demo_header demo_payload) = Inr (data, PEthernet demo_header demo_payload)"
    "length data = 18" using demo_frame_packs by (auto simp: demo_switch_env_def)
  have p: "map_of (sw_ports demo_switch) 2 = Some (demo_ports ! 1)"
    by (simp add: demo_switch_ports demo_ports_def ofp_phy_port_init_def)
  have m: "(2::int) < OFPP_MAX" by simp
  from table_miss_and_release [OF demo_switch_reachable demo_switch_fields(1) demo_frame_misses d(1) demo_frame_small [OF d(2)] p m]
  obtain s1 and m :: ofp_packet_in where s1: "receive_frame demo_switch_env (demo_header, demo_payload) 1 demo_switch = (None, s1)" "pi_data m = Some data"
    and po: "\<forall>po. po_data po = [] \<and> po_buffer_id po = pi_buffer_id m \<and> outputs_to 2 (po_actions po) \<longrightarrow>
        receive_packet_out demo_switch_env po s1 = (None, s1\<lparr>sw_out := [((demo_header, demo_payload), demo_ports ! 1)],
          sw_packet_buffer := (sw_packet_buffer s1)[nat (pi_buffer_id m - 1) := None]\<rparr>)"
    unfolding demo_switch_fields append_Nil by blast
  have "po_data (ofp_packet_out_init (\<lambda>po. po\<lparr>po_buffer_id := b, po_actions := as\<rparr>)) = []"
    "po_buffer_id (ofp_packet_out_init (\<lambda>po. po\<lparr>po_buffer_id := b, po_actions := as\<rparr>)) = b"
    "po_actions (ofp_packet_out_init (\<lambda>po. po\<lparr>po_buffer_id := b, po_actions := as\<rparr>)) = as" for b as
    by (simp_all add: ofp_packet_out_init_def po_set_data_def)
  with s1 po d(2) show ?thesis by (intro exI [of _ s1] exI [of _ data] exI [of _ m]) simp
qed

text \<open>
  C17. A frame for which the table has an entry that outputs to a port leaves by this port and no other, the
  controller hears nothing, the entry counts the frame with its length, and nothing else of the switch
  changes.
\<close>

theorem flow_forwards:
  assumes "entry_for_packet (sw_table s) h n in_port = Inr (Some e)" "outputs_to p (te_actions e)"
    "packet_pack (se_packets env) None (PEthernet h n) = Inr (data, PEthernet h' n')"
    "map_of (sw_ports s) p = Some port" "p < OFPP_MAX"
  shows "receive_frame env (h, n) in_port s = (None, s\<lparr>sw_frames := (sw_frames s)(sw_next_frame s \<mapsto> (h', n')),
      sw_next_frame := Suc (sw_next_frame s), sw_table := touch_entry e (int (length data)) (se_time env) (sw_table s),
      sw_out := sw_out s @ [((h', n'), port)]\<rparr>)"
  by (rule receive_frame_hit [OF assms])

theorem flow_forwards_witness:
  "\<exists>e. sw_out (snd (receive_frame demo_switch_env (demo_header, demo_payload) 1 (demo_switch\<lparr>sw_table := FlowTable_init\<lparr>ft_table := [e]\<rparr>\<rparr>))) =
    [((demo_header, demo_payload), demo_ports ! 1)]"
proof -
  let ?e = "from_flow_mod 0 (ofp_flow_mod_init (\<lambda>m. m\<lparr>fm_actions := [output_action 2]\<rparr>)) 0"
  let ?s = "demo_switch\<lparr>sw_table := FlowTable_init\<lparr>ft_table := [?e]\<rparr>\<rparr>"
  obtain data where d: "packet_pack (se_packets demo_switch_env) None (PEthernet demo_header demo_payload) = Inr (data, PEthernet demo_header demo_payload)"
    using demo_frame_packs by (auto simp: demo_switch_env_def)
  have "case entry_for_packet (FlowTable_init\<lparr>ft_table := [?e]\<rparr>) demo_header demo_payload 1 of Inr (Some e) \<Rightarrow> True | _ \<Rightarrow> False" by code_simp
  then have e: "entry_for_packet (sw_table ?s) demo_header demo_payload 1 = Inr (Some ?e)"
    by (auto simp: entry_for_packet_def bindE_def split: sum.splits option.splits if_splits)
  have p: "map_of (sw_ports ?s) 2 = Some (demo_ports ! 1)"
    by (simp add: demo_switch_ports demo_ports_def ofp_phy_port_init_def)
  have a: "outputs_to 2 (te_actions ?e)" "(2::int) < OFPP_MAX"
    by (simp_all add: from_flow_mod_def TableEntry_init_def ofp_flow_mod_init_def)
  show ?thesis
    using flow_forwards [OF e a(1) d p a(2)] by (intro exI [of _ ?e]) simp
qed

text \<open>
  Output to \<^verbatim>\<open>OFPP_FLOOD\<close> or \<^verbatim>\<open>OFPP_ALL\<close> sends the frame out of every port once, except the one it came
  in by, and does nothing else.
\<close>

lemma flood_spares_the_ingress:
  assumes "sw_reachable env s" "v = OFPP_FLOOD \<or> v = OFPP_ALL"
  shows "output_packet env r (Some v) in_port s =
    (None, s\<lparr>sw_out := sw_out s @ map (\<lambda>p. (the (sw_frames s r), p)) (filter (\<lambda>p. pp_port_no p \<noteq> in_port) (map snd (sw_ports s)))\<rparr>)"
proof -
  have "\<forall>(n, p) \<in> set (sw_ports s). pp_port_no p = n"
    using switch_ports_numbered [OF sw_reachable_ok [OF assms(1)]] by blast
  then have "map (\<lambda>(n, p). (f, p)) (filter (\<lambda>(n, p). n \<noteq> in_port) (sw_ports s)) =
      map (\<lambda>p. (f, p)) (filter (\<lambda>p. pp_port_no p \<noteq> in_port) (map snd (sw_ports s)))" for f :: "'a frame"
    by (induction "sw_ports s" rule: list.induct) (auto simp: filter_map comp_def case_prod_unfold cong: filter_cong)
  then show ?thesis by (simp add: output_flood [OF sw_reachable_ok [OF assms(1)] assms(2)])
qed

text \<open>
  A packet-out that names the first buffer slot that does not exist raises \<^verbatim>\<open>IndexError\<close>; with any larger
  number, as with an empty slot, nothing happens.
\<close>

lemma buffer_overrun_raises:
  assumes "po_data m = []" "po_buffer_id m > int (length (sw_packet_buffer s))"
  shows "receive_packet_out env m s = (if po_buffer_id m = int (length (sw_packet_buffer s)) + 1 then Some IndexError else None, s)"
  using assms by (simp add: receive_packet_out_def process_from_buffer_def Let_def)

text \<open>
  The action that sets the priority of a frame without a tag replaces everything behind the Ethernet header
  by a tag with nothing behind it, and the frame cannot be packed any more.
\<close>

lemma vlan_priority_loses_payload:
  assumes "\<And>v m. n \<noteq> PktNext (PVlan v m)" "sw_frames s r = Some (h, n)" "avp_type a = OFPAT_SET_VLAN_PCP"
  shows "\<exists>h' v. process_action env r in_port (ActVlanPcp a) s = (None, s\<lparr>sw_frames := (sw_frames s)(r \<mapsto> (h', PktNext (PVlan v NoNext)))\<rparr>) \<and>
    packet_pack (se_packets env) None (PEthernet h' (PktNext (PVlan v NoNext))) = Inl AttributeError"
proof -
  have f: "frame_handler (se_packets env) OFPAT_SET_VLAN_PCP = Some set_vlan_pcp" by (simp add: frame_handler_def)
  show ?thesis
    using vlan_pcp_drops(1) [OF assms(1), where h = h and a = a] vlan_pcp_drops(2) [OF assms(1), where h = h and a = a and env = "se_packets env"]
    by (simp add: process_action_def f assms(2,3)) blast
qed

subsection \<open>Controller and switch together\<close>

text \<open>
  C18. A fresh connection and a switch, each reading the bytes the other has sent: after three rounds the
  connection is up, with the switch's datapath identifier and its port descriptions, \<^verbatim>\<open>ConnectionUp\<close> was
  raised on the nexus and on the connection and nothing else happened, and neither side is waiting for
  bytes. The flows that should be cleared on connecting are still there unless they match everything at
  the default priority; ports, buffers and output of the switch are untouched.
\<close>

theorem switch_connects:
  assumes "config_ok ce" "0 \<le> nx" "nx \<le> MAX_XID" "sw_reachable se s" "sw_connected s" "sw_sent s = []"
    "0 \<le> sw_next_XID s" "sw_next_XID s \<le> MAX_XID" "describable s"
  shows "\<exists>c s' f r. connect se ce \<lparr>lk_con = Connection_init cid n nx, lk_sw = s, lk_to_sw = 0, lk_to_con = 0\<rparr> =
      Some \<lparr>lk_con = c, lk_sw = s', lk_to_sw = length (con_sent c), lk_to_con = length (sw_sent s')\<rparr> \<and>
    fr_datapath_id f = sw_dpid s \<and> fr_ports f = map snd (sw_ports s) \<and>
    con_connect_time c = Some (env_time ce) \<and> \<not> con_disconnected c \<and> con_dpid c = Some (sw_dpid s) \<and> con_pending c = [] \<and>
    nexus_connections c = n(sw_dpid s \<mapsto> cid) \<and>
    con_events c = [(AtNexus, BarrierIn (con_dpid c) r), (AtConnection, BarrierIn (con_dpid c) r),
      (AtNexus, ConnectionUp (con_dpid c) f), (AtConnection, ConnectionUp (con_dpid c) f)] \<and>
    filter (\<lambda>e. \<not> match_all_entry e) (ft_table (sw_table s')) = filter (\<lambda>e. \<not> match_all_entry e) (ft_table (sw_table s)) \<and>
    sw_out s' = sw_out s \<and> sw_ports s' = sw_ports s \<and> sw_packet_buffer s' = sw_packet_buffer s"
  using connect_rounds [OF assms(1-3) sw_reachable_ok [OF assms(4)] assms(5-9)] by blast

theorem switch_connects_witness:
  "\<exists>c s' f. connect demo_switch_env demo_env \<lparr>lk_con = Connection_init 1 Map.empty 1, lk_sw = demo_switch, lk_to_sw = 0, lk_to_con = 0\<rparr> =
      Some \<lparr>lk_con = c, lk_sw = s', lk_to_sw = length (con_sent c), lk_to_con = length (sw_sent s')\<rparr> \<and>
    (AtNexus, ConnectionUp (Some 7) f) \<in> set (con_events c) \<and> map pp_port_no (fr_ports f) = [1, 2, 3]"
proof -
  have "\<exists>c s' f r. connect demo_switch_env demo_env \<lparr>lk_con = Connection_init 1 Map.empty 1, lk_sw = demo_switch, lk_to_sw = 0, lk_to_con = 0\<rparr> =
      Some \<lparr>lk_con = c, lk_sw = s', lk_to_sw = length (con_sent c), lk_to_con = length (sw_sent s')\<rparr> \<and>
    fr_ports f = map snd (sw_ports demo_switch) \<and> con_dpid c = Some 7 \<and>
    con_events c = [(AtNexus, BarrierIn (con_dpid c) r), (AtConnection, BarrierIn (con_dpid c) r),
      (AtNexus, ConnectionUp (con_dpid c) f), (AtConnection, ConnectionUp (con_dpid c) f)]"
    using switch_connects [OF demo_env_ok _ _ demo_switch_reachable _ _ _ _ demo_switch_describable, of 1 demo_switch_env 1 Map.empty]
    unfolding demo_switch_fields by (auto simp: MAX_XID_def)
  then show ?thesis
    by (force simp: demo_switch_ports demo_ports_def ofp_phy_port_init_def)
qed

subsection \<open>The learning switch\<close>

abbreviation (input) demo_host :: "8 word \<Rightarrow> hw" where
  "demo_host n \<equiv> HwEth (EthAddr (replicate 5 (CHR 0x02) @ [char_of (unat n)]))"








text \<open>
  After any sequence of packet-ins, whatever else the handlers did and whether or not they raised, the table
  of a learning switch maps an address to the port of the last frame that had it as its source.
\<close>

lemma l2_learned_table:
  "ls_macToPort (l2_run env evs (LearningSwitch_init c transparent)) =
     map_of (rev (List.map_filter (seen env) (map snd evs)))"
  by (simp add: l2_run_table LearningSwitch_init_def)



subsection \<open>Topology\<close>

text \<open>Two switches that have come up, and the links that their probes find.\<close>

abbreviation demo_con :: connection where
  "demo_con \<equiv> Connection_init 1 Map.empty 1"

definition demo_discovery :: discovery where
  "demo_discovery = (Discovery_init False False 1)\<lparr>dc_dps := {1, 2}\<rparr>"


lemma demo_safe: "hw_text_safe (demo_host 1)"
  by (simp add: hw_text_safe_def hw_wire_def eth_ok_def eth_toRaw_def)

definition demo_probe_in :: "bytes \<Rightarrow> ofp_packet_in" where
  "demo_probe_in data = ofp_packet_in_init (\<lambda>m. m\<lparr>pi_in_port := 1, pi_data := Some data\<rparr>)"

lemma demo_probe_fields: "pi_in_port (demo_probe_in data) = 1" "pi_data (demo_probe_in data) = Some data"
  by (simp_all add: demo_probe_in_def ofp_packet_in_init_def)






text \<open>
  C22. A probe finds its link. For every port of a connected switch the packet-out that discovery prepares can be
  read from its bytes and sends one frame out of exactly this port; and when that frame arrives at any
  other switch port, byte for byte as it was packed, the link between the two ports is entered with the
  current time, the event is raised exactly if the link is new, and no other handler sees the packet.
\<close>

theorem probe_discovers_link:
  assumes "0 \<le> dpid" "dpid < 2 ^ 64" "0 \<le> p" "p \<le> OFPP_MAX" "hw_text_safe a" "0 \<le> nx" "nx \<le> MAX_XID"
    "dpid \<in> dc_dps s" "(dpid', q) \<noteq> (dpid, p)"
  shows "\<exists>b nx' m data. create_discovery_packet env dpid p a nx = Inr (b, nx') \<and>
    (\<forall>r. next_frame (b @ r) = Inr (Frame OFPT_PACKET_OUT (MPacketOut m) r)) \<and> outputs_to p (po_actions m) \<and> po_data m = data \<and>
    (\<forall>ofp. pi_data ofp = Some data \<and> pi_in_port ofp = q \<and> (\<not> dc_explicit_drop s \<or> pi_buffer_id ofp = -1) \<longrightarrow>
       (\<exists>s'. dc_PacketIn env now dpid' ofp (c, s) = (Inr True, (c, s')) \<and>
          map_of (dc_adjacency s') = (map_of (dc_adjacency s))(Link dpid p dpid' q \<mapsto> now) \<and>
          dc_events s' = dc_events s @ (if map_of (dc_adjacency s) (Link dpid p dpid' q) = None then [(True, Link dpid p dpid' q)] else [])))"
proof -
  obtain b m data k where b: "create_discovery_packet env dpid p a nx = Inr (b, next_xid nx)" "framed b (OFPT_PACKET_OUT, MPacketOut m)"
    "po_data m = data" "outputs_to p (po_actions m)" "probe_frame env dpid p a = Inr (data, k)"
    using probe_packet [OF assms(1-7)] by blast
  have read: "next_frame (b @ r) = Inr (Frame OFPT_PACKET_OUT (MPacketOut m) r)" for r
    using b(2) unfolding framed_def by (metis fst_conv snd_conv)
  have found: "dc_PacketIn env now dpid' ofp (c, s) = (Inr True, (c, found_link now (Link dpid p dpid' q) s))"
    if "pi_data ofp = Some data \<and> pi_in_port ofp = q \<and> (\<not> dc_explicit_drop s \<or> pi_buffer_id ofp = -1)" for ofp
    using probe_arrives [OF assms(1-5) b(5) assms(8), of dpid' ofp now c] that assms(9) by simp
  show ?thesis
    using b(1,3,4) read found found_link_known [of now "Link dpid p dpid' q" s] by blast
qed

theorem probe_discovers_link_witness:
  "\<exists>data s'. dc_PacketIn demo_packets 3 2 (demo_probe_in data) (demo_con, demo_discovery) = (Inr True, (demo_con, s')) \<and>
     map_of (dc_adjacency s') = [Link 1 1 2 1 \<mapsto> 3] \<and> dc_events s' = [(True, Link 1 1 2 1)]"
proof -
  have d: "1 \<in> dc_dps demo_discovery" "\<not> dc_explicit_drop demo_discovery" "dc_adjacency demo_discovery = []" "dc_events demo_discovery = []"
    by (simp_all add: demo_discovery_def Discovery_init_def)
  have n: "(0::int) \<le> 1" "(1::int) < 2 ^ 64" "(1::int) \<le> OFPP_MAX" "(1::int) \<le> MAX_XID" "(2::int, 1::int) \<noteq> (1, 1)" by (simp_all add: MAX_XID_def)
  obtain data where data: "\<And>ofp. pi_data ofp = Some data \<and> pi_in_port ofp = 1 \<and> (\<not> dc_explicit_drop demo_discovery \<or> pi_buffer_id ofp = -1) \<longrightarrow>
       (\<exists>s'. dc_PacketIn demo_packets 3 2 ofp (demo_con, demo_discovery) = (Inr True, (demo_con, s')) \<and>
          map_of (dc_adjacency s') = (map_of (dc_adjacency demo_discovery))(Link 1 1 2 1 \<mapsto> 3) \<and>
          dc_events s' = dc_events demo_discovery @ (if map_of (dc_adjacency demo_discovery) (Link 1 1 2 1) = None then [(True, Link 1 1 2 1)] else []))"
    using probe_discovers_link [OF n(1,2,1,3) demo_safe n(1,4) d(1) n(5), of demo_packets 3 demo_con] by blast
  show ?thesis using data [of "demo_probe_in data"] d by (auto simp: demo_probe_fields)
qed

text \<open>
  The round robin: as many ticks of the timer as there are probes send every probe once, in the order of the
  queue, to the switch it belongs to, and the queue is afterwards as it was.
\<close>

lemma probe_cycle:
  "seq (replicate (length (dc_packets s)) timerHandler) s =
     (None, s\<lparr>dc_probes := dc_probes s @ map (\<lambda>(d, _, b). (d, b)) (dc_packets s)\<rparr>)"
  using probe_round [of "dc_packets s" "length (dc_packets s)" s "[]"] by simp



subsection \<open>Spanning tree\<close>












text \<open>
  A switch that has lost its last two-way link is not in the tree, and the link handler sends it nothing and
  leaves what it remembers of its ports: a port that was blocked for an earlier tree stays blocked.
\<close>

lemma left_out_ports_stay:
  assumes "links = map fst (dc_adjacency d)" "loop_free_links links" "switches_of links \<subseteq> set order"
    "\<forall>v w. (v, w) \<in> joined links \<longrightarrow> w \<in> set (ord v)" "st_ok s" "x \<notin> Field (joined links)"
    "\<forall>t. calc_spanning_tree order ord links = Some (Inr t) \<longrightarrow> set keys = dom t"
  shows "\<exists>s'. st_handle order ord keys d s = Some (None, s') \<and> st_connections s' x = st_connections s x \<and>
    (\<forall>n. st_prev s' (x, n) = st_prev s (x, n))"
proof -
  obtain t where t: "calc_spanning_tree order ord links = Some (Inr t)" "tree_ok links t"
    using calc_spans [OF assms(2,3,4)] by blast
  have "dom t \<subseteq> Field (joined links)"
    using t(2) tree_edges_joined [OF t(2)] unfolding tree_ok_def by (metis mono_Field)
  then have "t x = None" using assms(6) by blast
  have keys: "set keys = dom t" using assms(7) t(1) by blast
  obtain s' where s': "st_handle order ord keys d s = Some (None, s')" "\<forall>x. t x = None \<longrightarrow> st_connections s' x = st_connections s x"
    "\<forall>x n. st_prev s' (x, n) = (case (st_features s x, t x) of
        (Some f, Some ports) \<Rightarrow> if n \<in> real_ports f then Some (floods d x ports n) else st_prev s (x, n)
      | _ \<Rightarrow> st_prev s (x, n))"
    using st_handle_ok [OF assms(5) t(1) [unfolded assms(1)] keys] by blast
  have "st_prev s' (x, n) = st_prev s (x, n)" for n
    using s'(3) [rule_format, of x n] \<open>t x = None\<close> by (simp split: option.splits)
  then show ?thesis using s'(1,2) \<open>t x = None\<close> by blast
qed

text \<open>
  A cable between two ports of one switch passes the loop test of discovery, which compares port numbers
  too; while the link is known every calculation of the spanning tree fails with an assertion, outside
  the handler's \<^verbatim>\<open>try\<close>, and no switch is told anything.
\<close>

lemma loop_cable_stops_tree:
  assumes "switches_of (map fst (dc_adjacency (found_link now (Link a p a q) d))) \<subseteq> set order"
  shows "st_handle order ord keys (found_link now (Link a p a q) d) s = Some (Some AssertionError, s)"
proof -
  have "Link a p a q \<in> set (map fst (dc_adjacency (found_link now (Link a p a q) d)))"
    using found_link_known(1) [of now "Link a p a q" d] by (metis fun_upd_same map_of_eq_None_iff option.distinct(1) set_map)
  from calc_self_link [OF this _ assms] show ?thesis by (simp add: st_handle_def)
qed

subsection \<open>Events\<close>

definition demo_key :: event_key where
  "demo_key = Cls 1 ''PacketIn''"

definition demo_source :: "nat event_source" where
  "demo_source = snd (snd (perform (Subscribe demo_key 7 False None) (\<lparr>ev_type = demo_key, ev_halt = False\<rparr>, EventMixin_init (Some [demo_key]) 0)))"

lemma demo_source_reachable: "es_reachable demo_source"
  unfolding demo_source_def by (intro es_reachable.intros)

lemma demo_source_value:
  "es_events demo_source = Some [demo_key]"
  "listeners demo_source demo_key = [\<lparr>lt_priority = None, lt_handler = 7, lt_once = False, lt_eid = 1\<rparr>]"
  by (simp_all add: demo_source_def addListener_def event_named_def EventMixin_init_def bind_list_def generateEventID_def
      add_entry_in_place_def listeners_def Let_def)

text \<open>
  C26. Raising an event is equivalent to a walk along the listeners as they were when it was raised, in that order,
  if no handler subscribes: removals, those of the handlers and those of the loop itself, bind new lists.
  In particular raising returns.
\<close>

theorem raising_is_a_snapshot:
  assumes "es_reachable (snd st)" "\<And>h. list_all leaves (fst (code h))"
    "case es_events (snd st) of None \<Rightarrow> True | Some es \<Rightarrow> ev_type ev \<in> set es"
  shows "raiseEvent (scripted code) (RaiseEvent ev) st = Some (raise_snapshot (scripted code) ev st)"
  using raise_is_snapshot [OF reachable_ok [OF assms(1)] assms(2,3)] by (simp add: raiseEvent_def)

theorem raising_is_a_snapshot_witness:
  "raiseEvent (scripted (\<lambda>_. ([Unsubscribe (RefEid 1) None], RvTrue))) (RaiseEvent \<lparr>ev_type = demo_key, ev_halt = False\<rparr>) ([], demo_source) =
    Some (raise_snapshot (scripted (\<lambda>_. ([Unsubscribe (RefEid 1) None], RvTrue))) \<lparr>ev_type = demo_key, ev_halt = False\<rparr> ([], demo_source))"
  by (rule raising_is_a_snapshot) (simp_all add: demo_source_reachable demo_source_value)

text \<open>
  The comment in \<^verbatim>\<open>raiseEvent\<close> promises a copy, but the loop walks the list itself: when the listeners of an event
  subscribe their handler again, which appends to that list, raising it never returns.
\<close>

lemma self_subscription_never_returns:
  assumes "es_reachable src" "listeners src k \<noteq> []" "case es_events src of None \<Rightarrow> True | Some es \<Rightarrow> k \<in> set es"
    "\<forall>e \<in> set (listeners src k). lt_handler e = h \<and> \<not> lt_once e" "code h = ([Subscribe k h False p], RvNone)" "ev_type ev = k"
  shows "raiseEvent (scripted code) (RaiseEvent ev) (trail, src) = None"
  using raise_self_subscribing [OF reachable_ok [OF assms(1)] assms(2-4), where code = code and p = p and ev = ev and log = trail] assms(5,6) by (simp add: raiseEvent_def)

text \<open>
  C27. In every state a program can bring a source to, by subscribing, removing, binding methods, clearing and raising
  events whose handlers do so too, the listeners of each event are ordered by priority, with those that have none
  last, and by the time of subscription among equals. The stable sort is only run when a priority is given.
\<close>

theorem listeners_stay_ordered:
  assumes "es_reachable src"
  shows "sorted_wrt before (listeners src k)"
  using listeners_sorted [OF reachable_ok [OF assms]] by blast

theorem listeners_stay_ordered_witness:
  "sorted_wrt before (listeners demo_source demo_key)"
  by (rule listeners_stay_ordered [OF demo_source_reachable])

text \<open>
  Removing a listener by its number removes exactly that one, wherever it is. The number together with an event type
  reads a local that is not assigned yet, and a handler without an event type one that is never assigned.
\<close>

lemma removal_forms:
  assumes "es_reachable src"
  shows "(\<exists>src'. removeListener (RefEid eid) None src = (Inr (\<exists>k. \<exists>e \<in> set (listeners src k). lt_eid e = eid), src') \<and>
      (\<forall>k. listeners src' k = filter (\<lambda>e. lt_eid e \<noteq> eid) (listeners src k))) \<and>
    removeListener (RefEid eid) (Some k) src = (Inl NameError, src) \<and>
    (es_handlers src \<noteq> [] \<longrightarrow> fst (removeListener (RefHandler h) None src) = Inl NameError)"
  using remove_by_eid [OF reachable_ok [OF assms]] by (auto simp: removeListener_def split: list.split)

subsection \<open>Paths across the network\<close>

text \<open>
  C28. The three nested loops and the recursive reading of a path, together: between two different known switches
  the answer is nothing when no walk connects them, and otherwise the ports along a walk of least length,
  which visits no switch twice. The recursion always ends and the assertion never fails.
\<close>

theorem paths_are_shortest:
  assumes "src \<in> set sws" "dst \<in> set sws" "src \<noteq> dst"
  shows "(get_path adj (calc_paths adj sws) src dst q = Some (Inr None) \<and> (\<forall>xs. set xs \<subseteq> set sws \<longrightarrow> \<not> walk adj src xs dst)) \<or>
    (\<exists>xs r. get_path adj (calc_paths adj sws) src dst q = Some (Inr (Some r)) \<and> shortest adj (set sws) src xs dst \<and>
       leads adj src r dst q \<and> map fst r = src # xs @ [dst])"
  by (rule calculated.finds [OF assms])

theorem paths_are_shortest_witness:
  "\<exists>r xs. get_path (\<lambda>a b. if b = a + 1 then Some 7 else None) (calc_paths (\<lambda>a b. if b = a + 1 then Some 7 else None) [3, 1, 2]) 1 3 9 = Some (Inr (Some r)) \<and>
    map fst r = 1 # xs @ [3]"
proof -
  let ?adj = "\<lambda>a b. if b = a + 1 then Some 7 else (None :: int option)"
  have "walk ?adj 1 ([] @ 2 # []) 3" unfolding walk_split by simp
  then have w: "set [2] \<subseteq> set [3, 1, 2 :: int] \<and> walk ?adj 1 [2] 3" by simp
  show ?thesis using paths_are_shortest [of 1 "[3, 1, 2]" 3 ?adj 9] w by force
qed


definition demo_up :: "int \<Rightarrow> connection" where
  "demo_up d = demo_con\<lparr>con_dpid := Some d, con_features := Some (ofp_features_reply_init (\<lambda>m. m))\<rparr>"










text \<open>
  A switch that goes down stays among the known switches without a connection, and from then on every link event
  ends in an exception while the flows are being cleared: map, paths and addresses stay as they were, stale.
\<close>

lemma down_switch_freezes_the_map:
  assumes "x \<in> dom (lm_switches s)" "set order = dom (lm_switches s)"
  shows "\<exists>e s'. lm_LinkEvent order links added l (lm_ConnectionDown x s) = (Some e, s') \<and> lm_adjacency s' = lm_adjacency s \<and>
    lm_path_map s' = lm_path_map s \<and> lm_mac_map s' = lm_mac_map s"
proof -
  let ?s = "lm_ConnectionDown x s"
  have "x \<in> dom (lm_switches ?s)" "set order = dom (lm_switches ?s)" "lm_connection ?s x = None"
    using assms by (auto simp: lm_ConnectionDown_def lm_connection_def fs_disconnect_def)
  from link_event_stops [OF this, of links added l] show ?thesis by (auto simp: same_network_def lm_ConnectionDown_def)
qed

subsection \<open>The routers of the course\<close>

definition demo_transport :: transport where
  "demo_transport = \<lparr>tr_send = \<lambda>_ _. None, tr_str = \<lambda>_. ''conn''\<rparr>"

definition demo_router_con :: connection where
  "demo_router_con = (demo_up 1)\<lparr>con_features := Some (ofp_features_reply_init (\<lambda>m. m\<lparr>fr_ports :=
     [(demo_ports ! 0)\<lparr>pp_name := ''sw0-eth1'', pp_port_no := 1\<rparr>]\<rparr>))\<rparr>"

definition demo_system_0 :: sr_system where
  "demo_system_0 = \<lparr>sy_server = SRServerListener_init, sy_handlers = [], sy_next_XID = 1\<rparr>"

definition demo_system_1 :: sr_system where
  "demo_system_1 = snd (sy_ConnectionUp [''eth1'' \<mapsto> ''192.168.2.1''] False [''eth1''] demo_router_con demo_system_0)"

definition demo_system :: sr_system where
  "demo_system = snd (at_server (sr_new_client demo_transport ''salt'' 7) demo_system_1)"





lemma demo_system_reachable: "sy_reachable demo_packets [''eth1'' \<mapsto> ''192.168.2.1''] demo_system"
  unfolding demo_system_def demo_system_1_def demo_system_0_def by (intro sy_reachable.intros)

text \<open>
  C31. Every message between controller and routers is read as it was written, as long as its texts have no zero bytes
  and fit their fields and the addresses of its filters are in the usual notation.
\<close>

theorem vns_messages_survive:
  assumes "vns_wf m"
  shows "\<exists>b. vns_pack m = Inr b \<and> vns_unpack (get_type m) b = Some (Inr m)"
  by (rule vns_trip [OF assms])

theorem vns_messages_survive_witness:
  "\<exists>b. vns_pack (MPacket (VNSPacket_init ''eth1'' ''frame'')) = Inr b \<and> vns_unpack 4 b = Some (Inr (MPacket (VNSPacket_init ''eth1'' ''frame'')))"
proof -
  have "vns_wf (MPacket (VNSPacket_init ''eth1'' ''frame''))" by (simp add: VNSPacket_init_def fits_def)
  from vns_messages_survive [OF this] show ?thesis by (simp del: vns_unpack_simps)
qed

text \<open>
  C32. What a message declares as its length is the length of its body. Two classes err: a template declares thirty bytes
  too many, because its header already counts them, and an authentication reply declares four too few, because the
  count of the name is forgotten.
\<close>

theorem vns_declared_lengths:
  assumes "vns_pack m = Inr b"
  shows "int (vns_length m) = int (length b) + (case m of MOpenTemplate _ \<Rightarrow> 30 | MAuthReply _ \<Rightarrow> -4 | _ \<Rightarrow> 0)"
  using vns_body_length [OF assms] by (cases m) simp_all

theorem vns_declared_lengths_witness:
  "\<exists>b. vns_pack (MAuthReply (VNSAuthReply_init ''user'' ''hash'')) = Inr b \<and> length b = 12 \<and> vns_length (MAuthReply (VNSAuthReply_init ''user'' ''hash'')) = 8"
proof -
  have "case vns_pack (MAuthReply (VNSAuthReply_init ''user'' ''hash'')) of Inr b \<Rightarrow> length b = 12 | _ \<Rightarrow> False" by code_simp
  then obtain b where b: "vns_pack (MAuthReply (VNSAuthReply_init ''user'' ''hash'')) = Inr b" "length b = 12" by (auto split: sum.splits)
  show ?thesis using vns_declared_lengths [OF b(1)] b by simp
qed

text \<open>
  A closing text of any length is sent as banners and one closing message: every one of them is read as it was written,
  and their texts in order are the whole text. There is one message for every 255 characters and one more, so a text
  whose length is a multiple of 255 ends with an empty one.
\<close>

lemma texts_are_split:
  assumes "NUL \<notin> set msg"
  shows "\<exists>bs c. get_banners_and_close msg = map MBanner bs @ [MClose c] \<and> length bs = length msg div 255 \<and>
    concat (map vb_msg bs) @ vc_msg c = msg \<and> length (vc_msg c) = length msg mod 255 \<and>
    (\<forall>m \<in> set (get_banners_and_close msg). \<exists>b. vns_pack m = Inr b \<and> vns_unpack (get_type m) b = Some (Inr m))"
proof -
  obtain bs c where b: "get_banners_and_close msg = map MBanner bs @ [MClose c]" "length bs = length msg div 255" "length (vc_msg c) = length msg mod 255"
    using banners_then_close [of msg] by blast
  have "concat (map vb_msg bs) @ vc_msg c = msg" using split_texts(1) [of msg] b(1) by (simp add: comp_def)
  then show ?thesis using b vns_trip [OF pieces_wf [OF assms]] by blast
qed

text \<open>
  C33. Whatever happens, switches that connect, frames, messages of clients, errors of the transport in between: each
  name the server maps to a port stems from a port with a name and conversely, every interface it describes has
  addresses of the right size, every client is authenticated, and nothing is sent to anyone who did not connect.
\<close>

theorem router_state_invariant:
  assumes "sy_reachable env R y"
  shows "server_ok (sy_server y)"
  by (rule sy_reachable_ok [OF assms])

theorem router_state_invariant_witness: "sy_reachable demo_packets [''eth1'' \<mapsto> ''192.168.2.1''] demo_system \<and> server_ok (sy_server demo_system)"
  using demo_system_reachable router_state_invariant by blast







subsection \<open>Cooperative tasks\<close>

lemma napping_plain: "plain_env napping"
  by (simp add: plain_env_def napping_def)


definition two_tasks :: "unit recoco" where
  "two_tasks = snd (spawn KUser (snd (spawn KUser (Scheduler_init ()))))"

lemma two_tasks_reachable: "rc_reachable napping False 0 two_tasks"
proof -
  have "rc_run napping False (0 + 0) (0, Scheduler_init ()) (0, snd (spawn KUser (Scheduler_init ())))"
    by (intro rc_run.further [OF rc_run.stay] rc_step.begin_task) simp
  then have "rc_run napping False (0 + 0 + 0) (0, Scheduler_init ()) (0, two_tasks)"
    unfolding two_tasks_def by (rule rc_run.further) (intro rc_step.begin_task, simp)
  then show ?thesis unfolding rc_reachable_def by blast
qed

lemma two_tasks_ready: "rc_ready two_tasks = [1] @ 2 # []" "\<not> rc_hasQuit two_tasks"
  by (simp_all add: two_tasks_def rc_eval)

text \<open>
  C37. Whatever the two threads do and however their steps interleave, a task is in one place: ready, waiting in the hub, on its way to the
  hub or in a thread of its own, as long as no task is woken by other code. So no task is scheduled twice and the thread of the
  hub lives. Nothing was ever sent by the operation that sends.
\<close>

theorem task_in_one_place:
  assumes "rc_reachable env False now s" "plain_env env"
  shows "distinct (rc_ready s @ map fst (hub_incoming s) @ map fst (rc_threads s)) \<and>
    (\<forall>t \<in> set (rc_ready s @ map fst (hub_incoming s) @ map fst (rc_threads s)). hub_tasks s t = None) \<and> \<not> hub_dead s \<and> rc_sent s = []"
  using rc_reachable_ok [OF assms] by (simp add: rc_ok_core core_ok_def once_def queue_def)

theorem task_in_one_place_witness: "rc_reachable napping False 0 two_tasks \<and> rc_ready two_tasks = [1, 2] \<and> \<not> hub_dead two_tasks"
  using task_in_one_place [OF two_tasks_reachable napping_plain] two_tasks_reachable two_tasks_ready by simp






end
